(* ===== verification/Prelude.thy ===== *)
theory Prelude
  imports
    Main
    "HOL-Library.Word"
    "HOL-Library.Char_ord"
    "HOL-Library.List_Lexorder"
    "HOL-Library.Sublist"
begin

text \<open>
  Shared vocabulary of the development: Go error values, the result type, maps kept as
  association lists, the fault schedule that decides which I/O calls fail, and the lemma
  collections the component theories add to.

  \<^item> \<open>err\<close> is a Go \<open>error\<close>: the kind is what survives wrapping (what \<open>errors.Is\<close> or
    \<open>errors.As\<close> can still find), the message is what \<open>Error()\<close> prints.
  \<^item> \<open>'a res\<close> is a Go result pair: \<open>Inl\<close> the error, \<open>Inr\<close> the value.
  \<^item> a panic is the error kind \<open>KPanic\<close>, which no wrapping changes.
\<close>

named_theorems go_def \<open>definitions of the model unfolded together\<close>
named_theorems frame \<open>what an operation leaves unchanged\<close>

section \<open>Errors\<close>

text \<open>
  \<open>KNoRows\<close>: \<open>sql.ErrNoRows\<close>.  \<open>KNotExist\<close>: a \<open>PathError\<close> for a missing file, not wrapped
  (\<open>os.IsNotExist\<close> sees it); \<open>KNotExistW\<close>: the same after \<open>%w\<close> wrapping, which only
  \<open>errors.Is\<close> sees.  \<open>KApiNotFound\<close>: an API server not-found status;
  \<open>KNoMatch\<close>: a kind the server does not know.  \<open>KIO\<close>: a failed
  driver, file or network call.
\<close>

datatype ekind =
    KPlain | KIO | KNoRows | KNotExist | KNotExistW | KApiNotFound
  | KSealedOverwrite | KMemoConflict | KCanceled | KPanic | KNoMatch

datatype err = Err (err_kind: ekind) (err_msg: string)

type_synonym 'a res = "err + 'a"

definition errorf :: "string \<Rightarrow> err" where
  "errorf m = Err KPlain m"

definition panic :: "string \<Rightarrow> err" where
  "panic m = Err KPanic m"

fun wrap_kind :: "ekind \<Rightarrow> ekind" where
  "wrap_kind KNotExist = KNotExistW"
| "wrap_kind k = k"

text \<open>\<open>fmt.Errorf("pre: %w", err)\<close>; a panic passes through unchanged.\<close>

fun wrapf :: "string \<Rightarrow> err \<Rightarrow> err" where
  "wrapf pre (Err k m) = (if k = KPanic then Err k m else Err (wrap_kind k) (pre @ '': '' @ m))"

definition is_no_rows :: "err \<Rightarrow> bool" where
  "is_no_rows e = (err_kind e = KNoRows)"

text \<open>\<open>errors.Is(err, os.ErrNotExist)\<close> looks through \<open>%w\<close>; \<open>os.IsNotExist\<close> does not.\<close>

definition errors_is_not_exist :: "err \<Rightarrow> bool" where
  "errors_is_not_exist e = (err_kind e = KNotExist \<or> err_kind e = KNotExistW)"

definition os_is_not_exist :: "err \<Rightarrow> bool" where
  "os_is_not_exist e = (err_kind e = KNotExist)"

definition is_no_match :: "err \<Rightarrow> bool" where
  "is_no_match e = (err_kind e = KNoMatch)"

definition api_is_not_found :: "err \<Rightarrow> bool" where
  "api_is_not_found e = (err_kind e = KApiNotFound)"

definition err_no_rows :: err where
  "err_no_rows = Err KNoRows ''sql: no rows in result set''"

definition err_canceled :: err where
  "err_canceled = Err KCanceled ''context canceled''"

lemma wrap_kind_api [simp]: "wrap_kind k = KApiNotFound \<longleftrightarrow> k = KApiNotFound"
  by (cases k) auto

lemma api_is_not_found_wrapf [simp]: "api_is_not_found (wrapf p e) = api_is_not_found e"
  by (cases e) (auto simp: api_is_not_found_def)

section \<open>Results\<close>

fun bindr :: "'a res \<Rightarrow> ('a \<Rightarrow> 'b res) \<Rightarrow> 'b res" where
  "bindr (Inl e) f = Inl e"
| "bindr (Inr x) f = f x"

fun is_ok :: "'a res \<Rightarrow> bool" where
  "is_ok (Inl _) = False"
| "is_ok (Inr _) = True"

lemma bindr_Inr_iff: "bindr r f = Inr y \<longleftrightarrow> (\<exists>x. r = Inr x \<and> f x = Inr y)"
  by (cases r) auto

lemma bindr_Inl_iff: "bindr r f = Inl e \<longleftrightarrow> r = Inl e \<or> (\<exists>x. r = Inr x \<and> f x = Inl e)"
  by (cases r) auto

lemma is_ok_iff: "is_ok r \<longleftrightarrow> (\<exists>x. r = Inr x)"
  by (cases r) auto

section \<open>Fault schedules\<close>

text \<open>
  A call to a database, a file system or a network peer can fail at any time.  A component
  that makes such calls carries a schedule: the i-th entry says whether the i-th call fails,
  and with which driver message.  Past the end of the schedule every call succeeds, so the
  empty schedule is the fault-free run, and a theorem for all schedules covers every
  pattern of failures.
\<close>

type_synonym faults = "string option list"

definition io_err :: "string \<Rightarrow> err" where
  "io_err m = Err KIO (''i/o error: '' @ m)"

fun next_fault :: "faults \<Rightarrow> err option \<times> faults" where
  "next_fault [] = (None, [])"
| "next_fault (f # fs) = (map_option io_err f, fs)"

definition no_faults :: "faults \<Rightarrow> bool" where
  "no_faults fs = list_all (\<lambda>f. f = None) fs"

lemma next_fault_no_faults:
  "no_faults fs \<Longrightarrow> \<exists>fs'. next_fault fs = (None, fs') \<and> no_faults fs'"
  by (cases fs) (auto simp: no_faults_def)

lemma next_fault_SomeD:
  "next_fault fs = (Some e, fs') \<Longrightarrow> \<exists>m. e = io_err m"
  by (cases fs) auto

lemma io_err_kind [simp]: "err_kind (io_err m) = KIO"
  by (simp add: io_err_def)

section \<open>Association lists as Go maps\<close>

text \<open>\<open>m[k] = v\<close> on a map kept as an association list with distinct keys.\<close>

fun aput :: "'k \<Rightarrow> 'v \<Rightarrow> ('k \<times> 'v) list \<Rightarrow> ('k \<times> 'v) list" where
  "aput k v [] = [(k, v)]"
| "aput k v ((k', v') # m) = (if k = k' then (k, v) # m else (k', v') # aput k v m)"

lemma map_of_aput [simp]: "map_of (aput k v m) = (map_of m)(k \<mapsto> v)"
  by (induction m) auto

lemma fst_set_aput [simp]: "fst ` set (aput k v m) = insert k (fst ` set m)"
proof (induction m)
  case (Cons p m)
  then show ?case by (cases p) (simp add: insert_commute)
qed simp

lemma distinct_aput: "distinct (map fst m) \<Longrightarrow> distinct (map fst (aput k v m))"
proof (induction m)
  case (Cons p m)
  have "fst ` set (aput k v m) = insert k (fst ` set m)" by simp
  with Cons show ?case by (cases p) auto
qed simp

section \<open>Machine integers\<close>

lemma sint64_of_int:
  assumes "- (2 ^ 63) \<le> i" "i < 2 ^ 63" shows "sint (word_of_int i :: 64 word) = i"
  unfolding sint_sbintrunc' by (rule signed_take_bit_int_eq_self) (use assms in simp_all)

section \<open>Lists\<close>

lemma last_map_nonempty: "xs \<noteq> [] \<Longrightarrow> last (map f xs) = f (last xs)"
  by (rule last_map)

lemma find_rev_SomeD: "find P (rev xs) = Some x \<Longrightarrow> x \<in> set xs \<and> P x"
  by (metis find_Some_iff nth_mem set_rev)

lemma find_append: "find P (xs @ ys) = (case find P xs of Some x \<Rightarrow> Some x | None \<Rightarrow> find P ys)"
  by (induction xs) auto

lemma find_rev_append:
  "find P (rev (xs @ [y])) = (if P y then Some y else find P (rev xs))"
  by simp

end
