(* ===== verification/GoLib.thy ===== *)
theory GoLib
  imports Prelude
begin

text \<open>
  The parts of Go's standard library the program uses on strings and paths.  A Go string is
  a byte sequence, and so is an Isabelle \<open>string\<close> (a \<open>char\<close> is 8 bits).  Case mapping and
  white space follow the ASCII rules, which is all the names, commands and image references
  of the program use.
\<close>

section \<open>Package strings\<close>

definition has_prefix :: "string \<Rightarrow> string \<Rightarrow> bool" where
  "has_prefix s p = (take (length p) s = p)"

definition has_suffix :: "string \<Rightarrow> string \<Rightarrow> bool" where
  "has_suffix s p = has_prefix (rev s) (rev p)"

definition trim_prefix :: "string \<Rightarrow> string \<Rightarrow> string" where
  "trim_prefix s p = (if has_prefix s p then drop (length p) s else s)"

definition trim_suffix :: "string \<Rightarrow> string \<Rightarrow> string" where
  "trim_suffix s p = (if has_suffix s p then take (length s - length p) s else s)"

fun contains_sub :: "string \<Rightarrow> string \<Rightarrow> bool" where
  "contains_sub [] p = (p = [])"
| "contains_sub (c # s) p = (has_prefix (c # s) p \<or> contains_sub s p)"

definition lower_char :: "char \<Rightarrow> char" where
  "lower_char c = (if CHR ''A'' \<le> c \<and> c \<le> CHR ''Z'' then char_of (of_char c + 32 :: nat) else c)"

definition to_lower :: "string \<Rightarrow> string" where
  "to_lower s = map lower_char s"

definition is_space :: "char \<Rightarrow> bool" where
  "is_space c = (of_char c \<in> {9, 10, 11, 12, 13, 32 :: nat})"

definition trim_space :: "string \<Rightarrow> string" where
  "trim_space s = rev (dropWhile is_space (rev (dropWhile is_space s)))"

definition trim_right_char :: "char \<Rightarrow> string \<Rightarrow> string" where
  "trim_right_char c s = rev (dropWhile (\<lambda>x. x = c) (rev s))"

definition trim_char :: "char \<Rightarrow> string \<Rightarrow> string" where
  "trim_char c s = trim_right_char c (dropWhile (\<lambda>x. x = c) s)"

text \<open>\<open>strings.Join\<close> and \<open>strings.Split\<close> on a one-byte separator.\<close>

fun join_with :: "string \<Rightarrow> string list \<Rightarrow> string" where
  "join_with sep [] = []"
| "join_with sep [x] = x"
| "join_with sep (x # y # xs) = x @ sep @ join_with sep (y # xs)"

fun split_on :: "char \<Rightarrow> string \<Rightarrow> string list" where
  "split_on c [] = [[]]"
| "split_on c (x # xs) =
     (if x = c then [] # split_on c xs
      else (case split_on c xs of [] \<Rightarrow> [[x]] | w # ws \<Rightarrow> (x # w) # ws))"

lemma split_on_not_Nil [simp]: "split_on c s \<noteq> []"
  by (cases s) (auto split: list.splits)

lemma split_on_free: "c \<notin> set s \<Longrightarrow> split_on c s = [s]"
  by (induction s) auto

lemma split_on_append: "c \<notin> set s \<Longrightarrow> split_on c (s @ c # t) = s # split_on c t"
  by (induction s) auto

lemma split_join:
  "xs \<noteq> [] \<Longrightarrow> \<forall>x \<in> set xs. c \<notin> set x \<Longrightarrow> split_on c (join_with [c] xs) = xs"
  by (induction "[c]" xs rule: join_with.induct) (auto simp: split_on_free split_on_append)

lemma join_with_inject:
  assumes "\<forall>x \<in> set xs. c \<notin> set x" "\<forall>y \<in> set ys. c \<notin> set y" "xs \<noteq> []" "ys \<noteq> []"
    "join_with [c] xs = join_with [c] ys"
  shows "xs = ys"
  using assms split_join by metis

lemma split_first:
  assumes "a @ c # b = a' @ c # b'" "c \<notin> set a" "c \<notin> set a'"
  shows "a = a' \<and> b = b'"
  using assms
proof (induction a arbitrary: a')
  case Nil
  then show ?case by (cases a') auto
next
  case (Cons x a)
  then show ?case by (cases a') auto
qed

lemma split_last:
  assumes "a @ c # b = a' @ c # b'" "c \<notin> set b" "c \<notin> set b'"
  shows "a = a' \<and> b = b'"
proof -
  have "rev b @ c # rev a = rev b' @ c # rev a'"
    using arg_cong [OF assms(1), of rev] by simp
  from split_first [OF this] assms(2,3) show ?thesis by simp
qed

lemma has_prefix_append [simp]: "has_prefix (p @ s) p"
  by (simp add: has_prefix_def)

lemma has_prefix_iff: "has_prefix s p \<longleftrightarrow> (\<exists>t. s = p @ t)"
  by (auto simp: has_prefix_def) (metis append_take_drop_id)

lemma has_suffix_iff: "has_suffix s p \<longleftrightarrow> (\<exists>t. s = t @ p)"
proof -
  have "has_suffix s p \<longleftrightarrow> (\<exists>t. rev s = rev p @ t)"
    by (simp add: has_suffix_def has_prefix_iff)
  also have "\<dots> \<longleftrightarrow> (\<exists>t. s = t @ p)"
    by (metis rev_append rev_rev_ident)
  finally show ?thesis .
qed

lemma has_suffix_append [simp]: "has_suffix (t @ p) p"
  by (auto simp: has_suffix_iff)

lemma contains_sub_iff: "contains_sub s p \<longleftrightarrow> (\<exists>a b. s = a @ p @ b)"
proof (induction s)
  case (Cons c s)
  have "(\<exists>a b. c # s = a @ p @ b) \<longleftrightarrow> (\<exists>b. c # s = p @ b) \<or> (\<exists>a b. s = a @ p @ b)"
    by (auto simp: Cons_eq_append_conv)
  with Cons show ?case by (auto simp: has_prefix_iff)
qed auto

lemma contains_sub_append: "contains_sub (a @ p @ b) p"
  by (auto simp: contains_sub_iff)

lemma length_to_lower [simp]: "length (to_lower s) = length s"
  by (simp add: to_lower_def)

section \<open>Package strconv and fmt\<close>

fun nat_str :: "nat \<Rightarrow> string" where
  "nat_str n = (if n < 10 then [char_of (48 + n)]
                else nat_str (n div 10) @ [char_of (48 + n mod 10)])"

declare nat_str.simps [simp del]

definition int_str :: "int \<Rightarrow> string" where
  "int_str i = (if i < 0 then ''-'' @ nat_str (nat (- i)) else nat_str (nat i))"

lemma nat_str_not_Nil [simp]: "nat_str n \<noteq> []"
  by (subst nat_str.simps) simp

text \<open>Decimal digits read back; \<open>nat_str\<close> is injective and prints digits only.\<close>

definition dec_val :: "string \<Rightarrow> nat" where
  "dec_val s = foldl (\<lambda>a c. a * 10 + (of_char c - 48)) 0 s"

lemma dec_val_snoc: "dec_val (s @ [c]) = dec_val s * 10 + (of_char c - 48)"
  by (simp add: dec_val_def)

lemma dec_val_nat_str: "dec_val (nat_str n) = n"
proof (induction n rule: nat_str.induct)
  case (1 n)
  have c: "(of_char (char_of (48 + m :: nat)) :: nat) = 48 + m" if "m < 10" for m
    using that by simp
  show ?case
  proof (cases "n < 10")
    case True
    have "nat_str n = [] @ [char_of (48 + n)]" using True by (subst nat_str.simps) simp
    then show ?thesis using c [OF True] dec_val_snoc [of "[]" "char_of (48 + n)"]
      by (simp only:) (simp add: dec_val_def)
  next
    case False
    have "nat_str n = nat_str (n div 10) @ [char_of (48 + n mod 10)]"
      using False by (subst nat_str.simps) simp
    then have "dec_val (nat_str n) = n div 10 * 10 + (of_char (char_of (48 + n mod 10)) - 48)"
      using 1 [OF False] by (simp only: dec_val_snoc)
    then show ?thesis using c [of "n mod 10"] by simp
  qed
qed

lemma nat_str_inject [simp]: "nat_str m = nat_str n \<longleftrightarrow> m = n"
  by (metis dec_val_nat_str)

lemma nat_str_digits: "c \<in> set (nat_str n) \<Longrightarrow> 48 \<le> (of_char c :: nat) \<and> (of_char c :: nat) < 58"
proof (induction n rule: nat_str.induct)
  case (1 n)
  have "(of_char (char_of (48 + m :: nat)) :: nat) = 48 + m" if "m < 10" for m
    using that by simp
  note c = this [of n] this [of "n mod 10"]
  show ?case
  proof (cases "n < 10")
    case True
    with 1(2) c show ?thesis by (subst (asm) nat_str.simps) simp
  next
    case False
    then have "nat_str n = nat_str (n div 10) @ [char_of (48 + n mod 10)]"
      by (subst nat_str.simps) simp
    with 1(2) have "c \<in> set (nat_str (n div 10)) \<or> c = char_of (48 + n mod 10)" by auto
    then show ?thesis
    proof
      assume "c \<in> set (nat_str (n div 10))"
      from 1(1) [OF False this] show ?thesis .
    next
      assume "c = char_of (48 + n mod 10)"
      then show ?thesis using c(2) by simp
    qed
  qed
qed

lemma nat_str_no_dot: "CHR ''.'' \<notin> set (nat_str n)" "CHR ''-'' \<notin> set (nat_str n)"
  by (auto dest: nat_str_digits)

definition hex_digit :: "nat \<Rightarrow> char" where
  "hex_digit n = (if n < 10 then char_of (48 + n) else char_of (87 + n))"

definition hex_byte :: "char \<Rightarrow> string" where
  "hex_byte c = [hex_digit (of_char c div 16), hex_digit (of_char c mod 16)]"

text \<open>\<open>hex.EncodeToString\<close>.\<close>

definition hex_encode :: "string \<Rightarrow> string" where
  "hex_encode bs = concat (map hex_byte bs)"

lemma length_hex_encode [simp]: "length (hex_encode bs) = 2 * length bs"
  by (induction bs) (simp_all add: hex_encode_def hex_byte_def)

lemma hex_digit_no_colon:
  assumes "n < 16" shows "hex_digit n \<noteq> CHR '':''"
  using assms by (auto simp: hex_digit_def char_of_eq_iff take_bit_eq_mod)

lemma of_char_lt: "(of_char c :: nat) < 256"
  using of_char_mod_256 [of c, where 'a = nat] by (metis mod_less_divisor zero_less_numeral)

lemma hex_encode_no_colon: "CHR '':'' \<notin> set (hex_encode bs)"
proof
  assume "CHR '':'' \<in> set (hex_encode bs)"
  then obtain c where "CHR '':'' \<in> set (hex_byte c)"
    by (auto simp: hex_encode_def)
  moreover have "(of_char c :: nat) div 16 < 16"
    using of_char_lt [of c] by arith
  moreover have "(of_char c :: nat) mod 16 < 16" by simp
  ultimately show False
    using hex_digit_no_colon [of "of_char c div 16"] hex_digit_no_colon [of "of_char c mod 16"]
    by (auto simp: hex_byte_def)
qed

lemma hex_digit_inject:
  assumes "m < 16" "n < 16" "hex_digit m = hex_digit n" shows "m = n"
  using assms by (auto simp: hex_digit_def char_of_eq_iff take_bit_eq_mod split: if_splits)

lemma hex_byte_inject: "hex_byte c = hex_byte d \<Longrightarrow> c = d"
proof -
  assume h: "hex_byte c = hex_byte d"
  have b: "(of_char c :: nat) div 16 < 16" "(of_char d :: nat) div 16 < 16"
    using of_char_lt [of c] of_char_lt [of d] by arith+
  from h have "(of_char c :: nat) div 16 = of_char d div 16"
    using hex_digit_inject [OF b] by (simp add: hex_byte_def)
  moreover from h have "(of_char c :: nat) mod 16 = of_char d mod 16"
    using hex_digit_inject [of "of_char c mod 16" "of_char d mod 16"] by (simp add: hex_byte_def)
  ultimately have "(of_char c :: nat) = of_char d" by (metis div_mult_mod_eq)
  then show "c = d" by simp
qed

lemma hex_encode_inject: "hex_encode x = hex_encode y \<Longrightarrow> x = y"
proof (induction x arbitrary: y)
  case Nil
  then have "length (hex_encode y) = 0" by (metis length_hex_encode list.size(3) mult_0_right)
  then show ?case by simp
next
  case (Cons c x)
  from Cons.prems obtain d y' where y: "y = d # y'"
    by (cases y) (auto simp: hex_encode_def hex_byte_def)
  with Cons.prems have "hex_byte c = hex_byte d \<and> hex_encode x = hex_encode y'"
    by (auto simp: hex_encode_def hex_byte_def)
  with Cons.IH y show ?case by (auto dest: hex_byte_inject)
qed

text \<open>\<open>%q\<close> on a string: \<open>strconv.Quote\<close>; bytes from 128 up are printed as they are.\<close>

definition quote_char :: "char \<Rightarrow> string" where
  "quote_char c =
     (let n = of_char c :: nat in
      if n = 34 then [char_of (92::nat), c]
      else if n = 92 then [c, c]
      else if n = 7 then [char_of (92::nat), CHR ''a''] else if n = 8 then [char_of (92::nat), CHR ''b'']
      else if n = 12 then [char_of (92::nat), CHR ''f''] else if n = 10 then [char_of (92::nat), CHR ''n'']
      else if n = 13 then [char_of (92::nat), CHR ''r''] else if n = 9 then [char_of (92::nat), CHR ''t'']
      else if n = 11 then [char_of (92::nat), CHR ''v'']
      else if n < 32 \<or> n = 127 then [char_of (92::nat), CHR ''x''] @ hex_byte c
      else [c])"

definition quote :: "string \<Rightarrow> string" where
  "quote s = [char_of (34::nat)] @ concat (map quote_char s) @ [char_of (34::nat)]"

section \<open>Package path/filepath\<close>

fun clean_comps :: "bool \<Rightarrow> string list \<Rightarrow> string list \<Rightarrow> string list" where
  "clean_comps rooted acc [] = rev acc"
| "clean_comps rooted acc (c # cs) =
     (if c = [] \<or> c = ''.'' then clean_comps rooted acc cs
      else if c = ''..'' then
        (case acc of
           [] \<Rightarrow> (if rooted then clean_comps rooted [] cs else clean_comps rooted [''..''] cs)
         | a # as \<Rightarrow> (if a = ''..'' then clean_comps rooted (''..'' # acc) cs
                     else clean_comps rooted as cs))
      else clean_comps rooted (c # acc) cs)"

definition path_clean :: "string \<Rightarrow> string" where
  "path_clean p =
     (if p = [] then ''.''
      else let rooted = (hd p = CHR ''/'');
               cs = clean_comps rooted [] (split_on (CHR ''/'') p)
           in if rooted then ''/'' @ join_with ''/'' cs
              else if cs = [] then ''.'' else join_with ''/'' cs)"

definition path_join :: "string list \<Rightarrow> string" where
  "path_join xs =
     (let ys = filter (\<lambda>x. x \<noteq> []) xs
      in if ys = [] then [] else path_clean (join_with ''/'' ys))"

text \<open>A path component that \<open>filepath.Clean\<close> keeps: not empty, no separator, no dot name.\<close>

definition plain_comp :: "string \<Rightarrow> bool" where
  "plain_comp c = (c \<noteq> [] \<and> CHR ''/'' \<notin> set c \<and> c \<noteq> ''.'' \<and> c \<noteq> ''..'')"

lemma clean_comps_plain:
  "list_all plain_comp cs \<Longrightarrow> clean_comps rooted acc cs = rev acc @ cs"
  by (induction cs arbitrary: acc) (auto simp: plain_comp_def)

lemma join_with_append:
  "rs \<noteq> [] \<Longrightarrow> join_with sep (rs @ d # ds) = join_with sep rs @ sep @ join_with sep (d # ds)"
proof (induction rs)
  case (Cons r rs)
  then show ?case by (cases rs) simp_all
qed simp

text \<open>Joining plain components below a rooted, clean directory is injective.\<close>

lemma path_join_plain:
  assumes "list_all plain_comp rs" "list_all plain_comp cs" "rs \<noteq> []"
  shows "path_join ((CHR ''/'' # join_with ''/'' rs) # cs) = CHR ''/'' # join_with ''/'' (rs @ cs)"
proof -
  have ne: "filter (\<lambda>x. x \<noteq> []) cs = cs"
    using assms(2) by (induction cs) (auto simp: plain_comp_def)
  have j: "join_with ''/'' ((CHR ''/'' # join_with ''/'' rs) # cs) = CHR ''/'' # join_with ''/'' (rs @ cs)"
    using join_with_append [OF assms(3)] by (cases cs) simp_all
  have free: "\<forall>x \<in> set (rs @ cs). CHR ''/'' \<notin> set x"
    using assms by (auto simp: list_all_iff plain_comp_def)
  have sp: "split_on (CHR ''/'') (CHR ''/'' # join_with ''/'' (rs @ cs)) = [] # rs @ cs"
    using split_join [of "rs @ cs" "CHR ''/''"] assms(3) free by simp
  have cl: "clean_comps True [] ([] # rs @ cs) = rs @ cs"
    using assms by (simp add: clean_comps_plain)
  have "path_clean (CHR ''/'' # join_with ''/'' (rs @ cs)) = CHR ''/'' # join_with ''/'' (rs @ cs)"
    unfolding path_clean_def using sp cl by simp
  then show ?thesis
    unfolding path_join_def Let_def using j ne by simp
qed

lemma path_join_plain_inject:
  assumes "list_all plain_comp rs" "rs \<noteq> []" "list_all plain_comp cs" "list_all plain_comp ds"
    "path_join ((CHR ''/'' # join_with ''/'' rs) # cs) = path_join ((CHR ''/'' # join_with ''/'' rs) # ds)"
  shows "cs = ds"
proof -
  have "join_with ''/'' (rs @ cs) = join_with ''/'' (rs @ ds)"
    using assms path_join_plain [of rs cs] path_join_plain [of rs ds] by simp
  moreover have "\<forall>x \<in> set (rs @ cs). CHR ''/'' \<notin> set x" "\<forall>x \<in> set (rs @ ds). CHR ''/'' \<notin> set x"
    using assms by (auto simp: list_all_iff plain_comp_def)
  ultimately have "rs @ cs = rs @ ds"
    using join_with_inject [of "rs @ cs" "CHR ''/''" "rs @ ds"] assms(2) by simp
  then show ?thesis by simp
qed

end
