(* ===== verification/Float64.thy ===== *)
theory Float64
  imports Complex_Main GoLib
begin

text \<open>
  Go's \<open>float64\<close>: IEEE 754 binary64 with round-to-nearest-even, executable.  A finite value is
  kept as the rational it denotes (\<open>FNegZero\<close> is the one value that is not determined by its
  rational); every operation computes the exact rational result and rounds it once.
  \<open>fparse\<close> is \<open>strconv.ParseFloat\<close> on an exact decimal, \<open>fformat\<close> the shortest decimal that
  reads back as the same value, laid out as \<open>encoding/json\<close> prints it.
\<close>

datatype f64 = FFin rat | FNegZero | FInf bool | FNaN

fun bit_len :: "nat \<Rightarrow> nat" where
  "bit_len n = (if n = 0 then 0 else Suc (bit_len (n div 2)))"

declare bit_len.simps [simp del]

definition pow2 :: "int \<Rightarrow> rat" where
  "pow2 e = (if 0 \<le> e then 2 ^ nat e else 1 / 2 ^ nat (- e))"

definition pow10 :: "int \<Rightarrow> rat" where
  "pow10 e = (if 0 \<le> e then 10 ^ nat e else 1 / 10 ^ nat (- e))"

text \<open>The exponent \<open>e\<close> with \<open>2\<^sup>e \<le> a < 2\<^sup>e\<^sup>+\<^sup>1\<close>, for \<open>a > 0\<close>.\<close>

definition ilog2 :: "rat \<Rightarrow> int" where
  "ilog2 a = (let (n, d) = quotient_of a; e = int (bit_len (nat n)) - int (bit_len (nat d))
              in if pow2 e \<le> a then e else e - 1)"

definition round_even :: "rat \<Rightarrow> int" where
  "round_even a = (let f = \<lfloor>a\<rfloor>; r = a - of_int f
                   in if r < 1 / 2 then f else if r > 1 / 2 then f + 1 else if even f then f else f + 1)"

definition fround_pos :: "rat \<Rightarrow> rat" where
  "fround_pos a = (let u = pow2 (max (ilog2 a - 52) (-1074)) in of_int (round_even (a / u)) * u)"

definition fround :: "rat \<Rightarrow> f64" where
  "fround q =
     (if q = 0 then FFin 0
      else let m = fround_pos \<bar>q\<bar>
           in if 2 ^ 1024 \<le> m then FInf (q < 0)
              else if m = 0 then (if q < 0 then FNegZero else FFin 0)
              else FFin (if q < 0 then - m else m))"

fun fval :: "f64 \<Rightarrow> rat" where
  "fval (FFin q) = q"
| "fval _ = 0"

fun fneg_sign :: "f64 \<Rightarrow> bool" where
  "fneg_sign (FFin q) = (q < 0)"
| "fneg_sign FNegZero = True"
| "fneg_sign (FInf s) = s"
| "fneg_sign FNaN = False"

fun ffinite :: "f64 \<Rightarrow> bool" where
  "ffinite (FFin _) = True"
| "ffinite FNegZero = True"
| "ffinite _ = False"

definition fzero :: f64 where "fzero = FFin 0"

definition fsigned_zero :: "bool \<Rightarrow> f64" where
  "fsigned_zero s = (if s then FNegZero else FFin 0)"

fun fneg :: "f64 \<Rightarrow> f64" where
  "fneg (FFin q) = (if q = 0 then FNegZero else FFin (- q))"
| "fneg FNegZero = FFin 0"
| "fneg (FInf s) = FInf (\<not> s)"
| "fneg FNaN = FNaN"

definition fadd :: "f64 \<Rightarrow> f64 \<Rightarrow> f64" where
  "fadd x y =
     (case (x, y) of
        (FNaN, _) \<Rightarrow> FNaN | (_, FNaN) \<Rightarrow> FNaN
      | (FInf s, FInf t) \<Rightarrow> (if s = t then FInf s else FNaN)
      | (FInf s, _) \<Rightarrow> FInf s | (_, FInf t) \<Rightarrow> FInf t
      | (FNegZero, FNegZero) \<Rightarrow> FNegZero
      | _ \<Rightarrow> fround (fval x + fval y))"

definition fsub :: "f64 \<Rightarrow> f64 \<Rightarrow> f64" where
  "fsub x y = fadd x (fneg y)"

definition fmul :: "f64 \<Rightarrow> f64 \<Rightarrow> f64" where
  "fmul x y =
     (if x = FNaN \<or> y = FNaN then FNaN
      else let s = (fneg_sign x \<noteq> fneg_sign y)
           in if ffinite x \<and> ffinite y
              then (if fval x * fval y = 0 then fsigned_zero s else fround (fval x * fval y))
              else if (ffinite x \<and> fval x = 0) \<or> (ffinite y \<and> fval y = 0) then FNaN
              else FInf s)"

definition fdiv :: "f64 \<Rightarrow> f64 \<Rightarrow> f64" where
  "fdiv x y =
     (if x = FNaN \<or> y = FNaN then FNaN
      else let s = (fneg_sign x \<noteq> fneg_sign y)
           in if \<not> ffinite x then (if ffinite y then FInf s else FNaN)
              else if \<not> ffinite y then fsigned_zero s
              else if fval y = 0 then (if fval x = 0 then FNaN else FInf s)
              else if fval x = 0 then fsigned_zero s
              else fround (fval x / fval y))"

definition flt :: "f64 \<Rightarrow> f64 \<Rightarrow> bool" where
  "flt x y =
     (if x = FNaN \<or> y = FNaN then False
      else case (x, y) of
        (FInf s, FInf t) \<Rightarrow> s \<and> \<not> t
      | (FInf s, _) \<Rightarrow> s
      | (_, FInf t) \<Rightarrow> \<not> t
      | _ \<Rightarrow> fval x < fval y)"

definition feq :: "f64 \<Rightarrow> f64 \<Rightarrow> bool" where
  "feq x y =
     (if x = FNaN \<or> y = FNaN then False
      else case (x, y) of
        (FInf s, FInf t) \<Rightarrow> s = t
      | (FInf _, _) \<Rightarrow> False
      | (_, FInf _) \<Rightarrow> False
      | _ \<Rightarrow> fval x = fval y)"

definition fle :: "f64 \<Rightarrow> f64 \<Rightarrow> bool" where
  "fle x y = (flt x y \<or> feq x y)"

fun fabs :: "f64 \<Rightarrow> f64" where
  "fabs (FFin q) = FFin \<bar>q\<bar>"
| "fabs FNegZero = FFin 0"
| "fabs (FInf _) = FInf False"
| "fabs FNaN = FNaN"

text \<open>\<open>math.Round\<close>: half away from zero.\<close>

fun fround_half_away :: "f64 \<Rightarrow> f64" where
  "fround_half_away (FFin q) =
     (let m = \<lfloor>\<bar>q\<bar> + 1 / 2\<rfloor>
      in if m = 0 then fsigned_zero (q < 0) else FFin (if q < 0 then - of_int m else of_int m))"
| "fround_half_away x = x"

definition fof_int :: "int \<Rightarrow> f64" where
  "fof_int i = fround (of_int i)"

section \<open>Decimal text\<close>

text \<open>The exponent \<open>k\<close> with \<open>10\<^sup>k \<le> a < 10\<^sup>k\<^sup>+\<^sup>1\<close>; \<open>a\<close> is a positive binary64, so |k| \<open>\<le> 330\<close>.\<close>

fun ilog10_from :: "nat \<Rightarrow> int \<Rightarrow> rat \<Rightarrow> int" where
  "ilog10_from 0 k a = k"
| "ilog10_from (Suc n) k a =
     (if a < pow10 k then ilog10_from n (k - 1) a
      else if pow10 (k + 1) \<le> a then ilog10_from n (k + 1) a else k)"

definition ilog10 :: "rat \<Rightarrow> int" where
  "ilog10 a = ilog10_from 400 0 a"

text \<open>
  The shortest significand: for \<open>n\<close> digits the two neighbours of \<open>a\<close> on the \<open>n\<close>-digit grid,
  the closer one that reads back as \<open>a\<close>; 17 digits always do.
\<close>

definition short_cand :: "rat \<Rightarrow> int \<Rightarrow> nat \<Rightarrow> int option" where
  "short_cand a k n =
     (let u = pow10 (k - int n + 1); lo = \<lfloor>a / u\<rfloor>;
          okl = (fround_pos (of_int lo * u) = a \<and> 0 < lo); okh = (fround_pos (of_int (lo + 1) * u) = a);
          nearlo = (a - of_int lo * u < of_int (lo + 1) * u - a
                    \<or> (a - of_int lo * u = of_int (lo + 1) * u - a \<and> even lo))
      in if okl \<and> (nearlo \<or> \<not> okh) then Some lo else if okh then Some (lo + 1) else None)"

fun short_search :: "rat \<Rightarrow> int \<Rightarrow> nat \<Rightarrow> nat \<Rightarrow> int \<times> nat" where
  "short_search a k n 0 = (round_even (a / pow10 (k - 16)), 17)"
| "short_search a k n (Suc j) =
     (case short_cand a k n of Some m \<Rightarrow> (m, n) | None \<Rightarrow> short_search a k (Suc n) j)"

fun strip_zeros :: "nat \<Rightarrow> int \<Rightarrow> int" where
  "strip_zeros 0 m = m"
| "strip_zeros (Suc n) m = (if m mod 10 = 0 \<and> m \<noteq> 0 then strip_zeros n (m div 10) else m)"

text \<open>Significant digits and the decimal exponent of the first one.\<close>

definition short_digits :: "rat \<Rightarrow> string \<times> int" where
  "short_digits a =
     (let k = ilog10 a; (m, n) = short_search a k 1 17;
          k' = (if 10 ^ n \<le> m then k + 1 else k)
      in (nat_str (nat (strip_zeros 20 m)), k'))"

definition fmt_plain :: "string \<Rightarrow> int \<Rightarrow> string" where
  "fmt_plain ds k =
     (if k < 0 then ''0.'' @ replicate (nat (- k - 1)) (CHR ''0'') @ ds
      else if int (length ds) \<le> k + 1 then ds @ replicate (nat (k + 1) - length ds) (CHR ''0'')
      else take (nat (k + 1)) ds @ ''.'' @ drop (nat (k + 1)) ds)"

definition fmt_exp :: "string \<Rightarrow> int \<Rightarrow> string" where
  "fmt_exp ds k =
     take 1 ds @ (if length ds = 1 then '''' else ''.'' @ drop 1 ds) @ ''e'' @
     (if k < 0 then ''-'' @ nat_str (nat (- k)) else ''+'' @ nat_str (nat k))"

definition fformat_pos :: "rat \<Rightarrow> string" where
  "fformat_pos a =
     (let (ds, k) = short_digits a
      in if a < 1 / 1000000 \<or> 1000000000000000000000 \<le> a then fmt_exp ds k else fmt_plain ds k)"

text \<open>\<open>None\<close> for the values \<open>encoding/json\<close> refuses.\<close>

fun fformat :: "f64 \<Rightarrow> string option" where
  "fformat (FFin q) = Some (if q = 0 then ''0'' else if q < 0 then ''-'' @ fformat_pos (- q) else fformat_pos q)"
| "fformat FNegZero = Some ''-0''"
| "fformat (FInf _) = None"
| "fformat FNaN = None"

text \<open>Sign, significand and decimal exponent of a literal; \<open>None\<close> when out of range.\<close>

definition fparse :: "bool \<Rightarrow> nat \<Rightarrow> int \<Rightarrow> f64 option" where
  "fparse neg m e =
     (if m = 0 then Some (fsigned_zero neg)
      else case fround ((if neg then - of_nat m else of_nat m) * pow10 e) of
             FInf _ \<Rightarrow> None | x \<Rightarrow> Some x)"

end
