(* ===== verification/Json.thy ===== *)
theory Json
  imports Float64
begin

text \<open>
  \<open>encoding/json\<close> on the dynamic values the program marshals and unmarshals.  A \<open>gval\<close> is a Go
  \<open>interface{}\<close> holding nil, a bool, a number, a string, a slice or a
  \<open>map[string]interface{}\<close>; unmarshalling only produces \<open>float64\<close> numbers, a YAML document can
  also carry Go integers (\<open>GInt\<close>).  \<open>json_marshal\<close> sorts map keys, escapes as
  \<open>json.Marshal\<close> does (HTML characters, control characters, U+2028/9, invalid UTF-8) and
  refuses infinities and NaN; \<open>json_unmarshal\<close> is the decoder into \<open>interface{}\<close>, with its
  grammar, its surrogate and invalid UTF-8 replacement and its nesting limit.  The text of a
  syntax error is not modelled, only that there is one.
\<close>

datatype gval =
    GNil
  | GBool bool
  | GNum f64
  | GInt int
  | GStr string
  | GArr "gval list"
  | GMap "(string \<times> gval) list"

type_synonym gmap = "(string \<times> gval) list"

section \<open>UTF-8\<close>

definition byte_in :: "nat \<Rightarrow> nat \<Rightarrow> char \<Rightarrow> bool" where
  "byte_in lo hi c = (lo \<le> of_char c \<and> of_char c \<le> hi)"

text \<open>Size of the valid rune at the front of a byte string, 0 if there is none.\<close>

definition utf8_len :: "string \<Rightarrow> nat" where
  "utf8_len s =
     (case s of
        [] \<Rightarrow> 0
      | a # s1 \<Rightarrow>
        (let second = (case s1 of [] \<Rightarrow> (\<lambda>lo hi. False) | b # _ \<Rightarrow> (\<lambda>lo hi. byte_in lo hi b));
             third = (1 < length s1 \<and> byte_in 128 191 (s1 ! 1));
             fourth = (2 < length s1 \<and> byte_in 128 191 (s1 ! 2))
         in if byte_in 0 127 a then 1
            else if byte_in 194 223 a then (if second 128 191 then 2 else 0)
            else if byte_in 224 239 a then
              (if second (if byte_in 224 224 a then 160 else 128) (if byte_in 237 237 a then 159 else 191) \<and> third
               then 3 else 0)
            else if byte_in 240 244 a then
              (if second (if byte_in 240 240 a then 144 else 128) (if byte_in 244 244 a then 143 else 191) \<and> third \<and> fourth
               then 4 else 0)
            else 0))"

definition utf8_encode :: "nat \<Rightarrow> string" where
  "utf8_encode r =
     (if r < 128 then [char_of r]
      else if r < 2048 then [char_of (192 + r div 64), char_of (128 + r mod 64)]
      else if r < 65536 then [char_of (224 + r div 4096), char_of (128 + r div 64 mod 64), char_of (128 + r mod 64)]
      else [char_of (240 + r div 262144), char_of (128 + r div 4096 mod 64), char_of (128 + r div 64 mod 64), char_of (128 + r mod 64)])"

definition utf8_replacement :: string where
  "utf8_replacement = [CHR 0xEF, CHR 0xBF, CHR 0xBD]"

section \<open>Marshal\<close>

definition json_safe :: "char \<Rightarrow> bool" where
  "json_safe c = (byte_in 32 127 c \<and> c \<noteq> CHR 0x22 \<and> c \<noteq> CHR 0x5C \<and> c \<noteq> CHR ''<'' \<and> c \<noteq> CHR ''>'' \<and> c \<noteq> CHR ''&'')"

definition json_esc_ascii :: "char \<Rightarrow> string" where
  "json_esc_ascii c =
     (if json_safe c then [c]
      else if c = CHR 0x22 \<or> c = CHR 0x5C then [CHR 0x5C, c]
      else if c = CHR 0x08 then [CHR 0x5C, CHR ''b'']
      else if c = CHR 0x0C then [CHR 0x5C, CHR ''f'']
      else if c = CHR 0x0A then [CHR 0x5C, CHR ''n'']
      else if c = CHR 0x0D then [CHR 0x5C, CHR ''r'']
      else if c = CHR 0x09 then [CHR 0x5C, CHR ''t'']
      else CHR 0x5C # ''u00'' @ hex_byte c)"

function json_esc :: "string \<Rightarrow> string" where
  "json_esc [] = []"
| "json_esc (c # s) =
     (if byte_in 0 127 c then json_esc_ascii c @ json_esc s
      else let k = utf8_len (c # s) in
        if k = 0 then CHR 0x5C # ''ufffd'' @ json_esc s
        else if take k (c # s) = [CHR 0xE2, CHR 0x80, CHR 0xA8] then CHR 0x5C # ''u2028'' @ json_esc (drop (k - 1) s)
        else if take k (c # s) = [CHR 0xE2, CHR 0x80, CHR 0xA9] then CHR 0x5C # ''u2029'' @ json_esc (drop (k - 1) s)
        else take k (c # s) @ json_esc (drop (k - 1) s))"
  by pat_completeness auto
termination by (relation "measure length") auto

definition json_string :: "string \<Rightarrow> string" where
  "json_string s = CHR 0x22 # json_esc s @ [CHR 0x22]"

fun opt_list :: "'a option list \<Rightarrow> 'a list option" where
  "opt_list [] = Some []"
| "opt_list (None # xs) = None"
| "opt_list (Some x # xs) = map_option ((#) x) (opt_list xs)"

lemma size_gmap_member [termination_simp]: "(k, v) \<in> set m \<Longrightarrow> size v < Suc (size_list (size_prod (\<lambda>_. 0) size) m)"
proof (induction m)
  case (Cons p m)
  then show ?case by (cases p) auto
qed simp

fun json_enc :: "gval \<Rightarrow> string option" where
  "json_enc GNil = Some ''null''"
| "json_enc (GBool b) = Some (if b then ''true'' else ''false'')"
| "json_enc (GNum x) = fformat x"
| "json_enc (GInt i) = Some (int_str i)"
| "json_enc (GStr s) = Some (json_string s)"
| "json_enc (GArr xs) =
     map_option (\<lambda>ss. ''['' @ join_with '','' ss @ '']'') (opt_list (map json_enc xs))"
| "json_enc (GMap m) =
     map_option (\<lambda>ps. ''{'' @ join_with '','' (map (\<lambda>(k, s). json_string k @ '':'' @ s) (sort_key fst ps)) @ ''}'')
       (opt_list (map (\<lambda>(k, v). map_option (Pair k) (json_enc v)) m))"

text \<open>\<open>json.Marshal(v)\<close>.\<close>

definition json_marshal :: "gval \<Rightarrow> string res" where
  "json_marshal v = (case json_enc v of Some s \<Rightarrow> Inr s | None \<Rightarrow> Inl (errorf ''json: unsupported value''))"

section \<open>Unmarshal\<close>

definition json_ws :: "char \<Rightarrow> bool" where
  "json_ws c = (c = CHR '' '' \<or> c = CHR 0x09 \<or> c = CHR 0x0A \<or> c = CHR 0x0D)"

definition skip_ws :: "string \<Rightarrow> string" where
  "skip_ws s = dropWhile json_ws s"

lemma length_skip_ws: "length (skip_ws s) \<le> length s"
  by (simp add: skip_ws_def length_dropWhile_le)

definition hex_val :: "char \<Rightarrow> nat option" where
  "hex_val c =
     (let n = of_char c in
      if 48 \<le> n \<and> n \<le> 57 then Some (n - 48)
      else if 97 \<le> n \<and> n \<le> 102 then Some (n - 87)
      else if 65 \<le> n \<and> n \<le> 70 then Some (n - 55) else None)"

text \<open>\<open>\uXXXX\<close> at the front: the code unit and what follows.\<close>

definition get_u4 :: "string \<Rightarrow> (nat \<times> string) option" where
  "get_u4 s =
     (if 6 \<le> length s \<and> s ! 0 = CHR 0x5C \<and> s ! 1 = CHR ''u'' then
        (case opt_list (map hex_val (take 4 (drop 2 s))) of
           None \<Rightarrow> None
         | Some ds \<Rightarrow> Some (foldl (\<lambda>a d. 16 * a + d) 0 ds, drop 6 s))
      else None)"

definition unescape :: "char \<Rightarrow> char option" where
  "unescape c =
     (if c = CHR 0x22 \<or> c = CHR 0x5C \<or> c = CHR ''/'' then Some c
      else if c = CHR ''b'' then Some (CHR 0x08) else if c = CHR ''f'' then Some (CHR 0x0C)
      else if c = CHR ''n'' then Some (CHR 0x0A) else if c = CHR ''r'' then Some (CHR 0x0D)
      else if c = CHR ''t'' then Some (CHR 0x09) else None)"

definition u16_rune :: "nat \<Rightarrow> string \<Rightarrow> string \<times> string" where
  "u16_rune r rest =
     (if 55296 \<le> r \<and> r \<le> 57343 then
        (case get_u4 rest of
           Some (r2, rest2) \<Rightarrow>
             (if r \<le> 56319 \<and> 56320 \<le> r2 \<and> r2 \<le> 57343
              then (utf8_encode (65536 + (r - 55296) * 1024 + (r2 - 56320)), rest2)
              else (utf8_replacement, rest))
         | None \<Rightarrow> (utf8_replacement, rest))
      else (utf8_encode r, rest))"

lemma get_u4_length: "get_u4 s = Some (r, t) \<Longrightarrow> length t < length s"
  by (auto simp: get_u4_def split: if_splits option.splits)

lemma u16_rune_length: "length (snd (u16_rune r s)) \<le> length s"
  by (auto simp: u16_rune_def split: if_splits option.splits dest: get_u4_length)

text \<open>A string body after its opening quote: the value and the text after the closing quote.\<close>

function json_str_body :: "string \<Rightarrow> (string \<times> string) option" where
  "json_str_body [] = None"
| "json_str_body (c # s) =
     (if c = CHR 0x22 then Some ([], s)
      else if byte_in 0 31 c then None
      else if c = CHR 0x5C then
        (case s of
           [] \<Rightarrow> None
         | e # t \<Rightarrow>
             (if e = CHR ''u'' then
                (case get_u4 (c # s) of
                   None \<Rightarrow> None
                 | Some (r, rest) \<Rightarrow>
                     (let p = u16_rune r rest
                      in if length (snd p) < length (c # s)
                         then map_option (\<lambda>(v, q). (fst p @ v, q)) (json_str_body (snd p)) else None))
              else (case unescape e of
                      None \<Rightarrow> None
                    | Some d \<Rightarrow> map_option (\<lambda>(v, q). (d # v, q)) (json_str_body t))))
      else if byte_in 0 127 c then map_option (\<lambda>(v, q). (c # v, q)) (json_str_body s)
      else let k = utf8_len (c # s) in
        if k = 0 then map_option (\<lambda>(v, q). (utf8_replacement @ v, q)) (json_str_body s)
        else map_option (\<lambda>(v, q). (take k (c # s) @ v, q)) (json_str_body (drop (k - 1) s)))"
  by pat_completeness auto
termination by (relation "measure length") auto

definition digits_val :: "string \<Rightarrow> nat" where
  "digits_val ds = foldl (\<lambda>a d. 10 * a + (of_char d - 48)) 0 ds"

definition is_digit :: "char \<Rightarrow> bool" where
  "is_digit c = byte_in 48 57 c"

text \<open>A number literal: sign, significand, decimal exponent, rest.\<close>

definition json_number :: "string \<Rightarrow> (bool \<times> nat \<times> int \<times> string) option" where
  "json_number s =
     (let (neg, s1) = (case s of c # t \<Rightarrow> (if c = CHR ''-'' then (True, t) else (False, s)) | [] \<Rightarrow> (False, s));
          ip = (case s1 of c # t \<Rightarrow> (if c = CHR ''0'' then [c] else takeWhile is_digit s1) | [] \<Rightarrow> []);
          s2 = drop (length ip) s1;
          dot = (case s2 of c # t \<Rightarrow> c = CHR ''.'' | [] \<Rightarrow> False);
          fp = (if dot then takeWhile is_digit (drop 1 s2) else []);
          s3 = (if dot then drop (Suc (length fp)) s2 else s2);
          ex = (case s3 of c # t \<Rightarrow> c = CHR ''e'' \<or> c = CHR ''E'' | [] \<Rightarrow> False);
          s4 = (if ex then drop 1 s3 else s3);
          esg = (case s4 of c # t \<Rightarrow> (if ex \<and> (c = CHR ''+'' \<or> c = CHR ''-'') then [c] else []) | [] \<Rightarrow> []);
          s5 = drop (length esg) s4;
          ed = (if ex then takeWhile is_digit s5 else []);
          s6 = drop (length ed) s5;
          ev = (if esg = ''-'' then - int (digits_val ed) else int (digits_val ed))
      in if ip = [] \<or> (dot \<and> fp = []) \<or> (ex \<and> ed = []) then None
         else Some (neg, digits_val (ip @ fp), ev - int (length fp), s6))"

definition gmap_set :: "string \<Rightarrow> gval \<Rightarrow> gmap \<Rightarrow> gmap" where
  "gmap_set k v m = filter (\<lambda>p. fst p \<noteq> k) m @ [(k, v)]"

definition expect :: "char \<Rightarrow> string \<Rightarrow> string option" where
  "expect c s = (case skip_ws s of [] \<Rightarrow> None | x # r \<Rightarrow> (if x = c then Some r else None))"

lemma expect_length: "expect c s = Some r \<Longrightarrow> length r < length s"
  using length_skip_ws [of s] by (auto simp: expect_def split: list.splits if_splits)

lemma skip_ws_Cons_length: "skip_ws s = c # r \<Longrightarrow> length r < length s"
  using length_skip_ws [of s] by simp

text \<open>
  \<open>json_val d s\<close> reads one value with at most \<open>d\<close> further levels of nesting.  The length
  guards of the loops always hold (a value consumes text); they make termination evident.
\<close>

function json_val :: "int \<Rightarrow> string \<Rightarrow> (gval \<times> string) option"
  and json_elems :: "int \<Rightarrow> string \<Rightarrow> (gval list \<times> string) option"
  and json_members :: "int \<Rightarrow> gmap \<Rightarrow> string \<Rightarrow> (gmap \<times> string) option" where
  "json_val d s =
     (case skip_ws s of
        [] \<Rightarrow> None
      | c # r \<Rightarrow>
         (if c = CHR ''{'' then
            (if d \<le> 0 then None
             else case expect (CHR ''}'') r of
                    Some r2 \<Rightarrow> Some (GMap [], r2)
                  | None \<Rightarrow> map_option (\<lambda>(m, q). (GMap m, q)) (json_members (d - 1) [] r))
          else if c = CHR ''['' then
            (if d \<le> 0 then None
             else case expect (CHR '']'') r of
                    Some r2 \<Rightarrow> Some (GArr [], r2)
                  | None \<Rightarrow> map_option (\<lambda>(xs, q). (GArr xs, q)) (json_elems (d - 1) r))
          else if c = CHR 0x22 then map_option (\<lambda>(v, q). (GStr v, q)) (json_str_body r)
          else if has_prefix (c # r) ''true'' then Some (GBool True, drop 3 r)
          else if has_prefix (c # r) ''false'' then Some (GBool False, drop 4 r)
          else if has_prefix (c # r) ''null'' then Some (GNil, drop 3 r)
          else case json_number (c # r) of
                 None \<Rightarrow> None
               | Some (neg, m, e, q) \<Rightarrow> map_option (\<lambda>x. (GNum x, q)) (fparse neg m e)))"
| "json_elems d s =
     (case json_val d s of
        None \<Rightarrow> None
      | Some (v, r) \<Rightarrow>
         (case expect (CHR '','') r of
            Some r2 \<Rightarrow>
              (if length r2 < length s
               then map_option (\<lambda>(xs, q). (v # xs, q)) (json_elems d r2) else None)
          | None \<Rightarrow> map_option (\<lambda>q. ([v], q)) (expect (CHR '']'') r)))"
| "json_members d m s =
     (case expect (CHR 0x22) s of
        None \<Rightarrow> None
      | Some s1 \<Rightarrow>
         (case json_str_body s1 of
            None \<Rightarrow> None
          | Some (k, s2) \<Rightarrow>
             (case expect (CHR '':'') s2 of
                None \<Rightarrow> None
              | Some s3 \<Rightarrow>
                 (if \<not> length s3 < length s then None
                  else case json_val d s3 of
                    None \<Rightarrow> None
                  | Some (v, r) \<Rightarrow>
                     (case expect (CHR '','') r of
                        Some r2 \<Rightarrow>
                          (if length r2 < length s then json_members d (gmap_set k v m) r2 else None)
                      | None \<Rightarrow> map_option (\<lambda>q. (gmap_set k v m, q)) (expect (CHR ''}'') r))))))"
  by pat_completeness auto
termination
  by (relation "measure (\<lambda>x. case x of Inl (d, s) \<Rightarrow> 2 * length s
                          | Inr (Inl (d, s)) \<Rightarrow> 2 * length s + 1
                          | Inr (Inr (d, m, s)) \<Rightarrow> 2 * length s + 1)")
     (auto dest: skip_ws_Cons_length)

definition json_max_depth :: int where "json_max_depth = 10000"

definition json_error :: err where "json_error = errorf ''json: invalid input''"

text \<open>\<open>json.Unmarshal(data, &v)\<close> with \<open>v interface{}\<close>.\<close>

definition json_unmarshal :: "string \<Rightarrow> gval res" where
  "json_unmarshal s =
     (case json_val json_max_depth s of
        None \<Rightarrow> Inl json_error
      | Some (v, r) \<Rightarrow> (if skip_ws r = [] then Inr v else Inl json_error))"

declare json_val.simps [simp del] json_elems.simps [simp del] json_members.simps [simp del]

section \<open>Decoding into structs\<close>

text \<open>
  A key of a JSON object fills the struct field whose tag it equals up to case; a later key
  overwrites an earlier one and \<open>null\<close> leaves the field as it is.
\<close>

definition json_field :: "string \<Rightarrow> gmap \<Rightarrow> gval option" where
  "json_field name m =
     map_option snd (find (\<lambda>(k, v). to_lower k = to_lower name \<and> v \<noteq> GNil) (rev m))"

fun dec_string :: "gval option \<Rightarrow> string res" where
  "dec_string None = Inr []"
| "dec_string (Some (GStr s)) = Inr s"
| "dec_string (Some _) = Inl json_error"

fun dec_bool :: "gval option \<Rightarrow> bool res" where
  "dec_bool None = Inr False"
| "dec_bool (Some (GBool b)) = Inr b"
| "dec_bool (Some _) = Inl json_error"

fun dec_float :: "gval option \<Rightarrow> f64 res" where
  "dec_float None = Inr fzero"
| "dec_float (Some (GNum x)) = Inr x"
| "dec_float (Some (GInt i)) = Inr (fof_int i)"
| "dec_float (Some _) = Inl json_error"

end
