(* ===== verification/Types.thy ===== *)
theory Types
  imports Json
begin

text \<open>
  The data model of \<open>pkg/types/types.go\<close>: snapshots, dominos, workflows, the replay log
  and the result of a run, field for field.  A Go map that may be nil is an \<open>option\<close> of an
  association list; a \<open>time.Time\<close> is its instant in nanoseconds since the Unix epoch.
\<close>

section \<open>Metadata and snapshots\<close>

record objmeta =
  m_name :: string
  m_labels :: "(string \<times> string) list"

record snap_source =
  src_inline :: "gmap option"
  src_path :: string
  src_uri :: string

record snap_spec =
  ss_time_slice :: string
  ss_source :: snap_source
  ss_context_ref :: string
  ss_sealed :: bool

record snap_status =
  sst_phase :: string
  sst_id :: string
  sst_sealed_at :: string

record snapshot =
  sn_api_version :: string
  sn_kind :: string
  sn_meta :: objmeta
  sn_spec :: snap_spec
  sn_status :: "snap_status option"

section \<open>Dominos\<close>

record dom_input =
  di_from_domino :: string
  di_from_snapshot :: string

record dom_spec =
  ds_snapshot_ref :: string
  ds_command :: string
  ds_depends_on :: "string list"
  ds_inputs :: "dom_input list"
  ds_image :: string

record dom_status =
  dst_phase :: string
  dst_input_hash :: string
  dst_output_hash :: string
  dst_reused :: bool
  dst_completed_at :: string

record domino =
  d_api_version :: string
  d_kind :: string
  d_meta :: objmeta
  d_spec :: dom_spec
  d_status :: "dom_status option"

section \<open>Workflows\<close>

record exec_config =
  ex_chain :: "string list"
  ex_deterministic :: bool

record prov_config =
  pv_store_path :: string
  pv_node_local :: bool
  pv_net_none :: bool
  pv_ro_root :: bool

record routing_config =
  rt_universe :: string
  rt_context_ref :: string

record wf_spec =
  ws_snapshot :: snapshot
  ws_dominos :: "domino list"
  ws_execution :: exec_config
  ws_provisioning :: prov_config
  ws_routing :: routing_config

record workflow =
  wf_api_version :: string
  wf_kind :: string
  wf_meta :: objmeta
  wf_spec :: wf_spec

section \<open>Replay log and run result\<close>

record log_entry =
  le_timestamp :: int
  le_snapshot_id :: string
  le_domino_id :: string
  le_input_hash :: string
  le_output_hash :: string
  le_reused :: bool
  le_output :: string
  le_regularity :: string
  le_prev_link :: string
  le_link :: string

record run_result =
  rr_snapshot_id :: string
  rr_entries :: "log_entry list"
  rr_final_output :: string
  rr_min_regularity :: string
  rr_work_evaluations :: int
  rr_work_reuses :: int
  rr_work_cost :: f64
  rr_head_link :: string

section \<open>Zero values\<close>

text \<open>What a composite literal leaves out: the zero value of each struct.\<close>

definition zero_meta :: objmeta where
  "zero_meta = \<lparr>m_name = '''', m_labels = []\<rparr>"

definition zero_source :: snap_source where
  "zero_source = \<lparr>src_inline = None, src_path = '''', src_uri = ''''\<rparr>"

definition zero_snap_spec :: snap_spec where
  "zero_snap_spec = \<lparr>ss_time_slice = '''', ss_source = zero_source, ss_context_ref = '''',
     ss_sealed = False\<rparr>"

definition zero_snapshot :: snapshot where
  "zero_snapshot = \<lparr>sn_api_version = '''', sn_kind = '''', sn_meta = zero_meta,
     sn_spec = zero_snap_spec, sn_status = None\<rparr>"

definition zero_dom_spec :: dom_spec where
  "zero_dom_spec = \<lparr>ds_snapshot_ref = '''', ds_command = '''', ds_depends_on = [],
     ds_inputs = [], ds_image = ''''\<rparr>"

definition zero_domino :: domino where
  "zero_domino = \<lparr>d_api_version = '''', d_kind = '''', d_meta = zero_meta,
     d_spec = zero_dom_spec, d_status = None\<rparr>"

definition zero_provisioning :: prov_config where
  "zero_provisioning = \<lparr>pv_store_path = '''', pv_node_local = False, pv_net_none = False,
     pv_ro_root = False\<rparr>"

definition zero_routing :: routing_config where
  "zero_routing = \<lparr>rt_universe = '''', rt_context_ref = ''''\<rparr>"

lemmas zero_defs = zero_meta_def zero_source_def zero_snap_spec_def zero_snapshot_def
  zero_dom_spec_def zero_domino_def zero_provisioning_def zero_routing_def

abbreviation d_name :: "domino \<Rightarrow> string" where
  "d_name d \<equiv> m_name (d_meta d)"

abbreviation w_chain :: "workflow \<Rightarrow> string list" where
  "w_chain w \<equiv> ex_chain (ws_execution (wf_spec w))"

end
