(* ===== verification/Backend.thy ===== *)
theory Backend
  imports GoLib
begin

text \<open>
  The store interface of \<open>pkg/store\<close>: the replay row and the spine queries of
  \<open>backend.go\<close>, the write-once rules of \<open>once.go\<close>, the errors and optional interfaces
  (\<open>errors.go\<close>, \<open>snapshot_data.go\<close>, \<open>snapshot_payload.go\<close>), the choice of an
  implementation in \<open>OpenBackend\<close>, and the contract \<open>store_backend\<close> every implementation
  owes its clients, stated as a locale.
\<close>

section \<open>Replay rows\<close>

record replay_row =
  re_snapshot_id :: string
  re_domino_id :: string
  re_input_hash :: string
  re_output_hash :: string
  re_output :: string
  re_reused :: bool
  re_prev_link :: string
  re_link :: string

definition zero_row :: replay_row where
  "zero_row = \<lparr>re_snapshot_id = '''', re_domino_id = '''', re_input_hash = '''',
     re_output_hash = '''', re_output = '''', re_reused = False, re_prev_link = '''', re_link = ''''\<rparr>"

definition spine_head :: "replay_row list \<Rightarrow> string \<Rightarrow> string" where
  "spine_head rows snapshotID =
     (if rows \<noteq> [] \<and> re_link (last rows) \<noteq> '''' then re_link (last rows) else snapshotID)"

text \<open>The loop runs from the last row down to the first.\<close>

fun last_spine_from :: "nat \<Rightarrow> replay_row list \<Rightarrow> string \<Rightarrow> replay_row \<times> bool" where
  "last_spine_from 0 rows dominoID = (zero_row, False)"
| "last_spine_from (Suc i) rows dominoID =
     (if re_domino_id (rows ! i) = dominoID then (rows ! i, True)
      else last_spine_from i rows dominoID)"

definition last_spine_result :: "replay_row list \<Rightarrow> string \<Rightarrow> replay_row \<times> bool" where
  "last_spine_result rows dominoID = last_spine_from (length rows) rows dominoID"

lemma last_spine_from_append:
  "i \<le> length rows \<Longrightarrow> last_spine_from i (rows @ xs) d = last_spine_from i rows d"
  by (induction i) (auto simp: nth_append)

lemma last_spine_result_Nil [simp]: "last_spine_result [] d = (zero_row, False)"
  by (simp add: last_spine_result_def)

lemma last_spine_result_snoc [simp]:
  "last_spine_result (rows @ [r]) d =
     (if re_domino_id r = d then (r, True) else last_spine_result rows d)"
  by (simp add: last_spine_result_def last_spine_from_append nth_append)

lemma last_spine_result_find:
  "last_spine_result rows d = (case find (\<lambda>r. re_domino_id r = d) (rev rows) of
      None \<Rightarrow> (zero_row, False) | Some r \<Rightarrow> (r, True))"
  by (induction rows rule: rev_induct) auto

lemma spine_head_Nil [simp]: "spine_head [] s = s"
  by (simp add: spine_head_def)

lemma spine_head_snoc [simp]:
  "spine_head (rows @ [r]) s = (if re_link r \<noteq> '''' then re_link r else s)"
  by (simp add: spine_head_def)

section \<open>Errors and the write-once rules\<close>

definition err_missing_path :: err where
  "err_missing_path = errorf ''store path is required for sqlite backend''"

definition err_missing_endpoint :: err where
  "err_missing_endpoint = errorf ''store endpoint is required for tsdb backend''"

definition err_sealed_overwrite :: err where
  "err_sealed_overwrite = Err KSealedOverwrite ''store: refusing to overwrite sealed snapshot''"

definition err_memo_conflict :: err where
  "err_memo_conflict = Err KMemoConflict ''store: memo key already holds a different output''"

definition not_found :: "err \<Rightarrow> bool" where
  "not_found e = (is_no_rows e \<or> errors_is_not_exist e \<or> err_msg e = ''snapshot not found'')"

text \<open>
  The stored snapshot is a result of \<open>GetSnapshot\<close>: an error, or time slice, data and seal.
\<close>

definition refuse_sealed_mutation ::
  "(string \<times> string \<times> bool) res \<Rightarrow> string \<Rightarrow> string \<Rightarrow> bool \<Rightarrow> unit res" where
  "refuse_sealed_mutation existing timeSlice data sealed =
     (case existing of
        Inl getErr \<Rightarrow> if not_found getErr then Inr () else Inl getErr
      | Inr (existingTime, existingData, existingSealed) \<Rightarrow>
          if \<not> existingSealed then Inr ()
          else if sealed \<and> existingTime = timeSlice \<and> existingData = data then Inr ()
          else Inl err_sealed_overwrite)"

definition refuse_memo_conflict ::
  "(string \<times> string) option \<Rightarrow> string \<Rightarrow> string \<Rightarrow> unit res" where
  "refuse_memo_conflict stored outputHash out =
     (case stored of
        None \<Rightarrow> Inr ()
      | Some (storedHash, storedOut) \<Rightarrow>
          if storedHash = outputHash \<and> storedOut = out then Inr () else Inl err_memo_conflict)"

definition is_snapshot_not_found :: "err \<Rightarrow> bool" where
  "is_snapshot_not_found e =
     (is_no_rows e \<or> os_is_not_exist e \<or> contains_sub (err_msg e) ''snapshot not found'')"

section \<open>The interface\<close>

text \<open>
  The method set of \<open>Backend\<close> over a store state; \<open>b_get_data\<close> and \<open>b_save_payload\<close> are
  present when the implementation also has the optional interface \<open>SnapshotDataGetter\<close> or
  \<open>SnapshotPayloadSaver\<close>.  \<open>LookupMemo\<close> returning found = false is \<open>Inr None\<close>.
\<close>

record 's backend =
  b_save_snapshot :: "string \<Rightarrow> string \<Rightarrow> string \<Rightarrow> bool \<Rightarrow> 's \<Rightarrow> unit res \<times> 's"
  b_get_snapshot :: "string \<Rightarrow> 's \<Rightarrow> (string \<times> string \<times> bool) res \<times> 's"
  b_lookup_memo :: "string \<Rightarrow> string \<Rightarrow> string \<Rightarrow> 's \<Rightarrow> (string \<times> string) option res \<times> 's"
  b_save_result :: "replay_row \<Rightarrow> 's \<Rightarrow> unit res \<times> 's"
  b_get_domino_output :: "string \<Rightarrow> string \<Rightarrow> 's \<Rightarrow> string res \<times> 's"
  b_get_latest :: "string \<Rightarrow> string \<Rightarrow> 's \<Rightarrow> (string \<times> string \<times> string) res \<times> 's"
  b_list_replay :: "string \<Rightarrow> 's \<Rightarrow> replay_row list res \<times> 's"
  b_close :: "'s \<Rightarrow> unit res \<times> 's"
  b_get_data :: "(string \<Rightarrow> 's \<Rightarrow> (string \<times> bool) res \<times> 's) option"
  b_save_payload :: "(string \<Rightarrow> string \<Rightarrow> string \<Rightarrow> bool \<Rightarrow> 's \<Rightarrow> unit res \<times> 's) option"

text \<open>\<open>SaveSnapshotPayload\<close>.\<close>

definition save_snapshot_payload ::
  "'s backend \<Rightarrow> string \<Rightarrow> string \<Rightarrow> string \<Rightarrow> bool \<Rightarrow> 's \<Rightarrow> unit res \<times> 's" where
  "save_snapshot_payload B snapshotID timeSlice payload sealed s =
     (case b_save_payload B of
        Some save \<Rightarrow> save snapshotID timeSlice payload sealed s
      | None \<Rightarrow> b_save_snapshot B snapshotID timeSlice payload sealed s)"

section \<open>Choosing an implementation\<close>

datatype store_type = TypeSQLite | TypeTSDB | TypePostgres | TypeOther string

record store_config =
  sc_type :: store_type
  sc_path :: string
  sc_endpoint :: string

text \<open>Which constructor \<open>OpenBackend\<close> calls, and with what.\<close>

datatype opener = OpenTSDBClient string | OpenPostgres string | OpenSQLite string

definition is_postgres_dsn :: "string \<Rightarrow> bool" where
  "is_postgres_dsn path = (has_prefix path ''postgres://'' \<or> has_prefix path ''postgresql://'')"

definition open_backend :: "store_config \<Rightarrow> opener res" where
  "open_backend cfg =
     (case sc_type cfg of
        TypeTSDB \<Rightarrow> if sc_endpoint cfg = '''' then Inl err_missing_endpoint
                   else Inr (OpenTSDBClient (sc_endpoint cfg))
      | TypePostgres \<Rightarrow> if sc_path cfg = '''' then Inl (errorf ''postgres dsn required'')
                   else Inr (OpenPostgres (sc_path cfg))
      | _ \<Rightarrow> if sc_path cfg = '''' then Inl err_missing_path
             else if is_postgres_dsn (sc_path cfg) then Inr (OpenPostgres (sc_path cfg))
             else Inr (OpenSQLite (sc_path cfg)))"

definition open_path :: "string \<Rightarrow> opener" where
  "open_path path = (if is_postgres_dsn path then OpenPostgres path else OpenSQLite path)"

end
