(* ===== verification/Sha256.thy ===== *)
theory Sha256
  imports GoLib
begin

text \<open>
  \<open>crypto/sha256\<close> as FIPS 180-4 defines it, on byte strings, executable.  Nothing is assumed
  about it: the properties that would need collision resistance state the collision they
  would exhibit instead.
\<close>

unbundle bit_operations_syntax

definition sha_k :: "32 word list" where
  "sha_k = map (\<lambda>i. word_of_int (8399870144517823301722239222130927227141849779511242471197906795369846673996008864786532278482947930035050432913372875699354429524650716672308175015812472005008943341011247634627600705591103756174659437448007297240981034636327441933849465611186184660803773840414514428031635770391245199770927811112653141372483794982516161135727373084047811483050876080270389320947077305721183235613169389468744126235534648516788175255292025668825020963291224099932572215580391753777671218957634024159536228058522778003881673030597872562207069818177476920296259993961459554031943090626293016819766823808480230688357231269177224952050 div 2 ^ (32 * (63 - i)) mod 2 ^ 32)) [0..<64]"

type_synonym sha_state = "32 word \<times> 32 word \<times> 32 word \<times> 32 word \<times> 32 word \<times> 32 word \<times> 32 word \<times> 32 word"

definition sha_init :: sha_state where
  "sha_init = (0x6a09e667, 0xbb67ae85, 0x3c6ef372, 0xa54ff53a, 0x510e527f, 0x9b05688c, 0x1f83d9ab, 0x5be0cd19)"

definition sha_be32 :: "char \<Rightarrow> char \<Rightarrow> char \<Rightarrow> char \<Rightarrow> 32 word" where
  "sha_be32 a b c d = of_char a * 16777216 + of_char b * 65536 + of_char c * 256 + of_char d"

fun sha_words :: "string \<Rightarrow> 32 word list" where
  "sha_words (a # b # c # d # s) = sha_be32 a b c d # sha_words s"
| "sha_words _ = []"

text \<open>Message schedule, most recent word first.\<close>

fun sha_extend :: "nat \<Rightarrow> 32 word list \<Rightarrow> 32 word list" where
  "sha_extend 0 ws = ws"
| "sha_extend (Suc n) ws =
     (let w2 = ws ! 1; w15 = ws ! 14;
          s1 = word_rotr 17 w2 XOR word_rotr 19 w2 XOR drop_bit 10 w2;
          s0 = word_rotr 7 w15 XOR word_rotr 18 w15 XOR drop_bit 3 w15
      in sha_extend n ((s1 + ws ! 6 + s0 + ws ! 15) # ws))"

fun sha_round :: "32 word \<times> 32 word \<Rightarrow> sha_state \<Rightarrow> sha_state" where
  "sha_round (k, w) (a, b, c, d, e, f, g, h) =
     (let s1 = word_rotr 6 e XOR word_rotr 11 e XOR word_rotr 25 e;
          ch = (e AND f) XOR ((NOT e) AND g);
          t1 = h + s1 + ch + k + w;
          s0 = word_rotr 2 a XOR word_rotr 13 a XOR word_rotr 22 a;
          maj = (a AND b) XOR (a AND c) XOR (b AND c)
      in (t1 + s0 + maj, a, b, c, d + t1, e, f, g))"

fun sha_add :: "sha_state \<Rightarrow> sha_state \<Rightarrow> sha_state" where
  "sha_add (a, b, c, d, e, f, g, h) (a', b', c', d', e', f', g', h') =
     (a + a', b + b', c + c', d + d', e + e', f + f', g + g', h + h')"

definition sha_block :: "string \<Rightarrow> sha_state \<Rightarrow> sha_state" where
  "sha_block blk st =
     sha_add st (fold sha_round (zip sha_k (rev (sha_extend 48 (rev (sha_words blk))))) st)"

definition be_bytes :: "nat \<Rightarrow> int \<Rightarrow> string" where
  "be_bytes k n = map (\<lambda>i. char_of (n div 256 ^ (k - 1 - i) mod 256)) [0..<k]"

definition sha_pad :: "string \<Rightarrow> string" where
  "sha_pad m =
     (let z = (119 - length m mod 64) mod 64
      in m @ [char_of (128::nat)] @ replicate z (char_of (0::nat)) @ be_bytes 8 (8 * int (length m) mod 2 ^ 64))"

function sha_blocks :: "string \<Rightarrow> sha_state \<Rightarrow> sha_state" where
  "sha_blocks m st = (if length m < 64 then st else sha_blocks (drop 64 m) (sha_block (take 64 m) st))"
  by pat_completeness auto
termination
  by (relation "measure (\<lambda>(m, st). length m)") auto

declare sha_blocks.simps [simp del]

definition word_bytes :: "32 word \<Rightarrow> string" where
  "word_bytes w = be_bytes 4 (uint w)"

fun sha_out :: "sha_state \<Rightarrow> string" where
  "sha_out (a, b, c, d, e, f, g, h) = concat (map word_bytes [a, b, c, d, e, f, g, h])"

text \<open>\<open>sha256.Sum256\<close>.\<close>

definition sha256 :: "string \<Rightarrow> string" where
  "sha256 m = sha_out (sha_blocks (sha_pad m) sha_init)"

lemma length_be_bytes [simp]: "length (be_bytes k n) = k"
  by (simp add: be_bytes_def)

lemma length_sha_out [simp]: "length (sha_out st) = 32"
  by (cases st rule: sha_out.cases) (simp add: word_bytes_def)

lemma length_sha256 [simp]: "length (sha256 m) = 32"
  by (simp add: sha256_def)

lemma sha_pad_blocks: "64 dvd length (sha_pad m)"
proof -
  define q r where "q = length m div 64" and "r = length m mod 64"
  have r: "r < 64" and len: "length m = 64 * q + r" by (simp_all add: q_def r_def)
  have pad: "length (sha_pad m) = 64 * q + r + 9 + (119 - r) mod 64"
    by (simp add: sha_pad_def Let_def len r)
  show ?thesis
  proof (cases "r < 56")
    case True
    then have "(119 - r) mod 64 = 55 - r" by (simp add: le_mod_geq)
    with True pad have "length (sha_pad m) = 64 * (q + 1)" by simp
    then show ?thesis by simp
  next
    case False
    with r have "(119 - r) mod 64 = 119 - r" by simp
    with r pad have "length (sha_pad m) = 64 * (q + 2)" by simp
    then show ?thesis by simp
  qed
qed

text \<open>Two different messages with one digest.\<close>

definition sha_collision :: "string \<Rightarrow> string \<Rightarrow> bool" where
  "sha_collision x y = (x \<noteq> y \<and> sha256 x = sha256 y)"


end
