(* ===== verification/Hash.thy ===== *)
theory Hash
  imports Json Sha256
begin

text \<open>
  \<open>pkg/hash/hash.go\<close>: the digest of a value, the memo key, the spine link and the
  content-addressed snapshot identity.  \<open>crypto/sha256\<close> is the executable \<open>sha256\<close>.
  What the lemmas show: the length and alphabet of every digest, and that two inputs with
  one digest are equal or exhibit an explicit SHA-256 collision.
\<close>

section \<open>Digest of a value\<close>

text \<open>\<open>normalize\<close>: a string is its bytes, every other value its JSON encoding.\<close>

fun normalize :: "gval \<Rightarrow> string res" where
  "normalize (GStr s) = Inr s"
| "normalize v = json_marshal v"

definition compute_str :: "string \<Rightarrow> string" where
  "compute_str s = hex_encode (sha256 s)"

definition compute :: "gval \<Rightarrow> string res" where
  "compute data = (case normalize data of
      Inl e \<Rightarrow> Inl e
    | Inr normalized \<Rightarrow> Inr (hex_encode (sha256 normalized)))"

text \<open>\<open>ChainKey\<close>.\<close>

definition chain_key :: "string \<Rightarrow> string \<Rightarrow> string \<Rightarrow> string" where
  "chain_key snapshotID dominoID inputHash = snapshotID @ '':'' @ dominoID @ '':'' @ inputHash"

text \<open>\<open>Link\<close>.\<close>

definition link :: "string list \<Rightarrow> string res" where
  "link parts = (if parts = [] then Inl (errorf ''hash: empty link'')
     else compute (GStr (join_with '':'' parts)))"

section \<open>Snapshot identity\<close>

definition snapshot_id_hex_len :: nat where
  "snapshot_id_hex_len = 32"

definition id_payload :: "string \<Rightarrow> gval \<Rightarrow> gval" where
  "id_payload timeSlice data = GMap [(''timeSlice'', GStr timeSlice), (''data'', data)]"

definition snapshot_id :: "string \<Rightarrow> gval \<Rightarrow> string res" where
  "snapshot_id timeSlice data = (case compute (id_payload timeSlice data) of
      Inl e \<Rightarrow> Inl e
    | Inr h \<Rightarrow> Inr (take snapshot_id_hex_len h))"

definition assert_snapshot_id :: "string \<Rightarrow> string \<Rightarrow> gval \<Rightarrow> unit res" where
  "assert_snapshot_id snapshotID timeSlice data = (case snapshot_id timeSlice data of
      Inl e \<Rightarrow> Inl e
    | Inr want \<Rightarrow> if snapshotID \<noteq> want
        then Inl (errorf ''hash: snapshot content does not match snapshot ID'') else Inr ())"

text \<open>\<open>SortedKeys\<close>.\<close>

definition sorted_keys :: "gmap \<Rightarrow> string list" where
  "sorted_keys m = sort (map fst m)"

section \<open>Shape of digests\<close>

lemma compute_GStr [simp]: "compute (GStr s) = Inr (compute_str s)"
  by (simp add: compute_def compute_str_def)

lemma length_compute_str [simp]: "length (compute_str s) = 64"
  by (simp add: compute_str_def length_sha256)

lemma compute_str_no_colon [simp]: "CHR '':'' \<notin> set (compute_str s)"
  by (simp add: compute_str_def hex_encode_no_colon)

lemma compute_Inr_length: "compute v = Inr h \<Longrightarrow> length h = 64"
  by (auto simp: compute_def length_sha256 split: sum.splits)

lemma compute_Inr_no_colon: "compute v = Inr h \<Longrightarrow> CHR '':'' \<notin> set h"
  by (auto simp: compute_def hex_encode_no_colon split: sum.splits)

lemma link_Inr: "ps \<noteq> [] \<Longrightarrow> link ps = Inr (compute_str (join_with '':'' ps))"
  by (simp add: link_def)

lemma snapshot_id_length: "snapshot_id ts d = Inr i \<Longrightarrow> length i = 32"
  by (auto simp: snapshot_id_def snapshot_id_hex_len_def length_sha256
      dest: compute_Inr_length split: sum.splits)

lemma snapshot_id_no_colon: "snapshot_id ts d = Inr i \<Longrightarrow> CHR '':'' \<notin> set i"
  by (auto simp: snapshot_id_def dest!: compute_Inr_no_colon
      dest: in_set_takeD split: sum.splits)

lemma snapshot_id_not_Nil: "snapshot_id ts d = Inr i \<Longrightarrow> i \<noteq> []"
  using snapshot_id_length by fastforce

section \<open>Binding\<close>

lemma compute_str_eqD: "compute_str x = compute_str y \<Longrightarrow> x = y \<or> sha_collision x y"
  by (auto simp: compute_str_def sha_collision_def dest: hex_encode_inject)

lemma chain_key_inject:
  assumes "CHR '':'' \<notin> set s" "CHR '':'' \<notin> set s'" "CHR '':'' \<notin> set h" "CHR '':'' \<notin> set h'"
    and "chain_key s d h = chain_key s' d' h'"
  shows "s = s' \<and> d = d' \<and> h = h'"
proof -
  have e: "s @ CHR '':'' # (d @ CHR '':'' # h) = s' @ CHR '':'' # (d' @ CHR '':'' # h')"
    using assms(5) by (simp add: chain_key_def)
  from split_first [OF e assms(1,2)] have "s = s'" and r: "d @ CHR '':'' # h = d' @ CHR '':'' # h'"
    by auto
  from split_last [OF r assms(3,4)] \<open>s = s'\<close> show ?thesis by auto
qed

end
