(* ===== verification/Contract.thy ===== *)
theory Contract
  imports Backend Hash
begin

text \<open>
  The contract of a store, as its clients rely on it.  A store state is seen through three
  views: the snapshot held under an identity, the memo held under a key, and the replay rows
  of a snapshot in the order they were recorded.  The laws of \<open>store_laws\<close> hold for whatever
  calls do succeed; \<open>ok\<close> says that no call is going to fail.  \<open>okid\<close> and \<open>oktext\<close> say
  which identities and texts the implementation can represent, \<open>okhash\<close> which input hashes.
\<close>

locale store_laws =
  fixes B :: "'s backend"
    and inv :: "'s \<Rightarrow> bool" and ok :: "'s \<Rightarrow> bool"
    and okid :: "string \<Rightarrow> bool" and oktext :: "string \<Rightarrow> bool" and okhash :: "string \<Rightarrow> bool"
    and snap :: "'s \<Rightarrow> string \<Rightarrow> (string \<times> string \<times> bool) option"
    and memo :: "'s \<Rightarrow> string \<Rightarrow> string \<Rightarrow> string \<Rightarrow> (string \<times> string) option"
    and rows :: "'s \<Rightarrow> string \<Rightarrow> replay_row list"
  assumes okid_hash: "okid (take 32 (compute_str y))"
    and oktext_hash: "oktext (compute_str y)"
    and oktext_id: "okid i \<Longrightarrow> oktext i"
    and memo_text: "inv s \<Longrightarrow> memo s i d h = Some (oh, out) \<Longrightarrow> oktext oh \<and> oktext out"
    and get_snapshot_frame: "inv s \<Longrightarrow> b_get_snapshot B i s = (g, s') \<Longrightarrow>
      inv s' \<and> (ok s \<longrightarrow> ok s') \<and> snap s' = snap s \<and> memo s' = memo s \<and> rows s' = rows s"
    and lookup_memo_frame: "inv s \<Longrightarrow> b_lookup_memo B i d h s = (mr, s') \<Longrightarrow>
      inv s' \<and> (ok s \<longrightarrow> ok s') \<and> snap s' = snap s \<and> memo s' = memo s \<and> rows s' = rows s"
    and list_replay_frame: "inv s \<Longrightarrow> b_list_replay B i s = (lr, s') \<Longrightarrow>
      inv s' \<and> (ok s \<longrightarrow> ok s') \<and> snap s' = snap s \<and> memo s' = memo s \<and> rows s' = rows s"
    and get_latest_frame: "inv s \<Longrightarrow> b_get_latest B i d s = (t, s') \<Longrightarrow>
      inv s' \<and> (ok s \<longrightarrow> ok s') \<and> snap s' = snap s \<and> memo s' = memo s \<and> rows s' = rows s"
    and get_data_frame: "inv s \<Longrightarrow> b_get_data B = Some gd \<Longrightarrow> gd i s = (p, s') \<Longrightarrow>
      inv s' \<and> (ok s \<longrightarrow> ok s') \<and> snap s' = snap s \<and> memo s' = memo s \<and> rows s' = rows s"
    and get_snapshot_sound: "inv s \<Longrightarrow> okid i \<Longrightarrow> b_get_snapshot B i s = (Inr x, s') \<Longrightarrow> snap s i = Some x"
    and lookup_memo_sound_h: "inv s \<Longrightarrow> okid i \<Longrightarrow> okid d \<Longrightarrow> okhash h \<Longrightarrow>
      b_lookup_memo B i d h s = (Inr m, s') \<Longrightarrow> m = None \<or> m = memo s i d h"
    and list_replay_sound: "inv s \<Longrightarrow> okid i \<Longrightarrow> b_list_replay B i s = (Inr l, s') \<Longrightarrow> l = rows s i"
    and get_latest_sound: "inv s \<Longrightarrow> okid i \<Longrightarrow> okid d \<Longrightarrow> b_get_latest B i d s = (Inr (ih, oh, out), s') \<Longrightarrow>
      (case last_spine_result (rows s i) d of
         (r, True) \<Rightarrow> ih = re_input_hash r \<and> oh = re_output_hash r \<and> out = re_output r
       | (_, False) \<Rightarrow> memo s i d ih = Some (oh, out))"
    and get_data_sound: "inv s \<Longrightarrow> okid i \<Longrightarrow> b_get_data B = Some gd \<Longrightarrow> gd i s = (Inr (data, sealed), s') \<Longrightarrow>
      \<exists>ts. snap s i = Some (ts, data, sealed)"
    and save_snapshot_frame: "inv s \<Longrightarrow> okid i \<Longrightarrow> b_save_snapshot B i ts data sealed s = (u, s') \<Longrightarrow>
      inv s' \<and> memo s' = memo s \<and> rows s' = rows s
      \<and> (\<forall>j. okid j \<longrightarrow> j \<noteq> i \<longrightarrow> snap s' j = snap s j)
      \<and> (\<forall>t d. snap s i = Some (t, d, True) \<longrightarrow> snap s' i = snap s i)"
    and save_snapshot_sound: "inv s \<Longrightarrow> okid i \<Longrightarrow> oktext ts \<Longrightarrow> oktext data \<Longrightarrow>
      b_save_snapshot B i ts data sealed s = (Inr (), s') \<Longrightarrow> snap s' i = Some (ts, data, sealed)"
    and save_result_frame_h: "inv s \<Longrightarrow> okid (re_snapshot_id r) \<Longrightarrow> okid (re_domino_id r) \<Longrightarrow>
      okhash (re_input_hash r) \<Longrightarrow> b_save_result B r s = (u, s') \<Longrightarrow>
      inv s' \<and> snap s' = snap s
      \<and> (\<forall>i d h v. memo s i d h = Some v \<longrightarrow> memo s' i d h = Some v)
      \<and> (\<forall>i. i \<noteq> re_snapshot_id r \<longrightarrow> rows s' i = rows s i)
      \<and> (u \<noteq> Inr () \<longrightarrow> rows s' = rows s)"
    and save_result_sound_h: "inv s \<Longrightarrow> okid (re_snapshot_id r) \<Longrightarrow> okid (re_domino_id r) \<Longrightarrow>
      okhash (re_input_hash r) \<Longrightarrow> oktext (re_output_hash r) \<Longrightarrow> oktext (re_output r) \<Longrightarrow>
      oktext (re_prev_link r) \<Longrightarrow> oktext (re_link r) \<Longrightarrow> b_save_result B r s = (Inr (), s') \<Longrightarrow>
      rows s' (re_snapshot_id r) = rows s (re_snapshot_id r) @ [r]
      \<and> (\<not> re_reused r \<longrightarrow> memo s' (re_snapshot_id r) (re_domino_id r) (re_input_hash r)
            = Some (re_output_hash r, re_output r))"
    and save_payload: "b_save_payload B = Some sp \<Longrightarrow> sp = b_save_snapshot B"
    and okhash_hash: "okhash (compute_str y)"
begin

text \<open>The laws at the hashes the engine computes.\<close>

lemmas lookup_memo_sound = lookup_memo_sound_h [OF _ _ _ okhash_hash]

lemma okhash_eq: "h = compute_str y \<Longrightarrow> okhash h"
  using okhash_hash by simp

lemmas save_result_frame = save_result_frame_h [OF _ _ _ okhash_eq]
lemmas save_result_sound = save_result_sound_h [OF _ _ _ okhash_eq]

text \<open>What every call keeps, as one relation between store states.\<close>

definition keeps :: "'s \<Rightarrow> 's \<Rightarrow> bool" where
  "keeps s s' \<longleftrightarrow> inv s'
     \<and> (\<forall>i t d. okid i \<longrightarrow> snap s i = Some (t, d, True) \<longrightarrow> snap s' i = Some (t, d, True))
     \<and> (\<forall>i d h v. memo s i d h = Some v \<longrightarrow> memo s' i d h = Some v)"

lemma keeps_refl: "inv s \<Longrightarrow> keeps s s"
  by (simp add: keeps_def)

lemma keeps_trans: "keeps s s' \<Longrightarrow> keeps s' s'' \<Longrightarrow> keeps s s''"
  by (simp add: keeps_def)

lemma keeps_inv: "keeps s s' \<Longrightarrow> inv s'"
  by (simp add: keeps_def)

text \<open>A read changes nothing that can be observed.\<close>

definition same :: "'s \<Rightarrow> 's \<Rightarrow> bool" where
  "same s s' \<longleftrightarrow> inv s' \<and> (ok s \<longrightarrow> ok s') \<and> snap s' = snap s \<and> memo s' = memo s \<and> rows s' = rows s"

lemma same_refl: "inv s \<Longrightarrow> same s s"
  by (simp add: same_def)

lemma same_trans: "same s s' \<Longrightarrow> same s' s'' \<Longrightarrow> same s s''"
  by (simp add: same_def)

lemma same_keeps: "same s s' \<Longrightarrow> keeps s s'"
  by (simp add: same_def keeps_def)

lemma get_snapshot_same: "inv s \<Longrightarrow> b_get_snapshot B i s = (r, s') \<Longrightarrow> same s s'"
  using get_snapshot_frame by (simp add: same_def)

lemma lookup_memo_same: "inv s \<Longrightarrow> b_lookup_memo B i d h s = (m, s') \<Longrightarrow> same s s'"
  using lookup_memo_frame by (simp add: same_def)

lemma list_replay_same: "inv s \<Longrightarrow> b_list_replay B i s = (l, s') \<Longrightarrow> same s s'"
  using list_replay_frame by (simp add: same_def)

lemma get_latest_same: "inv s \<Longrightarrow> b_get_latest B i d s = (t, s') \<Longrightarrow> same s s'"
  using get_latest_frame by (simp add: same_def)

lemma get_data_same: "inv s \<Longrightarrow> b_get_data B = Some g \<Longrightarrow> g i s = (p, s') \<Longrightarrow> same s s'"
  using get_data_frame by (simp add: same_def)

lemma save_snapshot_keeps:
  assumes "inv s" "okid i" "b_save_snapshot B i ts data sealed s = (u, s')"
  shows "keeps s s'"
  using save_snapshot_frame [OF assms] unfolding keeps_def by metis

lemma save_result_keeps:
  assumes "inv s" "okid (re_snapshot_id r)" "okid (re_domino_id r)"
    "okhash (re_input_hash r)" "b_save_result B r s = (u, s')"
  shows "keeps s s'"
  using save_result_frame_h [OF assms] unfolding keeps_def by metis

text \<open>
  A sealed snapshot read back after any sequence of calls is the one that was sealed: the
  read returns it or reports an error.
\<close>

lemma sealed_read_back:
  assumes "keeps s s'" "okid i" "snap s i = Some (t, d, True)"
    and "b_get_snapshot B i s' = (r, s'')"
  shows "r = Inr (t, d, True) \<or> (\<exists>e. r = Inl e)"
proof (cases r)
  case (Inr x)
  with get_snapshot_sound [OF keeps_inv [OF assms(1)] assms(2)] assms(4)
  have "snap s' i = Some x" by simp
  with assms(1-3) Inr show ?thesis by (simp add: keeps_def)
qed simp

end

text \<open>
  A store that also answers whenever no call is going to fail.
\<close>

locale store_backend = store_laws +
  assumes get_snapshot_ok: "inv s \<Longrightarrow> ok s \<Longrightarrow> okid i \<Longrightarrow> b_get_snapshot B i s = (g, s') \<Longrightarrow>
      (case snap s i of Some x \<Rightarrow> g = Inr x
       | None \<Rightarrow> \<exists>e. g = Inl e \<and> is_snapshot_not_found e \<and> not_found e)"
    and lookup_memo_ok_h: "inv s \<Longrightarrow> ok s \<Longrightarrow> okid i \<Longrightarrow> okid d \<Longrightarrow> okhash h \<Longrightarrow>
      b_lookup_memo B i d h s = (mr, s') \<Longrightarrow> mr = Inr (memo s i d h)"
    and list_replay_ok: "inv s \<Longrightarrow> ok s \<Longrightarrow> okid i \<Longrightarrow> b_list_replay B i s = (lr, s') \<Longrightarrow> lr = Inr (rows s i)"
    and get_data_ok: "inv s \<Longrightarrow> ok s \<Longrightarrow> okid i \<Longrightarrow> b_get_data B = Some gd \<Longrightarrow> gd i s = (p, s') \<Longrightarrow>
      (case snap s i of Some (ts, data, sealed) \<Rightarrow> p = Inr (data, sealed)
       | None \<Rightarrow> \<exists>e. p = Inl e \<and> is_snapshot_not_found e)"
    and save_snapshot_ok: "inv s \<Longrightarrow> ok s \<Longrightarrow> okid i \<Longrightarrow> oktext ts \<Longrightarrow>
      b_save_snapshot B i ts data sealed s = (u, s') \<Longrightarrow>
      ok s' \<and> (u = Inr () \<or> u = Inl err_sealed_overwrite
        \<and> (\<exists>t d. snap s i = Some (t, d, True) \<and> (t \<noteq> ts \<or> d \<noteq> data \<or> \<not> sealed)))"
    and save_result_ok_h: "inv s \<Longrightarrow> ok s \<Longrightarrow> okid (re_snapshot_id r) \<Longrightarrow> okid (re_domino_id r) \<Longrightarrow>
      okhash (re_input_hash r) \<Longrightarrow> oktext (re_output_hash r) \<Longrightarrow> oktext (re_output r) \<Longrightarrow>
      oktext (re_prev_link r) \<Longrightarrow> oktext (re_link r) \<Longrightarrow> b_save_result B r s = (u, s') \<Longrightarrow>
      ok s' \<and> (u = Inr () \<or> \<not> re_reused r \<and> u = Inl err_memo_conflict
        \<and> (\<exists>v. memo s (re_snapshot_id r) (re_domino_id r) (re_input_hash r) = Some v
             \<and> v \<noteq> (re_output_hash r, re_output r)))"
begin

lemmas lookup_memo_ok = lookup_memo_ok_h [OF _ _ _ _ okhash_hash]
lemmas save_result_ok = save_result_ok_h [OF _ _ _ _ okhash_eq]

end

end
