(* ===== verification/Sqlite.thy ===== *)
theory Sqlite
  imports Contract
begin

text \<open>
  \<open>SQLiteBackend\<close> (\<open>pkg/store/sqlite.go\<close>).  The database is its three tables as lists of
  rows, \<open>id INTEGER PRIMARY KEY AUTOINCREMENT\<close> being the position; a statement consumes one
  entry of the fault schedule, a transaction that does not commit leaves the tables as they
  were, and every statement on a closed handle fails.  The column \<open>created_at\<close> is never read
  and left out.  The theory ends with the interpretation of the store contract.
\<close>

section \<open>Database and statements\<close>

record sq_result =
  sr_snapshot_id :: string
  sr_domino_id :: string
  sr_input_hash :: string
  sr_output_hash :: string
  sr_output :: string

record sqlite =
  sq_snaps :: "(string \<times> string \<times> string \<times> bool) list"
  sq_results :: "sq_result list"
  sq_replay :: "replay_row list"
  sq_open :: bool
  sq_faults :: faults

definition sq_empty :: sqlite where
  "sq_empty = \<lparr>sq_snaps = [], sq_results = [], sq_replay = [], sq_open = True, sq_faults = []\<rparr>"

text \<open>One statement: the error the driver reports, if any.\<close>

definition sq_call :: "sqlite \<Rightarrow> err option \<times> sqlite" where
  "sq_call s = (if \<not> sq_open s then (Some (Err KIO ''sql: database is closed''), s)
     else case next_fault (sq_faults s) of (e, fs) \<Rightarrow> (e, s\<lparr>sq_faults := fs\<rparr>))"

definition sq_key :: "string \<Rightarrow> string \<Rightarrow> string \<Rightarrow> sq_result \<Rightarrow> bool" where
  "sq_key i d h r = (sr_snapshot_id r = i \<and> sr_domino_id r = d \<and> sr_input_hash r = h)"

text \<open>
  \<open>OpenSQLite\<close>: directory, driver handle and \<open>migrate\<close>; the statements adding columns
  are allowed to fail.
\<close>

definition sq_migrate :: "sqlite \<Rightarrow> unit res \<times> sqlite" where
  "sq_migrate s = (case sq_call s of
      (Some e, s1) \<Rightarrow> (Inl e, s1)
    | (None, s1) \<Rightarrow> (let (_, s2) = sq_call s1; (_, s3) = sq_call s2 in (Inr (), s3)))"

definition open_sqlite :: "unit res \<Rightarrow> unit res \<Rightarrow> sqlite \<Rightarrow> unit res \<times> sqlite" where
  "open_sqlite mkdir sql_open s =
     (case mkdir of Inl e \<Rightarrow> (Inl (wrapf ''create store directory'' e), s)
      | Inr _ \<Rightarrow> (case sql_open of Inl e \<Rightarrow> (Inl (wrapf ''open sqlite'' e), s)
          | Inr _ \<Rightarrow> (case sq_migrate (s\<lparr>sq_open := True\<rparr>) of
              (Inl e, s1) \<Rightarrow> (Inl e, s1\<lparr>sq_open := False\<rparr>)
            | (Inr _, s1) \<Rightarrow> (Inr (), s1))))"

section \<open>Methods\<close>

definition sq_get_snapshot :: "string \<Rightarrow> sqlite \<Rightarrow> (string \<times> string \<times> bool) res \<times> sqlite" where
  "sq_get_snapshot snapshotID s = (case sq_call s of
      (Some e, s1) \<Rightarrow> (Inl e, s1)
    | (None, s1) \<Rightarrow> (case map_of (sq_snaps s1) snapshotID of
          None \<Rightarrow> (Inl err_no_rows, s1)
        | Some row \<Rightarrow> (Inr row, s1)))"

definition sq_save_snapshot ::
  "string \<Rightarrow> string \<Rightarrow> string \<Rightarrow> bool \<Rightarrow> sqlite \<Rightarrow> unit res \<times> sqlite" where
  "sq_save_snapshot snapshotID timeSlice data sealed s =
     (let (existing, s1) = sq_get_snapshot snapshotID s
      in case refuse_sealed_mutation existing timeSlice data sealed of
          Inl e \<Rightarrow> (Inl e, s1)
        | Inr _ \<Rightarrow>
          if (case existing of Inr (_, _, True) \<Rightarrow> True | _ \<Rightarrow> False) then (Inr (), s1)
          else (case sq_call s1 of
              (Some e, s2) \<Rightarrow> (Inl e, s2)
            | (None, s2) \<Rightarrow>
                (Inr (), s2\<lparr>sq_snaps := aput snapshotID (timeSlice, data, sealed) (sq_snaps s2)\<rparr>)))"

definition sq_get_data :: "string \<Rightarrow> sqlite \<Rightarrow> (string \<times> bool) res \<times> sqlite" where
  "sq_get_data snapshotID s = (case sq_get_snapshot snapshotID s of
      (Inl e, s1) \<Rightarrow> (Inl e, s1)
    | (Inr (_, data, sealed), s1) \<Rightarrow> (Inr (data, sealed), s1))"

definition sq_lookup_memo ::
  "string \<Rightarrow> string \<Rightarrow> string \<Rightarrow> sqlite \<Rightarrow> (string \<times> string) option res \<times> sqlite" where
  "sq_lookup_memo snapshotID dominoID inputHash s = (case sq_call s of
      (Some e, s1) \<Rightarrow> (Inl e, s1)
    | (None, s1) \<Rightarrow> (case find (sq_key snapshotID dominoID inputHash) (sq_results s1) of
          None \<Rightarrow> (Inr None, s1)
        | Some r \<Rightarrow> (Inr (Some (sr_output_hash r, sr_output r)), s1)))"

text \<open>\<open>INSERT INTO domino_results\<close>, with its \<open>UNIQUE\<close> constraint.\<close>

definition sq_insert_result :: "replay_row \<Rightarrow> sqlite \<Rightarrow> unit res \<times> sqlite" where
  "sq_insert_result r s = (case sq_call s of
      (Some e, s1) \<Rightarrow> (Inl e, s1)
    | (None, s1) \<Rightarrow>
        if \<exists>q\<in>set (sq_results s1). sq_key (re_snapshot_id r) (re_domino_id r) (re_input_hash r) q
        then (Inl (Err KIO ''UNIQUE constraint failed: domino_results.snapshot_id, domino_results.domino_id, domino_results.input_hash''), s1)
        else (Inr (), s1\<lparr>sq_results := sq_results s1 @
          [\<lparr>sr_snapshot_id = re_snapshot_id r, sr_domino_id = re_domino_id r,
            sr_input_hash = re_input_hash r, sr_output_hash = re_output_hash r,
            sr_output = re_output r\<rparr>]\<rparr>))"

text \<open>
  The body of \<open>SaveResult\<close> between \<open>Begin\<close> and \<open>Commit\<close>.  \<open>LookupMemo\<close> runs on the
  database handle, outside the transaction, before the transaction has written anything.
\<close>

definition sq_save_memo :: "replay_row \<Rightarrow> sqlite \<Rightarrow> unit res \<times> sqlite" where
  "sq_save_memo r s =
     (if re_reused r then (Inr (), s)
      else case sq_lookup_memo (re_snapshot_id r) (re_domino_id r) (re_input_hash r) s of
          (Inl e, s1) \<Rightarrow> (Inl e, s1)
        | (Inr stored, s1) \<Rightarrow>
          (case refuse_memo_conflict stored (re_output_hash r) (re_output r) of
              Inl e \<Rightarrow> (Inl e, s1)
            | Inr _ \<Rightarrow> if stored = None then sq_insert_result r s1 else (Inr (), s1)))"

definition sq_save_tx :: "replay_row \<Rightarrow> sqlite \<Rightarrow> unit res \<times> sqlite" where
  "sq_save_tx r s = (case sq_save_memo r s of
      (Inl e, s1) \<Rightarrow> (Inl e, s1)
    | (Inr _, s1) \<Rightarrow> (case sq_call s1 of
          (Some e, s2) \<Rightarrow> (Inl e, s2)
        | (None, s2) \<Rightarrow> (case sq_call (s2\<lparr>sq_replay := sq_replay s2 @ [r]\<rparr>) of
              (Some e, s3) \<Rightarrow> (Inl e, s3)
            | (None, s3) \<Rightarrow> (Inr (), s3))))"

text \<open>\<open>defer tx.Rollback()\<close>: what the transaction wrote is undone unless it committed.\<close>

definition sq_save_result :: "replay_row \<Rightarrow> sqlite \<Rightarrow> unit res \<times> sqlite" where
  "sq_save_result r s = (case sq_call s of
      (Some e, s1) \<Rightarrow> (Inl e, s1)
    | (None, s1) \<Rightarrow> (case sq_save_tx r s1 of
          (Inr _, s2) \<Rightarrow> (Inr (), s2)
        | (Inl e, s2) \<Rightarrow>
            (Inl e, s2\<lparr>sq_results := sq_results s1, sq_replay := sq_replay s1\<rparr>)))"

definition sq_get_latest :: "string \<Rightarrow> string \<Rightarrow> sqlite \<Rightarrow> (string \<times> string \<times> string) res \<times> sqlite" where
  "sq_get_latest snapshotID dominoID s = (case sq_call s of
      (Some e, s1) \<Rightarrow> (Inl e, s1)
    | (None, s1) \<Rightarrow>
      (case find (\<lambda>r. re_snapshot_id r = snapshotID \<and> re_domino_id r = dominoID) (rev (sq_replay s1)) of
          Some r \<Rightarrow> (Inr (re_input_hash r, re_output_hash r, re_output r), s1)
        | None \<Rightarrow> (case sq_call s1 of
              (Some e, s2) \<Rightarrow> (Inl e, s2)
            | (None, s2) \<Rightarrow>
              (case find (\<lambda>r. sr_snapshot_id r = snapshotID \<and> sr_domino_id r = dominoID) (rev (sq_results s2)) of
                  Some r \<Rightarrow> (Inr (sr_input_hash r, sr_output_hash r, sr_output r), s2)
                | None \<Rightarrow> (Inl err_no_rows, s2)))))"

definition sq_get_domino_output :: "string \<Rightarrow> string \<Rightarrow> sqlite \<Rightarrow> string res \<times> sqlite" where
  "sq_get_domino_output snapshotID dominoID s = (case sq_get_latest snapshotID dominoID s of
      (Inl e, s1) \<Rightarrow> (Inl e, s1)
    | (Inr (_, _, out), s1) \<Rightarrow> (Inr out, s1))"

definition sq_list_replay :: "string \<Rightarrow> sqlite \<Rightarrow> replay_row list res \<times> sqlite" where
  "sq_list_replay snapshotID s = (case sq_call s of
      (Some e, s1) \<Rightarrow> (Inl e, s1)
    | (None, s1) \<Rightarrow> (case sq_call s1 of
          (Some e, s2) \<Rightarrow> (Inl e, s2)
        | (None, s2) \<Rightarrow> (Inr (filter (\<lambda>r. re_snapshot_id r = snapshotID) (sq_replay s2)), s2)))"

definition sq_close :: "sqlite \<Rightarrow> unit res \<times> sqlite" where
  "sq_close s = (Inr (), s\<lparr>sq_open := False\<rparr>)"

definition sqlite_backend :: "sqlite backend" where
  "sqlite_backend =
     \<lparr>b_save_snapshot = sq_save_snapshot, b_get_snapshot = sq_get_snapshot,
      b_lookup_memo = sq_lookup_memo, b_save_result = sq_save_result,
      b_get_domino_output = sq_get_domino_output, b_get_latest = sq_get_latest,
      b_list_replay = sq_list_replay, b_close = sq_close,
      b_get_data = Some sq_get_data, b_save_payload = None\<rparr>"

section \<open>Views and invariant\<close>

definition sq_snap :: "sqlite \<Rightarrow> string \<Rightarrow> (string \<times> string \<times> bool) option" where
  "sq_snap s i = map_of (sq_snaps s) i"

definition sq_memo :: "sqlite \<Rightarrow> string \<Rightarrow> string \<Rightarrow> string \<Rightarrow> (string \<times> string) option" where
  "sq_memo s i d h = map_option (\<lambda>r. (sr_output_hash r, sr_output r)) (find (sq_key i d h) (sq_results s))"

definition sq_rows :: "sqlite \<Rightarrow> string \<Rightarrow> replay_row list" where
  "sq_rows s i = filter (\<lambda>r. re_snapshot_id r = i) (sq_replay s)"

text \<open>The \<open>UNIQUE\<close> constraint: no two results have one key.\<close>

definition sq_inv :: "sqlite \<Rightarrow> bool" where
  "sq_inv s = (distinct (map (\<lambda>r. (sr_snapshot_id r, sr_domino_id r, sr_input_hash r)) (sq_results s))
     \<and> distinct (map fst (sq_snaps s)))"

definition sq_ok :: "sqlite \<Rightarrow> bool" where
  "sq_ok s = (sq_open s \<and> no_faults (sq_faults s))"

section \<open>Laws\<close>

lemma sq_call_frame:
  assumes "sq_call s = (e, s')"
  shows "sq_snaps s' = sq_snaps s \<and> sq_results s' = sq_results s \<and> sq_replay s' = sq_replay s
    \<and> sq_open s' = sq_open s \<and> (sq_ok s \<longrightarrow> e = None \<and> sq_ok s')"
proof (cases "sq_open s")
  case True
  show ?thesis
  proof (cases "no_faults (sq_faults s)")
    case ok: True
    from next_fault_no_faults [OF this] assms True show ?thesis
      by (auto simp: sq_call_def sq_ok_def)
  next
    case False
    with assms True show ?thesis by (auto simp: sq_call_def sq_ok_def split: prod.splits)
  qed
next
  case False
  with assms show ?thesis by (auto simp: sq_call_def sq_ok_def)
qed

lemma sq_views_cong:
  assumes "sq_snaps s' = sq_snaps s" "sq_results s' = sq_results s" "sq_replay s' = sq_replay s"
  shows "sq_snap s' = sq_snap s" "sq_memo s' = sq_memo s" "sq_rows s' = sq_rows s" "sq_inv s' = sq_inv s"
  using assms by (auto simp: sq_snap_def sq_memo_def sq_rows_def sq_inv_def fun_eq_iff)

lemma sq_call_views:
  assumes "sq_call s = (e, s')"
  shows "sq_snap s' = sq_snap s \<and> sq_memo s' = sq_memo s \<and> sq_rows s' = sq_rows s \<and> sq_inv s' = sq_inv s
    \<and> (sq_ok s \<longrightarrow> e = None \<and> sq_ok s')"
  using sq_call_frame [OF assms] sq_views_cong [of s' s] by simp

lemma sq_call_not_found: "sq_call s = (Some e, s') \<Longrightarrow> \<not> not_found e"
proof -
  assume a: "sq_call s = (Some e, s')"
  have "e = Err KIO ''sql: database is closed'' \<or> (\<exists>m. e = io_err m)"
    using a next_fault_SomeD by (fastforce simp: sq_call_def split: if_splits prod.splits)
  then show ?thesis
    by (auto simp: not_found_def is_no_rows_def errors_is_not_exist_def io_err_def)
qed

lemma sq_get_snapshot_laws:
  assumes "sq_get_snapshot i s = (g, s')"
  shows "sq_snap s' = sq_snap s \<and> sq_memo s' = sq_memo s \<and> sq_rows s' = sq_rows s \<and> sq_inv s' = sq_inv s
    \<and> sq_snaps s' = sq_snaps s \<and> sq_results s' = sq_results s \<and> sq_replay s' = sq_replay s
    \<and> (\<forall>x. g = Inr x \<longrightarrow> sq_snap s i = Some x)
    \<and> (\<forall>e. g = Inl e \<longrightarrow> not_found e \<longrightarrow> sq_snap s i = None)
    \<and> (sq_ok s \<longrightarrow> sq_ok s' \<and> (case sq_snap s i of Some x \<Rightarrow> g = Inr x | None \<Rightarrow> g = Inl err_no_rows))"
proof -
  obtain e s1 where c: "sq_call s = (e, s1)" by fastforce
  note v = sq_call_views [OF c] and f = sq_call_frame [OF c]
  from assms c v f sq_call_not_found show ?thesis
    by (cases e) (auto simp: sq_get_snapshot_def sq_snap_def split: option.splits)
qed

lemma sq_get_data_laws:
  assumes "sq_get_data i s = (p, s')"
  shows "sq_snap s' = sq_snap s \<and> sq_memo s' = sq_memo s \<and> sq_rows s' = sq_rows s \<and> sq_inv s' = sq_inv s
    \<and> (\<forall>d b. p = Inr (d, b) \<longrightarrow> (\<exists>t. sq_snap s i = Some (t, d, b)))
    \<and> (sq_ok s \<longrightarrow> sq_ok s' \<and> (case sq_snap s i of Some (t, d, b) \<Rightarrow> p = Inr (d, b) | None \<Rightarrow> p = Inl err_no_rows))"
proof -
  obtain g s1 where g: "sq_get_snapshot i s = (g, s1)" by fastforce
  note laws = sq_get_snapshot_laws [OF g]
  show ?thesis
  proof (cases g)
    case (Inl e)
    with assms g have "p = Inl e" "s' = s1" by (simp_all add: sq_get_data_def)
    with laws Inl show ?thesis by (auto split: option.splits)
  next
    case (Inr x)
    obtain t d b where x: "x = (t, d, b)" by (cases x)
    with assms g Inr have "p = Inr (d, b)" "s' = s1" by (simp_all add: sq_get_data_def)
    with laws Inr x show ?thesis by auto
  qed
qed

lemma sq_lookup_memo_laws:
  assumes "sq_lookup_memo i d h s = (m, s')"
  shows "sq_snap s' = sq_snap s \<and> sq_memo s' = sq_memo s \<and> sq_rows s' = sq_rows s \<and> sq_inv s' = sq_inv s
    \<and> sq_snaps s' = sq_snaps s \<and> sq_results s' = sq_results s \<and> sq_replay s' = sq_replay s
    \<and> (\<forall>x. m = Inr x \<longrightarrow> x = sq_memo s i d h) \<and> (sq_ok s \<longrightarrow> sq_ok s' \<and> m = Inr (sq_memo s i d h))"
proof -
  obtain e s1 where c: "sq_call s = (e, s1)" by fastforce
  note v = sq_call_views [OF c] and f = sq_call_frame [OF c]
  from assms c v f show ?thesis
    by (cases e) (auto simp: sq_lookup_memo_def sq_memo_def split: option.splits)
qed

lemma sq_list_replay_laws:
  assumes "sq_list_replay i s = (l, s')"
  shows "sq_snap s' = sq_snap s \<and> sq_memo s' = sq_memo s \<and> sq_rows s' = sq_rows s \<and> sq_inv s' = sq_inv s
    \<and> (\<forall>x. l = Inr x \<longrightarrow> x = sq_rows s i) \<and> (sq_ok s \<longrightarrow> sq_ok s' \<and> l = Inr (sq_rows s i))"
proof -
  obtain e s1 where c: "sq_call s = (e, s1)" by fastforce
  obtain e2 s2 where c2: "sq_call s1 = (e2, s2)" by fastforce
  note v = sq_call_views [OF c] sq_call_views [OF c2] and f = sq_call_frame [OF c] sq_call_frame [OF c2]
  from assms c c2 v f show ?thesis
    by (cases e; cases e2) (auto simp: sq_list_replay_def sq_rows_def)
qed

lemma find_rev_rows:
  "find (\<lambda>r. re_snapshot_id r = i \<and> re_domino_id r = d) (rev rs)
     = find (\<lambda>r. re_domino_id r = d) (rev (filter (\<lambda>r. re_snapshot_id r = i) rs))"
  by (induction rs rule: rev_induct) auto

lemma distinct_find:
  assumes "distinct (map f xs)" "x \<in> set xs" "\<And>y. P y \<longleftrightarrow> f y = f x"
  shows "find P xs = Some x"
  using assms(1,2)
proof (induction xs)
  case (Cons a xs)
  show ?case
  proof (cases "f a = f x")
    case True
    then have "a = x" using Cons.prems by (auto simp: rev_image_eqI)
    then show ?thesis using assms(3) by simp
  next
    case False
    then show ?thesis using Cons assms(3) by auto
  qed
qed simp

lemma sq_get_latest_laws:
  assumes "sq_get_latest i d s = (t, s')" "sq_inv s"
  shows "sq_snap s' = sq_snap s \<and> sq_memo s' = sq_memo s \<and> sq_rows s' = sq_rows s \<and> sq_inv s' = sq_inv s
    \<and> (sq_ok s \<longrightarrow> sq_ok s')
    \<and> (\<forall>ih oh out. t = Inr (ih, oh, out) \<longrightarrow>
        (case last_spine_result (sq_rows s i) d of
           (r, True) \<Rightarrow> ih = re_input_hash r \<and> oh = re_output_hash r \<and> out = re_output r
         | (_, False) \<Rightarrow> sq_memo s i d ih = Some (oh, out)))"
proof -
  obtain e s1 where c: "sq_call s = (e, s1)" by fastforce
  obtain e2 s2 where c2: "sq_call s1 = (e2, s2)" by fastforce
  note v = sq_call_views [OF c] sq_call_views [OF c2] and f = sq_call_frame [OF c] sq_call_frame [OF c2]
  have last: "last_spine_result (sq_rows s i) d =
      (case find (\<lambda>r. re_snapshot_id r = i \<and> re_domino_id r = d) (rev (sq_replay s)) of
         None \<Rightarrow> (zero_row, False) | Some r \<Rightarrow> (r, True))"
    by (simp add: last_spine_result_find sq_rows_def find_rev_rows)
  have memo: "sq_memo s i d (sr_input_hash q) = Some (sr_output_hash q, sr_output q)"
    if "find (\<lambda>r. sr_snapshot_id r = i \<and> sr_domino_id r = d) (rev (sq_results s)) = Some q" for q
  proof -
    from find_rev_SomeD [OF that] have q: "q \<in> set (sq_results s)" "sr_snapshot_id q = i" "sr_domino_id q = d"
      by auto
    have "find (sq_key i d (sr_input_hash q)) (sq_results s) = Some q"
      by (rule distinct_find [where f = "\<lambda>r. (sr_snapshot_id r, sr_domino_id r, sr_input_hash r)"])
        (use assms(2) q in \<open>auto simp: sq_inv_def sq_key_def\<close>)
    then show ?thesis by (simp add: sq_memo_def)
  qed
  show ?thesis
  proof (cases e)
    case (Some err)
    with assms(1) c v show ?thesis by (auto simp: sq_get_latest_def)
  next
    case None
    show ?thesis
    proof (cases "find (\<lambda>r. re_snapshot_id r = i \<and> re_domino_id r = d) (rev (sq_replay s))")
      case (Some r)
      with None assms(1) c f(1) have "t = Inr (re_input_hash r, re_output_hash r, re_output r)" "s' = s1"
        by (simp_all add: sq_get_latest_def)
      with last Some v show ?thesis by auto
    next
      case none: None
      with None assms(1) c c2 f have *: "(t, s') = (case e2 of Some e \<Rightarrow> (Inl e, s2)
        | None \<Rightarrow> (case find (\<lambda>r. sr_snapshot_id r = i \<and> sr_domino_id r = d) (rev (sq_results s)) of
                  Some r \<Rightarrow> (Inr (sr_input_hash r, sr_output_hash r, sr_output r), s2)
                | None \<Rightarrow> (Inl err_no_rows, s2)))"
        by (auto simp: sq_get_latest_def split: option.splits)
      then have "s' = s2" by (auto split: option.splits)
      moreover have "sq_memo s i d ih = Some (oh, out)" if "t = Inr (ih, oh, out)" for ih oh out
        using * that memo by (auto split: option.splits)
      ultimately show ?thesis using last none v None by auto
    qed
  qed
qed

lemma sq_save_snapshot_laws:
  assumes "sq_save_snapshot i ts data sealed s = (u, s')" "sq_inv s"
  shows "sq_inv s' \<and> sq_memo s' = sq_memo s \<and> sq_rows s' = sq_rows s
    \<and> (\<forall>j. j \<noteq> i \<longrightarrow> sq_snap s' j = sq_snap s j)
    \<and> (\<forall>t d. sq_snap s i = Some (t, d, True) \<longrightarrow> sq_snap s' i = sq_snap s i)
    \<and> (u = Inr () \<longrightarrow> sq_snap s' i = Some (ts, data, sealed))
    \<and> (sq_ok s \<longrightarrow> sq_ok s' \<and> (u = Inr () \<or> u = Inl err_sealed_overwrite
        \<and> (\<exists>t d. sq_snap s i = Some (t, d, True) \<and> (t \<noteq> ts \<or> d \<noteq> data \<or> \<not> sealed))))"
proof -
  obtain g s1 where g: "sq_get_snapshot i s = (g, s1)" by fastforce
  obtain e s2 where c: "sq_call s1 = (e, s2)" by fastforce
  note laws = sq_get_snapshot_laws [OF g] and v = sq_call_views [OF c] and f = sq_call_frame [OF c]
  let ?w = "s2\<lparr>sq_snaps := aput i (ts, data, sealed) (sq_snaps s2)\<rparr>"
  have same: "sq_snaps s2 = sq_snaps s" "sq_results s2 = sq_results s" "sq_replay s2 = sq_replay s"
    using laws f by simp_all
  have w: "sq_memo ?w = sq_memo s" "sq_rows ?w = sq_rows s"
    "sq_snap ?w = (sq_snap s)(i \<mapsto> (ts, data, sealed))"
    using same by (simp_all add: sq_memo_def sq_rows_def sq_snap_def fun_eq_iff)
  have winv: "sq_inv ?w" using same assms(2) by (simp add: sq_inv_def distinct_aput)
  have wok: "sq_ok s \<Longrightarrow> e = None \<and> sq_ok ?w" using laws v by (simp add: sq_ok_def)
  show ?thesis
  proof (cases "refuse_sealed_mutation g ts data sealed")
    case (Inl er)
    with assms(1) g have "u = Inl er" "s' = s1" by (simp_all add: sq_save_snapshot_def)
    with Inl laws assms(2) show ?thesis
      by (cases g) (auto simp: refuse_sealed_mutation_def not_found_def is_no_rows_def err_no_rows_def
          split: if_splits option.splits)
  next
    case (Inr x)
    show ?thesis
    proof (cases "\<exists>t d. g = Inr (t, d, True)")
      case True
      with assms(1) g Inr have "u = Inr ()" "s' = s1" by (auto simp: sq_save_snapshot_def)
      with True Inr laws assms(2) show ?thesis
        by (auto simp: refuse_sealed_mutation_def split: if_splits)
    next
      case False
      have nf: "\<not> (case g of Inr (_, _, True) \<Rightarrow> True | _ \<Rightarrow> False)"
        using False by (auto split: sum.splits bool.splits)
      have us: "(u, s') = (case e of Some er \<Rightarrow> (Inl er, s2) | None \<Rightarrow> (Inr (), ?w))"
        using assms(1) g Inr c nf by (auto simp: sq_save_snapshot_def)
      have ns: "sq_snap s i \<noteq> Some (t, d, True)" for t d
      proof (cases g)
        case (Inl er)
        with Inr have "not_found er" by (auto simp: refuse_sealed_mutation_def split: if_splits)
        with Inl laws show ?thesis by auto
      next
        case (Inr y)
        with laws False show ?thesis by auto
      qed
      show ?thesis
      proof (cases e)
        case None
        with us have "u = Inr ()" "s' = ?w" by auto
        then show ?thesis using w winv wok ns by simp
      next
        case (Some er)
        with us have "u = Inl er" "s' = s2" by auto
        then show ?thesis using laws v Some wok assms(2) by auto
      qed
    qed
  qed
qed

lemma find_append_other: "\<not> P y \<Longrightarrow> find P (xs @ [y]) = find P xs"
  by (induction xs) auto

lemma find_append_keep: "find P xs = Some x \<Longrightarrow> find P (xs @ ys) = Some x"
  by (induction xs) auto

lemma find_append_new: "find P xs = None \<Longrightarrow> P y \<Longrightarrow> find P (xs @ [y]) = Some y"
  by (induction xs) (auto split: if_splits)

lemma sq_key_eq [simp]: "sq_key i d h \<lparr>sr_snapshot_id = i', sr_domino_id = d', sr_input_hash = h',
    sr_output_hash = oh, sr_output = out\<rparr> \<longleftrightarrow> i = i' \<and> d = d' \<and> h = h'"
  by (auto simp: sq_key_def)

text \<open>
  The memo half of the transaction: the new row, if any, is the only change, it is under a
  key that had none, and the stored output is the one being saved.
\<close>

definition sq_row :: "replay_row \<Rightarrow> sq_result" where
  "sq_row r = \<lparr>sr_snapshot_id = re_snapshot_id r, sr_domino_id = re_domino_id r,
     sr_input_hash = re_input_hash r, sr_output_hash = re_output_hash r, sr_output = re_output r\<rparr>"

abbreviation sq_find :: "replay_row \<Rightarrow> sqlite \<Rightarrow> sq_result option" where
  "sq_find r s \<equiv> find (sq_key (re_snapshot_id r) (re_domino_id r) (re_input_hash r)) (sq_results s)"

lemma sq_save_memo_laws:
  assumes "sq_save_memo r s = (u, s')"
  shows "sq_snaps s' = sq_snaps s \<and> sq_replay s' = sq_replay s
    \<and> (sq_results s' = sq_results s \<or> sq_find r s = None \<and> sq_results s' = sq_results s @ [sq_row r])
    \<and> (u = Inr () \<and> \<not> re_reused r \<longrightarrow>
         sq_memo s' (re_snapshot_id r) (re_domino_id r) (re_input_hash r) = Some (re_output_hash r, re_output r))
    \<and> (sq_ok s \<longrightarrow> sq_ok s' \<and> (u = Inr () \<or> \<not> re_reused r \<and> u = Inl err_memo_conflict
         \<and> (\<exists>v. sq_memo s (re_snapshot_id r) (re_domino_id r) (re_input_hash r) = Some v
              \<and> v \<noteq> (re_output_hash r, re_output r))))"
proof (cases "re_reused r")
  case True
  with assms show ?thesis by (auto simp: sq_save_memo_def)
next
  case False
  obtain m s1 where m: "sq_lookup_memo (re_snapshot_id r) (re_domino_id r) (re_input_hash r) s = (m, s1)"
    by fastforce
  note ml = sq_lookup_memo_laws [OF m]
  obtain e s2 where c: "sq_call s1 = (e, s2)" by fastforce
  note f = sq_call_frame [OF c]
  show ?thesis
  proof (cases m)
    case (Inl er)
    with assms False m have "u = Inl er" "s' = s1" by (simp_all add: sq_save_memo_def)
    with ml Inl show ?thesis by auto
  next
    case (Inr stored)
    then have st: "stored = sq_memo s (re_snapshot_id r) (re_domino_id r) (re_input_hash r)" using ml by simp
    show ?thesis
    proof (cases stored)
      case None
      then have nf: "sq_find r s = None" using st by (simp add: sq_memo_def)
      then have fresh: "\<not> (\<exists>q\<in>set (sq_results s2).
          sq_key (re_snapshot_id r) (re_domino_id r) (re_input_hash r) q)"
        using ml f by (simp add: find_None_iff)
      have us: "(u, s') = (case e of Some er \<Rightarrow> (Inl er, s2)
          | None \<Rightarrow> (Inr (), s2\<lparr>sq_results := sq_results s2 @ [sq_row r]\<rparr>))"
        using assms False m Inr None c fresh
        by (auto simp: sq_save_memo_def refuse_memo_conflict_def sq_insert_result_def sq_row_def
            split: option.splits)
      show ?thesis
      proof (cases e)
        case (Some er)
        with us ml f show ?thesis by auto
      next
        case none: None
        with us have "u = Inr ()" and s': "s' = s2\<lparr>sq_results := sq_results s @ [sq_row r]\<rparr>"
          using ml f by auto
        have "sq_memo s' (re_snapshot_id r) (re_domino_id r) (re_input_hash r)
            = Some (re_output_hash r, re_output r)"
          using find_append_new [OF nf, of "sq_row r"] s' by (simp add: sq_memo_def sq_row_def)
        moreover have "sq_ok s \<longrightarrow> sq_ok s'" using ml f s' by (simp add: sq_ok_def)
        moreover have "sq_snaps s' = sq_snaps s" "sq_replay s' = sq_replay s"
          "sq_results s' = sq_results s @ [sq_row r]" using ml f s' by simp_all
        ultimately show ?thesis using \<open>u = Inr ()\<close> nf by simp
      qed
    next
      case (Some v)
      with assms False m Inr have us: "(u, s') = (if v = (re_output_hash r, re_output r)
          then (Inr (), s1) else (Inl err_memo_conflict, s1))"
        by (cases v) (auto simp: sq_save_memo_def refuse_memo_conflict_def)
      have memo: "sq_memo s1 = sq_memo s" using ml by simp
      have rest: "sq_snaps s1 = sq_snaps s" "sq_results s1 = sq_results s" "sq_replay s1 = sq_replay s"
        "sq_ok s \<longrightarrow> sq_ok s1" using ml by simp_all
      show ?thesis
      proof (cases "v = (re_output_hash r, re_output r)")
        case True
        with us have "u = Inr ()" "s' = s1" by simp_all
        with rest memo Some st True show ?thesis by simp
      next
        case ne: False
        with us have "u = Inl err_memo_conflict" "s' = s1" by simp_all
        with rest Some st ne False show ?thesis by simp
      qed
    qed
  qed
qed

lemma sq_save_tx_laws:
  assumes "sq_save_tx r s = (u, s')"
  shows "sq_snaps s' = sq_snaps s
    \<and> (sq_results s' = sq_results s \<or> sq_find r s = None \<and> sq_results s' = sq_results s @ [sq_row r])
    \<and> (u = Inr () \<longrightarrow> sq_replay s' = sq_replay s @ [r])
    \<and> (u = Inr () \<and> \<not> re_reused r \<longrightarrow>
         sq_memo s' (re_snapshot_id r) (re_domino_id r) (re_input_hash r) = Some (re_output_hash r, re_output r))
    \<and> (sq_ok s \<longrightarrow> sq_ok s' \<and> (u = Inr () \<or> \<not> re_reused r \<and> u = Inl err_memo_conflict
         \<and> (\<exists>v. sq_memo s (re_snapshot_id r) (re_domino_id r) (re_input_hash r) = Some v
              \<and> v \<noteq> (re_output_hash r, re_output r))))"
proof -
  obtain u1 s1 where m: "sq_save_memo r s = (u1, s1)" by fastforce
  note ml = sq_save_memo_laws [OF m]
  obtain e s2 where c: "sq_call s1 = (e, s2)" by fastforce
  obtain e3 s3 where c3: "sq_call (s2\<lparr>sq_replay := sq_replay s2 @ [r]\<rparr>) = (e3, s3)" by fastforce
  note f = sq_call_frame [OF c] and f3 = sq_call_frame [OF c3]
  show ?thesis
  proof (cases u1)
    case (Inl er)
    with assms m have "u = Inl er" "s' = s1" by (simp_all add: sq_save_tx_def)
    with ml Inl show ?thesis by auto
  next
    case (Inr x)
    show ?thesis
    proof (cases e)
      case (Some er)
      with assms m Inr c have "u = Inl er" "s' = s2" by (simp_all add: sq_save_tx_def)
      with ml f Some Inr show ?thesis by auto
    next
      case None
      with assms m Inr c c3 have us: "(u, s') = (case e3 of Some er \<Rightarrow> (Inl er, s3) | None \<Rightarrow> (Inr (), s3))"
        by (simp add: sq_save_tx_def)
      then have s': "s' = s3" by (auto split: option.splits)
      have ok: "sq_ok s \<Longrightarrow> e3 = None \<and> sq_ok s3"
        using ml f f3 by (simp add: sq_ok_def)
      have "sq_results s3 = sq_results s1" using f f3 by simp
      then have "sq_memo s3 = sq_memo s1" by (simp add: sq_memo_def fun_eq_iff)
      with ml f f3 us ok s' Inr show ?thesis by (auto split: option.splits)
    qed
  qed
qed

lemma sq_memo_append_mono:
  assumes "sq_results s' = sq_results s \<or> sq_results s' = sq_results s @ [q]" "sq_memo s i d h = Some v"
  shows "sq_memo s' i d h = Some v"
  using assms find_append_keep by (fastforce simp: sq_memo_def)

lemma sq_save_result_laws:
  assumes "sq_save_result r s = (u, s')" "sq_inv s"
  shows "sq_inv s' \<and> sq_snap s' = sq_snap s
    \<and> (\<forall>i d h v. sq_memo s i d h = Some v \<longrightarrow> sq_memo s' i d h = Some v)
    \<and> (\<forall>i. i \<noteq> re_snapshot_id r \<longrightarrow> sq_rows s' i = sq_rows s i)
    \<and> (u \<noteq> Inr () \<longrightarrow> sq_rows s' = sq_rows s \<and> sq_memo s' = sq_memo s)
    \<and> (u = Inr () \<longrightarrow> sq_rows s' (re_snapshot_id r) = sq_rows s (re_snapshot_id r) @ [r])
    \<and> (u = Inr () \<and> \<not> re_reused r \<longrightarrow>
         sq_memo s' (re_snapshot_id r) (re_domino_id r) (re_input_hash r) = Some (re_output_hash r, re_output r))
    \<and> (sq_ok s \<longrightarrow> sq_ok s' \<and> (u = Inr () \<or> \<not> re_reused r \<and> u = Inl err_memo_conflict
         \<and> (\<exists>v. sq_memo s (re_snapshot_id r) (re_domino_id r) (re_input_hash r) = Some v
              \<and> v \<noteq> (re_output_hash r, re_output r))))"
proof -
  obtain e s1 where c: "sq_call s = (e, s1)" by fastforce
  note f = sq_call_frame [OF c] and v = sq_call_views [OF c]
  obtain u2 s2 where t: "sq_save_tx r s1 = (u2, s2)" by fastforce
  note tl = sq_save_tx_laws [OF t]
  have memo1: "sq_memo s1 = sq_memo s" using v by simp
  show ?thesis
  proof (cases e)
    case (Some er)
    with assms(1) c have "u = Inl er" "s' = s1" by (simp_all add: sq_save_result_def)
    with v Some assms(2) show ?thesis by auto
  next
    case None
    show ?thesis
    proof (cases u2)
      case (Inl er)
      with assms(1) c None t have u: "u = Inl er"
        and s': "s' = s2\<lparr>sq_results := sq_results s1, sq_replay := sq_replay s1\<rparr>"
        by (simp_all add: sq_save_result_def)
      have "sq_snap s' = sq_snap s" "sq_memo s' = sq_memo s" "sq_rows s' = sq_rows s" "sq_inv s' = sq_inv s"
        using s' tl f sq_views_cong [of s' s] by simp_all
      moreover have "sq_ok s \<longrightarrow> sq_ok s' \<and> (u = Inr () \<or> \<not> re_reused r \<and> u = Inl err_memo_conflict
         \<and> (\<exists>v. sq_memo s (re_snapshot_id r) (re_domino_id r) (re_input_hash r) = Some v
              \<and> v \<noteq> (re_output_hash r, re_output r)))"
      proof
        assume "sq_ok s"
        then have "sq_ok s1" using v by simp
        with tl have "sq_ok s2" and d: "u2 = Inr () \<or> \<not> re_reused r \<and> u2 = Inl err_memo_conflict
          \<and> (\<exists>v. sq_memo s1 (re_snapshot_id r) (re_domino_id r) (re_input_hash r) = Some v
               \<and> v \<noteq> (re_output_hash r, re_output r))" by simp_all
        then have "sq_ok s'" using s' by (simp add: sq_ok_def)
        with d Inl u memo1 show "sq_ok s' \<and> (u = Inr () \<or> \<not> re_reused r \<and> u = Inl err_memo_conflict
          \<and> (\<exists>v. sq_memo s (re_snapshot_id r) (re_domino_id r) (re_input_hash r) = Some v
               \<and> v \<noteq> (re_output_hash r, re_output r)))" by simp
      qed
      ultimately show ?thesis using u assms(2) by simp
    next
      case (Inr x)
      with assms(1) c None t have u: "u = Inr ()" and s': "s' = s2"
        by (simp_all add: sq_save_result_def)
      have res: "sq_results s' = sq_results s \<or> sq_find r s = None \<and> sq_results s' = sq_results s @ [sq_row r]"
        using tl f s' by simp
      have "sq_inv s'"
      proof -
        have "(re_snapshot_id r, re_domino_id r, re_input_hash r)
            \<notin> (\<lambda>q. (sr_snapshot_id q, sr_domino_id q, sr_input_hash q)) ` set (sq_results s)"
          if "sq_find r s = None" using that by (force simp: find_None_iff sq_key_def)
        moreover have "sq_snaps s' = sq_snaps s" using tl f s' by simp
        ultimately show ?thesis using res assms(2) unfolding sq_inv_def by (auto simp: sq_row_def)
      qed
      moreover have "sq_snap s' = sq_snap s" using tl f s' by (simp add: sq_snap_def fun_eq_iff)
      moreover have "\<forall>i d h v. sq_memo s i d h = Some v \<longrightarrow> sq_memo s' i d h = Some v"
        using sq_memo_append_mono res by blast
      moreover have "sq_replay s' = sq_replay s @ [r]" using tl f s' Inr by simp
      moreover from this have "sq_rows s' (re_snapshot_id r) = sq_rows s (re_snapshot_id r) @ [r]"
        "\<forall>i. i \<noteq> re_snapshot_id r \<longrightarrow> sq_rows s' i = sq_rows s i"
        by (auto simp: sq_rows_def)
      moreover have "sq_ok s \<longrightarrow> sq_ok s'" using tl v s' by simp
      moreover have "\<not> re_reused r \<longrightarrow>
         sq_memo s' (re_snapshot_id r) (re_domino_id r) (re_input_hash r) = Some (re_output_hash r, re_output r)"
        using tl s' Inr by simp
      ultimately show ?thesis using u by simp
    qed
  qed
qed

section \<open>The contract\<close>

lemma err_no_rows_found [simp]: "is_snapshot_not_found err_no_rows" "not_found err_no_rows"
  by (simp_all add: is_snapshot_not_found_def not_found_def is_no_rows_def err_no_rows_def)

lemmas sqlite_sel = sqlite_backend_def backend.select_convs option.inject

interpretation sqlite: store_backend sqlite_backend sq_inv sq_ok "\<lambda>_. True" "\<lambda>_. True" "\<lambda>_. True" sq_snap sq_memo sq_rows
proof (unfold_locales, goal_cases)
  case 4
  then show ?case by (auto simp: sqlite_sel dest!: sq_get_snapshot_laws)
next
  case 5
  then show ?case by (auto simp: sqlite_sel dest!: sq_lookup_memo_laws)
next
  case 6
  then show ?case by (auto simp: sqlite_sel dest!: sq_list_replay_laws)
next
  case 7
  then show ?case by (auto simp: sqlite_sel dest!: sq_get_latest_laws)
next
  case 8
  then show ?case by (auto simp: sqlite_sel dest!: sq_get_data_laws)
next
  case 9
  then show ?case by (auto simp: sqlite_sel dest!: sq_get_snapshot_laws)
next
  case 10
  then show ?case by (auto simp: sqlite_sel dest!: sq_lookup_memo_laws)
next
  case 11
  then show ?case by (auto simp: sqlite_sel dest!: sq_list_replay_laws)
next
  case 12
  then show ?case by (auto simp: sqlite_sel dest!: sq_get_latest_laws)
next
  case 13
  then show ?case by (auto simp: sqlite_sel dest!: sq_get_data_laws)
next
  case 14
  then show ?case by (auto simp: sqlite_sel dest!: sq_save_snapshot_laws)
next
  case 15
  then show ?case by (auto simp: sqlite_sel dest!: sq_save_snapshot_laws)
next
  case 16
  then show ?case by (auto simp: sqlite_sel dest!: sq_save_result_laws)
next
  case 17
  then show ?case by (auto simp: sqlite_sel dest!: sq_save_result_laws)
next
  case (19 s i g s')
  from 19(4) have g: "sq_get_snapshot i s = (g, s')" by (simp add: sqlite_sel)
  have v: "case sq_snap s i of Some x \<Rightarrow> g = Inr x | None \<Rightarrow> g = Inl err_no_rows"
    using sq_get_snapshot_laws [OF g] 19(2) by blast
  show ?case
  proof (cases "sq_snap s i")
    case None
    with v have "g = Inl err_no_rows" by simp
    with None show ?thesis using err_no_rows_found by auto
  next
    case (Some x)
    with v show ?thesis by simp
  qed
next
  case 20
  then show ?case by (auto simp: sqlite_sel dest!: sq_lookup_memo_laws)
next
  case 21
  then show ?case by (auto simp: sqlite_sel dest!: sq_list_replay_laws)
next
  case (22 s i gd p s')
  from 22(4,5) have p: "sq_get_data i s = (p, s')" by (auto simp: sqlite_sel)
  have v: "case sq_snap s i of Some (t, d, b) \<Rightarrow> p = Inr (d, b) | None \<Rightarrow> p = Inl err_no_rows"
    using sq_get_data_laws [OF p] 22(2) by blast
  show ?case
  proof (cases "sq_snap s i")
    case None
    with v have "p = Inl err_no_rows" by simp
    with None show ?thesis using err_no_rows_found by auto
  next
    case (Some x)
    with v show ?thesis by (cases x) simp
  qed
next
  case 23
  then show ?case by (auto simp: sqlite_sel dest!: sq_save_snapshot_laws)
next
  case 24
  then show ?case by (auto simp: sqlite_sel dest!: sq_save_result_laws)
qed (simp_all add: sqlite_backend_def)

end
