(* ===== verification/World.thy ===== *)
theory World
  imports GoLib
begin

text \<open>
  What a run reads outside the program: the clock, the file system, HTTP servers and the
  Julia interpreter.  Each is a function of the number of the call, so that it may answer
  differently every time; a call advances \<open>w_tick\<close>.  \<open>w_impure\<close> is the process-wide counter
  \<open>impureSeq\<close> of \<open>pkg/executor\<close>.
\<close>

text \<open>An HTTP exchange: a transport error, or a status and the body as far as it could be read.\<close>

datatype http_reply = HttpErr err | HttpResp int "string res"

record world =
  w_clock :: "nat \<Rightarrow> int"
  w_stat_size :: "nat \<Rightarrow> string \<Rightarrow> int res"
  w_read_file :: "nat \<Rightarrow> string \<Rightarrow> string res"
  w_mmap :: "nat \<Rightarrow> string \<Rightarrow> int \<Rightarrow> string res"
  w_http_get :: "nat \<Rightarrow> string \<Rightarrow> http_reply"
  w_mkdir_temp :: "nat \<Rightarrow> string res"
  w_write_file :: "nat \<Rightarrow> string \<Rightarrow> unit res"
  w_julia_run :: "nat \<Rightarrow> string \<Rightarrow> string list \<Rightarrow> string \<Rightarrow> unit res \<times> string res"
  w_tick :: nat
  w_impure :: "64 word"

definition tick :: "world \<Rightarrow> world" where
  "tick w = w\<lparr>w_tick := Suc (w_tick w)\<rparr>"

text \<open>\<open>time.Now()\<close> in nanoseconds since the epoch.\<close>

definition time_now :: "world \<Rightarrow> int \<times> world" where
  "time_now w = (w_clock w (w_tick w), tick w)"

definition os_stat_size :: "string \<Rightarrow> world \<Rightarrow> int res \<times> world" where
  "os_stat_size path w = (w_stat_size w (w_tick w) path, tick w)"

definition os_read_file :: "string \<Rightarrow> world \<Rightarrow> string res \<times> world" where
  "os_read_file path w = (w_read_file w (w_tick w) path, tick w)"

definition http_get :: "string \<Rightarrow> world \<Rightarrow> http_reply \<times> world" where
  "http_get uri w = (w_http_get w (w_tick w) uri, tick w)"

text \<open>A world that answers every call with an error, the clock standing at zero.\<close>

definition no_world :: world where
  "no_world = \<lparr>w_clock = (\<lambda>_. 0), w_stat_size = (\<lambda>_ _. Inl (errorf ''stat'')),
     w_read_file = (\<lambda>_ _. Inl (errorf ''read'')), w_mmap = (\<lambda>_ _ _. Inl (errorf ''mmap'')),
     w_http_get = (\<lambda>_ _. HttpErr (errorf ''get'')), w_mkdir_temp = (\<lambda>_. Inl (errorf ''mkdir'')),
     w_write_file = (\<lambda>_ _. Inl (errorf ''write'')),
     w_julia_run = (\<lambda>_ _ _ _. (Inl (errorf ''run''), Inl (errorf ''read''))),
     w_tick = 0, w_impure = 0\<rparr>"

end
