(* ===== verification/Snapshot.thy ===== *)
theory Snapshot
  imports Types Sqlite World
begin

text \<open>
  \<open>pkg/snapshot\<close>: resolving a snapshot source (\<open>content.go\<close>, \<open>mmap_unix.go\<close>), sealing it
  under its content-addressed identity (\<open>seal.go\<close>, \<open>staging.go\<close>) and reading it back from
  the store first (\<open>store_content.go\<close>).  \<open>v1alpha1.SnapshotSpec\<close> and \<open>types.SnapshotSpec\<close>
  have the same fields and share one record.
\<close>

section \<open>Reading sources\<close>

definition mmap_read_threshold :: int where
  "mmap_read_threshold = 1048576"

definition mmap_path_bytes :: "string \<Rightarrow> int \<Rightarrow> world \<Rightarrow> string res \<times> world" where
  "mmap_path_bytes path n w = (w_mmap w (w_tick w) path n, tick w)"

definition read_path_bytes_for_seal :: "string \<Rightarrow> world \<Rightarrow> string res \<times> world" where
  "read_path_bytes_for_seal path w =
     (let wrap = wrapf (''read snapshot path '' @ quote path) in
      case os_stat_size path w of
        (Inl e, w1) \<Rightarrow> (Inl (wrap e), w1)
      | (Inr n, w1) \<Rightarrow>
          if n > mmap_read_threshold then mmap_path_bytes path n w1
          else (case os_read_file path w1 of
              (Inl e, w2) \<Rightarrow> (Inl (wrap e), w2)
            | (Inr data, w2) \<Rightarrow> (Inr data, w2)))"

text \<open>\<open>readPathBytesOptimized\<close> copies the view, \<open>ReadPathBytes\<close> is its exported name.\<close>

definition read_path_bytes :: "string \<Rightarrow> world \<Rightarrow> string res \<times> world" where
  "read_path_bytes path w = (case read_path_bytes_for_seal path w of
      (Inl e, w1) \<Rightarrow> (Inl e, w1)
    | (Inr data, w1) \<Rightarrow> (Inr data, w1))"

definition max_snapshot_fetch_bytes :: nat where
  "max_snapshot_fetch_bytes = 33554432"

definition fetch_http_bytes :: "string \<Rightarrow> world \<Rightarrow> string res \<times> world" where
  "fetch_http_bytes uri w =
     (let pre = ''fetch snapshot uri '' @ quote uri in
      case http_get uri w of
        (HttpErr e, w1) \<Rightarrow> (Inl (wrapf pre e), w1)
      | (HttpResp status body, w1) \<Rightarrow>
          if status \<noteq> 200 then (Inl (errorf (pre @ '': HTTP '' @ int_str status)), w1)
          else (case body of
              Inl e \<Rightarrow> (Inl (wrapf (pre @ '': read body'') e), w1)
            | Inr data \<Rightarrow>
                let read = take (max_snapshot_fetch_bytes + 1) data in
                if length read > max_snapshot_fetch_bytes
                then (Inl (errorf (pre @ '': body exceeds '' @ int_str (int max_snapshot_fetch_bytes) @ '' bytes'')), w1)
                else (Inr read, w1)))"

definition is_http_uri :: "string \<Rightarrow> bool" where
  "is_http_uri uri = (has_prefix uri ''http://'' \<or> has_prefix uri ''https://'')"

definition file_uri_path :: "string \<Rightarrow> string option" where
  "file_uri_path uri =
     (if \<not> has_prefix uri ''file://'' then None
      else let path = trim_prefix uri ''file://'' in if path = '''' then None else Some path)"

text \<open>A payload that is not JSON is wrapped with its provenance.\<close>

definition raw_wrapper :: "string \<Rightarrow> string \<Rightarrow> string \<Rightarrow> gval" where
  "raw_wrapper sourceType source raw = GMap [(sourceType, GStr source), (''raw'', GStr raw)]"

definition parse_snapshot_bytes :: "string \<Rightarrow> string \<Rightarrow> string \<Rightarrow> gval" where
  "parse_snapshot_bytes data source sourceType =
     (case json_unmarshal data of Inr parsed \<Rightarrow> parsed | Inl _ \<Rightarrow> raw_wrapper sourceType source data)"

definition load_path :: "string \<Rightarrow> world \<Rightarrow> gval res \<times> world" where
  "load_path path w = (case read_path_bytes path w of
      (Inl e, w1) \<Rightarrow> (Inl e, w1)
    | (Inr data, w1) \<Rightarrow> (Inr (parse_snapshot_bytes data path ''path''), w1))"

definition load_http :: "string \<Rightarrow> world \<Rightarrow> gval res \<times> world" where
  "load_http uri w = (case fetch_http_bytes uri w of
      (Inl e, w1) \<Rightarrow> (Inl e, w1)
    | (Inr data, w1) \<Rightarrow> (Inr (parse_snapshot_bytes data uri ''uri''), w1))"

definition resolve_content :: "snap_spec \<Rightarrow> world \<Rightarrow> gval res \<times> world" where
  "resolve_content spec w =
     (let src = ss_source spec in
      case src_inline src of
        Some inl \<Rightarrow> (Inr (GMap inl), w)
      | None \<Rightarrow>
        if src_path src \<noteq> '''' then load_path (src_path src) w
        else if src_uri src \<noteq> '''' then
          (case file_uri_path (src_uri src) of
             Some path \<Rightarrow> load_path path w
           | None \<Rightarrow> if is_http_uri (src_uri src) then load_http (src_uri src) w
                     else (Inr (GMap [(''uri'', GStr (src_uri src))]), w))
        else (Inl (errorf ''snapshot source requires inline, path, or uri''), w))"

definition resolve_engine_content :: "snap_spec \<Rightarrow> world \<Rightarrow> gval res \<times> world" where
  "resolve_engine_content spec w = resolve_content
     \<lparr>ss_time_slice = ss_time_slice spec,
      ss_source = \<lparr>src_inline = src_inline (ss_source spec), src_path = src_path (ss_source spec),
        src_uri = src_uri (ss_source spec)\<rparr>,
      ss_context_ref = '''', ss_sealed = ss_sealed spec\<rparr> w"

section \<open>Transient failures\<close>

definition is_path_not_ready :: "err \<Rightarrow> bool" where
  "is_path_not_ready e = (os_is_not_exist e \<or> contains_sub (err_msg e) ''no such file or directory'')"

definition is_uri_not_ready :: "err \<Rightarrow> bool" where
  "is_uri_not_ready e =
     (let msg = err_msg e in
      contains_sub msg ''fetch snapshot uri'' \<and>
      (contains_sub msg ''connection refused'' \<or> contains_sub msg ''connection reset''
       \<or> contains_sub msg ''timeout'' \<or> contains_sub msg ''HTTP 502'' \<or> contains_sub msg ''HTTP 503''
       \<or> contains_sub msg ''HTTP 504'' \<or> contains_sub msg ''HTTP 429''))"

definition is_source_not_ready :: "err \<Rightarrow> bool" where
  "is_source_not_ready e = (is_path_not_ready e \<or> is_uri_not_ready e)"

section \<open>Sealing\<close>

definition validate :: "snap_spec \<Rightarrow> unit res" where
  "validate spec =
     (if ss_time_slice spec = '''' then Inl (errorf ''timeSlice is required'')
      else if src_inline (ss_source spec) = None \<and> src_path (ss_source spec) = ''''
              \<and> src_uri (ss_source spec) = ''''
           then Inl (errorf ''snapshot source requires inline, path, or uri'')
      else Inr ())"

text \<open>\<open>sealFromRawBytes\<close>: identity, payload, and whether the payload is the caller's bytes.\<close>

definition seal_from_raw_bytes ::
  "string \<Rightarrow> string \<Rightarrow> string \<Rightarrow> string \<Rightarrow> (string \<times> string \<times> bool) res" where
  "seal_from_raw_bytes raw timeSlice source sourceType =
     (case json_unmarshal raw of
        Inr parsed \<Rightarrow> (case snapshot_id timeSlice parsed of
            Inl e \<Rightarrow> Inl e | Inr i \<Rightarrow> Inr (i, raw, True))
      | Inl _ \<Rightarrow>
        let parsed = raw_wrapper sourceType source raw in
        (case snapshot_id timeSlice parsed of
           Inl e \<Rightarrow> Inl e
         | Inr i \<Rightarrow> (case json_marshal parsed of
              Inl e \<Rightarrow> Inl (wrapf ''marshal snapshot wrapper'' e)
            | Inr wrapped \<Rightarrow> Inr (i, wrapped, False))))"

definition seal_path :: "string \<Rightarrow> string \<Rightarrow> world \<Rightarrow> (string \<times> string) res \<times> world" where
  "seal_path path timeSlice w = (case read_path_bytes_for_seal path w of
      (Inl e, w1) \<Rightarrow> (Inl e, w1)
    | (Inr data, w1) \<Rightarrow> (case seal_from_raw_bytes data timeSlice path ''path'' of
        Inl e \<Rightarrow> (Inl e, w1) | Inr (i, payload, _) \<Rightarrow> (Inr (i, payload), w1)))"

text \<open>The tail of \<open>SealPayload\<close>, for sources that are not bytes to keep as they are.\<close>

definition seal_content :: "snap_spec \<Rightarrow> world \<Rightarrow> (string \<times> string) res \<times> world" where
  "seal_content spec w = (case resolve_content spec w of
      (Inl e, w1) \<Rightarrow> (Inl e, w1)
    | (Inr content, w1) \<Rightarrow> (case snapshot_id (ss_time_slice spec) content of
        Inl e \<Rightarrow> (Inl e, w1)
      | Inr i \<Rightarrow> (case json_marshal content of
          Inl e \<Rightarrow> (Inl (wrapf ''marshal snapshot data'' e), w1)
        | Inr raw \<Rightarrow> (Inr (i, raw), w1))))"

definition seal_payload :: "snap_spec \<Rightarrow> world \<Rightarrow> (string \<times> string) res \<times> world" where
  "seal_payload spec w =
     (case validate spec of
        Inl e \<Rightarrow> (Inl e, w)
      | Inr _ \<Rightarrow>
        let path = src_path (ss_source spec); uri = src_uri (ss_source spec); ts = ss_time_slice spec in
        if path \<noteq> '''' then seal_path path ts w
        else if uri \<noteq> '''' then
          (case file_uri_path uri of
             Some p \<Rightarrow> seal_path p ts w
           | None \<Rightarrow>
             if is_http_uri uri then
               (case fetch_http_bytes uri w of
                  (Inl e, w1) \<Rightarrow> (Inl e, w1)
                | (Inr raw, w1) \<Rightarrow> (case seal_from_raw_bytes raw ts uri ''uri'' of
                    Inl e \<Rightarrow> (Inl e, w1) | Inr (i, payload, _) \<Rightarrow> (Inr (i, payload), w1)))
             else seal_content spec w)
        else seal_content spec w)"

definition compute_id :: "snap_spec \<Rightarrow> world \<Rightarrow> string res \<times> world" where
  "compute_id spec w = (case seal_payload spec w of
      (Inl e, w1) \<Rightarrow> (Inl e, w1) | (Inr (i, _), w1) \<Rightarrow> (Inr i, w1))"

definition marshal_data :: "snap_spec \<Rightarrow> world \<Rightarrow> string res \<times> world" where
  "marshal_data spec w = (case seal_payload spec w of
      (Inl e, w1) \<Rightarrow> (Inl e, w1) | (Inr (_, data), w1) \<Rightarrow> (Inr data, w1))"

text \<open>
  \<open>SealToBackend\<close>.  A path whose bytes cannot be persisted returns no identity; the other
  sources return the identity together with the error of \<open>persist\<close>.
\<close>

definition seal_to_backend ::
  "'s backend \<Rightarrow> snap_spec \<Rightarrow> 's \<Rightarrow> world \<Rightarrow> string res \<times> 's \<times> world" where
  "seal_to_backend B spec s w =
     (case seal_payload spec w of
        (Inl e, w1) \<Rightarrow> (Inl e, s, w1)
      | (Inr (i, payload), w1) \<Rightarrow>
        (case save_snapshot_payload B i (ss_time_slice spec) payload True s of
           (Inl e, s1) \<Rightarrow> (Inl e, s1, w1)
         | (Inr _, s1) \<Rightarrow> (Inr i, s1, w1)))"

section \<open>Reading from the store first\<close>

text \<open>\<open>LoadDataPreferStore\<close>: \<open>Inr None\<close> is (\<open>""\<close>, false, nil).\<close>

definition load_data_prefer_store ::
  "'s backend \<Rightarrow> string \<Rightarrow> 's \<Rightarrow> string option res \<times> 's" where
  "load_data_prefer_store B snapshotID s =
     (if snapshotID = '''' then (Inr None, s)
      else case b_get_data B of
          Some getter \<Rightarrow> (case getter snapshotID s of
              (Inl e, s1) \<Rightarrow> (if is_snapshot_not_found e then Inr None else Inl e, s1)
            | (Inr (data, sealed), s1) \<Rightarrow>
                (if \<not> sealed \<or> data = '''' then Inr None else Inr (Some data), s1))
        | None \<Rightarrow> (case b_get_snapshot B snapshotID s of
              (Inl e, s1) \<Rightarrow> (if is_snapshot_not_found e then Inr None else Inl e, s1)
            | (Inr (_, data, sealed), s1) \<Rightarrow>
                (if \<not> sealed \<or> data = '''' then Inr None else Inr (Some data), s1)))"

definition load_content_prefer_store ::
  "'s backend \<Rightarrow> string \<Rightarrow> 's \<Rightarrow> (gval \<times> string) option res \<times> 's" where
  "load_content_prefer_store B snapshotID s = (case load_data_prefer_store B snapshotID s of
      (Inl e, s1) \<Rightarrow> (Inl e, s1)
    | (Inr None, s1) \<Rightarrow> (Inr None, s1)
    | (Inr (Some data), s1) \<Rightarrow> (case json_unmarshal data of
        Inl e \<Rightarrow> (Inl (wrapf (''parse stored snapshot '' @ quote snapshotID) e), s1)
      | Inr parsed \<Rightarrow> (Inr (Some (parsed, data)), s1)))"

definition resolved_id :: "snapshot \<Rightarrow> string \<Rightarrow> string" where
  "resolved_id snap snapshotID = (case sn_status snap of
      Some st \<Rightarrow> if sst_id st \<noteq> '''' then sst_id st else snapshotID
    | None \<Rightarrow> snapshotID)"

definition resolve_prefer_store ::
  "'s backend \<Rightarrow> snapshot \<Rightarrow> string \<Rightarrow> 's \<Rightarrow> world \<Rightarrow> (gval \<times> string \<times> string) res \<times> 's \<times> world" where
  "resolve_prefer_store B snap snapshotID s w =
     (let rid = resolved_id snap snapshotID in
      case load_data_prefer_store B rid s of
        (Inr (Some data), s1) \<Rightarrow> (case json_unmarshal data of
            Inl e \<Rightarrow> (Inl (wrapf (''parse stored snapshot '' @ quote rid) e), s1, w)
          | Inr parsed \<Rightarrow> (Inr (parsed, data, rid), s1, w))
      | (Inl e, s1) \<Rightarrow> (Inl (wrapf ''load stored snapshot'' e), s1, w)
      | (Inr None, s1) \<Rightarrow> (case resolve_engine_content (sn_spec snap) w of
            (Inl e, w1) \<Rightarrow> (Inl e, s1, w1)
          | (Inr content, w1) \<Rightarrow> (case json_marshal content of
                Inl e \<Rightarrow> (Inl (wrapf ''marshal snapshot content'' e), s1, w1)
              | Inr raw \<Rightarrow> (Inr (content, raw, rid), s1, w1))))"

section \<open>Against the store contract\<close>

context store_laws
begin

lemma load_data_same: "inv s \<Longrightarrow> load_data_prefer_store B i s = (r, s') \<Longrightarrow> same s s'"
  by (auto simp: load_data_prefer_store_def same_refl split: if_splits option.splits prod.splits sum.splits
      dest: get_data_same get_snapshot_same)

text \<open>What is loaded is a sealed, non-empty payload of the store.\<close>

lemma load_data_sound:
  assumes "inv s" "okid i" "load_data_prefer_store B i s = (Inr (Some data), s')"
  shows "\<exists>ts. snap s i = Some (ts, data, True) \<and> data \<noteq> ''''"
proof (cases "b_get_data B")
  case None
  obtain g s1 where g: "b_get_snapshot B i s = (g, s1)" by fastforce
  from assms(3) None g obtain ts where "g = Inr (ts, data, True)" "data \<noteq> ''''"
    by (auto simp: load_data_prefer_store_def split: if_splits sum.splits)
  with get_snapshot_sound [OF assms(1,2)] g show ?thesis by auto
next
  case (Some gd)
  obtain p s1 where p: "gd i s = (p, s1)" by fastforce
  from assms(3) Some p have "p = Inr (data, True)" "data \<noteq> ''''"
    by (auto simp: load_data_prefer_store_def split: if_splits sum.splits)
  with get_data_sound [OF assms(1,2) Some] p show ?thesis by auto
qed

definition stored_payload :: "'s \<Rightarrow> string \<Rightarrow> string option" where
  "stored_payload s i = (case snap s i of
      Some (ts, data, sealed) \<Rightarrow> if \<not> sealed \<or> data = '''' then None else Some data
    | None \<Rightarrow> None)"

lemma resolve_prefer_store_same:
  assumes "inv s" "resolve_prefer_store B sn i s w = (r, s', w')"
  shows "same s s'"
proof -
  obtain l s1 where l: "load_data_prefer_store B (resolved_id sn i) s = (l, s1)" by fastforce
  have "s' = s1"
    using assms(2) l
    by (auto simp: resolve_prefer_store_def Let_def split: sum.splits option.splits prod.splits)
  with load_data_same [OF assms(1) l] show ?thesis by simp
qed

end

context store_backend
begin

lemma load_data_ok:
  assumes "inv s" "ok s" "okid i" "i \<noteq> ''''" "load_data_prefer_store B i s = (r, s')"
  shows "r = Inr (stored_payload s i)"
proof (cases "b_get_data B")
  case None
  obtain g s1 where g: "b_get_snapshot B i s = (g, s1)" by fastforce
  note v = get_snapshot_ok [OF assms(1,2,3) g]
  show ?thesis
  proof (cases "snap s i")
    case n: None
    with v obtain e where "g = Inl e" "is_snapshot_not_found e" by auto
    with assms(4,5) None g n show ?thesis by (simp add: load_data_prefer_store_def stored_payload_def)
  next
    case (Some x)
    with v have "g = Inr x" by simp
    with assms(4,5) None g Some show ?thesis
      by (cases x) (auto simp: load_data_prefer_store_def stored_payload_def split: if_splits)
  qed
next
  case (Some gd)
  obtain p s1 where p: "gd i s = (p, s1)" by fastforce
  note v = get_data_ok [OF assms(1,2,3) Some p]
  show ?thesis
  proof (cases "snap s i")
    case n: None
    with v obtain e where "p = Inl e" "is_snapshot_not_found e" by auto
    with assms(4,5) Some p n show ?thesis by (simp add: load_data_prefer_store_def stored_payload_def)
  next
    case s: (Some x)
    obtain ts data sealed where x: "x = (ts, data, sealed)" by (cases x)
    with v s have "p = Inr (data, sealed)" by simp
    with assms(4,5) Some p s x show ?thesis
      by (auto simp: load_data_prefer_store_def stored_payload_def split: if_splits)
  qed
qed

end

text \<open>Sealing the bytes of a JSON source keeps them, under the identity of what they parse to.\<close>

lemma seal_from_raw_bytes_json:
  assumes "seal_from_raw_bytes raw ts src ty = Inr (i, payload, True)"
  shows "payload = raw \<and> (\<exists>parsed. json_unmarshal payload = Inr parsed \<and> assert_snapshot_id i ts parsed = Inr ())"
proof -
  from assms obtain parsed where p: "json_unmarshal raw = Inr parsed" "snapshot_id ts parsed = Inr i"
    and raw: "payload = raw"
    by (auto simp: seal_from_raw_bytes_def Let_def split: sum.splits)
  then have "assert_snapshot_id i ts parsed = Inr ()" by (simp add: assert_snapshot_id_def)
  with p raw show ?thesis by auto
qed

lemma seal_from_raw_bytes_id:
  "seal_from_raw_bytes raw ts src ty = Inr (i, payload, b) \<Longrightarrow> \<exists>v. snapshot_id ts v = Inr i"
  by (auto simp: seal_from_raw_bytes_def Let_def split: sum.splits)

lemma seal_path_id:
  "seal_path p ts w = (Inr (i, payload), w') \<Longrightarrow> \<exists>v. snapshot_id ts v = Inr i"
  by (auto simp: seal_path_def split: sum.splits prod.splits dest!: seal_from_raw_bytes_id)

lemma seal_payload_id:
  "seal_payload spec w = (Inr (i, payload), w') \<Longrightarrow> \<exists>v. snapshot_id (ss_time_slice spec) v = Inr i"
  by (auto simp: seal_payload_def seal_content_def Let_def
      split: sum.splits prod.splits if_splits option.splits dest!: seal_path_id seal_from_raw_bytes_id)

lemma snapshot_id_hash: "snapshot_id ts v = Inr i \<Longrightarrow> \<exists>x. i = take 32 (compute_str x)"
  by (auto simp: snapshot_id_def snapshot_id_hex_len_def compute_def compute_str_def split: sum.splits)

end
