(* ===== verification/Builtin.thy ===== *)
theory Builtin
  imports Json
begin

text \<open>
  \<open>pkg/builtin/builtin.go\<close>: the in-process domino commands.  Numbers are float64, JSON text
  is bytes.  \<open>sort.Slice\<close> is modelled as a stable sort, which it is up to twelve elements.
  A hexadecimal tenor such as \<open>0x1p4Y\<close> is read as no tenor.
\<close>

section \<open>identity and coarsen\<close>

definition bi_identity :: "string \<Rightarrow> string res" where
  "bi_identity inputJSON =
     (if inputJSON = '''' \<or> inputJSON = ''null'' then Inr inputJSON
      else case json_unmarshal inputJSON of
          Inl _ \<Rightarrow> Inr inputJSON
        | Inr data \<Rightarrow> json_marshal data)"

definition marshal_coarsen :: "f64 \<Rightarrow> int \<Rightarrow> string res" where
  "marshal_coarsen s parts = json_marshal (GMap
     [(''value'', GNum s), (''v'', GNum s), (''parts'', GInt parts), (''method'', GStr ''sum'')])"

fun coarsen_items :: "gval \<Rightarrow> gval list" where
  "coarsen_items (GArr arr) = arr"
| "coarsen_items raw = [raw]"

lemma map_of_size [termination_simp]:
  "map_of m k = Some v \<Longrightarrow> size v < Suc (size_list (\<lambda>x. Suc (size (snd x))) m)"
  by (induction m) (auto split: if_splits)

fun numeric_value :: "gval \<Rightarrow> f64" where
  "numeric_value (GNum x) = x"
| "numeric_value (GInt i) = fof_int i"
| "numeric_value (GMap m) =
     (case map_of m ''value'' of
        Some n \<Rightarrow> numeric_value n
      | None \<Rightarrow> (case map_of m ''v'' of Some n \<Rightarrow> numeric_value n | None \<Rightarrow> FFin 0))"
| "numeric_value _ = FFin 0"

fun coarsen_sum :: "f64 \<Rightarrow> gval list \<Rightarrow> f64" where
  "coarsen_sum s [] = s"
| "coarsen_sum s (item # items) = coarsen_sum (fadd s (numeric_value item)) items"

definition bi_coarsen :: "string \<Rightarrow> string res" where
  "bi_coarsen inputJSON =
     (if inputJSON = '''' \<or> inputJSON = ''null'' then marshal_coarsen (FFin 0) 0
      else case json_unmarshal inputJSON of
          Inl e \<Rightarrow> Inl (wrapf ''coarsen: parse input'' e)
        | Inr raw \<Rightarrow>
            let items = coarsen_items raw
            in marshal_coarsen (coarsen_sum (FFin 0) items) (int (length items)))"

section \<open>Decoding structs\<close>

record instrument =
  in_instrument_id :: string
  in_rate :: f64
  in_maturity :: string

record curve_point =
  cp_maturity :: string
  cp_rate :: f64
  cp_tenor :: f64

fun res_list :: "('a \<Rightarrow> 'b res) \<Rightarrow> 'a list \<Rightarrow> 'b list res" where
  "res_list f [] = Inr []"
| "res_list f (x # xs) = bindr (f x) (\<lambda>y. bindr (res_list f xs) (\<lambda>ys. Inr (y # ys)))"

fun dec_list :: "(gval \<Rightarrow> 'a res) \<Rightarrow> gval option \<Rightarrow> 'a list res" where
  "dec_list f None = Inr []"
| "dec_list f (Some GNil) = Inr []"
| "dec_list f (Some (GArr xs)) = res_list f xs"
| "dec_list f (Some _) = Inl json_error"

fun dec_instrument :: "gval \<Rightarrow> instrument res" where
  "dec_instrument GNil = Inr \<lparr>in_instrument_id = '''', in_rate = fzero, in_maturity = ''''\<rparr>"
| "dec_instrument (GMap m) =
     bindr (dec_string (json_field ''instrument_id'' m)) (\<lambda>i.
     bindr (dec_float (json_field ''rate'' m)) (\<lambda>r.
     bindr (dec_string (json_field ''maturity'' m)) (\<lambda>t.
       Inr \<lparr>in_instrument_id = i, in_rate = r, in_maturity = t\<rparr>)))"
| "dec_instrument _ = Inl json_error"

fun dec_curve_point :: "gval \<Rightarrow> curve_point res" where
  "dec_curve_point GNil = Inr \<lparr>cp_maturity = '''', cp_rate = fzero, cp_tenor = fzero\<rparr>"
| "dec_curve_point (GMap m) =
     bindr (dec_string (json_field ''maturity'' m)) (\<lambda>t.
     bindr (dec_float (json_field ''rate'' m)) (\<lambda>r.
     bindr (dec_float (json_field ''tenor_years'' m)) (\<lambda>y.
       Inr \<lparr>cp_maturity = t, cp_rate = r, cp_tenor = y\<rparr>)))"
| "dec_curve_point _ = Inl json_error"

fun dec_wrapped :: "gval \<Rightarrow> instrument list res" where
  "dec_wrapped GNil = Inr []"
| "dec_wrapped (GMap m) = dec_list dec_instrument (json_field ''instruments'' m)"
| "dec_wrapped _ = Inl json_error"

text \<open>A \<open>null\<close> member of a \<open>map[string]float64\<close> stores a zero.\<close>

fun dec_rates :: "gval option \<Rightarrow> (string \<times> f64) list res" where
  "dec_rates None = Inr []"
| "dec_rates (Some GNil) = Inr []"
| "dec_rates (Some (GMap m)) = res_list (\<lambda>(k, v).
     bindr (dec_float (if v = GNil then None else Some v)) (\<lambda>x. Inr (k, x))) m"
| "dec_rates (Some _) = Inl json_error"

section \<open>Scanning numbers\<close>

text \<open>\<open>fmt.Sscanf(s, "%d", &year)\<close>: the value left in \<open>year\<close>, zero when nothing scans.\<close>

definition is_scan_space :: "char \<Rightarrow> bool" where
  "is_scan_space c = (c \<in> {CHR '' '', CHR 0x09, CHR 0x0B, CHR 0x0C, CHR 0x0D})"

fun scan_sign :: "string \<Rightarrow> bool \<times> string" where
  "scan_sign (c # s) = (if c = CHR ''-'' then (True, s) else if c = CHR ''+'' then (False, s) else (False, c # s))"
| "scan_sign [] = (False, [])"

definition sscanf_d :: "string \<Rightarrow> int" where
  "sscanf_d s =
     (let (neg, t) = scan_sign (dropWhile is_scan_space s); ds = takeWhile is_digit t
      in if ds = [] then 0 else if neg then - int (digits_val ds) else int (digits_val ds))"

definition maturity_to_years :: "string \<Rightarrow> f64" where
  "maturity_to_years maturity =
     (if length maturity \<ge> 4 then fof_int (sscanf_d (take 4 maturity) - 2025) else FFin 0)"

text \<open>
  The float token of \<open>fmt\<close> and its conversion: an optional sign, digits with an optional
  point, and an exponent \<open>e\<close> (decimal) or \<open>p\<close> (binary).  The result is the value and the
  rest of the input.
\<close>

definition scan_exp :: "string \<Rightarrow> (int option \<times> string) option" where
  "scan_exp s = (case s of
      c # t \<Rightarrow> if c \<in> {CHR ''e'', CHR ''E'', CHR ''p'', CHR ''P''} then
            (let (neg, u) = scan_sign t; ds = takeWhile is_digit u in
             if ds = [] then None
             else Some (Some (if neg then - int (digits_val ds) else int (digits_val ds)), dropWhile is_digit u))
          else Some (None, s)
    | [] \<Rightarrow> Some (None, []))"

definition ldexp :: "f64 \<Rightarrow> int \<Rightarrow> f64" where
  "ldexp x n = (case x of FFin r \<Rightarrow> (if r = 0 then x else fround (r * pow2 n)) | _ \<Rightarrow> x)"

definition scan_float :: "string \<Rightarrow> (f64 \<times> string) option" where
  "scan_float s0 =
     (let s = dropWhile is_scan_space s0 in
      if to_lower (take 3 s) = ''nan'' then Some (FNaN, drop 3 s)
      else let (neg, t) = scan_sign s in
      if to_lower (take 3 t) = ''inf'' then Some (FInf neg, drop 3 t)
      else let ip = takeWhile is_digit t; r1 = dropWhile is_digit t;
        (fp, r2) = (case r1 of c # u \<Rightarrow> if c = CHR ''.'' then (takeWhile is_digit u, dropWhile is_digit u) else ([], r1)
                    | [] \<Rightarrow> ([], []))
      in if ip @ fp = [] then None
         else case scan_exp r2 of
             None \<Rightarrow> None
           | Some (None, r3) \<Rightarrow> map_option (\<lambda>x. (x, r3)) (fparse neg (digits_val (ip @ fp)) (- int (length fp)))
           | Some (Some n, r3) \<Rightarrow>
               if hd r2 \<in> {CHR ''e'', CHR ''E''}
               then map_option (\<lambda>x. (x, r3)) (fparse neg (digits_val (ip @ fp)) (n - int (length fp)))
               else map_option (\<lambda>x. (ldexp x n, r3)) (fparse neg (digits_val (ip @ fp)) (- int (length fp))))"

definition tenor_years :: "string \<Rightarrow> f64 option" where
  "tenor_years tenor = (case scan_float tenor of
      Some (years, CHR ''Y'' # _) \<Rightarrow> if fle years (FFin 0) then None else Some years
    | _ \<Rightarrow> None)"

section \<open>interpolate\<close>

definition key_rate_tenors :: "(string \<times> f64) list" where
  "key_rate_tenors = [(''1Y'', FFin 1), (''2Y'', FFin 2), (''3Y'', FFin 3), (''5Y'', FFin 5),
     (''7Y'', FFin 7), (''10Y'', FFin 10), (''20Y'', FFin 20), (''30Y'', FFin 30)]"

text \<open>Insertion by \<open><\<close> on float64, the stable sort by tenor.\<close>

fun insert_tenor :: "curve_point \<Rightarrow> curve_point list \<Rightarrow> curve_point list" where
  "insert_tenor p [] = [p]"
| "insert_tenor p (q # qs) = (if flt (cp_tenor q) (cp_tenor p) \<or> \<not> flt (cp_tenor p) (cp_tenor q)
     then q # insert_tenor p qs else p # q # qs)"

fun sort_tenor :: "curve_point list \<Rightarrow> curve_point list \<Rightarrow> curve_point list" where
  "sort_tenor acc [] = acc"
| "sort_tenor acc (p # ps) = sort_tenor (insert_tenor p acc) ps"

fun interp_segment :: "f64 \<Rightarrow> curve_point list \<Rightarrow> f64 \<Rightarrow> f64" where
  "interp_segment target (a # b # ps) dflt =
     (if fle (cp_tenor a) target \<and> fle target (cp_tenor b) then
        let denom = fsub (cp_tenor b) (cp_tenor a) in
        if feq denom (FFin 0) then cp_rate a
        else let t = fdiv (fsub target (cp_tenor a)) denom
          in fadd (cp_rate a) (fmul t (fsub (cp_rate b) (cp_rate a)))
      else interp_segment target (b # ps) dflt)"
| "interp_segment target _ dflt = dflt"

definition linear_interp :: "curve_point list \<Rightarrow> f64 \<Rightarrow> f64" where
  "linear_interp points target =
     (if points = [] then FFin 0
      else let sorted = sort_tenor [] points in
        if fle target (cp_tenor (hd sorted)) then cp_rate (hd sorted)
        else if fle (cp_tenor (last sorted)) target then cp_rate (last sorted)
        else interp_segment target sorted (cp_rate (last sorted)))"

definition curve_point_json :: "curve_point \<Rightarrow> gval" where
  "curve_point_json p = GMap [(''maturity'', GStr (cp_maturity p)), (''rate'', GNum (cp_rate p)),
     (''tenor_years'', GNum (cp_tenor p))]"

definition interpolate :: "string \<Rightarrow> string res" where
  "interpolate inputJSON =
     bindr (case bindr (json_unmarshal inputJSON) (\<lambda>v. dec_list dec_instrument (Some v)) of
         Inr instruments \<Rightarrow> Inr instruments
       | Inl e \<Rightarrow> (case bindr (json_unmarshal inputJSON) dec_wrapped of
           Inl e2 \<Rightarrow> Inl (wrapf ''interpolate: parse input'' e)
         | Inr instruments \<Rightarrow> Inr instruments)) (\<lambda>instruments.
     let points = map (\<lambda>i. \<lparr>cp_maturity = in_maturity i, cp_rate = in_rate i,
             cp_tenor = maturity_to_years (in_maturity i)\<rparr>) (sort_key in_maturity instruments);
         interpolated = map (\<lambda>(name, years). (name, GNum (linear_interp points years))) key_rate_tenors
     in json_marshal (GMap [(''curve_points'', GArr (map curve_point_json points)),
          (''interpolated'', GMap interpolated), (''method'', GStr ''linear'')]))"

section \<open>risk-dv01\<close>

record risk_entry =
  rk_tenor :: string
  rk_rate :: f64
  rk_dv01 :: f64

text \<open>Struct fields are encoded in declaration order.\<close>

definition risk_entry_json :: "risk_entry \<Rightarrow> string option" where
  "risk_entry_json r = (case (fformat (rk_rate r), fformat (rk_dv01 r)) of
      (Some a, Some b) \<Rightarrow> Some (''{'' @ json_string ''tenor'' @ '':'' @ json_string (rk_tenor r) @ '',''
         @ json_string ''rate'' @ '':'' @ a @ '','' @ json_string ''dv01'' @ '':'' @ b @ ''}'')
    | _ \<Rightarrow> None)"

definition notional :: f64 where "notional = FFin 1000000"

definition bp_shift :: f64 where "bp_shift = fround (1 / 10000)"

definition risk_entries :: "(string \<times> f64) list \<Rightarrow> risk_entry list" where
  "risk_entries interpolated = sort_key rk_tenor (concat (map (\<lambda>(tenor, rate).
     case tenor_years tenor of
       None \<Rightarrow> []
     | Some years \<Rightarrow>
       let dv01 = fmul (fmul notional years) bp_shift
       in [\<lparr>rk_tenor = tenor, rk_rate = rate,
            rk_dv01 = fdiv (fround_half_away (fmul dv01 (FFin 100))) (FFin 100)\<rparr>]) interpolated))"

text \<open>The keys of the result are encoded in sorted order; a nil slice is \<open>null\<close>.\<close>

definition risk_json :: "risk_entry list \<Rightarrow> string res" where
  "risk_json risks = (case opt_list (map risk_entry_json risks) of
      None \<Rightarrow> Inl (errorf ''json: unsupported value'')
    | Some parts \<Rightarrow> Inr (''{'' @ json_string ''method'' @ '':'' @ json_string ''dv01_simplified'' @ '',''
        @ json_string ''notional'' @ '':1000000,'' @ json_string ''risk_metrics'' @ '':''
        @ (if risks = [] then ''null'' else ''['' @ join_with '','' parts @ '']'') @ ''}''))"

definition dec_curve_data :: "gval \<Rightarrow> (curve_point list \<times> (string \<times> f64) list) res" where
  "dec_curve_data v = (case v of
      GNil \<Rightarrow> Inr ([], [])
    | GMap m \<Rightarrow> bindr (dec_list dec_curve_point (json_field ''curve_points'' m)) (\<lambda>ps.
        bindr (dec_rates (json_field ''interpolated'' m)) (\<lambda>rs. Inr (ps, rs)))
    | _ \<Rightarrow> Inl json_error)"

definition risk_dv01 :: "string \<Rightarrow> string res" where
  "risk_dv01 inputJSON = (case bindr (json_unmarshal inputJSON) dec_curve_data of
      Inl e \<Rightarrow> Inl (wrapf ''risk-dv01: parse input'' e)
    | Inr (_, interpolated) \<Rightarrow> risk_json (risk_entries interpolated))"

section \<open>Dispatch\<close>

definition builtin_execute :: "string \<Rightarrow> string \<Rightarrow> string res" where
  "builtin_execute command inputJSON =
     (if command = ''builtin:identity'' then bi_identity inputJSON
      else if command = ''builtin:interpolate'' then interpolate inputJSON
      else if command = ''builtin:risk-dv01'' then risk_dv01 inputJSON
      else if command = ''builtin:coarsen'' then bi_coarsen inputJSON
      else Inl (errorf (''unknown builtin command: '' @ command)))"

end
