(* ===== verification/Executor.thy ===== *)
theory Executor
  imports Builtin World
begin

text \<open>
  \<open>pkg/executor\<close>: the dispatch of a domino command to its engine, and the file hand-off to
  the Julia interpreter (\<open>pkg/executor/julia\<close>).  The interpreter is outside the program: what
  it returns and leaves in its output file is the field \<open>w_julia_run\<close> of the world.
\<close>

section \<open>Julia\<close>

record julia_config =
  jc_bin :: string
  jc_project :: string

definition resolve_script :: "julia_config \<Rightarrow> string \<Rightarrow> world \<Rightarrow> string res \<times> world" where
  "resolve_script cfg command w =
     (let name = trim_space (trim_prefix command ''julia:'') in
      if name = '''' then (Inl (errorf ''julia command requires script name''), w)
      else if has_suffix name ''.jl'' then
        (if has_prefix name ''/'' then (Inr name, w)
         else (Inr (path_join [jc_project cfg, ''scripts'', name]), w))
      else let script = path_join [jc_project cfg, ''scripts'', name @ ''.jl''] in
        (case os_stat_size script w of
           (Inl e, w1) \<Rightarrow> (Inl (wrapf (''julia script '' @ quote script) e), w1)
         | (Inr _, w1) \<Rightarrow> (Inr script, w1)))"

definition julia_execute :: "julia_config \<Rightarrow> string \<Rightarrow> string \<Rightarrow> world \<Rightarrow> string res \<times> world" where
  "julia_execute cfg command inputJSON w =
     (case resolve_script cfg command w of
        (Inl e, w1) \<Rightarrow> (Inl e, w1)
      | (Inr script, w1) \<Rightarrow>
        (case w_mkdir_temp w1 (w_tick w1) of
           Inl e \<Rightarrow> (Inl (wrapf ''julia temp dir'' e), tick w1)
         | Inr dir \<Rightarrow>
           let w2 = tick w1;
               inputPath = path_join [dir, ''input.json'']; outputPath = path_join [dir, ''output.json'']
           in case w_write_file w2 (w_tick w2) inputPath of
                Inl e \<Rightarrow> (Inl (wrapf ''julia write input'' e), tick w2)
              | Inr _ \<Rightarrow>
                let w3 = tick w2;
                    args = [''--project='' @ jc_project cfg, script, inputPath, outputPath]
                in case w_julia_run w3 (w_tick w3) (jc_bin cfg) args inputJSON of
                     (Inl e, _) \<Rightarrow> (Inl (wrapf (''julia execute '' @ quote command) e), tick w3)
                   | (Inr _, Inl e) \<Rightarrow> (Inl (wrapf ''julia read output'' e), tick w3)
                   | (Inr _, Inr out) \<Rightarrow> (Inr out, tick w3)))"

section \<open>Dispatch\<close>

record exec_cfg =
  ec_julia :: julia_config

text \<open>\<open>sandboxImpure\<close>: the counter is incremented, the clock read.\<close>

definition sandbox_impure :: "world \<Rightarrow> string res \<times> world" where
  "sandbox_impure w =
     (let n = w_impure w + 1; (t, w1) = time_now (w\<lparr>w_impure := n\<rparr>)
      in (Inr (''{\"t\":'' @ int_str t @ '',\"n\":'' @ nat_str (unat n) @ ''}''), w1))"

definition execute :: "exec_cfg \<Rightarrow> string \<Rightarrow> string \<Rightarrow> world \<Rightarrow> string res \<times> world" where
  "execute cfg command inputJSON w =
     (if has_prefix command ''builtin:'' then (builtin_execute command inputJSON, w)
      else if has_prefix command ''julia:'' then julia_execute (ec_julia cfg) command inputJSON w
      else if has_prefix command ''python:'' then
        (Inl (errorf (''python execution is not implemented yet (command '' @ quote command @ '')'')), w)
      else if has_prefix command ''sandbox:'' then
        (let name = trim_prefix command ''sandbox:'' in
         if name = ''impure'' then sandbox_impure w
         else (builtin_execute (''builtin:'' @ name) inputJSON, w))
      else (Inl (errorf (''unsupported command '' @ quote command @ '' (expected builtin:, julia:, or python: prefix)'')), w))"

text \<open>\<open>PrefixForEngine\<close>.\<close>

definition prefix_for_engine :: "string \<Rightarrow> string res" where
  "prefix_for_engine engineType =
     (let t = to_lower (trim_space engineType) in
      if t = '''' \<or> t = ''builtin'' \<or> t = ''go'' then Inr ''builtin:''
      else if t = ''julia'' then Inr ''julia:''
      else if t = ''python'' then Inr ''python:''
      else Inl (errorf (''unsupported execution engine type '' @ quote engineType)))"

section \<open>Purity\<close>

text \<open>A command that is a function of its input: it reads nothing of the world.\<close>

lemma execute_builtin:
  "has_prefix command ''builtin:'' \<Longrightarrow> execute cfg command inp w = (builtin_execute command inp, w)"
  by (simp add: execute_def)

lemma execute_sandboxed:
  "execute cfg (''sandbox:'' @ name) inp w =
     (if name = ''impure'' then sandbox_impure w else (builtin_execute (''builtin:'' @ name) inp, w))"
  by (simp add: execute_def has_prefix_def trim_prefix_def)

lemma tick_simps [simp]: "w_impure (tick w) = w_impure w" "w_tick (tick w) = Suc (w_tick w)"
  by (simp_all add: tick_def)

lemma time_now_simps [simp]: "w_tick (snd (time_now w)) = Suc (w_tick w)"
  by (simp add: time_now_def)

end
