(* ===== verification/Spine.thy ===== *)
theory Spine
  imports Types Hash
begin

text \<open>
  The replay log as a hash chain: \<open>pkg/theory/spine.go\<close>, the logical work of
  \<open>work.go\<close> and the classical histories of \<open>histories.go\<close>.  The main lemmas: a log is a
  spine exactly when every step is, extending a spine keeps it one, and the head link of a
  spine determines the snapshot and every recorded hash, or two entries collide in SHA-256.
\<close>

section \<open>Verification of a spine\<close>

fun verify_from :: "nat \<Rightarrow> string \<Rightarrow> log_entry list \<Rightarrow> unit res" where
  "verify_from i prev [] = Inr ()"
| "verify_from i prev (e # entries) =
     (if le_prev_link e \<noteq> prev
      then Inl (errorf (''entry '' @ nat_str i @ '' prev-link mismatch''))
      else case link [le_prev_link e, le_input_hash e, le_output_hash e] of
          Inl err \<Rightarrow> Inl err
        | Inr want \<Rightarrow> if le_link e \<noteq> want
            then Inl (errorf (''entry '' @ nat_str i @ '' link mismatch''))
            else verify_from (Suc i) (le_link e) entries)"

definition verify_spine :: "string \<Rightarrow> log_entry list \<Rightarrow> unit res" where
  "verify_spine snapshotID entries = verify_from 0 snapshotID entries"

text \<open>The bytes a link is the digest of, and the link the next entry must carry.\<close>

definition link_msg :: "log_entry \<Rightarrow> string" where
  "link_msg e = le_prev_link e @ '':'' @ le_input_hash e @ '':'' @ le_output_hash e"

definition head_link :: "string \<Rightarrow> log_entry list \<Rightarrow> string" where
  "head_link snapshotID entries = (if entries = [] then snapshotID else le_link (last entries))"

lemma head_link_simps [simp]:
  "head_link s [] = s" "head_link s (es @ [e]) = le_link e"
  by (auto simp: head_link_def)

lemma link3 [simp]: "link [a, b, c] = Inr (compute_str (a @ '':'' @ b @ '':'' @ c))"
  by (simp add: link_Inr)

lemma verify_from_snoc:
  "verify_from i s (es @ [e]) = Inr () \<longleftrightarrow>
     verify_from i s es = Inr () \<and> le_prev_link e = head_link s es \<and> le_link e = compute_str (link_msg e)"
proof (induction es arbitrary: i s)
  case (Cons a es)
  have "head_link s (a # es) = head_link (le_link a) es" by (simp add: head_link_def)
  with Cons show ?case by auto
qed (auto simp: link_msg_def)

lemma verify_spine_snoc:
  "verify_spine s (es @ [e]) = Inr () \<longleftrightarrow>
     verify_spine s es = Inr () \<and> le_prev_link e = head_link s es \<and> le_link e = compute_str (link_msg e)"
  by (simp add: verify_spine_def verify_from_snoc)

lemma verify_spine_Nil [simp]: "verify_spine s [] = Inr ()"
  by (simp add: verify_spine_def)

lemma head_link_length:
  "verify_spine s es = Inr () \<Longrightarrow> es \<noteq> [] \<Longrightarrow> length (head_link s es) = 64"
  by (cases es rule: rev_cases) (auto simp: verify_spine_snoc)

text \<open>A digest field that cannot be confused with a separator.\<close>

definition clean_entry :: "log_entry \<Rightarrow> bool" where
  "clean_entry e = (CHR '':'' \<notin> set (le_input_hash e) \<and> CHR '':'' \<notin> set (le_output_hash e))"

lemma link_msg_inject:
  assumes "clean_entry x" "clean_entry y" "link_msg x = link_msg y"
  shows "le_prev_link x = le_prev_link y \<and> le_input_hash x = le_input_hash y
    \<and> le_output_hash x = le_output_hash y"
proof -
  have "(le_prev_link x @ CHR '':'' # le_input_hash x) @ CHR '':'' # le_output_hash x
      = (le_prev_link y @ CHR '':'' # le_input_hash y) @ CHR '':'' # le_output_hash y"
    using assms(3) by (simp add: link_msg_def)
  from split_last [OF this] assms(1,2)
  have "le_prev_link x @ CHR '':'' # le_input_hash x = le_prev_link y @ CHR '':'' # le_input_hash y"
    and o: "le_output_hash x = le_output_hash y" by (auto simp: clean_entry_def)
  from split_last [OF this(1)] o assms(1,2) show ?thesis by (auto simp: clean_entry_def)
qed

lemma spine_binding_step:
  assumes "\<forall>e\<in>set xs. clean_entry e" "\<forall>e\<in>set ys. clean_entry e"
    and "verify_spine a xs = Inr ()" "verify_spine b ys = Inr ()"
    and "length a \<noteq> 64" "length b \<noteq> 64" "head_link a xs = head_link b ys"
  shows "(a = b \<and> map (\<lambda>e. (le_input_hash e, le_output_hash e)) xs
                 = map (\<lambda>e. (le_input_hash e, le_output_hash e)) ys)
    \<or> (\<exists>x\<in>set xs. \<exists>y\<in>set ys. sha_collision (link_msg x) (link_msg y))"
  using assms(1-4,7)
proof (induction xs arbitrary: ys rule: rev_induct)
  case Nil
  then have "ys = []" using head_link_length [of b ys] assms(5) by auto
  with Nil show ?case by simp
next
  case (snoc x xs)
  have "ys \<noteq> []"
    using snoc.prems head_link_length [of a "xs @ [x]"] assms(6) by auto
  then obtain ys' y where ys: "ys = ys' @ [y]" by (metis append_butlast_last_id)
  note vx = snoc.prems(3) [unfolded verify_spine_snoc]
  note vy = snoc.prems(4) [unfolded ys verify_spine_snoc]
  from vx vy snoc.prems(5) ys have "compute_str (link_msg x) = compute_str (link_msg y)" by simp
  then consider "link_msg x = link_msg y" | "sha_collision (link_msg x) (link_msg y)"
    using compute_str_eqD by blast
  then show ?case
  proof cases
    case 1
    with snoc.prems ys have eq: "le_prev_link x = le_prev_link y" "le_input_hash x = le_input_hash y"
      "le_output_hash x = le_output_hash y" using link_msg_inject [of x y] by auto
    have "head_link a xs = head_link b ys'" using eq(1) vx vy by simp
    from snoc.IH [OF _ _ _ _ this] vx vy snoc.prems ys eq show ?thesis by fastforce
  next
    case 2
    with ys show ?thesis by auto
  qed
qed

text \<open>
  C17 The head link commits to the whole log: two verified spines over snapshot identities
  (never as long as a link) with the same head link started from the same snapshot and
  record the same input and output hashes in the same order, unless two of their entries
  exhibit a SHA-256 collision.
\<close>

theorem head_link_binds_log:
  assumes "\<forall>e\<in>set xs. clean_entry e" "\<forall>e\<in>set ys. clean_entry e"
    and "verify_spine a xs = Inr ()" "verify_spine b ys = Inr ()"
    and "length a = snapshot_id_hex_len" "length b = snapshot_id_hex_len"
    and "head_link a xs = head_link b ys"
  shows "(a = b \<and> map (\<lambda>e. (le_input_hash e, le_output_hash e)) xs
                 = map (\<lambda>e. (le_input_hash e, le_output_hash e)) ys)
    \<or> (\<exists>x\<in>set xs. \<exists>y\<in>set ys. sha_collision (link_msg x) (link_msg y))"
  using spine_binding_step [OF assms(1-4) _ _ assms(7)] assms(5,6)
  by (simp add: snapshot_id_hex_len_def)

definition demo_entry :: log_entry where
  "demo_entry = \<lparr>le_timestamp = 0, le_snapshot_id = replicate 32 CHR ''0'', le_domino_id = ''a'',
     le_input_hash = ''ab'', le_output_hash = ''cd'', le_reused = False, le_output = '''',
     le_regularity = ''builtin'', le_prev_link = replicate 32 CHR ''0'',
     le_link = compute_str (replicate 32 CHR ''0'' @ '':ab:cd'')\<rparr>"

lemma head_link_binds_log_witness:
  "verify_spine (replicate 32 CHR ''0'') [demo_entry] = Inr ()
   \<and> (map (\<lambda>e. (le_input_hash e, le_output_hash e)) [demo_entry]
        = map (\<lambda>e. (le_input_hash e, le_output_hash e)) [demo_entry\<lparr>le_timestamp := 1\<rparr>]
      \<or> sha_collision (link_msg demo_entry) (link_msg (demo_entry\<lparr>le_timestamp := 1\<rparr>)))"
proof -
  have v: "verify_spine (replicate 32 CHR ''0'') [demo_entry] = Inr ()"
    "verify_spine (replicate 32 CHR ''0'') [demo_entry\<lparr>le_timestamp := 1\<rparr>] = Inr ()"
    by (simp_all add: verify_spine_def demo_entry_def)
  have "clean_entry demo_entry" "clean_entry (demo_entry\<lparr>le_timestamp := 1\<rparr>)"
    by (simp_all add: clean_entry_def demo_entry_def)
  with head_link_binds_log [OF _ _ v] v(1) show ?thesis
    by (simp add: snapshot_id_hex_len_def head_link_def demo_entry_def)
qed


section \<open>Logical work\<close>

record logical_work =
  lw_evaluations :: int
  lw_reuses :: int

fun work_from :: "logical_work \<Rightarrow> log_entry list \<Rightarrow> logical_work" where
  "work_from w [] = w"
| "work_from w (e # entries) = work_from
     (if le_reused e then w\<lparr>lw_reuses := lw_reuses w + 1\<rparr>
      else w\<lparr>lw_evaluations := lw_evaluations w + 1\<rparr>) entries"

definition work_from_replay :: "log_entry list \<Rightarrow> logical_work" where
  "work_from_replay entries = work_from \<lparr>lw_evaluations = 0, lw_reuses = 0\<rparr> entries"

definition irreversible_steps :: "logical_work \<Rightarrow> int" where
  "irreversible_steps w = lw_evaluations w"

definition replay_saves :: "logical_work \<Rightarrow> logical_work \<Rightarrow> bool" where
  "replay_saves first second =
     (irreversible_steps second < irreversible_steps first \<and> lw_reuses second > 0)"

text \<open>\<open>DefaultDollarsPerEvaluation\<close>: the float64 nearest to 0.01.\<close>

definition default_dollars :: f64 where
  "default_dollars = fround (1 / 100)"

definition charge_usd :: "logical_work \<Rightarrow> f64 \<Rightarrow> f64" where
  "charge_usd w dollarsPerEval =
     (let d = if flt dollarsPerEval (FFin 0) then FFin 0 else dollarsPerEval
      in fmul (fof_int (lw_evaluations w)) d)"

lemma work_from_eq:
  "work_from w es =
     \<lparr>lw_evaluations = lw_evaluations w + int (length (filter (\<lambda>e. \<not> le_reused e) es)),
      lw_reuses = lw_reuses w + int (length (filter le_reused es))\<rparr>"
  by (induction w es rule: work_from.induct) auto

lemma work_from_replay_eq:
  "work_from_replay es =
     \<lparr>lw_evaluations = int (length (filter (\<lambda>e. \<not> le_reused e) es)),
      lw_reuses = int (length (filter le_reused es))\<rparr>"
  by (simp add: work_from_replay_def work_from_eq)

lemma work_total:
  "lw_evaluations (work_from_replay es) + lw_reuses (work_from_replay es) = int (length es)"
  using sum_length_filter_compl [of le_reused es] by (simp add: work_from_replay_eq)

section \<open>Histories\<close>

record history =
  h_universe :: string
  h_snapshot_id :: string
  h_worldline :: string
  h_head_link :: string

definition worldline :: "log_entry list \<Rightarrow> string" where
  "worldline entries = (if entries = [] then '''' else join_with ''|'' (map le_output_hash entries))"

definition history_from_run :: "string \<Rightarrow> string \<Rightarrow> log_entry list \<Rightarrow> history" where
  "history_from_run universe snapshotID entries =
     \<lparr>h_universe = universe, h_snapshot_id = snapshotID, h_worldline = worldline entries,
      h_head_link = (if entries \<noteq> [] then le_link (last entries) else '''')\<rparr>"

definition interfere :: "history \<Rightarrow> history \<Rightarrow> bool \<Rightarrow> bool" where
  "interfere a b liveShare = (liveShare \<and> h_universe a \<noteq> h_universe b
     \<and> h_snapshot_id a \<noteq> '''' \<and> h_snapshot_id a = h_snapshot_id b)"

fun branch :: "history \<Rightarrow> string list \<Rightarrow> history list" where
  "branch parent [] = []"
| "branch parent (u # universes) =
     (if u = '''' \<or> u = h_universe parent then branch parent universes
      else \<lparr>h_universe = u, h_snapshot_id = h_snapshot_id parent,
             h_worldline = h_worldline parent, h_head_link = h_head_link parent\<rparr>
           # branch parent universes)"

definition same_record :: "history \<Rightarrow> history \<Rightarrow> bool" where
  "same_record a b =
     (if h_snapshot_id a = '''' \<or> h_snapshot_id a \<noteq> h_snapshot_id b \<or> h_worldline a \<noteq> h_worldline b
      then False
      else if h_head_link a \<noteq> '''' \<or> h_head_link b \<noteq> '''' then h_head_link a = h_head_link b
      else True)"

lemma branch_eq:
  "branch p us = map (\<lambda>u. p\<lparr>h_universe := u\<rparr>) (filter (\<lambda>u. u \<noteq> '''' \<and> u \<noteq> h_universe p) us)"
  by (induction p us rule: branch.induct) auto

lemma same_record_iff:
  "same_record a b \<longleftrightarrow> h_snapshot_id a \<noteq> '''' \<and> h_snapshot_id a = h_snapshot_id b
     \<and> h_worldline a = h_worldline b \<and> h_head_link a = h_head_link b"
  by (auto simp: same_record_def)

text \<open>
  Fan-out copies a completed run faithfully: the branches are exactly the requested
  universes other than the empty name and the parent's own, each is the same record as the
  parent of a run on a real snapshot, and no two of the histories interfere as long as
  nothing is shared live.
\<close>

theorem branch_same_record:
  assumes "snapshot_id ts data = Inr sid"
  shows "map h_universe (branch (history_from_run u sid es) us)
           = filter (\<lambda>v. v \<noteq> '''' \<and> v \<noteq> u) us
    \<and> (\<forall>b\<in>set (branch (history_from_run u sid es) us).
          same_record (history_from_run u sid es) b
          \<and> interfere (history_from_run u sid es) b True
          \<and> \<not> interfere (history_from_run u sid es) b False)"
  using snapshot_id_not_Nil [OF assms]
  by (auto simp: branch_eq same_record_iff interfere_def history_from_run_def comp_def)

lemma branch_same_record_witness:
  "\<exists>sid. snapshot_id ''t'' (GBool True) = Inr sid
     \<and> map h_universe (branch (history_from_run ''u'' sid []) [''v'', ''u'', '''']) = [''v'']"
proof -
  have "\<exists>sid. snapshot_id ''t'' (GBool True) = Inr sid"
    by (simp add: snapshot_id_def id_payload_def compute_def json_marshal_def json_string_def
        json_esc.simps sort_key_def)
  then obtain sid where "snapshot_id ''t'' (GBool True) = Inr sid" by blast
  with branch_same_record [OF this, of "''u''" "[]" "[''v'', ''u'', '''']"] show ?thesis by auto
qed

end
