(* ===== verification/Purity.thy ===== *)
theory Purity
  imports Types GoLib
begin

text \<open>
  \<open>pkg/theory\<close>, the gates a chain passes before it runs: \<open>regularity.go\<close>, \<open>sandbox.go\<close>,
  \<open>names.go\<close>, \<open>causal.go\<close>, and the phase error of \<open>homeostasis.go\<close>.  The lemmas give each
  gate its meaning: \<open>UniqueNames\<close> accepts exactly the duplicate-free chains of non-empty
  names, \<open>AllowedReads\<close> exactly the reads of strictly earlier dominos.
\<close>

section \<open>Regularity\<close>

datatype regularity = Contract | Pinned | Builtin

instantiation regularity :: linorder
begin

fun reg_rank :: "regularity \<Rightarrow> nat" where
  "reg_rank Contract = 0"
| "reg_rank Pinned = 1"
| "reg_rank Builtin = 2"

definition less_eq_regularity :: "regularity \<Rightarrow> regularity \<Rightarrow> bool" where
  "less_eq_regularity a b = (reg_rank a \<le> reg_rank b)"

definition less_regularity :: "regularity \<Rightarrow> regularity \<Rightarrow> bool" where
  "less_regularity a b = (reg_rank a < reg_rank b)"

instance
proof
  fix a b :: regularity
  show "a \<le> b \<Longrightarrow> b \<le> a \<Longrightarrow> a = b"
    by (cases a; cases b) (auto simp: less_eq_regularity_def)
qed (auto simp: less_eq_regularity_def less_regularity_def)

end

definition command_regularity :: "string \<Rightarrow> regularity" where
  "command_regularity command =
     (if has_prefix command ''builtin:'' then Builtin
      else if has_prefix command ''julia:'' then Pinned
      else Contract)"

fun reg_string :: "regularity \<Rightarrow> string" where
  "reg_string Builtin = ''builtin''"
| "reg_string Pinned = ''pinned''"
| "reg_string Contract = ''contract''"

fun uniqueness_grade :: "regularity \<Rightarrow> string" where
  "uniqueness_grade Builtin = ''theorem''"
| "uniqueness_grade Pinned = ''empirical-discretization''"
| "uniqueness_grade Contract = ''contract''"

fun min_reg_from :: "regularity \<Rightarrow> regularity list \<Rightarrow> regularity" where
  "min_reg_from m [] = m"
| "min_reg_from m (r # rs) = min_reg_from (if r < m then r else m) rs"

definition min_regularity :: "regularity list \<Rightarrow> regularity" where
  "min_regularity regs = (if regs = [] then Contract else min_reg_from Builtin regs)"

lemma min_reg_from_le: "min_reg_from m rs \<le> m \<and> (\<forall>r\<in>set rs. min_reg_from m rs \<le> r)"
proof (induction m rs rule: min_reg_from.induct)
  case (2 m r rs)
  then show ?case by (auto split: if_splits)
qed simp

lemma min_reg_from_mem: "min_reg_from m rs \<in> insert m (set rs)"
  by (induction m rs rule: min_reg_from.induct) (auto split: if_splits)

lemma regularity_le_Builtin [simp]: "r \<le> Builtin"
  by (cases r) (auto simp: less_eq_regularity_def)

lemma min_reg_from_Min: "min_reg_from m rs = Min (insert m (set rs))"
proof (rule Min_eqI [symmetric])
  show "min_reg_from m rs \<le> y" if "y \<in> insert m (set rs)" for y
    using that min_reg_from_le [of m rs] by auto
  show "min_reg_from m rs \<in> insert m (set rs)" by (rule min_reg_from_mem)
qed simp

lemma min_regularity_Min: "regs \<noteq> [] \<Longrightarrow> min_regularity regs = Min (set regs)"
  by (simp add: min_regularity_def min_reg_from_Min min_def antisym)

section \<open>Sandbox gate\<close>

record sandbox_policy =
  sp_network_none :: bool
  sp_read_only_root :: bool

definition isolated :: "sandbox_policy \<Rightarrow> bool" where
  "isolated p = (sp_network_none p \<and> sp_read_only_root p)"

definition allow_deterministic :: "string \<Rightarrow> sandbox_policy \<Rightarrow> unit res" where
  "allow_deterministic command sandbox =
     (if command_regularity command \<noteq> Contract then Inr ()
      else if isolated sandbox then Inr ()
      else Inl (errorf (''command '' @ quote command @ '' is contract-grade; deterministic workflows require builtin:, julia:, or an isolated sandbox (network=none, read-only root)'')))"

definition require_deterministic :: "string \<Rightarrow> unit res" where
  "require_deterministic command =
     allow_deterministic command \<lparr>sp_network_none = False, sp_read_only_root = False\<rparr>"

lemma command_regularity_eq:
  "command_regularity c = Builtin \<longleftrightarrow> has_prefix c ''builtin:''"
  "command_regularity c = Pinned \<longleftrightarrow> has_prefix c ''julia:''"
  by (auto simp: command_regularity_def has_prefix_iff)

lemma allow_deterministic_iff:
  "allow_deterministic c p = Inr () \<longleftrightarrow>
     has_prefix c ''builtin:'' \<or> has_prefix c ''julia:'' \<or> isolated p"
  by (auto simp: allow_deterministic_def command_regularity_def)

section \<open>Names\<close>

text \<open>\<open>UniqueNames\<close>: the map \<open>seen\<close> is the list of names already visited.\<close>

fun unique_names_from :: "string list \<Rightarrow> string list \<Rightarrow> unit res" where
  "unique_names_from seen [] = Inr ()"
| "unique_names_from seen (n # chain) =
     (if n = '''' then Inl (errorf ''empty chain name'')
      else if n \<in> set seen then Inl (errorf (''duplicate chain name '' @ quote n))
      else unique_names_from (n # seen) chain)"

definition unique_names :: "string list \<Rightarrow> unit res" where
  "unique_names chain = unique_names_from [] chain"

lemma unique_names_from_iff:
  "unique_names_from seen chain = Inr () \<longleftrightarrow>
     distinct chain \<and> '''' \<notin> set chain \<and> set chain \<inter> set seen = {}"
  by (induction seen chain rule: unique_names_from.induct) auto

lemma unique_names_iff: "unique_names chain = Inr () \<longleftrightarrow> distinct chain \<and> '''' \<notin> set chain"
  by (simp add: unique_names_def unique_names_from_iff)

section \<open>Causal past\<close>

fun index_of_from :: "nat \<Rightarrow> string list \<Rightarrow> string \<Rightarrow> int" where
  "index_of_from i [] name = -1"
| "index_of_from i (n # chain) name =
     (if n = name then int i else index_of_from (Suc i) chain name)"

definition index_of :: "string list \<Rightarrow> string \<Rightarrow> int" where
  "index_of chain name = index_of_from 0 chain name"

fun causal_past_from :: "string list \<Rightarrow> string list \<Rightarrow> string \<Rightarrow> string list res" where
  "causal_past_from past [] domino =
     Inl (errorf (''domino '' @ quote domino @ '' not in chain''))"
| "causal_past_from past (name # chain) domino =
     (let past' = past @ [name]
      in if name = domino then Inr past' else causal_past_from past' chain domino)"

definition causal_past :: "string list \<Rightarrow> string \<Rightarrow> string list res" where
  "causal_past chain domino = causal_past_from [''snapshot''] chain domino"

fun allowed_from :: "string list \<Rightarrow> string \<Rightarrow> int \<Rightarrow> string list \<Rightarrow> unit res" where
  "allowed_from chain domino idx [] = Inr ()"
| "allowed_from chain domino idx (inp # inputs) =
     (if inp = ''snapshot'' \<or> inp = '''' then allowed_from chain domino idx inputs
      else let src = index_of chain inp in
        if src < 0 then Inl (errorf (''input '' @ quote inp
          @ '' is not in the chain (outside causal past of '' @ quote domino @ '')''))
        else if src \<ge> idx then Inl (errorf (''input '' @ quote inp
          @ '' is not strictly before '' @ quote domino @ '' (spacelike / future read)''))
        else allowed_from chain domino idx inputs)"

definition allowed_reads :: "string list \<Rightarrow> string \<Rightarrow> string list \<Rightarrow> unit res" where
  "allowed_reads chain domino inputs =
     (let idx = index_of chain domino in
      if idx < 0 then Inl (errorf (''domino '' @ quote domino @ '' not in chain''))
      else allowed_from chain domino idx inputs)"

lemma index_of_from_nonneg:
  "index_of_from i chain n = (if n \<in> set chain
     then int (i + length (takeWhile (\<lambda>x. x \<noteq> n) chain)) else -1)"
  by (induction i chain n rule: index_of_from.induct) auto

lemma index_of_eq:
  "index_of chain n = (if n \<in> set chain
     then int (length (takeWhile (\<lambda>x. x \<noteq> n) chain)) else -1)"
  by (simp add: index_of_def index_of_from_nonneg)

lemma takeWhile_neq_lt_iff:
  "a \<in> set xs \<Longrightarrow> length (takeWhile (\<lambda>x. x \<noteq> a) xs) < length (takeWhile (\<lambda>x. x \<noteq> b) xs)
     \<longleftrightarrow> a \<in> set (takeWhile (\<lambda>x. x \<noteq> b) xs)"
  by (induction xs) auto

text \<open>The names a domino may read: those before its first occurrence.\<close>

definition earlier :: "string list \<Rightarrow> string \<Rightarrow> string set" where
  "earlier chain domino = set (takeWhile (\<lambda>x. x \<noteq> domino) chain)"

lemma index_of_lt_iff:
  assumes "d \<in> set chain" "a \<in> set chain"
  shows "index_of chain a < index_of chain d \<longleftrightarrow> a \<in> earlier chain d"
  using assms takeWhile_neq_lt_iff [of a chain d] by (simp add: index_of_eq earlier_def)

lemma earlier_subset: "earlier chain d \<subseteq> set chain"
  by (auto simp: earlier_def dest: set_takeWhileD)

lemma allowed_from_iff:
  assumes "d \<in> set chain"
  shows "allowed_from chain d (index_of chain d) inputs = Inr () \<longleftrightarrow>
     (\<forall>i\<in>set inputs. i = ''snapshot'' \<or> i = '''' \<or> i \<in> earlier chain d)"
proof (induction inputs)
  case (Cons i inputs)
  show ?case
  proof (cases "i \<in> set chain")
    case True
    have "\<not> index_of chain i < 0" using True by (simp add: index_of_eq)
    with Cons show ?thesis using index_of_lt_iff [OF assms True] by (auto simp: Let_def)
  next
    case False
    with earlier_subset have "i \<notin> earlier chain d" by blast
    with False Cons show ?thesis by (auto simp: Let_def index_of_eq)
  qed
qed simp

lemma allowed_reads_iff:
  "allowed_reads chain d inputs = Inr () \<longleftrightarrow>
     d \<in> set chain \<and> (\<forall>i\<in>set inputs. i = ''snapshot'' \<or> i = '''' \<or> i \<in> earlier chain d)"
proof (cases "d \<in> set chain")
  case True
  then have "\<not> index_of chain d < 0" by (simp add: index_of_eq)
  with True allowed_from_iff [OF True] show ?thesis by (simp add: allowed_reads_def Let_def)
next
  case False
  then show ?thesis by (simp add: allowed_reads_def index_of_eq)
qed

lemma causal_past_from_eq:
  "causal_past_from past chain d = (if d \<in> set chain
     then Inr (past @ takeWhile (\<lambda>x. x \<noteq> d) chain @ [d])
     else Inl (errorf (''domino '' @ quote d @ '' not in chain'')))"
  by (induction past chain d rule: causal_past_from.induct) auto

text \<open>
  C30 The read gate and the causal past agree: a domino of the chain may read exactly the
  members of its causal past other than itself (the snapshot, the empty name, and every
  name strictly before it), and no domino outside the chain may read anything.
\<close>

theorem allowed_reads_causal_past:
  "allowed_reads chain d inputs = Inr () \<longleftrightarrow>
     (\<exists>past. causal_past chain d = Inr (''snapshot'' # past @ [d]) \<and> d \<notin> set past
        \<and> set inputs \<subseteq> {''snapshot'', ''''} \<union> set past)"
  by (auto simp: allowed_reads_iff causal_past_def causal_past_from_eq earlier_def
      dest: set_takeWhileD)

section \<open>Phase error\<close>

definition reconcile_error :: "string \<Rightarrow> string \<Rightarrow> f64" where
  "reconcile_error desired observed = (if desired = observed then FFin 0 else FFin 1)"

definition homeostatic :: "f64 \<Rightarrow> bool" where
  "homeostatic err = feq err (FFin 0)"

definition phase_homeostasis :: "string \<Rightarrow> f64" where
  "phase_homeostasis observed = reconcile_error ''Completed'' observed"

lemma homeostatic_phase [simp]: "homeostatic (phase_homeostasis p) \<longleftrightarrow> p = ''Completed''"
  by (auto simp: homeostatic_def phase_homeostasis_def reconcile_error_def feq_def)

end
