(* ===== verification/Engine.thy ===== *)
theory Engine
  imports Snapshot Executor Spine Purity
begin

text \<open>
  \<open>pkg/engine/engine.go\<close>: running a domino chain against a sealed snapshot with
  memoization.  The engine is parametric in its store; what it relies on is the contract
  \<open>store_backend\<close>.  The lemmas follow one step of the chain, then the loop, then \<open>Run\<close>:
  what every outcome leaves in the store, and what a successful run records.
\<close>

record 's engine =
  en_store :: "'s backend"
  en_executor :: exec_cfg
  en_dollars :: f64

definition new_engine :: "'s backend \<Rightarrow> exec_cfg \<Rightarrow> 's engine" where
  "new_engine B cfg = \<lparr>en_store = B, en_executor = cfg, en_dollars = default_dollars\<rparr>"

section \<open>Inputs\<close>

text \<open>
  The loop of \<open>resolveInputs\<close> over the declared inputs: outputs of earlier dominos, parsed
  when they are JSON, and the snapshot content through a marshal/unmarshal round trip.
\<close>

fun input_parts :: "gval \<Rightarrow> (string \<times> string) list \<Rightarrow> dom_input list \<Rightarrow> gval list \<Rightarrow> gval list res" where
  "input_parts content prior [] parts = Inr parts"
| "input_parts content prior (inp # inputs) parts =
     bindr (if di_from_domino inp \<noteq> '''' then
              (case map_of prior (di_from_domino inp) of
                 None \<Rightarrow> Inl (errorf (''output from domino '' @ quote (di_from_domino inp) @ '' not available''))
               | Some out \<Rightarrow> (case json_unmarshal out of
                    Inl _ \<Rightarrow> Inr (parts @ [GStr out])
                  | Inr parsed \<Rightarrow> Inr (parts @ [parsed])))
            else Inr parts) (\<lambda>parts1.
     bindr (if di_from_snapshot inp \<noteq> '''' then
              bindr (json_marshal content) (\<lambda>data.
              bindr (json_unmarshal data) (\<lambda>parsed. Inr (parts1 @ [parsed])))
            else Inr parts1) (\<lambda>parts2.
     input_parts content prior inputs parts2))"

definition combine_inputs :: "gval \<Rightarrow> (string \<times> string) list \<Rightarrow> dom_input list \<Rightarrow> string res" where
  "combine_inputs content prior inputs =
     (if inputs = [] then json_marshal content
      else bindr (input_parts content prior inputs []) (\<lambda>parts.
        case parts of [p] \<Rightarrow> json_marshal p
          | [] \<Rightarrow> json_marshal GNil
          | _ \<Rightarrow> json_marshal (GArr parts)))"

definition resolve_inputs ::
  "'s engine \<Rightarrow> domino \<Rightarrow> snapshot \<Rightarrow> string \<Rightarrow> (string \<times> string) list \<Rightarrow> 's \<Rightarrow> world
     \<Rightarrow> string res \<times> 's \<times> world" where
  "resolve_inputs en d snap snapshotID prior s w =
     (case resolve_prefer_store (en_store en) snap snapshotID s w of
        (Inl e, s1, w1) \<Rightarrow> (Inl (wrapf ''resolve snapshot content'' e), s1, w1)
      | (Inr (content, _, _), s1, w1) \<Rightarrow> (combine_inputs content prior (ds_inputs (d_spec d)), s1, w1))"

definition execute_domino :: "'s engine \<Rightarrow> domino \<Rightarrow> string \<Rightarrow> world \<Rightarrow> string res \<times> world" where
  "execute_domino en d inputJSON w = execute (en_executor en) (ds_command (d_spec d)) inputJSON w"

text \<open>\<open>attachSpine\<close>: the entry with its two links, and the new head.\<close>

definition attach_spine :: "string \<Rightarrow> log_entry \<Rightarrow> (string \<times> log_entry) res" where
  "attach_spine prev entry =
     (case link [prev, le_input_hash entry, le_output_hash entry] of
        Inl e \<Rightarrow> Inl e
      | Inr l \<Rightarrow> Inr (l, entry\<lparr>le_prev_link := prev, le_link := l\<rparr>))"

text \<open>The row \<open>SaveResult\<close> is given for an entry.\<close>

definition entry_row :: "log_entry \<Rightarrow> replay_row" where
  "entry_row e = \<lparr>re_snapshot_id = le_snapshot_id e, re_domino_id = le_domino_id e,
     re_input_hash = le_input_hash e, re_output_hash = le_output_hash e, re_output = le_output e,
     re_reused = le_reused e, re_prev_link = le_prev_link e, re_link = le_link e\<rparr>"

section \<open>One domino\<close>

text \<open>
  From the resolved input to the persisted entry: hash, clock, memo, execution, spine, save.
  \<open>ctx\<close> is the prefix of the error messages (\<open>domino "name" \<close> in \<open>Run\<close>, empty in
  \<open>RunSingleFrom\<close>, which also returns an execution error as it is).
\<close>

definition memo_or_execute ::
  "'s engine \<Rightarrow> string \<Rightarrow> bool \<Rightarrow> domino \<Rightarrow> log_entry \<Rightarrow> string \<Rightarrow> 's \<Rightarrow> world
     \<Rightarrow> log_entry res \<times> 's \<times> world" where
  "memo_or_execute en ctx wrap_exec d entry inputJSON s w =
     (case b_lookup_memo (en_store en) (le_snapshot_id entry) (le_domino_id entry) (le_input_hash entry) s of
        (Inl e, s1) \<Rightarrow> (Inl (wrapf (ctx @ ''memo lookup'') e), s1, w)
      | (Inr (Some (outHash, out)), s1) \<Rightarrow>
          (Inr (entry\<lparr>le_output_hash := outHash, le_reused := True, le_output := out\<rparr>), s1, w)
      | (Inr None, s1) \<Rightarrow>
          (case execute_domino en d inputJSON w of
             (Inl e, w1) \<Rightarrow> (Inl (if wrap_exec then wrapf (ctx @ ''execute'') e else e), s1, w1)
           | (Inr out, w1) \<Rightarrow> (case compute (GStr out) of
                 Inl e \<Rightarrow> (Inl (wrapf (ctx @ ''hash output'') e), s1, w1)
               | Inr outputHash \<Rightarrow>
                   (Inr (entry\<lparr>le_output_hash := outputHash, le_reused := False, le_output := out\<rparr>), s1, w1))))"

definition run_domino ::
  "'s engine \<Rightarrow> string \<Rightarrow> bool \<Rightarrow> domino \<Rightarrow> snapshot \<Rightarrow> string \<Rightarrow> string \<Rightarrow> (string \<times> string) list
     \<Rightarrow> string \<Rightarrow> 's \<Rightarrow> world \<Rightarrow> log_entry res \<times> 's \<times> world" where
  "run_domino en ctx wrap_exec d snap snapshotID name prior prev s w =
     (case resolve_inputs en d snap snapshotID prior s w of
        (Inl e, s1, w1) \<Rightarrow> (Inl (wrapf (ctx @ ''resolve inputs'') e), s1, w1)
      | (Inr inputJSON, s1, w1) \<Rightarrow>
      (case compute (GStr inputJSON) of
        Inl e \<Rightarrow> (Inl (wrapf (ctx @ ''hash inputs'') e), s1, w1)
      | Inr inputHash \<Rightarrow>
        let (t, w2) = time_now w1;
            entry0 = \<lparr>le_timestamp = t, le_snapshot_id = snapshotID, le_domino_id = name,
              le_input_hash = inputHash, le_output_hash = '''', le_reused = False, le_output = '''',
              le_regularity = reg_string (command_regularity (ds_command (d_spec d))),
              le_prev_link = '''', le_link = ''''\<rparr>
        in case memo_or_execute en ctx wrap_exec d entry0 inputJSON s1 w2 of
            (Inl e, s2, w3) \<Rightarrow> (Inl e, s2, w3)
          | (Inr entry1, s2, w3) \<Rightarrow>
          (case attach_spine prev entry1 of
            Inl e \<Rightarrow> (Inl (wrapf (ctx @ ''spine'') e), s2, w3)
          | Inr (_, entry) \<Rightarrow>
          (case b_save_result (en_store en) (entry_row entry) s2 of
            (Inl e, s3) \<Rightarrow> (Inl (wrapf (ctx @ ''save result'') e), s3, w3)
          | (Inr _, s3) \<Rightarrow> (Inr entry, s3, w3)))))"

section \<open>The chain\<close>

fun domino_map_from :: "nat \<Rightarrow> (string \<times> domino) list \<Rightarrow> domino list \<Rightarrow> (string \<times> domino) list res" where
  "domino_map_from i m [] = Inr m"
| "domino_map_from i m (d # ds) =
     (if d_name d = '''' then Inl (errorf (''domino at index '' @ nat_str i @ '' has an empty name''))
      else if map_of m (d_name d) \<noteq> None then Inl (errorf (''duplicate domino name '' @ quote (d_name d)))
      else domino_map_from (Suc i) (aput (d_name d) d m) ds)"

definition domino_map :: "domino list \<Rightarrow> (string \<times> domino) list res" where
  "domino_map ds = domino_map_from 0 [] ds"

definition domino_reads :: "domino \<Rightarrow> string list" where
  "domino_reads d = filter (\<lambda>n. n \<noteq> '''') (map di_from_domino (ds_inputs (d_spec d)))
     @ ds_depends_on (d_spec d)"

definition wf_sandbox :: "workflow \<Rightarrow> sandbox_policy" where
  "wf_sandbox wk = \<lparr>sp_network_none = pv_net_none (ws_provisioning (wf_spec wk)),
     sp_read_only_root = pv_ro_root (ws_provisioning (wf_spec wk))\<rparr>"

text \<open>The gates a domino passes before its inputs are resolved.\<close>

definition domino_gates :: "workflow \<Rightarrow> string \<Rightarrow> domino \<Rightarrow> unit res" where
  "domino_gates wk name d =
     (let ctx = ''domino '' @ quote name in
      case (if ex_deterministic (ws_execution (wf_spec wk))
            then allow_deterministic (ds_command (d_spec d)) (wf_sandbox wk) else Inr ()) of
        Inl e \<Rightarrow> Inl (wrapf ctx e)
      | Inr _ \<Rightarrow> (case allowed_reads (w_chain wk) name (domino_reads d) of
          Inl e \<Rightarrow> Inl (wrapf ctx e) | Inr _ \<Rightarrow> Inr ()))"

fun run_chain ::
  "'s engine \<Rightarrow> workflow \<Rightarrow> string \<Rightarrow> (string \<times> domino) list \<Rightarrow> string list \<Rightarrow> log_entry list
     \<Rightarrow> (string \<times> string) list \<Rightarrow> string \<Rightarrow> 's \<Rightarrow> world
     \<Rightarrow> (log_entry list \<times> (string \<times> string) list \<times> string) res \<times> 's \<times> world" where
  "run_chain en wk snapshotID dm [] entries outputs prev s w = (Inr (entries, outputs, prev), s, w)"
| "run_chain en wk snapshotID dm (name # names) entries outputs prev s w =
     (case map_of dm name of
        None \<Rightarrow> (Inl (errorf (''domino '' @ quote name @ '' not found in workflow'')), s, w)
      | Some d \<Rightarrow>
      (case domino_gates wk name d of
        Inl e \<Rightarrow> (Inl e, s, w)
      | Inr _ \<Rightarrow>
      (case run_domino en (''domino '' @ quote name @ '' '') True d (ws_snapshot (wf_spec wk)) snapshotID
              name outputs prev s w of
        (Inl e, s1, w1) \<Rightarrow> (Inl e, s1, w1)
      | (Inr entry, s1, w1) \<Rightarrow>
          run_chain en wk snapshotID dm names (entries @ [entry]) (aput name (le_output entry) outputs)
            (le_link entry) s1 w1)))"

section \<open>Run\<close>

text \<open>The identity under which a run executes: computed, or given and checked.\<close>

definition run_identity :: "snapshot \<Rightarrow> gval \<Rightarrow> string \<Rightarrow> string res" where
  "run_identity snap content given =
     (if given = '''' then
        (case snapshot_id (ss_time_slice (sn_spec snap)) content of
           Inl e \<Rightarrow> Inl (wrapf ''compute snapshot ID'' e) | Inr i \<Rightarrow> Inr i)
      else (case assert_snapshot_id given (ss_time_slice (sn_spec snap)) content of
           Inl e \<Rightarrow> Inl (wrapf ''content-address check'' e) | Inr _ \<Rightarrow> Inr given))"

definition run_summary ::
  "'s engine \<Rightarrow> workflow \<Rightarrow> string \<Rightarrow> (string \<times> domino) list \<Rightarrow> log_entry list
     \<Rightarrow> (string \<times> string) list \<Rightarrow> string \<Rightarrow> run_result" where
  "run_summary en wk snapshotID dm entries outputs prev =
     (let work = work_from_replay entries in
      \<lparr>rr_snapshot_id = snapshotID, rr_entries = entries,
       rr_final_output = (case map_of outputs (last (w_chain wk)) of Some out \<Rightarrow> out | None \<Rightarrow> ''''),
       rr_min_regularity = reg_string (min_regularity (map (\<lambda>name.
          command_regularity (ds_command (d_spec (the (map_of dm name))))) (w_chain wk))),
       rr_work_evaluations = lw_evaluations work, rr_work_reuses = lw_reuses work,
       rr_work_cost = charge_usd work (en_dollars en), rr_head_link = prev\<rparr>)"

definition run_dominos ::
  "'s engine \<Rightarrow> workflow \<Rightarrow> string \<Rightarrow> 's \<Rightarrow> world \<Rightarrow> run_result res \<times> 's \<times> world" where
  "run_dominos en wk snapshotID s w =
     (case domino_map (ws_dominos (wf_spec wk)) of
        Inl e \<Rightarrow> (Inl e, s, w)
      | Inr dm \<Rightarrow>
        if w_chain wk = [] then (Inl (errorf ''execution chain is empty''), s, w)
        else case unique_names (w_chain wk) of
          Inl e \<Rightarrow> (Inl e, s, w)
        | Inr _ \<Rightarrow> (case run_chain en wk snapshotID dm (w_chain wk) [] [] snapshotID s w of
            (Inl e, s1, w1) \<Rightarrow> (Inl e, s1, w1)
          | (Inr (entries, outputs, prev), s1, w1) \<Rightarrow>
              (Inr (run_summary en wk snapshotID dm entries outputs prev), s1, w1)))"

definition run :: "'s engine \<Rightarrow> workflow \<Rightarrow> 's \<Rightarrow> world \<Rightarrow> run_result res \<times> 's \<times> world" where
  "run en wk s w =
     (let snap = ws_snapshot (wf_spec wk) in
      if \<not> ss_sealed (sn_spec snap) then
        (Inl (errorf (''snapshot '' @ quote (m_name (sn_meta snap))
           @ '' is not sealed; cannot execute deterministically'')), s, w)
      else case resolve_prefer_store (en_store en) snap '''' s w of
        (Inl e, s1, w1) \<Rightarrow> (Inl (wrapf ''resolve snapshot content'' e), s1, w1)
      | (Inr (content, data, given), s1, w1) \<Rightarrow>
      (case run_identity snap content given of
        Inl e \<Rightarrow> (Inl e, s1, w1)
      | Inr snapshotID \<Rightarrow>
      (case b_save_snapshot (en_store en) snapshotID (ss_time_slice (sn_spec snap)) data True s1 of
        (Inl e, s2) \<Rightarrow> (Inl (wrapf ''save snapshot'' e), s2, w1)
      | (Inr _, s2) \<Rightarrow> run_dominos en wk snapshotID s2 w1)))"

section \<open>One domino on its own\<close>

definition run_single_from ::
  "'s engine \<Rightarrow> string \<Rightarrow> snapshot \<Rightarrow> domino \<Rightarrow> (string \<times> string) list \<Rightarrow> string \<Rightarrow> 's \<Rightarrow> world
     \<Rightarrow> log_entry res \<times> 's \<times> world" where
  "run_single_from en snapshotID snap d prior prevLink s w =
     (if \<not> ss_sealed (sn_spec snap) then
        (Inl (errorf (''snapshot '' @ quote (m_name (sn_meta snap)) @ '' is not sealed'')), s, w)
      else if snapshotID = '''' then (Inl (errorf ''snapshot ID is required''), s, w)
      else run_domino en '''' False d snap snapshotID (d_name d) prior
             (if prevLink = '''' then snapshotID else prevLink) s w)"

definition run_single ::
  "'s engine \<Rightarrow> string \<Rightarrow> snapshot \<Rightarrow> domino \<Rightarrow> (string \<times> string) list \<Rightarrow> 's \<Rightarrow> world
     \<Rightarrow> log_entry res \<times> 's \<times> world" where
  "run_single en snapshotID snap d prior s w = run_single_from en snapshotID snap d prior snapshotID s w"

section \<open>One step against the store contract\<close>

text \<open>Every output the executor can produce for these dominos is a text the store can hold.\<close>

definition texts_ok :: "(string \<Rightarrow> bool) \<Rightarrow> 's engine \<Rightarrow> domino list \<Rightarrow> bool" where
  "texts_ok oktext en ds = (\<forall>d\<in>set ds. \<forall>inp w out. fst (execute_domino en d inp w) = Inr out \<longrightarrow> oktext out)"

lemma attach_spine_Inr:
  "attach_spine prev e = Inr (prev', e') \<longleftrightarrow>
     prev' = compute_str (prev @ '':'' @ le_input_hash e @ '':'' @ le_output_hash e)
     \<and> e' = e\<lparr>le_prev_link := prev, le_link := prev'\<rparr>"
  by (auto simp: attach_spine_def)

lemma attach_spine_not_Inl [simp]: "attach_spine prev e \<noteq> Inl er"
  by (simp add: attach_spine_def)

context store_laws
begin

lemma resolve_inputs_same:
  assumes "inv s" "en_store en = B" "resolve_inputs en d sn i prior s w = (r, s', w')"
  shows "same s s'"
proof -
  obtain q s1 w1 where q: "resolve_prefer_store B sn i s w = (q, s1, w1)" by (metis prod_cases3)
  have "s' = s1"
    using assms(2,3) q by (auto simp: resolve_inputs_def split: sum.splits prod.splits)
  with resolve_prefer_store_same [OF assms(1) q] show ?thesis by simp
qed

lemma memo_or_execute_laws:
  assumes "inv s" "en_store en = B" "okid (le_snapshot_id e0)" "okid (le_domino_id e0)"
    and "le_input_hash e0 = compute_str y"
    and "memo_or_execute en ctx b d e0 inp s w = (r, s', w')"
  shows "same s s' \<and> (\<forall>e. r = Inr e \<longrightarrow>
      e = e0\<lparr>le_output_hash := le_output_hash e, le_reused := le_reused e, le_output := le_output e\<rparr>
      \<and> (le_reused e \<longrightarrow> memo s (le_snapshot_id e0) (le_domino_id e0) (le_input_hash e0)
             = Some (le_output_hash e, le_output e))
      \<and> (\<not> le_reused e \<longrightarrow> le_output_hash e = compute_str (le_output e)
             \<and> fst (execute_domino en d inp w) = Inr (le_output e)))"
proof -
  obtain m s1 where m: "b_lookup_memo B (le_snapshot_id e0) (le_domino_id e0) (le_input_hash e0) s = (m, s1)"
    by fastforce
  have sm: "same s s1" by (rule lookup_memo_same [OF assms(1) m])
  show ?thesis
  proof (cases m)
    case (Inl er)
    with assms(2,6) m sm show ?thesis by (auto simp: memo_or_execute_def)
  next
    case (Inr mo)
    show ?thesis
    proof (cases mo)
      case (Some v)
      obtain oh out where v: "v = (oh, out)" by (cases v)
      have "memo s (le_snapshot_id e0) (le_domino_id e0) (le_input_hash e0) = Some (oh, out)"
        using lookup_memo_sound [OF assms(1,3,4), of y "Some (oh, out)" s1] m Inr Some v assms(5) by simp
      with assms(2,6) m sm Inr Some v show ?thesis by (auto simp: memo_or_execute_def)
    next
      case None
      obtain q w1 where q: "execute_domino en d inp w = (q, w1)" by fastforce
      from assms(2,6) m sm Inr None q show ?thesis
        by (cases q) (auto simp: memo_or_execute_def)
    qed
  qed
qed

text \<open>
  One domino: whatever happens, nothing sealed or memoized changes; a successful step
  appends exactly its own row, links it to the given head and leaves its output memoized,
  and a failed one appends nothing.
\<close>

lemma run_domino_keeps:
  assumes "inv s" "en_store en = B" "okid i" "okid name"
    and "run_domino en ctx b d sn i name prior prev s w = (r, s', w')"
  shows "keeps s s' \<and> (\<forall>j. j \<noteq> i \<longrightarrow> rows s' j = rows s j) \<and> (\<forall>e. r = Inl e \<longrightarrow> rows s' = rows s)"
proof -
  obtain q s1 w1 where q: "resolve_inputs en d sn i prior s w = (q, s1, w1)" by (metis prod_cases3)
  have s1: "same s s1" by (rule resolve_inputs_same [OF assms(1,2) q])
  show ?thesis
  proof (cases q)
    case (Inl er)
    with assms(5) q s1 show ?thesis by (auto simp: run_domino_def same_keeps) (auto simp: same_def)
  next
    case (Inr inp)
    obtain t w2 where t: "time_now w1 = (t, w2)" by fastforce
    define e0 where "e0 = \<lparr>le_timestamp = t, le_snapshot_id = i, le_domino_id = name,
        le_input_hash = compute_str inp, le_output_hash = '''', le_reused = False, le_output = '''',
        le_regularity = reg_string (command_regularity (ds_command (d_spec d))),
        le_prev_link = '''', le_link = ''''\<rparr>"
    obtain m s2 w3 where m: "memo_or_execute en ctx b d e0 inp s1 w2 = (m, s2, w3)" by (metis prod_cases3)
    have e0: "le_snapshot_id e0 = i" "le_domino_id e0 = name" "le_input_hash e0 = compute_str inp"
      by (simp_all add: e0_def)
    have ml: "same s1 s2 \<and> (\<forall>e. m = Inr e \<longrightarrow>
        e = e0\<lparr>le_output_hash := le_output_hash e, le_reused := le_reused e, le_output := le_output e\<rparr>)"
      using memo_or_execute_laws [OF _ assms(2) _ _ e0(3) m] s1 assms(3,4) e0 by (simp add: same_def)
    show ?thesis
    proof (cases m)
      case (Inl er)
      with assms(5) q Inr t m e0_def have "r = Inl er" "s' = s2"
        by (simp_all add: run_domino_def Let_def split_def)
      with same_trans [OF s1] ml show ?thesis by (auto simp: same_keeps) (auto simp: same_def)
    next
      case m': (Inr e1)
      define e where "e = e1\<lparr>le_prev_link := prev, le_link :=
        compute_str (prev @ '':'' @ le_input_hash e1 @ '':'' @ le_output_hash e1)\<rparr>"
      have e1eq: "e1 = e0\<lparr>le_output_hash := le_output_hash e1, le_reused := le_reused e1, le_output := le_output e1\<rparr>"
        using ml m' by blast
      have e1: "le_snapshot_id e1 = i" "le_domino_id e1 = name" "le_input_hash e1 = compute_str inp"
        by (subst e1eq, simp add: e0_def)+
      obtain u s3 where u: "b_save_result B (entry_row e) s2 = (u, s3)" by fastforce
      have row: "re_snapshot_id (entry_row e) = i" "re_domino_id (entry_row e) = name"
        "re_input_hash (entry_row e) = compute_str inp"
        using e1 by (simp_all add: entry_row_def e_def)
      have inv2: "inv s2" using ml by (simp add: same_def)
      have k: "keeps s2 s3"
        using save_result_keeps [OF inv2 _ _ okhash_eq [OF row(3)] u] row assms(3,4) by simp
      have fr: "(\<forall>j. j \<noteq> i \<longrightarrow> rows s3 j = rows s2 j) \<and> (u \<noteq> Inr () \<longrightarrow> rows s3 = rows s2)"
        using save_result_frame [OF inv2 _ _ row(3) u] row assms(3,4) by simp
      have fin: "s' = s3" "r = Inr e \<or> u \<noteq> Inr ()"
        using assms(2,5) q Inr t m m' u e0_def
        by (auto simp: run_domino_def Let_def attach_spine_def e_def split: sum.splits)
      have s2: "same s s2" using same_trans [OF s1] ml by blast
      have "keeps s s'" using keeps_trans [OF same_keeps [OF s2] k] fin(1) by simp
      with fr s2 fin show ?thesis by (auto simp: same_def)
    qed
  qed
qed

end

text \<open>What an entry of a finished step says of the run that made it.\<close>

definition entry_of :: "string \<Rightarrow> string \<Rightarrow> string \<Rightarrow> domino \<Rightarrow> log_entry \<Rightarrow> bool" where
  "entry_of i name prev d e =
     (le_snapshot_id e = i \<and> le_domino_id e = name \<and> le_prev_link e = prev
      \<and> le_link e = compute_str (link_msg e) \<and> (\<exists>y. le_input_hash e = compute_str y)
      \<and> le_regularity e = reg_string (command_regularity (ds_command (d_spec d)))
      \<and> (\<not> le_reused e \<longrightarrow> le_output_hash e = compute_str (le_output e)))"

context store_laws
begin

lemma run_domino_entry:
  assumes "inv s" "en_store en = B" "okid i" "okid name" "oktext prev" "d \<in> set ds"
    and "texts_ok oktext en ds"
    and "run_domino en ctx b d sn i name prior prev s w = (Inr e, s', w')"
  shows "entry_of i name prev d e \<and> rows s' i = rows s i @ [entry_row e]
    \<and> memo s' i name (le_input_hash e) = Some (le_output_hash e, le_output e)
    \<and> (le_reused e \<longrightarrow> memo s i name (le_input_hash e) = Some (le_output_hash e, le_output e))
    \<and> (\<not> le_reused e \<longrightarrow> le_output_hash e = compute_str (le_output e))"
proof -
  obtain q s1 w1 where q: "resolve_inputs en d sn i prior s w = (q, s1, w1)" by (metis prod_cases3)
  have s1: "same s s1" by (rule resolve_inputs_same [OF assms(1,2) q])
  obtain inp where inp: "q = Inr inp" using assms(8) q by (cases q) (auto simp: run_domino_def)
  obtain t w2 where t: "time_now w1 = (t, w2)" by fastforce
  define e0 where "e0 = \<lparr>le_timestamp = t, le_snapshot_id = i, le_domino_id = name,
      le_input_hash = compute_str inp, le_output_hash = '''', le_reused = False, le_output = '''',
      le_regularity = reg_string (command_regularity (ds_command (d_spec d))),
      le_prev_link = '''', le_link = ''''\<rparr>"
  obtain m s2 w3 where m: "memo_or_execute en ctx b d e0 inp s1 w2 = (m, s2, w3)" by (metis prod_cases3)
  obtain e1 where e1: "m = Inr e1"
    using assms(8) q inp t m e0_def by (cases m) (simp_all add: run_domino_def Let_def)
  have e0: "le_snapshot_id e0 = i" "le_domino_id e0 = name" "le_input_hash e0 = compute_str inp"
    by (simp_all add: e0_def)
  have ml: "same s1 s2"
    "e1 = e0\<lparr>le_output_hash := le_output_hash e1, le_reused := le_reused e1, le_output := le_output e1\<rparr>"
    "le_reused e1 \<longrightarrow> memo s1 i name (compute_str inp) = Some (le_output_hash e1, le_output e1)"
    "\<not> le_reused e1 \<longrightarrow> le_output_hash e1 = compute_str (le_output e1)
       \<and> fst (execute_domino en d inp w2) = Inr (le_output e1)"
    using memo_or_execute_laws [OF _ assms(2) _ _ e0(3) m] s1 assms(3,4) e0 e1
    by (simp_all add: same_def)
  have f1: "le_snapshot_id e1 = i" "le_domino_id e1 = name" "le_input_hash e1 = compute_str inp"
    "le_regularity e1 = reg_string (command_regularity (ds_command (d_spec d)))"
    by (subst ml(2), simp add: e0_def)+
  define lnk where "lnk = compute_str (prev @ '':'' @ le_input_hash e1 @ '':'' @ le_output_hash e1)"
  obtain u s3 where u: "b_save_result B (entry_row (e1\<lparr>le_prev_link := prev, le_link := lnk\<rparr>)) s2 = (u, s3)"
    by fastforce
  have fin: "e = e1\<lparr>le_prev_link := prev, le_link := lnk\<rparr>" "u = Inr ()" "s' = s3"
    using assms(2,8) q inp t m e1 u e0_def
    by (auto simp: run_domino_def Let_def attach_spine_def lnk_def split: sum.splits)
  have row: "re_snapshot_id (entry_row e) = i" "re_domino_id (entry_row e) = name"
    "re_input_hash (entry_row e) = compute_str inp" "re_output_hash (entry_row e) = le_output_hash e1"
    "re_output (entry_row e) = le_output e1" "re_prev_link (entry_row e) = prev"
    "re_link (entry_row e) = lnk" "re_reused (entry_row e) = le_reused e1"
    using f1 fin(1) by (simp_all add: entry_row_def)
  have inv1: "inv s1" using s1 by (simp add: same_def)
  have inv2: "inv s2" using ml(1) by (simp add: same_def)
  have texts: "oktext (le_output_hash e1) \<and> oktext (le_output e1)"
  proof (cases "le_reused e1")
    case True
    with ml(3) memo_text [OF inv1] show ?thesis by blast
  next
    case False
    with ml(4) assms(6,7) have "oktext (le_output e1)" by (auto simp: texts_ok_def)
    with False ml(4) oktext_hash show ?thesis by auto
  qed
  have save: "b_save_result B (entry_row e) s2 = (Inr (), s')" using u fin by simp
  have snd: "rows s' i = rows s2 i @ [entry_row e]"
    "\<not> le_reused e1 \<longrightarrow> memo s' i name (compute_str inp) = Some (le_output_hash e1, le_output e1)"
    using save_result_sound [OF inv2 _ _ row(3) _ _ _ _ save] row assms(3-5) texts oktext_hash
    by (simp_all add: lnk_def)
  have fr: "\<forall>j d h v. memo s2 j d h = Some v \<longrightarrow> memo s' j d h = Some v"
    using save_result_frame [OF inv2 _ _ row(3) save] row assms(3,4) by simp
  have sm: "rows s2 = rows s" "memo s2 = memo s" "memo s1 = memo s"
    using s1 ml(1) by (simp_all add: same_def)
  have "entry_of i name prev d e"
    using f1 fin(1) ml(4) by (auto simp: entry_of_def link_msg_def lnk_def)
  moreover have "le_input_hash e = compute_str inp" "le_output_hash e = le_output_hash e1"
    "le_output e = le_output e1" "le_reused e = le_reused e1" using f1 fin(1) by simp_all
  ultimately show ?thesis using snd fr sm ml by auto
qed

end

section \<open>The chain against the store contract\<close>

text \<open>The entries of a stretch of the chain, each linked to the one before.\<close>

fun entries_of :: "string \<Rightarrow> (string \<times> domino) list \<Rightarrow> string list \<Rightarrow> string \<Rightarrow> log_entry list \<Rightarrow> bool" where
  "entries_of i dm names prev [] = True"
| "entries_of i dm (name # names) prev (e # es) =
     ((\<exists>d. map_of dm name = Some d \<and> entry_of i name prev d e) \<and> entries_of i dm names (le_link e) es)"
| "entries_of i dm [] prev (e # es) = False"

lemma entries_of_names: "entries_of i dm names prev es \<Longrightarrow> map le_domino_id es = take (length es) names"
  by (induction i dm names prev es rule: entries_of.induct) (auto simp: entry_of_def)

lemma entries_of_verify: "entries_of i dm names prev es \<Longrightarrow> verify_from k prev es = Inr ()"
  by (induction i dm names prev es arbitrary: k rule: entries_of.induct)
    (auto simp: entry_of_def link_msg_def)

lemma entries_of_clean:
  "entries_of i dm names prev es \<Longrightarrow> e \<in> set es \<Longrightarrow> le_snapshot_id e = i \<and> (\<exists>y. le_input_hash e = compute_str y)"
  by (induction i dm names prev es rule: entries_of.induct) (auto simp: entry_of_def)

lemma entries_of_hashes:
  "entries_of i dm names prev es \<Longrightarrow> list_all (\<lambda>e. le_reused e \<or> le_output_hash e = compute_str (le_output e)) es"
  by (induction i dm names prev es rule: entries_of.induct) (auto simp: entry_of_def)

lemma entries_of_links:
  "entries_of i dm names prev es \<Longrightarrow> e \<in> set es \<Longrightarrow> \<exists>y. le_link e = compute_str y"
  by (induction i dm names prev es rule: entries_of.induct) (auto simp: entry_of_def)

context store_laws
begin

definition memoized :: "'s \<Rightarrow> log_entry \<Rightarrow> bool" where
  "memoized s e = (memo s (le_snapshot_id e) (le_domino_id e) (le_input_hash e)
     = Some (le_output_hash e, le_output e))"

lemma keeps_memoized: "keeps s s' \<Longrightarrow> memoized s e \<Longrightarrow> memoized s' e"
  by (simp add: keeps_def memoized_def)

lemma run_chain_laws:
  assumes "inv s" "en_store en = B" "okid i" "oktext prev" "\<forall>n\<in>set names. okid n"
    and "\<forall>n d. map_of dm n = Some d \<longrightarrow> d \<in> set ds" "texts_ok oktext en ds"
    and "run_chain en wk i dm names entries outputs prev s w = (r, s', w')"
  shows "keeps s s' \<and> (\<forall>j. j \<noteq> i \<longrightarrow> rows s' j = rows s j)
    \<and> (\<exists>es. entries_of i dm names prev es \<and> rows s' i = rows s i @ map entry_row es
        \<and> list_all (memoized s') es
        \<and> (\<forall>es' outs' prev'. r = Inr (es', outs', prev') \<longrightarrow>
              es' = entries @ es \<and> length es = length names \<and> prev' = head_link prev es))"
  using assms
proof (induction names arbitrary: entries outputs prev s w)
  case Nil
  then have "s' = s" "r = Inr (entries, outputs, prev)" by simp_all
  with Nil.prems(1) keeps_refl show ?case by (auto intro!: exI [of _ "[]"])
next
  case (Cons name names)
  show ?case
  proof (cases "map_of dm name")
    case None
    with Cons.prems keeps_refl show ?thesis by (auto intro!: exI [of _ "[]"])
  next
    case (Some d)
    show ?thesis
    proof (cases "domino_gates wk name d")
      case (Inl er)
      with Some Cons.prems keeps_refl show ?thesis by (auto intro!: exI [of _ "[]"])
    next
      case (Inr un)
      let ?ctx = "''domino '' @ quote name @ '' ''"
      obtain q s1 w1 where q: "run_domino en ?ctx True d (ws_snapshot (wf_spec wk)) i name outputs prev s w
          = (q, s1, w1)" by (metis prod_cases3)
      have okn: "okid name" using Cons.prems(5) by simp
      note k = run_domino_keeps [OF Cons.prems(1,2,3) okn q]
      show ?thesis
      proof (cases q)
        case (Inl er)
        with Some Inr q Cons.prems(8) have "r = Inl er" "s' = s1" by simp_all
        with k Inl show ?thesis by (auto intro!: exI [of _ "[]"])
      next
        case q': (Inr e)
        have dd: "d \<in> set ds" using Some Cons.prems(6) by blast
        note en = run_domino_entry [OF Cons.prems(1,2,3) okn Cons.prems(4) dd Cons.prems(7) q [unfolded q']]
        have inv1: "inv s1" using k keeps_inv by blast
        have lnk: "oktext (le_link e)" using en oktext_hash by (simp add: entry_of_def)
        have rc: "run_chain en wk i dm names (entries @ [e]) (aput name (le_output e) outputs) (le_link e) s1 w1
            = (r, s', w')"
          using Some Inr q q' Cons.prems(8) by simp
        from Cons.IH [OF inv1 Cons.prems(2,3) lnk _ Cons.prems(6,7) rc] Cons.prems(5)
        obtain es where es: "keeps s1 s'" "\<forall>j. j \<noteq> i \<longrightarrow> rows s' j = rows s1 j"
          "entries_of i dm names (le_link e) es" "rows s' i = rows s1 i @ map entry_row es"
          "list_all (memoized s') es"
          "\<forall>es' outs' prev'. r = Inr (es', outs', prev') \<longrightarrow>
              es' = (entries @ [e]) @ es \<and> length es = length names \<and> prev' = head_link (le_link e) es"
          by auto
        have "memoized s1 e" using en by (simp add: memoized_def entry_of_def)
        then have "list_all (memoized s') (e # es)" using es(1,5) keeps_memoized by simp
        moreover have "entries_of i dm (name # names) prev (e # es)" using en es(3) Some by simp
        moreover have "head_link (le_link e) es = head_link prev (e # es)" by (simp add: head_link_def)
        moreover have "rows s' i = rows s i @ map entry_row (e # es)" using en es(4) by simp
        moreover have "keeps s s'" using k es(1) keeps_trans by blast
        moreover have "\<forall>j. j \<noteq> i \<longrightarrow> rows s' j = rows s j" using k es(2) by simp
        ultimately show ?thesis using es(6) by (intro conjI exI [of _ "e # es"]) simp_all
      qed
    qed
  qed
qed

end

section \<open>Run against the store contract\<close>

lemma run_chain_last:
  "run_chain en wk i dm names entries outputs prev s w = (Inr (es', outs', prev'), s', w')
     \<Longrightarrow> names \<noteq> [] \<Longrightarrow> map_of outs' (last names) = Some (le_output (last es'))"
proof (induction names arbitrary: entries outputs prev s w)
  case (Cons name names)
  from Cons.prems(1) obtain e s1 w1 where
    rc: "run_chain en wk i dm names (entries @ [e]) (aput name (le_output e) outputs) (le_link e) s1 w1
       = (Inr (es', outs', prev'), s', w')"
    by (auto split: option.splits sum.splits prod.splits)
  show ?case
  proof (cases "names = []")
    case True
    with rc show ?thesis by auto
  next
    case False
    with Cons.IH [OF rc] show ?thesis by simp
  qed
qed simp

lemma domino_map_from_sub:
  "domino_map_from k m ds = Inr m' \<Longrightarrow> map_of m' n = Some d \<Longrightarrow> map_of m n = Some d \<or> d \<in> set ds"
  by (induction k m ds rule: domino_map_from.induct) (auto split: if_splits)

lemma domino_map_sub: "domino_map ds = Inr m \<Longrightarrow> map_of m n = Some d \<Longrightarrow> d \<in> set ds"
  using domino_map_from_sub [of 0 "[]" ds m n d] by (simp add: domino_map_def)

lemma run_identity_Inr:
  "run_identity sn content given = Inr i \<Longrightarrow> snapshot_id (ss_time_slice (sn_spec sn)) content = Inr i"
  by (auto simp: run_identity_def assert_snapshot_id_def split: if_splits sum.splits)

text \<open>What a successful run returns, as far as it does not depend on the store.\<close>

definition faithful_log :: "workflow \<Rightarrow> run_result \<Rightarrow> bool" where
  "faithful_log wk res =
     (map le_domino_id (rr_entries res) = w_chain wk
      \<and> list_all (\<lambda>e. le_snapshot_id e = rr_snapshot_id res) (rr_entries res)
      \<and> verify_spine (rr_snapshot_id res) (rr_entries res) = Inr ()
      \<and> list_all (\<lambda>e. le_reused e \<or> le_output_hash e = compute_str (le_output e)) (rr_entries res)
      \<and> rr_head_link res = head_link (rr_snapshot_id res) (rr_entries res)
      \<and> rr_final_output res = le_output (last (rr_entries res))
      \<and> rr_work_evaluations res + rr_work_reuses res = int (length (w_chain wk))
      \<and> rr_work_reuses res = int (length (filter le_reused (rr_entries res))))"

context store_laws
begin

lemma okid_snapshot_id: "snapshot_id ts v = Inr i \<Longrightarrow> okid i"
  using okid_hash snapshot_id_hash by blast

lemma run_dominos_laws:
  assumes "inv s" "en_store en = B" "okid i" "\<forall>n\<in>set (w_chain wk). okid n"
    and "texts_ok oktext en (ws_dominos (wf_spec wk))"
    and "run_dominos en wk i s w = (r, s', w')"
  shows "keeps s s' \<and> (\<forall>j. j \<noteq> i \<longrightarrow> rows s' j = rows s j)
    \<and> (\<exists>es. rows s' i = rows s i @ map entry_row es \<and> verify_spine i es = Inr ()
        \<and> map le_domino_id es = take (length es) (w_chain wk) \<and> list_all (memoized s') es
        \<and> (\<forall>res. r = Inr res \<longrightarrow> rr_snapshot_id res = i \<and> rr_entries res = es \<and> faithful_log wk res))"
proof (cases "domino_map (ws_dominos (wf_spec wk))")
  case (Inl er)
  with assms(1,6) keeps_refl show ?thesis by (auto simp: run_dominos_def intro!: exI [of _ "[]"])
next
  case (Inr dm)
  show ?thesis
  proof (cases "w_chain wk = [] \<or> unique_names (w_chain wk) \<noteq> Inr ()")
    case True
    with Inr assms(1,6) keeps_refl show ?thesis
      by (auto simp: run_dominos_def split: sum.splits if_splits intro!: exI [of _ "[]"])
  next
    case False
    obtain q s1 w1 where q: "run_chain en wk i dm (w_chain wk) [] [] i s w = (q, s1, w1)"
      by (metis prod_cases3)
    have dm: "\<forall>n d. map_of dm n = Some d \<longrightarrow> d \<in> set (ws_dominos (wf_spec wk))"
      using domino_map_sub [OF Inr] by blast
    from run_chain_laws [OF assms(1-3) oktext_id [OF assms(3)] assms(4) dm assms(5) q]
    obtain es where es: "keeps s s1" "\<forall>j. j \<noteq> i \<longrightarrow> rows s1 j = rows s j"
      "entries_of i dm (w_chain wk) i es" "rows s1 i = rows s i @ map entry_row es"
      "list_all (memoized s1) es"
      "\<forall>es' outs' prev'. q = Inr (es', outs', prev') \<longrightarrow>
          es' = es \<and> length es = length (w_chain wk) \<and> prev' = head_link i es"
      by auto
    have s1: "s' = s1" using assms(6) Inr False q
      by (auto simp: run_dominos_def split: sum.splits)
    have v: "verify_spine i es = Inr ()"
      using entries_of_verify [OF es(3)] by (simp add: verify_spine_def)
    have names: "map le_domino_id es = take (length es) (w_chain wk)"
      by (rule entries_of_names [OF es(3)])
    have fin: "rr_snapshot_id res = i \<and> rr_entries res = es \<and> faithful_log wk res" if r: "r = Inr res" for res
    proof -
      from assms(6) Inr False q r obtain es' outs' prev' where
        q': "q = Inr (es', outs', prev')" and res: "res = run_summary en wk i dm es' outs' prev'"
        by (auto simp: run_dominos_def split: sum.splits)
      from q' es(6) have e: "es' = es" "length es = length (w_chain wk)" "prev' = head_link i es" by auto
      have ne: "w_chain wk \<noteq> []" using False by simp
      have lst: "map_of outs' (last (w_chain wk)) = Some (le_output (last es))"
        using run_chain_last [OF q [unfolded q'] ne] e by simp
      have "le_snapshot_id x = i" if "x \<in> set es" for x using entries_of_clean [OF es(3) that] by simp
      then show ?thesis
        using res e v names lst work_total [of es] entries_of_hashes [OF es(3)]
        by (simp add: run_summary_def faithful_log_def Let_def list_all_iff work_from_replay_eq)
    qed
    show ?thesis unfolding s1 using es v names fin by blast
  qed
qed

text \<open>
  The whole of \<open>Run\<close>, on every outcome: nothing sealed or memoized changes, the rows of at
  most one snapshot grow, and they grow by a verified spine that covers a prefix of the chain.
\<close>

lemma run_laws:
  assumes "inv s" "en_store en = B" "\<forall>n\<in>set (w_chain wk). okid n"
    and "texts_ok oktext en (ws_dominos (wf_spec wk))" and "run en wk s w = (r, s', w')"
  shows "keeps s s' \<and> (\<exists>i es. (\<forall>j. j \<noteq> i \<longrightarrow> rows s' j = rows s j)
        \<and> rows s' i = rows s i @ map entry_row es \<and> verify_spine i es = Inr ()
        \<and> map le_domino_id es = take (length es) (w_chain wk) \<and> list_all (memoized s') es
        \<and> (\<forall>res. r = Inr res \<longrightarrow> rr_snapshot_id res = i \<and> rr_entries res = es \<and> faithful_log wk res))"
proof -
  let ?sn = "ws_snapshot (wf_spec wk)"
  show ?thesis
  proof (cases "ss_sealed (sn_spec ?sn)")
    case False
    with assms(1,5) keeps_refl show ?thesis
      by (auto simp: run_def Let_def intro!: exI [of _ "[]"])
  next
    case sealed: True
    obtain q s1 w1 where q: "resolve_prefer_store B ?sn '''' s w = (q, s1, w1)" by (metis prod_cases3)
    have s1: "same s s1" by (rule resolve_prefer_store_same [OF assms(1) q])
    have inv1: "inv s1" using s1 by (simp add: same_def)
    have stop: ?thesis if "s' = s1" "r = Inl er" for er
      using that s1 same_keeps [OF s1] by (auto simp: same_def intro!: exI [of _ "[]"])
    show ?thesis
    proof (cases q)
      case (Inl er)
      with assms(2,5) sealed q show ?thesis by (intro stop) (auto simp: run_def Let_def)
    next
      case (Inr c)
      obtain content data given where c: "c = (content, data, given)" by (cases c)
      show ?thesis
      proof (cases "run_identity ?sn content given")
        case (Inl er)
        with assms(2,5) sealed q Inr c show ?thesis by (intro stop) (auto simp: run_def Let_def)
      next
        case id: (Inr i)
        have oki: "okid i" using run_identity_Inr [OF id] okid_snapshot_id by blast
        obtain u s2 where u: "b_save_snapshot B i (ss_time_slice (sn_spec ?sn)) data True s1 = (u, s2)"
          by fastforce
        have k2: "keeps s1 s2" by (rule save_snapshot_keeps [OF inv1 oki u])
        have rows2: "rows s2 = rows s" using save_snapshot_frame [OF inv1 oki u] s1 by (simp add: same_def)
        have k: "keeps s s2" using keeps_trans [OF same_keeps [OF s1] k2] .
        show ?thesis
        proof (cases u)
          case (Inl er)
          with assms(2,5) sealed q Inr c id u have "s' = s2" "r = Inl (wrapf ''save snapshot'' er)"
            by (simp_all add: run_def Let_def)
          with k rows2 show ?thesis by (auto intro!: exI [of _ "[]"])
        next
          case u': (Inr un)
          with assms(2,5) sealed q Inr c id u have rd: "run_dominos en wk i s2 w1 = (r, s', w')"
            by (simp add: run_def Let_def)
          from run_dominos_laws [OF keeps_inv [OF k] assms(2) oki assms(3,4) rd] rows2 keeps_trans [OF k]
          show ?thesis by auto
        qed
      qed
    qed
  qed
qed

lemma run_seals:
  assumes "inv s" "en_store en = B" "\<forall>n\<in>set (w_chain wk). okid n"
    and "texts_ok oktext en (ws_dominos (wf_spec wk))"
    and "oktext (ss_time_slice (sn_spec (ws_snapshot (wf_spec wk))))"
    and "run en wk s w = (Inr res, s', w')"
  shows "ss_sealed (sn_spec (ws_snapshot (wf_spec wk)))
    \<and> (\<exists>content data. snapshot_id (ss_time_slice (sn_spec (ws_snapshot (wf_spec wk)))) content = Inr (rr_snapshot_id res)
         \<and> (oktext data \<longrightarrow> snap s' (rr_snapshot_id res) = Some (ss_time_slice (sn_spec (ws_snapshot (wf_spec wk))), data, True)))"
proof -
  let ?sn = "ws_snapshot (wf_spec wk)"
  have sealed: "ss_sealed (sn_spec ?sn)" using assms(6) by (auto simp: run_def Let_def split: if_splits)
  obtain q s1 w1 where q: "resolve_prefer_store B ?sn '''' s w = (q, s1, w1)" by (metis prod_cases3)
  have inv1: "inv s1" using resolve_prefer_store_same [OF assms(1) q] by (simp add: same_def)
  obtain content data given where c: "q = Inr (content, data, given)"
    using assms(2,6) sealed q by (cases q) (auto simp: run_def Let_def)
  obtain i where id: "run_identity ?sn content given = Inr i"
    using assms(2,6) sealed q c by (cases "run_identity ?sn content given") (auto simp: run_def Let_def)
  have oki: "okid i" using run_identity_Inr [OF id] okid_snapshot_id by blast
  obtain u s2 where u: "b_save_snapshot B i (ss_time_slice (sn_spec ?sn)) data True s1 = (u, s2)" by fastforce
  have uu: "u = Inr ()" and rd: "run_dominos en wk i s2 w1 = (Inr res, s', w')"
    using assms(2,6) sealed q c id u by (cases u; simp add: run_def Let_def)+
  have k2: "keeps s1 s2" by (rule save_snapshot_keeps [OF inv1 oki u])
  have "oktext data \<longrightarrow> snap s2 i = Some (ss_time_slice (sn_spec ?sn), data, True)"
    using save_snapshot_sound [OF inv1 oki assms(5)] u uu by simp
  moreover note rl = run_dominos_laws [OF keeps_inv [OF k2] assms(2) oki assms(3,4) rd]
  ultimately have "oktext data \<longrightarrow> snap s' i = Some (ss_time_slice (sn_spec ?sn), data, True)"
    using oki by (auto simp: keeps_def)
  moreover have "rr_snapshot_id res = i" using rl by auto
  ultimately show ?thesis using sealed run_identity_Inr [OF id] by auto
qed

end

section \<open>Running again\<close>

text \<open>The entry a memoized step produces: the recorded one, marked as reused.\<close>

definition replayed :: "log_entry \<Rightarrow> log_entry \<Rightarrow> bool" where
  "replayed e e2 = (e2 = e\<lparr>le_timestamp := le_timestamp e2, le_reused := True\<rparr>)"

lemma json_marshal_map_not_Nil: "json_marshal (GMap m) = Inr raw \<Longrightarrow> raw \<noteq> ''''"
  by (auto simp: json_marshal_def split: option.splits)

context store_backend
begin

lemma same_payload: "same s s' \<Longrightarrow> stored_payload s' = stored_payload s"
  by (simp add: same_def stored_payload_def fun_eq_iff)

lemma resolve_inputs_stored:
  assumes "inv s" "ok s" "okid i" "i \<noteq> ''''" "en_store en = B" "sn_status sn = None"
    and "stored_payload s i = Some data" "resolve_inputs en d sn i prior s w = (r, s', w')"
  shows "same s s' \<and> w' = w \<and> r = (case json_unmarshal data of
      Inl e \<Rightarrow> Inl (wrapf ''resolve snapshot content'' (wrapf (''parse stored snapshot '' @ quote i) e))
    | Inr content \<Rightarrow> combine_inputs content prior (ds_inputs (d_spec d)))"
proof -
  obtain l s1 where l: "load_data_prefer_store B i s = (l, s1)" by fastforce
  have "l = Inr (Some data)" using load_data_ok [OF assms(1-4) l] assms(7) by simp
  with assms(5,6,8) l resolve_inputs_same [OF assms(1,5,8)] show ?thesis
    by (auto simp: resolve_inputs_def resolve_prefer_store_def resolved_id_def split: sum.splits)
qed

lemma run_domino_ok:
  assumes "inv s" "ok s" "en_store en = B" "okid i" "okid name" "oktext prev" "d \<in> set ds"
    and "texts_ok oktext en ds"
    and "run_domino en ctx b d sn i name prior prev s w = (Inr e, s', w')"
  shows "ok s' \<and> snap s' = snap s"
proof -
  obtain q s1 w1 where q: "resolve_inputs en d sn i prior s w = (q, s1, w1)" by (metis prod_cases3)
  have s1: "same s s1" by (rule resolve_inputs_same [OF assms(1,3) q])
  obtain inp where inp: "q = Inr inp" using assms(9) q by (cases q) (auto simp: run_domino_def)
  obtain t w2 where t: "time_now w1 = (t, w2)" by fastforce
  define e0 where "e0 = \<lparr>le_timestamp = t, le_snapshot_id = i, le_domino_id = name,
      le_input_hash = compute_str inp, le_output_hash = '''', le_reused = False, le_output = '''',
      le_regularity = reg_string (command_regularity (ds_command (d_spec d))),
      le_prev_link = '''', le_link = ''''\<rparr>"
  obtain m s2 w3 where m: "memo_or_execute en ctx b d e0 inp s1 w2 = (m, s2, w3)" by (metis prod_cases3)
  obtain e1 where e1: "m = Inr e1"
    using assms(9) q inp t m e0_def by (cases m) (simp_all add: run_domino_def Let_def)
  have e0: "le_snapshot_id e0 = i" "le_domino_id e0 = name" "le_input_hash e0 = compute_str inp"
    by (simp_all add: e0_def)
  have inv1: "inv s1" using s1 by (simp add: same_def)
  have ml: "same s1 s2"
    "e1 = e0\<lparr>le_output_hash := le_output_hash e1, le_reused := le_reused e1, le_output := le_output e1\<rparr>"
    "le_reused e1 \<longrightarrow> memo s1 i name (compute_str inp) = Some (le_output_hash e1, le_output e1)"
    "\<not> le_reused e1 \<longrightarrow> le_output_hash e1 = compute_str (le_output e1)
       \<and> fst (execute_domino en d inp w2) = Inr (le_output e1)"
    using memo_or_execute_laws [OF inv1 assms(3) _ _ e0(3) m] assms(4,5) e0 e1 by simp_all
  have f1: "le_snapshot_id e1 = i" "le_domino_id e1 = name" "le_input_hash e1 = compute_str inp"
    by (subst ml(2), simp add: e0_def)+
  define e' where "e' = e1\<lparr>le_prev_link := prev,
    le_link := compute_str (prev @ '':'' @ le_input_hash e1 @ '':'' @ le_output_hash e1)\<rparr>"
  obtain u s3 where u: "b_save_result B (entry_row e') s2 = (u, s3)" by fastforce
  have fin: "s' = s3"
    using assms(3,9) q inp t m e1 u e0_def
    by (auto simp: run_domino_def Let_def attach_spine_def e'_def split: sum.splits)
  have texts: "oktext (le_output_hash e1) \<and> oktext (le_output e1)"
  proof (cases "le_reused e1")
    case True
    with ml(3) memo_text [OF inv1] show ?thesis by blast
  next
    case False
    with ml(4) assms(7,8) have "oktext (le_output e1)" by (auto simp: texts_ok_def)
    with False ml(4) oktext_hash show ?thesis by auto
  qed
  have ih: "re_input_hash (entry_row e') = compute_str inp" using f1 by (simp add: entry_row_def e'_def)
  have s2: "same s s2" using same_trans [OF s1 ml(1)] .
  then have inv2: "inv s2" and ok2: "ok s2" using assms(2) by (simp_all add: same_def)
  have "ok s3"
    using save_result_ok [OF inv2 ok2 _ _ ih _ _ _ _ u] f1 assms(4-6) texts oktext_hash
    by (simp add: entry_row_def e'_def)
  moreover have "snap s3 = snap s2"
    using save_result_frame [OF inv2 _ _ ih u] f1 assms(4,5) by (simp add: entry_row_def e'_def)
  ultimately show ?thesis using fin s2 by (simp add: same_def)
qed

text \<open>A step whose result is memoized repeats its entry without executing anything.\<close>

lemma run_domino_replay:
  assumes "inv s" "ok s" "inv t" "ok t" "en_store en = B" "okid i" "i \<noteq> ''''" "okid name" "oktext prev"
    and "sn_status sn = None" "stored_payload s i = Some data" "stored_payload t i = Some data"
    and "run_domino en ctx b d sn i name prior prev s w = (Inr e, s', w')"
    and "memo t i name (le_input_hash e) = Some (le_output_hash e, le_output e)"
  shows "\<exists>e2 t' v'. run_domino en ctx b d sn i name prior prev t v = (Inr e2, t', v')
    \<and> replayed e e2 \<and> inv t' \<and> ok t' \<and> snap t' = snap t \<and> keeps t t'"
proof -
  obtain q s1 w1 where q: "resolve_inputs en d sn i prior s w = (q, s1, w1)" by (metis prod_cases3)
  obtain q2 t1 v1 where q2: "resolve_inputs en d sn i prior t v = (q2, t1, v1)" by (metis prod_cases3)
  note rs = resolve_inputs_stored [OF assms(1,2,6,7,5,10,11) q]
  note rt = resolve_inputs_stored [OF assms(3,4,6,7,5,10,12) q2]
  have qq: "q2 = q" using rs rt by (simp split: sum.splits)
  obtain inp where inp: "q = Inr inp" using assms(13) q by (cases q) (auto simp: run_domino_def)
  obtain ts w2 where ts: "time_now w1 = (ts, w2)" by fastforce
  define e0 where "e0 = \<lparr>le_timestamp = ts, le_snapshot_id = i, le_domino_id = name,
      le_input_hash = compute_str inp, le_output_hash = '''', le_reused = False, le_output = '''',
      le_regularity = reg_string (command_regularity (ds_command (d_spec d))),
      le_prev_link = '''', le_link = ''''\<rparr>"
  obtain m s2 w3 where m: "memo_or_execute en ctx b d e0 inp s1 w2 = (m, s2, w3)" by (metis prod_cases3)
  obtain e1 where e1: "m = Inr e1"
    using assms(13) q inp ts m e0_def by (cases m) (simp_all add: run_domino_def Let_def)
  have inv1: "inv s1" using rs by (simp add: same_def)
  have e0f: "le_snapshot_id e0 = i" "le_domino_id e0 = name" "le_input_hash e0 = compute_str inp"
    by (simp_all add: e0_def)
  have e1eq: "e1 = e0\<lparr>le_output_hash := le_output_hash e1, le_reused := le_reused e1, le_output := le_output e1\<rparr>"
    using memo_or_execute_laws [OF inv1 assms(5) _ _ e0f(3) m] assms(6,8) e0f e1 by blast
  have e: "e = e1\<lparr>le_prev_link := prev,
      le_link := compute_str (prev @ '':'' @ le_input_hash e1 @ '':'' @ le_output_hash e1)\<rparr>"
    using assms(5,13) q inp ts m e1 e0_def
    by (auto simp: run_domino_def Let_def attach_spine_def split: sum.splits prod.splits)
  have ih: "le_input_hash e = compute_str inp"
    by (subst e, subst e1eq, simp add: e0_def)
  obtain tv v2 where tv: "time_now v1 = (tv, v2)" by fastforce
  define f0 where "f0 = e0\<lparr>le_timestamp := tv\<rparr>"
  define f1 where "f1 = f0\<lparr>le_output_hash := le_output_hash e, le_reused := True, le_output := le_output e\<rparr>"
  obtain mr t2 where mr: "b_lookup_memo B i name (compute_str inp) t1 = (mr, t2)" by fastforce
  have t1: "same t t1" using rt by simp
  have inv_t1: "inv t1" and ok_t1: "ok t1" using t1 assms(4) by (simp_all add: same_def)
  have "mr = Inr (memo t1 i name (compute_str inp))"
    using lookup_memo_ok [OF inv_t1 ok_t1 assms(6,8) mr] .
  also have "memo t1 = memo t" using t1 by (simp add: same_def)
  finally have mr': "mr = Inr (Some (le_output_hash e, le_output e))" using assms(14) ih by simp
  have t2: "same t t2" using same_trans [OF t1 lookup_memo_same [OF inv_t1 mr]] .
  have inv_t2: "inv t2" and ok_t2: "ok t2" using t2 assms(4) by (simp_all add: same_def)
  have mo: "memo_or_execute en ctx b d f0 inp t1 v2 = (Inr f1, t2, v2)"
    using mr mr' assms(5) by (simp add: memo_or_execute_def f0_def f1_def e0_def)
  define f where "f = f1\<lparr>le_prev_link := prev, le_link := le_link e\<rparr>"
  have fl: "compute_str (prev @ '':'' @ le_input_hash f1 @ '':'' @ le_output_hash f1) = le_link e"
  proof -
    have "le_input_hash f1 = le_input_hash e1" "le_output_hash f1 = le_output_hash e1"
      using ih e by (simp_all add: f1_def f0_def e0_def)
    then show ?thesis by (subst e) simp
  qed
  obtain u t3 where u: "b_save_result B (entry_row f) t2 = (u, t3)" by fastforce
  have row: "re_snapshot_id (entry_row f) = i" "re_domino_id (entry_row f) = name"
    "re_input_hash (entry_row f) = compute_str inp" "re_reused (entry_row f)"
    "re_output_hash (entry_row f) = le_output_hash e" "re_output (entry_row f) = le_output e"
    "re_prev_link (entry_row f) = prev" "re_link (entry_row f) = le_link e"
    by (simp_all add: entry_row_def f_def f1_def f0_def e0_def)
  have texts: "oktext (le_output_hash e) \<and> oktext (le_output e)" using memo_text [OF assms(3,14)] .
  have lnk: "oktext (le_link e)" by (subst e) (simp add: oktext_hash)
  have sv: "ok t3" "u = Inr ()"
    using save_result_ok [OF inv_t2 ok_t2 _ _ row(3) _ _ _ _ u] row assms(6,8,9) texts lnk by simp_all
  have fr: "snap t3 = snap t2" "inv t3"
    using save_result_frame [OF inv_t2 _ _ row(3) u] row assms(6,8) by simp_all
  have k: "keeps t2 t3" using save_result_keeps [OF inv_t2 _ _ okhash_eq [OF row(3)] u] row assms(6,8) by simp
  have "run_domino en ctx b d sn i name prior prev t v = (Inr f, t3, v2)"
    using q2 qq inp tv mo u sv(2) assms(5) fl
    by (simp add: run_domino_def Let_def attach_spine_def f_def f0_def e0_def)
  moreover have "replayed e f"
  proof -
    have "le_snapshot_id e = i" "le_domino_id e = name" "le_prev_link e = prev"
      "le_regularity e = reg_string (command_regularity (ds_command (d_spec d)))"
      by (subst e, subst e1eq, simp add: e0_def)+
    then have "f = e\<lparr>le_timestamp := tv, le_reused := True\<rparr>"
      using ih by (intro log_entry.equality) (simp_all add: f_def f1_def f0_def e0_def)
    moreover have "le_timestamp f = tv" by (simp add: f_def f1_def f0_def)
    ultimately show ?thesis by (simp add: replayed_def)
  qed
  moreover have "snap t3 = snap t" using fr t2 by (simp add: same_def)
  moreover have "keeps t t3" using keeps_trans [OF same_keeps [OF t2] k] .
  ultimately show ?thesis using fr sv by blast
qed

end

lemma replayed_fields:
  assumes "replayed e e2"
  shows "le_domino_id e2 = le_domino_id e" "le_input_hash e2 = le_input_hash e"
    "le_output_hash e2 = le_output_hash e" "le_output e2 = le_output e" "le_reused e2"
    "le_prev_link e2 = le_prev_link e" "le_link e2 = le_link e" "le_regularity e2 = le_regularity e"
    "le_snapshot_id e2 = le_snapshot_id e"
  using assms by (simp_all add: replayed_def, (metis log_entry.ext_inject log_entry.surjective
      log_entry.update_convs)+)

context store_backend
begin

lemma run_chain_replay:
  assumes "inv s" "ok s" "inv t" "ok t" "en_store en = B" "okid i" "i \<noteq> ''''" "oktext prev"
    and "\<forall>n\<in>set names. okid n" "\<forall>n d. map_of dm n = Some d \<longrightarrow> d \<in> set ds" "texts_ok oktext en ds"
    and "sn_status (ws_snapshot (wf_spec wk)) = None"
    and "stored_payload s i = Some data" "stored_payload t i = Some data"
    and "run_chain en wk i dm names entries outputs prev s w = (Inr (entries @ es, outs, prev'), s', w')"
    and "list_all (memoized t) es"
  shows "\<exists>es2 t' v'. run_chain en wk i dm names entriesB outputs prev t v
        = (Inr (entriesB @ es2, outs, prev'), t', v') \<and> list_all2 replayed es es2"
  using assms
proof (induction names arbitrary: entries entriesB outputs prev es s t w v)
  case Nil
  then show ?case by auto
next
  case (Cons name names)
  let ?ctx = "''domino '' @ quote name @ '' ''" and ?sn = "ws_snapshot (wf_spec wk)"
  from Cons.prems(15) obtain d where d: "map_of dm name = Some d"
    by (auto split: option.splits)
  obtain q s1 w1 where q: "run_domino en ?ctx True d ?sn i name outputs prev s w = (q, s1, w1)"
    by (metis prod_cases3)
  obtain g where g: "domino_gates wk name d = Inr g"
    using Cons.prems(15) d by (cases "domino_gates wk name d") simp_all
  obtain e where e: "q = Inr e" using Cons.prems(15) d g q by (cases q) simp_all
  have rc: "run_chain en wk i dm names (entries @ [e]) (aput name (le_output e) outputs) (le_link e) s1 w1
      = (Inr (entries @ es, outs, prev'), s', w')"
    using Cons.prems(15) d g q e by simp
  have okn: "okid name" and okns: "\<forall>n\<in>set names. okid n" using Cons.prems(9) by simp_all
  have dd: "d \<in> set ds" using d Cons.prems(10) by blast
  note k = run_domino_keeps [OF Cons.prems(1,5,6) okn q]
  note ent = run_domino_entry [OF Cons.prems(1,5,6) okn Cons.prems(8) dd Cons.prems(11) q [unfolded e]]
  note okk = run_domino_ok [OF Cons.prems(1,2,5,6) okn Cons.prems(8) dd Cons.prems(11) q [unfolded e]]
  have inv1: "inv s1" using k keeps_inv by blast
  have lnk: "oktext (le_link e)" using ent oktext_hash by (simp add: entry_of_def)
  from run_chain_laws [OF inv1 Cons.prems(5,6) lnk okns Cons.prems(10,11) rc]
  obtain es' where es: "es = e # es'" by auto
  have rc': "run_chain en wk i dm names (entries @ [e]) (aput name (le_output e) outputs) (le_link e) s1 w1
      = (Inr ((entries @ [e]) @ es', outs, prev'), s', w')"
    using rc es by simp
  have "memo t i name (le_input_hash e) = Some (le_output_hash e, le_output e)"
    using Cons.prems(16) es ent by (simp add: memoized_def entry_of_def)
  from run_domino_replay [OF Cons.prems(1-7) okn Cons.prems(8,12-14) q [unfolded e] this]
  obtain e2 t1 v1 where r2: "run_domino en ?ctx True d ?sn i name outputs prev t v = (Inr e2, t1, v1)"
    "replayed e e2" "inv t1" "ok t1" "snap t1 = snap t" "keeps t t1" by blast
  have pay: "stored_payload s1 i = Some data" "stored_payload t1 i = Some data"
    using okk r2(5) Cons.prems(13,14) by (simp_all add: stored_payload_def)
  have mem: "list_all (memoized t1) es'"
    using Cons.prems(16) es keeps_memoized [OF r2(6)] by (auto simp: list_all_iff)
  from Cons.IH [OF inv1 _ r2(3,4) Cons.prems(5-7) lnk okns Cons.prems(10-12) pay rc' mem,
      of "entriesB @ [e2]" v1] okk
  obtain es2 t' v' where
    "run_chain en wk i dm names (entriesB @ [e2]) (aput name (le_output e) outputs) (le_link e) t1 v1
       = (Inr ((entriesB @ [e2]) @ es2, outs, prev'), t', v')" "list_all2 replayed es' es2" by auto
  then have "run_chain en wk i dm (name # names) entriesB outputs prev t v
      = (Inr (entriesB @ (e2 # es2), outs, prev'), t', v')"
    using d g r2(1) replayed_fields(4,7) [OF r2(2)] by simp
  moreover have "list_all2 replayed es (e2 # es2)"
    using \<open>list_all2 replayed es' es2\<close> r2(2) es by simp
  ultimately show ?case by blast
qed

lemma run_chain_ok:
  assumes "inv s" "ok s" "en_store en = B" "okid i" "oktext prev" "\<forall>n\<in>set names. okid n"
    and "\<forall>n d. map_of dm n = Some d \<longrightarrow> d \<in> set ds" "texts_ok oktext en ds"
    and "run_chain en wk i dm names entries outputs prev s w = (Inr r, s', w')"
  shows "ok s'"
  using assms
proof (induction names arbitrary: entries outputs prev s w)
  case (Cons name names)
  from Cons.prems(9) obtain d e s1 w1 where d: "map_of dm name = Some d"
    and q: "run_domino en (''domino '' @ quote name @ '' '') True d (ws_snapshot (wf_spec wk)) i name outputs prev s w
      = (Inr e, s1, w1)"
    and rc: "run_chain en wk i dm names (entries @ [e]) (aput name (le_output e) outputs) (le_link e) s1 w1
      = (Inr r, s', w')"
    by (auto split: option.splits sum.splits prod.splits)
  have okn: "okid name" and okns: "\<forall>n\<in>set names. okid n" using Cons.prems(6) by simp_all
  have dd: "d \<in> set ds" using d Cons.prems(7) by blast
  note ent = run_domino_entry [OF Cons.prems(1,3,4) okn Cons.prems(5) dd Cons.prems(8) q]
  note okk = run_domino_ok [OF Cons.prems(1,2,3,4) okn Cons.prems(5) dd Cons.prems(8) q]
  have inv1: "inv s1" using run_domino_keeps [OF Cons.prems(1,3,4) okn q] keeps_inv by blast
  have lnk: "oktext (le_link e)" using ent oktext_hash by (simp add: entry_of_def)
  show ?case using Cons.IH [OF inv1 _ Cons.prems(3,4) lnk okns Cons.prems(7,8) rc] okk by simp
qed simp

lemma resolve_inline:
  assumes "sn_status sn = None" "src_inline (ss_source (sn_spec sn)) = Some inl"
  shows "resolve_prefer_store B sn '''' s w = ((case json_marshal (GMap inl) of
      Inl e \<Rightarrow> Inl (wrapf ''marshal snapshot content'' e) | Inr raw \<Rightarrow> Inr (GMap inl, raw, '''')), s, w)"
  using assms
  by (simp add: resolve_prefer_store_def resolved_id_def load_data_prefer_store_def
      resolve_engine_content_def resolve_content_def Let_def split: sum.splits)

text \<open>
  A workflow with an inline source run twice on a store without faults: the second run
  executes nothing and repeats the first.
\<close>

lemma run_replay:
  assumes "inv s" "ok s" "en_store en = B" "\<forall>n\<in>set (w_chain wk). okid n"
    and "texts_ok oktext en (ws_dominos (wf_spec wk))"
    and "oktext (ss_time_slice (sn_spec (ws_snapshot (wf_spec wk))))"
    and "sn_status (ws_snapshot (wf_spec wk)) = None"
    and "src_inline (ss_source (sn_spec (ws_snapshot (wf_spec wk)))) = Some inl"
    and "run en wk s w = (Inr res, s', w')" "\<forall>raw. json_marshal (GMap inl) = Inr raw \<longrightarrow> oktext raw"
  shows "\<exists>res2 t' v'. run en wk s' v = (Inr res2, t', v')
    \<and> list_all2 replayed (rr_entries res) (rr_entries res2)
    \<and> rr_snapshot_id res2 = rr_snapshot_id res \<and> rr_head_link res2 = rr_head_link res
    \<and> rr_final_output res2 = rr_final_output res \<and> rr_work_evaluations res2 = 0"
proof -
  let ?sn = "ws_snapshot (wf_spec wk)"
  let ?ts = "ss_time_slice (sn_spec ?sn)"
  note inline = resolve_inline [OF assms(7,8)]
  have sealed: "ss_sealed (sn_spec ?sn)" using assms(9) by (auto simp: run_def Let_def split: if_splits)
  obtain raw where raw: "json_marshal (GMap inl) = Inr raw"
    using assms(3,9) sealed inline [of s w]
    by (cases "json_marshal (GMap inl)") (auto simp: run_def Let_def)
  obtain i where id: "run_identity ?sn (GMap inl) '''' = Inr i"
    using assms(3,9) sealed inline [of s w] raw
    by (cases "run_identity ?sn (GMap inl) ''''") (auto simp: run_def Let_def)
  have sid: "snapshot_id ?ts (GMap inl) = Inr i" using run_identity_Inr [OF id] .
  have oki: "okid i" using sid okid_snapshot_id by blast
  obtain u s2 where u: "b_save_snapshot B i ?ts raw True s = (u, s2)" by fastforce
  have uu: "u = Inr ()" and rd: "run_dominos en wk i s2 w = (Inr res, s', w')"
    using assms(3,9) sealed inline [of s w] raw id u by (cases u; simp add: run_def Let_def)+
  have k2: "keeps s s2" by (rule save_snapshot_keeps [OF assms(1) oki u])
  have ok2: "ok s2" using save_snapshot_ok [OF assms(1,2) oki assms(6) u] by simp
  have snap2: "snap s2 i = Some (?ts, raw, True)"
    using save_snapshot_sound [OF assms(1) oki assms(6) assms(10) [rule_format, OF raw]] u uu by simp
  have rl: "keeps s2 s'" using run_dominos_laws [OF keeps_inv [OF k2] assms(3) oki assms(4,5) rd] by blast
  have inv': "inv s'" using rl keeps_inv by blast
  have snap': "snap s' i = Some (?ts, raw, True)" using rl snap2 oki by (simp add: keeps_def)
  obtain dm where dm: "domino_map (ws_dominos (wf_spec wk)) = Inr dm"
    using rd by (cases "domino_map (ws_dominos (wf_spec wk))") (simp_all add: run_dominos_def)
  have gates: "w_chain wk \<noteq> []" "unique_names (w_chain wk) = Inr ()"
    using rd dm by (auto simp: run_dominos_def split: if_splits sum.splits)
  have dms: "\<forall>n d. map_of dm n = Some d \<longrightarrow> d \<in> set (ws_dominos (wf_spec wk))"
    using domino_map_sub [OF dm] by blast
  obtain es outs prev' where rc: "run_chain en wk i dm (w_chain wk) [] [] i s2 w = (Inr (es, outs, prev'), s', w')"
    and res: "res = run_summary en wk i dm es outs prev'"
    using rd dm gates by (auto simp: run_dominos_def split: sum.splits prod.splits)
  from run_chain_laws [OF keeps_inv [OF k2] assms(3) oki oktext_id [OF oki] assms(4) dms assms(5) rc]
  have mem: "list_all (memoized s') es" by auto
  have ok': "ok s'"
    using run_chain_ok [OF keeps_inv [OF k2] ok2 assms(3) oki oktext_id [OF oki] assms(4) dms assms(5) rc] .
  obtain u2 t2 where u2: "b_save_snapshot B i ?ts raw True s' = (u2, t2)" by fastforce
  have ok_t: "ok t2" "u2 = Inr ()"
    using save_snapshot_ok [OF inv' ok' oki assms(6) u2] snap' by auto
  have k_t: "keeps s' t2" by (rule save_snapshot_keeps [OF inv' oki u2])
  have snap_t: "snap t2 i = Some (?ts, raw, True)" using k_t snap' oki by (simp add: keeps_def)
  have ne: "raw \<noteq> ''''" by (rule json_marshal_map_not_Nil [OF raw])
  have pay: "stored_payload s2 i = Some raw" "stored_payload t2 i = Some raw"
    using snap2 snap_t ne by (simp_all add: stored_payload_def)
  have mem_t: "list_all (memoized t2) es" using mem keeps_memoized [OF k_t] by (auto simp: list_all_iff)
  have rc0: "run_chain en wk i dm (w_chain wk) [] [] i s2 w = (Inr ([] @ es, outs, prev'), s', w')"
    using rc by simp
  from run_chain_replay [where entriesB = "[]" and v = v, OF keeps_inv [OF k2] ok2 keeps_inv [OF k_t]
      ok_t(1) assms(3) oki snapshot_id_not_Nil [OF sid] oktext_id [OF oki] assms(4) dms assms(5,7) pay rc0 mem_t]
  obtain es2 t' v' where rc2: "run_chain en wk i dm (w_chain wk) [] [] i t2 v = (Inr (es2, outs, prev'), t', v')"
    and rep: "list_all2 replayed es es2" by auto
  have "run en wk s' v = (Inr (run_summary en wk i dm es2 outs prev'), t', v')"
    using sealed assms(3) inline [of s' v] raw id u2 ok_t(2) dm gates rc2
    by (simp add: run_def run_dominos_def Let_def)
  moreover have "lw_evaluations (work_from_replay es2) = 0"
  proof -
    have "list_all le_reused es2"
      using rep by (induction rule: list_all2_induct) (auto dest: replayed_fields(5))
    then show ?thesis by (simp add: work_from_replay_eq list_all_iff filter_empty_conv)
  qed
  ultimately show ?thesis using rep res by (simp add: run_summary_def Let_def)
qed

end

end
