(* ===== verification/Runs.thy ===== *)
theory Runs
  imports Engine
begin

text \<open>
  The engine on its default store: the properties of \<open>Run\<close> and \<open>RunSingleFrom\<close> over the
  SQLite backend, obtained from the lemmas of \<open>Engine\<close> through the interpretation
  \<open>sqlite\<close> of the store contract.  They hold under every schedule of driver failures.
\<close>

abbreviation sql_engine :: "exec_cfg \<Rightarrow> sqlite engine" where
  "sql_engine cfg \<equiv> new_engine sqlite_backend cfg"

lemma sql_engine_store [simp]: "en_store (sql_engine cfg) = sqlite_backend"
  by (simp add: new_engine_def)

lemma texts_ok_True [simp]: "texts_ok (\<lambda>_. True) en ds"
  by (simp add: texts_ok_def)

section \<open>Concrete inputs\<close>

text \<open>A one-domino workflow over an inline snapshot, for the witnesses.\<close>

definition demo_domino :: domino where
  "demo_domino = zero_domino\<lparr>d_meta := zero_meta\<lparr>m_name := ''a''\<rparr>,
     d_spec := zero_dom_spec\<lparr>ds_command := ''builtin:identity''\<rparr>\<rparr>"

definition demo_workflow :: workflow where
  "demo_workflow = \<lparr>wf_api_version = '''', wf_kind = ''Workflow'', wf_meta = zero_meta\<lparr>m_name := ''w''\<rparr>,
     wf_spec = \<lparr>ws_snapshot = zero_snapshot\<lparr>sn_spec := zero_snap_spec\<lparr>ss_time_slice := ''t'',
         ss_source := zero_source\<lparr>src_inline := Some []\<rparr>, ss_sealed := True\<rparr>\<rparr>,
       ws_dominos = [demo_domino],
       ws_execution = \<lparr>ex_chain = [''a''], ex_deterministic = True\<rparr>,
       ws_provisioning = zero_provisioning, ws_routing = zero_routing\<rparr>\<rparr>"

definition demo_cfg :: exec_cfg where
  "demo_cfg = \<lparr>ec_julia = \<lparr>jc_bin = ''julia'', jc_project = ''p''\<rparr>\<rparr>"

lemma sq_empty_inv [simp]: "sq_inv sq_empty" "sq_ok sq_empty"
  by (simp_all add: sq_inv_def sq_ok_def sq_empty_def no_faults_def)

lemma demo_marshal: "json_marshal (GMap []) = Inr ''{}''"
  by (simp add: json_marshal_def)

lemma demo_unmarshal: "json_unmarshal ''{}'' = Inr (GMap [])"
  by (simp add: json_unmarshal_def json_val.simps json_members.simps skip_ws_def json_ws_def
      expect_def json_max_depth_def)

lemma demo_snapshot_id: "\<exists>i. snapshot_id ''t'' (GMap []) = Inr i"
  by (simp add: snapshot_id_def id_payload_def compute_def json_marshal_def json_string_def
      json_esc.simps sort_key_def)

lemma demo_execute: "execute cfg ''builtin:identity'' ''{}'' w = (Inr ''{}'', w)"
  by (simp add: execute_def has_prefix_def builtin_execute_def bi_identity_def demo_unmarshal demo_marshal)

text \<open>A workflow of that shape, with or without the identity of its snapshot.\<close>

definition identity_workflow :: "workflow \<Rightarrow> bool" where
  "identity_workflow wk \<longleftrightarrow> (let sn = ws_snapshot (wf_spec wk) in
     (\<exists>d. ws_dominos (wf_spec wk) = [d] \<and> d_name d = ''a'' \<and> ds_command (d_spec d) = ''builtin:identity''
        \<and> ds_inputs (d_spec d) = [] \<and> ds_depends_on (d_spec d) = [])
     \<and> w_chain wk = [''a''] \<and> src_inline (ss_source (sn_spec sn)) = Some [] \<and> ss_sealed (sn_spec sn)
     \<and> ss_time_slice (sn_spec sn) = ''t''
     \<and> (sn_status sn = None \<or> (\<exists>st. sn_status sn = Some st \<and> snapshot_id ''t'' (GMap []) = Inr (sst_id st))))"

text \<open>A store that holds the sealed empty snapshot, and one step on it.\<close>

definition seeded :: "string \<Rightarrow> sqlite" where
  "seeded i = sq_empty\<lparr>sq_snaps := [(i, ''t'', ''{}'', True)]\<rparr>"

lemma seeded_inv [simp]: "sq_inv (seeded i)" "sq_ok (seeded i)"
  by (simp_all add: sq_inv_def sq_ok_def sq_empty_def no_faults_def seeded_def)

lemma seeded_save: "sq_save_snapshot i ''t'' ''{}'' True sq_empty = (Inr (), seeded i)"
  by (simp add: sq_save_snapshot_def sq_get_snapshot_def sq_call_def sq_empty_def refuse_sealed_mutation_def seeded_def)

definition identity_domino :: "domino \<Rightarrow> bool" where
  "identity_domino d \<longleftrightarrow> ds_command (d_spec d) = ''builtin:identity'' \<and> ds_inputs (d_spec d) = [] \<and> ds_depends_on (d_spec d) = []"

lemma identity_step:
  assumes "identity_domino d" "resolved_id sn i = i" "i \<noteq> ''''"
  shows "\<exists>e s' w'. run_domino (sql_engine cfg) c b d sn i n [] i (seeded i) w = (Inr e, s', w') \<and> length (le_output_hash e) = 64"
proof -
  have inp: "resolve_inputs (sql_engine cfg) d sn i [] (seeded i) w = (Inr ''{}'', seeded i, w)"
    using assms by (simp add: resolve_inputs_def resolve_prefer_store_def identity_domino_def
        load_data_prefer_store_def sqlite_backend_def sq_get_data_def sq_get_snapshot_def sq_call_def
        sq_empty_def seeded_def demo_unmarshal combine_inputs_def demo_marshal new_engine_def)
  have d: "ds_command (d_spec d) = ''builtin:identity''" using assms(1) by (simp add: identity_domino_def)
  show ?thesis unfolding run_domino_def inp
    by (simp add: Let_def split_def memo_or_execute_def sqlite_backend_def seeded_def
        sq_lookup_memo_def sq_call_def sq_empty_def execute_domino_def d
        new_engine_def demo_execute attach_spine_def sq_save_result_def sq_save_tx_def sq_save_memo_def
        sq_insert_result_def refuse_memo_conflict_def entry_row_def)
qed

lemma identity_chain:
  assumes wk: "identity_workflow wk" "ws_dominos (wf_spec wk) = [d]" and i: "snapshot_id ''t'' (GMap []) = Inr i"
  shows "\<exists>s r s' w'. sq_inv s \<and> sq_ok s \<and> sq_save_snapshot i ''t'' ''{}'' True sq_empty = (Inr (), s)
    \<and> run_chain (sql_engine cfg) wk i [(''a'', d)] [''a''] [] [] i s w = (Inr r, s', w')"
proof -
  have ne: "i \<noteq> ''''" using snapshot_id_not_Nil [OF i] .
  have sn: "resolved_id (ws_snapshot (wf_spec wk)) i = i"
    using wk(1) i by (auto simp: identity_workflow_def Let_def resolved_id_def)
  have d: "d_name d = ''a''" "identity_domino d" "w_chain wk = [''a'']"
    using wk by (auto simp: identity_workflow_def identity_domino_def Let_def)
  have gates: "domino_gates wk ''a'' d = Inr ()"
    using d(2,3) by (simp add: domino_gates_def allow_deterministic_def identity_domino_def
        command_regularity_def has_prefix_def allowed_reads_def index_of_def domino_reads_def)
  have "\<exists>r s' w'. run_chain (sql_engine cfg) wk i [(''a'', d)] [''a''] [] [] i (seeded i) w = (Inr r, s', w')"
    using identity_step [OF d(2) sn ne, of cfg "''domino '' @ quote ''a'' @ '' ''" True "''a''" w] gates by auto
  then show ?thesis using seeded_save seeded_inv by blast
qed

lemma identity_run:
  assumes "identity_workflow wk"
  shows "\<exists>res s' w'. run (sql_engine cfg) wk sq_empty w = (Inr res, s', w')"
proof -
  let ?sn = "ws_snapshot (wf_spec wk)"
  obtain i where i: "snapshot_id ''t'' (GMap []) = Inr i" using demo_snapshot_id by blast
  have ne: "i \<noteq> ''''" using snapshot_id_not_Nil [OF i] .
  obtain d where d: "ws_dominos (wf_spec wk) = [d]" "d_name d = ''a''" using assms by (auto simp: identity_workflow_def Let_def)
  have sn: "src_inline (ss_source (sn_spec ?sn)) = Some []" "ss_sealed (sn_spec ?sn)" "ss_time_slice (sn_spec ?sn) = ''t''"
    "w_chain wk = [''a'']" "resolved_id ?sn '''' = '''' \<or> resolved_id ?sn '''' = i"
    using assms i by (auto simp: identity_workflow_def Let_def resolved_id_def split: if_splits)
  obtain s r s' w' where save: "sq_save_snapshot i ''t'' ''{}'' True sq_empty = (Inr (), s)"
    and rc: "run_chain (sql_engine cfg) wk i [(''a'', d)] [''a''] [] [] i s w = (Inr r, s', w')"
    using identity_chain [OF assms d(1) i] by blast
  have rs: "resolve_prefer_store sqlite_backend ?sn '''' sq_empty w = (Inr (GMap [], ''{}'', resolved_id ?sn ''''), sq_empty, w)"
    using sn(1) by (simp add: resolve_prefer_store_def load_data_prefer_store_def sqlite_backend_def sq_get_data_def
        sq_get_snapshot_def sq_call_def sq_empty_def resolve_engine_content_def resolve_content_def demo_marshal Let_def
        is_snapshot_not_found_def is_no_rows_def err_no_rows_def)
  have ri: "run_identity ?sn (GMap []) (resolved_id ?sn '''') = Inr i"
    using sn(3,5) i ne by (auto simp: run_identity_def assert_snapshot_id_def)
  have dm: "domino_map [d] = Inr [(''a'', d)]" using d(2) by (simp add: domino_map_def)
  have "\<exists>r. run_dominos (sql_engine cfg) wk i s w = (Inr r, s', w')"
    using rc dm d sn(4) by (cases r) (simp add: run_dominos_def unique_names_def del: run_chain.simps)
  then show ?thesis using sn(2,3) save rs ri by (auto simp: run_def Let_def sqlite_backend_def new_engine_def)
qed

lemma demo_identity: "identity_workflow demo_workflow" "ws_dominos (wf_spec demo_workflow) = [demo_domino]"
  by (simp_all add: identity_workflow_def demo_workflow_def demo_domino_def zero_defs)

text \<open>The demo chain and the demo workflow run to the end.\<close>

lemma demo_chain: "\<exists>i s r s' w'. i \<noteq> '''' \<and> sq_inv s \<and> sq_ok s
    \<and> snapshot_id ''t'' (GMap []) = Inr i \<and> sq_save_snapshot i ''t'' ''{}'' True sq_empty = (Inr (), s)
    \<and> run_chain (sql_engine demo_cfg) demo_workflow i [(''a'', demo_domino)] [''a''] [] [] i s w = (Inr r, s', w')"
  using demo_snapshot_id identity_chain [OF demo_identity] snapshot_id_not_Nil by metis

lemma demo_run: "\<exists>res s' w'. run (sql_engine demo_cfg) demo_workflow sq_empty w = (Inr res, s', w')"
  by (rule identity_run [OF demo_identity(1)])

section \<open>Nothing recorded changes\<close>

lemma sqlite_keeps_iff: "sqlite.keeps s s' \<longleftrightarrow> sq_inv s'
    \<and> (\<forall>i t d. sq_snap s i = Some (t, d, True) \<longrightarrow> sq_snap s' i = Some (t, d, True))
    \<and> (\<forall>i d h v. sq_memo s i d h = Some v \<longrightarrow> sq_memo s' i d h = Some v)"
  by (simp add: sqlite.keeps_def)

text \<open>
  C1 Running a workflow never rewrites history.  Whatever the workflow, the executor, the
  schedule of database failures and the outcome (an error included), every sealed snapshot
  and every memoized output present before the run is there, unchanged, after it.
\<close>

theorem run_never_rewrites_history:
  assumes "sq_inv s" "run (sql_engine cfg) wk s w = (r, s', w')"
  shows "sq_inv s'
    \<and> (\<forall>i t d. sq_snap s i = Some (t, d, True) \<longrightarrow> sq_snap s' i = Some (t, d, True))
    \<and> (\<forall>i d h v. sq_memo s i d h = Some v \<longrightarrow> sq_memo s' i d h = Some v)"
  using sqlite.run_laws [OF assms(1) sql_engine_store _ _ assms(2)] by (simp add: sqlite_keeps_iff)

lemma run_never_rewrites_history_witness: "case run (sql_engine demo_cfg) demo_workflow sq_empty no_world of (r, s', w') \<Rightarrow>
    sq_inv s' \<and> (\<forall>i t d. sq_snap sq_empty i = Some (t, d, True) \<longrightarrow> sq_snap s' i = Some (t, d, True))
    \<and> (\<forall>i d h v. sq_memo sq_empty i d h = Some v \<longrightarrow> sq_memo s' i d h = Some v)"
  using run_never_rewrites_history [OF sq_empty_inv(1), of demo_cfg demo_workflow no_world]
  by (auto split: prod.splits)

text \<open>
  C9 A failing run leaves an auditable log: on every outcome the replay rows of at most one
  snapshot grow, and what is appended is a verified spine from that snapshot over a prefix
  of the chain, every entry of it memoized.
\<close>

theorem run_appends_verified_prefix:
  assumes "sq_inv s" "run (sql_engine cfg) wk s w = (r, s', w')"
  shows "\<exists>i es. (\<forall>j. j \<noteq> i \<longrightarrow> sq_rows s' j = sq_rows s j)
    \<and> sq_rows s' i = sq_rows s i @ map entry_row es
    \<and> verify_spine i es = Inr () \<and> map le_domino_id es = take (length es) (w_chain wk)
    \<and> list_all (\<lambda>e. sq_memo s' (le_snapshot_id e) (le_domino_id e) (le_input_hash e)
          = Some (le_output_hash e, le_output e)) es"
proof -
  from sqlite.run_laws [OF assms(1) sql_engine_store _ _ assms(2)]
  obtain i es where "\<forall>j. j \<noteq> i \<longrightarrow> sq_rows s' j = sq_rows s j"
    "sq_rows s' i = sq_rows s i @ map entry_row es" "verify_spine i es = Inr ()"
    "map le_domino_id es = take (length es) (w_chain wk)" "list_all (sqlite.memoized s') es" by auto
  then show ?thesis by (intro exI [of _ i] exI [of _ es]) (simp add: sqlite.memoized_def list_all_iff)
qed

lemma run_appends_verified_prefix_witness:
  "case run (sql_engine demo_cfg) demo_workflow sq_empty no_world of (r, s', w') \<Rightarrow>
     \<exists>i es. sq_rows s' i = map entry_row es \<and> verify_spine i es = Inr ()
       \<and> map le_domino_id es = take (length es) (w_chain demo_workflow)"
proof -
  obtain r s' w' where r: "run (sql_engine demo_cfg) demo_workflow sq_empty no_world = (r, s', w')"
    by (metis prod_cases3)
  have "sq_rows sq_empty i = []" for i by (simp add: sq_rows_def sq_empty_def)
  with run_appends_verified_prefix [OF sq_empty_inv(1) r] r show ?thesis by fastforce
qed


text \<open>
  C19 A successful run is fully recorded: its result is a faithful log of the chain (one
  entry per domino in chain order, a verified spine whose head is the head link, the last
  output as the final output, work split into evaluations and reuses), the store gained
  exactly the rows of those entries, every entry is memoized, and the snapshot is stored
  sealed under the content-addressed identity of the run.
\<close>

theorem run_success_recorded:
  assumes "sq_inv s" "run (sql_engine cfg) wk s w = (Inr res, s', w')"
  shows "faithful_log wk res
    \<and> sq_rows s' (rr_snapshot_id res) = sq_rows s (rr_snapshot_id res) @ map entry_row (rr_entries res)
    \<and> list_all (\<lambda>e. sq_memo s' (rr_snapshot_id res) (le_domino_id e) (le_input_hash e)
          = Some (le_output_hash e, le_output e)) (rr_entries res)
    \<and> (\<exists>content data. snapshot_id (ss_time_slice (sn_spec (ws_snapshot (wf_spec wk)))) content = Inr (rr_snapshot_id res)
         \<and> sq_snap s' (rr_snapshot_id res) = Some (ss_time_slice (sn_spec (ws_snapshot (wf_spec wk))), data, True))"
proof -
  from sqlite.run_laws [OF assms(1) sql_engine_store _ _ assms(2)]
  have rl: "faithful_log wk res"
    "sq_rows s' (rr_snapshot_id res) = sq_rows s (rr_snapshot_id res) @ map entry_row (rr_entries res)"
    "list_all (sqlite.memoized s') (rr_entries res)" by auto
  from rl(1) have "list_all (\<lambda>e. le_snapshot_id e = rr_snapshot_id res) (rr_entries res)"
    by (simp add: faithful_log_def)
  with rl(3) have "list_all (\<lambda>e. sq_memo s' (rr_snapshot_id res) (le_domino_id e) (le_input_hash e)
          = Some (le_output_hash e, le_output e)) (rr_entries res)"
    by (simp add: list_all_iff sqlite.memoized_def)
  with rl sqlite.run_seals [OF assms(1) sql_engine_store _ _ _ assms(2)] show ?thesis by auto
qed

lemma run_success_recorded_witness:
  "\<exists>res s' w'. run (sql_engine demo_cfg) demo_workflow sq_empty no_world = (Inr res, s', w')
     \<and> faithful_log demo_workflow res"
proof -
  from demo_run obtain res s' w' where r: "run (sql_engine demo_cfg) demo_workflow sq_empty no_world = (Inr res, s', w')"
    by blast
  with run_success_recorded [OF sq_empty_inv(1) r] show ?thesis by blast
qed


section \<open>Running again\<close>

text \<open>
  C18 Replay is exact and free: on a store without faults, running a workflow with an inline
  snapshot a second time succeeds in any later world, executes nothing, and repeats every
  entry of the first run (hashes, outputs, links) marked as reused, with the same snapshot
  identity, head link and final output.
\<close>

theorem run_twice_reuses_everything:
  assumes "sq_inv s" "sq_ok s" "sn_status (ws_snapshot (wf_spec wk)) = None"
    and "src_inline (ss_source (sn_spec (ws_snapshot (wf_spec wk)))) = Some inl"
    and "run (sql_engine cfg) wk s w = (Inr res, s', w')"
  shows "\<exists>res2 t' v'. run (sql_engine cfg) wk s' v = (Inr res2, t', v')
    \<and> list_all2 replayed (rr_entries res) (rr_entries res2)
    \<and> rr_snapshot_id res2 = rr_snapshot_id res \<and> rr_head_link res2 = rr_head_link res
    \<and> rr_final_output res2 = rr_final_output res \<and> rr_work_evaluations res2 = 0"
  by (rule sqlite.run_replay [OF assms(1,2) sql_engine_store _ _ _ assms(3-5)]) simp_all

lemma run_twice_reuses_everything_witness:
  "\<exists>res s' w' res2 t' v'. run (sql_engine demo_cfg) demo_workflow sq_empty no_world = (Inr res, s', w')
     \<and> run (sql_engine demo_cfg) demo_workflow s' no_world = (Inr res2, t', v')
     \<and> rr_head_link res2 = rr_head_link res \<and> rr_work_evaluations res2 = 0"
proof -
  from demo_run obtain res s' w' where r: "run (sql_engine demo_cfg) demo_workflow sq_empty no_world = (Inr res, s', w')"
    by blast
  have "sn_status (ws_snapshot (wf_spec demo_workflow)) = None"
    "src_inline (ss_source (sn_spec (ws_snapshot (wf_spec demo_workflow)))) = Some []"
    by (simp_all add: demo_workflow_def zero_defs)
  from run_twice_reuses_everything [OF sq_empty_inv this r, of no_world] r show ?thesis by blast
qed


section \<open>Stepwise execution\<close>

lemma memo_or_execute_ctx:
  "memo_or_execute en c b d e inp s w = (Inr e', s', w') \<Longrightarrow> memo_or_execute en c' b' d e inp s w = (Inr e', s', w')"
  by (auto simp: memo_or_execute_def split: sum.splits prod.splits option.splits)

lemma run_domino_ctx:
  "run_domino en c b d sn i n prior prev s w = (Inr e, s', w')
     \<Longrightarrow> run_domino en c' b' d sn i n prior prev s w = (Inr e, s', w')"
proof -
  assume r: "run_domino en c b d sn i n prior prev s w = (Inr e, s', w')"
  obtain q s1 w1 where q: "resolve_inputs en d sn i prior s w = (q, s1, w1)" by (metis prod_cases3)
  obtain inp where inp: "q = Inr inp" using r q by (cases q) (auto simp: run_domino_def)
  obtain t w2 where t: "time_now w1 = (t, w2)" by fastforce
  define e0 where "e0 = \<lparr>le_timestamp = t, le_snapshot_id = i, le_domino_id = n,
      le_input_hash = compute_str inp, le_output_hash = '''', le_reused = False, le_output = '''',
      le_regularity = reg_string (command_regularity (ds_command (d_spec d))),
      le_prev_link = '''', le_link = ''''\<rparr>"
  obtain m s2 w3 where m: "memo_or_execute en c b d e0 inp s1 w2 = (m, s2, w3)" by (metis prod_cases3)
  obtain e1 where e1: "m = Inr e1"
    using r q inp t m e0_def by (cases m) (simp_all add: run_domino_def Let_def)
  have m': "memo_or_execute en c' b' d e0 inp s1 w2 = (Inr e1, s2, w3)"
    by (rule memo_or_execute_ctx [OF m [unfolded e1]])
  from r q inp t m e1 m' show "run_domino en c' b' d sn i n prior prev s w = (Inr e, s', w')"
    by (auto simp: run_domino_def Let_def e0_def attach_spine_def split: sum.splits prod.splits)
qed



section \<open>Impurity\<close>

text \<open>
  Isolation is a cage, not a proof of purity: in an isolated sandbox the gate admits
  \<open>sandbox:impure\<close>, yet executing it twice in a row on the same input always produces two
  different outputs.
\<close>

theorem sandbox_admits_impure:
  assumes "isolated p"
  shows "allow_deterministic ''sandbox:impure'' p = Inr ()
    \<and> (\<exists>o1 o2. fst (execute cfg ''sandbox:impure'' inp w) = Inr o1
         \<and> fst (execute cfg ''sandbox:impure'' inp (snd (execute cfg ''sandbox:impure'' inp w))) = Inr o2
         \<and> o1 \<noteq> o2)"
proof -
  define w1 where "w1 = snd (sandbox_impure w)"
  let ?out = "\<lambda>w. ''{\"t\":'' @ int_str (w_clock w (w_tick w)) @ '',\"n\":'' @ nat_str (unat (w_impure w + 1)) @ ''}''"
  have ex: "execute cfg ''sandbox:impure'' inp v = sandbox_impure v" for v
    using execute_sandboxed [of cfg "''impure''" inp v] by simp
  have out: "fst (sandbox_impure v) = Inr (?out v)" for v
    by (simp add: sandbox_impure_def time_now_def Let_def)
  have imp: "w_impure w1 = w_impure w + 1"
    by (simp add: w1_def sandbox_impure_def time_now_def Let_def)
  have "?out w \<noteq> ?out w1"
  proof
    assume "?out w = ?out w1"
    then have "(''{\"t\":'' @ int_str (w_clock w (w_tick w)) @ '',\"n\"'') @ CHR '':'' # nat_str (unat (w_impure w + 1))
      = (''{\"t\":'' @ int_str (w_clock w1 (w_tick w1)) @ '',\"n\"'') @ CHR '':'' # nat_str (unat (w_impure w1 + 1))"
      by simp
    moreover have "CHR '':'' \<notin> set (nat_str n)" for n
      using nat_str_digits [of "CHR '':''" n] by auto
    ultimately have "nat_str (unat (w_impure w + 1)) = nat_str (unat (w_impure w1 + 1))"
      by (blast dest: split_last)
    then have "unat (w_impure w + 1) = unat (w_impure w1 + 1)" by simp
    then have "w_impure w + 1 = w_impure w1 + 1" by (simp only: word_unat_eq_iff)
    then show False using imp by simp
  qed
  moreover have "allow_deterministic ''sandbox:impure'' p = Inr ()"
    using assms by (simp add: allow_deterministic_iff)
  ultimately show ?thesis using out by (simp add: ex flip: w1_def)
qed

lemma sandbox_admits_impure_witness:
  "\<exists>o1 o2. fst (execute demo_cfg ''sandbox:impure'' ''{}'' no_world) = Inr o1
     \<and> fst (execute demo_cfg ''sandbox:impure'' ''{}'' (snd (execute demo_cfg ''sandbox:impure'' ''{}'' no_world))) = Inr o2
     \<and> o1 \<noteq> o2"
  using sandbox_admits_impure [of "\<lparr>sp_network_none = True, sp_read_only_root = True\<rparr>" demo_cfg "''{}''" no_world]
  by (simp add: isolated_def)

end
