(* ===== verification/Replica.thy ===== *)
theory Replica
  imports Sqlite
begin

text \<open>
  Cross-store read replicas (\<open>pkg/replica/materialize.go\<close>): the copy of a sealed snapshot and
  of the results of a domino chain from one store into another.  The two stores are separate
  states, each behind its own implementation; the lemmas hold for any two implementations of
  the store contract.
\<close>

section \<open>Materialize\<close>

record materialize_result =
  mz_snapshot_copied :: bool
  mz_domino_count :: int

text \<open>The record of one domino: its last replay row, or the latest result of older stores.\<close>

definition replica_record ::
  "'s backend \<Rightarrow> string \<Rightarrow> replay_row list \<Rightarrow> string \<Rightarrow> 's \<Rightarrow> replay_row res \<times> 's" where
  "replica_record src snapshotID rows dominoID s =
     (case last_spine_result rows dominoID of
        (rec, True) \<Rightarrow> (Inr rec, s)
      | (_, False) \<Rightarrow>
          (case b_get_latest src snapshotID dominoID s of
             (Inl e, s') \<Rightarrow> (Inl (wrapf (''missing domino '' @ quote dominoID @ '' on sealed snapshot '' @ snapshotID) e), s')
           | (Inr (inHash, outHash, out), s') \<Rightarrow>
               (Inr \<lparr>re_snapshot_id = snapshotID, re_domino_id = dominoID, re_input_hash = inHash,
                  re_output_hash = outHash, re_output = out, re_reused = False, re_prev_link = '''',
                  re_link = ''''\<rparr>, s')))"

fun copy_dominos ::
  "'s backend \<Rightarrow> 't backend \<Rightarrow> string \<Rightarrow> replay_row list \<Rightarrow> string list \<Rightarrow> int \<Rightarrow> 's \<Rightarrow> 't \<Rightarrow> int res \<times> 's \<times> 't" where
  "copy_dominos src tgt snapshotID rows [] n s t = (Inr n, s, t)"
| "copy_dominos src tgt snapshotID rows (d # ds) n s t =
     (case replica_record src snapshotID rows d s of
        (Inl e, s1) \<Rightarrow> (Inl e, s1, t)
      | (Inr rec, s1) \<Rightarrow>
          (case b_save_result tgt (rec\<lparr>re_snapshot_id := snapshotID, re_reused := False\<rparr>) t of
             (Inl e, t1) \<Rightarrow> (Inl (wrapf (''copy domino '' @ quote d) e), s1, t1)
           | (Inr _, t1) \<Rightarrow> copy_dominos src tgt snapshotID rows ds (n + 1) s1 t1))"

text \<open>A nil store is \<open>None\<close>.\<close>

definition materialize ::
  "'s backend option \<Rightarrow> 't backend option \<Rightarrow> string \<Rightarrow> string list \<Rightarrow> 's \<Rightarrow> 't
     \<Rightarrow> materialize_result res \<times> 's \<times> 't" where
  "materialize source tgt snapshotID chain s t =
     (case (source, tgt) of
        (Some src, Some tg) \<Rightarrow>
          if snapshotID = '''' then (Inl (errorf ''snapshot ID is required''), s, t)
          else (case b_get_snapshot src snapshotID s of
            (Inl e, s1) \<Rightarrow> (Inl (wrapf ''read source snapshot'' e), s1, t)
          | (Inr (timeSlice, data, sealed), s1) \<Rightarrow>
              if \<not> sealed
              then (Inl (errorf (''refusing to materialize unsealed snapshot '' @ snapshotID
                  @ '' (cross-universe signaling requires a sealed Cauchy view)'')), s1, t)
              else (case b_save_snapshot tg snapshotID timeSlice data True t of
                (Inl e, t1) \<Rightarrow> (Inl (wrapf ''write target snapshot'' e), s1, t1)
              | (Inr _, t1) \<Rightarrow>
                  (case b_list_replay src snapshotID s1 of
                     (Inl e, s2) \<Rightarrow> (Inl (wrapf ''read source replay'' e), s2, t1)
                   | (Inr rows, s2) \<Rightarrow>
                       (case copy_dominos src tg snapshotID rows chain 0 s2 t1 of
                          (Inl e, s3, t2) \<Rightarrow> (Inl e, s3, t2)
                        | (Inr n, s3, t2) \<Rightarrow>
                            (Inr \<lparr>mz_snapshot_copied = True, mz_domino_count = n\<rparr>, s3, t2)))))
      | _ \<Rightarrow> (Inl (errorf ''source and target stores are required''), s, t))"

section \<open>Any two stores\<close>

locale store_pair =
  src: store_laws A inva oka okida oktexta okhasha snapa memoa rowsa +
  tgt: store_laws B invb okb okidb oktextb okhashb snapb memob rowsb
  for A :: "'s backend" and inva :: "'s \<Rightarrow> bool" and oka :: "'s \<Rightarrow> bool"
    and okida :: "string \<Rightarrow> bool" and oktexta :: "string \<Rightarrow> bool" and okhasha :: "string \<Rightarrow> bool"
    and snapa :: "'s \<Rightarrow> string \<Rightarrow> (string \<times> string \<times> bool) option"
    and memoa :: "'s \<Rightarrow> string \<Rightarrow> string \<Rightarrow> string \<Rightarrow> (string \<times> string) option"
    and rowsa :: "'s \<Rightarrow> string \<Rightarrow> replay_row list"
    and B :: "'t backend" and invb :: "'t \<Rightarrow> bool" and okb :: "'t \<Rightarrow> bool"
    and okidb :: "string \<Rightarrow> bool" and oktextb :: "string \<Rightarrow> bool" and okhashb :: "string \<Rightarrow> bool"
    and snapb :: "'t \<Rightarrow> string \<Rightarrow> (string \<times> string \<times> bool) option"
    and memob :: "'t \<Rightarrow> string \<Rightarrow> string \<Rightarrow> string \<Rightarrow> (string \<times> string) option"
    and rowsb :: "'t \<Rightarrow> string \<Rightarrow> replay_row list"
begin

text \<open>The target can hold what the source has recorded on snapshot \<open>i\<close> for the chain.\<close>

definition portable :: "'s \<Rightarrow> string \<Rightarrow> string list \<Rightarrow> bool" where
  "portable s i ds \<longleftrightarrow> okida i \<and> okidb i \<and> (\<forall>d\<in>set ds. okida d \<and> okidb d)
     \<and> (\<forall>ts dt b. snapa s i = Some (ts, dt, b) \<longrightarrow> oktextb ts \<and> oktextb dt)
     \<and> (\<forall>r\<in>set (rowsa s i). okhashb (re_input_hash r) \<and> oktextb (re_output_hash r) \<and> oktextb (re_output r)
          \<and> oktextb (re_prev_link r) \<and> oktextb (re_link r))
     \<and> (\<forall>d h oh out. memoa s i d h = Some (oh, out) \<longrightarrow> okhashb h \<and> oktextb oh \<and> oktextb out) \<and> oktextb ''''"

text \<open>\<open>w\<close> is a copy of what the source has on \<open>d\<close>.\<close>

definition copy_of :: "'s \<Rightarrow> string \<Rightarrow> string \<Rightarrow> replay_row \<Rightarrow> bool" where
  "copy_of s i d w \<longleftrightarrow> re_snapshot_id w = i \<and> re_domino_id w = d \<and> \<not> re_reused w
     \<and> (case last_spine_result (rowsa s i) d of
          (r, True) \<Rightarrow> w = r\<lparr>re_snapshot_id := i, re_reused := False\<rparr>
        | (_, False) \<Rightarrow> memoa s i d (re_input_hash w) = Some (re_output_hash w, re_output w)
            \<and> re_prev_link w = '''' \<and> re_link w = '''')"

lemma last_spine_resultD:
  "last_spine_result rs d = (r, True) \<Longrightarrow> r \<in> set rs \<and> re_domino_id r = d"
  by (auto simp: last_spine_result_find dest: find_rev_SomeD split: option.splits)

lemma copy_of_portable:
  assumes "portable s i ds" "copy_of s i d w" "d \<in> set ds"
  shows "okidb (re_snapshot_id w)" "okidb (re_domino_id w)" "okhashb (re_input_hash w)"
    "oktextb (re_output_hash w)" "oktextb (re_output w)" "oktextb (re_prev_link w)" "oktextb (re_link w)"
proof -
  obtain r b where l: "last_spine_result (rowsa s i) d = (r, b)" by fastforce
  show "okidb (re_snapshot_id w)" "okidb (re_domino_id w)"
    using assms by (auto simp: portable_def copy_of_def)
  show "okhashb (re_input_hash w)" "oktextb (re_output_hash w)" "oktextb (re_output w)"
    "oktextb (re_prev_link w)" "oktextb (re_link w)"
    using assms l last_spine_resultD [of "rowsa s i" d r]
    by (cases b; fastforce simp: portable_def copy_of_def)+
qed

lemma replica_record_laws:
  assumes "inva s" "okida i" "okida d" "replica_record A i (rowsa s i) d s = (u, s')"
  shows "src.same s s' \<and> (\<forall>rec. u = Inr rec \<longrightarrow> copy_of s i d (rec\<lparr>re_snapshot_id := i, re_reused := False\<rparr>))"
proof -
  obtain r b where l: "last_spine_result (rowsa s i) d = (r, b)" by fastforce
  show ?thesis
  proof (cases b)
    case True
    with assms(4) l have "u = Inr r" "s' = s" by (simp_all add: replica_record_def)
    then show ?thesis using True l last_spine_resultD [of "rowsa s i" d r] src.same_refl [OF assms(1)]
      by (auto simp: copy_of_def)
  next
    case False
    obtain t s1 where g: "b_get_latest A i d s = (t, s1)" by fastforce
    have same: "src.same s s1" by (rule src.get_latest_same [OF assms(1) g])
    show ?thesis
    proof (cases t)
      case (Inl e)
      with assms(4) l False g same show ?thesis by (auto simp: replica_record_def)
    next
      case (Inr x)
      obtain ih oh out where x: "x = (ih, oh, out)" by (cases x)
      have "memoa s i d ih = Some (oh, out)"
        using src.get_latest_sound [OF assms(1-3), of ih oh out s1] g Inr x l False by simp
      with assms(4) l False g same Inr x show ?thesis by (auto simp: replica_record_def copy_of_def)
    qed
  qed
qed

lemma copy_dominos_laws:
  assumes "inva s" "invb t" "portable s i ds"
    and "copy_dominos A B i (rowsa s i) ds n s t = (u, s', t')"
  shows "src.same s s' \<and> tgt.keeps t t'
    \<and> (\<forall>j. j \<noteq> i \<longrightarrow> rowsb t' j = rowsb t j) \<and> snapb t' = snapb t
    \<and> (\<exists>ws. rowsb t' i = rowsb t i @ ws \<and> list_all2 (copy_of s i) (take (length ws) ds) ws
         \<and> (\<forall>w\<in>set ws. memob t' i (re_domino_id w) (re_input_hash w) = Some (re_output_hash w, re_output w))
         \<and> (\<forall>m. u = Inr m \<longrightarrow> m = n + int (length ds) \<and> length ws = length ds))"
  using assms
proof (induction ds arbitrary: n s t)
  case Nil
  then show ?case using src.same_refl tgt.keeps_refl by auto
next
  case (Cons d ds)
  obtain rr s1 where r: "replica_record A i (rowsa s i) d s = (rr, s1)" by fastforce
  have oki: "okida i" "okida d" using Cons.prems(3) by (simp_all add: portable_def)
  note rl = replica_record_laws [OF Cons.prems(1) oki r]
  then have same1: "src.same s s1" by simp
  show ?case
  proof (cases rr)
    case (Inl e)
    with Cons.prems(4) r have "u = Inl e" "s' = s1" "t' = t" by simp_all
    then show ?thesis using same1 tgt.keeps_refl [OF Cons.prems(2)] by auto
  next
    case (Inr rec)
    define w where "w = rec\<lparr>re_snapshot_id := i, re_reused := False\<rparr>"
    have cw: "copy_of s i d w" using rl Inr by (simp add: w_def)
    note pw = copy_of_portable [OF Cons.prems(3) cw, simplified]
    have wi: "re_snapshot_id w = i" "re_domino_id w = d" "\<not> re_reused w" using cw by (simp_all add: copy_of_def)
    obtain v t1 where v: "b_save_result B w t = (v, t1)" by fastforce
    have k1: "tgt.keeps t t1" by (rule tgt.save_result_keeps [OF Cons.prems(2) pw(1,2,3) v])
    have f1: "snapb t1 = snapb t" "\<forall>j. j \<noteq> i \<longrightarrow> rowsb t1 j = rowsb t j" "v \<noteq> Inr () \<longrightarrow> rowsb t1 = rowsb t"
      using tgt.save_result_frame_h [OF Cons.prems(2) pw(1,2,3) v] wi by simp_all
    show ?thesis
    proof (cases v)
      case (Inl e)
      with Cons.prems(4) r Inr v have "u = Inl (wrapf (''copy domino '' @ quote d) e)" "s' = s1" "t' = t1"
        by (simp_all add: w_def)
      moreover have "rowsb t1 = rowsb t" using f1(3) Inl by simp
      ultimately show ?thesis using same1 k1 f1 by auto
    next
      case (Inr x)
      then have vo: "b_save_result B w t = (Inr (), t1)" using v by simp
      note snd1 = tgt.save_result_sound_h [OF Cons.prems(2) pw(1-7) vo]
      have rest: "copy_dominos A B i (rowsa s i) ds (n + 1) s1 t1 = (u, s', t')"
        using Cons.prems(4) r \<open>rr = Inr rec\<close> vo by (simp add: w_def)
      have s1v: "inva s1" "rowsa s1 = rowsa s" "snapa s1 = snapa s" "memoa s1 = memoa s"
        using same1 by (simp_all add: src.same_def)
      have p1: "portable s1 i ds" using Cons.prems(3) s1v by (simp add: portable_def)
      have c1: "copy_of s1 i = copy_of s i" by (intro ext) (simp only: copy_of_def s1v(2,4))
      note IH = Cons.IH [OF s1v(1) tgt.keeps_inv [OF k1] p1, unfolded s1v(2) c1, OF rest]
      from IH obtain ws where ws: "rowsb t' i = rowsb t1 i @ ws"
        "list_all2 (copy_of s i) (take (length ws) ds) ws"
        "\<forall>w\<in>set ws. memob t' i (re_domino_id w) (re_input_hash w) = Some (re_output_hash w, re_output w)"
        "\<forall>m. u = Inr m \<longrightarrow> m = n + 1 + int (length ds) \<and> length ws = length ds" by (elim conjE exE) blast
      have kt: "tgt.keeps t1 t'" using IH by blast
      have mw: "memob t' i d (re_input_hash w) = Some (re_output_hash w, re_output w)"
        using snd1 wi kt by (simp add: tgt.keeps_def)
      have "rowsb t' i = rowsb t i @ (w # ws)" using ws(1) snd1 wi by simp
      moreover have "list_all2 (copy_of s i) (take (length (w # ws)) (d # ds)) (w # ws)" using cw ws(2) by simp
      moreover have "\<forall>x\<in>set (w # ws). memob t' i (re_domino_id x) (re_input_hash x) = Some (re_output_hash x, re_output x)"
        using ws(3) mw wi by simp
      moreover have "m = n + int (length (d # ds)) \<and> length (w # ws) = length (d # ds)" if "u = Inr m" for m
        using ws(4) [rule_format, OF that] by simp
      moreover have "src.same s s'" using src.same_trans [OF same1] IH by blast
      moreover have "tgt.keeps t t'" by (rule tgt.keeps_trans [OF k1 kt])
      moreover have "snapb t' = snapb t" "\<forall>j. j \<noteq> i \<longrightarrow> rowsb t' j = rowsb t j" using IH f1 by simp_all
      ultimately show ?thesis by blast
    qed
  qed
qed

text \<open>
  The copy as a whole: the source is only read, the target keeps everything sealed or
  memoized, and success means a sealed source, the same sealed snapshot in the target and
  one appended replay row per domino of the chain.
\<close>

lemma materialize_laws:
  assumes "inva s" "invb t" "portable s i ds" "i \<noteq> ''''"
    and "materialize (Some A) (Some B) i ds s t = (u, s', t')"
  shows "src.same s s' \<and> tgt.keeps t t'
    \<and> (\<forall>ts dt. snapa s i = Some (ts, dt, False) \<longrightarrow> (\<exists>e. u = Inl e) \<and> t' = t)
    \<and> (\<forall>m. u = Inr m \<longrightarrow> mz_snapshot_copied m \<and> mz_domino_count m = int (length ds)
         \<and> (\<exists>ts dt. snapa s i = Some (ts, dt, True) \<and> snapb t' i = Some (ts, dt, True))
         \<and> (\<exists>ws. rowsb t' i = rowsb t i @ ws \<and> list_all2 (copy_of s i) ds ws
              \<and> (\<forall>w\<in>set ws. memob t' i (re_domino_id w) (re_input_hash w)
                    = Some (re_output_hash w, re_output w))))"
proof -
  have ok: "okida i" "okidb i" using assms(3) by (simp_all add: portable_def)
  obtain g s1 where g: "b_get_snapshot A i s = (g, s1)" by fastforce
  have same1: "src.same s s1" by (rule src.get_snapshot_same [OF assms(1) g])
  note refl = src.same_refl [OF assms(1)] tgt.keeps_refl [OF assms(2)]
  show ?thesis
  proof (cases g)
    case (Inl e)
    with assms(4,5) g have "u = Inl (wrapf ''read source snapshot'' e)" "s' = s1" "t' = t"
      by (simp_all add: materialize_def)
    then show ?thesis using same1 refl by simp
  next
    case (Inr x)
    obtain ts dt b where x: "x = (ts, dt, b)" by (cases x)
    have sn: "snapa s i = Some (ts, dt, b)"
      using src.get_snapshot_sound [OF assms(1) ok(1)] g Inr x by simp
    show ?thesis
    proof (cases b)
      case False
      with assms(4,5) g Inr x have "\<exists>e. u = Inl e" "s' = s1" "t' = t" by (auto simp: materialize_def)
      then show ?thesis using same1 refl by auto
    next
      case True
      have okts: "oktextb ts" "oktextb dt" using assms(3) sn by (auto simp: portable_def)
      obtain v t1 where v: "b_save_snapshot B i ts dt True t = (v, t1)" by fastforce
      have k1: "tgt.keeps t t1" by (rule tgt.save_snapshot_keeps [OF assms(2) ok(2) v])
      have r1: "rowsb t1 = rowsb t" using tgt.save_snapshot_frame [OF assms(2) ok(2) v] by simp
      show ?thesis
      proof (cases v)
        case (Inl e)
        with assms(4,5) g Inr x True v have "\<exists>e. u = Inl e" "s' = s1" "t' = t1" by (auto simp: materialize_def)
        then show ?thesis using same1 k1 sn True by auto
      next
        case vo: (Inr y)
        then have sb: "snapb t1 i = Some (ts, dt, True)"
          using tgt.save_snapshot_sound [OF assms(2) ok(2) okts] v by simp
        obtain l s2 where l: "b_list_replay A i s1 = (l, s2)" by fastforce
        have inv1: "inva s1" using same1 by (simp add: src.same_def)
        have same2: "src.same s s2" using src.same_trans [OF same1 src.list_replay_same [OF inv1 l]] .
        show ?thesis
        proof (cases l)
          case (Inl e)
          with assms(4,5) g Inr x True v vo l have "\<exists>e. u = Inl e" "s' = s2" "t' = t1"
            by (auto simp: materialize_def)
          then show ?thesis using same2 k1 sn True by auto
        next
          case lo: (Inr rs)
          have "rs = rowsa s1 i" using src.list_replay_sound [OF inv1 ok(1)] l lo by simp
          then have rs: "rs = rowsa s2 i" using same1 same2 by (simp add: src.same_def)
          obtain c s3 t2 where c: "copy_dominos A B i rs ds 0 s2 t1 = (c, s3, t2)" by (metis prod_cases3)
          have s2v: "inva s2" "rowsa s2 = rowsa s" "snapa s2 = snapa s" "memoa s2 = memoa s"
            using same2 by (simp_all add: src.same_def)
          have p2: "portable s2 i ds" using assms(3) unfolding portable_def s2v .
          have cc: "copy_of s2 i = copy_of s i" by (intro ext) (simp only: copy_of_def s2v(2,4))
          have ut: "s' = s3" "t' = t2" "u = (case c of Inl e \<Rightarrow> Inl e
              | Inr n \<Rightarrow> Inr \<lparr>mz_snapshot_copied = True, mz_domino_count = n\<rparr>)"
            using assms(4,5) g Inr x True v vo l lo c by (auto simp: materialize_def split: sum.splits)
          note L = copy_dominos_laws [OF s2v(1) tgt.keeps_inv [OF k1] p2, unfolded cc, OF c [unfolded rs]]
          then obtain ws where ws: "rowsb t2 i = rowsb t1 i @ ws"
            "list_all2 (copy_of s i) (take (length ws) ds) ws"
            "\<forall>w\<in>set ws. memob t2 i (re_domino_id w) (re_input_hash w) = Some (re_output_hash w, re_output w)"
            "\<forall>m. c = Inr m \<longrightarrow> m = 0 + int (length ds) \<and> length ws = length ds" by blast
          have "src.same s s'" using src.same_trans [OF same2] L ut by simp
          moreover have "tgt.keeps t t'" using tgt.keeps_trans [OF k1] L ut by simp
          moreover have "snapb t2 = snapb t1" using L by simp
          ultimately show ?thesis using ut sn True sb ws r1 by (cases c) auto
        qed
      qed
    qed
  qed
qed

end

section \<open>Between SQLite stores\<close>

interpretation sq2: store_pair sqlite_backend sq_inv sq_ok "\<lambda>_. True" "\<lambda>_. True" "\<lambda>_. True" sq_snap sq_memo sq_rows
  sqlite_backend sq_inv sq_ok "\<lambda>_. True" "\<lambda>_. True" "\<lambda>_. True" sq_snap sq_memo sq_rows
  by unfold_locales

definition copied_from :: "sqlite \<Rightarrow> string \<Rightarrow> string \<Rightarrow> replay_row \<Rightarrow> bool" where
  "copied_from s i d w \<longleftrightarrow> re_snapshot_id w = i \<and> re_domino_id w = d \<and> \<not> re_reused w
     \<and> (case last_spine_result (sq_rows s i) d of
          (r, True) \<Rightarrow> w = r\<lparr>re_snapshot_id := i, re_reused := False\<rparr>
        | (_, False) \<Rightarrow> sq_memo s i d (re_input_hash w) = Some (re_output_hash w, re_output w)
            \<and> re_prev_link w = '''' \<and> re_link w = '''')"

lemma copied_from_eq: "copied_from = sq2.copy_of"
  by (intro ext) (simp only: copied_from_def sq2.copy_of_def)

text \<open>
  C22 Materialize between two SQLite stores, under any failures of either: the source is only
  read; the target keeps every sealed snapshot and every memoized output it had; an unsealed
  snapshot is refused without touching the target; and success means that the source
  snapshot was sealed, that the target holds the same one sealed, and that it gained exactly
  one replay row and memo entry per domino of the chain, copies of the source's last record.
\<close>

theorem materialize_copies_sealed:
  assumes "sq_inv s" "sq_inv t" "i \<noteq> ''''"
    and "materialize (Some sqlite_backend) (Some sqlite_backend) i ds s t = (u, s', t')"
  shows "sq_snap s' = sq_snap s \<and> sq_memo s' = sq_memo s \<and> sq_rows s' = sq_rows s
    \<and> (\<forall>j ts dt. sq_snap t j = Some (ts, dt, True) \<longrightarrow> sq_snap t' j = Some (ts, dt, True))
    \<and> (\<forall>j d h v. sq_memo t j d h = Some v \<longrightarrow> sq_memo t' j d h = Some v)
    \<and> (\<forall>ts dt. sq_snap s i = Some (ts, dt, False) \<longrightarrow> \<not> is_ok u \<and> t' = t)
    \<and> (\<forall>m. u = Inr m \<longrightarrow> mz_domino_count m = int (length ds)
         \<and> (\<exists>ts dt. sq_snap s i = Some (ts, dt, True) \<and> sq_snap t' i = Some (ts, dt, True))
         \<and> (\<exists>ws. sq_rows t' i = sq_rows t i @ ws \<and> list_all2 (copied_from s i) ds ws
              \<and> (\<forall>w\<in>set ws. sq_memo t' i (re_domino_id w) (re_input_hash w)
                    = Some (re_output_hash w, re_output w))))"
proof -
  have p: "sq2.portable s i ds" by (simp add: sq2.portable_def)
  have L: "sqlite.same s s' \<and> sqlite.keeps t t'
    \<and> (\<forall>ts dt. sq_snap s i = Some (ts, dt, False) \<longrightarrow> (\<exists>e. u = Inl e) \<and> t' = t)
    \<and> (\<forall>m. u = Inr m \<longrightarrow> mz_snapshot_copied m \<and> mz_domino_count m = int (length ds)
         \<and> (\<exists>ts dt. sq_snap s i = Some (ts, dt, True) \<and> sq_snap t' i = Some (ts, dt, True))
         \<and> (\<exists>ws. sq_rows t' i = sq_rows t i @ ws \<and> list_all2 (copied_from s i) ds ws
              \<and> (\<forall>w\<in>set ws. sq_memo t' i (re_domino_id w) (re_input_hash w)
                    = Some (re_output_hash w, re_output w))))"
    using sq2.materialize_laws [OF assms(1,2) p assms(3,4)] unfolding copied_from_eq .
  then have "(\<forall>ts dt. sq_snap s i = Some (ts, dt, False) \<longrightarrow> \<not> is_ok u \<and> t' = t)" by auto
  with L show ?thesis by (auto simp: sqlite.same_def sqlite.keeps_def)
qed

definition demo_row :: replay_row where
  "demo_row = \<lparr>re_snapshot_id = ''s'', re_domino_id = ''d'', re_input_hash = ''in'', re_output_hash = ''oh'',
     re_output = ''out'', re_reused = True, re_prev_link = ''s'', re_link = ''l''\<rparr>"

definition demo_source :: sqlite where
  "demo_source = sq_empty\<lparr>sq_snaps := [(''s'', ''t'', ''data'', True)], sq_replay := [demo_row]\<rparr>"

lemma materialize_copies_sealed_witness:
  "\<exists>s' t'. materialize (Some sqlite_backend) (Some sqlite_backend) ''s'' [''d''] demo_source sq_empty
        = (Inr \<lparr>mz_snapshot_copied = True, mz_domino_count = 1\<rparr>, s', t')
     \<and> sq_snap t' ''s'' = Some (''t'', ''data'', True)
     \<and> (\<exists>w. sq_rows t' ''s'' = [w] \<and> copied_from demo_source ''s'' ''d'' w)"
proof -
  obtain u s' t' where m: "materialize (Some sqlite_backend) (Some sqlite_backend) ''s'' [''d'']
      demo_source sq_empty = (u, s', t')" by (metis prod_cases3)
  have u: "u = Inr \<lparr>mz_snapshot_copied = True, mz_domino_count = 1\<rparr>"
    using m by (simp add: materialize_def sqlite_backend_def demo_source_def demo_row_def sq_empty_def
        sq_get_snapshot_def sq_call_def sq_save_snapshot_def refuse_sealed_mutation_def not_found_def
        is_no_rows_def err_no_rows_def sq_list_replay_def replica_record_def last_spine_result_find
        sq_save_result_def sq_save_tx_def sq_save_memo_def sq_lookup_memo_def refuse_memo_conflict_def
        sq_insert_result_def)
  have inv: "sq_inv demo_source" "sq_inv sq_empty"
    by (simp_all add: sq_inv_def demo_source_def sq_empty_def)
  have "sq_snap demo_source ''s'' = Some (''t'', ''data'', True)"
    by (simp add: sq_snap_def demo_source_def)
  with materialize_copies_sealed [OF inv _ m] u m show ?thesis
    by (auto simp: sq_rows_def sq_empty_def list_all2_Cons1)
qed

end
