(* ===== verification/Postgres.thy ===== *)
theory Postgres
  imports Sqlite
begin

text \<open>
  \<open>PostgresBackend\<close> (\<open>pkg/store/postgres.go\<close>).  The server has the same three tables as the
  SQLite file, and the state is the same record; a statement the server rejects, among them
  one whose text the database encoding cannot hold, is an entry of the fault schedule.  What
  differs is the opening, the upsert of a snapshot and the text of a constraint violation.
  Every method behaves as the one of SQLite, which gives the store contract.
\<close>

section \<open>Opening\<close>

definition pg_migrate :: "sqlite \<Rightarrow> unit res \<times> sqlite" where
  "pg_migrate s = (case sq_call s of (Some e, s1) \<Rightarrow> (Inl e, s1) | (None, s1) \<Rightarrow> (Inr (), s1))"

definition open_postgres :: "string \<Rightarrow> unit res \<Rightarrow> sqlite \<Rightarrow> unit res \<times> sqlite" where
  "open_postgres dsn sql_open s =
     (if trim_space dsn = '''' then (Inl (errorf ''postgres dsn required''), s)
      else (case sql_open of
          Inl e \<Rightarrow> (Inl (wrapf ''open postgres'' e), s)
        | Inr _ \<Rightarrow>
            (case sq_call (s\<lparr>sq_open := True\<rparr>) of
               (Some e, s1) \<Rightarrow> (Inl (wrapf ''ping postgres'' e), s1\<lparr>sq_open := False\<rparr>)
             | (None, s1) \<Rightarrow>
                 (case pg_migrate s1 of
                    (Inl e, s2) \<Rightarrow> (Inl e, s2\<lparr>sq_open := False\<rparr>)
                  | (Inr _, s2) \<Rightarrow> (Inr (), s2)))))"

section \<open>Methods\<close>

definition pg_get_snapshot :: "string \<Rightarrow> sqlite \<Rightarrow> (string \<times> string \<times> bool) res \<times> sqlite" where
  "pg_get_snapshot snapshotID s = (case sq_call s of
      (Some e, s1) \<Rightarrow> (Inl e, s1)
    | (None, s1) \<Rightarrow> (case map_of (sq_snaps s1) snapshotID of
          None \<Rightarrow> (Inl err_no_rows, s1)
        | Some row \<Rightarrow> (Inr row, s1)))"

text \<open>\<open>INSERT ... ON CONFLICT (snapshot_id) DO UPDATE\<close>: a new row, or the old one updated.\<close>

definition upsert :: "string \<Rightarrow> string \<times> string \<times> bool \<Rightarrow> (string \<times> string \<times> string \<times> bool) list
    \<Rightarrow> (string \<times> string \<times> string \<times> bool) list" where
  "upsert i row t =
     (if i \<in> fst ` set t then map (\<lambda>(k, r). if k = i then (k, row) else (k, r)) t else t @ [(i, row)])"

definition pg_save_snapshot ::
  "string \<Rightarrow> string \<Rightarrow> string \<Rightarrow> bool \<Rightarrow> sqlite \<Rightarrow> unit res \<times> sqlite" where
  "pg_save_snapshot snapshotID timeSlice data sealed s =
     (let (existing, s1) = pg_get_snapshot snapshotID s
      in case refuse_sealed_mutation existing timeSlice data sealed of
          Inl e \<Rightarrow> (Inl e, s1)
        | Inr _ \<Rightarrow>
          if (case existing of Inr (_, _, True) \<Rightarrow> True | _ \<Rightarrow> False) then (Inr (), s1)
          else (case sq_call s1 of
              (Some e, s2) \<Rightarrow> (Inl e, s2)
            | (None, s2) \<Rightarrow>
                (Inr (), s2\<lparr>sq_snaps := upsert snapshotID (timeSlice, data, sealed) (sq_snaps s2)\<rparr>)))"

definition pg_get_data :: "string \<Rightarrow> sqlite \<Rightarrow> (string \<times> bool) res \<times> sqlite" where
  "pg_get_data snapshotID s = (case pg_get_snapshot snapshotID s of
      (Inl e, s1) \<Rightarrow> (Inl e, s1)
    | (Inr (_, data, sealed), s1) \<Rightarrow> (Inr (data, sealed), s1))"

definition pg_lookup_memo ::
  "string \<Rightarrow> string \<Rightarrow> string \<Rightarrow> sqlite \<Rightarrow> (string \<times> string) option res \<times> sqlite" where
  "pg_lookup_memo snapshotID dominoID inputHash s = (case sq_call s of
      (Some e, s1) \<Rightarrow> (Inl e, s1)
    | (None, s1) \<Rightarrow> (case find (sq_key snapshotID dominoID inputHash) (sq_results s1) of
          None \<Rightarrow> (Inr None, s1)
        | Some r \<Rightarrow> (Inr (Some (sr_output_hash r, sr_output r)), s1)))"

definition pg_insert_result :: "replay_row \<Rightarrow> sqlite \<Rightarrow> unit res \<times> sqlite" where
  "pg_insert_result r s = (case sq_call s of
      (Some e, s1) \<Rightarrow> (Inl e, s1)
    | (None, s1) \<Rightarrow>
        if \<exists>q\<in>set (sq_results s1). sq_key (re_snapshot_id r) (re_domino_id r) (re_input_hash r) q
        then (Inl (Err KIO ''pq: duplicate key value violates unique constraint''), s1)
        else (Inr (), s1\<lparr>sq_results := sq_results s1 @
          [\<lparr>sr_snapshot_id = re_snapshot_id r, sr_domino_id = re_domino_id r,
            sr_input_hash = re_input_hash r, sr_output_hash = re_output_hash r,
            sr_output = re_output r\<rparr>]\<rparr>))"

text \<open>The transaction: its memo part, the row of the log, the commit, and the rollback.\<close>

definition pg_save_memo :: "replay_row \<Rightarrow> sqlite \<Rightarrow> unit res \<times> sqlite" where
  "pg_save_memo r s =
     (if re_reused r then (Inr (), s)
      else case pg_lookup_memo (re_snapshot_id r) (re_domino_id r) (re_input_hash r) s of
          (Inl e, s1) \<Rightarrow> (Inl e, s1)
        | (Inr stored, s1) \<Rightarrow>
          (case refuse_memo_conflict stored (re_output_hash r) (re_output r) of
              Inl e \<Rightarrow> (Inl e, s1)
            | Inr _ \<Rightarrow> if stored = None then pg_insert_result r s1 else (Inr (), s1)))"

definition pg_save_tx :: "replay_row \<Rightarrow> sqlite \<Rightarrow> unit res \<times> sqlite" where
  "pg_save_tx r s = (case pg_save_memo r s of
      (Inl e, s1) \<Rightarrow> (Inl e, s1)
    | (Inr _, s1) \<Rightarrow> (case sq_call s1 of
          (Some e, s2) \<Rightarrow> (Inl e, s2)
        | (None, s2) \<Rightarrow> (case sq_call (s2\<lparr>sq_replay := sq_replay s2 @ [r]\<rparr>) of
              (Some e, s3) \<Rightarrow> (Inl e, s3)
            | (None, s3) \<Rightarrow> (Inr (), s3))))"

definition pg_save_result :: "replay_row \<Rightarrow> sqlite \<Rightarrow> unit res \<times> sqlite" where
  "pg_save_result r s = (case sq_call s of
      (Some e, s1) \<Rightarrow> (Inl e, s1)
    | (None, s1) \<Rightarrow> (case pg_save_tx r s1 of
          (Inr _, s2) \<Rightarrow> (Inr (), s2)
        | (Inl e, s2) \<Rightarrow>
            (Inl e, s2\<lparr>sq_results := sq_results s1, sq_replay := sq_replay s1\<rparr>)))"

definition pg_get_latest :: "string \<Rightarrow> string \<Rightarrow> sqlite \<Rightarrow> (string \<times> string \<times> string) res \<times> sqlite" where
  "pg_get_latest snapshotID dominoID s = (case sq_call s of
      (Some e, s1) \<Rightarrow> (Inl e, s1)
    | (None, s1) \<Rightarrow>
      (case find (\<lambda>r. re_snapshot_id r = snapshotID \<and> re_domino_id r = dominoID) (rev (sq_replay s1)) of
          Some r \<Rightarrow> (Inr (re_input_hash r, re_output_hash r, re_output r), s1)
        | None \<Rightarrow> (case sq_call s1 of
              (Some e, s2) \<Rightarrow> (Inl e, s2)
            | (None, s2) \<Rightarrow>
              (case find (\<lambda>r. sr_snapshot_id r = snapshotID \<and> sr_domino_id r = dominoID) (rev (sq_results s2)) of
                  Some r \<Rightarrow> (Inr (sr_input_hash r, sr_output_hash r, sr_output r), s2)
                | None \<Rightarrow> (Inl err_no_rows, s2)))))"

definition pg_get_domino_output :: "string \<Rightarrow> string \<Rightarrow> sqlite \<Rightarrow> string res \<times> sqlite" where
  "pg_get_domino_output snapshotID dominoID s = (case pg_get_latest snapshotID dominoID s of
      (Inl e, s1) \<Rightarrow> (Inl e, s1)
    | (Inr (_, _, out), s1) \<Rightarrow> (Inr out, s1))"

definition pg_list_replay :: "string \<Rightarrow> sqlite \<Rightarrow> replay_row list res \<times> sqlite" where
  "pg_list_replay snapshotID s = (case sq_call s of
      (Some e, s1) \<Rightarrow> (Inl e, s1)
    | (None, s1) \<Rightarrow> (case sq_call s1 of
          (Some e, s2) \<Rightarrow> (Inl e, s2)
        | (None, s2) \<Rightarrow> (Inr (filter (\<lambda>r. re_snapshot_id r = snapshotID) (sq_replay s2)), s2)))"

definition pg_close :: "sqlite \<Rightarrow> unit res \<times> sqlite" where
  "pg_close s = (Inr (), s\<lparr>sq_open := False\<rparr>)"

definition postgres_backend :: "sqlite backend" where
  "postgres_backend =
     \<lparr>b_save_snapshot = pg_save_snapshot, b_get_snapshot = pg_get_snapshot,
      b_lookup_memo = pg_lookup_memo, b_save_result = pg_save_result,
      b_get_domino_output = pg_get_domino_output, b_get_latest = pg_get_latest,
      b_list_replay = pg_list_replay, b_close = pg_close,
      b_get_data = Some pg_get_data, b_save_payload = None\<rparr>"

section \<open>The same store as SQLite\<close>

lemma pg_reads:
  "pg_get_snapshot = sq_get_snapshot" "pg_lookup_memo = sq_lookup_memo" "pg_get_latest = sq_get_latest"
  "pg_get_domino_output = sq_get_domino_output" "pg_list_replay = sq_list_replay" "pg_close = sq_close"
  "pg_get_data = sq_get_data"
  by (intro ext; simp add: pg_get_snapshot_def sq_get_snapshot_def pg_lookup_memo_def sq_lookup_memo_def
      pg_get_latest_def sq_get_latest_def pg_get_domino_output_def sq_get_domino_output_def
      pg_list_replay_def sq_list_replay_def pg_close_def sq_close_def pg_get_data_def sq_get_data_def)+

lemma upsert_aput: "distinct (map fst t) \<Longrightarrow> upsert i row t = aput i row t"
proof (induction t)
  case (Cons p t)
  obtain k r where p: "p = (k, r)" by (cases p)
  show ?case
  proof (cases "k = i")
    case True
    with Cons.prems p have "i \<notin> fst ` set t" by simp
    then have "map (\<lambda>(k, r). if k = i then (k, row) else (k, r)) t = t" by (induction t) force+
    with True p show ?thesis by (simp add: upsert_def)
  next
    case False
    have IH: "upsert i row t = aput i row t" using Cons by simp
    show ?thesis using IH False p by (cases "i \<in> fst ` set t") (simp_all add: upsert_def)
  qed
qed (simp add: upsert_def)

lemma pg_save_snapshot_eq: "sq_inv s \<Longrightarrow> pg_save_snapshot i ts d b s = sq_save_snapshot i ts d b s"
proof -
  assume inv: "sq_inv s"
  obtain g s1 where g: "sq_get_snapshot i s = (g, s1)" by fastforce
  obtain e s2 where c: "sq_call s1 = (e, s2)" by fastforce
  have "sq_snaps s2 = sq_snaps s" using sq_get_snapshot_laws [OF g] sq_call_frame [OF c] by simp
  with inv have "upsert i (ts, d, b) (sq_snaps s2) = aput i (ts, d, b) (sq_snaps s2)"
    by (intro upsert_aput) (simp add: sq_inv_def)
  then show ?thesis
    unfolding pg_save_snapshot_def sq_save_snapshot_def pg_reads g Let_def prod.case c
    by (cases e) (simp_all split: sum.split)
qed

text \<open>The unique constraint is never violated: the insert follows a lookup that found nothing.\<close>

lemma pg_save_memo_eq: "pg_save_memo r s = sq_save_memo r s"
proof -
  obtain m s1 where m: "sq_lookup_memo (re_snapshot_id r) (re_domino_id r) (re_input_hash r) s = (m, s1)" by fastforce
  have "pg_insert_result r s1 = sq_insert_result r s1" if "m = Inr None"
  proof -
    have n: "find (sq_key (re_snapshot_id r) (re_domino_id r) (re_input_hash r)) (sq_results s1) = None"
      using m that by (auto simp: sq_lookup_memo_def split: prod.splits option.splits)
    obtain e s2 where c: "sq_call s1 = (e, s2)" by fastforce
    then have "sq_results s2 = sq_results s1" using sq_call_frame [OF c] by simp
    with n have "\<not> (\<exists>q\<in>set (sq_results s2). sq_key (re_snapshot_id r) (re_domino_id r) (re_input_hash r) q)"
      by (simp add: find_None_iff)
    with c show ?thesis by (simp add: pg_insert_result_def sq_insert_result_def split: option.split)
  qed
  with m show ?thesis by (auto simp: pg_save_memo_def sq_save_memo_def pg_reads split: sum.split)
qed

lemma pg_save_tx_eq: "pg_save_tx = sq_save_tx"
  by (intro ext) (simp add: pg_save_tx_def sq_save_tx_def pg_save_memo_eq)

lemma pg_save_result_eq: "pg_save_result = sq_save_result"
  by (intro ext) (simp only: pg_save_result_def sq_save_result_def pg_save_tx_eq)

text \<open>The methods read as those of SQLite; the save of a snapshot does in every reachable state.\<close>

lemma postgres_methods:
  "b_get_snapshot postgres_backend = b_get_snapshot sqlite_backend"
  "b_lookup_memo postgres_backend = b_lookup_memo sqlite_backend"
  "b_save_result postgres_backend = b_save_result sqlite_backend"
  "b_get_domino_output postgres_backend = b_get_domino_output sqlite_backend"
  "b_get_latest postgres_backend = b_get_latest sqlite_backend"
  "b_list_replay postgres_backend = b_list_replay sqlite_backend"
  "b_close postgres_backend = b_close sqlite_backend"
  "b_get_data postgres_backend = b_get_data sqlite_backend"
  "b_save_payload postgres_backend = None"
  by (simp_all add: postgres_backend_def sqlite_backend_def pg_reads pg_save_result_eq)

lemma postgres_save_snapshot:
  "sq_inv s \<Longrightarrow> b_save_snapshot postgres_backend i ts d b s = b_save_snapshot sqlite_backend i ts d b s"
  by (simp add: postgres_backend_def sqlite_backend_def pg_save_snapshot_eq)

interpretation postgres: store_backend postgres_backend sq_inv sq_ok "\<lambda>_. True" "\<lambda>_. True" "\<lambda>_. True" sq_snap sq_memo sq_rows
proof (unfold_locales, unfold postgres_methods, goal_cases)
  case 4 then show ?case by (rule sqlite.get_snapshot_frame)
next
  case 5 then show ?case by (rule sqlite.lookup_memo_frame)
next
  case 6 then show ?case by (rule sqlite.list_replay_frame)
next
  case 7 then show ?case by (rule sqlite.get_latest_frame)
next
  case 8 then show ?case by (rule sqlite.get_data_frame)
next
  case 9 then show ?case by (rule sqlite.get_snapshot_sound)
next
  case 10 then show ?case by (rule sqlite.lookup_memo_sound_h)
next
  case 11 then show ?case by (rule sqlite.list_replay_sound)
next
  case 12 then show ?case by (rule sqlite.get_latest_sound)
next
  case 13 then show ?case by (rule sqlite.get_data_sound)
next
  case (14 s i ts data sealed u s')
  then show ?case using sqlite.save_snapshot_frame unfolding postgres_save_snapshot [OF 14(1)] by blast
next
  case (15 s i ts data sealed s')
  then show ?case using sqlite.save_snapshot_sound unfolding postgres_save_snapshot [OF 15(1)] by blast
next
  case 16 then show ?case by (rule sqlite.save_result_frame_h)
next
  case 17 then show ?case by (rule sqlite.save_result_sound_h)
next
  case 19 then show ?case by (rule sqlite.get_snapshot_ok)
next
  case 20 then show ?case by (rule sqlite.lookup_memo_ok_h)
next
  case 21 then show ?case by (rule sqlite.list_replay_ok)
next
  case 22 then show ?case by (rule sqlite.get_data_ok)
next
  case (23 s i ts data sealed u s')
  then show ?case using sqlite.save_snapshot_ok unfolding postgres_save_snapshot [OF 23(1)] by blast
next
  case 24 then show ?case by (rule sqlite.save_result_ok_h)
qed simp_all

section \<open>Sequences of writes\<close>

datatype save_op = SaveSnap string string string bool | SaveRes replay_row

fun run_save :: "'s backend \<Rightarrow> save_op \<Rightarrow> 's \<Rightarrow> unit res \<times> 's" where
  "run_save B (SaveSnap i ts data sealed) s = b_save_snapshot B i ts data sealed s"
| "run_save B (SaveRes r) s = b_save_result B r s"

fun run_saves :: "'s backend \<Rightarrow> save_op list \<Rightarrow> 's \<Rightarrow> unit res list \<times> 's" where
  "run_saves B [] s = ([], s)"
| "run_saves B (op # ops) s =
     (let (r, s1) = run_save B op s; (rs, s2) = run_saves B ops s1 in (r # rs, s2))"

lemma run_save_sqlite_inv: "sq_inv s \<Longrightarrow> run_save sqlite_backend op s = (r, s') \<Longrightarrow> sq_inv s'"
proof (cases op)
  case (SaveSnap i ts data sealed)
  moreover assume "sq_inv s" "run_save sqlite_backend op s = (r, s')"
  ultimately show ?thesis using sqlite.save_snapshot_frame [of s i ts data sealed r s'] by simp
next
  case (SaveRes q)
  moreover assume "sq_inv s" "run_save sqlite_backend op s = (r, s')"
  ultimately show ?thesis using sqlite.save_result_frame_h [of s q r s'] by simp
qed

lemma run_saves_postgres:
  "sq_inv s \<Longrightarrow> run_saves postgres_backend ops s = run_saves sqlite_backend ops s"
proof (induction ops arbitrary: s)
  case (Cons op ops)
  have "run_save postgres_backend op s = run_save sqlite_backend op s"
    using postgres_save_snapshot [OF Cons.prems] by (cases op) (simp_all add: postgres_methods)
  moreover obtain r s1 where "run_save sqlite_backend op s = (r, s1)" by fastforce
  ultimately show ?case using Cons.IH run_save_sqlite_inv [OF Cons.prems] by simp
qed simp


end
