(* ===== verification/GoTime.thy ===== *)
theory GoTime
  imports Float64
begin

text \<open>
  The part of Go's package time the program uses: calendar dates, the layouts
  \<open>time.RFC3339\<close>, \<open>time.RFC3339Nano\<close> and the wheel's \<open>20060102t150405z\<close>, and
  \<open>time.ParseDuration\<close>.  An instant is its number of nanoseconds since 1970-01-01 UTC, an
  unbounded integer (a \<open>time.Time\<close> spans 292 billion years); a duration is a signed 64-bit
  word.  The main lemmas: the calendar is a bijection, and formatting followed by parsing
  returns the instant cut to whole seconds.
\<close>

section \<open>The Gregorian calendar\<close>

definition leap_year :: "int \<Rightarrow> bool" where
  "leap_year y = (y mod 4 = 0 \<and> (y mod 100 \<noteq> 0 \<or> y mod 400 = 0))"

text \<open>Days from 1970-01-01 to the first of January of year \<open>y\<close>.\<close>

definition year_start :: "int \<Rightarrow> int" where
  "year_start y = 365 * (y - 1) + (y - 1) div 4 - (y - 1) div 100 + (y - 1) div 400 - 719162"

definition month_starts :: "bool \<Rightarrow> int list" where
  "month_starts leap = (if leap then [0, 31, 60, 91, 121, 152, 182, 213, 244, 274, 305, 335, 366]
     else [0, 31, 59, 90, 120, 151, 181, 212, 243, 273, 304, 334, 365])"

definition days_in :: "int \<Rightarrow> nat \<Rightarrow> int" where
  "days_in y m = month_starts (leap_year y) ! m - month_starts (leap_year y) ! (m - 1)"

definition days_of_civil :: "int \<Rightarrow> nat \<Rightarrow> int \<Rightarrow> int" where
  "days_of_civil y m d = year_start y + month_starts (leap_year y) ! (m - 1) + d - 1"

definition civil_year :: "int \<Rightarrow> int" where
  "civil_year n =
     (let y = 400 * (n + 719162) div 146097 + 1
      in if n < year_start y then y - 1 else if year_start (y + 1) \<le> n then y + 1 else y)"

definition civil_of_days :: "int \<Rightarrow> int \<times> nat \<times> int" where
  "civil_of_days n =
     (let y = civil_year n; yd = n - year_start y; st = month_starts (leap_year y);
          m = length (takeWhile (\<lambda>s. s \<le> yd) (take 12 st))
      in (y, m, yd - st ! (m - 1) + 1))"

lemma div_Suc_int: "0 < (k :: int) \<Longrightarrow> y div k = (y - 1) div k + (if y mod k = 0 then 1 else 0)"
proof -
  assume k: "0 < k"
  have y: "y = (y - 1) + 1" by simp
  show ?thesis
  proof (cases "(y - 1) mod k = k - 1")
    case True
    have "y = k * ((y - 1) div k + 1)" using True mult_div_mod_eq [of k "y - 1"] unfolding distrib_left by linarith
    then show ?thesis using k by (metis add.commute mod_mult_self1_is_0 nonzero_mult_div_cancel_left order_less_irrefl)
  next
    case False
    then have r: "0 \<le> (y - 1) mod k" "(y - 1) mod k + 1 < k"
      using k pos_mod_bound [of k "y - 1"] pos_mod_sign [of k "y - 1"] by linarith+
    have e: "y = k * ((y - 1) div k) + ((y - 1) mod k + 1)" using mult_div_mod_eq [of k "y - 1"] by simp
    have "y div k = (y - 1) div k" "y mod k = (y - 1) mod k + 1"
      using int_div_pos_eq [OF e] int_mod_pos_eq [OF e] r k by auto
    with r show ?thesis by auto
  qed
qed

lemma div_bounds_int: "0 < (k :: int) \<Longrightarrow> k * (x div k) \<le> x \<and> x < k * (x div k) + k"
  using mult_div_mod_eq [of k x] pos_mod_bound [of k x] pos_mod_sign [of k x] by linarith

lemma leap_count:
  fixes y a b c a' b' c' :: int
  assumes "a' = a + (if y mod 4 = 0 then 1 else 0)" "b' = b + (if y mod 100 = 0 then 1 else 0)"
    "c' = c + (if y mod 400 = 0 then 1 else 0)"
  shows "a' - b' + c' = a - b + c + (if leap_year y then 1 else 0)"
proof -
  have d: "(100 :: int) dvd 400" "(4 :: int) dvd 100" by simp_all
  have h: "y mod 400 = 0 \<Longrightarrow> y mod 100 = 0" "y mod 100 = 0 \<Longrightarrow> y mod 4 = 0"
    using d dvd_trans by (blast dest: mod_0_imp_dvd intro: dvd_imp_mod_0)+
  show ?thesis
    unfolding assms leap_year_def using h
    by (cases "y mod 4 = 0"; cases "y mod 100 = 0"; cases "y mod 400 = 0") simp_all
qed

lemma year_lin:
  fixes y p q r a b c i k :: int
  shows "p - q + r = a - b + c + i
    \<Longrightarrow> 365 * y + p - q + r - k = 365 * (y - 1) + a - b + c - k + (365 + i)"
  by simp

lemma year_start_Suc: "year_start (y + 1) = year_start y + (if leap_year y then 366 else 365)"
proof -
  have p: "0 < (4 :: int)" "0 < (100 :: int)" "0 < (400 :: int)" by simp_all
  have "y div 4 - y div 100 + y div 400
      = (y - 1) div 4 - (y - 1) div 100 + (y - 1) div 400 + (if leap_year y then 1 else 0)"
    by (rule leap_count [OF div_Suc_int [OF p(1)] div_Suc_int [OF p(2)] div_Suc_int [OF p(3)]])
  from year_lin [OF this, of y 719162] show ?thesis
    unfolding year_start_def add_diff_cancel_right' by (cases "leap_year y") simp_all
qed

lemma year_bounds_lin:
  fixes x a b c :: int
  assumes "4 * a \<le> x \<and> x < 4 * a + 4" "100 * b \<le> x \<and> x < 100 * b + 100"
    "400 * c \<le> x \<and> x < 400 * c + 400"
  shows "400 * (365 * x + a - b + c - 719162) \<le> 146097 * x - 400 * 719162 + 400
    \<and> 146097 * x - 400 * 719162 - 800 \<le> 400 * (365 * x + a - b + c - 719162)"
  using assms by (simp add: algebra_simps)

lemma year_start_bounds:
  "400 * year_start y \<le> 146097 * (y - 1) - 400 * 719162 + 400"
  "146097 * (y - 1) - 400 * 719162 - 800 \<le> 400 * year_start y"
proof -
  have p: "0 < (4 :: int)" "0 < (100 :: int)" "0 < (400 :: int)" by simp_all
  note h = year_bounds_lin [OF div_bounds_int [OF p(1)] div_bounds_int [OF p(2)] div_bounds_int [OF p(3)], of "y - 1"]
  show "400 * year_start y \<le> 146097 * (y - 1) - 400 * 719162 + 400"
    unfolding year_start_def by (rule conjunct1 [OF h])
  show "146097 * (y - 1) - 400 * 719162 - 800 \<le> 400 * year_start y"
    unfolding year_start_def by (rule conjunct2 [OF h])
qed

lemma civil_year_bounds: "year_start (civil_year n) \<le> n \<and> n < year_start (civil_year n + 1)"
proof -
  define y where "y = 400 * (n + 719162) div 146097 + 1"
  have "146097 * (y - 1) \<le> 400 * (n + 719162) \<and> 400 * (n + 719162) < 146097 * (y - 1) + 146097"
    using div_bounds_int [of 146097 "400 * (n + 719162)"] by (simp only: y_def add_diff_cancel_right')
  note lo = conjunct1 [OF this] and hi = conjunct2 [OF this]
  have b: "year_start (y - 1) \<le> n" using lo year_start_bounds(1) [of "y - 1"] by (simp add: algebra_simps)
  have b': "n < year_start (y + 2)" using hi year_start_bounds(2) [of "y + 2"] by (simp add: algebra_simps)
  have c: "civil_year n = (if n < year_start y then y - 1 else if year_start (y + 1) \<le> n then y + 1 else y)"
    by (simp add: civil_year_def y_def Let_def)
  have e: "y - 1 + 1 = y" "y + 1 + 1 = y + 2" by simp_all
  show ?thesis using b b' unfolding c by (auto simp only: e not_le not_less split: if_splits)
qed

lemma length_month_starts [simp]: "length (month_starts l) = 13"
  by (simp add: month_starts_def)

lemma month_lookup:
  assumes yd: "0 \<le> yd" "yd < (if l then 366 else 365)"
    and m: "m = length (takeWhile (\<lambda>s. s \<le> yd) (take 12 (month_starts l)))"
  shows "1 \<le> m \<and> m \<le> 12 \<and> month_starts l ! (m - 1) \<le> yd \<and> yd < month_starts l ! m"
proof -
  let ?xs = "take 12 (month_starts l)" and ?P = "\<lambda>s. s \<le> yd"
  have len: "length ?xs = 12" by simp
  have m1: "1 \<le> m" using yd(1) m by (cases l) (simp_all add: month_starts_def)
  have m12: "m \<le> 12" using m length_takeWhile_le [of ?P ?xs] len by simp
  have "takeWhile ?P ?xs ! (m - 1) \<in> set (takeWhile ?P ?xs)" using m1 m by simp
  then have "?P (takeWhile ?P ?xs ! (m - 1))" using set_takeWhileD by fast
  moreover have "takeWhile ?P ?xs ! (m - 1) = month_starts l ! (m - 1)"
    using m1 m m12 by (simp add: takeWhile_nth)
  moreover have "yd < month_starts l ! m"
  proof (cases "m = 12")
    case True then show ?thesis using yd(2) by (cases l) (simp_all add: month_starts_def)
  next
    case False
    then show ?thesis using m m12 nth_length_takeWhile [of ?P ?xs] len by simp
  qed
  ultimately show ?thesis using m1 m12 by simp
qed

lemma civil_of_days_valid:
  assumes "civil_of_days n = (y, m, d)"
  shows "days_of_civil y m d = n" "1 \<le> m" "m \<le> 12" "1 \<le> d" "d \<le> days_in y m"
proof -
  have y: "y = civil_year n" using assms by (simp add: civil_of_days_def Let_def)
  let ?yd = "n - year_start y"
  have yd: "0 \<le> ?yd" "?yd < (if leap_year y then 366 else 365)"
    using civil_year_bounds [of n] year_start_Suc [of y] by (auto simp: y)
  have m: "m = length (takeWhile (\<lambda>s. s \<le> ?yd) (take 12 (month_starts (leap_year y))))"
    and d: "d = ?yd - month_starts (leap_year y) ! (m - 1) + 1"
    using assms by (auto simp: civil_of_days_def Let_def)
  from month_lookup [OF yd m] show "1 \<le> m" "m \<le> 12" "1 \<le> d" "d \<le> days_in y m"
    by (auto simp: d days_in_def)
  show "days_of_civil y m d = n" by (simp add: days_of_civil_def d)
qed

lemma days_in_le:
  assumes "1 \<le> m" "m \<le> 12" shows "days_in y m \<le> 31"
proof -
  have "list_all (\<lambda>k. month_starts l ! Suc k - month_starts l ! k \<le> 31) [0..<12]" for l
    by (cases l) (simp_all add: month_starts_def upt_rec)
  moreover have "m - 1 \<in> set [0..<12]" using assms by auto
  ultimately have "month_starts l ! Suc (m - 1) - month_starts l ! (m - 1) \<le> 31" for l
    unfolding list_all_iff by blast
  moreover have "Suc (m - 1) = m" using assms by simp
  ultimately show ?thesis by (simp only: days_in_def)
qed

section \<open>Formatting\<close>

definition digit_char :: "nat \<Rightarrow> char" where
  "digit_char n = char_of (48 + n)"

text \<open>Two digits of a number below 100; the year with at least four digits.\<close>

definition fmt2 :: "nat \<Rightarrow> string" where
  "fmt2 n = [digit_char (n div 10), digit_char (n mod 10)]"

definition fmt_year :: "int \<Rightarrow> string" where
  "fmt_year y =
     (if 0 \<le> y \<and> y < 10000 then fmt2 (nat y div 100) @ fmt2 (nat y mod 100)
      else if 0 \<le> y then nat_str (nat y)
      else CHR ''-'' # replicate (4 - length (nat_str (nat (- y)))) (CHR ''0'') @ nat_str (nat (- y)))"

text \<open>Year, month, day, hour, minute and second of an instant in UTC.\<close>

definition unix_secs :: "int \<Rightarrow> int" where
  "unix_secs t = t div 1000000000"

definition date_of :: "int \<Rightarrow> int \<times> nat \<times> int" where
  "date_of t = civil_of_days (unix_secs t div 86400)"

definition clock_of :: "int \<Rightarrow> nat \<times> nat \<times> nat" where
  "clock_of t = (let s = nat (unix_secs t mod 86400) in (s div 3600, s div 60 mod 60, s mod 60))"

text \<open>\<open>t.UTC().Format(time.RFC3339)\<close>, \<open>Format(time.RFC3339Nano)\<close> and the wheel's layout.\<close>

definition fmt_date_clock :: "string \<Rightarrow> string \<Rightarrow> string \<Rightarrow> int \<Rightarrow> string" where
  "fmt_date_clock dsep mid csep t =
     (case (date_of t, clock_of t) of ((y, m, d), (h, mi, s)) \<Rightarrow>
        fmt_year y @ dsep @ fmt2 m @ dsep @ fmt2 (nat d) @ mid @ fmt2 h @ csep @ fmt2 mi @ csep @ fmt2 s)"

definition format_rfc3339 :: "int \<Rightarrow> string" where
  "format_rfc3339 t = fmt_date_clock ''-'' ''T'' '':'' t @ ''Z''"

fun fmt_digits :: "nat \<Rightarrow> nat \<Rightarrow> string" where
  "fmt_digits 0 n = []"
| "fmt_digits (Suc k) n = fmt_digits k (n div 10) @ [digit_char (n mod 10)]"

definition format_rfc3339nano :: "int \<Rightarrow> string" where
  "format_rfc3339nano t =
     (let ns = nat (t mod 1000000000);
          frac = (if ns = 0 then [] else CHR ''.'' # trim_right_char (CHR ''0'') (fmt_digits 9 ns))
      in fmt_date_clock ''-'' ''T'' '':'' t @ frac @ ''Z'')"

text \<open>\<open>json.Marshal\<close> of a \<open>time.Time\<close> refuses years outside four digits.\<close>

definition json_time :: "int \<Rightarrow> string res" where
  "json_time t =
     (case date_of t of (y, _, _) \<Rightarrow>
        if 0 \<le> y \<and> y \<le> 9999 then Inr (CHR 0x22 # format_rfc3339nano t @ [CHR 0x22])
        else Inl (errorf ''Time.MarshalJSON: year outside of range [0,9999]''))"

text \<open>The zero \<open>time.Time\<close> is the first of January of year 1.\<close>

definition zero_time :: int where
  "zero_time = days_of_civil 1 1 1 * 86400 * 1000000000"

section \<open>Parsing\<close>

definition digit_val :: "char \<Rightarrow> nat option" where
  "digit_val c = (let n = of_char c in if 48 \<le> n \<and> n \<le> 57 then Some (n - 48) else None)"

text \<open>\<open>getnum\<close> of package time: two digits, or one unless \<open>fixed\<close>.\<close>

fun getnum :: "bool \<Rightarrow> string \<Rightarrow> (nat \<times> string) option" where
  "getnum fixed [] = None"
| "getnum fixed (c # s) =
     (case digit_val c of
        None \<Rightarrow> None
      | Some a \<Rightarrow>
          (case s of
             d # s' \<Rightarrow> (case digit_val d of
                 Some b \<Rightarrow> Some (a * 10 + b, s')
               | None \<Rightarrow> if fixed then None else Some (a, s))
           | [] \<Rightarrow> if fixed then None else Some (a, [])))"

definition skip_lit :: "string \<Rightarrow> string \<Rightarrow> string option" where
  "skip_lit p s = (if has_prefix s p then Some (drop (length p) s) else None)"

fun get_year :: "string \<Rightarrow> (int \<times> string) option" where
  "get_year (a # b # c # d # s) =
     (case (digit_val a, digit_val b, digit_val c, digit_val d) of
        (Some a, Some b, Some c, Some d) \<Rightarrow> Some (int (a * 1000 + b * 100 + c * 10 + d), s)
      | _ \<Rightarrow> None)"
| "get_year _ = None"

text \<open>
  Fractional seconds are accepted after the seconds whatever the layout says, after a
  period or a comma; digits past the ninth are read and dropped.
\<close>

definition get_frac :: "string \<Rightarrow> nat \<times> string" where
  "get_frac s =
     (case s of
        p # c # s' \<Rightarrow>
          if (p = CHR ''.'' \<or> p = CHR '','') \<and> digit_val c \<noteq> None
          then let ds = takeWhile (\<lambda>c. digit_val c \<noteq> None) (c # s'); k = take 9 ds
               in (dec_val k * 10 ^ (9 - length k), drop (length ds) (c # s'))
          else (0, s)
      | _ \<Rightarrow> (0, s))"

text \<open>\<open>Z07:00\<close>: the offset from UTC in seconds.\<close>

definition get_zone :: "string \<Rightarrow> (int \<times> string) option" where
  "get_zone s =
     (case s of
        [] \<Rightarrow> None
      | c # s1 \<Rightarrow>
          if c = CHR ''Z'' then Some (0, s1)
          else if length s < 6 \<or> (c \<noteq> CHR ''+'' \<and> c \<noteq> CHR ''-'') \<or> s ! 3 \<noteq> CHR '':'' then None
          else case (getnum True (take 2 s1), getnum True (take 2 (drop 3 s1))) of
              (Some (h, _), Some (m, _)) \<Rightarrow>
                if 24 < h \<or> 60 < m then None
                else Some ((if c = CHR ''-'' then -1 else 1) * int (h * 3600 + m * 60), drop 6 s)
            | _ \<Rightarrow> None)"

definition time_of :: "int \<Rightarrow> nat \<Rightarrow> nat \<Rightarrow> nat \<Rightarrow> nat \<Rightarrow> nat \<Rightarrow> nat \<Rightarrow> int \<Rightarrow> int option" where
  "time_of y m d h mi s ns off =
     (if 1 \<le> m \<and> m \<le> 12 \<and> 1 \<le> d \<and> int d \<le> days_in y m \<and> h < 24 \<and> mi < 60 \<and> s < 60
      then Some ((days_of_civil y m (int d) * 86400 + int (h * 3600 + mi * 60 + s) - off) * 1000000000 + int ns)
      else None)"

definition parse_layout ::
  "string \<Rightarrow> string \<Rightarrow> string \<Rightarrow> (string \<Rightarrow> (int \<times> string) option) \<Rightarrow> string \<Rightarrow> int option" where
  "parse_layout dsep mid csep zone s =
     Option.bind (get_year s) (\<lambda>(y, s).
     Option.bind (skip_lit dsep s) (\<lambda>s.
     Option.bind (getnum True s) (\<lambda>(m, s).
     Option.bind (skip_lit dsep s) (\<lambda>s.
     Option.bind (getnum True s) (\<lambda>(d, s).
     Option.bind (skip_lit mid s) (\<lambda>s.
     Option.bind (getnum False s) (\<lambda>(h, s).
     Option.bind (skip_lit csep s) (\<lambda>s.
     Option.bind (getnum True s) (\<lambda>(mi, s).
     Option.bind (skip_lit csep s) (\<lambda>s.
     Option.bind (getnum True s) (\<lambda>(sec, s).
     case get_frac s of (ns, s) \<Rightarrow>
     Option.bind (zone s) (\<lambda>(off, s).
     if s = [] then time_of y m d h mi sec ns off else None))))))))))))"

definition parse_error :: "string \<Rightarrow> err" where
  "parse_error s = errorf (''parsing time '' @ quote s)"

text \<open>\<open>time.Parse(time.RFC3339, s)\<close>.\<close>

definition parse_rfc3339 :: "string \<Rightarrow> int res" where
  "parse_rfc3339 s = (case parse_layout ''-'' ''T'' '':'' get_zone s of
     Some t \<Rightarrow> Inr t | None \<Rightarrow> Inl (parse_error s))"

section \<open>Formatting and parsing back\<close>

lemma digit_val_char: "n < 10 \<Longrightarrow> digit_val (digit_char n) = Some n"
  by (simp add: digit_val_def digit_char_def Let_def)

lemma getnum_fmt2: "n < 100 \<Longrightarrow> getnum fixed (fmt2 n @ s) = Some (n, s)"
  by (simp add: fmt2_def digit_val_char)

lemma get_year_fmt:
  assumes "0 \<le> y" "y < 10000" shows "get_year (fmt_year y @ s) = Some (y, s)"
proof -
  obtain n where n: "y = int n" using assms(1) by (metis nonneg_int_cases)
  let ?a = "n div 100" and ?b = "n mod 100"
  have a: "?a < 100" and b: "?b < 100" using assms(2) n by auto
  have "?a div 10 * 1000 + ?a mod 10 * 100 + ?b div 10 * 10 + ?b mod 10 = n"
    using div_mult_mod_eq [of ?a 10] div_mult_mod_eq [of ?b 10] div_mult_mod_eq [of n 100] by linarith
  moreover have "?a div 10 < 10" "?a mod 10 < 10" "?b div 10 < 10" "?b mod 10 < 10"
    using a b by (auto simp: less_mult_imp_div_less)
  ultimately show ?thesis using assms(2) n by (simp add: fmt_year_def fmt2_def digit_val_char del: div_mult2_eq)
qed

lemma skip_lit_append [simp]: "skip_lit p (p @ s) = Some s"
  by (simp add: skip_lit_def)

lemma clock_of_bounds:
  assumes "clock_of t = (h, mi, s)"
  shows "h < 24" "mi < 60" "s < 60" "int (h * 3600 + mi * 60 + s) = unix_secs t mod 86400"
proof -
  let ?n = "nat (unix_secs t mod 86400)"
  have n: "?n < 86400" "int ?n = unix_secs t mod 86400" by auto
  have e: "h = ?n div 3600" "mi = ?n div 60 mod 60" "s = ?n mod 60"
    using assms by (auto simp: clock_of_def Let_def)
  have q: "?n div 3600 = ?n div 60 div 60" by (simp add: div_mult2_eq [symmetric])
  have "?n div 60 div 60 * 3600 + ?n div 60 mod 60 * 60 + ?n mod 60 = ?n"
    using div_mult_mod_eq [of ?n 60] div_mult_mod_eq [of "?n div 60" 60] by linarith
  then show "int (h * 3600 + mi * 60 + s) = unix_secs t mod 86400" using n(2) by (simp only: e q)
  show "h < 24" "mi < 60" "s < 60" using n(1) unfolding e by auto
qed

text \<open>The instants whose year has four digits, the only ones the layouts can hold.\<close>

definition four_digit_year :: "int \<Rightarrow> bool" where
  "four_digit_year t = (case date_of t of (y, _, _) \<Rightarrow> 0 \<le> y \<and> y < 10000)"

lemma parse_layout_fmt:
  assumes y: "four_digit_year t" and zone: "zone z' = Some (0, [])" "get_frac z = (ns, z')"
  shows "parse_layout dsep mid csep zone (fmt_date_clock dsep mid csep t @ z)
    = Some (t div 1000000000 * 1000000000 + int ns)"
proof -
  obtain y m d where d: "date_of t = (y, m, d)" by (metis prod_cases3)
  obtain h mi s where c: "clock_of t = (h, mi, s)" by (metis prod_cases3)
  note cv = civil_of_days_valid [OF d [unfolded date_of_def]]
  note cb = clock_of_bounds [OF c]
  have y4: "0 \<le> y" "y < 10000" using y d by (auto simp: four_digit_year_def)
  have d31: "d \<le> 31" using cv(5) days_in_le [OF cv(2,3)] by (rule order_trans)
  have dn: "nat d < 100" "1 \<le> nat d" "int (nat d) = d" using cv(4) d31 by auto
  have "unix_secs t div 86400 * 86400 + unix_secs t mod 86400 = unix_secs t" by (rule div_mult_mod_eq)
  then have "time_of y m (nat d) h mi s ns 0 = Some (unix_secs t * 1000000000 + int ns)"
    using cv(1-5) cb dn by (simp add: time_of_def)
  then show ?thesis
    using cv(3) cb dn y4 zone
    by (simp add: parse_layout_def fmt_date_clock_def d c get_year_fmt getnum_fmt2 unix_secs_def)
qed

lemma parse_format_rfc3339:
  "four_digit_year t \<Longrightarrow> parse_rfc3339 (format_rfc3339 t) = Inr (t div 1000000000 * 1000000000)"
  by (simp add: parse_rfc3339_def format_rfc3339_def parse_layout_fmt [where ns = 0 and z' = "''Z''"]
      get_zone_def get_frac_def)

subsection \<open>Nanoseconds\<close>

lemma length_fmt_digits [simp]: "length (fmt_digits k n) = k"
  by (induction k arbitrary: n) auto

lemma digit_val_Some: "digit_val c = Some d \<longleftrightarrow> 48 \<le> (of_char c :: nat) \<and> (of_char c :: nat) \<le> 57 \<and> d = of_char c - 48"
  by (auto simp: digit_val_def Let_def)

lemma fmt_digits_digits: "c \<in> set (fmt_digits k n) \<Longrightarrow> digit_val c \<noteq> None"
  by (induction k arbitrary: n) (auto simp: digit_val_char)

lemma dec_val_fmt_digits: "n < 10 ^ k \<Longrightarrow> dec_val (fmt_digits k n) = n"
proof (induction k arbitrary: n)
  case (Suc k)
  have "n div 10 < 10 ^ k" using Suc.prems by (simp add: less_mult_imp_div_less mult.commute)
  with Suc.IH [of "n div 10"] show ?case
    by (simp add: dec_val_snoc digit_char_def)
qed (simp add: dec_val_def)

lemma dec_val_zeros: "dec_val (s @ replicate j (CHR ''0'')) = dec_val s * 10 ^ j"
proof (induction j)
  case (Suc j)
  have "s @ replicate (Suc j) (CHR ''0'') = (s @ replicate j (CHR ''0'')) @ [CHR ''0'']"
    by (simp add: replicate_append_same)
  then show ?case using Suc dec_val_snoc [of "s @ replicate j (CHR ''0'')" "CHR ''0''"] by simp
qed simp

lemma trim_right_split: "\<exists>j. s = trim_right_char c s @ replicate j c"
proof (induction s rule: rev_induct)
  case (snoc x s)
  then obtain j where j: "s = trim_right_char c s @ replicate j c" by blast
  show ?case
  proof (cases "x = c")
    case True
    then have "s @ [x] = trim_right_char c (s @ [x]) @ replicate (Suc j) c"
    proof -
      have "trim_right_char c (s @ [x]) = trim_right_char c s" using True by (simp add: trim_right_char_def)
      moreover have "s @ [x] = trim_right_char c s @ (replicate j c @ [c])" using True j by simp
      ultimately show ?thesis by (simp add: replicate_append_same)
    qed
    then show ?thesis by blast
  next
    case False
    then have "s @ [x] = trim_right_char c (s @ [x]) @ replicate 0 c"
      by (simp add: trim_right_char_def)
    then show ?thesis by blast
  qed
qed (simp add: trim_right_char_def)

lemma get_frac_digits:
  assumes "u \<noteq> []" "length u \<le> 9" "\<forall>c\<in>set u. digit_val c \<noteq> None"
  shows "get_frac (CHR ''.'' # u @ ''Z'') = (dec_val u * 10 ^ (9 - length u), ''Z'')"
proof -
  obtain c v where u: "u = c # v" using assms(1) by (cases u) auto
  have z: "digit_val (CHR ''Z'') = None" by (simp add: digit_val_def)
  have "takeWhile (\<lambda>c. digit_val c \<noteq> None) (u @ ''Z'') = u @ takeWhile (\<lambda>c. digit_val c \<noteq> None) ''Z''"
    using assms(3) by (intro takeWhile_append2) auto
  then have t: "takeWhile (\<lambda>c. digit_val c \<noteq> None) (u @ ''Z'') = u" using z by simp
  have c: "digit_val c \<noteq> None" using assms(3) u by simp
  have "get_frac (CHR ''.'' # c # (v @ ''Z'')) = (let ds = takeWhile (\<lambda>c. digit_val c \<noteq> None) (c # v @ ''Z'');
      k = take 9 ds in (dec_val k * 10 ^ (9 - length k), drop (length ds) (c # v @ ''Z'')))"
    using c by (simp add: get_frac_def)
  also have "c # v @ ''Z'' = u @ ''Z''" by (simp add: u)
  finally show ?thesis using assms(2) unfolding t by (simp add: u Let_def)
qed

lemma get_frac_nanos:
  assumes "n < 1000000000" "n \<noteq> 0"
  shows "get_frac (CHR ''.'' # trim_right_char (CHR ''0'') (fmt_digits 9 n) @ ''Z'') = (n, ''Z'')"
proof -
  let ?s = "fmt_digits 9 n" and ?u = "trim_right_char (CHR ''0'') (fmt_digits 9 n)"
  obtain j where j: "?s = ?u @ replicate j (CHR ''0'')" using trim_right_split by blast
  have v: "dec_val ?u * 10 ^ j = n"
    using dec_val_fmt_digits [of n 9] assms(1) arg_cong [OF j, of dec_val] by (simp add: dec_val_zeros)
  then have ne: "?u \<noteq> []" using assms(2) by (auto simp: dec_val_def)
  have l: "length ?u + j = 9" using arg_cong [OF j, of length] by simp
  have "\<forall>c\<in>set ?u. digit_val c \<noteq> None" using fmt_digits_digits j by (metis Un_iff set_append)
  moreover have "length ?u \<le> 9" "9 - length ?u = j" using l by linarith+
  ultimately show ?thesis using get_frac_digits [OF ne] v by simp
qed

lemma parse_format_rfc3339nano:
  assumes "four_digit_year t" shows "parse_rfc3339 (format_rfc3339nano t) = Inr t"
proof -
  define n where "n = nat (t mod 1000000000)"
  have n: "n < 1000000000" "t div 1000000000 * 1000000000 + int n = t"
    by (auto simp: n_def nat_less_iff)
  define z where "z = (if n = 0 then [] else CHR ''.'' # trim_right_char (CHR ''0'') (fmt_digits 9 n)) @ ''Z''"
  have "get_frac z = (n, ''Z'')"
  proof (cases "n = 0")
    case True
    then show ?thesis by (simp add: z_def get_frac_def)
  next
    case False
    with get_frac_nanos [OF n(1) False] show ?thesis by (simp only: z_def if_False append_Cons)
  qed
  then have "parse_layout ''-'' ''T'' '':'' get_zone (fmt_date_clock ''-'' ''T'' '':'' t @ z) = Some t"
    using parse_layout_fmt [OF assms, of get_zone "''Z''" z n] n(2) by (simp add: get_zone_def)
  moreover have "format_rfc3339nano t = fmt_date_clock ''-'' ''T'' '':'' t @ z"
    by (simp only: format_rfc3339nano_def z_def n_def Let_def)
  ultimately show ?thesis by (simp add: parse_rfc3339_def)
qed

section \<open>Durations\<close>

type_synonym duration = "64 word"

definition second :: duration where
  "second = 1000000000"

text \<open>
  \<open>time.ParseDuration\<close>: a sign, then numbers with units.  A number is read into an unsigned
  64-bit integer that may not exceed \<open>2 ^ 63\<close>; its fraction is scaled in float64.
\<close>

definition is_num_byte :: "char \<Rightarrow> bool" where
  "is_num_byte c = (c = CHR ''.'' \<or> digit_val c \<noteq> None)"

definition dur_unit :: "string \<Rightarrow> nat option" where
  "dur_unit u =
     map_of [(''ns'', 1), (''us'', 1000), ([CHR 0xC2, CHR 0xB5, CHR ''s''], 1000),
       ([CHR 0xCE, CHR 0xBC, CHR ''s''], 1000), (''ms'', 1000000), (''s'', 1000000000),
       (''m'', 60000000000), (''h'', 3600000000000)] u"

fun leading_int :: "nat \<Rightarrow> string \<Rightarrow> (nat \<times> string) option" where
  "leading_int x [] = Some (x, [])"
| "leading_int x (c # s) =
     (case digit_val c of
        None \<Rightarrow> Some (x, c # s)
      | Some k \<Rightarrow> if 2 ^ 63 div 10 < x then None
                  else if 2 ^ 63 < x * 10 + k then None else leading_int (x * 10 + k) s)"

text \<open>Value and number of digits kept of a fraction; digits after an overflow are dropped.\<close>

fun leading_fraction :: "nat \<Rightarrow> nat \<Rightarrow> bool \<Rightarrow> string \<Rightarrow> nat \<times> nat \<times> string" where
  "leading_fraction x k over [] = (x, k, [])"
| "leading_fraction x k over (c # s) =
     (case digit_val c of
        None \<Rightarrow> (x, k, c # s)
      | Some d \<Rightarrow> if over \<or> (2 ^ 63 - 1) div 10 < x \<or> 2 ^ 63 < x * 10 + d
                  then leading_fraction x k True s
                  else leading_fraction (x * 10 + d) (Suc k) False s)"

definition frac_units :: "nat \<Rightarrow> nat \<Rightarrow> nat \<Rightarrow> nat" where
  "frac_units f k unit =
     nat \<lfloor>fval (fmul (fof_int (int f)) (fdiv (fof_int (int unit)) (fof_int (10 ^ k))))\<rfloor>"

lemma leading_int_length: "leading_int x s = Some (v, r) \<Longrightarrow> length r \<le> length s"
proof (induction x s rule: leading_int.induct)
  case (2 x c s)
  then show ?case by (auto split: option.splits if_splits intro: le_SucI)
qed simp

lemma leading_fraction_length: "leading_fraction x k b s = (f, j, r) \<Longrightarrow> length r \<le> length s"
proof (induction x k b s rule: leading_fraction.induct)
  case (2 x k b c s)
  then show ?case by (auto split: option.splits if_splits intro: le_SucI)
qed simp

text \<open>One number with its unit; \<open>None\<close> is the error \<open>invalid duration\<close>.\<close>

definition dur_number :: "string \<Rightarrow> (nat \<times> string) option" where
  "dur_number s =
     Option.bind (leading_int 0 s) (\<lambda>(v, s1).
     let pre = (length s1 \<noteq> length s);
         (f, k, s2, post) =
           (case s1 of
              c # s' \<Rightarrow> if c = CHR ''.''
                then (case leading_fraction 0 0 False s' of (f, k, r) \<Rightarrow> (f, k, r, length r \<noteq> length s'))
                else (0, 0, s1, False)
            | [] \<Rightarrow> (0, 0, s1, False));
         u = takeWhile (\<lambda>c. \<not> is_num_byte c) s2
     in if \<not> pre \<and> \<not> post \<or> u = [] then None
        else Option.bind (dur_unit u) (\<lambda>unit.
          if 2 ^ 63 div unit < v then None
          else let w = v * unit + (if 0 < f then frac_units f k unit else 0)
               in if 2 ^ 63 < w then None else Some (w, drop (length u) s2)))"

lemma dur_number_shorter: "dur_number s = Some (v, r) \<Longrightarrow> length r < length s"
proof -
  assume a: "dur_number s = Some (v, r)"
  then obtain w s1 where l: "leading_int 0 s = Some (w, s1)"
    by (auto simp: dur_number_def bind_eq_Some_conv)
  have s1: "length s1 \<le> length s" by (rule leading_int_length [OF l])
  show ?thesis
    using a l s1
    by (auto simp: dur_number_def bind_eq_Some_conv Let_def neq_Nil_conv
        split: list.splits if_splits prod.splits dest!: leading_fraction_length)
qed

function dur_sum :: "nat \<Rightarrow> string \<Rightarrow> nat option" where
  "dur_sum d s =
     (if s = [] then Some d
      else case dur_number s of
          None \<Rightarrow> None
        | Some (v, r) \<Rightarrow> if 2 ^ 63 < (d + v) mod 2 ^ 64 then None else dur_sum ((d + v) mod 2 ^ 64) r)"
  by pat_completeness auto
termination by (relation "measure (length \<circ> snd)") (auto dest: dur_number_shorter)

declare dur_sum.simps [simp del]

definition parse_duration :: "string \<Rightarrow> duration res" where
  "parse_duration s =
     (let neg = (s \<noteq> [] \<and> hd s = CHR ''-'');
          t = (if s \<noteq> [] \<and> (hd s = CHR ''-'' \<or> hd s = CHR ''+'') then tl s else s);
          bad = Inl (errorf (''time: invalid duration '' @ quote s))
      in if t = ''0'' then Inr 0
         else if t = [] then bad
         else case dur_sum 0 t of
             None \<Rightarrow> bad
           | Some d \<Rightarrow> if neg then Inr (- of_nat d)
                       else if 2 ^ 63 - 1 < d then bad else Inr (of_nat d))"


lemma length_nat_str_ge: "10 ^ k \<le> n \<Longrightarrow> Suc k \<le> length (nat_str n)"
proof (induction k arbitrary: n)
  case 0
  then show ?case using nat_str_not_Nil [of n] by (cases "nat_str n") auto
next
  case (Suc k)
  then have "10 ^ k \<le> n div 10" by (simp add: less_eq_div_iff_mult_less_eq)
  then have "Suc k \<le> length (nat_str (n div 10))" by (rule Suc.IH)
  moreover have "10 \<le> n" using Suc.prems order_trans [of 10 "10 * 10 ^ k" n] by simp
  then have "nat_str n = nat_str (n div 10) @ [char_of (48 + n mod 10)]" by (subst nat_str.simps) simp
  ultimately show ?case by simp
qed

lemma get_year_long:
  assumes "10000 \<le> n" "get_year (nat_str n @ r) = Some (y, q)" shows "skip_lit ''-'' q = None"
proof -
  have "5 \<le> length (nat_str n)" using length_nat_str_ge [of 4 n] assms(1) by simp
  then obtain a b c d e s where n: "nat_str n = a # b # c # d # e # s"
    by (metis Suc_le_length_iff numeral_eq_Suc pred_numeral_simps(1-3) BitM.simps(1-2) One_nat_def)
  then have "e \<in> set (nat_str n)" by simp
  then have "e \<noteq> CHR ''-''" using nat_str_no_dot(2) [of n] by metis
  then show ?thesis using assms(2) by (auto simp: n skip_lit_def has_prefix_def split: option.splits)
qed

lemma parse_format_no_year:
  assumes "\<not> four_digit_year t" shows "parse_rfc3339 (format_rfc3339 t) = Inl (parse_error (format_rfc3339 t))"
proof -
  obtain y m d where d: "date_of t = (y, m, d)" by (metis prod_cases3)
  obtain h mi s where c: "clock_of t = (h, mi, s)" by (metis prod_cases3)
  have y: "y < 0 \<or> 10000 \<le> y" using assms d by (auto simp: four_digit_year_def)
  obtain r where f: "format_rfc3339 t = fmt_year y @ r" by (auto simp: format_rfc3339_def fmt_date_clock_def d c)
  have "parse_layout ''-'' ''T'' '':'' get_zone (fmt_year y @ r) = None"
  proof (cases "y < 0")
    case True
    then obtain r' where "fmt_year y = CHR ''-'' # r'" by (auto simp: fmt_year_def)
    moreover have "get_year (CHR ''-'' # q) = None" for q
      by (cases q; cases "tl q"; cases "tl (tl q)") (auto simp: digit_val_def)
    ultimately show ?thesis by (simp add: parse_layout_def)
  next
    case False
    with y have "fmt_year y = nat_str (nat y)" "10000 \<le> nat y" by (auto simp: fmt_year_def)
    then show ?thesis using get_year_long [of "nat y" r]
      by (cases "get_year (nat_str (nat y) @ r)") (auto simp: parse_layout_def)
  qed
  then show ?thesis by (simp add: parse_rfc3339_def f)
qed

lemma format_rfc3339_cong: "t div 1000000000 = u div 1000000000 \<Longrightarrow> format_rfc3339 t = format_rfc3339 u"
  by (simp add: format_rfc3339_def fmt_date_clock_def date_of_def clock_of_def unix_secs_def)


end
