(* ===== verification/Api.thy ===== *)
theory Api
  imports Json
begin

text \<open>
  The custom resources of \<open>api/v1alpha1\<close>, field for field.  Object metadata keeps the parts
  the controllers read and write; a pointer is an \<open>option\<close>, a Go map an association list (a
  nil map and an empty one behave alike here), a \<open>metav1.Time\<close> its instant in nanoseconds,
  an \<open>int\<close> counter a 64-bit word where the program adds to it.
\<close>

type_synonym strmap = "(string \<times> string) list"

section \<open>Shared parts\<close>

record k8s_meta =
  km_name :: string
  km_namespace :: string
  km_labels :: strmap
  km_annotations :: strmap
  km_generation :: int
  km_uid :: string
  km_finalizers :: "string list"
  km_deleting :: bool
  km_owner :: "(string \<times> string) option"

text \<open>
  The metadata of a composite literal with a name, a namespace and labels.  \<open>km_deleting\<close> is
  \<open>DeletionTimestamp != nil\<close>, \<open>km_owner\<close> the kind and name of the controlling owner.
\<close>

definition new_meta :: "string \<Rightarrow> string \<Rightarrow> strmap \<Rightarrow> k8s_meta" where
  "new_meta name ns labels = \<lparr>km_name = name, km_namespace = ns, km_labels = labels, km_annotations = [],
     km_generation = 0, km_uid = [], km_finalizers = [], km_deleting = False, km_owner = None\<rparr>"

lemma new_meta_fields [simp]:
  "km_name (new_meta n ns l) = n" "km_namespace (new_meta n ns l) = ns" "km_labels (new_meta n ns l) = l"
  "km_annotations (new_meta n ns l) = []" "km_uid (new_meta n ns l) = []" "km_finalizers (new_meta n ns l) = []"
  "km_generation (new_meta n ns l) = 0" "\<not> km_deleting (new_meta n ns l)" "km_owner (new_meta n ns l) = None"
  by (simp_all add: new_meta_def)

record k8s_condition =
  kc_type :: string
  kc_status :: string
  kc_observed_generation :: int
  kc_last_transition :: int
  kc_reason :: string
  kc_message :: string

record api_source =
  as_inline :: "gmap option"
  as_path :: string
  as_uri :: string

record api_snap_spec =
  ass_time_slice :: string
  ass_source :: api_source
  ass_context_ref :: string
  ass_sealed :: bool

record api_snap_status =
  ast_observed_generation :: int
  ast_phase :: string
  ast_snapshot_id :: string
  ast_sealed_at :: "int option"
  ast_message :: string
  ast_conditions :: "k8s_condition list"

record api_snapshot =
  asn_meta :: k8s_meta
  asn_spec :: api_snap_spec
  asn_status :: api_snap_status

record api_dom_input =
  adi_from_domino :: string
  adi_from_snapshot :: string

record api_dom_spec =
  ads_name :: string
  ads_snapshot_ref :: string
  ads_command :: string
  ads_depends_on :: "string list"
  ads_inputs :: "api_dom_input list"
  ads_image :: string

record api_domres_spec =
  adr_snapshot_ref :: string
  adr_command :: string
  adr_depends_on :: "string list"
  adr_inputs :: "api_dom_input list"
  adr_image :: string
  adr_store_path :: string

record api_domres_status =
  adt_observed_generation :: int
  adt_phase :: string
  adt_input_hash :: string
  adt_output_hash :: string
  adt_reused :: bool
  adt_completed_at :: "int option"
  adt_message :: string
  adt_prev_link :: string
  adt_head_link :: string
  adt_conditions :: "k8s_condition list"

record api_domino =
  adn_meta :: k8s_meta
  adn_spec :: api_domres_spec
  adn_status :: api_domres_status

section \<open>Workflow\<close>

record api_execution =
  ae_chain :: "string list"
  ae_deterministic :: bool
  ae_runtime :: string
  ae_volcano_queue :: string

record api_provisioning =
  ap_store_path :: string
  ap_node_local :: bool
  ap_runner_image :: string
  ap_node_selector :: strmap
  ap_net_none :: bool
  ap_ro_root :: bool

record api_routing =
  ar_universe :: string
  ar_context_ref :: string
  ar_multiverse_ref :: string

record api_wf_spec =
  aws_snapshot :: api_snap_spec
  aws_snapshot_ref :: string
  aws_dominos :: "api_dom_spec list"
  aws_domino_refs :: "string list"
  aws_execution :: api_execution
  aws_provisioning :: api_provisioning
  aws_routing :: api_routing

record api_domino_result =
  adres_domino_id :: string
  adres_input_hash :: string
  adres_output_hash :: string
  adres_reused :: bool

record api_wf_status =
  awt_observed_generation :: int
  awt_phase :: string
  awt_snapshot_id :: string
  awt_domino_count :: int
  awt_reused_count :: int
  awt_recomputed_count :: int
  awt_last_run :: "int option"
  awt_message :: string
  awt_replay_log_ref :: string
  awt_domino_results :: "api_domino_result list"
  awt_conditions :: "k8s_condition list"
  awt_homeostatic :: bool
  awt_head_link :: string
  awt_work_evaluations :: int
  awt_work_cost :: f64

record api_workflow =
  awf_meta :: k8s_meta
  awf_spec :: api_wf_spec
  awf_status :: api_wf_status

section \<open>Compute contexts and the wheel\<close>

record api_ctx_spec =
  acs_node_name :: string
  acs_store_path :: string
  acs_store_type :: string
  acs_store_endpoint :: string
  acs_data_path :: string

record api_ctx_status =
  act_phase :: string
  act_store_endpoint :: string
  act_snapshot_count :: int
  act_cache_entries :: int
  act_conditions :: "k8s_condition list"

record api_context =
  acx_meta :: k8s_meta
  acx_spec :: api_ctx_spec
  acx_status :: api_ctx_status

record api_wf_template =
  atp_snapshot :: api_snap_spec
  atp_snapshot_ref :: string
  atp_dominos :: "api_dom_spec list"
  atp_domino_refs :: "string list"
  atp_execution :: api_execution
  atp_provisioning :: api_provisioning
  atp_routing :: api_routing

record api_wheel_spec =
  aww_contexts :: "string list"
  aww_window_depth :: "64 word"
  aww_window_arity :: "64 word"
  aww_interval :: string
  aww_template :: api_wf_template
  aww_start_slice :: "string option"
  aww_max_rotations :: "64 word"
  aww_pre_provision :: bool
  aww_volcano_queue :: string
  aww_node_selector :: strmap

record api_processed_slot =
  aps_time_slice :: string
  aps_context :: string
  aps_workflow :: string
  aps_snapshot_id :: string
  aps_completed_at :: string

record api_wheel_status =
  awst_phase :: string
  awst_time_slice :: string
  awst_context :: string
  awst_context_index :: "64 word"
  awst_workflow :: string
  awst_last_rotation :: "int option"
  awst_rotation_count :: "64 word"
  awst_slots :: "api_processed_slot list"
  awst_message :: string
  awst_conditions :: "k8s_condition list"

record api_wheel =
  awl_meta :: k8s_meta
  awl_spec :: api_wheel_spec
  awl_status :: api_wheel_status

section \<open>Universes\<close>

record partition_rule =
  pr_key :: string
  pr_values :: "string list"

record universe_route =
  ur_name :: string
  ur_universe_ref :: string
  ur_context_ref :: string
  ur_partitions :: "partition_rule list"

record slice_route =
  sr_time_slice :: string
  sr_universe :: string
  sr_context_ref :: string

record kafka_sync =
  ks_brokers :: "string list"
  ks_topic :: string
  ks_group_id :: string
  ks_cdc_topic :: string

record sync_spec =
  sy_enabled :: bool
  sy_kafka :: "kafka_sync option"

record multiverse_spec =
  ms_default :: string
  ms_universes :: "universe_route list"
  ms_slice_routes :: "slice_route list"
  ms_sync :: "sync_spec option"

record routed_event =
  ro_event_id :: string
  ro_snapshot_id :: string
  ro_time_slice :: string
  ro_workflow :: string
  ro_universe :: string
  ro_context_ref :: string
  ro_routed_at :: string

record multiverse_status =
  mst_phase :: string
  mst_universe_count :: int
  mst_kafka :: bool
  mst_routed :: "routed_event list"
  mst_message :: string
  mst_conditions :: "k8s_condition list"

record api_multiverse =
  amv_meta :: k8s_meta
  amv_spec :: multiverse_spec
  amv_status :: multiverse_status

record data_layer =
  dl_type :: string
  dl_config :: gmap

record engine_spec =
  en_type :: string
  en_runtime_image :: string

record provisioning_model =
  pm_autoscaler :: bool
  pm_min_nodes :: int
  pm_max_nodes :: int

record universe_spec =
  us_display_name :: string
  us_engine :: engine_spec
  us_data_layer :: data_layer
  us_provisioning :: "provisioning_model option"

record universe_status =
  ust_phase :: string
  ust_context_count :: int
  ust_message :: string

record api_universe =
  apu_meta :: k8s_meta
  apu_spec :: universe_spec
  apu_status :: universe_status

record cdc_sync =
  cs_brokers :: "string list"
  cs_topic :: string
  cs_group_id :: string

record replica_spec =
  rs_multiverse_ref :: string
  rs_routed_event_id :: string
  rs_snapshot_id :: string
  rs_workflow :: string
  rs_namespace :: string
  rs_time_slice :: string
  rs_universe :: string
  rs_context_ref :: string
  rs_universe_ref :: string
  rs_output_hash :: string
  rs_partitions :: strmap
  rs_mode :: string
  rs_cdc :: "cdc_sync option"

record replica_status =
  rst_observed_generation :: int
  rst_phase :: string
  rst_domino_count :: int
  rst_store_path :: string
  rst_materialized_at :: "int option"
  rst_message :: string
  rst_conditions :: "k8s_condition list"

record api_replica =
  arr_meta :: k8s_meta
  arr_spec :: replica_spec
  arr_status :: replica_status

section \<open>Domino chains\<close>

record api_step =
  dst_name :: string
  dst_image :: string
  dst_command :: string
  dst_args :: "string list"

record api_chain_spec =
  dcs_snapshot :: api_snap_spec
  dcs_steps :: "api_step list"
  dcs_runtime :: string
  dcs_store_path :: string
  dcs_runner_image :: string
  dcs_node_selector :: strmap
  dcs_volcano_queue :: string

record api_step_result =
  dsr_name :: string
  dsr_index :: int
  dsr_output_hash :: string
  dsr_phase :: string

record api_chain_status =
  dct_phase :: string
  dct_active_step :: int
  dct_pod_name :: string
  dct_snapshot_id :: string
  dct_final_output_hash :: string
  dct_step_results :: "api_step_result list"
  dct_message :: string
  dct_conditions :: "k8s_condition list"

record api_chain =
  dch_meta :: k8s_meta
  dch_spec :: api_chain_spec
  dch_status :: api_chain_status

section \<open>Zero values\<close>

text \<open>What Go gives a field that is not set.\<close>

definition empty_source :: api_source where
  "empty_source = \<lparr>as_inline = None, as_path = '''', as_uri = ''''\<rparr>"

definition empty_snap_spec :: api_snap_spec where
  "empty_snap_spec = \<lparr>ass_time_slice = '''', ass_source = empty_source, ass_context_ref = '''', ass_sealed = False\<rparr>"

definition empty_wf_status :: api_wf_status where
  "empty_wf_status = \<lparr>awt_observed_generation = 0, awt_phase = '''', awt_snapshot_id = '''',
     awt_domino_count = 0, awt_reused_count = 0, awt_recomputed_count = 0, awt_last_run = None,
     awt_message = '''', awt_replay_log_ref = '''', awt_domino_results = [], awt_conditions = [],
     awt_homeostatic = False, awt_head_link = '''', awt_work_evaluations = 0, awt_work_cost = FFin 0\<rparr>"

definition no_provisioning :: api_provisioning where
  "no_provisioning = \<lparr>ap_store_path = '''', ap_node_local = False, ap_runner_image = '''', ap_node_selector = [],
     ap_net_none = False, ap_ro_root = False\<rparr>"

definition no_routing :: api_routing where
  "no_routing = \<lparr>ar_universe = '''', ar_context_ref = '''', ar_multiverse_ref = ''''\<rparr>"

text \<open>A new workflow object with nothing but inline dominos and a chain, for concrete inputs.\<close>

definition plain_workflow :: "string \<Rightarrow> api_dom_spec list \<Rightarrow> string list \<Rightarrow> api_workflow" where
  "plain_workflow name dominos chain = \<lparr>awf_meta = new_meta name ''ns'' [],
     awf_spec = \<lparr>aws_snapshot = empty_snap_spec, aws_snapshot_ref = '''', aws_dominos = dominos, aws_domino_refs = [],
       aws_execution = \<lparr>ae_chain = chain, ae_deterministic = True, ae_runtime = '''', ae_volcano_queue = ''''\<rparr>,
       aws_provisioning = no_provisioning, aws_routing = no_routing\<rparr>,
     awf_status = empty_wf_status\<rparr>"

definition plain_dom_spec :: "string \<Rightarrow> string \<Rightarrow> api_dom_spec" where
  "plain_dom_spec name command = \<lparr>ads_name = name, ads_snapshot_ref = '''', ads_command = command,
     ads_depends_on = [], ads_inputs = [], ads_image = ''''\<rparr>"

end
