(* ===== verification/Aggregation.thy ===== *)
theory Aggregation
  imports Purity "HOL-Library.Signed_Division"
begin

text \<open>
  The windowed aggregation tree of \<open>pkg/theory/aggregation.go\<close>, the workflow built from it
  in \<open>unfold_workflow.go\<close>, and the payload entropy of \<open>entropy.go\<close>.  A \<open>*Node\<close> that may be
  nil is an \<open>option\<close>; children built by the package are never nil.  \<open>math.Log\<close> and
  \<open>math.Log2\<close> are parameters.  The lemmas count the tree against the closed formulas of the
  code on 64-bit integers and show that the generated chain passes every gate of the engine.
\<close>

section \<open>Trees\<close>

datatype node = Node (n_label: string) (n_depth: int) (n_value: f64) (n_children: "node list")

function unfold :: "int \<Rightarrow> int \<Rightarrow> string \<Rightarrow> f64 \<Rightarrow> node" where
  "unfold depth arity label value =
     (if depth \<le> 0 \<or> arity \<le> 0 then Node label depth value []
      else let share = fdiv value (fof_int arity)
        in Node label depth value
          (map (\<lambda>i. unfold (depth - 1) arity (label @ CHR ''.'' # int_str i) share) [0..arity - 1]))"
  by pat_completeness auto
termination by (relation "measure (\<lambda>(d, _). nat d)") auto

declare unfold.simps [simp del]

text \<open>\<open>for _, c := range n.Children { sum += c.Value }\<close> on float64.\<close>

fun sum_values :: "f64 \<Rightarrow> node list \<Rightarrow> f64" where
  "sum_values s [] = s"
| "sum_values s (c # cs) = sum_values (fadd s (n_value c)) cs"

fun max_depth :: "int \<Rightarrow> node list \<Rightarrow> int" where
  "max_depth m [] = m"
| "max_depth m (c # cs) = max_depth (if n_depth c > m then n_depth c else m) cs"

fun coarsen_node :: "node \<Rightarrow> node" where
  "coarsen_node (Node l d v cs) =
     (if cs = [] then Node l d v []
      else if list_all (\<lambda>c. n_children c = []) cs then Node l 0 (sum_values (FFin 0) cs) []
      else let cs' = map coarsen_node cs
        in Node l (max_depth 0 cs' + 1) (sum_values (FFin 0) cs') cs')"

definition coarsen :: "node option \<Rightarrow> node option" where
  "coarsen n = map_option coarsen_node n"

fun shape_equal_node :: "node \<Rightarrow> node \<Rightarrow> bool"
and shape_equal_list :: "node list \<Rightarrow> node list \<Rightarrow> bool" where
  "shape_equal_node (Node l d v cs) b =
     (if l \<noteq> n_label b \<or> length cs \<noteq> length (n_children b) then False
      else shape_equal_list cs (n_children b))"
| "shape_equal_list [] bs = True"
| "shape_equal_list (a # as) [] = True"
| "shape_equal_list (a # as) (b # bs) = (shape_equal_node a b \<and> shape_equal_list as bs)"

fun shape_equal :: "node option \<Rightarrow> node option \<Rightarrow> bool" where
  "shape_equal (Some a) (Some b) = shape_equal_node a b"
| "shape_equal None None = True"
| "shape_equal _ _ = False"

fun max_from :: "int \<Rightarrow> int list \<Rightarrow> int" where
  "max_from m [] = m"
| "max_from m (h # hs) = max_from (if h > m then h else m) hs"

fun height_node :: "node \<Rightarrow> int" where
  "height_node (Node l d v cs) =
     (if cs = [] then 0 else max_from 0 (map height_node cs) + 1)"

definition height :: "node option \<Rightarrow> int" where
  "height n = (case n of None \<Rightarrow> 0 | Some n \<Rightarrow> height_node n)"

definition entropy_tol :: f64 where
  "entropy_tol = fround (1 / 1000000000000)"

definition almost_equal :: "f64 \<Rightarrow> f64 \<Rightarrow> bool" where
  "almost_equal a b = fle (fabs (fsub a b)) entropy_tol"

fun values_equal_node :: "node \<Rightarrow> node \<Rightarrow> bool"
and values_equal_list :: "node list \<Rightarrow> node list \<Rightarrow> bool" where
  "values_equal_node (Node l d v cs) b =
     (if \<not> almost_equal v (n_value b) \<or> length cs \<noteq> length (n_children b) then False
      else values_equal_list cs (n_children b))"
| "values_equal_list [] bs = True"
| "values_equal_list (a # as) [] = True"
| "values_equal_list (a # as) (b # bs) = (values_equal_node a b \<and> values_equal_list as bs)"

fun values_equal :: "node option \<Rightarrow> node option \<Rightarrow> bool" where
  "values_equal (Some a) (Some b) = values_equal_node a b"
| "values_equal None None = True"
| "values_equal _ _ = False"

fun leaves_node :: "node \<Rightarrow> node list" where
  "leaves_node (Node l d v cs) =
     (if cs = [] then [Node l d v cs] else concat (map leaves_node cs))"

definition leaves :: "node option \<Rightarrow> node list" where
  "leaves n = (case n of None \<Rightarrow> [] | Some n \<Rightarrow> leaves_node n)"

text \<open>
  \<open>LeafCount\<close> and \<open>NodeCount\<close> multiply in a Go \<open>int\<close>, which wraps at 64 bits; the loop
  \<open>n *= arity\<close> runs once per remaining iteration.
\<close>

fun mul_loop :: "nat \<Rightarrow> 64 word \<Rightarrow> 64 word \<Rightarrow> 64 word" where
  "mul_loop 0 n arity = n"
| "mul_loop (Suc i) n arity = mul_loop i (n * arity) arity"

definition leaf_count :: "64 word \<Rightarrow> 64 word \<Rightarrow> 64 word" where
  "leaf_count depth arity =
     (if sint depth \<le> 0 \<or> sint arity \<le> 0 then 1 else mul_loop (nat (sint depth)) 1 arity)"

definition node_count :: "64 word \<Rightarrow> 64 word \<Rightarrow> 64 word" where
  "node_count depth arity =
     (if sint depth \<le> 0 \<or> sint arity \<le> 0 then 1
      else if arity = 1 then depth + 1
      else let pow = mul_loop (nat (sint depth + 1)) 1 arity
        in word_of_int (sint (pow - 1) sdiv sint (arity - 1)))"

definition similarity_dimension :: "(f64 \<Rightarrow> f64) \<Rightarrow> int \<Rightarrow> f64 \<Rightarrow> f64" where
  "similarity_dimension log_fn arity scale =
     (if arity \<le> 0 \<or> fle scale (FFin 1) then FFin 0
      else fdiv (log_fn (fof_int arity)) (log_fn scale))"

text \<open>\<open>z = z*z + c\<close> on complex128: the products and sums are rounded one by one.\<close>

fun escape_loop :: "nat \<Rightarrow> int \<Rightarrow> int \<Rightarrow> f64 \<times> f64 \<Rightarrow> f64 \<times> f64 \<Rightarrow> f64 \<Rightarrow> int" where
  "escape_loop 0 i maxIter z c radius = maxIter"
| "escape_loop (Suc n) i maxIter (zr, zi) (cr, ci) radius =
     (let re = fadd (fsub (fmul zr zr) (fmul zi zi)) cr;
          im = fadd (fadd (fmul zr zi) (fmul zi zr)) ci
      in if flt (fmul radius radius) (fadd (fmul re re) (fmul im im)) then i + 1
         else escape_loop n (i + 1) maxIter (re, im) (cr, ci) radius)"

definition escape_time :: "f64 \<times> f64 \<Rightarrow> int \<Rightarrow> f64 \<Rightarrow> int" where
  "escape_time c maxIter radius =
     escape_loop (nat maxIter) 0 maxIter (FFin 0, FFin 0) c radius"

section \<open>The workflow of a window\<close>

definition node_domino :: "node \<Rightarrow> domino" where
  "node_domino n =
     (let base = zero_domino\<lparr>d_meta := zero_meta\<lparr>m_name := n_label n\<rparr>\<rparr>
      in if n_children n = [] then base\<lparr>d_spec := zero_dom_spec\<lparr>ds_command := ''builtin:identity'',
             ds_inputs := [\<lparr>di_from_domino = '''', di_from_snapshot = ''snap''\<rparr>]\<rparr>\<rparr>
         else base\<lparr>d_spec := zero_dom_spec\<lparr>ds_command := ''builtin:coarsen'',
             ds_depends_on := map n_label (n_children n),
             ds_inputs := map (\<lambda>c. \<lparr>di_from_domino = n_label c, di_from_snapshot = ''''\<rparr>) (n_children n)\<rparr>\<rparr>)"

fun dominos_from_node :: "node \<Rightarrow> domino list \<times> string list" where
  "dominos_from_node (Node l d v cs) =
     (let parts = map dominos_from_node cs
      in (concat (map fst parts) @ [node_domino (Node l d v cs)], concat (map snd parts) @ [l]))"

definition workflow_from_unfold :: "int \<Rightarrow> int \<Rightarrow> snapshot \<Rightarrow> workflow" where
  "workflow_from_unfold depth arity snap =
     (let root = unfold depth arity ''n'' (FFin 1);
          (dominos, chain) = dominos_from_node root;
          snap' = if m_name (sn_meta snap) = ''''
                  then snap\<lparr>sn_meta := (sn_meta snap)\<lparr>m_name := ''unfold-snap''\<rparr>\<rparr> else snap
      in \<lparr>wf_api_version = '''', wf_kind = ''Workflow'', wf_meta = zero_meta\<lparr>m_name := ''unfold''\<rparr>,
          wf_spec = \<lparr>ws_snapshot = snap', ws_dominos = dominos,
            ws_execution = \<lparr>ex_chain = chain, ex_deterministic = True\<rparr>,
            ws_provisioning = zero_provisioning, ws_routing = zero_routing\<rparr>\<rparr>)"

section \<open>Entropy\<close>

definition byte_freq :: "string \<Rightarrow> nat \<Rightarrow> nat" where
  "byte_freq data b = length (filter (\<lambda>c. of_char c = b) data)"

fun entropy_loop :: "(f64 \<Rightarrow> f64) \<Rightarrow> f64 \<Rightarrow> f64 \<Rightarrow> nat list \<Rightarrow> f64" where
  "entropy_loop log2_fn n h [] = h"
| "entropy_loop log2_fn n h (c # cs) =
     (if c = 0 then entropy_loop log2_fn n h cs
      else let p = fdiv (fof_int (int c)) n
        in entropy_loop log2_fn n (fsub h (fmul p (log2_fn p))) cs)"

definition shannon_bits :: "(f64 \<Rightarrow> f64) \<Rightarrow> string \<Rightarrow> f64" where
  "shannon_bits log2_fn data =
     (if data = [] then FFin 0
      else entropy_loop log2_fn (fof_int (int (length data))) (FFin 0) (map (byte_freq data) [0..<256]))"

definition seal_ensemble :: "string list \<Rightarrow> string \<Rightarrow> string list" where
  "seal_ensemble prior sealed = (if sealed \<in> set prior then [sealed] else [])"

section \<open>Counting and labelling\<close>

lemma unfold_leaf: "depth \<le> 0 \<or> arity \<le> 0 \<Longrightarrow> unfold depth arity l v = Node l depth v []"
  by (subst unfold.simps) simp

lemma unfold_inner:
  assumes "0 < d" "0 < k"
  shows "unfold d k l v = Node l d v
    (map (\<lambda>i. unfold (d - 1) k (l @ CHR ''.'' # int_str i) (fdiv v (fof_int k))) [0..k - 1])"
  using assms by (subst unfold.simps) (simp add: Let_def)

lemma unfold_fields [simp]:
  "n_label (unfold d k l v) = l" "n_depth (unfold d k l v) = d" "n_value (unfold d k l v) = v"
  by (subst unfold.simps, simp add: Let_def)+

lemma upto_ne [simp]: "[0..k - 1] = [] \<longleftrightarrow> k \<le> (0::int)"
  by auto

lemma unfold_children_Nil [simp]: "n_children (unfold d k l v) = [] \<longleftrightarrow> d \<le> 0 \<or> k \<le> 0"
  by (subst unfold.simps) (auto simp: Let_def)

lemma unfold_induct [consumes 1, case_names leaf inner]:
  assumes "0 < k"
    and leaf: "\<And>d l v. d \<le> 0 \<Longrightarrow> unfold d k l v = Node l d v [] \<Longrightarrow> P d l v"
    and inner: "\<And>d l v. 0 < d
      \<Longrightarrow> unfold d k l v = Node l d v
            (map (\<lambda>i. unfold (d - 1) k (l @ CHR ''.'' # int_str i) (fdiv v (fof_int k))) [0..k - 1])
      \<Longrightarrow> (\<And>i w. P (d - 1) (l @ CHR ''.'' # int_str i) w) \<Longrightarrow> P d l v"
  shows "P d l v"
proof (induction "nat d" arbitrary: d l v)
  case 0
  then show ?case using leaf by (simp add: unfold_leaf)
next
  case (Suc n)
  then have d: "0 < d" "n = nat (d - 1)" by auto
  have "P (d - 1) (l @ CHR ''.'' # int_str i) w" for i w
    by (rule Suc.hyps(1) [OF d(2)])
  then show ?case using inner [OF d(1) unfold_inner [OF d(1) assms(1)]] by simp
qed

fun tree_size :: "node \<Rightarrow> nat" where
  "tree_size (Node l d v cs) = Suc (sum_list (map tree_size cs))"

lemma sum_list_const: "(\<And>x. x \<in> set xs \<Longrightarrow> f x = (c::nat)) \<Longrightarrow> sum_list (map f xs) = length xs * c"
  by (induction xs) auto

lemma leaves_unfold:
  assumes "0 < k" shows "length (leaves_node (unfold d k l v)) = nat k ^ nat d"
  using assms
proof (induction d l v rule: unfold_induct)
  case (inner d l v)
  have "sum_list (map (\<lambda>i. length (leaves_node (unfold (d - 1) k (l @ CHR ''.'' # int_str i) (fdiv v (fof_int k))))) [0..k - 1])
      = length [0..k - 1] * nat k ^ nat (d - 1)"
    by (rule sum_list_const) (simp add: inner(3))
  also have "\<dots> = nat k ^ nat d"
    using inner(1) assms by (simp add: nat_diff_distrib flip: power_Suc)
  finally show ?case using assms inner(1,2) by (simp add: length_concat comp_def)
qed simp

text \<open>The number of cells of a perfect window, by depth.\<close>

fun cells :: "nat \<Rightarrow> nat \<Rightarrow> nat" where
  "cells k 0 = 1"
| "cells k (Suc d) = Suc (k * cells k d)"

lemma cells_geometric: "0 < k \<Longrightarrow> cells k d * (k - 1) + 1 = k ^ Suc d"
proof (induction d)
  case (Suc d)
  obtain j where k: "k = Suc j" using Suc.prems by (cases k) auto
  have "cells k (Suc d) * (k - 1) + 1 = (k - 1) + k * (cells k d * (k - 1)) + 1"
    by (simp add: algebra_simps)
  also have "\<dots> = k * (cells k d * (k - 1) + 1)" using k by simp
  also have "\<dots> = k ^ Suc (Suc d)" using Suc by simp
  finally show ?case .
qed simp

lemma size_unfold:
  assumes "0 < k" shows "tree_size (unfold d k l v) = cells (nat k) (nat d)"
  using assms
proof (induction d l v rule: unfold_induct)
  case (inner d l v)
  have "sum_list (map (\<lambda>i. tree_size (unfold (d - 1) k (l @ CHR ''.'' # int_str i) (fdiv v (fof_int k)))) [0..k - 1])
      = length [0..k - 1] * cells (nat k) (nat (d - 1))"
    by (rule sum_list_const) (simp add: inner(3))
  moreover from inner(1) obtain n where "nat d = Suc n" "nat (d - 1) = n"
    by (cases "nat d") auto
  ultimately show ?case using assms by (simp add: inner(2) comp_def)
qed simp

lemma mul_loop_eq: "mul_loop i n a = n * a ^ i"
  by (induction i n a rule: mul_loop.induct) (simp_all add: algebra_simps)

lemma word_of_pos: "0 < sint (a :: 64 word) \<Longrightarrow> of_nat (nat (sint a)) = a"
  by simp

text \<open>
  The closed formula for the leaves counts the leaves: for every depth and arity the
  machine integer \<open>LeafCount\<close> returns is the number of leaves of the unfolded window, up to
  the wrap-around of a 64-bit integer.
\<close>

theorem leaf_count_counts_leaves:
  "leaf_count depth arity
     = of_nat (length (leaves (Some (unfold (sint depth) (sint arity) l v))))"
proof (cases "sint depth \<le> 0 \<or> sint arity \<le> 0")
  case True
  then show ?thesis by (simp add: leaf_count_def leaves_def unfold_leaf)
next
  case False
  then have "of_nat (nat (sint arity) ^ nat (sint depth)) = arity ^ nat (sint depth)"
    by (simp add: word_of_pos del: of_nat_nat)
  with False show ?thesis
    by (simp add: leaf_count_def leaves_def leaves_unfold mul_loop_eq not_le)
qed

text \<open>
  \<open>NodeCount\<close> counts the cells of the window exactly, as long as its intermediate power
  arity to the depth plus one fits a signed 64-bit integer.
\<close>

theorem node_count_counts_cells:
  assumes "sint depth + 1 < 2 ^ 63"
    and "sint arity > 0 \<Longrightarrow> sint depth > 0 \<Longrightarrow> sint arity ^ (nat (sint depth) + 1) < 2 ^ 63"
  shows "sint (node_count depth arity)
    = int (tree_size (unfold (sint depth) (sint arity) l v))"
proof (cases "sint depth \<le> 0 \<or> sint arity \<le> 0")
  case True
  then show ?thesis by (auto simp: node_count_def unfold_leaf)
next
  case False
  define k d where "k = nat (sint arity)" and "d = nat (sint depth)"
  have k: "0 < k" "sint arity = int k" "arity = of_nat k" and d: "sint depth = int d" "0 < d"
    using False by (simp_all add: k_def d_def)
  have size: "tree_size (unfold (sint depth) (sint arity) l v) = cells k d"
    using k d by (simp add: size_unfold)
  show ?thesis
  proof (cases "arity = 1")
    case True
    then have "k = 1" using k by simp
    moreover have "cells 1 n = Suc n" for n by (induction n) auto
    moreover have "sint (depth + 1) = sint depth + 1"
      using assms(1) False by (simp add: sint_word_ariths signed_take_bit_int_eq_self)
    ultimately show ?thesis using True False size d by (simp add: node_count_def)
  next
    case False2: False
    have pw: "int k ^ Suc d < 2 ^ 63" using assms(2) False k d by simp
    have g: "int (cells k d) * (int k - 1) + 1 = int k ^ Suc d"
      using arg_cong [OF cells_geometric [OF k(1)], of int d] k(1)
      by (simp add: of_nat_diff)
    have k2: "1 < k" using False2 k by (cases "k = 1") auto
    have kk: "int k \<le> int k ^ Suc d" using k(1) self_le_power [of "int k" "Suc d"] by simp
    have pow: "sint (arity ^ Suc d - 1) = int k ^ Suc d - 1"
    proof -
      have "arity ^ Suc d - 1 = word_of_int (int k ^ Suc d - 1)"
        using k(3) by simp
      moreover have "sint (word_of_int (int k ^ Suc d - 1) :: 64 word) = int k ^ Suc d - 1"
        by (rule sint64_of_int) (use pw kk k2 in linarith)+
      ultimately show ?thesis by (simp only:)
    qed
    have ar: "sint (arity - 1) = int k - 1"
    proof -
      have "arity - 1 = word_of_int (int k - 1)" using k(3) by simp
      moreover have "sint (word_of_int (int k - 1) :: 64 word) = int k - 1"
        by (rule sint64_of_int) (use pw kk k2 in linarith)+
      ultimately show ?thesis by (simp only:)
    qed
    have "(int k ^ Suc d - 1) sdiv (int k - 1) = int (cells k d)"
    proof -
      have "int k ^ Suc d - 1 = int (cells k d) * (int k - 1)" using g by simp
      with k2 show ?thesis by (simp add: signed_divide_int_def sgn_if)
    qed
    moreover have "sint (word_of_int (int (cells k d)) :: 64 word) = int (cells k d)"
    proof (rule sint64_of_int)
      have "int (cells k d) * 1 \<le> int (cells k d) * (int k - 1)"
        by (rule mult_left_mono) (use k2 in simp_all)
      with g pw show "int (cells k d) < 2 ^ 63" by linarith
    qed simp
    moreover have "nat (sint depth + 1) = Suc d" using d by simp
    ultimately show ?thesis
      using False False2 size pow ar
      by (simp add: node_count_def mul_loop_eq Let_def del: power_Suc)
  qed
qed

lemma node_count_counts_cells_witness:
  "sint (node_count 2 3 :: 64 word) = int (tree_size (unfold 2 3 ''n'' (FFin 1)))"
  using node_count_counts_cells [of 2 3 "''n''" "FFin 1"] by simp


section \<open>Coarsening\<close>

lemma shape_equal_list_iff:
  "length as = length bs \<Longrightarrow> shape_equal_list as bs \<longleftrightarrow> list_all2 shape_equal_node as bs"
  by (induction as bs rule: list_induct2) auto

lemma max_depth_const:
  "cs \<noteq> [] \<Longrightarrow> 0 \<le> m \<Longrightarrow> m \<le> D \<Longrightarrow> (\<And>c. c \<in> set cs \<Longrightarrow> n_depth c = D) \<Longrightarrow> max_depth m cs = D"
proof (induction m cs rule: max_depth.induct)
  case (2 m c cs)
  then show ?case by (cases "cs = []") auto
qed simp

lemma coarsen_unfold:
  assumes "0 < k"
  shows "0 < d \<Longrightarrow> n_depth (coarsen_node (unfold d k l v)) = d - 1
    \<and> shape_equal_node (coarsen_node (unfold d k l v)) (unfold (d - 1) k l w)
    \<and> n_label (coarsen_node (unfold d k l v)) = l"
  using assms
proof (induction d l v arbitrary: w rule: unfold_induct)
  case (inner d l v)
  let ?c = "\<lambda>i. unfold (d - 1) k (l @ CHR ''.'' # int_str i) (fdiv v (fof_int k))"
  show ?case
  proof (cases "d = 1")
    case True
    then show ?thesis using assms
      by (simp add: unfold_leaf list_all_iff inner(2) [unfolded True])
  next
    case False
    with inner(4) have d: "0 < d - 1" by simp
    let ?cs = "map (\<lambda>i. coarsen_node (?c i)) [0..k - 1]"
    have nl: "\<not> list_all (\<lambda>c. n_children c = []) (map ?c [0..k - 1])"
      using d assms by (auto simp: list_all_iff intro!: bexI [of _ 0])
    then have co: "coarsen_node (unfold d k l v)
        = Node l (max_depth 0 ?cs + 1) (sum_values (FFin 0) ?cs) ?cs"
      using assms by (simp add: inner(2) Let_def comp_def)
    have "max_depth 0 ?cs = d - 2"
      by (rule max_depth_const) (use d assms inner(3) in auto)
    moreover have "shape_equal_list ?cs (map (\<lambda>i. unfold (d - 2) k (l @ CHR ''.'' # int_str i) (fdiv w (fof_int k))) [0..k - 1])"
      using inner(3) [OF d] by (simp add: shape_equal_list_iff list_all2_conv_all_nth)
    ultimately show ?thesis
      using co unfold_inner [OF d assms, of l w] by simp
  qed
qed simp

text \<open>
  Coarsening drops exactly one level: coarsening a window of depth d + 1 has the shape
  (labels and arity) of the window of depth d, whatever scalar that window carries, and the
  depth recorded at its root is d.
\<close>

theorem coarsen_recovers_shallower_window:
  assumes "0 < k" "0 \<le> d"
  shows "\<exists>n. coarsen (Some (unfold (d + 1) k l v)) = Some n \<and> n_depth n = d
    \<and> shape_equal (Some n) (Some (unfold d k l w))"
  using coarsen_unfold [OF assms(1), of "d + 1" l v w] assms(2) by (simp add: coarsen_def)

lemma coarsen_recovers_shallower_window_witness:
  "\<exists>n. coarsen (Some (unfold 2 2 ''n'' (FFin 1))) = Some n \<and> n_depth n = 1
     \<and> shape_equal (Some n) (Some (unfold 1 2 ''n'' (FFin 7)))"
  using coarsen_recovers_shallower_window [of 2 1 "''n''" "FFin 1" "FFin 7"] by simp


section \<open>The generated chain\<close>

lemma dominos_labels: "map d_name (fst (dominos_from_node t)) = snd (dominos_from_node t)"
proof (induction t)
  case (Node l d v cs)
  then have "map (\<lambda>c. map d_name (fst (dominos_from_node c))) cs = map (\<lambda>c. snd (dominos_from_node c)) cs"
    by (intro map_cong) auto
  moreover have "d_name (node_domino (Node l d v cs)) = l"
    by (simp add: node_domino_def Let_def)
  ultimately show ?case
    by (simp add: Let_def map_concat comp_def cong: map_cong)
qed

lemma earlier_infix:
  assumes "distinct (xs @ ys @ zs)" "n \<in> set ys"
  shows "earlier ys n \<subseteq> earlier (xs @ ys @ zs) n"
proof -
  have "n \<notin> set xs" using assms by auto
  then have "takeWhile (\<lambda>x. x \<noteq> n) (xs @ ys @ zs) = xs @ takeWhile (\<lambda>x. x \<noteq> n) ys"
    using assms(2) by (subst takeWhile_append2) auto
  then show ?thesis by (simp add: earlier_def)
qed

lemma earlier_last: "n \<notin> set xs \<Longrightarrow> earlier (xs @ [n]) n = set xs"
  by (subst earlier_def, subst takeWhile_append2) auto

lemma label_in_chain: "n_label t \<in> set (snd (dominos_from_node t))"
  by (cases t) (simp add: Let_def)

lemma deps_earlier:
  "distinct (snd (dominos_from_node t)) \<Longrightarrow> dm \<in> set (fst (dominos_from_node t))
     \<Longrightarrow> set (ds_depends_on (d_spec dm)) \<subseteq> earlier (snd (dominos_from_node t)) (d_name dm)"
proof (induction t)
  case (Node l d v cs)
  let ?sub = "concat (map (\<lambda>c. snd (dominos_from_node c)) cs)"
  have chain: "snd (dominos_from_node (Node l d v cs)) = ?sub @ [l]"
    by (simp add: Let_def comp_def)
  from Node.prems(2) consider "dm = node_domino (Node l d v cs)"
    | c where "c \<in> set cs" "dm \<in> set (fst (dominos_from_node c))"
    by (auto simp: Let_def)
  then show ?case
  proof cases
    case 1
    have "l \<notin> set ?sub" using Node.prems(1) chain by simp
    with 1 show ?thesis
      unfolding chain using label_in_chain
      by (auto simp: node_domino_def zero_defs Let_def earlier_last)
  next
    case 2
    then obtain as bs where cs: "cs = as @ c # bs" by (meson split_list)
    let ?m = "\<lambda>ts. concat (map (\<lambda>c. snd (dominos_from_node c)) ts)"
    have split: "?sub @ [l] = ?m as @ snd (dominos_from_node c) @ (?m bs @ [l])"
      by (simp add: cs)
    have dist: "distinct (?m as @ snd (dominos_from_node c) @ (?m bs @ [l]))"
      using Node.prems(1) unfolding chain split .
    have "d_name dm \<in> set (snd (dominos_from_node c))"
      using 2(2) dominos_labels [of c] by (metis image_eqI list.set_map)
    from earlier_infix [OF dist this] Node.IH [OF 2(1) _ 2(2)] dist
    show ?thesis unfolding chain split by auto
  qed
qed

lemma chain_label_form:
  assumes "0 < k"
  shows "x \<in> set (snd (dominos_from_node (unfold d k l v)))
    \<Longrightarrow> \<exists>r. x = l @ r \<and> (r = [] \<or> hd r = CHR ''.'')"
  using assms
proof (induction d l v arbitrary: x rule: unfold_induct)
  case (inner d l v)
  from inner(4) consider "x = l"
    | i where "x \<in> set (snd (dominos_from_node
          (unfold (d - 1) k (l @ CHR ''.'' # int_str i) (fdiv v (fof_int k)))))"
    unfolding inner(2) by (auto simp: Let_def)
  then show ?case
  proof cases
    case 2
    from inner(3) [OF this] show ?thesis by auto
  qed simp
qed simp

lemma takeWhile_dot:
  assumes "CHR ''.'' \<notin> set a" "r = [] \<or> hd r = CHR ''.''"
  shows "takeWhile (\<lambda>c. c \<noteq> CHR ''.'') (a @ r) = a"
  using assms by (subst takeWhile_append2) (auto simp: takeWhile_eq_Nil_iff)

lemma int_str_nonneg: "0 \<le> i \<Longrightarrow> int_str i = nat_str (nat i)"
  by (simp add: int_str_def)

lemma distinct_concat_map:
  assumes "distinct is" "\<And>i. i \<in> set is \<Longrightarrow> distinct (f i)"
    and "\<And>i j x. i \<in> set is \<Longrightarrow> j \<in> set is \<Longrightarrow> x \<in> set (f i) \<Longrightarrow> x \<in> set (f j) \<Longrightarrow> i = j"
  shows "distinct (concat (map f is))"
  using assms
proof (induction "is")
  case (Cons i "is")
  have "distinct (concat (map f is))"
  proof (rule Cons.IH)
    show "distinct is" using Cons.prems(1) by simp
    show "distinct (f j)" if "j \<in> set is" for j using Cons.prems(2) that by simp
    show "a = b" if "a \<in> set is" "b \<in> set is" "x \<in> set (f a)" "x \<in> set (f b)" for a b x
      using Cons.prems(3) [of a b x] that by simp
  qed
  moreover have "set (f i) \<inter> set (concat (map f is)) = {}"
  proof (rule ccontr)
    assume "set (f i) \<inter> set (concat (map f is)) \<noteq> {}"
    then obtain x j where "x \<in> set (f i)" "j \<in> set is" "x \<in> set (f j)" by auto
    with Cons.prems(3) [of i j x] Cons.prems(1) show False by simp
  qed
  ultimately show ?case using Cons.prems(2) by simp
qed simp

lemma chain_distinct:
  assumes "0 < k" shows "distinct (snd (dominos_from_node (unfold d k l v)))"
  using assms
proof (induction d l v rule: unfold_induct)
  case (inner d l v)
  let ?f = "\<lambda>i. snd (dominos_from_node (unfold (d - 1) k (l @ CHR ''.'' # int_str i) (fdiv v (fof_int k))))"
  have form: "\<exists>r. x = l @ CHR ''.'' # int_str i @ r \<and> (r = [] \<or> hd r = CHR ''.'')"
    if "x \<in> set (?f i)" for x i
    using chain_label_form [OF assms that] by auto
  have "distinct (concat (map ?f [0..k - 1]))"
  proof (rule distinct_concat_map)
    fix i j x assume i: "i \<in> set [0..k - 1]" "j \<in> set [0..k - 1]" "x \<in> set (?f i)" "x \<in> set (?f j)"
    from form [OF i(3)] form [OF i(4)] obtain r s where
      "x = l @ CHR ''.'' # int_str i @ r" "r = [] \<or> hd r = CHR ''.''"
      "x = l @ CHR ''.'' # int_str j @ s" "s = [] \<or> hd s = CHR ''.''" by blast
    then have "takeWhile (\<lambda>c. c \<noteq> CHR ''.'') (int_str i @ r) = takeWhile (\<lambda>c. c \<noteq> CHR ''.'') (int_str j @ s)"
      and "r = [] \<or> hd r = CHR ''.''" "s = [] \<or> hd s = CHR ''.''" by simp_all
    then have "int_str i = int_str j"
      using i(1,2) nat_str_no_dot by (simp add: takeWhile_dot int_str_nonneg)
    then show "i = j" using i(1,2) by (simp add: int_str_nonneg nat_eq_iff)
  qed (use inner(3) in auto)
  moreover have "l \<notin> set (concat (map ?f [0..k - 1]))"
    using form by fastforce
  ultimately show ?case unfolding inner(2) by (simp add: Let_def comp_def)
qed simp

lemma chain_no_empty:
  assumes "l \<noteq> ''''" shows "'''' \<notin> set (snd (dominos_from_node (unfold d k l v)))"
proof (cases "0 < k")
  case True
  then show ?thesis using chain_label_form [OF True, of "''''" d l v] assms by auto
next
  case False
  then show ?thesis using assms by (simp add: unfold_leaf)
qed

lemma chain_distinct_all: "distinct (snd (dominos_from_node (unfold d k l v)))"
  by (cases "0 < k") (simp_all add: chain_distinct unfold_leaf)

lemma chain_length: "length (snd (dominos_from_node t)) = tree_size t"
  by (induction t) (simp add: Let_def length_concat comp_def cong: map_cong)

lemma dominos_builtin:
  "dm \<in> set (fst (dominos_from_node t)) \<Longrightarrow> has_prefix (ds_command (d_spec dm)) ''builtin:''"
  by (induction t) (auto simp: Let_def node_domino_def has_prefix_def zero_defs split: if_splits)

text \<open>
  The workflow generated from any window passes every gate of the engine: its chain names
  each domino exactly once, has no duplicate and no empty name, every domino is admissible
  in a deterministic workflow without a sandbox, and every declared dependency lies strictly
  in its causal past.
\<close>

theorem unfold_workflow_admissible:
  "let w = workflow_from_unfold depth arity snap in
     unique_names (w_chain w) = Inr ()
     \<and> map d_name (ws_dominos (wf_spec w)) = w_chain w
     \<and> list_all (\<lambda>d. require_deterministic (ds_command (d_spec d)) = Inr ()
          \<and> allowed_reads (w_chain w) (d_name d) (ds_depends_on (d_spec d)) = Inr ())
        (ws_dominos (wf_spec w))"
proof -
  let ?t = "unfold depth arity ''n'' (FFin 1)" and ?w = "workflow_from_unfold depth arity snap"
  have w: "w_chain ?w = snd (dominos_from_node ?t)"
    "ws_dominos (wf_spec ?w) = fst (dominos_from_node ?t)"
    by (simp_all add: workflow_from_unfold_def Let_def split_def)
  have "allowed_reads (snd (dominos_from_node ?t)) (d_name d) (ds_depends_on (d_spec d)) = Inr ()"
    if d: "d \<in> set (fst (dominos_from_node ?t))" for d
  proof -
    have "d_name d \<in> set (snd (dominos_from_node ?t))"
      using d unfolding dominos_labels [symmetric] by simp
    with deps_earlier [OF chain_distinct_all d] show ?thesis
      unfolding allowed_reads_iff by blast
  qed
  moreover have "require_deterministic (ds_command (d_spec d)) = Inr ()"
    if "d \<in> set (fst (dominos_from_node ?t))" for d
    using dominos_builtin [OF that] by (simp add: require_deterministic_def allow_deterministic_iff)
  moreover have "unique_names (snd (dominos_from_node ?t)) = Inr ()"
    by (simp add: unique_names_iff chain_distinct_all chain_no_empty)
  ultimately show ?thesis
    unfolding Let_def w by (simp add: dominos_labels list_all_iff)
qed

end
