(* ===== verification/Wheel.thy ===== *)
theory Wheel
  imports GoTime Api Aggregation Sha256 "HOL-Library.Sublist"
begin

text \<open>
  The compute wheel of \<open>pkg/wheel\<close>: its position and how it advances, the names of its slots,
  the explorer window it may play, and the workflow built for a slot.  A Go \<open>int\<close> and a
  \<open>time.Duration\<close> are 64-bit words read as signed; an instant is an integer of nanoseconds.
  The lemmas show that the position after \<open>n\<close> completions is \<open>n\<close> read in base of the number of
  contexts, when the wheel stops, and that names and status survive their round trips.
\<close>

section \<open>State and intervals\<close>

record wheel_state =
  ws_slice :: int
  ws_index :: "64 word"
  ws_rotations :: "64 word"

record advance_result =
  av_state :: wheel_state
  av_advanced :: bool
  av_done :: bool

text \<open>The state of a Go zero value.\<close>

definition zero_state :: wheel_state where
  "zero_state = \<lparr>ws_slice = zero_time, ws_index = 0, ws_rotations = 0\<rparr>"

definition parse_interval :: "string \<Rightarrow> duration res" where
  "parse_interval s0 =
     (let s = trim_space s0
      in if s = '''' then Inl (errorf ''empty interval'')
         else if has_suffix s ''d'' then
           (case parse_duration (trim_suffix s ''d'' @ ''h'') of
              Inl e \<Rightarrow> Inl (wrapf (''parse day interval '' @ quote s) e)
            | Inr d \<Rightarrow> Inr (d * 24))
         else
           (case parse_duration s of
              Inl e \<Rightarrow> Inl (wrapf (''parse interval '' @ quote s) e)
            | Inr d \<Rightarrow> Inr d))"

text \<open>\<open>Time.Truncate\<close> counts from the zero time.\<close>

definition truncate_time :: "int \<Rightarrow> duration \<Rightarrow> int" where
  "truncate_time t d = (if sint d \<le> 0 then t else t - (t - zero_time) mod sint d)"

definition initial_state :: "string \<Rightarrow> duration \<Rightarrow> int \<Rightarrow> wheel_state res" where
  "initial_state startTimeSlice interval now =
     (if startTimeSlice \<noteq> '''' then
        (case parse_rfc3339 startTimeSlice of
           Inl e \<Rightarrow> Inl (wrapf ''parse startTimeSlice'' e)
         | Inr start \<Rightarrow> Inr \<lparr>ws_slice = start, ws_index = 0, ws_rotations = 0\<rparr>)
      else
        Inr \<lparr>ws_slice = (if 0 < sint interval then truncate_time now interval else now),
             ws_index = 0, ws_rotations = 0\<rparr>)"

section \<open>Advancing\<close>

definition advance_after_completion ::
  "wheel_state \<Rightarrow> 64 word \<Rightarrow> duration \<Rightarrow> 64 word \<Rightarrow> advance_result" where
  "advance_after_completion st contextCount interval maxRotations =
     (if sint contextCount \<le> 0 then \<lparr>av_state = st, av_advanced = False, av_done = True\<rparr>
      else
        let nxt = st\<lparr>ws_index := ws_index st + 1\<rparr>
        in if sint contextCount \<le> sint (ws_index nxt) then
             let nxt = nxt\<lparr>ws_index := 0, ws_slice := ws_slice nxt + sint interval,
                           ws_rotations := ws_rotations nxt + 1\<rparr>
             in if 0 < sint maxRotations \<and> sint maxRotations \<le> sint (ws_rotations nxt)
                then \<lparr>av_state = nxt, av_advanced = True, av_done = True\<rparr>
                else \<lparr>av_state = nxt, av_advanced = True, av_done = False\<rparr>
           else \<lparr>av_state = nxt, av_advanced = False, av_done = False\<rparr>)"

record slot =
  sl_name :: string
  sl_context :: string
  sl_state :: wheel_state

definition active_context_name :: "string list \<Rightarrow> 64 word \<Rightarrow> string res" where
  "active_context_name contexts index =
     (if sint index < 0 \<or> int (length contexts) \<le> sint index
      then Inl (errorf (''context index '' @ int_str (sint index) @ '' out of range (count=''
              @ nat_str (length contexts) @ '')''))
      else Inr (contexts ! nat (sint index)))"

definition format_time_slice :: "int \<Rightarrow> string" where
  "format_time_slice t = fmt_date_clock '''' ''t'' '''' t @ ''z''"

definition parse_time_slice :: "string \<Rightarrow> int res" where
  "parse_time_slice s =
     (case parse_layout '''' ''t'' '''' (\<lambda>s. map_option (Pair 0) (skip_lit ''z'' s)) s of
        Some t \<Rightarrow> Inr t | None \<Rightarrow> Inl (parse_error s))"

definition dash_char :: "char \<Rightarrow> char" where
  "dash_char c = (if c = CHR ''_'' then CHR ''-'' else c)"

definition workflow_name :: "string \<Rightarrow> string \<Rightarrow> string \<Rightarrow> string" where
  "workflow_name wheelName contextName timeSlice =
     (let base = map dash_char (to_lower (wheelName @ ''-'' @ contextName @ ''-'' @ timeSlice))
      in if length base \<le> 63 then base
         else let suffix = hex_encode (take 4 (sha256 base))
              in take (63 - length suffix) base @ suffix)"

definition lookahead ::
  "string \<Rightarrow> string list \<Rightarrow> wheel_state \<Rightarrow> duration \<Rightarrow> 64 word \<Rightarrow> (slot \<times> bool) res" where
  "lookahead wheelName contexts st interval maxRotations =
     (let nxt = advance_after_completion st (word_of_nat (length contexts)) interval maxRotations
      in if av_done nxt then Inr (\<lparr>sl_name = '''', sl_context = '''', sl_state = av_state nxt\<rparr>, True)
         else (case active_context_name contexts (ws_index (av_state nxt)) of
             Inl e \<Rightarrow> Inl e
           | Inr ctx \<Rightarrow>
               Inr (\<lparr>sl_name = workflow_name wheelName ctx (format_time_slice (ws_slice (av_state nxt))),
                     sl_context = ctx, sl_state = av_state nxt\<rparr>, False)))"

definition requeue_delay :: "duration \<Rightarrow> duration" where
  "requeue_delay interval =
     (if sint interval \<le> 0 then second
      else if sint interval < sint (30 * second) then interval
      else 10 * second)"

section \<open>The explorer window\<close>

definition seat_count :: "64 word \<Rightarrow> 64 word \<Rightarrow> 64 word" where
  "seat_count depth arity = leaf_count depth arity"

definition seat_labels :: "64 word \<Rightarrow> 64 word \<Rightarrow> string list" where
  "seat_labels depth arity =
     map n_label (leaves (Some (unfold (sint depth) (sint arity) ''seat'' (FFin 1))))"

definition validate_window_seats :: "64 word \<Rightarrow> 64 word \<Rightarrow> 64 word \<Rightarrow> unit res" where
  "validate_window_seats contextCount depth arity =
     (let want = seat_count depth arity
      in if contextCount \<noteq> want
         then Inl (errorf (''wheel seats '' @ int_str (sint contextCount) @ '' != window leaves ''
                @ int_str (sint want) @ '' (arity^depth)''))
         else Inr ())"

definition validate_explorer_window :: "64 word \<Rightarrow> 64 word \<Rightarrow> 64 word \<Rightarrow> unit res" where
  "validate_explorer_window contextCount depth arity =
     (if depth = 0 \<and> arity = 0 then Inr ()
      else if sint depth \<le> 0 \<or> sint arity \<le> 0
      then Inl (errorf ''windowDepth and windowArity must both be positive'')
      else validate_window_seats contextCount depth arity)"

section \<open>The workflow of a slot\<close>

definition slot_execution :: "api_wheel \<Rightarrow> api_execution" where
  "slot_execution whl =
     (let execution = atp_execution (aww_template (awl_spec whl))
      in if ae_volcano_queue execution = '''' \<and> aww_volcano_queue (awl_spec whl) \<noteq> ''''
         then execution\<lparr>ae_volcano_queue := aww_volcano_queue (awl_spec whl)\<rparr> else execution)"

definition slot_provisioning :: "api_wheel \<Rightarrow> api_context option \<Rightarrow> string \<Rightarrow> string \<Rightarrow> string \<Rightarrow> api_provisioning" where
  "slot_provisioning whl computeCtx storeRoot contextName timeSliceKey =
     (let t = atp_provisioning (aww_template (awl_spec whl));
          p = \<lparr>ap_store_path = ap_store_path t, ap_node_local = True, ap_runner_image = ap_runner_image t,
               ap_node_selector = ap_node_selector t, ap_net_none = False, ap_ro_root = False\<rparr>;
          p = (if ap_node_selector p = [] \<and> aww_node_selector (awl_spec whl) \<noteq> []
               then p\<lparr>ap_node_selector := aww_node_selector (awl_spec whl)\<rparr> else p);
          own = (if ap_store_path p = '''' then p\<lparr>ap_store_path := path_join [storeRoot, km_namespace (awl_meta whl),
                   km_name (awl_meta whl), contextName, timeSliceKey @ ''.db'']\<rparr> else p)
      in case computeCtx of
           Some c \<Rightarrow> if acs_store_path (acx_spec c) \<noteq> ''''
             then p\<lparr>ap_store_path := path_join [acs_store_path (acx_spec c), km_name (awl_meta whl), timeSliceKey @ ''.db'']\<rparr>
             else own
         | None \<Rightarrow> own)"

definition slot_snapshot :: "api_snap_spec \<Rightarrow> string \<Rightarrow> string \<Rightarrow> api_snap_spec" where
  "slot_snapshot s timeSliceStr contextName =
     s\<lparr>ass_time_slice := timeSliceStr, ass_sealed := True,
       ass_context_ref := (if ass_context_ref s = '''' then contextName else ass_context_ref s)\<rparr>"

definition slot_dominos :: "string \<Rightarrow> api_dom_spec list \<Rightarrow> api_dom_spec list" where
  "slot_dominos snapshotRef ds =
     map (\<lambda>d. if ads_snapshot_ref d = '''' then d\<lparr>ads_snapshot_ref := snapshotRef\<rparr> else d) ds"

text \<open>An index outside the contexts is a run-time panic.\<close>

definition build_workflow ::
  "api_wheel \<Rightarrow> api_context option \<Rightarrow> wheel_state \<Rightarrow> string \<Rightarrow> api_workflow res" where
  "build_workflow whl computeCtx st storeRoot =
     (let sp = awl_spec whl; tmpl = aww_template sp; name = km_name (awl_meta whl);
          timeSliceStr = format_rfc3339 (ws_slice st);
          timeSliceKey = format_time_slice (ws_slice st)
      in if sint (ws_index st) < 0 \<or> int (length (aww_contexts sp)) \<le> sint (ws_index st)
         then Inl (panic ''index out of range'')
         else
           let contextName = aww_contexts sp ! nat (sint (ws_index st));
               snapshotRef = name @ ''-'' @ timeSliceKey;
               execution = slot_execution whl;
               labels = [(''kbl.io/computewheel'', name), (''kbl.io/compute-context'', contextName),
                 (''kbl.io/time-slice'', timeSliceKey), (''app.kubernetes.io/managed-by'', ''kbl-controller'')]
                 @ (if ae_volcano_queue execution \<noteq> '''' then [(''kbl.io/volcano-queue'', ae_volcano_queue execution)] else [])
           in Inr \<lparr>awf_meta = new_meta (workflow_name name contextName timeSliceKey)
                      (km_namespace (awl_meta whl)) labels,
                   awf_spec = \<lparr>
                      aws_snapshot = (if atp_snapshot_ref tmpl \<noteq> '''' then empty_snap_spec
                        else slot_snapshot (atp_snapshot tmpl) timeSliceStr contextName),
                      aws_snapshot_ref = atp_snapshot_ref tmpl,
                      aws_dominos = (if atp_domino_refs tmpl \<noteq> [] then [] else slot_dominos snapshotRef (atp_dominos tmpl)),
                      aws_domino_refs = atp_domino_refs tmpl,
                      aws_execution = execution,
                      aws_provisioning = slot_provisioning whl computeCtx storeRoot contextName timeSliceKey,
                      aws_routing = \<lparr>ar_universe = ar_universe (atp_routing tmpl), ar_context_ref = contextName,
                        ar_multiverse_ref = ''''\<rparr>\<rparr>,
                   awf_status = empty_wf_status\<rparr>)"

section \<open>Status\<close>

definition state_from_status :: "api_wheel_status \<Rightarrow> wheel_state res" where
  "state_from_status status =
     (if awst_time_slice status = '''' then Inr zero_state
      else (case parse_rfc3339 (awst_time_slice status) of
          Inl e \<Rightarrow> Inl e
        | Inr t \<Rightarrow> Inr \<lparr>ws_slice = t, ws_index = awst_context_index status,
                       ws_rotations = awst_rotation_count status\<rparr>))"

definition apply_state :: "api_wheel_status \<Rightarrow> wheel_state \<Rightarrow> string \<Rightarrow> api_wheel_status" where
  "apply_state status st contextName =
     status\<lparr>awst_time_slice := format_rfc3339 (ws_slice st), awst_context_index := ws_index st,
       awst_rotation_count := ws_rotations st, awst_context := contextName\<rparr>"


section \<open>Positions\<close>

text \<open>\<open>wheel_at k iv mx t n\<close> is the position after \<open>n\<close> completed slots.\<close>

definition wheel_at :: "64 word \<Rightarrow> duration \<Rightarrow> 64 word \<Rightarrow> int \<Rightarrow> nat \<Rightarrow> wheel_state" where
  "wheel_at k iv mx t n =
     ((\<lambda>st. av_state (advance_after_completion st k iv mx)) ^^ n) \<lparr>ws_slice = t, ws_index = 0, ws_rotations = 0\<rparr>"

lemma sint_word_of_nat: "m < 2 ^ 63 \<Longrightarrow> sint (word_of_nat m :: 64 word) = int m"
  using sint64_of_int [of "int m"] by simp

lemma nat_sint_less: "nat (sint (k :: 64 word)) < 2 ^ 63"
  using sint_lt [of k] by simp

text \<open>One completed slot in the position of the \<open>n\<close>-th.\<close>

definition position :: "64 word \<Rightarrow> duration \<Rightarrow> int \<Rightarrow> nat \<Rightarrow> wheel_state" where
  "position k iv t n =
     \<lparr>ws_slice = t + int (n div nat (sint k)) * sint iv, ws_index = word_of_nat (n mod nat (sint k)),
      ws_rotations = word_of_nat (n div nat (sint k))\<rparr>"

lemma advance_position:
  assumes "0 < sint k"
  shows "advance_after_completion (position k iv t n) k iv mx =
    \<lparr>av_state = position k iv t (Suc n), av_advanced = (Suc n mod nat (sint k) = 0),
     av_done = (Suc n mod nat (sint k) = 0 \<and> 0 < sint mx
       \<and> sint mx \<le> sint (word_of_nat (Suc n div nat (sint k)) :: 64 word))\<rparr>"
proof -
  define m where "m = nat (sint k)"
  have m: "0 < m" "m < 2 ^ 63" "sint k = int m" using assms nat_sint_less [of k] by (simp_all add: m_def)
  have "n mod m < m" using m(1) by simp
  then have s: "sint (word_of_nat (n mod m) + 1 :: 64 word) = int (Suc (n mod m))"
    using sint_word_of_nat [of "Suc (n mod m)"] m(2) by (simp add: add.commute)
  show ?thesis
  proof (cases "Suc (n mod m) = m")
    case True
    then have d: "Suc n mod m = 0" "Suc n div m = Suc (n div m)" by (simp_all add: mod_Suc div_Suc)
    show ?thesis using True d m(1) s
      by (simp add: advance_after_completion_def position_def m(3) Let_def algebra_simps)
  next
    case False
    with \<open>n mod m < m\<close> have l: "Suc (n mod m) < m" by simp
    then have d: "Suc n mod m = Suc (n mod m)" "Suc n div m = n div m" by (simp_all add: mod_Suc div_Suc)
    show ?thesis using l d m(1) s
      by (simp add: advance_after_completion_def position_def m(3) Let_def algebra_simps)
  qed
qed

lemma wheel_at_position: "0 < sint k \<Longrightarrow> wheel_at k iv mx t n = position k iv t n"
proof (induction n)
  case 0
  then show ?case by (simp add: wheel_at_def position_def)
next
  case (Suc n)
  have "wheel_at k iv mx t (Suc n) = av_state (advance_after_completion (wheel_at k iv mx t n) k iv mx)"
    by (simp add: wheel_at_def)
  then show ?case using Suc advance_position by simp
qed

text \<open>
  C27 A wheel of \<open>k\<close> contexts counts its completed slots in base \<open>k\<close>: after \<open>n\<close> completions
  from the start the active index is \<open>n mod k\<close>, the rotations are \<open>n div k\<close> and the time
  slice has moved by one interval per rotation, as long as the rotations fit an \<open>int\<close>.
\<close>

theorem wheel_position:
  assumes "0 < sint k" "n div nat (sint k) < 2 ^ 63"
  shows "sint (ws_index (wheel_at k iv mx t n)) = int (n mod nat (sint k))
    \<and> sint (ws_rotations (wheel_at k iv mx t n)) = int (n div nat (sint k))
    \<and> ws_slice (wheel_at k iv mx t n) = t + int (n div nat (sint k)) * sint iv"
proof -
  have "n mod nat (sint k) < nat (sint k)" using assms(1) by simp
  then have "n mod nat (sint k) < 2 ^ 63" using nat_sint_less [of k] by (rule less_trans)
  then show ?thesis using assms by (simp add: wheel_at_position position_def sint_word_of_nat)
qed

lemma wheel_position_witness:
  "sint (ws_index (wheel_at 3 second 0 100 7)) = 1 \<and> sint (ws_rotations (wheel_at 3 second 0 100 7)) = 2
    \<and> ws_slice (wheel_at 3 second 0 100 7) = 2000000100"
  using wheel_position [of 3 7 second 0 100] by (simp add: second_def)

text \<open>
  C32 A wheel with a limit of \<open>m\<close> rotations stops exactly when the last of its \<open>k * m\<close> slots
  completes: the advance after slot number \<open>k * m\<close> reports it is done, and no earlier one does.
\<close>

theorem wheel_stops:
  assumes "0 < sint k" "0 < sint mx"
  shows "av_done (advance_after_completion (wheel_at k iv mx t (nat (sint k) * nat (sint mx) - 1)) k iv mx)
    \<and> (\<forall>n < nat (sint k) * nat (sint mx) - 1. \<not> av_done (advance_after_completion (wheel_at k iv mx t n) k iv mx))"
proof -
  define a b where "a = nat (sint k)" and "b = nat (sint mx)"
  have p: "0 < a" "0 < b" "b < 2 ^ 63" "sint mx = int b" "sint k = int a"
    using assms nat_sint_less [of mx] by (simp_all add: a_def b_def)
  have fin: "Suc (a * b - 1) = a * b" using p by simp
  have "sint (word_of_nat b :: 64 word) = int b" using p(3) by (rule sint_word_of_nat)
  then have last: "av_done (advance_after_completion (wheel_at k iv mx t (a * b - 1)) k iv mx)"
    using p(1,2,4,5) by (simp add: wheel_at_position [OF assms(1)] advance_position [OF assms(1)] fin)
  have "\<not> av_done (advance_after_completion (wheel_at k iv mx t n) k iv mx)" if n: "n < a * b - 1" for n
  proof
    assume "av_done (advance_after_completion (wheel_at k iv mx t n) k iv mx)"
    then have d: "a dvd Suc n" "int b \<le> sint (word_of_nat (Suc n div a) :: 64 word)"
      using p(4,5) by (simp_all add: wheel_at_position [OF assms(1)] advance_position [OF assms(1)] mod_eq_0_iff_dvd)
    have "Suc n < a * b" using n by simp
    then have lt: "Suc n div a < b" using p(1) by (simp add: less_mult_imp_div_less mult.commute)
    then have "sint (word_of_nat (Suc n div a) :: 64 word) = int (Suc n div a)"
      using p(3) by (intro sint_word_of_nat) simp
    then show False using d(2) lt by simp
  qed
  with last show ?thesis by (simp add: a_def b_def)
qed

lemma wheel_stops_witness:
  "av_done (advance_after_completion (wheel_at 3 second 2 0 5) 3 second 2)
    \<and> \<not> av_done (advance_after_completion (wheel_at 3 second 2 0 4) 3 second 2)"
  using wheel_stops [of 3 2 second 0] by simp



section \<open>Names\<close>

lemma parse_format_time_slice:
  assumes "four_digit_year t"
  shows "parse_time_slice (format_time_slice t) = Inr (t div 1000000000 * 1000000000)"
proof -
  have "(\<lambda>s. map_option (Pair (0 :: int)) (skip_lit ''z'' s)) ''z'' = Some (0, [])"
    by (simp add: skip_lit_def has_prefix_def)
  moreover have "get_frac ''z'' = (0, ''z'')" by (simp add: get_frac_def)
  ultimately show ?thesis
    using parse_layout_fmt [OF assms, of "\<lambda>s. map_option (Pair 0) (skip_lit ''z'' s)" "''z''" "''z''" 0]
    unfolding parse_time_slice_def format_time_slice_def by simp
qed

text \<open>The bytes a name may hold: no capital letter and no underscore.\<close>

definition name_byte :: "char \<Rightarrow> bool" where
  "name_byte c = (c \<noteq> CHR ''_'' \<and> \<not> (65 \<le> (of_char c :: nat) \<and> (of_char c :: nat) \<le> 90))"

lemma name_byte_lower: "name_byte (dash_char (lower_char c))"
proof (cases "65 \<le> (of_char c :: nat) \<and> (of_char c :: nat) \<le> 90")
  case True
  then have e: "of_char (char_of (of_char c + 32 :: nat)) = (of_char c + 32 :: nat)"
    by (simp only: of_char_of) simp
  have "char_of (of_char c + 32 :: nat) \<noteq> CHR ''_''"
  proof
    assume h: "char_of (of_char c + 32 :: nat) = CHR ''_''"
    have "(of_char c + 32 :: nat) = 95" using e unfolding h by simp
    with True show False by simp
  qed
  then show ?thesis using True e
    by (simp add: dash_char_def lower_char_def name_byte_def less_eq_char_def del: of_char_of)
next
  case False
  then show ?thesis by (auto simp: dash_char_def lower_char_def name_byte_def less_eq_char_def)
qed

lemma name_byte_base: "c \<in> set (map dash_char (to_lower s)) \<Longrightarrow> name_byte c"
  using name_byte_lower by (auto simp: to_lower_def)

lemma name_byte_digit: "n < 16 \<Longrightarrow> name_byte (hex_digit n)"
  by (auto simp: hex_digit_def name_byte_def char_of_eq_iff take_bit_eq_mod)

lemma name_byte_hex: "c \<in> set (hex_encode bs) \<Longrightarrow> name_byte c"
proof -
  have "(of_char b :: nat) div 16 < 16" for b using of_char_lt [of b] by arith
  then show "c \<in> set (hex_encode bs) \<Longrightarrow> name_byte c"
    by (auto simp: hex_encode_def hex_byte_def intro: name_byte_digit)
qed

text \<open>
  The name of a wheel's workflow is a valid length for a Kubernetes object and holds no
  capital letter and no underscore, whatever the names of the wheel and of the context.
\<close>

theorem workflow_name_fits:
  "length (workflow_name w c ts) \<le> 63 \<and> list_all name_byte (workflow_name w c ts)"
proof -
  have "length (workflow_name w c ts) \<le> 63" by (simp add: workflow_name_def Let_def)
  moreover have "name_byte x" if "x \<in> set (workflow_name w c ts)" for x
  proof -
    let ?base = "map dash_char (to_lower (w @ ''-'' @ c @ ''-'' @ ts))"
    from that have "x \<in> set ?base \<or> x \<in> set (hex_encode (take 4 (sha256 ?base)))"
      unfolding workflow_name_def Let_def by (auto simp del: set_map split: if_splits dest: in_set_takeD)
    then show ?thesis using name_byte_base name_byte_hex by blast
  qed
  ultimately show ?thesis by (simp add: list_all_iff)
qed



lemma dash_lower_digit: "n < 10 \<Longrightarrow> dash_char (lower_char (digit_char n)) = digit_char n"
proof -
  assume "n < 10"
  then have "(of_char (digit_char n) :: nat) = 48 + n" by (simp add: digit_char_def)
  with \<open>n < 10\<close> show ?thesis by (auto simp: dash_char_def lower_char_def less_eq_char_def)
qed

lemma dash_lower_fmt2: "n < 100 \<Longrightarrow> map (dash_char \<circ> lower_char) (fmt2 n) = fmt2 n"
  by (simp add: fmt2_def dash_lower_digit)

lemma dash_lower_slice:
  assumes "four_digit_year t"
  shows "map dash_char (to_lower (format_time_slice t)) = format_time_slice t"
proof -
  obtain y m d where d: "date_of t = (y, m, d)" by (metis prod_cases3)
  obtain h mi s where c: "clock_of t = (h, mi, s)" by (metis prod_cases3)
  note cv = civil_of_days_valid [OF d [unfolded date_of_def]]
  note cb = clock_of_bounds [OF c]
  have y4: "0 \<le> y" "y < 10000" using assms d by (auto simp: four_digit_year_def)
  have d31: "d \<le> 31" using cv(5) days_in_le [OF cv(2,3)] by (rule order_trans)
  have tz: "dash_char (lower_char (CHR ''t'')) = CHR ''t''" "dash_char (lower_char (CHR ''z'')) = CHR ''z''"
    by (simp_all add: dash_char_def lower_char_def)
  have n: "m < 100" "nat d < 100" "h < 100" "mi < 100" "s < 100" "nat y div 100 < 100" "nat y mod 100 < 100"
    using cv cb d31 y4 by auto
  show ?thesis
    using dash_lower_fmt2 n y4
    by (simp add: format_time_slice_def fmt_date_clock_def d c fmt_year_def to_lower_def tz)
qed

lemma format_time_slice_inject:
  assumes "four_digit_year t" "four_digit_year u" "format_time_slice t = format_time_slice u"
  shows "t div 1000000000 = u div 1000000000"
  using parse_format_time_slice [OF assms(1)] parse_format_time_slice [OF assms(2)] assms(3) by simp

text \<open>
  Slots do not share a workflow: one wheel and one context have the same workflow name at
  two time slices only when the slices fall in the same second, for names that fit without
  the hash.
\<close>

theorem slot_names_distinct:
  assumes "length w + length c \<le> 45" "four_digit_year t" "four_digit_year u"
    and "workflow_name w c (format_time_slice t) = workflow_name w c (format_time_slice u)"
  shows "t div 1000000000 = u div 1000000000"
proof -
  have len: "length (format_time_slice t) = 16" if "four_digit_year t" for t
    using that by (auto simp: format_time_slice_def fmt_date_clock_def fmt2_def fmt_year_def four_digit_year_def
        split: prod.splits)
  have n: "workflow_name w c (format_time_slice t)
      = map dash_char (to_lower (w @ ''-'' @ c @ ''-'')) @ format_time_slice t" if "four_digit_year t" for t
    using assms(1) len [OF that] dash_lower_slice [OF that]
    by (simp add: workflow_name_def Let_def to_lower_def)
  from assms(4) show ?thesis
    using format_time_slice_inject [OF assms(2,3)] unfolding n [OF assms(2)] n [OF assms(3)] by simp
qed

text \<open>
  The status holds the position: writing a state into the status of a wheel and reading it
  back gives the same index and rotations and the time slice up to the second.
\<close>

theorem wheel_status_roundtrip:
  assumes "four_digit_year (ws_slice st)"
  shows "state_from_status (apply_state status st ctx)
    = Inr (st\<lparr>ws_slice := ws_slice st div 1000000000 * 1000000000\<rparr>)"
  using parse_format_rfc3339 [OF assms]
  by (simp add: state_from_status_def apply_state_def format_rfc3339_def)

lemma year_2025: "four_digit_year 1744675200000000000" "four_digit_year 1744675200500000000"
  by code_simp+

lemma slot_names_distinct_witness:
  "workflow_name ''w'' ''c'' (format_time_slice 1744675200000000000)
    \<noteq> workflow_name ''w'' ''c'' (format_time_slice 1744675201000000000)"
proof
  assume e: "workflow_name ''w'' ''c'' (format_time_slice 1744675200000000000)
    = workflow_name ''w'' ''c'' (format_time_slice 1744675201000000000)"
  have "four_digit_year 1744675201000000000" by code_simp
  from slot_names_distinct [OF _ year_2025(1) this e] show False by simp
qed

lemma wheel_status_roundtrip_witness:
  "\<forall>status. state_from_status (apply_state status
      \<lparr>ws_slice = 1744675200500000000, ws_index = 1, ws_rotations = 2\<rparr> ''c'')
    = Inr \<lparr>ws_slice = 1744675200000000000, ws_index = 1, ws_rotations = 2\<rparr>"
proof
  fix status
  show "state_from_status (apply_state status \<lparr>ws_slice = 1744675200500000000, ws_index = 1, ws_rotations = 2\<rparr> ''c'')
    = Inr \<lparr>ws_slice = 1744675200000000000, ws_index = 1, ws_rotations = 2\<rparr>"
    using wheel_status_roundtrip [of "\<lparr>ws_slice = 1744675200500000000, ws_index = 1, ws_rotations = 2\<rparr>" status "''c''"]
      year_2025(2) by simp
qed



section \<open>Slots\<close>

lemma wheel_index_in_range:
  assumes "contexts \<noteq> []" "length contexts < 2 ^ 63"
  shows "nat (sint (word_of_nat (length contexts) :: 64 word)) = length contexts"
    and "sint (ws_index (wheel_at (word_of_nat (length contexts)) iv mx t n)) = int (n mod length contexts)"
proof -
  have s: "sint (word_of_nat (length contexts) :: 64 word) = int (length contexts)"
    by (rule sint_word_of_nat [OF assms(2)])
  then show k: "nat (sint (word_of_nat (length contexts) :: 64 word)) = length contexts" by simp
  have "n mod length contexts < length contexts" using assms(1) by simp
  then have "n mod length contexts < 2 ^ 63" using assms(2) by (rule less_trans)
  then show "sint (ws_index (wheel_at (word_of_nat (length contexts)) iv mx t n)) = int (n mod length contexts)"
    using assms(1) s k by (simp add: wheel_at_position position_def sint_word_of_nat)
qed

lemma wheel_at_Suc:
  "av_state (advance_after_completion (wheel_at k iv mx t n) k iv mx) = wheel_at k iv mx t (Suc n)"
  by (simp add: wheel_at_def)

text \<open>
  What the wheel announces is what it builds: at every position it reaches, reading the
  next slot ahead succeeds; unless the wheel is done, the slot is the next position with the
  context \<open>
  (n + 1) mod k\<close>, and building the workflow of that position succeeds with the
  announced name and context, from the template's snapshot reference or a sealed snapshot
  of the slot's time.
\<close>

theorem lookahead_names_built_workflow:
  assumes "aww_contexts (awl_spec whl) = contexts" "contexts \<noteq> []" "length contexts < 2 ^ 63"
  shows "\<exists>s done. lookahead (km_name (awl_meta whl)) contexts (wheel_at (word_of_nat (length contexts)) iv mx t n) iv mx
        = Inr (s, done)
    \<and> sl_state s = wheel_at (word_of_nat (length contexts)) iv mx t (Suc n)
    \<and> (\<not> done \<longrightarrow> sl_context s = contexts ! (Suc n mod length contexts)
        \<and> (\<exists>wf. build_workflow whl cctx (sl_state s) dir = Inr wf
            \<and> km_name (awf_meta wf) = sl_name s \<and> ar_context_ref (aws_routing (awf_spec wf)) = sl_context s
            \<and> (aws_snapshot_ref (awf_spec wf) = ''''
                \<longrightarrow> ass_sealed (aws_snapshot (awf_spec wf))
                  \<and> ass_time_slice (aws_snapshot (awf_spec wf)) = format_rfc3339 (ws_slice (sl_state s)))))"
proof -
  let ?k = "word_of_nat (length contexts) :: 64 word"
  let ?adv = "advance_after_completion (wheel_at ?k iv mx t n) ?k iv mx"
  let ?st = "wheel_at ?k iv mx t (Suc n)"
  have st: "av_state ?adv = ?st" by (rule wheel_at_Suc)
  have ix: "sint (ws_index ?st) = int (Suc n mod length contexts)" "Suc n mod length contexts < length contexts"
    using wheel_index_in_range(2) [OF assms(2,3)] assms(2) by simp_all
  have ctx: "active_context_name contexts (ws_index ?st) = Inr (contexts ! (Suc n mod length contexts))"
    using ix by (simp add: active_context_name_def)
  show ?thesis
  proof (cases "av_done ?adv")
    case True
    then show ?thesis by (auto simp: lookahead_def st)
  next
    case False
    obtain wf where "build_workflow whl cctx ?st dir = Inr wf"
      "km_name (awf_meta wf) = workflow_name (km_name (awl_meta whl)) (contexts ! (Suc n mod length contexts)) (format_time_slice (ws_slice ?st))"
      "ar_context_ref (aws_routing (awf_spec wf)) = contexts ! (Suc n mod length contexts)"
      "aws_snapshot_ref (awf_spec wf) = '''' \<longrightarrow> ass_sealed (aws_snapshot (awf_spec wf))
        \<and> ass_time_slice (aws_snapshot (awf_spec wf)) = format_rfc3339 (ws_slice ?st)"
      using ix assms(1) by (auto simp: build_workflow_def Let_def slot_snapshot_def)
    with False show ?thesis by (auto simp: lookahead_def st ctx Let_def)
  qed
qed

section \<open>Windows and intervals\<close>

lemma subseq_distinct: "subseq xs ys \<Longrightarrow> distinct ys \<Longrightarrow> distinct xs"
  by (auto simp: subseq_conv_nths intro: distinct_nthsI)

lemma leaf_labels_subseq: "subseq (map n_label (leaves_node t)) (snd (dominos_from_node t))"
proof (induction t)
  case (Node l d v cs)
  then have "subseq (concat (map (\<lambda>c. map n_label (leaves_node c)) cs)) (concat (map (\<lambda>c. snd (dominos_from_node c)) cs))"
    by (induction cs) (auto intro: list_emb_append_mono)
  then show ?case by (auto simp: Let_def map_concat comp_def intro: list_emb_append2)
qed

text \<open>
  A wheel that passes the explorer window check has one context per leaf of the window:
  the labels of the seats are as many as the contexts, and pairwise different.
\<close>

theorem explorer_window_seats:
  assumes "validate_explorer_window n depth arity = Inr ()" "\<not> (depth = 0 \<and> arity = 0)"
    and "nat (sint arity) ^ nat (sint depth) < 2 ^ 63"
  shows "int (length (seat_labels depth arity)) = sint n \<and> distinct (seat_labels depth arity)"
proof -
  have p: "0 < sint depth" "0 < sint arity" and n: "n = leaf_count depth arity"
    using assms(1,2) by (auto simp: validate_explorer_window_def validate_window_seats_def seat_count_def Let_def
        split: if_splits)
  let ?m = "nat (sint arity) ^ nat (sint depth)"
  have len: "length (seat_labels depth arity) = ?m"
    using leaves_unfold [OF p(2)] by (simp add: seat_labels_def leaves_def)
  have "leaf_count depth arity = word_of_nat ?m"
    using p by (simp add: leaf_count_def mul_loop_eq word_of_pos)
  then have "sint n = int ?m" using sint_word_of_nat [OF assms(3)] n by (simp only:)
  moreover have "distinct (seat_labels depth arity)"
    using subseq_distinct [OF leaf_labels_subseq chain_distinct [OF p(2)]] by (simp add: seat_labels_def leaves_def)
  ultimately show ?thesis using len by simp
qed

text \<open>
  Days overflow silently: an interval of 110000 days is read without an error and comes
  out negative, since the hours are multiplied by 24 after the range check.
\<close>

theorem day_interval_overflows:
  "\<exists>d. parse_interval ''110000d'' = Inr d \<and> sint d < 0"
proof -
  have "parse_duration ''110000h'' = Inr 396000000000000000"
    by (simp add: parse_duration_def dur_sum.simps dur_number_def digit_val_def is_num_byte_def dur_unit_def)
  then show ?thesis
    by (simp add: parse_interval_def trim_space_def is_space_def Let_def has_suffix_def has_prefix_def trim_suffix_def)
qed

definition demo_wheel :: api_wheel where
  "demo_wheel =
     (let execution = \<lparr>ae_chain = [], ae_deterministic = True, ae_runtime = '''', ae_volcano_queue = ''''\<rparr>;
          prov = \<lparr>ap_store_path = '''', ap_node_local = False, ap_runner_image = '''', ap_node_selector = [],
            ap_net_none = True, ap_ro_root = False\<rparr>;
          tmpl = \<lparr>atp_snapshot = empty_snap_spec, atp_snapshot_ref = '''', atp_dominos = [], atp_domino_refs = [],
            atp_execution = execution, atp_provisioning = prov,
            atp_routing = \<lparr>ar_universe = '''', ar_context_ref = '''', ar_multiverse_ref = ''mv''\<rparr>\<rparr>
      in \<lparr>awl_meta = new_meta ''w'' ''ns'' [],
          awl_spec = \<lparr>aww_contexts = [''a'', ''b''], aww_window_depth = 0, aww_window_arity = 0,
            aww_interval = ''1h'', aww_template = tmpl, aww_start_slice = None, aww_max_rotations = 0,
            aww_pre_provision = False, aww_volcano_queue = '''', aww_node_selector = []\<rparr>,
          awl_status = \<lparr>awst_phase = '''', awst_time_slice = '''', awst_context = '''', awst_context_index = 0,
            awst_workflow = '''', awst_last_rotation = None, awst_rotation_count = 0, awst_slots = [],
            awst_message = '''', awst_conditions = []\<rparr>\<rparr>)"

lemma lookahead_names_built_workflow_witness:
  "\<exists>s wf. lookahead ''w'' [''a'', ''b''] (wheel_at 2 second 0 0 4) second 0 = Inr (s, False)
     \<and> sl_context s = ''b'' \<and> build_workflow demo_wheel None (sl_state s) ''/data'' = Inr wf
     \<and> km_name (awf_meta wf) = sl_name s"
proof -
  have c: "aww_contexts (awl_spec demo_wheel) = [''a'', ''b'']" "km_name (awl_meta demo_wheel) = ''w''"
    by (simp_all add: demo_wheel_def Let_def)
  have nd: "\<not> av_done (advance_after_completion (wheel_at 2 second 0 0 4) 2 second 0)"
    by (simp add: wheel_at_position advance_position)
  then have nd': "lookahead ''w'' [''a'', ''b''] (wheel_at 2 second 0 0 4) second 0 = Inr (s, done) \<Longrightarrow> \<not> done" for s "done"
    by (auto simp: lookahead_def Let_def split: sum.splits)
  have ctx: "[''a'', ''b''] ! (Suc 4 mod length [''a'', ''b'']) = ''b''" by code_simp
  have two: "word_of_nat (length [''a'', ''b'']) = (2 :: 64 word)" by simp
  show ?thesis
    using lookahead_names_built_workflow [OF c(1), of second 0 0 4 None "''/data''"] nd'
    unfolding c(2) ctx two by fastforce
qed

lemma explorer_window_seats_witness:
  "length (seat_labels 2 3) = 9 \<and> distinct (seat_labels 2 3)"
  using explorer_window_seats [of 9 2 3]
  by (simp add: validate_explorer_window_def validate_window_seats_def seat_count_def leaf_count_def mul_loop_eq)

lemma slot_provisioning_flags [simp]:
  "\<not> ap_net_none (slot_provisioning whl cctx dir c ts)" "\<not> ap_ro_root (slot_provisioning whl cctx dir c ts)"
  by (simp_all add: slot_provisioning_def Let_def split: option.split)

text \<open>
  The workflow of a slot does not keep the sandbox flags of the template: a template that
  asks for no network yields a workflow that does not, and it drops the template's multiverse.
\<close>

theorem build_workflow_drops_sandbox:
  assumes "build_workflow whl cctx st dir = Inr k"
  shows "\<not> ap_net_none (aws_provisioning (awf_spec k)) \<and> \<not> ap_ro_root (aws_provisioning (awf_spec k))
    \<and> ar_multiverse_ref (aws_routing (awf_spec k)) = ''''"
  using assms by (auto simp: build_workflow_def Let_def split: if_split_asm)

lemma build_workflow_drops_sandbox_witness:
  "\<exists>k. ap_net_none (atp_provisioning (aww_template (awl_spec demo_wheel)))
     \<and> build_workflow demo_wheel None zero_state ''/data'' = Inr k
     \<and> \<not> ap_net_none (aws_provisioning (awf_spec k))"
proof -
  obtain k where b: "build_workflow demo_wheel None zero_state ''/data'' = Inr k"
    by (simp add: build_workflow_def demo_wheel_def zero_state_def Let_def)
  have "ap_net_none (atp_provisioning (aww_template (awl_spec demo_wheel)))"
    by (simp add: demo_wheel_def Let_def)
  with b build_workflow_drops_sandbox [OF b] show ?thesis by blast
qed


end
