(* ===== verification/Kube.thy ===== *)
theory Kube
  imports Api
begin

text \<open>
  What the controllers see of the Kubernetes API server.  The server is outside the program:
  every read is answered by a function of the number of the call, every write is answered by
  an error or by none, in the same way, and the record keeps the log of the writes the
  program attempted, in order.  A statement for all such records holds whatever the server,
  other clients and the network do, stale reads and lost answers included.  Nothing is
  assumed about how the server stores an object.  The theory also holds the core objects
  (pods, config maps, untyped objects) as far as the program builds or reads them, and the
  helpers of \<open>controllerutil\<close> on finalizers and owners.
\<close>

section \<open>Core objects\<close>

record volume_mount =
  vm_name :: string
  vm_path :: string
  vm_read_only :: bool

record container =
  ct_name :: string
  ct_image :: string
  ct_command :: "string list"
  ct_args :: "string list"
  ct_env :: strmap
  ct_mounts :: "volume_mount list"
  ct_pull_policy :: string

datatype volume = EmptyDir string | ConfigMapVolume string string

record pod_spec =
  ps_init_containers :: "container list"
  ps_containers :: "container list"
  ps_volumes :: "volume list"
  ps_restart_policy :: string
  ps_grace_seconds :: "int option"
  ps_node_selector :: strmap
  ps_scheduler :: string

text \<open>\<open>cns_terminated\<close> is the exit code of a terminated container.\<close>

record container_status =
  cns_name :: string
  cns_terminated :: "int option"

record pod =
  pod_meta :: k8s_meta
  pod_spec :: pod_spec
  pod_phase :: string
  pod_init_statuses :: "container_status list"
  pod_statuses :: "container_status list"

record config_map =
  cm_meta :: k8s_meta
  cm_data :: strmap

text \<open>An untyped object: its kind, its metadata and the fields below \<open>spec\<close> and \<open>status\<close>.\<close>

record untyped =
  un_kind :: string
  un_meta :: k8s_meta
  un_spec :: gmap
  un_status :: gmap

section \<open>Calls\<close>

datatype kube_write =
    UpdateWheel api_wheel | UpdateWheelStatus api_wheel
  | CreateWorkflow api_workflow | UpdateWorkflow api_workflow | UpdateWorkflowStatus api_workflow
  | CreateChain api_chain | UpdateChain api_chain | UpdateChainStatus api_chain
  | UpdateSnapshotStatus api_snapshot | UpdateDominoStatus api_domino
  | UpdateContextStatus api_context | UpdateUniverseStatus api_universe
  | UpdateMultiverse api_multiverse | UpdateMultiverseStatus api_multiverse
  | CreateReplica api_replica | UpdateReplicaStatus api_replica
  | CreateConfigMap config_map | UpdateConfigMap config_map | CreatePod pod | CreateUntyped untyped

type_synonym object_key = "string \<times> string"

record kube =
  kb_tick :: nat
  kb_log :: "kube_write list"
  kb_write :: "nat \<Rightarrow> err option"
  kb_wheel :: "nat \<Rightarrow> object_key \<Rightarrow> api_wheel res"
  kb_context :: "nat \<Rightarrow> object_key \<Rightarrow> api_context res"
  kb_workflow :: "nat \<Rightarrow> object_key \<Rightarrow> api_workflow res"
  kb_chain :: "nat \<Rightarrow> object_key \<Rightarrow> api_chain res"
  kb_snapshot :: "nat \<Rightarrow> object_key \<Rightarrow> api_snapshot res"
  kb_domino :: "nat \<Rightarrow> object_key \<Rightarrow> api_domino res"
  kb_universe :: "nat \<Rightarrow> object_key \<Rightarrow> api_universe res"
  kb_multiverse :: "nat \<Rightarrow> object_key \<Rightarrow> api_multiverse res"
  kb_replica :: "nat \<Rightarrow> object_key \<Rightarrow> api_replica res"
  kb_config_map :: "nat \<Rightarrow> object_key \<Rightarrow> config_map res"
  kb_pod :: "nat \<Rightarrow> object_key \<Rightarrow> pod res"
  kb_pods :: "nat \<Rightarrow> string \<Rightarrow> strmap \<Rightarrow> pod list res"
  kb_untyped :: "nat \<Rightarrow> string \<Rightarrow> object_key \<Rightarrow> untyped res"

definition kube_get :: "(kube \<Rightarrow> nat \<Rightarrow> object_key \<Rightarrow> 'o res) \<Rightarrow> object_key \<Rightarrow> kube \<Rightarrow> 'o res \<times> kube" where
  "kube_get field key kb = (field kb (kb_tick kb) key, kb\<lparr>kb_tick := Suc (kb_tick kb)\<rparr>)"

definition kube_put :: "kube_write \<Rightarrow> kube \<Rightarrow> err option \<times> kube" where
  "kube_put c kb = (kb_write kb (kb_tick kb), kb\<lparr>kb_tick := Suc (kb_tick kb), kb_log := kb_log kb @ [c]\<rparr>)"

definition api_not_found :: err where
  "api_not_found = Err KApiNotFound ''not found''"

text \<open>A server that knows no object and takes every write.\<close>

definition empty_kube :: kube where
  "empty_kube = 
     \<lparr>kb_tick = 0, kb_log = [], kb_write = (\<lambda>_. None), kb_wheel = (\<lambda>_ _. Inl api_not_found), kb_context = (\<lambda>_ _. Inl api_not_found),
      kb_workflow = (\<lambda>_ _. Inl api_not_found), kb_chain = (\<lambda>_ _. Inl api_not_found), kb_snapshot = (\<lambda>_ _. Inl api_not_found), kb_domino = (\<lambda>_ _. Inl api_not_found),
      kb_universe = (\<lambda>_ _. Inl api_not_found), kb_multiverse = (\<lambda>_ _. Inl api_not_found), kb_replica = (\<lambda>_ _. Inl api_not_found),
      kb_config_map = (\<lambda>_ _. Inl api_not_found), kb_pod = (\<lambda>_ _. Inl api_not_found), kb_pods = (\<lambda>_ _ _. Inr []), kb_untyped = (\<lambda>_ _ _. Inl api_not_found)\<rparr>"

section \<open>Reconcilers\<close>

record ctrl_result =
  cr_requeue :: bool
  cr_after :: "64 word"

definition no_requeue :: ctrl_result where
  "no_requeue = \<lparr>cr_requeue = False, cr_after = 0\<rparr>"

definition requeue_now :: ctrl_result where
  "requeue_now = \<lparr>cr_requeue = True, cr_after = 0\<rparr>"

definition requeue_after :: "64 word \<Rightarrow> ctrl_result" where
  "requeue_after d = \<lparr>cr_requeue = False, cr_after = d\<rparr>"

type_synonym outcome = "ctrl_result \<times> err option"

text \<open>A write whose failure ends the reconcile with that error, and whose success with a result.\<close>

definition put_then :: "kube_write \<Rightarrow> outcome \<Rightarrow> kube \<Rightarrow> outcome \<times> kube" where
  "put_then c out kb = (case kube_put c kb of
      (Some e, kb1) \<Rightarrow> ((no_requeue, Some e), kb1)
    | (None, kb1) \<Rightarrow> (out, kb1))"

section \<open>Finalizers and owners\<close>

definition contains_finalizer :: "string \<Rightarrow> k8s_meta \<Rightarrow> bool" where
  "contains_finalizer f m = (f \<in> set (km_finalizers m))"

definition add_finalizer :: "string \<Rightarrow> k8s_meta \<Rightarrow> k8s_meta" where
  "add_finalizer f m = (if contains_finalizer f m then m else m\<lparr>km_finalizers := km_finalizers m @ [f]\<rparr>)"

definition remove_finalizer :: "string \<Rightarrow> k8s_meta \<Rightarrow> k8s_meta" where
  "remove_finalizer f m = m\<lparr>km_finalizers := filter (\<lambda>g. g \<noteq> f) (km_finalizers m)\<rparr>"

text \<open>
  \<open>SetControllerReference\<close> on an object without a controlling owner, in the owner's namespace
  or cluster-wide: the only uses the program makes of it.
\<close>

definition owned_by :: "string \<Rightarrow> k8s_meta \<Rightarrow> k8s_meta \<Rightarrow> k8s_meta" where
  "owned_by kind owner m = m\<lparr>km_owner := Some (kind, km_name owner)\<rparr>"

section \<open>What a computation adds\<close>

text \<open>
  \<open>runs P kb kb'\<close>: a computation went from \<open>kb\<close> to \<open>kb'\<close> against the same server, and every
  write it attempted satisfies \<open>P\<close>.
\<close>

definition runs :: "(kube_write \<Rightarrow> bool) \<Rightarrow> kube \<Rightarrow> kube \<Rightarrow> bool" where
  "runs P kb kb' = (\<exists>n l. kb' = kb\<lparr>kb_tick := n, kb_log := kb_log kb @ l\<rparr> \<and> list_all P l)"

abbreviation no_writes :: "kube_write \<Rightarrow> bool" where
  "no_writes \<equiv> \<lambda>_. False"

lemma runs_refl [simp, intro]: "runs P kb kb"
  unfolding runs_def by (intro exI [of _ "kb_tick kb"] exI [of _ "[]"]) simp

lemma runs_trans [trans]: "runs P kb kb1 \<Longrightarrow> runs P kb1 kb2 \<Longrightarrow> runs P kb kb2"
  unfolding runs_def by (elim exE conjE) (auto intro!: exI)

lemma runs_mono: "runs P kb kb1 \<Longrightarrow> (\<And>c. P c \<Longrightarrow> Q c) \<Longrightarrow> runs Q kb kb1"
  unfolding runs_def by (auto simp: list_all_iff)

lemma runs_silent: "runs no_writes kb kb1 \<Longrightarrow> runs P kb kb1"
  by (erule runs_mono) simp

lemma runs_get: "kube_get f k kb = (r, kb1) \<Longrightarrow> runs P kb kb1"
  unfolding runs_def kube_get_def by (auto intro!: exI [of _ "[]"])

lemma runs_put: "kube_put c kb = (r, kb1) \<Longrightarrow> P c \<Longrightarrow> runs P kb kb1"
  unfolding runs_def kube_put_def by (auto intro!: exI [of _ "[c]"])

lemma put_then_cases:
  assumes "put_then c out kb = (o', kb1)"
  shows "kube_put c kb = (kb_write kb (kb_tick kb), kb1)"
    "o' = (case kb_write kb (kb_tick kb) of Some e \<Rightarrow> (no_requeue, Some e) | None \<Rightarrow> out)"
  using assms by (auto simp: put_then_def kube_put_def split: option.splits)

lemma runs_put_then: "put_then c out kb = (o', kb1) \<Longrightarrow> P c \<Longrightarrow> runs P kb kb1"
  by (drule put_then_cases(1)) (rule runs_put)

lemma runs_writes: "runs P kb kb1 \<Longrightarrow> c \<in> set (kb_log kb1) \<Longrightarrow> c \<in> set (kb_log kb) \<or> P c"
  by (auto simp: runs_def list_all_iff)

lemma runs_server:
  assumes "runs P kb kb1"
  shows "kb_wheel kb1 = kb_wheel kb" "kb_context kb1 = kb_context kb" "kb_workflow kb1 = kb_workflow kb"
    "kb_chain kb1 = kb_chain kb" "kb_snapshot kb1 = kb_snapshot kb" "kb_domino kb1 = kb_domino kb"
    "kb_universe kb1 = kb_universe kb" "kb_write kb1 = kb_write kb" "kb_config_map kb1 = kb_config_map kb"
    "kb_pod kb1 = kb_pod kb" "kb_untyped kb1 = kb_untyped kb"
  using assms by (auto simp: runs_def)

lemma kube_get_value: "kube_get f k kb = (r, kb1) \<Longrightarrow> r = f kb (kb_tick kb) k"
  by (simp add: kube_get_def)

end
