(* ===== verification/ChainBuild.thy ===== *)
theory ChainBuild
  imports Kube GoLib
begin

text \<open>
  The Kubernetes objects of a domino chain (\<open>pkg/dominochain\<close>): the pods whose containers run
  its steps, the config map with its snapshot, the Volcano job and the OpenKruise pull jobs.
  A builder is its \<open>RunnerImage\<close>, empty for a nil builder.  The lemmas show that every step
  reads what the step before it wrote, and which names the containers get.
\<close>

section \<open>Images\<close>

definition default_runner_image :: string where
  "default_runner_image = ''ghcr.io/jmjava/kbl-domino-runner:latest''"

definition default_julia_runner_image :: string where
  "default_julia_runner_image = ''ghcr.io/jmjava/kbl-domino-runner-julia:latest''"

definition handoff_mount_path :: string where "handoff_mount_path = ''/kbl/handoff''"
definition snapshot_mount_path :: string where "snapshot_mount_path = ''/kbl/input''"

definition runner_image :: "string \<Rightarrow> api_chain \<Rightarrow> string" where
  "runner_image b chain =
     (if dcs_runner_image (dch_spec chain) \<noteq> '''' then dcs_runner_image (dch_spec chain)
      else if b \<noteq> '''' then b else default_runner_image)"

definition is_julia_runner_image :: "string \<Rightarrow> bool" where
  "is_julia_runner_image img = contains_sub (to_lower img) ''julia''"

definition is_julia_command :: "string \<Rightarrow> bool" where
  "is_julia_command command = has_prefix command ''julia:''"

fun chain_has_julia_steps :: "api_step list \<Rightarrow> bool" where
  "chain_has_julia_steps [] = False"
| "chain_has_julia_steps (st # steps) =
     (if is_julia_command (dst_command st) then True else chain_has_julia_steps steps)"

definition validate_chain :: "api_chain option \<Rightarrow> string \<Rightarrow> unit res" where
  "validate_chain chain runnerImage =
     (case chain of
        None \<Rightarrow> Inl (errorf ''domino chain is nil'')
      | Some c \<Rightarrow>
          if \<not> ass_sealed (dcs_snapshot (dch_spec c)) then Inl (errorf ''snapshot is not sealed'')
          else if chain_has_julia_steps (dcs_steps (dch_spec c)) \<and> \<not> is_julia_runner_image runnerImage
          then Inl (errorf (''julia steps require a julia runner image, got '' @ quote runnerImage))
          else Inr ())"

definition step_image :: "string \<Rightarrow> api_chain \<Rightarrow> api_step \<Rightarrow> string" where
  "step_image b chain st = (if dst_image st \<noteq> '''' then dst_image st else runner_image b chain)"

section \<open>Names and labels\<close>

text \<open>The loop of \<open>sanitize\<close> over the bytes that are left, with the bytes kept so far.\<close>

fun sanitize_loop :: "string \<Rightarrow> string \<Rightarrow> string" where
  "sanitize_loop [] out = out"
| "sanitize_loop (c # cs) out =
     (if length out < 20 then
        if (CHR ''a'' \<le> c \<and> c \<le> CHR ''z'') \<or> (CHR ''0'' \<le> c \<and> c \<le> CHR ''9'') \<or> c = CHR ''-''
        then sanitize_loop cs (out @ [c])
        else if CHR ''A'' \<le> c \<and> c \<le> CHR ''Z'' then sanitize_loop cs (out @ [char_of (of_char c + 32 :: nat)])
        else if c = CHR ''_'' then sanitize_loop cs (out @ ''-'')
        else sanitize_loop cs out
      else out)"

definition sanitize :: "string \<Rightarrow> string" where
  "sanitize name = (let out = sanitize_loop name [] in if out = [] then ''step'' else out)"

definition slot_name :: "nat \<Rightarrow> string \<Rightarrow> string" where
  "slot_name index stepName = ''slot-'' @ nat_str index @ ''-'' @ sanitize stepName"

definition chain_labels :: "string \<Rightarrow> strmap" where
  "chain_labels chainName =
     [(''kbl.io/dominochain'', chainName), (''app.kubernetes.io/managed-by'', ''kbl-controller'')]"

definition step_container_name :: "api_chain \<Rightarrow> int \<Rightarrow> string" where
  "step_container_name chain index =
     (let steps = dcs_steps (dch_spec chain)
      in if index < 0 \<or> int (length steps) \<le> index then ''''
         else slot_name (nat index) (dst_name (steps ! nat index)))"

section \<open>Pods\<close>

definition snapshot_config_map :: "api_chain \<Rightarrow> string \<Rightarrow> config_map" where
  "snapshot_config_map chain snapshotJSON =
     (let name = km_name (dch_meta chain)
      in \<lparr>cm_meta = new_meta (name @ ''-snapshot'') (km_namespace (dch_meta chain)) (chain_labels name),
          cm_data = [(''snapshot.json'', snapshotJSON)]\<rparr>)"

definition handoff_mounts :: "volume_mount list" where
  "handoff_mounts =
     [\<lparr>vm_name = ''handoff'', vm_path = handoff_mount_path, vm_read_only = False\<rparr>,
      \<lparr>vm_name = ''snapshot'', vm_path = snapshot_mount_path, vm_read_only = True\<rparr>]"

definition step_command :: "api_step \<Rightarrow> string list" where
  "step_command st = (if 0 < length (dst_args st) then dst_args st else [])"

definition step_env_io :: "api_step \<Rightarrow> string \<Rightarrow> string \<Rightarrow> strmap" where
  "step_env_io st inputPath outputPath =
     [(''KBL_COMMAND'', dst_command st), (''KBL_INPUT'', inputPath), (''KBL_OUTPUT'', outputPath),
      (''KBL_STEP_NAME'', dst_name st)]
     @ (if is_julia_command (dst_command st)
        then [(''KBL_JULIA_PROJECT'', ''/opt/kbl/julia''), (''KBL_JULIA_BIN'', ''julia'')] else [])"

definition step_env :: "api_step \<Rightarrow> string \<Rightarrow> strmap" where
  "step_env st inputPath = step_env_io st inputPath (path_join [handoff_mount_path, ''output.json''])"

definition chain_volumes :: "api_chain \<Rightarrow> volume list" where
  "chain_volumes chain =
     [EmptyDir ''handoff'', ConfigMapVolume ''snapshot'' (km_name (dch_meta chain) @ ''-snapshot'')]"

definition init_container :: "string \<Rightarrow> api_chain \<Rightarrow> nat \<Rightarrow> api_step \<Rightarrow> container" where
  "init_container b chain i st =
     \<lparr>ct_name = slot_name i (dst_name st), ct_image = step_image b chain st,
      ct_command = step_command st, ct_args = [],
      ct_env = step_env st (if 0 < i then path_join [handoff_mount_path, ''output.json'']
                            else path_join [snapshot_mount_path, ''snapshot.json'']),
      ct_mounts = handoff_mounts, ct_pull_policy = ''IfNotPresent''\<rparr>"

definition build_init_chain_pod :: "string \<Rightarrow> api_chain \<Rightarrow> pod" where
  "build_init_chain_pod b chain =
     (let name = km_name (dch_meta chain)
      in \<lparr>pod_meta = (new_meta (name @ ''-chain'') (km_namespace (dch_meta chain)) (chain_labels name))
            \<lparr>km_annotations := [(''kbl.io/runtime'', dcs_runtime (dch_spec chain))]\<rparr>,
          pod_spec = \<lparr>
            ps_init_containers = map (\<lambda>(i, st). init_container b chain i st)
              (enumerate 0 (dcs_steps (dch_spec chain))),
            ps_containers = [\<lparr>ct_name = ''chain-complete'', ct_image = ''registry.k8s.io/pause:3.9'',
              ct_command = [''/pause''], ct_args = [], ct_env = [],
              ct_mounts = [\<lparr>vm_name = ''handoff'', vm_path = handoff_mount_path, vm_read_only = False\<rparr>],
              ct_pull_policy = ''IfNotPresent''\<rparr>],
            ps_volumes = chain_volumes chain, ps_restart_policy = ''Never'', ps_grace_seconds = Some 30,
            ps_node_selector = dcs_node_selector (dch_spec chain), ps_scheduler = ''''\<rparr>,
          pod_phase = '''', pod_init_statuses = [], pod_statuses = []\<rparr>)"

definition kruise_output :: "nat \<Rightarrow> string" where
  "kruise_output i = path_join [handoff_mount_path, ''output-'' @ nat_str i @ ''.json'']"

definition kruise_container :: "string \<Rightarrow> api_chain \<Rightarrow> nat \<Rightarrow> api_step \<Rightarrow> container" where
  "kruise_container b chain i st =
     \<lparr>ct_name = slot_name i (dst_name st), ct_image = step_image b chain st, ct_command = [], ct_args = [],
      ct_env = step_env_io st
        (if 0 < i then kruise_output (i - 1) else path_join [snapshot_mount_path, ''snapshot.json''])
        (kruise_output i),
      ct_mounts = handoff_mounts, ct_pull_policy = ''IfNotPresent''\<rparr>"

definition build_openkruise_pod :: "string \<Rightarrow> api_chain \<Rightarrow> pod" where
  "build_openkruise_pod b chain =
     (let name = km_name (dch_meta chain)
      in \<lparr>pod_meta = (new_meta (name @ ''-chain'') (km_namespace (dch_meta chain)) (chain_labels name))
            \<lparr>km_annotations := [(''kbl.io/runtime'', ''openkruise''), (''kbl.io/runner-image'', runner_image b chain),
               (''kbl.io/active-slots'', ''2'')]\<rparr>,
          pod_spec = \<lparr>
            ps_init_containers = [],
            ps_containers = map (\<lambda>(i, st). kruise_container b chain i st)
              (enumerate 0 (dcs_steps (dch_spec chain))),
            ps_volumes = chain_volumes chain, ps_restart_policy = ''Never'', ps_grace_seconds = Some 30,
            ps_node_selector = dcs_node_selector (dch_spec chain), ps_scheduler = ''''\<rparr>,
          pod_phase = '''', pod_init_statuses = [], pod_statuses = []\<rparr>)"

section \<open>Volcano\<close>

definition volcano_job_name :: "api_chain \<Rightarrow> string" where
  "volcano_job_name chain =
     (let chainName = km_name (dch_meta chain); name = chainName @ ''-chain''
      in if length name \<le> 63 then name
         else if length chainName \<le> 63 then chainName
         else let trimmed = trim_right_char (CHR ''-'') (take 63 chainName)
              in if trimmed = '''' then ''kbl-chain'' else trimmed)"

definition string_map_to_interface :: "strmap \<Rightarrow> gval" where
  "string_map_to_interface m = (if m = [] then GNil else GMap (map (\<lambda>(k, v). (k, GStr v)) m))"

definition replace_volcano_complete_container :: "pod_spec \<Rightarrow> string \<Rightarrow> pod_spec" where
  "replace_volcano_complete_container spec img =
     (case ps_containers spec of
        [] \<Rightarrow> spec
      | c # cs \<Rightarrow> spec\<lparr>ps_containers := c\<lparr>ct_name := ''chain-complete'', ct_image := img, ct_command := [],
          ct_args := [], ct_env := [(''KBL_COMMAND'', ''builtin:identity''),
            (''KBL_INPUT'', handoff_mount_path @ ''/output.json''),
            (''KBL_OUTPUT'', handoff_mount_path @ ''/complete.json''),
            (''KBL_STEP_NAME'', ''chain-complete'')]\<rparr> # cs\<rparr>)"

text \<open>
  \<open>encode\<close> is \<open>podSpecToMap\<close>: the JSON form of a pod specification, which the struct tags of
  the Kubernetes API decide.
\<close>

definition volcano_pod_spec :: "string \<Rightarrow> api_chain \<Rightarrow> pod_spec" where
  "volcano_pod_spec b chain =
     replace_volcano_complete_container ((pod_spec (build_init_chain_pod b chain))\<lparr>ps_scheduler := ''volcano''\<rparr>)
       (runner_image b chain)"

definition build_volcano_job :: "(pod_spec \<Rightarrow> gmap) \<Rightarrow> string \<Rightarrow> api_chain \<Rightarrow> untyped" where
  "build_volcano_job encode b chain =
     (let meta = pod_meta (build_init_chain_pod b chain);
          queue = (if dcs_volcano_queue (dch_spec chain) = '''' then ''default'' else dcs_volcano_queue (dch_spec chain));
          policy = GArr [GMap [(''event'', GStr ''TaskCompleted''), (''action'', GStr ''CompleteJob'')]];
          template = GMap [(''metadata'', GMap [(''labels'', string_map_to_interface (km_labels meta)),
              (''annotations'', string_map_to_interface (km_annotations meta))]),
            (''spec'', GMap (encode (volcano_pod_spec b chain)))]
      in \<lparr>un_kind = ''batch.volcano.sh/v1alpha1/Job'',
          un_meta = (new_meta (volcano_job_name chain) (km_namespace (dch_meta chain))
            (chain_labels (km_name (dch_meta chain))))\<lparr>km_owner := Some (''DominoChain'', km_name (dch_meta chain))\<rparr>,
          un_spec = [(''minAvailable'', GInt 1), (''schedulerName'', GStr ''volcano''), (''queue'', GStr queue),
            (''policies'', policy),
            (''tasks'', GArr [GMap [(''replicas'', GInt 1), (''name'', GStr ''domino-chain''), (''policies'', policy),
               (''template'', template)]])],
          un_status = []\<rparr>)"

text \<open>A field reached through nested maps; \<open>NestedString\<close> is empty unless it is a string.\<close>

fun nested_field :: "gmap \<Rightarrow> string list \<Rightarrow> gval option" where
  "nested_field m [] = Some (GMap m)"
| "nested_field m (k # ks) = (case map_of m k of
      None \<Rightarrow> None
    | Some v \<Rightarrow> if ks = [] then Some v else (case v of GMap m1 \<Rightarrow> nested_field m1 ks | _ \<Rightarrow> None))"

definition nested_string :: "gmap \<Rightarrow> string list \<Rightarrow> string" where
  "nested_string m path = (case nested_field m path of Some (GStr s) \<Rightarrow> s | _ \<Rightarrow> '''')"

definition volcano_job_phase :: "untyped \<Rightarrow> string" where
  "volcano_job_phase job = nested_string (un_status job) [''state'', ''phase'']"

definition is_volcano_job_complete :: "untyped \<Rightarrow> bool" where
  "is_volcano_job_complete job = (volcano_job_phase job = ''Completed'')"

definition is_volcano_job_failed :: "untyped \<Rightarrow> bool" where
  "is_volcano_job_failed job = (volcano_job_phase job \<in> {''Failed'', ''Aborted'', ''Terminated''})"

definition volcano_job_status_message :: "untyped \<Rightarrow> string" where
  "volcano_job_status_message job =
     (let msg = nested_string (un_status job) [''state'', ''message'']
      in if msg \<noteq> '''' then msg else ''volcano job phase '' @ volcano_job_phase job)"

section \<open>OpenKruise\<close>

definition image_pull_job_name :: "api_chain \<Rightarrow> nat \<Rightarrow> string" where
  "image_pull_job_name chain imageIndex =
     (let chainName = km_name (dch_meta chain);
          suffix = (if 0 < imageIndex then ''-pull-'' @ nat_str imageIndex else ''-pull'');
          name = chainName @ suffix
      in if length name \<le> 63 then name
         else if 63 < 1 + length suffix then trim_right_char (CHR ''-'') (take 63 (''kbl'' @ suffix))
         else let trimmed = trim_right_char (CHR ''-'') (take (63 - length suffix) chainName)
              in (if trimmed = '''' then ''kbl'' else trimmed) @ suffix)"

text \<open>The loop of \<open>OpenKruisePullImages\<close>: the set \<open>seen\<close> is the list of images itself.\<close>

fun pull_images_loop :: "string \<Rightarrow> api_chain \<Rightarrow> api_step list \<Rightarrow> string list \<Rightarrow> string list" where
  "pull_images_loop b chain [] images = images"
| "pull_images_loop b chain (st # steps) images =
     (let img = step_image b chain st
      in if img = '''' \<or> img \<in> set images then pull_images_loop b chain steps images
         else pull_images_loop b chain steps (images @ [img]))"

definition openkruise_pull_images :: "string \<Rightarrow> api_chain option \<Rightarrow> string list" where
  "openkruise_pull_images b chain =
     (case chain of
        None \<Rightarrow> []
      | Some c \<Rightarrow> (let images = pull_images_loop b c (dcs_steps (dch_spec c)) []
                  in if images = [] then [runner_image b c] else images))"

fun add_kbl_labels :: "strmap \<Rightarrow> strmap \<Rightarrow> strmap" where
  "add_kbl_labels [] labels = labels"
| "add_kbl_labels ((k, v) # m) labels =
     add_kbl_labels m (if has_prefix k ''kbl.io/'' then aput k v labels else labels)"

definition build_image_pull_job :: "api_chain \<Rightarrow> string \<Rightarrow> nat \<Rightarrow> untyped" where
  "build_image_pull_job chain img imageIndex =
     (let name = km_name (dch_meta chain);
          labels = add_kbl_labels (km_labels (dch_meta chain)) (aput ''kbl.io/image-pull'' ''true'' (chain_labels name));
          meta = new_meta (image_pull_job_name chain imageIndex) (km_namespace (dch_meta chain)) labels
      in \<lparr>un_kind = ''apps.kruise.io/v1alpha1/ImagePullJob'',
          un_meta = (if km_uid (dch_meta chain) \<noteq> '''' then meta\<lparr>km_owner := Some (''DominoChain'', name)\<rparr> else meta),
          un_spec = [(''image'', GStr img), (''imagePullPolicy'', GStr ''IfNotPresent''), (''parallelism'', GInt 1),
            (''completionPolicy'', GMap [(''type'', GStr ''Always''), (''activeDeadlineSeconds'', GInt 900),
               (''ttlSecondsAfterFinished'', GInt 600)]),
            (''pullPolicy'', GMap [(''backoffLimit'', GInt 3), (''timeoutSeconds'', GInt 600)]),
            (''sandboxConfig'', GMap [(''labels'', string_map_to_interface labels)])]
            @ (if 0 < length (dcs_node_selector (dch_spec chain))
               then [(''selector'', GMap [(''matchLabels'', string_map_to_interface (dcs_node_selector (dch_spec chain)))])]
               else []),
          un_status = []\<rparr>)"

text \<open>\<open>int64(n)\<close> of a float64; out of range it is the least integer, as on amd64.\<close>

definition float_to_int64 :: "f64 \<Rightarrow> int" where
  "float_to_int64 x =
     (case x of
        FFin q \<Rightarrow> (let i = (if q < 0 then - \<lfloor>- q\<rfloor> else \<lfloor>q\<rfloor>)
                   in if - (2 ^ 63) \<le> i \<and> i < 2 ^ 63 then i else - (2 ^ 63))
      | FNegZero \<Rightarrow> 0 | _ \<Rightarrow> - (2 ^ 63))"

definition nested_status_int :: "untyped option \<Rightarrow> string \<Rightarrow> int" where
  "nested_status_int job field =
     (case job of
        None \<Rightarrow> 0
      | Some j \<Rightarrow> (case nested_field (un_status j) [field] of
            Some (GInt n) \<Rightarrow> n | Some (GNum x) \<Rightarrow> float_to_int64 x | _ \<Rightarrow> 0))"

definition is_image_pull_job_complete :: "untyped option \<Rightarrow> bool" where
  "is_image_pull_job_complete job =
     (if job = None then False
      else let succeeded = nested_status_int job ''succeeded''; desired = nested_status_int job ''desired''
           in if succeeded \<le> 0 then False
              else if 0 < desired \<and> succeeded < desired then False else True)"

definition is_image_pull_job_failed :: "untyped option \<Rightarrow> bool" where
  "is_image_pull_job_failed job =
     (case job of
        None \<Rightarrow> False
      | Some j \<Rightarrow>
          let succeeded = nested_status_int job ''succeeded''; desired = nested_status_int job ''desired'';
              failed = nested_status_int job ''failed''; completion = nested_string (un_status j) [''completionTime''];
              msg = nested_string (un_status j) [''message'']
          in if 0 < succeeded then False
             else if 0 < failed \<and> completion \<noteq> '''' then True
             else if 0 < failed \<and> 0 < desired \<and> desired \<le> failed then True
             else contains_sub (to_lower msg) ''deadline'' \<and> 0 < failed)"

definition image_pull_job_status_message :: "untyped option \<Rightarrow> string" where
  "image_pull_job_status_message job =
     (case job of
        None \<Rightarrow> ''image pull job missing''
      | Some j \<Rightarrow>
          let msg = nested_string (un_status j) [''message'']
          in if msg \<noteq> '''' then msg
             else ''image pull succeeded='' @ int_str (nested_status_int job ''succeeded'')
               @ '' desired='' @ int_str (nested_status_int job ''desired'')
               @ '' failed='' @ int_str (nested_status_int job ''failed''))"

text \<open>A step index outside the chain is a run-time panic.\<close>

definition container_recreate_request :: "api_chain \<Rightarrow> int \<Rightarrow> untyped res" where
  "container_recreate_request chain stepIndex =
     (let steps = dcs_steps (dch_spec chain); name = km_name (dch_meta chain)
      in if stepIndex < 0 \<or> int (length steps) \<le> stepIndex then Inl (panic ''index out of range'')
         else Inr
           \<lparr>un_kind = ''apps.kruise.io/v1alpha1/ContainerRecreateRequest'',
            un_meta = (new_meta (name @ ''-slot-'' @ int_str stepIndex) (km_namespace (dch_meta chain))
              (chain_labels name @ [(''kbl.io/step'', dst_name (steps ! nat stepIndex))]))
              \<lparr>km_owner := Some (''DominoChain'', name)\<rparr>,
            un_spec = [(''podName'', GStr (name @ ''-chain'')),
              (''containers'', GArr [GMap [(''name'', GStr (step_container_name chain stepIndex))]]),
              (''strategy'', GMap [(''orderedRecreate'', GBool True)])],
            un_status = []\<rparr>)"

definition crr_phase :: "untyped \<Rightarrow> string" where
  "crr_phase crr = nested_string (un_status crr) [''phase'']"

definition is_crr_complete :: "untyped \<Rightarrow> bool" where
  "is_crr_complete crr = (crr_phase crr = ''Completed'' \<or> crr_phase crr = ''Complete'')"


section \<open>Hand-over\<close>

text \<open>The value of an environment variable of container \<open>i\<close>.\<close>

definition container_env :: "container list \<Rightarrow> nat \<Rightarrow> string \<Rightarrow> string option" where
  "container_env cs i var = map_of (ct_env (cs ! i)) var"

lemma nth_enumerate_map: "i < length xs \<Longrightarrow> map (\<lambda>(j, x). f j x) (enumerate 0 xs) ! i = f i (xs ! i)"
  by (simp add: nth_enumerate_eq)

lemma slot_name_inject: "slot_name i m = slot_name j n \<Longrightarrow> i = j"
proof -
  assume "slot_name i m = slot_name j n"
  then have "nat_str i @ CHR ''-'' # sanitize m = nat_str j @ CHR ''-'' # sanitize n"
    by (simp add: slot_name_def)
  from split_first [OF this nat_str_no_dot(2) nat_str_no_dot(2)] show "i = j" by simp
qed

lemma distinct_slot_names:
  assumes "\<And>i st. ct_name (f i st) = slot_name i (dst_name st)"
  shows "distinct (map ct_name (map (\<lambda>(i, st). f i st) (enumerate k steps)))"
proof -
  have "inj_on (\<lambda>(i, st). slot_name i (dst_name st)) (set (enumerate k steps))"
    by (auto simp: inj_on_def in_set_enumerate_eq dest!: slot_name_inject)
  then show ?thesis
    by (simp add: distinct_map comp_def case_prod_beta' assms)
qed

lemma chain_paths:
  "path_join [handoff_mount_path, ''output.json''] = ''/kbl/handoff/output.json''"
  "path_join [snapshot_mount_path, ''snapshot.json''] = ''/kbl/input/snapshot.json''"
  by code_simp+

text \<open>What the containers of both pods have in common: \<open>out i\<close> is the file container \<open>i\<close> writes.\<close>

lemma hand_over:
  assumes cs: "cs = map (\<lambda>(i, st). f i st) (enumerate 0 steps)"
    and nm: "\<And>i st. ct_name (f i st) = slot_name i (dst_name st)"
    and env: "\<And>i st. ct_env (f i st) = step_env_io st
      (if 0 < i then out (i - 1) else path_join [snapshot_mount_path, ''snapshot.json'']) (out i)"
  shows "length cs = length steps \<and> distinct (map ct_name cs)
    \<and> (\<forall>i < length steps. container_env cs i ''KBL_COMMAND'' = Some (dst_command (steps ! i))
        \<and> container_env cs i ''KBL_INPUT'' = (if i = 0 then Some ''/kbl/input/snapshot.json''
            else container_env cs (i - 1) ''KBL_OUTPUT''))"
proof -
  have nth: "cs ! j = f j (steps ! j)" if "j < length steps" for j
    using that unfolding cs by (rule nth_enumerate_map)
  have "container_env cs i ''KBL_COMMAND'' = Some (dst_command (steps ! i))
      \<and> container_env cs i ''KBL_INPUT'' = (if i = 0 then Some ''/kbl/input/snapshot.json''
          else container_env cs (i - 1) ''KBL_OUTPUT'')" if i: "i < length steps" for i
  proof (cases i)
    case 0
    then show ?thesis using nth [OF i] by (simp add: container_env_def env step_env_io_def chain_paths)
  next
    case (Suc k)
    then have "k < length steps" using i by simp
    from Suc nth [OF i] nth [OF this] show ?thesis by (simp add: container_env_def env step_env_io_def)
  qed
  moreover have "distinct (map ct_name cs)" unfolding cs by (rule distinct_slot_names) (rule nm)
  ultimately show ?thesis by (simp add: cs)
qed


definition demo_chain :: "api_step list \<Rightarrow> api_chain" where
  "demo_chain steps =
     \<lparr>dch_meta = new_meta ''c'' ''ns'' [],
      dch_spec = \<lparr>dcs_snapshot = \<lparr>ass_time_slice = ''2025-04-15T00:00:00Z'',
          ass_source = \<lparr>as_inline = Some [(''v'', GInt 1)], as_path = '''', as_uri = ''''\<rparr>,
          ass_context_ref = '''', ass_sealed = True\<rparr>,
        dcs_steps = steps, dcs_runtime = '''', dcs_store_path = '''', dcs_runner_image = '''',
        dcs_node_selector = [], dcs_volcano_queue = ''''\<rparr>,
      dch_status = \<lparr>dct_phase = '''', dct_active_step = 0, dct_pod_name = '''', dct_snapshot_id = '''',
        dct_final_output_hash = '''', dct_step_results = [], dct_message = '''', dct_conditions = []\<rparr>\<rparr>"

definition demo_step :: "string \<Rightarrow> string \<Rightarrow> string \<Rightarrow> api_step" where
  "demo_step name command img = \<lparr>dst_name = name, dst_image = img, dst_command = command, dst_args = []\<rparr>"


section \<open>Names\<close>

lemma length_trim_right: "length (trim_right_char c s) \<le> length s"
  using length_dropWhile_le [of "\<lambda>x. x = c" "rev s"] by (simp add: trim_right_char_def)

lemma sanitize_loop_length: "length out \<le> 20 \<Longrightarrow> length (sanitize_loop s out) \<le> 20"
  by (induction s out rule: sanitize_loop.induct) auto

lemma length_nat_str: "n < 10 ^ k \<Longrightarrow> 0 < k \<Longrightarrow> length (nat_str n) \<le> k"
proof (induction n arbitrary: k rule: nat_str.induct)
  case (1 n)
  show ?case
  proof (cases "n < 10")
    case True
    then show ?thesis using 1(3) by (subst nat_str.simps) simp
  next
    case False
    then obtain j where k: "k = Suc (Suc j)" using 1(2,3) by (cases k; cases "k - 1") auto
    then have "n div 10 < 10 ^ Suc j" using 1(2) by (simp add: div_less_iff_less_mult mult.commute)
    from 1(1) [OF False this] show ?thesis using False k by (subst nat_str.simps) simp
  qed
qed

text \<open>
  The objects of a chain have names Kubernetes accepts as labels: the Volcano job and the
  image pull jobs have at most 63 bytes whatever the name of the chain, and a container at
  most 45, for every index an \<open>int\<close> can hold.
\<close>

theorem chain_names_fit:
  assumes "i < 2 ^ 63"
  shows "length (slot_name i stepName) \<le> 45 \<and> length (image_pull_job_name chain i) \<le> 63
    \<and> length (volcano_job_name chain) \<le> 63"
proof -
  have n: "length (nat_str i) \<le> 19" using assms by (intro length_nat_str) simp_all
  have "length (sanitize stepName) \<le> 20"
    using sanitize_loop_length [of "[]" stepName] by (simp add: sanitize_def Let_def)
  with n have "length (slot_name i stepName) \<le> 45" by (simp add: slot_name_def)
  moreover have "length (volcano_job_name chain) \<le> 63"
    using length_trim_right [of "CHR ''-''" "take 63 (km_name (dch_meta chain))"]
    by (auto simp: volcano_job_name_def Let_def)
  moreover have "length (image_pull_job_name chain i) \<le> 63"
  proof -
    have t: "length (trim_right_char (CHR ''-'') (take (63 - m) (km_name (dch_meta chain)))) \<le> 63 - m" for m
      using length_trim_right [of "CHR ''-''" "take (63 - m) (km_name (dch_meta chain))"] by simp
    show ?thesis using n t [of "6 + length (nat_str i)"] t [of 5]
      by (auto simp: image_pull_job_name_def Let_def split: if_splits)
  qed
  ultimately show ?thesis by simp
qed

lemma chain_names_fit_witness:
  "\<forall>chain. length (image_pull_job_name chain 12) \<le> 63"
  using chain_names_fit [of 12] by simp

section \<open>Validation\<close>

text \<open>
  A chain that passes the check can still run a Julia step in an image without Julia: the
  check looks at the runner image of the chain, a step runs in its own image when it has one.
\<close>

theorem julia_step_in_other_image:
  "\<exists>chain. validate_chain (Some chain) (runner_image '''' chain) = Inr ()
    \<and> container_env (ps_init_containers (pod_spec (build_init_chain_pod '''' chain))) 0 ''KBL_COMMAND'' = Some ''julia:fit''
    \<and> \<not> is_julia_runner_image (ct_image (hd (ps_init_containers (pod_spec (build_init_chain_pod '''' chain)))))"
proof -
  define chain where "chain = (demo_chain [demo_step ''fit'' ''julia:fit'' ''alpine''])
    \<lparr>dch_spec := (dch_spec (demo_chain [demo_step ''fit'' ''julia:fit'' ''alpine'']))
      \<lparr>dcs_runner_image := default_julia_runner_image\<rparr>\<rparr>"
  have "validate_chain (Some chain) (runner_image '''' chain) = Inr ()" unfolding chain_def by code_simp
  moreover have "container_env (ps_init_containers (pod_spec (build_init_chain_pod '''' chain))) 0 ''KBL_COMMAND''
      = Some ''julia:fit''"
    by (simp add: chain_def demo_chain_def demo_step_def build_init_chain_pod_def container_env_def init_container_def
        step_env_def step_env_io_def Let_def)
  moreover have "\<not> is_julia_runner_image (ct_image (hd (ps_init_containers (pod_spec (build_init_chain_pod '''' chain)))))"
    by (simp add: chain_def demo_chain_def demo_step_def build_init_chain_pod_def init_container_def step_image_def
        is_julia_runner_image_def to_lower_def lower_char_def has_prefix_def less_eq_char_def Let_def)
  ultimately show ?thesis by blast
qed

text \<open>A step name that ends in an underscore gives a container name that ends in a dash.\<close>

lemma slot_name_ends_in_dash: "slot_name 0 ''load_'' = ''slot-0-load-''"
  by code_simp


end
