(* ===== verification/Universe.thy ===== *)
theory Universe
  imports ChainBuild
begin

text \<open>
  Pluggable universes: what a universe adds to a workflow (\<open>pkg/universe/apply.go\<close>) and the
  controller that reports on one (\<open>internal/controller/pluggableuniverse_controller.go\<close>).
  The lemmas show what a workflow can count on after \<open>ApplyToWorkflow\<close>.
\<close>

section \<open>ApplyToWorkflow\<close>

definition is_container_runtime :: "string \<Rightarrow> bool" where
  "is_container_runtime rt = (if rt = '''' \<or> rt = ''local'' then False else True)"

fun refs_have_julia :: "string \<Rightarrow> string list \<Rightarrow> kube \<Rightarrow> bool res \<times> kube" where
  "refs_have_julia ns [] kb = (Inr False, kb)"
| "refs_have_julia ns (name # names) kb =
     (case kube_get kb_domino (ns, name) kb of
        (Inl e, kb1) \<Rightarrow> (Inl (wrapf (''domino ref '' @ quote name) e), kb1)
      | (Inr d, kb1) \<Rightarrow>
          if has_prefix (adr_command (adn_spec d)) ''julia:'' then (Inr True, kb1)
          else refs_have_julia ns names kb1)"

definition workflow_has_julia :: "api_workflow \<Rightarrow> kube \<Rightarrow> bool res \<times> kube" where
  "workflow_has_julia k kb =
     (if list_ex (\<lambda>d. has_prefix (ads_command d) ''julia:'') (aws_dominos (awf_spec k)) then (Inr True, kb)
      else if aws_domino_refs (awf_spec k) = [] then (Inr False, kb)
      else refs_have_julia (km_namespace (awf_meta k)) (aws_domino_refs (awf_spec k)) kb)"

definition set_runner_image :: "string \<Rightarrow> api_workflow \<Rightarrow> api_workflow" where
  "set_runner_image img k = k\<lparr>awf_spec := (awf_spec k)
     \<lparr>aws_provisioning := (aws_provisioning (awf_spec k))\<lparr>ap_runner_image := img\<rparr>\<rparr>\<rparr>"

definition set_runtime :: "string \<Rightarrow> api_workflow \<Rightarrow> api_workflow" where
  "set_runtime rt k = k\<lparr>awf_spec := (awf_spec k)
     \<lparr>aws_execution := (aws_execution (awf_spec k))\<lparr>ae_runtime := rt\<rparr>\<rparr>\<rparr>"

abbreviation wf_image :: "api_workflow \<Rightarrow> string" where
  "wf_image k \<equiv> ap_runner_image (aws_provisioning (awf_spec k))"

abbreviation wf_runtime :: "api_workflow \<Rightarrow> string" where
  "wf_runtime k \<equiv> ae_runtime (aws_execution (awf_spec k))"

text \<open>What a universe that was found changes.\<close>

definition apply_universe :: "api_universe \<Rightarrow> bool \<Rightarrow> api_workflow \<Rightarrow> api_workflow" where
  "apply_universe u hasJulia k =
     (let en = us_engine (apu_spec u);
          k1 = (if wf_image k = '''' \<and> en_runtime_image en \<noteq> '''' then set_runner_image (en_runtime_image en) k else k)
      in if wf_runtime k1 = '''' \<and> to_lower (en_type en) = ''julia'' \<and> hasJulia
         then set_runtime ''kubernetes-init'' k1 else k1)"

text \<open>The two checks at the end, once the universe had its say.\<close>

definition check_julia_image :: "bool \<Rightarrow> api_workflow \<Rightarrow> api_workflow res" where
  "check_julia_image hasJulia k =
     (let k1 = (if hasJulia \<and> wf_image k = '''' then set_runner_image default_julia_runner_image k else k)
      in if hasJulia \<and> \<not> is_julia_runner_image (wf_image k1)
         then Inl (errorf (''julia steps require a julia runner image, got '' @ quote (wf_image k1)))
         else Inr k1)"

definition apply_to_workflow :: "api_workflow \<Rightarrow> kube \<Rightarrow> api_workflow res \<times> kube" where
  "apply_to_workflow k kb =
     (case workflow_has_julia k kb of
        (Inl e, kb1) \<Rightarrow> (Inl e, kb1)
      | (Inr hasJulia, kb1) \<Rightarrow>
          let name = trim_space (ar_universe (aws_routing (awf_spec k)))
          in if name \<noteq> '''' then
               (case kube_get kb_universe ('''', name) kb1 of
                  (Inl e, kb2) \<Rightarrow>
                    if \<not> api_is_not_found e then (Inl (wrapf (''pluggable universe '' @ quote name) e), kb2)
                    else if is_container_runtime (wf_runtime k)
                    then (Inl (errorf (''pluggable universe '' @ quote name @ '' not found'')), kb2)
                    else (check_julia_image hasJulia k, kb2)
                | (Inr u, kb2) \<Rightarrow> (check_julia_image hasJulia (apply_universe u hasJulia k), kb2))
             else (check_julia_image hasJulia k, kb1))"

section \<open>The controller\<close>

definition universe_phase :: "api_universe \<Rightarrow> string \<times> string" where
  "universe_phase u =
     (let en = us_engine (apu_spec u); engineType = to_lower (trim_space (en_type en));
          (phase, message) =
            (if en_type en = '''' then (''Degraded'', ''executionEngine.type is required'')
             else if engineType = ''julia'' then
               (''Active'', if en_runtime_image en \<noteq> '''' then ''julia runtime image '' @ en_runtime_image en
                            else ''julia subprocess runtime (julia: commands)'')
             else if engineType = ''python'' then
               (''Active'', ''python execution planned; use builtin: or julia: commands today'')
             else (''Active'', ''universe active''))
      in if dl_type (us_data_layer (apu_spec u)) = '''' then (''Degraded'', ''dataLayer.type is required'')
         else (phase, message))"

definition reconcile_universe :: "object_key \<Rightarrow> kube \<Rightarrow> outcome \<times> kube" where
  "reconcile_universe key kb =
     (case kube_get kb_universe key kb of
        (Inl e, kb1) \<Rightarrow> ((no_requeue, if api_is_not_found e then None else Some e), kb1)
      | (Inr u, kb1) \<Rightarrow>
          let (phase, message) = universe_phase u
          in put_then (UpdateUniverseStatus (u\<lparr>apu_status := (apu_status u)
               \<lparr>ust_phase := phase, ust_message := message\<rparr>\<rparr>)) (no_requeue, None) kb1)"

definition validate_universe_ref :: "string \<Rightarrow> kube \<Rightarrow> err option \<times> kube" where
  "validate_universe_ref ref kb =
     (if ref = '''' then (Some (errorf ''empty pluggable universe ref''), kb)
      else (case kube_get kb_universe ('''', ref) kb of
          (Inl e, kb1) \<Rightarrow> (Some e, kb1) | (Inr _, kb1) \<Rightarrow> (None, kb1)))"


section \<open>What a workflow can count on\<close>

text \<open>Applying a universe only reads.\<close>

lemma refs_have_julia_silent: "refs_have_julia ns names kb = (r, kb1) \<Longrightarrow> runs no_writes kb kb1"
proof (induction ns names kb rule: refs_have_julia.induct)
  case (2 ns name names kb)
  then show ?case
    by (auto split: prod.splits sum.splits if_splits dest: runs_get intro: runs_trans)
qed simp

lemma workflow_has_julia_silent: "workflow_has_julia k kb = (r, kb1) \<Longrightarrow> runs no_writes kb kb1"
  by (auto simp: workflow_has_julia_def split: if_splits dest: refs_have_julia_silent)

lemma apply_to_workflow_silent:
  assumes "apply_to_workflow k kb = (r, kb1)" shows "runs no_writes kb kb1"
proof -
  obtain j kb2 where j: "workflow_has_julia k kb = (j, kb2)" by fastforce
  obtain u kb3 where u: "kube_get kb_universe ('''', trim_space (ar_universe (aws_routing (awf_spec k)))) kb2 = (u, kb3)"
    by fastforce
  have "kb1 = kb2 \<or> kb1 = kb3"
    using assms by (auto simp: apply_to_workflow_def j u Let_def split: sum.splits if_splits)
  then show ?thesis using workflow_has_julia_silent [OF j] runs_get [OF u] runs_trans by metis
qed

text \<open>A server whose dominos and universes do not change while a workflow is looked at.\<close>

definition stable_catalog :: "kube \<Rightarrow> bool" where
  "stable_catalog kb \<longleftrightarrow> (\<forall>i j key. kb_domino kb i key = kb_domino kb j key \<and> kb_universe kb i key = kb_universe kb j key)"

lemma refs_have_julia_stable:
  assumes "stable_catalog kb" "kb_domino kb' = kb_domino kb"
  shows "fst (refs_have_julia ns names kb') = fst (refs_have_julia ns names kb)"
  using assms
proof (induction names arbitrary: kb kb')
  case (Cons name names)
  have d: "kb_domino kb' (kb_tick kb') (ns, name) = kb_domino kb (kb_tick kb) (ns, name)"
    using Cons.prems unfolding stable_catalog_def by metis
  have "fst (refs_have_julia ns names (kb'\<lparr>kb_tick := Suc (kb_tick kb')\<rparr>))
      = fst (refs_have_julia ns names (kb\<lparr>kb_tick := Suc (kb_tick kb)\<rparr>))"
    using Cons.prems by (intro Cons.IH) (simp_all add: stable_catalog_def)
  then show ?case using d by (auto simp: kube_get_def split: sum.splits)
qed simp

lemma workflow_has_julia_stable:
  assumes "stable_catalog kb" "kb_domino kb' = kb_domino kb" "aws_dominos (awf_spec k') = aws_dominos (awf_spec k)"
    "aws_domino_refs (awf_spec k') = aws_domino_refs (awf_spec k)" "km_namespace (awf_meta k') = km_namespace (awf_meta k)"
  shows "fst (workflow_has_julia k' kb') = fst (workflow_has_julia k kb)"
  using refs_have_julia_stable [OF assms(1,2)] assms(3-) by (simp add: workflow_has_julia_def)

text \<open>Only the runner image and the runtime can change, and only where they were empty.\<close>

definition fills_in :: "api_workflow \<Rightarrow> api_workflow \<Rightarrow> bool" where
  "fills_in k k' \<longleftrightarrow> k' = set_runtime (wf_runtime k') (set_runner_image (wf_image k') k)
     \<and> (wf_image k \<noteq> '''' \<longrightarrow> wf_image k' = wf_image k) \<and> (wf_runtime k \<noteq> '''' \<longrightarrow> wf_runtime k' = wf_runtime k)"

lemma set_fields [simp]:
  "wf_image (set_runner_image img k) = img" "wf_runtime (set_runner_image img k) = wf_runtime k"
  "wf_image (set_runtime rt k) = wf_image k" "wf_runtime (set_runtime rt k) = rt"
  "aws_routing (awf_spec (set_runner_image img k)) = aws_routing (awf_spec k)"
  "aws_routing (awf_spec (set_runtime rt k)) = aws_routing (awf_spec k)"
  "aws_dominos (awf_spec (set_runner_image img k)) = aws_dominos (awf_spec k)"
  "aws_dominos (awf_spec (set_runtime rt k)) = aws_dominos (awf_spec k)"
  "aws_domino_refs (awf_spec (set_runner_image img k)) = aws_domino_refs (awf_spec k)"
  "aws_domino_refs (awf_spec (set_runtime rt k)) = aws_domino_refs (awf_spec k)"
  "awf_meta (set_runner_image img k) = awf_meta k" "awf_meta (set_runtime rt k) = awf_meta k"
  "set_runner_image (wf_image k) k = k" "set_runtime (wf_runtime k) k = k"
  "set_runner_image img (set_runner_image img' k) = set_runner_image img k"
  "set_runtime (wf_runtime k) (set_runner_image img k) = set_runner_image img k"
  "set_runtime rt (set_runtime rt' k) = set_runtime rt k"
  by (simp_all add: set_runner_image_def set_runtime_def)

lemma set_commute: "set_runner_image img (set_runtime rt k) = set_runtime rt (set_runner_image img k)"
  by (simp add: set_runner_image_def set_runtime_def)

lemma fills_in_refl: "fills_in k k"
  by (simp add: fills_in_def)

lemma apply_universe_fills: "fills_in k (apply_universe u j k)"
  by (simp add: fills_in_def apply_universe_def Let_def)

lemma check_julia_fills:
  assumes "check_julia_image j k = Inr k'"
  shows "fills_in k k'" "j \<Longrightarrow> is_julia_runner_image (wf_image k')" "check_julia_image j k' = Inr k'"
proof -
  have k': "k' = (if j \<and> wf_image k = '''' then set_runner_image default_julia_runner_image k else k)"
    "j \<Longrightarrow> is_julia_runner_image (wf_image k')"
    using assms by (auto simp: check_julia_image_def Let_def split: if_splits)
  show "fills_in k k'" by (simp add: fills_in_def k'(1))
  show "j \<Longrightarrow> is_julia_runner_image (wf_image k')" by (rule k'(2))
  show "check_julia_image j k' = Inr k'"
    using k' by (cases "j \<and> wf_image k = ''''") (auto simp: check_julia_image_def default_julia_runner_image_def)
qed

lemma fills_in_alt:
  "fills_in k k' \<longleftrightarrow> (\<exists>img rt. k' = set_runtime rt (set_runner_image img k)
     \<and> (wf_image k \<noteq> '''' \<longrightarrow> img = wf_image k) \<and> (wf_runtime k \<noteq> '''' \<longrightarrow> rt = wf_runtime k))"
  by (auto simp: fills_in_def)

lemma fills_in_trans: "fills_in k k1 \<Longrightarrow> fills_in k1 k2 \<Longrightarrow> fills_in k k2"
  unfolding fills_in_alt by (elim exE conjE) (auto simp: set_commute)

lemma fills_in_keeps:
  assumes "fills_in k k'"
  shows "aws_routing (awf_spec k') = aws_routing (awf_spec k)" "aws_dominos (awf_spec k') = aws_dominos (awf_spec k)"
    "aws_domino_refs (awf_spec k') = aws_domino_refs (awf_spec k)" "awf_meta k' = awf_meta k"
proof -
  obtain img rt where "k' = set_runtime rt (set_runner_image img k)" using assms unfolding fills_in_alt by blast
  then show "aws_routing (awf_spec k') = aws_routing (awf_spec k)" "aws_dominos (awf_spec k') = aws_dominos (awf_spec k)"
    "aws_domino_refs (awf_spec k') = aws_domino_refs (awf_spec k)" "awf_meta k' = awf_meta k"
    by simp_all
qed

lemma apply_universe_again:
  assumes "check_julia_image j (apply_universe u j k) = Inr k'" shows "apply_universe u j k' = k'"
proof -
  define img where "img = en_runtime_image (us_engine (apu_spec u))"
  define jl where "jl = (to_lower (en_type (us_engine (apu_spec u))) = ''julia'' \<and> j)"
  define k0 where "k0 = apply_universe u j k"
  have again: "apply_universe u j k2 = k2" if "wf_image k2 \<noteq> '''' \<or> img = ''''" "wf_runtime k2 \<noteq> '''' \<or> \<not> jl" for k2
    using that by (auto simp: apply_universe_def Let_def img_def jl_def)
  have k0: "wf_image k0 \<noteq> '''' \<or> img = ''''" "wf_runtime k0 \<noteq> '''' \<or> \<not> jl"
    by (auto simp: k0_def apply_universe_def Let_def img_def jl_def)
  have k': "k' = (if j \<and> wf_image k0 = '''' then set_runner_image default_julia_runner_image k0 else k0)"
    using assms by (simp add: check_julia_image_def k0_def [symmetric] Let_def split: if_splits)
  show ?thesis by (rule again) (use k0 k' in \<open>auto simp: default_julia_runner_image_def\<close>)
qed

text \<open>
  Applying a universe fills in and settles: from a workflow it accepts it changes only an
  empty runner image and an empty runtime; with a Julia step the image is a Julia runner
  afterwards; and as long as the catalog stays the same a second application, which the
  controller does before it creates a chain, changes nothing.
\<close>

theorem apply_to_workflow_settles:
  assumes ap: "apply_to_workflow k kb = (Inr k', kb1)" and st: "stable_catalog kb"
  shows "fills_in k k' \<and> (fst (workflow_has_julia k kb) = Inr True \<longrightarrow> is_julia_runner_image (wf_image k'))
    \<and> (\<exists>kb2. apply_to_workflow k' kb1 = (Inr k', kb2))"
proof -
  obtain j kb2 where j: "workflow_has_julia k kb = (Inr j, kb2)"
    using ap by (auto simp: apply_to_workflow_def split: prod.splits sum.splits)
  define name where "name = trim_space (ar_universe (aws_routing (awf_spec k)))"
  obtain g kb3 where g: "kube_get kb_universe ('''', name) kb2 = (g, kb3)" by fastforce
  define k0 where "k0 = (if name = '''' then k else case g of Inr u \<Rightarrow> apply_universe u j k | Inl _ \<Rightarrow> k)"
  have c: "check_julia_image j k0 = Inr k'" "name \<noteq> '''' \<Longrightarrow> g = Inl e \<Longrightarrow> api_is_not_found e \<and> \<not> is_container_runtime (wf_runtime k)" for e
    using ap j g by (auto simp: apply_to_workflow_def name_def k0_def Let_def split: if_splits sum.splits)
  note cj = check_julia_fills [OF c(1)]
  have f0: "fills_in k k0" using fills_in_refl apply_universe_fills by (auto simp: k0_def split: sum.split)
  have f: "fills_in k k'" using f0 cj(1) by (rule fills_in_trans)
  note same = fills_in_keeps [OF f]
  have s1: "runs no_writes kb kb1" by (rule apply_to_workflow_silent [OF ap])
  then have silent: "kb_domino kb1 = kb_domino kb" "kb_universe kb1 = kb_universe kb" by (simp_all add: runs_server)
  have j1: "fst (workflow_has_julia k' kb1) = Inr j"
    using workflow_has_julia_stable [OF st, of kb1 k' k] silent same j by simp
  obtain kb4 where w: "workflow_has_julia k' kb1 = (Inr j, kb4)" using j1 by (cases "workflow_has_julia k' kb1") auto
  obtain g1 kb5 where g1: "kube_get kb_universe ('''', name) kb4 = (g1, kb5)" by fastforce
  have "kb_universe kb4 = kb_universe kb" "kb_universe kb2 = kb_universe kb"
    using runs_server(7) [OF workflow_has_julia_silent [OF w]] runs_server(7) [OF workflow_has_julia_silent [OF j]] silent by simp_all
  then have g1g: "g1 = g" using kube_get_value [OF g] kube_get_value [OF g1] st unfolding stable_catalog_def by metis
  have rt: "wf_runtime k' = wf_runtime k" if "g = Inl e" "name \<noteq> ''''" for e
    using c(1) that by (auto simp: k0_def check_julia_image_def Let_def split: if_splits)
  have "\<exists>kb2. apply_to_workflow k' kb1 = (Inr k', kb2)"
  proof (cases "name = ''''")
    case True then show ?thesis using w same cj(3) by (simp add: apply_to_workflow_def name_def)
  next
    case named: False
    show ?thesis
    proof (cases g)
      case (Inl e) then show ?thesis
        using w same cj(3) named c(2) [OF named Inl] rt [OF Inl named] g1 g1g by (simp add: apply_to_workflow_def name_def Let_def)
    next
      case (Inr u)
      have "apply_universe u j k' = k'" using c(1) named Inr by (intro apply_universe_again) (simp add: k0_def)
      then show ?thesis using w same cj(3) named g1 g1g Inr by (simp add: apply_to_workflow_def name_def Let_def)
    qed
  qed
  then show ?thesis using f j cj(2) by simp
qed

definition julia_universe :: api_universe where
  "julia_universe = \<lparr>apu_meta = new_meta ''astro'' '''' [],
     apu_spec = \<lparr>us_display_name = ''astro'', us_engine = \<lparr>en_type = ''Julia'', en_runtime_image = ''''\<rparr>,
       us_data_layer = \<lparr>dl_type = ''sqlite'', dl_config = []\<rparr>, us_provisioning = None\<rparr>,
     apu_status = \<lparr>ust_phase = '''', ust_context_count = 0, ust_message = ''''\<rparr>\<rparr>"

definition julia_workflow :: api_workflow where
  "julia_workflow = (let k = plain_workflow ''k'' [plain_dom_spec ''fit'' ''julia:fit''] [''fit'']
     in k\<lparr>awf_spec := (awf_spec k)\<lparr>aws_routing := no_routing\<lparr>ar_universe := ''astro''\<rparr>\<rparr>\<rparr>)"

lemma apply_to_workflow_settles_witness:
  "\<exists>k' kb1 kb2. apply_to_workflow julia_workflow (empty_kube\<lparr>kb_universe := \<lambda>_ _. Inr julia_universe\<rparr>) = (Inr k', kb1)
    \<and> wf_runtime k' = ''kubernetes-init'' \<and> is_julia_runner_image (wf_image k') \<and> apply_to_workflow k' kb1 = (Inr k', kb2)"
proof -
  define kb where "kb = empty_kube\<lparr>kb_universe := \<lambda>_ _. Inr julia_universe\<rparr>"
  define k1 where "k1 = set_runtime ''kubernetes-init'' (set_runner_image default_julia_runner_image julia_workflow)"
  have j: "workflow_has_julia julia_workflow kb = (Inr True, kb)"
    by (simp add: workflow_has_julia_def julia_workflow_def Let_def plain_workflow_def plain_dom_spec_def has_prefix_def)
  have i: "is_julia_runner_image default_julia_runner_image" by code_simp
  have l: "to_lower ''Julia'' = ''julia''" by code_simp
  have u: "check_julia_image True (apply_universe julia_universe True julia_workflow) = Inr k1"
    using i l by (simp add: apply_universe_def Let_def julia_universe_def julia_workflow_def plain_workflow_def check_julia_image_def
        set_runtime_def set_runner_image_def k1_def no_provisioning_def)
  have "trim_space (ar_universe (aws_routing (awf_spec julia_workflow))) = ''astro''"
    by (simp add: julia_workflow_def Let_def trim_space_def is_space_def)
  then have r: "apply_to_workflow julia_workflow kb = (Inr k1, kb\<lparr>kb_tick := 1\<rparr>)"
    using j u by (simp add: apply_to_workflow_def Let_def kube_get_def kb_def empty_kube_def)
  have "stable_catalog kb" by (simp add: stable_catalog_def kb_def empty_kube_def)
  from apply_to_workflow_settles [OF r this] j r show ?thesis unfolding kb_def [symmetric] by (auto simp: k1_def)
qed


end
