(* ===== verification/WheelCtl.thy ===== *)
theory WheelCtl
  imports Wheel Universe World
begin

text \<open>
  The controller of the compute wheel (\<open>internal/controller/computewheel_controller.go\<close>): one
  reconcile reads the wheel, puts it on its first slot, creates the workflow of the slot it
  stands on, and moves on once that workflow has completed.  The lemmas follow the position
  through any sequence of reconciles, whatever the API server answers.
\<close>

section \<open>Ending a reconcile\<close>

definition wheel_finalizer_name :: string where
  "wheel_finalizer_name = ''kbl.io/computewheel-finalizer''"

abbreviation set_wheel_status :: "(api_wheel_status \<Rightarrow> api_wheel_status) \<Rightarrow> api_wheel \<Rightarrow> api_wheel" where
  "set_wheel_status f whl \<equiv> whl\<lparr>awl_status := f (awl_status whl)\<rparr>"

definition fail_wheel :: "api_wheel \<Rightarrow> err \<Rightarrow> kube \<Rightarrow> outcome \<times> kube" where
  "fail_wheel whl e kb =
     put_then (UpdateWheelStatus (set_wheel_status (\<lambda>s. s\<lparr>awst_phase := ''Error'', awst_message := err_msg e\<rparr>) whl))
       (no_requeue, Some e) kb"

definition finalize_wheel :: "api_wheel \<Rightarrow> kube \<Rightarrow> outcome \<times> kube" where
  "finalize_wheel whl kb =
     (if contains_finalizer wheel_finalizer_name (awl_meta whl)
      then put_then (UpdateWheel (whl\<lparr>awl_meta := remove_finalizer wheel_finalizer_name (awl_meta whl)\<rparr>))
             (no_requeue, None) kb
      else ((no_requeue, None), kb))"

section \<open>The position\<close>

text \<open>The position of the wheel, written to the status when there is none yet.  \<open>Inl\<close> ends the reconcile.\<close>

definition start_wheel ::
  "api_wheel \<Rightarrow> duration \<Rightarrow> kube \<Rightarrow> world \<Rightarrow> (outcome + wheel_state \<times> api_wheel) \<times> kube \<times> world" where
  "start_wheel whl interval kb w =
     (case state_from_status (awl_status whl) of
        Inl e \<Rightarrow> (case fail_wheel whl e kb of (out, kb1) \<Rightarrow> (Inl out, kb1, w))
      | Inr st \<Rightarrow>
          if awst_time_slice (awl_status whl) \<noteq> '''' then (Inr (st, whl), kb, w)
          else
            let startSlice = (case aww_start_slice (awl_spec whl) of None \<Rightarrow> '''' | Some s \<Rightarrow> s);
                (now, w1) = time_now w
            in case initial_state startSlice interval now of
                 Inl e \<Rightarrow> (case fail_wheel whl e kb of (out, kb1) \<Rightarrow> (Inl out, kb1, w1))
               | Inr st1 \<Rightarrow>
                   let contextName = aww_contexts (awl_spec whl) ! nat (sint (ws_index st1));
                       whl1 = set_wheel_status (\<lambda>s. (apply_state s st1 contextName)\<lparr>awst_phase := ''Rotating''\<rparr>) whl
                   in case kube_put (UpdateWheelStatus whl1) kb of
                        (Some e, kb1) \<Rightarrow> (Inl (no_requeue, Some e), kb1, w1)
                      | (None, kb1) \<Rightarrow> (Inr (st1, whl1), kb1, w1))"

definition wheel_idle :: "api_wheel \<Rightarrow> bool" where
  "wheel_idle whl =
     (awst_phase (awl_status whl) = ''Idle'' \<and> 0 < sint (aww_max_rotations (awl_spec whl))
      \<and> sint (aww_max_rotations (awl_spec whl)) \<le> sint (awst_rotation_count (awl_status whl)))"

section \<open>Slots\<close>

text \<open>The compute context, \<open>None\<close> when it does not exist.\<close>

definition find_context :: "string \<Rightarrow> kube \<Rightarrow> api_context option res \<times> kube" where
  "find_context name kb =
     (case kube_get kb_context ('''', name) kb of
        (Inl e, kb1) \<Rightarrow> (if api_is_not_found e then Inr None else Inl e, kb1)
      | (Inr c, kb1) \<Rightarrow> (Inr (Some c), kb1))"

definition wf_key :: "api_workflow \<Rightarrow> object_key" where
  "wf_key k = (km_namespace (awf_meta k), km_name (awf_meta k))"

definition owned_workflow :: "api_wheel \<Rightarrow> api_workflow \<Rightarrow> api_workflow" where
  "owned_workflow whl k = k\<lparr>awf_meta := owned_by ''ComputeWheel'' (awl_meta whl) (awf_meta k)\<rparr>"

text \<open>The workflow of the next slot; a context that does not exist is replaced by the current one.\<close>

definition next_workflow ::
  "string \<Rightarrow> api_wheel \<Rightarrow> slot \<Rightarrow> api_context option \<Rightarrow> kube \<Rightarrow> api_workflow res \<times> kube" where
  "next_workflow storeRoot whl sl currentCtx kb =
     (case find_context (sl_context sl) kb of
        (Inl e, kb1) \<Rightarrow> (Inl e, kb1)
      | (Inr found, kb1) \<Rightarrow>
     (case build_workflow whl (case found of None \<Rightarrow> currentCtx | Some c \<Rightarrow> Some c) (sl_state sl) storeRoot of
        Inl e \<Rightarrow> (Inl e, kb1)
      | Inr nextWF \<Rightarrow> apply_to_workflow nextWF kb1))"

definition pre_provision_next ::
  "string \<Rightarrow> api_wheel \<Rightarrow> wheel_state \<Rightarrow> duration \<Rightarrow> api_context option \<Rightarrow> kube \<Rightarrow> err option \<times> kube" where
  "pre_provision_next storeRoot whl st interval currentCtx kb =
     (case lookahead (km_name (awl_meta whl)) (aww_contexts (awl_spec whl)) st interval 0 of
        Inl e \<Rightarrow> (Some e, kb)
      | Inr (sl, done) \<Rightarrow>
          if done then (None, kb)
          else (case next_workflow storeRoot whl sl currentCtx kb of
             (Inl e, kb1) \<Rightarrow> (Some e, kb1)
           | (Inr nextWF, kb1) \<Rightarrow>
          (case kube_get kb_workflow (wf_key nextWF) kb1 of
             (Inr _, kb2) \<Rightarrow> (None, kb2)
           | (Inl e, kb2) \<Rightarrow>
               if \<not> api_is_not_found e then (Some e, kb2)
               else kube_put (CreateWorkflow (owned_workflow whl nextWF)) kb2)))"

definition advance_wheel ::
  "api_wheel \<Rightarrow> wheel_state \<Rightarrow> duration \<Rightarrow> string \<Rightarrow> api_workflow \<Rightarrow> kube \<Rightarrow> world \<Rightarrow> outcome \<times> kube \<times> world" where
  "advance_wheel whl st interval contextName k kb w =
     (let (now, w1) = time_now w; sp = awl_spec whl;
          done_slot = \<lparr>aps_time_slice = awst_time_slice (awl_status whl), aps_context = contextName,
            aps_workflow = km_name (awf_meta k), aps_snapshot_id = awt_snapshot_id (awf_status k),
            aps_completed_at = format_rfc3339 now\<rparr>;
          result = advance_after_completion st (word_of_nat (length (aww_contexts sp))) interval (aww_max_rotations sp);
          whl1 = set_wheel_status (\<lambda>s. (apply_state (s\<lparr>awst_slots := awst_slots s @ [done_slot]\<rparr>) (av_state result) '''')
            \<lparr>awst_last_rotation := Some now\<rparr>) whl
      in if av_done result then
           (case put_then (UpdateWheelStatus (set_wheel_status (\<lambda>s. s\<lparr>awst_phase := ''Idle'',
                  awst_message := ''completed '' @ int_str (sint (awst_rotation_count s)) @ '' rotation(s)'',
                  awst_workflow := ''''\<rparr>) whl1)) (no_requeue, None) kb of
              (out, kb1) \<Rightarrow> (out, kb1, w1))
         else (case active_context_name (aww_contexts sp) (ws_index (av_state result)) of
             Inl e \<Rightarrow> (case fail_wheel whl1 e kb of (out, kb1) \<Rightarrow> (out, kb1, w1))
           | Inr nextContext \<Rightarrow>
               (case put_then (UpdateWheelStatus (set_wheel_status (\<lambda>s. (apply_state s (av_state result) nextContext)
                    \<lparr>awst_phase := ''Rotating'', awst_workflow := '''',
                     awst_message := (if av_advanced result
                        then ''advanced to time slice '' @ format_rfc3339 (ws_slice (av_state result))
                        else ''rotated to context '' @ nextContext)\<rparr>) whl1)) (requeue_now, None) kb of
                  (out, kb1) \<Rightarrow> (out, kb1, w1))))"

definition create_slot ::
  "api_wheel \<Rightarrow> duration \<Rightarrow> string \<Rightarrow> api_workflow \<Rightarrow> kube \<Rightarrow> outcome \<times> kube" where
  "create_slot whl interval contextName k kb =
     (case kube_put (CreateWorkflow (owned_workflow whl k)) kb of
        (Some e, kb1) \<Rightarrow> fail_wheel whl (wrapf ''create workflow'' e) kb1
      | (None, kb1) \<Rightarrow>
          put_then (UpdateWheelStatus (set_wheel_status (\<lambda>s. s\<lparr>awst_phase := ''Processing'',
              awst_workflow := km_name (awf_meta k),
              awst_message := ''processing '' @ contextName @ '' on '' @ awst_time_slice s\<rparr>) whl))
            (requeue_after (requeue_delay interval), None) kb1)"

text \<open>The workflow of the slot exists: prepare the next one, then look at how far it is.\<close>

definition watch_slot ::
  "string \<Rightarrow> api_wheel \<Rightarrow> wheel_state \<Rightarrow> duration \<Rightarrow> string \<Rightarrow> api_context option \<Rightarrow> api_workflow
     \<Rightarrow> kube \<Rightarrow> world \<Rightarrow> outcome \<times> kube \<times> world" where
  "watch_slot storeRoot whl0 st interval contextName ctx existing kb w =
     (let whl = set_wheel_status (\<lambda>s. s\<lparr>awst_workflow := km_name (awf_meta existing)\<rparr>) whl0;
          kb1 = (if aww_pre_provision (awl_spec whl) then snd (pre_provision_next storeRoot whl st interval ctx kb)
                 else kb);
          phase = awt_phase (awf_status existing)
      in if phase = ''Completed'' then advance_wheel whl st interval contextName existing kb1 w
         else if phase = ''Error'' then
           (case put_then (UpdateWheelStatus (set_wheel_status (\<lambda>s. s\<lparr>awst_phase := ''Error'',
                  awst_message := awt_message (awf_status existing)\<rparr>) whl))
                (no_requeue, Some (errorf (''workflow '' @ km_name (awf_meta existing) @ '' failed: ''
                   @ awt_message (awf_status existing)))) kb1 of (out, kb2) \<Rightarrow> (out, kb2, w))
         else
           (case put_then (UpdateWheelStatus (set_wheel_status (\<lambda>s. s\<lparr>awst_phase := ''Processing'',
                  awst_message := ''waiting for workflow '' @ km_name (awf_meta existing)\<rparr>) whl))
                (requeue_after (requeue_delay interval), None) kb1 of (out, kb2) \<Rightarrow> (out, kb2, w)))"

text \<open>
  The context and the workflow of the slot.  An error carries whether the wheel is to be
  marked as failed, or the reconcile just returns it.
\<close>

definition slot_workflow ::
  "string \<Rightarrow> api_wheel \<Rightarrow> wheel_state \<Rightarrow> string \<Rightarrow> kube
     \<Rightarrow> (bool \<times> err + api_context option \<times> api_workflow) \<times> kube" where
  "slot_workflow storeRoot whl st contextName kb =
     (case find_context contextName kb of
        (Inl e, kb1) \<Rightarrow> (Inl (False, e), kb1)
      | (Inr ctx, kb1) \<Rightarrow>
     (case build_workflow whl ctx st storeRoot of
        Inl e \<Rightarrow> (Inl (False, e), kb1)
      | Inr k0 \<Rightarrow>
     (case apply_to_workflow k0 kb1 of
        (Inl e, kb2) \<Rightarrow> (Inl (True, e), kb2)
      | (Inr k, kb2) \<Rightarrow> (Inr (ctx, k), kb2))))"

definition run_slot ::
  "string \<Rightarrow> api_wheel \<Rightarrow> wheel_state \<Rightarrow> duration \<Rightarrow> kube \<Rightarrow> world \<Rightarrow> outcome \<times> kube \<times> world" where
  "run_slot storeRoot whl st interval kb w =
     (case active_context_name (aww_contexts (awl_spec whl)) (ws_index st) of
        Inl e \<Rightarrow> (case fail_wheel whl e kb of (out, kb1) \<Rightarrow> (out, kb1, w))
      | Inr contextName \<Rightarrow>
     (case slot_workflow storeRoot whl st contextName kb of
        (Inl (mark, e), kb1) \<Rightarrow>
          if mark then (case fail_wheel whl e kb1 of (out, kb2) \<Rightarrow> (out, kb2, w))
          else ((no_requeue, Some e), kb1, w)
      | (Inr (ctx, k), kb1) \<Rightarrow>
     (case kube_get kb_workflow (wf_key k) kb1 of
        (Inl e, kb2) \<Rightarrow>
          if api_is_not_found e
          then (case create_slot whl interval contextName k kb2 of (out, kb3) \<Rightarrow> (out, kb3, w))
          else ((no_requeue, Some e), kb2, w)
      | (Inr existing, kb2) \<Rightarrow> watch_slot storeRoot whl st interval contextName ctx existing kb2 w)))"

section \<open>Reconcile\<close>

text \<open>The checks of the specification: the interval, or the error the wheel fails with.\<close>

definition check_wheel_spec :: "api_wheel_spec \<Rightarrow> duration res" where
  "check_wheel_spec sp =
     (if aww_contexts sp = [] then Inl (errorf ''spec.contexts must not be empty'')
      else bindr (validate_explorer_window (word_of_nat (length (aww_contexts sp))) (aww_window_depth sp) (aww_window_arity sp))
        (\<lambda>_. parse_interval (aww_interval sp)))"

definition reconcile_found :: "string \<Rightarrow> api_wheel \<Rightarrow> kube \<Rightarrow> world \<Rightarrow> outcome \<times> kube \<times> world" where
  "reconcile_found storeRoot whl kb w =
     (if km_deleting (awl_meta whl) then (case finalize_wheel whl kb of (out, kb1) \<Rightarrow> (out, kb1, w))
      else if \<not> contains_finalizer wheel_finalizer_name (awl_meta whl) then
        (case put_then (UpdateWheel (whl\<lparr>awl_meta := add_finalizer wheel_finalizer_name (awl_meta whl)\<rparr>))
             (requeue_now, None) kb of (out, kb1) \<Rightarrow> (out, kb1, w))
      else (case check_wheel_spec (awl_spec whl) of
          Inl e \<Rightarrow> (case fail_wheel whl e kb of (out, kb1) \<Rightarrow> (out, kb1, w))
        | Inr interval \<Rightarrow>
        (case start_wheel whl interval kb w of
          (Inl out, kb1, w1) \<Rightarrow> (out, kb1, w1)
        | (Inr (st, whl1), kb1, w1) \<Rightarrow>
            if wheel_idle whl1 then ((no_requeue, None), kb1, w1)
            else run_slot storeRoot whl1 st interval kb1 w1)))"

definition reconcile_wheel :: "string \<Rightarrow> object_key \<Rightarrow> kube \<Rightarrow> world \<Rightarrow> outcome \<times> kube \<times> world" where
  "reconcile_wheel storeRoot key kb w =
     (case kube_get kb_wheel key kb of
        (Inl e, kb1) \<Rightarrow> ((no_requeue, if api_is_not_found e then None else Some e), kb1, w)
      | (Inr whl, kb1) \<Rightarrow> reconcile_found storeRoot whl kb1 w)"


section \<open>What the parts write\<close>

lemma find_context_silent: "find_context name kb = (r, kb1) \<Longrightarrow> runs no_writes kb kb1"
  by (auto simp: find_context_def split: prod.splits sum.splits dest: runs_get)

fun creates_workflow :: "kube_write \<Rightarrow> bool" where
  "creates_workflow (CreateWorkflow k) = True"
| "creates_workflow _ = False"

lemma next_workflow_silent: "next_workflow dir whl sl c kb = (r, kb1) \<Longrightarrow> runs no_writes kb kb1"
  by (auto simp: next_workflow_def split: prod.splits sum.splits
      dest!: find_context_silent apply_to_workflow_silent intro: runs_trans)

lemma pre_provision_next_creates:
  assumes "pre_provision_next dir whl st iv c kb = (r, kb1)" shows "runs creates_workflow kb kb1"
proof (cases "lookahead (km_name (awl_meta whl)) (aww_contexts (awl_spec whl)) st iv 0")
  case (Inl e)
  then show ?thesis using assms by (simp add: pre_provision_next_def)
next
  case (Inr sd)
  then obtain sl fin where la: "lookahead (km_name (awl_meta whl)) (aww_contexts (awl_spec whl)) st iv 0 = Inr (sl, fin)"
    by (cases sd) auto
  obtain n kb2 where n: "next_workflow dir whl sl c kb = (n, kb2)" by fastforce
  note s2 = next_workflow_silent [OF n, THEN runs_silent, of creates_workflow]
  show ?thesis
  proof (cases n)
    case (Inl e)
    then show ?thesis using assms la n s2 by (simp add: pre_provision_next_def split: if_split_asm)
  next
    case k: (Inr k)
    obtain g kb3 where g: "kube_get kb_workflow (wf_key k) kb2 = (g, kb3)" by fastforce
    note s3 = runs_trans [OF s2 runs_get [OF g]]
    obtain u kb4 where u: "kube_put (CreateWorkflow (owned_workflow whl k)) kb3 = (u, kb4)" by fastforce
    have s4: "runs creates_workflow kb kb4" by (rule runs_trans [OF s3 runs_put [OF u]]) simp
    have "pre_provision_next dir whl st iv c kb = (if fin then (None, kb) else
        (case g of Inr _ \<Rightarrow> (None, kb3) | Inl e \<Rightarrow> if \<not> api_is_not_found e then (Some e, kb3) else (u, kb4)))"
      by (cases fin; cases g) (simp_all add: pre_provision_next_def la n k g u)
    then have "kb1 = kb \<or> kb1 = kb3 \<or> kb1 = kb4" using assms by (auto split: if_splits sum.splits)
    then show ?thesis using s3 s4 by blast
  qed
qed

lemma apply_universe_meta [simp]: "awf_meta (apply_universe u j k) = awf_meta k"
  by (simp add: apply_universe_def set_runner_image_def set_runtime_def Let_def)

lemma check_julia_image_meta: "check_julia_image j k = Inr k' \<Longrightarrow> awf_meta k' = awf_meta k"
  by (auto simp: check_julia_image_def set_runner_image_def Let_def split: if_split_asm)

lemma apply_to_workflow_meta: "apply_to_workflow k kb = (Inr k', kb1) \<Longrightarrow> awf_meta k' = awf_meta k"
  unfolding apply_to_workflow_def
  by (auto simp: Let_def split: prod.splits sum.splits if_split_asm dest: check_julia_image_meta)

lemma build_workflow_meta:
  "build_workflow whl c st dir = Inr k \<Longrightarrow> active_context_name (aww_contexts (awl_spec whl)) (ws_index st) = Inr ctx
    \<Longrightarrow> wf_key k = (km_namespace (awl_meta whl), workflow_name (km_name (awl_meta whl)) ctx (format_time_slice (ws_slice st)))"
  by (auto simp: build_workflow_def active_context_name_def wf_key_def Let_def split: if_splits)

section \<open>Moves of the wheel\<close>

text \<open>What a write of the wheel says of its place: the four fields, and that nothing else moved.\<close>

definition shows_state :: "wheel_state \<Rightarrow> api_wheel \<Rightarrow> bool" where
  "shows_state st whl \<longleftrightarrow> awst_time_slice (awl_status whl) = format_rfc3339 (ws_slice st)
     \<and> awst_context_index (awl_status whl) = ws_index st \<and> awst_rotation_count (awl_status whl) = ws_rotations st"

definition same_place :: "api_wheel \<Rightarrow> api_wheel \<Rightarrow> bool" where
  "same_place a b \<longleftrightarrow> awl_spec b = awl_spec a
     \<and> awst_time_slice (awl_status b) = awst_time_slice (awl_status a)
     \<and> awst_context_index (awl_status b) = awst_context_index (awl_status a)
     \<and> awst_rotation_count (awl_status b) = awst_rotation_count (awl_status a)
     \<and> awst_slots (awl_status b) = awst_slots (awl_status a)"

text \<open>\<open>completes kb whl st p\<close>: \<open>p\<close> records the completed workflow of the slot at \<open>st\<close>, as the server gave it.\<close>

definition completes :: "kube \<Rightarrow> api_wheel \<Rightarrow> wheel_state \<Rightarrow> api_processed_slot \<Rightarrow> bool" where
  "completes kb whl st p \<longleftrightarrow>
     active_context_name (aww_contexts (awl_spec whl)) (ws_index st) = Inr (aps_context p)
     \<and> (\<exists>t k. kb_workflow kb t (km_namespace (awl_meta whl),
            workflow_name (km_name (awl_meta whl)) (aps_context p) (format_time_slice (ws_slice st))) = Inr k
          \<and> awt_phase (awf_status k) = ''Completed'' \<and> aps_workflow p = km_name (awf_meta k)
          \<and> aps_snapshot_id p = awt_snapshot_id (awf_status k))"

definition slot_done :: "kube \<Rightarrow> api_wheel \<Rightarrow> wheel_state \<Rightarrow> duration \<Rightarrow> api_wheel \<Rightarrow> bool" where
  "slot_done kb whl st iv b \<longleftrightarrow> awl_spec b = awl_spec whl
     \<and> (\<exists>p. awst_slots (awl_status b) = awst_slots (awl_status whl) @ [p]
          \<and> aps_time_slice p = awst_time_slice (awl_status whl) \<and> completes kb whl st p)
     \<and> (let r = advance_after_completion st (word_of_nat (length (aww_contexts (awl_spec whl)))) iv
              (aww_max_rotations (awl_spec whl))
        in shows_state (av_state r) b \<and> (av_done r \<longrightarrow> awst_phase (awl_status b) = ''Idle''))"

definition wheel_written :: "(api_wheel \<Rightarrow> bool) \<Rightarrow> kube_write \<Rightarrow> bool" where
  "wheel_written Q c = (case c of UpdateWheelStatus b \<Rightarrow> Q b | UpdateWheel b \<Rightarrow> Q b | _ \<Rightarrow> True)"

lemma wheel_written_simps [simp]:
  "wheel_written Q (UpdateWheelStatus b) = Q b" "wheel_written Q (UpdateWheel b) = Q b"
  "wheel_written Q (CreateWorkflow k)"
  by (simp_all add: wheel_written_def)

lemma creates_workflow_wheel: "creates_workflow c \<Longrightarrow> wheel_written Q c"
  by (cases c) simp_all

lemma fail_wheel_writes:
  "fail_wheel whl e kb = (out, kb1) \<Longrightarrow> runs (wheel_written (same_place whl)) kb kb1"
  unfolding fail_wheel_def by (erule runs_put_then) (simp add: same_place_def)

lemma create_slot_writes:
  "create_slot whl iv ctx k kb = (out, kb1) \<Longrightarrow> runs (wheel_written (same_place whl)) kb kb1"
  unfolding create_slot_def
  by (auto split: prod.splits option.splits simp: same_place_def dest!: fail_wheel_writes
      intro: runs_trans [OF runs_put] elim!: runs_put_then)

lemma advance_wheel_writes:
  assumes adv: "advance_wheel whl st iv ctx k kb w = (out, kb1, w1)"
    and ctx: "active_context_name (aww_contexts (awl_spec whl)) (ws_index st) = Inr ctx"
    and k: "kb_workflow kb0 t (km_namespace (awl_meta whl), workflow_name (km_name (awl_meta whl)) ctx
        (format_time_slice (ws_slice st))) = Inr k" "awt_phase (awf_status k) = ''Completed''"
  shows "runs (wheel_written (slot_done kb0 whl st iv)) kb kb1"
proof -
  define r where "r = advance_after_completion st (word_of_nat (length (aww_contexts (awl_spec whl)))) iv
    (aww_max_rotations (awl_spec whl))"
  obtain now w2 where now: "time_now w = (now, w2)" by fastforce
  define p where "p = \<lparr>aps_time_slice = awst_time_slice (awl_status whl), aps_context = ctx,
    aps_workflow = km_name (awf_meta k), aps_snapshot_id = awt_snapshot_id (awf_status k),
    aps_completed_at = format_rfc3339 now\<rparr>"
  have c: "completes kb0 whl st p" using ctx k by (auto simp: completes_def p_def)
  have fin: "slot_done kb0 whl st iv b" if "awl_spec b = awl_spec whl" "awst_slots (awl_status b) = awst_slots (awl_status whl) @ [p]"
    "shows_state (av_state r) b" "av_done r \<longrightarrow> awst_phase (awl_status b) = ''Idle''" for b
    using that c by (auto simp: slot_done_def r_def Let_def p_def)
  show ?thesis using adv [unfolded advance_wheel_def now prod.case Let_def, folded r_def, folded p_def]
    by (auto simp: fail_wheel_def shows_state_def apply_state_def split: if_splits sum.splits prod.splits
        elim!: runs_put_then intro!: fin)
qed

text \<open>A slot leaves the wheel in place, or records its completion and moves it on.\<close>

definition slot_write :: "kube \<Rightarrow> api_wheel \<Rightarrow> wheel_state \<Rightarrow> duration \<Rightarrow> api_wheel \<Rightarrow> bool" where
  "slot_write kb whl st iv b \<longleftrightarrow> same_place whl b \<or> slot_done kb whl st iv b"

lemma slot_writeI: "runs (wheel_written (same_place whl)) kb kb1 \<Longrightarrow> runs (wheel_written (slot_write kb0 whl st iv)) kb kb1"
  "runs (wheel_written (slot_done kb0 whl st iv)) kb kb1 \<Longrightarrow> runs (wheel_written (slot_write kb0 whl st iv)) kb kb1"
  by (erule runs_mono; simp add: wheel_written_def slot_write_def split: kube_write.splits)+

lemma watch_slot_writes:
  assumes ws: "watch_slot dir whl st iv ctx c k kb w = (out, kb1, w1)"
    and ctx: "active_context_name (aww_contexts (awl_spec whl)) (ws_index st) = Inr ctx"
    and k: "kb_workflow kb0 t (km_namespace (awl_meta whl), workflow_name (km_name (awl_meta whl)) ctx
        (format_time_slice (ws_slice st))) = Inr k"
  shows "runs (wheel_written (slot_write kb0 whl st iv)) kb kb1"
proof -
  define whl' where "whl' = whl\<lparr>awl_status := (awl_status whl)\<lparr>awst_workflow := km_name (awf_meta k)\<rparr>\<rparr>"
  define kb2 where "kb2 = (if aww_pre_provision (awl_spec whl') then snd (pre_provision_next dir whl' st iv c kb) else kb)"
  have pre: "runs (wheel_written (slot_write kb0 whl st iv)) kb kb2"
    using pre_provision_next_creates [of dir whl' st iv c kb] creates_workflow_wheel
    by (auto simp: kb2_def intro: runs_mono [OF pre_provision_next_creates] prod.collapse [symmetric])
  have sd: "slot_done kb0 whl' st iv = slot_done kb0 whl st iv"
    by (simp add: fun_eq_iff slot_done_def whl'_def completes_def)
  have rest: "runs (wheel_written (slot_write kb0 whl st iv)) kb2 kb1"
  proof (cases "awt_phase (awf_status k) = ''Completed''")
    case True
    then have "advance_wheel whl' st iv ctx k kb2 w = (out, kb1, w1)"
      using ws by (auto simp: watch_slot_def Let_def whl'_def kb2_def split: if_splits)
    from advance_wheel_writes [OF this, of kb0 t] ctx k True sd slot_writeI(2) show ?thesis
      by (simp add: whl'_def)
  next
    case False
    then show ?thesis using ws
      by (intro slot_writeI(1)) (auto simp: watch_slot_def Let_def whl'_def kb2_def same_place_def
          split: if_splits prod.splits elim!: runs_put_then)
  qed
  from pre rest show ?thesis by (rule runs_trans)
qed

lemma slot_workflow_silent: "slot_workflow dir whl st ctx kb = (r, kb1) \<Longrightarrow> runs P kb kb1"
  by (auto simp: slot_workflow_def split: prod.splits sum.splits
      dest!: find_context_silent [THEN runs_silent, of _ _ _ _ P] apply_to_workflow_silent [THEN runs_silent, of _ _ _ _ P]
      intro: runs_trans)

lemma slot_workflow_key:
  assumes "slot_workflow dir whl st ctx kb = (Inr (c, k), kb1)"
    and "active_context_name (aww_contexts (awl_spec whl)) (ws_index st) = Inr ctx"
  shows "wf_key k = (km_namespace (awl_meta whl), workflow_name (km_name (awl_meta whl)) ctx (format_time_slice (ws_slice st)))"
  using assms(1) build_workflow_meta [OF _ assms(2)] apply_to_workflow_meta
  by (fastforce simp: slot_workflow_def wf_key_def split: prod.splits sum.splits)

lemma run_slot_writes:
  assumes rs: "run_slot dir whl st iv kb w = (out, kb1, w1)"
  shows "runs (wheel_written (slot_write kb whl st iv)) kb kb1"
proof (cases "active_context_name (aww_contexts (awl_spec whl)) (ws_index st)")
  case (Inl e)
  then show ?thesis using rs by (auto simp: run_slot_def split: prod.splits dest: fail_wheel_writes slot_writeI)
next
  case ctx: (Inr ctx)
  obtain sw kb2 where sw: "slot_workflow dir whl st ctx kb = (sw, kb2)" by fastforce
  note s2 = slot_workflow_silent [OF sw]
  show ?thesis
  proof (cases sw)
    case (Inl me)
    then show ?thesis using rs s2 by (cases me) (auto simp: run_slot_def ctx sw split: prod.splits if_splits
        dest!: fail_wheel_writes slot_writeI(1) intro: runs_trans)
  next
    case (Inr ck)
    then obtain c k where ck: "sw = Inr (c, k)" by (cases ck) auto
    obtain g kb3 where g: "kube_get kb_workflow (wf_key k) kb2 = (g, kb3)" by fastforce
    have s3: "runs P kb kb3" for P using s2 runs_get [OF g] by (rule runs_trans)
    have wk: "kb_workflow kb (kb_tick kb2) (km_namespace (awl_meta whl),
        workflow_name (km_name (awl_meta whl)) ctx (format_time_slice (ws_slice st))) = g"
      using kube_get_value [OF g] runs_server(3) [OF s2] slot_workflow_key [OF sw [unfolded ck] ctx] by simp
    show ?thesis
    proof (cases g)
      case (Inl e)
      then show ?thesis using rs s3 by (auto simp: run_slot_def ctx sw ck g split: prod.splits if_splits
          dest!: create_slot_writes slot_writeI(1) intro: runs_trans)
    next
      case k1: (Inr k1)
      then have "watch_slot dir whl st iv ctx c k1 kb3 w = (out, kb1, w1)"
        using rs by (simp add: run_slot_def ctx sw ck g)
      from watch_slot_writes [OF this ctx wk [unfolded k1]] s3 show ?thesis using runs_trans by blast
    qed
  qed
qed



section \<open>What a reconcile writes\<close>

definition unstarted :: "api_wheel \<Rightarrow> bool" where
  "unstarted whl \<longleftrightarrow> awst_time_slice (awl_status whl) = ''''"

text \<open>The first write of an unstarted wheel puts it on \<open>st\<close>.\<close>

definition started :: "api_wheel \<Rightarrow> duration \<Rightarrow> wheel_state \<Rightarrow> api_wheel \<Rightarrow> bool" where
  "started a iv st b \<longleftrightarrow> unstarted a \<and> (\<exists>s now. initial_state s iv now = Inr st) \<and> shows_state st b
     \<and> awl_spec b = awl_spec a \<and> awl_meta b = awl_meta a \<and> awst_slots (awl_status b) = awst_slots (awl_status a)
     \<and> awst_phase (awl_status b) = ''Rotating''"

inductive wheel_move :: "kube \<Rightarrow> api_wheel \<Rightarrow> duration \<Rightarrow> api_wheel \<Rightarrow> bool" for kb a iv where
  stay: "same_place a b \<Longrightarrow> awst_phase (awl_status b) = awst_phase (awl_status a) \<or> \<not> wheel_idle a \<or> unstarted a
      \<or> (\<exists>e. state_from_status (awl_status a) = Inl e) \<Longrightarrow> wheel_move kb a iv b"
| start: "started a iv st b \<Longrightarrow> wheel_move kb a iv b"
| first_slot: "started a iv st a1 \<Longrightarrow> slot_write kb a1 st iv b \<Longrightarrow> wheel_move kb a iv b"
| next_slot: "\<not> unstarted a \<Longrightarrow> \<not> wheel_idle a \<Longrightarrow> state_from_status (awl_status a) = Inr st
    \<Longrightarrow> slot_write kb a st iv b \<Longrightarrow> wheel_move kb a iv b"

inductive_cases wheel_moveE: "wheel_move kb a iv b"

lemma slot_write_server: "kb_workflow kb1 = kb_workflow kb \<Longrightarrow> slot_write kb1 = slot_write kb"
  by (simp add: fun_eq_iff slot_write_def slot_done_def completes_def)

lemma written_mono: "runs (wheel_written Q) kb kb1 \<Longrightarrow> (\<And>b. Q b \<Longrightarrow> R b) \<Longrightarrow> runs (wheel_written R) kb kb1"
  by (erule runs_mono) (simp add: wheel_written_def split: kube_write.splits)

lemma fail_wheel_moves:
  assumes "fail_wheel whl e kb = (out, kb1)"
    and "unstarted whl \<or> \<not> wheel_idle whl \<or> (\<exists>e. state_from_status (awl_status whl) = Inl e)"
  shows "runs (wheel_written (wheel_move kb0 whl iv)) kb kb1"
  using fail_wheel_writes [OF assms(1)] by (rule written_mono) (use assms(2) in \<open>blast intro: stay\<close>)

lemma start_wheel_moves:
  assumes "start_wheel whl iv kb w = (r, kb1, w1)"
  shows "runs (wheel_written (wheel_move kb0 whl iv)) kb kb1
    \<and> (\<forall>st whl1. r = Inr (st, whl1) \<longrightarrow> started whl iv st whl1
        \<or> whl1 = whl \<and> \<not> unstarted whl \<and> state_from_status (awl_status whl) = Inr st)"
proof (cases "state_from_status (awl_status whl)")
  case (Inl e)
  then show ?thesis using assms fail_wheel_moves by (auto simp: start_wheel_def split: prod.splits)
next
  case st: (Inr st)
  show ?thesis
  proof (cases "unstarted whl")
    case False
    then show ?thesis using assms st by (auto simp: start_wheel_def unstarted_def)
  next
    case u: True
    obtain now w2 where now: "time_now w = (now, w2)" by fastforce
    define s where "s = (case aww_start_slice (awl_spec whl) of None \<Rightarrow> '''' | Some s \<Rightarrow> s)"
    show ?thesis
    proof (cases "initial_state s iv now")
      case (Inl e)
      then show ?thesis using assms st u now
        by (auto simp: start_wheel_def unstarted_def s_def [symmetric] split: prod.splits intro: fail_wheel_moves)
    next
      case i: (Inr st1)
      define whl1 where "whl1 = set_wheel_status (\<lambda>s. (apply_state s st1 (aww_contexts (awl_spec whl) ! nat (sint (ws_index st1))))
        \<lparr>awst_phase := ''Rotating''\<rparr>) whl"
      have s1: "started whl iv st1 whl1" using u i
        by (auto simp: started_def whl1_def shows_state_def apply_state_def)
      obtain e kb2 where p: "kube_put (UpdateWheelStatus whl1) kb = (e, kb2)" by fastforce
      have "runs (wheel_written (wheel_move kb0 whl iv)) kb kb2"
        using s1 by (intro runs_put [OF p]) (auto intro: start)
      then show ?thesis using assms st u now i p s1
        by (auto simp: start_wheel_def unstarted_def s_def [symmetric] whl1_def [symmetric] Let_def split: option.splits)
    qed
  qed
qed

lemma reconcile_found_moves:
  assumes rf: "reconcile_found dir whl kb w = (out, kb1, w1)" and sp: "check_wheel_spec (awl_spec whl) = Inr iv"
  shows "runs (wheel_written (wheel_move kb whl iv)) kb kb1"
proof -
  have meta: "wheel_move kb whl iv (whl\<lparr>awl_meta := m\<rparr>)" for m
    by (rule stay) (simp_all add: same_place_def)
  show ?thesis
  proof (cases "km_deleting (awl_meta whl) \<or> \<not> contains_finalizer wheel_finalizer_name (awl_meta whl)")
    case True
    then show ?thesis using rf
      by (auto simp: reconcile_found_def finalize_wheel_def meta split: if_splits prod.splits elim!: runs_put_then)
  next
    case False
    obtain r kb2 w2 where st: "start_wheel whl iv kb w = (r, kb2, w2)" using prod_cases3 by blast
    note m = start_wheel_moves [OF st, of kb]
    show ?thesis
    proof (cases r)
      case (Inl o1)
      then show ?thesis using rf False sp st m by (simp add: reconcile_found_def)
    next
      case (Inr p)
      then obtain s whl1 where p: "r = Inr (s, whl1)" by (cases p) auto
      show ?thesis
      proof (cases "wheel_idle whl1")
        case True
        then show ?thesis using rf False sp st m p by (simp add: reconcile_found_def)
      next
        case idle: False
        then have "run_slot dir whl1 s iv kb2 w2 = (out, kb1, w1)" using rf False sp st p by (simp add: reconcile_found_def)
        from run_slot_writes [OF this] have "runs (wheel_written (slot_write kb whl1 s iv)) kb2 kb1"
          using slot_write_server runs_server(3) m by metis
        then have "runs (wheel_written (wheel_move kb whl iv)) kb2 kb1"
          by (rule written_mono) (use m p idle in \<open>blast intro: first_slot next_slot\<close>)
        then show ?thesis using m runs_trans by blast
      qed
    qed
  qed
qed



section \<open>Histories\<close>

text \<open>
  One write of a reconcile that read the wheel \<open>a\<close>, under any server, with any clock; and the
  wheels that come about from a created one by such writes and by changes of the metadata.
\<close>

definition wheel_step :: "string \<Rightarrow> object_key \<Rightarrow> api_wheel \<Rightarrow> api_wheel \<Rightarrow> bool" where
  "wheel_step dir key a b \<longleftrightarrow> (\<exists>kb w out kb1 w1. kb_log kb = [] \<and> kb_wheel kb (kb_tick kb) key = Inr a
     \<and> reconcile_wheel dir key kb w = (out, kb1, w1) \<and> (UpdateWheelStatus b \<in> set (kb_log kb1) \<or> UpdateWheel b \<in> set (kb_log kb1)))"

inductive wheel_reach :: "string \<Rightarrow> object_key \<Rightarrow> api_wheel \<Rightarrow> bool" for dir key where
  created: "unstarted a \<Longrightarrow> awst_slots (awl_status a) = [] \<Longrightarrow> wheel_reach dir key a"
| reconciled: "wheel_reach dir key a \<Longrightarrow> wheel_step dir key a b \<Longrightarrow> wheel_reach dir key b"
| metadata: "wheel_reach dir key a \<Longrightarrow> wheel_reach dir key (a\<lparr>awl_meta := m\<rparr>)"

lemma wheel_step_writes:
  assumes "wheel_step dir key a b"
  obtains kb w out kb1 w1 where "reconcile_found dir a kb w = (out, kb1, w1)"
    "\<And>Q. runs (wheel_written Q) kb kb1 \<Longrightarrow> Q b"
proof -
  obtain kb w out kb1 w1 where kb: "kb_log kb = []" "kb_wheel kb (kb_tick kb) key = Inr a"
    "reconcile_wheel dir key kb w = (out, kb1, w1)" "UpdateWheelStatus b \<in> set (kb_log kb1) \<or> UpdateWheel b \<in> set (kb_log kb1)"
    using assms by (auto simp: wheel_step_def)
  obtain g kb2 where g: "kube_get kb_wheel key kb = (g, kb2)" by fastforce
  have "g = Inr a" using kube_get_value [OF g] kb(2) by simp
  then have rf: "reconcile_found dir a kb2 w = (out, kb1, w1)" using kb(3) g by (simp add: reconcile_wheel_def)
  have log: "kb_log kb2 = []" using g kb(1) by (auto simp: kube_get_def)
  have "Q b" if m: "runs (wheel_written Q) kb2 kb1" for Q
    using kb(4) log runs_writes [OF m, of "UpdateWheelStatus b"] runs_writes [OF m, of "UpdateWheel b"] by auto
  with rf show thesis by (rule that)
qed

lemma wheel_step_move:
  assumes "wheel_step dir key a b" "check_wheel_spec (awl_spec a) = Inr iv"
  shows "\<exists>kb. wheel_move kb a iv b"
  using assms(1) by (rule wheel_step_writes) (use reconcile_found_moves assms(2) in blast)

lemma wheel_move_spec: "wheel_move kb a iv b \<Longrightarrow> awl_spec b = awl_spec a"
  by (auto elim!: wheel_move.cases simp: same_place_def started_def slot_write_def slot_done_def)

lemma wheel_step_spec:
  assumes "wheel_step dir key a b" shows "awl_spec b = awl_spec a"
proof (cases "check_wheel_spec (awl_spec a)")
  case (Inr iv)
  with assms wheel_step_move wheel_move_spec show ?thesis by blast
next
  case (Inl e)
  from assms obtain kb w out kb1 w1 where rf: "reconcile_found dir a kb w = (out, kb1, w1)"
    and w: "\<And>Q. runs (wheel_written Q) kb kb1 \<Longrightarrow> Q b" by (rule wheel_step_writes) blast
  have "runs (wheel_written (same_place a)) kb kb1"
    using rf Inl by (auto simp: reconcile_found_def finalize_wheel_def same_place_def
        split: if_splits prod.splits elim!: runs_put_then dest: fail_wheel_writes)
  from w [OF this] show ?thesis by (simp add: same_place_def)
qed

section \<open>On course\<close>

text \<open>The time slice and the context of the slots \<open>0 \<dots> n - 1\<close>.\<close>

definition slot_time :: "string list \<Rightarrow> duration \<Rightarrow> int \<Rightarrow> nat \<Rightarrow> int" where
  "slot_time contexts iv t i = t + int (i div length contexts) * sint iv"

definition slots_upto :: "string list \<Rightarrow> duration \<Rightarrow> int \<Rightarrow> nat \<Rightarrow> (string \<times> string) list" where
  "slots_upto contexts iv t n =
     map (\<lambda>i. (format_rfc3339 (slot_time contexts iv t i), contexts ! (i mod length contexts))) [0..<n]"

definition slot_limit :: "api_wheel_spec \<Rightarrow> nat" where
  "slot_limit sp = length (aww_contexts sp) * nat (sint (aww_max_rotations sp))"

text \<open>The status of a wheel that started at \<open>t\<close> and completed \<open>n\<close> slots.\<close>

definition at_slot :: "duration \<Rightarrow> int \<Rightarrow> nat \<Rightarrow> api_wheel \<Rightarrow> bool" where
  "at_slot iv t n whl \<longleftrightarrow>
     (let contexts = aww_contexts (awl_spec whl)
      in shows_state (position (word_of_nat (length contexts)) iv t n) whl
         \<and> map (\<lambda>p. (aps_time_slice p, aps_context p)) (awst_slots (awl_status whl)) = slots_upto contexts iv t n)"

definition within_limit :: "duration \<Rightarrow> int \<Rightarrow> nat \<Rightarrow> api_wheel \<Rightarrow> bool" where
  "within_limit iv t n whl \<longleftrightarrow> sint (aww_max_rotations (awl_spec whl)) \<le> 0
     \<or> n < slot_limit (awl_spec whl)
     \<or> n = slot_limit (awl_spec whl) \<and> (awst_phase (awl_status whl) = ''Idle''
         \<or> \<not> four_digit_year (slot_time (aww_contexts (awl_spec whl)) iv t n))"

definition on_course :: "duration \<Rightarrow> api_wheel \<Rightarrow> bool" where
  "on_course iv whl \<longleftrightarrow> unstarted whl \<and> awst_slots (awl_status whl) = []
     \<or> \<not> unstarted whl \<and> (\<exists>t n. at_slot iv t n whl \<and> within_limit iv t n whl)"

text \<open>A state in memory stands on slot \<open>n\<close> when it shows the same status.\<close>

definition on_slot :: "nat \<Rightarrow> duration \<Rightarrow> int \<Rightarrow> nat \<Rightarrow> wheel_state \<Rightarrow> bool" where
  "on_slot k iv t n st \<longleftrightarrow> (\<exists>u. u div 1000000000 = t div 1000000000 \<and> st = position (word_of_nat k) iv u n)"

lemma whole_seconds_div:
  fixes d :: int
  assumes "1000000000 dvd d" shows "(t + m * d) div 1000000000 = t div 1000000000 + m * (d div 1000000000)"
proof -
  obtain c where "d = 1000000000 * c" using assms by blast
  then have "t + m * d = t + (m * c) * 1000000000" by simp
  then show ?thesis using \<open>d = 1000000000 * c\<close> by (simp only: div_mult_self1) simp
qed

lemma shows_position:
  assumes "1000000000 dvd sint iv" "u div 1000000000 = t div 1000000000"
  shows "shows_state (position k iv u n) whl \<longleftrightarrow> shows_state (position k iv t n) whl"
  using format_rfc3339_cong [of "u + int (n div nat (sint k)) * sint iv" "t + int (n div nat (sint k)) * sint iv"]
    whole_seconds_div [OF assms(1), of u] whole_seconds_div [OF assms(1), of t] assms(2)
  by (simp add: shows_state_def position_def)

lemma on_slot_advance:
  fixes mx :: "64 word"
  assumes "0 < k" "k < 2 ^ 63" "on_slot k iv t n st"
  defines "r \<equiv> advance_after_completion st (word_of_nat k) iv mx"
  shows "on_slot k iv t (Suc n) (av_state r)"
    and "av_done r \<longleftrightarrow> k dvd Suc n \<and> 0 < sint mx \<and> sint mx \<le> sint (word_of_nat (Suc n div k) :: 64 word)"
proof -
  obtain u where u: "u div 1000000000 = t div 1000000000" "st = position (word_of_nat k) iv u n"
    using assms(3) by (auto simp: on_slot_def)
  have k: "sint (word_of_nat k :: 64 word) = int k" by (rule sint_word_of_nat [OF assms(2)])
  then have r: "r = \<lparr>av_state = position (word_of_nat k) iv u (Suc n), av_advanced = (Suc n mod k = 0),
     av_done = (Suc n mod k = 0 \<and> 0 < sint mx \<and> sint mx \<le> sint (word_of_nat (Suc n div k) :: 64 word))\<rparr>"
    using assms(1) by (simp add: r_def u(2) advance_position)
  show "on_slot k iv t (Suc n) (av_state r)" using u(1) by (auto simp: r on_slot_def)
  show "av_done r \<longleftrightarrow> k dvd Suc n \<and> 0 < sint mx \<and> sint mx \<le> sint (word_of_nat (Suc n div k) :: 64 word)"
    by (simp add: r mod_eq_0_iff_dvd)
qed

lemma slots_upto_Suc:
  "slots_upto contexts iv t (Suc n) = slots_upto contexts iv t n
     @ [(format_rfc3339 (slot_time contexts iv t n), contexts ! (n mod length contexts))]"
  by (simp add: slots_upto_def)


text \<open>A wheel on slot \<open>n\<close> that completes it is on slot \<open>n + 1\<close>.\<close>

lemma slot_done_at_slot:
  assumes cs: "aww_contexts (awl_spec a) \<noteq> []" "length (aww_contexts (awl_spec a)) < 2 ^ 63" "1000000000 dvd sint iv"
    and a: "at_slot iv t n a" "on_slot (length (aww_contexts (awl_spec a))) iv t n st"
    and b: "slot_done kb a st iv b" "0 < sint (aww_max_rotations (awl_spec a)) \<Longrightarrow> n < slot_limit (awl_spec a)"
  shows "at_slot iv t (Suc n) b \<and> within_limit iv t (Suc n) b"
proof -
  let ?cs = "aww_contexts (awl_spec a)" and ?mx = "aww_max_rotations (awl_spec a)"
  let ?k = "length ?cs"
  let ?r = "advance_after_completion st (word_of_nat ?k) iv ?mx"
  have k: "0 < ?k" "nat (sint (word_of_nat ?k :: 64 word)) = ?k"
    using cs(1) sint_word_of_nat [OF cs(2)] by simp_all
  note adv = on_slot_advance [OF k(1) cs(2) a(2), of ?mx]
  obtain u where u: "u div 1000000000 = t div 1000000000" "av_state ?r = position (word_of_nat ?k) iv u (Suc n)"
    using adv(1) by (auto simp: on_slot_def)
  have sp: "awl_spec b = awl_spec a" and sb: "shows_state (av_state ?r) b" "av_done ?r \<longrightarrow> awst_phase (awl_status b) = ''Idle''"
    using b(1) by (auto simp: slot_done_def Let_def)
  obtain p where p: "awst_slots (awl_status b) = awst_slots (awl_status a) @ [p]"
    "aps_time_slice p = awst_time_slice (awl_status a)" "active_context_name ?cs (ws_index st) = Inr (aps_context p)"
    using b(1) by (auto simp: slot_done_def completes_def)
  have "sint (ws_index st) = int (n mod ?k)"
  proof -
    have "n mod ?k < 2 ^ 63" using k(1) cs(2) mod_less_divisor [of ?k n] by linarith
    then show ?thesis using a(2) k(2) by (auto simp: on_slot_def position_def sint_word_of_nat)
  qed
  then have "aps_context p = ?cs ! (n mod ?k)" using p(3) by (auto simp: active_context_name_def split: if_splits)
  moreover have "aps_time_slice p = format_rfc3339 (slot_time ?cs iv t n)"
    using p(2) a(1) k(2) by (simp add: at_slot_def shows_state_def position_def slot_time_def Let_def)
  ultimately have "map (\<lambda>p. (aps_time_slice p, aps_context p)) (awst_slots (awl_status b)) = slots_upto ?cs iv t (Suc n)"
    using p(1) a(1) by (simp add: at_slot_def slots_upto_Suc Let_def)
  then have at: "at_slot iv t (Suc n) b"
    using sb(1) u shows_position [OF cs(3) u(1)] by (simp add: at_slot_def sp Let_def)
  have "within_limit iv t (Suc n) b"
  proof (cases "0 < sint ?mx \<and> Suc n = slot_limit (awl_spec a)")
    case True
    define m where "m = nat (sint ?mx)"
    have m: "sint ?mx = int m" "m < 2 ^ 63" using True nat_sint_less [of ?mx] by (simp_all add: m_def)
    have "Suc n = ?k * m" using True by (simp add: slot_limit_def m_def)
    then have "Suc n div ?k = m" "?k dvd Suc n" using k(1) by simp_all
    then have "av_done ?r" using True adv(2) m by (simp add: sint_word_of_nat)
    then show ?thesis using sb(2) sp True by (simp add: within_limit_def)
  next
    case False
    then show ?thesis using b(2) sp by (auto simp: within_limit_def)
  qed
  with at show ?thesis by blast
qed


section \<open>The course is kept\<close>

lemma format_rfc3339_not_Nil [simp]: "format_rfc3339 t \<noteq> ''''"
  by (simp add: format_rfc3339_def)

lemma at_slot_started: "at_slot iv t n whl \<Longrightarrow> \<not> unstarted whl"
  by (auto simp: at_slot_def shows_state_def unstarted_def Let_def)

lemma same_place_at_slot: "same_place a b \<Longrightarrow> at_slot iv t n b = at_slot iv t n a"
  by (simp add: same_place_def at_slot_def shows_state_def)

text \<open>What the status says is read back as the slot, or not at all.\<close>

lemma state_at_slot:
  assumes "1000000000 dvd sint iv" "at_slot iv t n a" "length (aww_contexts (awl_spec a)) < 2 ^ 63"
  shows "(case state_from_status (awl_status a) of
      Inr st \<Rightarrow> four_digit_year (slot_time (aww_contexts (awl_spec a)) iv t n)
        \<and> on_slot (length (aww_contexts (awl_spec a))) iv t n st
    | Inl _ \<Rightarrow> \<not> four_digit_year (slot_time (aww_contexts (awl_spec a)) iv t n))"
proof -
  let ?cs = "aww_contexts (awl_spec a)"
  let ?T = "slot_time ?cs iv t n"
  have k: "nat (sint (word_of_nat (length ?cs) :: 64 word)) = length ?cs" using sint_word_of_nat [OF assms(3)] by simp
  have f: "awst_time_slice (awl_status a) = format_rfc3339 ?T"
    "awst_context_index (awl_status a) = word_of_nat (n mod length ?cs)"
    "awst_rotation_count (awl_status a) = word_of_nat (n div length ?cs)"
    using assms(2) k by (simp_all add: at_slot_def shows_state_def position_def slot_time_def Let_def)
  show ?thesis
  proof (cases "four_digit_year ?T")
    case False
    then show ?thesis using f(1) by (simp add: state_from_status_def parse_format_no_year)
  next
    case True
    define u where "u = t div 1000000000 * 1000000000"
    have "?T div 1000000000 * 1000000000 = u + int (n div length ?cs) * sint iv"
      using whole_seconds_div [OF assms(1), of t] assms(1) by (simp add: slot_time_def u_def distrib_right)
    then have "state_from_status (awl_status a) = Inr (position (word_of_nat (length ?cs)) iv u n)"
      using True f k by (simp add: state_from_status_def parse_format_rfc3339 position_def)
    moreover have "u div 1000000000 = t div 1000000000" by (simp add: u_def)
    ultimately show ?thesis using True by (auto simp: on_slot_def)
  qed
qed

lemma wheel_idle_at_limit:
  assumes "at_slot iv t n a" "n = slot_limit (awl_spec a)" "0 < sint (aww_max_rotations (awl_spec a))"
    and "awst_phase (awl_status a) = ''Idle''" "aww_contexts (awl_spec a) \<noteq> []" "length (aww_contexts (awl_spec a)) < 2 ^ 63"
  shows "wheel_idle a"
proof -
  define m where "m = nat (sint (aww_max_rotations (awl_spec a)))"
  have m: "sint (aww_max_rotations (awl_spec a)) = int m" "m < 2 ^ 63"
    using assms(3) nat_sint_less [of "aww_max_rotations (awl_spec a)"] by (simp_all add: m_def)
  have k: "nat (sint (word_of_nat (length (aww_contexts (awl_spec a))) :: 64 word)) = length (aww_contexts (awl_spec a))"
    using sint_word_of_nat [OF assms(6)] by simp
  have "awst_rotation_count (awl_status a) = word_of_nat m"
    using assms(1,2,5) k by (simp add: at_slot_def shows_state_def position_def Let_def slot_limit_def m_def)
  then show ?thesis using assms(3,4) m by (simp add: wheel_idle_def sint_word_of_nat)
qed

lemma started_at_slot:
  assumes "started a iv st b" "awst_slots (awl_status a) = []" "aww_contexts (awl_spec a) \<noteq> []"
  shows "\<exists>t. at_slot iv t 0 b \<and> on_slot (length (aww_contexts (awl_spec a))) iv t 0 st \<and> awl_spec b = awl_spec a
    \<and> within_limit iv t 0 b"
proof -
  have "ws_index st = 0 \<and> ws_rotations st = 0"
    using assms(1) by (auto simp: started_def initial_state_def split: if_splits sum.splits)
  then have st: "st = position k iv (ws_slice st) 0" for k by (simp add: position_def)
  have "shows_state (position k iv (ws_slice st) 0) b" for k
    using assms(1) st [of k] by (simp add: started_def)
  moreover have "on_slot (length (aww_contexts (awl_spec a))) iv (ws_slice st) 0 st"
    unfolding on_slot_def using st by blast
  moreover have "awst_slots (awl_status b) = []" "awl_spec b = awl_spec a" using assms(1,2) by (simp_all add: started_def)
  ultimately show ?thesis using assms(3)
    by (intro exI [of _ "ws_slice st"]) (auto simp: at_slot_def slots_upto_def Let_def within_limit_def slot_limit_def)
qed

lemma slot_write_on_course:
  assumes cs: "aww_contexts (awl_spec a) \<noteq> []" "length (aww_contexts (awl_spec a)) < 2 ^ 63" "1000000000 dvd sint iv"
    and a: "at_slot iv t n a" "on_slot (length (aww_contexts (awl_spec a))) iv t n st"
    and n: "0 < sint (aww_max_rotations (awl_spec a)) \<Longrightarrow> n < slot_limit (awl_spec a)"
    and b: "slot_write kb a st iv b"
  shows "on_course iv b \<and> awl_spec b = awl_spec a"
  using b unfolding slot_write_def
proof
  assume sp: "same_place a b"
  then have "within_limit iv t n b" using n by (auto simp: within_limit_def same_place_def)
  then show ?thesis using sp same_place_at_slot [OF sp] a(1) at_slot_started by (auto simp: on_course_def same_place_def)
next
  assume d: "slot_done kb a st iv b"
  from slot_done_at_slot [OF cs a d n] show ?thesis using d at_slot_started by (auto simp: on_course_def slot_done_def)
qed

lemma move_on_course:
  assumes cs: "aww_contexts (awl_spec a) \<noteq> []" "length (aww_contexts (awl_spec a)) < 2 ^ 63" "1000000000 dvd sint iv"
    and a: "on_course iv a" and m: "wheel_move kb a iv b"
  shows "on_course iv b \<and> awl_spec b = awl_spec a"
  using m
proof cases
  case stay
  show ?thesis
  proof (cases "unstarted a")
    case True
    then show ?thesis using a stay(1) at_slot_started by (auto simp: on_course_def same_place_def unstarted_def)
  next
    case False
    then obtain t n where n: "at_slot iv t n a" "within_limit iv t n a" using a by (auto simp: on_course_def)
    have "within_limit iv t n b"
      using n stay wheel_idle_at_limit [OF n(1) _ _ _ cs(1,2)] state_at_slot [OF cs(3) n(1) cs(2)] False
      by (auto simp: within_limit_def same_place_def)
    then show ?thesis using stay(1) same_place_at_slot [OF stay(1)] n(1) at_slot_started
      by (auto simp: on_course_def same_place_def)
  qed
next
  case (start st)
  then have "awst_slots (awl_status a) = []" using a by (auto simp: on_course_def started_def)
  from started_at_slot [OF start this cs(1)] show ?thesis using at_slot_started by (auto simp: on_course_def)
next
  case (first_slot st a1)
  then have "awst_slots (awl_status a) = []" using a by (auto simp: on_course_def started_def)
  from started_at_slot [OF first_slot(1) this cs(1)] obtain t where
    t: "at_slot iv t 0 a1" "on_slot (length (aww_contexts (awl_spec a))) iv t 0 st" "awl_spec a1 = awl_spec a" by blast
  show ?thesis using slot_write_on_course [of a1 iv t 0 st kb b] t cs first_slot(2) by (auto simp: slot_limit_def)
next
  case (next_slot st)
  then obtain t n where n: "at_slot iv t n a" "within_limit iv t n a" using a by (auto simp: on_course_def)
  have st: "four_digit_year (slot_time (aww_contexts (awl_spec a)) iv t n)"
    "on_slot (length (aww_contexts (awl_spec a))) iv t n st"
    using state_at_slot [OF cs(3) n(1) cs(2)] next_slot(3) by simp_all
  show ?thesis
    using slot_write_on_course [OF cs n(1) st(2) _ next_slot(4)] n st(1) next_slot(2) wheel_idle_at_limit [OF n(1) _ _ _ cs(1,2)]
    by (auto simp: within_limit_def)
qed

lemma check_wheel_contexts: "check_wheel_spec sp = Inr iv \<Longrightarrow> aww_contexts sp \<noteq> []"
  by (auto simp: check_wheel_spec_def split: if_splits)

text \<open>
  A wheel stays on its course: however many reconciles run, whatever the API server answers
  and whichever writes get through, the slots recorded as processed are the first \<open>n\<close> in
  order, slot \<open>i\<close> with the context \<open>
  C16 i mod k\<close> and the start time plus \<open>i div k\<close> intervals, the
  position in the status is that of slot \<open>n\<close>, and \<open>n\<close> never passes the limit of rotations.
  The interval has to be whole seconds.
\<close>

theorem wheel_keeps_course:
  assumes "wheel_reach dir key a" "check_wheel_spec (awl_spec a) = Inr iv" "1000000000 dvd sint iv"
    and "length (aww_contexts (awl_spec a)) < 2 ^ 63"
  shows "on_course iv a"
  using assms
proof induction
  case (created a)
  then show ?case by (simp add: on_course_def)
next
  case (reconciled a b)
  note sp = wheel_step_spec [OF reconciled.hyps(2)]
  obtain kb where "wheel_move kb a iv b" using wheel_step_move reconciled.hyps(2) reconciled.prems(1) sp by metis
  then show ?case using move_on_course [of a iv kb b] reconciled.IH reconciled.prems check_wheel_contexts sp by simp
next
  case (metadata a m)
  then show ?case by (simp add: on_course_def unstarted_def at_slot_def within_limit_def shows_state_def)
qed



section \<open>Guard and progress\<close>

lemma completes_cong: "awl_spec a = awl_spec b \<Longrightarrow> awl_meta a = awl_meta b \<Longrightarrow> completes kb a = completes kb b"
  by (simp add: fun_eq_iff completes_def)

lemma wheel_move_slots:
  assumes "wheel_move kb a iv b"
  shows "awst_slots (awl_status b) = awst_slots (awl_status a)
    \<or> (\<exists>p st. awst_slots (awl_status b) = awst_slots (awl_status a) @ [p] \<and> completes kb a st p)"
  using assms
proof cases
  case (first_slot st a1)
  then have "completes kb a1 = completes kb a" "awst_slots (awl_status a1) = awst_slots (awl_status a)"
    by (auto simp: started_def intro: completes_cong)
  then show ?thesis using first_slot(2) by (auto simp: slot_write_def slot_done_def same_place_def)
qed (auto simp: same_place_def started_def slot_write_def slot_done_def)


text \<open>A template without Julia steps and without a universe needs nothing from \<open>ApplyToWorkflow\<close>.\<close>

definition plain_template :: "api_wf_template \<Rightarrow> bool" where
  "plain_template t \<longleftrightarrow> atp_domino_refs t = [] \<and> trim_space (ar_universe (atp_routing t)) = ''''
     \<and> \<not> list_ex (\<lambda>d. has_prefix (ads_command d) ''julia:'') (atp_dominos t)"

lemma apply_plain:
  assumes "build_workflow whl c st dir = Inr k" "plain_template (aww_template (awl_spec whl))"
  shows "apply_to_workflow k kb = (Inr k, kb)"
proof -
  have k: "aws_domino_refs (awf_spec k) = []" "trim_space (ar_universe (aws_routing (awf_spec k))) = ''''"
    "aws_dominos (awf_spec k) = slot_dominos (km_name (awl_meta whl) @ ''-'' @ format_time_slice (ws_slice st))
        (atp_dominos (aww_template (awl_spec whl)))"
    using assms by (auto simp: build_workflow_def plain_template_def Let_def split: if_splits)
  have "\<not> list_ex (\<lambda>d. has_prefix (ads_command d) ''julia:'') (aws_dominos (awf_spec k))"
    using assms(2) unfolding k(3) by (auto simp: plain_template_def slot_dominos_def list_ex_iff split: if_splits)
  then show ?thesis using k(1,2) by (simp add: apply_to_workflow_def workflow_has_julia_def check_julia_image_def)
qed

text \<open>A server that knows the contexts or not, takes every write, and has completed the workflow.\<close>

definition serves_slot :: "kube \<Rightarrow> api_wheel \<Rightarrow> wheel_state \<Rightarrow> api_workflow \<Rightarrow> bool" where
  "serves_slot kb whl st k \<longleftrightarrow> (\<forall>i. kb_write kb i = None)
     \<and> (\<forall>i key e. kb_context kb i key = Inl e \<longrightarrow> api_is_not_found e)
     \<and> (\<forall>ctx i. active_context_name (aww_contexts (awl_spec whl)) (ws_index st) = Inr ctx
          \<longrightarrow> kb_workflow kb i (km_namespace (awl_meta whl),
                workflow_name (km_name (awl_meta whl)) ctx (format_time_slice (ws_slice st))) = Inr k)
     \<and> awt_phase (awf_status k) = ''Completed''"

lemma put_then_accepted:
  "kb_write kb (kb_tick kb) = None \<Longrightarrow> put_then c out kb = (out, kb\<lparr>kb_tick := Suc (kb_tick kb), kb_log := kb_log kb @ [c]\<rparr>)"
  by (simp add: put_then_def kube_put_def)

lemma advance_wheel_last_write:
  assumes "\<forall>i. kb_write kb i = None"
    and "\<not> av_done (advance_after_completion st (word_of_nat (length (aww_contexts (awl_spec whl)))) iv (aww_max_rotations (awl_spec whl)))
      \<Longrightarrow> \<exists>c. active_context_name (aww_contexts (awl_spec whl)) (ws_index (av_state
          (advance_after_completion st (word_of_nat (length (aww_contexts (awl_spec whl)))) iv (aww_max_rotations (awl_spec whl))))) = Inr c"
    and "advance_wheel whl st iv ctx k kb w = (out, kb1, w1)"
  shows "snd out = None \<and> (\<exists>b. kb_log kb1 = kb_log kb @ [UpdateWheelStatus b])"
  using assms
  by (auto simp: advance_wheel_def put_then_accepted Let_def no_requeue_def requeue_now_def
      split: prod.splits if_splits)



lemma runs_last: "runs P kb kb1 \<Longrightarrow> kb_log kb1 = kb_log kb @ [c] \<Longrightarrow> P c"
  by (auto simp: runs_def)

lemma find_context_served:
  "\<forall>i key e. kb_context kb i key = Inl e \<longrightarrow> api_is_not_found e \<Longrightarrow> \<exists>c kb1. find_context ctx kb = (Inr c, kb1)"
  by (cases "kb_context kb (kb_tick kb) ('''', ctx)") (auto simp: find_context_def kube_get_def)

lemma build_workflow_in_range:
  "active_context_name (aww_contexts (awl_spec whl)) (ws_index st) = Inr ctx \<Longrightarrow> \<exists>k. build_workflow whl c st dir = Inr k"
  by (auto simp: build_workflow_def active_context_name_def Let_def split: if_splits)

lemma on_slot_context:
  assumes "on_slot k iv t n st" "0 < k" "k < 2 ^ 63" "k = length contexts"
  shows "active_context_name contexts (ws_index st) = Inr (contexts ! (n mod k))"
proof -
  have "n mod k < 2 ^ 63" using assms(2,3) mod_less_divisor [of k n] by linarith
  moreover have "nat (sint (word_of_nat k :: 64 word)) = k" using sint_word_of_nat [OF assms(3)] by simp
  ultimately have "sint (ws_index st) = int (n mod k)"
    using assms(1) by (auto simp: on_slot_def position_def sint_word_of_nat)
  then show ?thesis using assms(2,4) mod_less_divisor [of k n] by (simp add: active_context_name_def not_le)
qed

text \<open>Up to the point where the workflow is looked at, a served slot goes through.\<close>

lemma run_slot_served:
  assumes rs: "run_slot dir whl st iv kb w = (out, kb1, w1)" and srv: "serves_slot kb whl st k"
    and ctx: "active_context_name (aww_contexts (awl_spec whl)) (ws_index st) = Inr ctx"
    and pt: "plain_template (aww_template (awl_spec whl))"
  shows "\<exists>c kb2. runs no_writes kb kb2 \<and> watch_slot dir whl st iv ctx c k kb2 w = (out, kb1, w1)"
proof -
  obtain c kb2 where c: "find_context ctx kb = (Inr c, kb2)" using srv find_context_served [of kb ctx] by (auto simp: serves_slot_def)
  obtain k0 where k0: "build_workflow whl c st dir = Inr k0" using build_workflow_in_range [OF ctx] by blast
  have sw: "slot_workflow dir whl st ctx kb = (Inr (c, k0), kb2)" by (simp add: slot_workflow_def c k0 apply_plain [OF k0 pt])
  obtain g kb3 where g: "kube_get kb_workflow (wf_key k0) kb2 = (g, kb3)" by fastforce
  have "g = Inr k" using kube_get_value [OF g] srv ctx slot_workflow_key [OF sw ctx] runs_server(3) [OF find_context_silent [OF c]]
    by (simp add: serves_slot_def)
  then have "watch_slot dir whl st iv ctx c k kb3 w = (out, kb1, w1)" using rs by (simp add: run_slot_def ctx sw g)
  with runs_trans [OF find_context_silent [OF c] runs_get [OF g]] show ?thesis by blast
qed

lemma watch_slot_served:
  assumes ws: "watch_slot dir whl st iv ctx c k kb w = (out, kb1, w1)" and ph: "awt_phase (awf_status k) = ''Completed''"
    and wr: "\<forall>i. kb_write kb i = None" and ctx: "active_context_name (aww_contexts (awl_spec whl)) (ws_index st) = Inr ctx"
    and kw: "kb_workflow kb0 t (km_namespace (awl_meta whl), workflow_name (km_name (awl_meta whl)) ctx
        (format_time_slice (ws_slice st))) = Inr k"
    and nxt: "\<exists>c. active_context_name (aww_contexts (awl_spec whl)) (ws_index (av_state
        (advance_after_completion st (word_of_nat (length (aww_contexts (awl_spec whl)))) iv (aww_max_rotations (awl_spec whl))))) = Inr c"
  shows "snd out = None \<and> (\<exists>b. last (kb_log kb1) = UpdateWheelStatus b \<and> kb_log kb1 \<noteq> [] \<and> slot_done kb0 whl st iv b)"
proof -
  define whl' where "whl' = whl\<lparr>awl_status := (awl_status whl)\<lparr>awst_workflow := km_name (awf_meta k)\<rparr>\<rparr>"
  define kb2 where "kb2 = (if aww_pre_provision (awl_spec whl') then snd (pre_provision_next dir whl' st iv c kb) else kb)"
  have "runs creates_workflow kb kb2"
    by (simp add: kb2_def pre_provision_next_creates [OF prod.collapse [symmetric]])
  then have wr2: "\<forall>i. kb_write kb2 i = None" using wr by (simp add: runs_server)
  have adv: "advance_wheel whl' st iv ctx k kb2 w = (out, kb1, w1)"
    using ws ph by (auto simp: watch_slot_def Let_def whl'_def kb2_def split: if_splits)
  have sp: "awl_spec whl' = awl_spec whl" "awl_meta whl' = awl_meta whl" by (simp_all add: whl'_def)
  have sd: "slot_done kb0 whl' st iv = slot_done kb0 whl st iv"
    by (simp add: fun_eq_iff slot_done_def whl'_def completes_def)
  from advance_wheel_last_write [OF wr2 _ adv] nxt sp obtain b where
    b: "snd out = None" "kb_log kb1 = kb_log kb2 @ [UpdateWheelStatus b]" by auto
  have "runs (wheel_written (slot_done kb0 whl' st iv)) kb2 kb1"
    by (rule advance_wheel_writes [OF adv _ _ ph, of kb0 t]) (use ctx kw sp in simp_all)
  from runs_last [OF this b(2)] b sd show ?thesis by simp
qed

lemma served_slot_done:
  assumes a: "at_slot iv t n a" "within_limit iv t n a" "state_from_status (awl_status a) = Inr st" "\<not> wheel_idle a"
    and spec: "check_wheel_spec (awl_spec a) = Inr iv" "1000000000 dvd sint iv" "length (aww_contexts (awl_spec a)) < 2 ^ 63"
      "plain_template (aww_template (awl_spec a))"
    and meta: "contains_finalizer wheel_finalizer_name (awl_meta a)" "\<not> km_deleting (awl_meta a)"
    and srv: "kb_wheel kb (kb_tick kb) key = Inr a" "serves_slot kb a st k"
    and run: "reconcile_wheel dir key kb w = (out, kb1, w1)"
  shows "snd out = None \<and> (\<exists>b kb2. kb_log kb1 \<noteq> [] \<and> last (kb_log kb1) = UpdateWheelStatus b
    \<and> slot_done kb2 a st iv b) \<and> on_slot (length (aww_contexts (awl_spec a))) iv t n st
    \<and> (0 < sint (aww_max_rotations (awl_spec a)) \<longrightarrow> n < slot_limit (awl_spec a))"
proof -
  let ?cs = "aww_contexts (awl_spec a)"
  have cs: "?cs \<noteq> []" using spec(1) check_wheel_contexts by blast
  have st: "four_digit_year (slot_time ?cs iv t n)" "on_slot (length ?cs) iv t n st"
    using state_at_slot [OF spec(2) a(1) spec(3)] a(3) by simp_all
  have n: "0 < sint (aww_max_rotations (awl_spec a)) \<Longrightarrow> n < slot_limit (awl_spec a)"
    using a(2,4) st(1) wheel_idle_at_limit [OF a(1) _ _ _ cs spec(3)] by (auto simp: within_limit_def)
  have ctx: "active_context_name ?cs (ws_index st) = Inr (?cs ! (n mod length ?cs))"
    using on_slot_context [OF st(2)] cs spec(3) by simp
  obtain g kb2 where g: "kube_get kb_wheel key kb = (g, kb2)" by fastforce
  have "g = Inr a" using kube_get_value [OF g] srv(1) by simp
  moreover have "awst_time_slice (awl_status a) \<noteq> ''''" using at_slot_started [OF a(1)] by (simp add: unstarted_def)
  ultimately have rs: "run_slot dir a st iv kb2 w = (out, kb1, w1)"
    using run g meta spec(1) a(3,4) by (simp add: reconcile_wheel_def reconcile_found_def start_wheel_def)
  have srv2: "serves_slot kb2 a st k" using srv(2) runs_server [OF runs_get [OF g]] by (simp add: serves_slot_def)
  obtain c kb3 where ws: "runs no_writes kb2 kb3" "watch_slot dir a st iv (?cs ! (n mod length ?cs)) c k kb3 w = (out, kb1, w1)"
    using run_slot_served [OF rs srv2 ctx spec(4)] by blast
  have "on_slot (length ?cs) iv t (Suc n) (av_state (advance_after_completion st (word_of_nat (length ?cs)) iv
      (aww_max_rotations (awl_spec a))))"
    using on_slot_advance(1) [OF _ spec(3) st(2)] cs by simp
  from on_slot_context [OF this] cs spec(3) have nxt: "\<exists>c. active_context_name ?cs (ws_index (av_state
      (advance_after_completion st (word_of_nat (length ?cs)) iv (aww_max_rotations (awl_spec a))))) = Inr c" by auto
  have "\<forall>i. kb_write kb3 i = None" using runs_server [OF ws(1)] srv2 by (simp add: serves_slot_def)
  from watch_slot_served [OF ws(2) _ this ctx _ nxt, of kb2 0] srv2 ctx
  obtain b where b: "snd out = None" "last (kb_log kb1) = UpdateWheelStatus b" "kb_log kb1 \<noteq> []" "slot_done kb2 a st iv b"
    by (auto simp: serves_slot_def)
  then show ?thesis using st(2) n by blast
qed



section \<open>A concrete wheel\<close>

definition demo_turning :: api_wheel where
  "demo_turning = demo_wheel
     \<lparr>awl_meta := (new_meta ''w'' ''ns'' [])\<lparr>km_finalizers := [wheel_finalizer_name]\<rparr>,
      awl_status := (apply_state (awl_status demo_wheel) \<lparr>ws_slice = 1744675200000000000, ws_index = 0, ws_rotations = 0\<rparr> ''a'')
        \<lparr>awst_phase := ''Processing''\<rparr>\<rparr>"

definition demo_done :: api_workflow where
  "demo_done = (plain_workflow ''w-a-20250415t000000z'' [] [])
     \<lparr>awf_status := empty_wf_status\<lparr>awt_phase := ''Completed'', awt_snapshot_id := ''id''\<rparr>\<rparr>"

definition demo_server :: "api_wheel \<Rightarrow> kube" where
  "demo_server a = empty_kube\<lparr>kb_wheel := \<lambda>_ _. Inr a, kb_workflow := \<lambda>_ _. Inr demo_done\<rparr>"

lemma demo_spec: "check_wheel_spec (awl_spec demo_wheel) = Inr 3600000000000" "awl_spec demo_turning = awl_spec demo_wheel"
proof -
  have "parse_duration ''1h'' = Inr 3600000000000"
    by (simp add: parse_duration_def dur_sum.simps dur_number_def digit_val_def is_num_byte_def dur_unit_def)
  then have "parse_interval ''1h'' = Inr 3600000000000"
    by (simp add: parse_interval_def trim_space_def is_space_def Let_def has_suffix_def has_prefix_def)
  then show "check_wheel_spec (awl_spec demo_wheel) = Inr 3600000000000"
    by (simp add: check_wheel_spec_def demo_wheel_def Let_def validate_explorer_window_def)
qed (simp add: demo_turning_def)

lemma demo_facts:
  "aww_contexts (awl_spec demo_wheel) = [''a'', ''b'']" "aww_max_rotations (awl_spec demo_wheel) = 0"
  "plain_template (aww_template (awl_spec demo_wheel))" "sint (3600000000000 :: 64 word) = 3600000000000"
  "contains_finalizer wheel_finalizer_name (awl_meta demo_turning)" "\<not> km_deleting (awl_meta demo_turning)"
  "\<not> wheel_idle demo_turning"
  by (simp_all add: demo_wheel_def demo_turning_def Let_def plain_template_def trim_space_def contains_finalizer_def
      wheel_idle_def apply_state_def)

lemma demo_at_slot: "at_slot 3600000000000 1744675200000000000 0 demo_turning"
  by (simp add: at_slot_def demo_turning_def demo_wheel_def Let_def shows_state_def position_def apply_state_def slots_upto_def)

lemma demo_state: "state_from_status (awl_status demo_turning) = Inr \<lparr>ws_slice = 1744675200000000000, ws_index = 0, ws_rotations = 0\<rparr>"
  using parse_format_rfc3339 [OF year_2025(1)]
  by (simp add: demo_turning_def state_from_status_def apply_state_def)

lemma demo_served: "serves_slot (demo_server demo_turning) demo_turning \<lparr>ws_slice = 1744675200000000000, ws_index = 0, ws_rotations = 0\<rparr> demo_done"
  by (simp add: serves_slot_def demo_server_def empty_kube_def api_not_found_def api_is_not_found_def demo_done_def plain_workflow_def)

lemma demo_within: "within_limit 3600000000000 1744675200000000000 0 demo_turning"
  by (simp add: within_limit_def demo_spec(2) demo_facts)



lemma wheel_stepI:
  "kb_log kb = [] \<Longrightarrow> kb_wheel kb (kb_tick kb) key = Inr a \<Longrightarrow> reconcile_wheel dir key kb w = (out, kb1, w1)
    \<Longrightarrow> UpdateWheelStatus b \<in> set (kb_log kb1) \<Longrightarrow> wheel_step dir key a b"
  unfolding wheel_step_def by blast

text \<open>The first reconcile of a created wheel attempts to write its start, here in vain.\<close>

lemma demo_first_step:
  "\<exists>b. wheel_step ''/d'' (''ns'', ''w'') (demo_wheel\<lparr>awl_meta := awl_meta demo_turning\<rparr>) b \<and> \<not> unstarted b
    \<and> awl_spec b = awl_spec demo_wheel"
proof -
  define a where "a = demo_wheel\<lparr>awl_meta := awl_meta demo_turning\<rparr>"
  define kb where "kb = (demo_server a)\<lparr>kb_write := \<lambda>_. Some (io_err ''refused'')\<rparr>"
  have sp: "check_wheel_spec (awl_spec a) = Inr 3600000000000" "awst_time_slice (awl_status a) = ''''"
    "aww_start_slice (awl_spec a) = None" "contains_finalizer wheel_finalizer_name (awl_meta a)" "\<not> km_deleting (awl_meta a)"
    using demo_spec demo_facts by (simp_all add: a_def demo_wheel_def Let_def)
  obtain st where st: "initial_state '''' 3600000000000 0 = Inr st" by (simp add: initial_state_def)
  define b where "b = set_wheel_status (\<lambda>s. (apply_state s st (aww_contexts (awl_spec a) ! nat (sint (ws_index st))))
    \<lparr>awst_phase := ''Rotating''\<rparr>) a"
  have "reconcile_wheel ''/d'' (''ns'', ''w'') kb no_world
      = ((no_requeue, Some (io_err ''refused'')), kb\<lparr>kb_tick := 2, kb_log := [UpdateWheelStatus b]\<rparr>, tick no_world)"
    by (simp add: reconcile_wheel_def kube_get_def reconcile_found_def sp start_wheel_def state_from_status_def Let_def
        time_now_def no_world_def st kube_put_def b_def [symmetric] kb_def demo_server_def empty_kube_def)
  then have "wheel_step ''/d'' (''ns'', ''w'') a b" 
    by (rule wheel_stepI [rotated 2]) (simp_all add: kb_def demo_server_def empty_kube_def)
  moreover have "\<not> unstarted b" "awl_spec b = awl_spec demo_wheel"
    by (simp_all add: b_def unstarted_def apply_state_def a_def)
  ultimately show ?thesis unfolding a_def by blast
qed

lemma wheel_keeps_course_witness:
  "\<exists>b. wheel_reach ''/d'' (''ns'', ''w'') b \<and> \<not> unstarted b \<and> on_course 3600000000000 b"
proof -
  obtain b where b: "wheel_step ''/d'' (''ns'', ''w'') (demo_wheel\<lparr>awl_meta := awl_meta demo_turning\<rparr>) b"
    "\<not> unstarted b" "awl_spec b = awl_spec demo_wheel" using demo_first_step by blast
  have "wheel_reach ''/d'' (''ns'', ''w'') (demo_wheel\<lparr>awl_meta := awl_meta demo_turning\<rparr>)"
    by (rule created) (simp_all add: unstarted_def demo_wheel_def Let_def)
  then have r: "wheel_reach ''/d'' (''ns'', ''w'') b" using b(1) by (rule reconciled)
  show ?thesis using wheel_keeps_course [OF r, of 3600000000000] b demo_spec demo_facts r by fastforce
qed


end
