(* ===== verification/Convert.thy ===== *)
theory Convert
  imports ChainBuild Snapshot GoTime
begin

text \<open>
  From custom resources to the engine's types and back (\<open>pkg/convert\<close>,
  \<open>pkg/dominochain/convert.go\<close>).  A definition that asks the API server takes and returns the
  \<open>kube\<close> record, one that reads a snapshot source the \<open>world\<close>.  \<open>None\<close> for the metadata of a
  nil label map is not told apart from an empty one.
\<close>

section \<open>Field by field\<close>

definition to_snapshot_source :: "api_source \<Rightarrow> snap_source" where
  "to_snapshot_source s = \<lparr>src_inline = as_inline s, src_path = as_path s, src_uri = as_uri s\<rparr>"

definition to_domino_inputs :: "api_dom_input list \<Rightarrow> dom_input list" where
  "to_domino_inputs inputs =
     map (\<lambda>i. \<lparr>di_from_domino = adi_from_domino i, di_from_snapshot = adi_from_snapshot i\<rparr>) inputs"

text \<open>The snapshot package reads the API spec through the engine's record.\<close>

definition engine_snap_spec :: "api_snap_spec \<Rightarrow> snap_spec" where
  "engine_snap_spec s =
     \<lparr>ss_time_slice = ass_time_slice s, ss_source = to_snapshot_source (ass_source s),
      ss_context_ref = ass_context_ref s, ss_sealed = ass_sealed s\<rparr>"

definition to_cr_snapshot_spec :: "snapshot \<Rightarrow> api_snap_spec" where
  "to_cr_snapshot_spec s =
     \<lparr>ass_time_slice = ss_time_slice (sn_spec s),
      ass_source = \<lparr>as_inline = src_inline (ss_source (sn_spec s)), as_path = src_path (ss_source (sn_spec s)),
        as_uri = src_uri (ss_source (sn_spec s))\<rparr>,
      ass_context_ref = ss_context_ref (sn_spec s), ass_sealed = ss_sealed (sn_spec s)\<rparr>"

definition named :: "string \<Rightarrow> objmeta" where
  "named name = \<lparr>m_name = name, m_labels = []\<rparr>"

definition to_engine_snapshot :: "api_snapshot \<Rightarrow> snapshot" where
  "to_engine_snapshot snap =
     \<lparr>sn_api_version = ''kbl.io/v1alpha1'', sn_kind = ''Snapshot'', sn_meta = named (km_name (asn_meta snap)),
      sn_spec = \<lparr>ss_time_slice = ass_time_slice (asn_spec snap),
        ss_source = to_snapshot_source (ass_source (asn_spec snap)),
        ss_context_ref = ass_context_ref (asn_spec snap), ss_sealed = ass_sealed (asn_spec snap)\<rparr>,
      sn_status = None\<rparr>"

definition to_engine_domino :: "api_domino \<Rightarrow> domino" where
  "to_engine_domino d =
     \<lparr>d_api_version = ''kbl.io/v1alpha1'', d_kind = ''Domino'', d_meta = named (km_name (adn_meta d)),
      d_spec = \<lparr>ds_snapshot_ref = adr_snapshot_ref (adn_spec d), ds_command = adr_command (adn_spec d),
        ds_depends_on = adr_depends_on (adn_spec d), ds_inputs = to_domino_inputs (adr_inputs (adn_spec d)),
        ds_image = adr_image (adn_spec d)\<rparr>,
      d_status = None\<rparr>"

text \<open>A domino of a workflow without a name takes the name the chain has at its index.\<close>

definition inline_domino :: "string list \<Rightarrow> nat \<Rightarrow> api_dom_spec \<Rightarrow> domino" where
  "inline_domino chain i d =
     (let name = (if ads_name d = '''' \<and> i < length chain then chain ! i else ads_name d)
      in \<lparr>d_api_version = ''kbl.io/v1alpha1'', d_kind = ''Domino'', d_meta = named name,
          d_spec = \<lparr>ds_snapshot_ref = ads_snapshot_ref d, ds_command = ads_command d,
            ds_depends_on = ads_depends_on d, ds_inputs = to_domino_inputs (ads_inputs d), ds_image = ads_image d\<rparr>,
          d_status = None\<rparr>)"

definition inline_dominos :: "api_wf_spec \<Rightarrow> domino list" where
  "inline_dominos sp = map (\<lambda>(i, d). inline_domino (ae_chain (aws_execution sp)) i d) (enumerate 0 (aws_dominos sp))"

definition inline_snapshot_name :: "api_workflow \<Rightarrow> string" where
  "inline_snapshot_name k =
     (case aws_dominos (awf_spec k) of
        d # _ \<Rightarrow> if ads_snapshot_ref d \<noteq> '''' then ads_snapshot_ref d else km_name (awf_meta k) @ ''-snapshot''
      | [] \<Rightarrow> km_name (awf_meta k) @ ''-snapshot'')"

definition engine_provisioning :: "api_provisioning \<Rightarrow> prov_config" where
  "engine_provisioning p = \<lparr>pv_store_path = ap_store_path p, pv_node_local = ap_node_local p,
     pv_net_none = ap_net_none p, pv_ro_root = ap_ro_root p\<rparr>"

definition engine_routing :: "api_routing \<Rightarrow> routing_config" where
  "engine_routing r = \<lparr>rt_universe = ar_universe r, rt_context_ref = ar_context_ref r\<rparr>"

definition engine_workflow :: "api_workflow \<Rightarrow> snapshot \<Rightarrow> domino list \<Rightarrow> string list \<Rightarrow> workflow" where
  "engine_workflow k snap dominos chain =
     \<lparr>wf_api_version = ''kbl.io/v1alpha1'', wf_kind = ''Workflow'',
      wf_meta = \<lparr>m_name = km_name (awf_meta k), m_labels = km_labels (awf_meta k)\<rparr>,
      wf_spec = \<lparr>ws_snapshot = snap, ws_dominos = dominos,
        ws_execution = \<lparr>ex_chain = chain, ex_deterministic = ae_deterministic (aws_execution (awf_spec k))\<rparr>,
        ws_provisioning = engine_provisioning (aws_provisioning (awf_spec k)),
        ws_routing = engine_routing (aws_routing (awf_spec k))\<rparr>\<rparr>"

definition to_engine_workflow :: "api_workflow \<Rightarrow> workflow" where
  "to_engine_workflow k =
     engine_workflow k
       \<lparr>sn_api_version = ''kbl.io/v1alpha1'', sn_kind = ''Snapshot'', sn_meta = named (inline_snapshot_name k),
        sn_spec = engine_snap_spec (aws_snapshot (awf_spec k)), sn_status = None\<rparr>
       (inline_dominos (awf_spec k)) (ae_chain (aws_execution (awf_spec k)))"

section \<open>Resolving references\<close>

definition referenced_snapshot :: "api_snapshot \<Rightarrow> snapshot res" where
  "referenced_snapshot snap =
     (if \<not> ass_sealed (asn_spec snap)
      then Inl (errorf (''snapshot '' @ quote (km_name (asn_meta snap)) @ '' is not sealed''))
      else if ast_phase (asn_status snap) \<noteq> ''Sealed'' \<or> ast_snapshot_id (asn_status snap) = ''''
      then Inl (errorf (''snapshot '' @ quote (km_name (asn_meta snap)) @ '' is not ready (phase=''
        @ ast_phase (asn_status snap) @ '')''))
      else Inr ((to_engine_snapshot snap)\<lparr>sn_status := Some
        \<lparr>sst_phase = ast_phase (asn_status snap), sst_id = ast_snapshot_id (asn_status snap),
         sst_sealed_at = (case ast_sealed_at (asn_status snap) of None \<Rightarrow> '''' | Some t \<Rightarrow> format_rfc3339 t)\<rparr>\<rparr>))"

definition resolve_snapshot :: "api_workflow \<Rightarrow> kube \<Rightarrow> world \<Rightarrow> snapshot res \<times> kube \<times> world" where
  "resolve_snapshot k kb w =
     (let ref = aws_snapshot_ref (awf_spec k); spec = aws_snapshot (awf_spec k)
      in if ref \<noteq> '''' then
           (case kube_get kb_snapshot (km_namespace (awf_meta k), ref) kb of
              (Inl e, kb1) \<Rightarrow> (Inl (wrapf (''snapshot ref '' @ quote ref) e), kb1, w)
            | (Inr snap, kb1) \<Rightarrow> (referenced_snapshot snap, kb1, w))
         else (case validate (engine_snap_spec spec) of
             Inl e \<Rightarrow> (Inl (wrapf ''inline snapshot'' e), kb, w)
           | Inr _ \<Rightarrow>
               if \<not> ass_sealed spec then (Inl (errorf ''inline snapshot is not sealed''), kb, w)
               else (case compute_id (engine_snap_spec spec) w of
                   (Inl e, w1) \<Rightarrow> (Inl e, kb, w1)
                 | (Inr i, w1) \<Rightarrow>
                     (Inr \<lparr>sn_api_version = ''kbl.io/v1alpha1'', sn_kind = ''Snapshot'',
                        sn_meta = named (inline_snapshot_name k), sn_spec = engine_snap_spec spec,
                        sn_status = Some \<lparr>sst_phase = '''', sst_id = i, sst_sealed_at = ''''\<rparr>\<rparr>, kb, w1))))"

fun referenced_dominos :: "string \<Rightarrow> string \<Rightarrow> string list \<Rightarrow> domino list \<Rightarrow> kube \<Rightarrow> domino list res \<times> kube" where
  "referenced_dominos ns snapRef [] dominos kb = (Inr dominos, kb)"
| "referenced_dominos ns snapRef (name # names) dominos kb =
     (case kube_get kb_domino (ns, name) kb of
        (Inl e, kb1) \<Rightarrow> (Inl (wrapf (''domino ref '' @ quote name) e), kb1)
      | (Inr d, kb1) \<Rightarrow>
          if snapRef \<noteq> '''' \<and> adr_snapshot_ref (adn_spec d) \<noteq> snapRef
          then (Inl (errorf (''domino '' @ quote name @ '' references snapshot '' @ quote (adr_snapshot_ref (adn_spec d))
                 @ '', workflow expects '' @ quote snapRef)), kb1)
          else referenced_dominos ns snapRef names (dominos @ [to_engine_domino d]) kb1)"

definition resolve_dominos :: "api_workflow \<Rightarrow> kube \<Rightarrow> (domino list \<times> string list) res \<times> kube" where
  "resolve_dominos k kb =
     (let sp = awf_spec k; refs = aws_domino_refs sp
      in if 0 < length refs then
           (case referenced_dominos (km_namespace (awf_meta k)) (aws_snapshot_ref sp) refs [] kb of
              (Inl e, kb1) \<Rightarrow> (Inl e, kb1)
            | (Inr ds, kb1) \<Rightarrow> (Inr (ds, refs), kb1))
         else if aws_dominos sp = [] then (Inl (errorf ''dominos or dominoRefs is required''), kb)
         else (Inr (inline_dominos sp, ae_chain (aws_execution sp)), kb))"

definition resolve_engine_workflow :: "api_workflow \<Rightarrow> kube \<Rightarrow> world \<Rightarrow> workflow res \<times> kube \<times> world" where
  "resolve_engine_workflow k kb w =
     (case resolve_snapshot k kb w of
        (Inl e, kb1, w1) \<Rightarrow> (Inl e, kb1, w1)
      | (Inr snap, kb1, w1) \<Rightarrow>
      (case resolve_dominos k kb1 of
        (Inl e, kb2) \<Rightarrow> (Inl e, kb2, w1)
      | (Inr (dominos, chain), kb2) \<Rightarrow>
          let execChain = (if ae_chain (aws_execution (awf_spec k)) = [] then chain
                           else ae_chain (aws_execution (awf_spec k)))
          in if execChain = [] then (Inl (errorf ''execution chain is empty''), kb2, w1)
             else (Inr (engine_workflow k snap dominos execChain), kb2, w1)))"

section \<open>Domino chains\<close>

definition no_chain_status :: api_chain_status where
  "no_chain_status = \<lparr>dct_phase = '''', dct_active_step = 0, dct_pod_name = '''', dct_snapshot_id = '''',
     dct_final_output_hash = '''', dct_step_results = [], dct_message = '''', dct_conditions = []\<rparr>"

definition from_engine_workflow :: "workflow \<Rightarrow> api_workflow \<Rightarrow> string \<Rightarrow> api_chain" where
  "from_engine_workflow e k storePath =
     \<lparr>dch_meta = new_meta '''' '''' [],
      dch_spec = \<lparr>dcs_snapshot = to_cr_snapshot_spec (ws_snapshot (wf_spec e)),
        dcs_steps = map (\<lambda>d. \<lparr>dst_name = d_name d, dst_image = ds_image (d_spec d),
          dst_command = ds_command (d_spec d), dst_args = []\<rparr>) (ws_dominos (wf_spec e)),
        dcs_runtime = (if ae_runtime (aws_execution (awf_spec k)) = '''' then ''kubernetes-init''
          else ae_runtime (aws_execution (awf_spec k))),
        dcs_store_path = storePath, dcs_runner_image = ap_runner_image (aws_provisioning (awf_spec k)),
        dcs_node_selector = ap_node_selector (aws_provisioning (awf_spec k)),
        dcs_volcano_queue = ae_volcano_queue (aws_execution (awf_spec k))\<rparr>,
      dch_status = no_chain_status\<rparr>"

definition from_workflow :: "api_workflow \<Rightarrow> string \<Rightarrow> kube \<Rightarrow> world \<Rightarrow> api_chain res \<times> kube \<times> world" where
  "from_workflow k storePath kb w =
     (case resolve_engine_workflow k kb w of
        (Inl e, kb1, w1) \<Rightarrow> (Inl e, kb1, w1)
      | (Inr e, kb1, w1) \<Rightarrow> (Inr (from_engine_workflow e k storePath), kb1, w1))"

definition snapshot_json :: "api_snap_spec \<Rightarrow> world \<Rightarrow> string res \<times> world" where
  "snapshot_json snap w =
     (case resolve_content (engine_snap_spec snap) w of
        (Inl e, w1) \<Rightarrow> (Inl e, w1)
      | (Inr content, w1) \<Rightarrow> (json_marshal content, w1))"

fun any_ref_has_image :: "string \<Rightarrow> string list \<Rightarrow> kube \<Rightarrow> bool \<times> kube" where
  "any_ref_has_image ns [] kb = (False, kb)"
| "any_ref_has_image ns (name # names) kb =
     (case kube_get kb_domino (ns, name) kb of
        (Inr d, kb1) \<Rightarrow> if adr_image (adn_spec d) \<noteq> '''' then (True, kb1) else any_ref_has_image ns names kb1
      | (Inl _, kb1) \<Rightarrow> any_ref_has_image ns names kb1)"

definition needs_container_runtime :: "api_workflow \<Rightarrow> kube \<Rightarrow> bool \<times> kube" where
  "needs_container_runtime k kb =
     (let sp = awf_spec k; rt = ae_runtime (aws_execution sp)
      in if rt \<noteq> '''' \<and> rt \<noteq> ''local'' then (True, kb)
         else if list_ex (\<lambda>d. ads_image d \<noteq> '''') (aws_dominos sp) then (True, kb)
         else any_ref_has_image (km_namespace (awf_meta k)) (aws_domino_refs sp) kb)"


section \<open>What a resolved workflow is\<close>

text \<open>
  A workflow the engine can start on: a sealed snapshot with an identity, at least one
  domino and a chain.
\<close>

definition ready_workflow :: "workflow \<Rightarrow> bool" where
  "ready_workflow e \<longleftrightarrow> ss_sealed (sn_spec (ws_snapshot (wf_spec e)))
     \<and> (\<exists>st. sn_status (ws_snapshot (wf_spec e)) = Some st \<and> sst_id st \<noteq> '''')
     \<and> ws_dominos (wf_spec e) \<noteq> [] \<and> ex_chain (ws_execution (wf_spec e)) \<noteq> []"

lemma compute_id_not_Nil: "compute_id spec w = (Inr i, w1) \<Longrightarrow> i \<noteq> ''''"
  by (auto simp: compute_id_def split: sum.splits prod.splits dest!: seal_payload_id snapshot_id_not_Nil)

lemma resolve_snapshot_ready:
  assumes "resolve_snapshot k kb w = (Inr s, kb1, w1)"
  shows "ss_sealed (sn_spec s) \<and> (\<exists>st. sn_status s = Some st \<and> sst_id st \<noteq> '''')"
  using assms by (auto simp: resolve_snapshot_def referenced_snapshot_def to_engine_snapshot_def engine_snap_spec_def Let_def
      split: sum.splits prod.splits if_splits dest: compute_id_not_Nil)

lemma referenced_dominos_belong:
  assumes "referenced_dominos ns ref names ds kb = (Inr ds', kb1)"
  shows "\<exists>es. ds' = ds @ es \<and> length es = length names \<and> (ref \<noteq> '''' \<longrightarrow> (\<forall>d\<in>set es. ds_snapshot_ref (d_spec d) = ref))"
  using assms
proof (induction ns ref names ds kb arbitrary: ds' kb1 rule: referenced_dominos.induct)
  case (2 ns ref name names ds kb)
  then obtain d kb2 where d: "kube_get kb_domino (ns, name) kb = (Inr d, kb2)"
    "ref \<noteq> '''' \<longrightarrow> adr_snapshot_ref (adn_spec d) = ref"
    "referenced_dominos ns ref names (ds @ [to_engine_domino d]) kb2 = (Inr ds', kb1)"
    by (auto split: sum.splits prod.splits if_splits)
  obtain es where "ds' = (ds @ [to_engine_domino d]) @ es" "length es = length names"
    "ref \<noteq> '''' \<longrightarrow> (\<forall>d\<in>set es. ds_snapshot_ref (d_spec d) = ref)"
    using "2.IH" [OF d(1) [symmetric]] d by fastforce
  then show ?case using d(2) by (intro exI [of _ "to_engine_domino d # es"]) (auto simp: to_engine_domino_def)
qed simp

lemma referenced_dominos_silent: "referenced_dominos ns ref names ds kb = (r, kb1) \<Longrightarrow> runs no_writes kb kb1"
proof (induction ns ref names ds kb arbitrary: r rule: referenced_dominos.induct)
  case (2 ns ref name names ds kb)
  then show ?case by (auto split: prod.splits sum.splits if_splits dest: runs_get intro: runs_trans)
qed simp

lemma inline_dominos_Nil: "inline_dominos sp = [] \<longleftrightarrow> aws_dominos sp = []"
  by (cases "aws_dominos sp") (simp_all add: inline_dominos_def)

lemma resolve_dominos_ready:
  assumes "resolve_dominos k kb = (Inr (ds, chain), kb1)"
  shows "ds \<noteq> []" "aws_domino_refs (awf_spec k) \<noteq> [] \<Longrightarrow> aws_snapshot_ref (awf_spec k) \<noteq> '''' \<Longrightarrow>
    \<forall>d\<in>set ds. ds_snapshot_ref (d_spec d) = aws_snapshot_ref (awf_spec k)"
  using assms by (auto simp: resolve_dominos_def inline_dominos_Nil Let_def split: if_splits sum.splits prod.splits
      dest!: referenced_dominos_belong)

lemma resolve_snapshot_silent: "resolve_snapshot k kb w = (r, kb1, w1) \<Longrightarrow> runs no_writes kb kb1"
  by (auto simp: resolve_snapshot_def Let_def split: sum.splits prod.splits if_splits dest: runs_get)

lemma resolve_dominos_silent: "resolve_dominos k kb = (r, kb1) \<Longrightarrow> runs no_writes kb kb1"
  by (auto simp: resolve_dominos_def Let_def split: sum.splits prod.splits if_splits dest: referenced_dominos_silent)

lemma resolve_engine_workflow_cases:
  assumes "resolve_engine_workflow k kb w = (Inr e, kb1, w1)"
  obtains s kb2 ds chain where "resolve_snapshot k kb w = (Inr s, kb2, w1)" "resolve_dominos k kb2 = (Inr (ds, chain), kb1)"
    "e = engine_workflow k s ds (if ae_chain (aws_execution (awf_spec k)) = [] then chain else ae_chain (aws_execution (awf_spec k)))"
    "(if ae_chain (aws_execution (awf_spec k)) = [] then chain else ae_chain (aws_execution (awf_spec k))) \<noteq> []"
  using assms by (auto simp: resolve_engine_workflow_def Let_def split: sum.splits prod.splits if_splits)

lemma resolve_engine_workflow_silent:
  assumes "resolve_engine_workflow k kb w = (r, kb1, w1)" shows "runs no_writes kb kb1"
proof -
  obtain s kb2 w2 where s: "resolve_snapshot k kb w = (s, kb2, w2)" using prod_cases3 by blast
  obtain d kb3 where d: "resolve_dominos k kb2 = (d, kb3)" by fastforce
  have "kb1 = kb2 \<or> kb1 = kb3" using assms
    by (auto simp: resolve_engine_workflow_def s d Let_def split: sum.splits if_splits)
  then show ?thesis using resolve_snapshot_silent [OF s] resolve_dominos_silent [OF d] runs_trans by metis
qed


text \<open>
  On a workflow whose parts are all inline, resolving through the API server agrees with the
  direct conversion, except that the snapshot carries the identity \<open>ComputeID\<close> gives its content;
  the server is not asked.
\<close>

theorem inline_workflow_converted:
  assumes "aws_snapshot_ref (awf_spec k) = ''''" "aws_domino_refs (awf_spec k) = []"
    and r: "resolve_engine_workflow k kb w = (Inr e, kb1, w1)"
  shows "kb1 = kb \<and> (\<exists>i. compute_id (engine_snap_spec (aws_snapshot (awf_spec k))) w = (Inr i, w1)
    \<and> e = (to_engine_workflow k)\<lparr>wf_spec := (wf_spec (to_engine_workflow k))
        \<lparr>ws_snapshot := (ws_snapshot (wf_spec (to_engine_workflow k)))
          \<lparr>sn_status := Some \<lparr>sst_phase = '''', sst_id = i, sst_sealed_at = ''''\<rparr>\<rparr>\<rparr>\<rparr>)"
proof -
  obtain s kb2 ds chain where r: "resolve_snapshot k kb w = (Inr s, kb2, w1)" "resolve_dominos k kb2 = (Inr (ds, chain), kb1)"
    "e = engine_workflow k s ds (if ae_chain (aws_execution (awf_spec k)) = [] then chain else ae_chain (aws_execution (awf_spec k)))"
    by (rule resolve_engine_workflow_cases [OF r])
  have d: "kb1 = kb2" "ds = inline_dominos (awf_spec k)" "chain = ae_chain (aws_execution (awf_spec k))"
    using r(2) assms(2) by (auto simp: resolve_dominos_def Let_def split: if_splits)
  obtain i where "kb2 = kb" "compute_id (engine_snap_spec (aws_snapshot (awf_spec k))) w = (Inr i, w1)"
    "s = \<lparr>sn_api_version = ''kbl.io/v1alpha1'', sn_kind = ''Snapshot'', sn_meta = named (inline_snapshot_name k),
        sn_spec = engine_snap_spec (aws_snapshot (awf_spec k)),
        sn_status = Some \<lparr>sst_phase = '''', sst_id = i, sst_sealed_at = ''''\<rparr>\<rparr>"
    using r(1) assms(1) by (auto simp: resolve_snapshot_def Let_def split: sum.splits prod.splits if_splits)
  then show ?thesis using r(3) d by (simp add: to_engine_workflow_def engine_workflow_def)
qed

text \<open>A workflow that refers to a sealed snapshot and to a domino of it.\<close>

definition refs_workflow :: api_workflow where
  "refs_workflow = (let k = plain_workflow ''k'' [] []
     in k\<lparr>awf_spec := (awf_spec k)\<lparr>aws_snapshot_ref := ''s'', aws_domino_refs := [''load'']\<rparr>\<rparr>)"

definition refs_server :: kube where
  "refs_server = empty_kube
     \<lparr>kb_snapshot := \<lambda>_ _. Inr \<lparr>asn_meta = new_meta ''s'' ''ns'' [], asn_spec = empty_snap_spec\<lparr>ass_sealed := True\<rparr>,
        asn_status = \<lparr>ast_observed_generation = 0, ast_phase = ''Sealed'', ast_snapshot_id = ''id'', ast_sealed_at = None,
          ast_message = '''', ast_conditions = []\<rparr>\<rparr>,
      kb_domino := \<lambda>_ _. Inr \<lparr>adn_meta = new_meta ''load'' ''ns'' [],
        adn_spec = \<lparr>adr_snapshot_ref = ''s'', adr_command = ''builtin:identity'', adr_depends_on = [], adr_inputs = [],
          adr_image = '''', adr_store_path = ''''\<rparr>,
        adn_status = \<lparr>adt_observed_generation = 0, adt_phase = '''', adt_input_hash = '''', adt_output_hash = '''', adt_reused = False,
          adt_completed_at = None, adt_message = '''', adt_prev_link = '''', adt_head_link = '''', adt_conditions = []\<rparr>\<rparr>\<rparr>"


definition inline_workflow :: "api_dom_spec list \<Rightarrow> string list \<Rightarrow> api_workflow" where
  "inline_workflow dominos chain = (let k = plain_workflow ''k'' dominos chain
     in k\<lparr>awf_spec := (awf_spec k)\<lparr>aws_snapshot := empty_snap_spec
       \<lparr>ass_time_slice := ''t'', ass_source := empty_source\<lparr>as_inline := Some []\<rparr>, ass_sealed := True\<rparr>\<rparr>\<rparr>)"

lemma inline_workflow_resolves:
  assumes "dominos \<noteq> []" "chain \<noteq> []"
  shows "\<exists>e. resolve_engine_workflow (inline_workflow dominos chain) kb w = (Inr e, kb, w)
    \<and> ws_dominos (wf_spec e) = inline_dominos (awf_spec (inline_workflow dominos chain))"
proof -
  have s: "engine_snap_spec (aws_snapshot (awf_spec (inline_workflow dominos chain))) = \<lparr>ss_time_slice = ''t'',
      ss_source = \<lparr>src_inline = Some [], src_path = '''', src_uri = ''''\<rparr>, ss_context_ref = '''', ss_sealed = True\<rparr>"
    by (simp add: engine_snap_spec_def to_snapshot_source_def inline_workflow_def Let_def empty_snap_spec_def empty_source_def)
  have "\<exists>i. snapshot_id ''t'' (GMap []) = Inr i"
    by (simp add: snapshot_id_def id_payload_def compute_def json_marshal_def json_string_def
        json_esc.simps sort_key_def)
  then obtain i where i: "snapshot_id ''t'' (GMap []) = Inr i" by blast
  have m: "\<exists>raw. json_marshal (GMap []) = Inr raw" by (simp add: json_marshal_def)
  have "\<exists>i. compute_id (engine_snap_spec (aws_snapshot (awf_spec (inline_workflow dominos chain)))) w = (Inr i, w)"
    using i m by (auto simp: s compute_id_def seal_payload_def validate_def seal_content_def resolve_content_def Let_def)
  moreover have "validate (engine_snap_spec (aws_snapshot (awf_spec (inline_workflow dominos chain)))) = Inr ()" by (simp add: s validate_def)
  ultimately show ?thesis
    using assms by (auto simp: resolve_engine_workflow_def resolve_snapshot_def resolve_dominos_def Let_def inline_workflow_def
        plain_workflow_def engine_workflow_def)
qed

lemma inline_workflow_converted_witness:
  "\<exists>e i. resolve_engine_workflow (inline_workflow [plain_dom_spec '''' ''builtin:identity''] [''load'']) empty_kube no_world
      = (Inr e, empty_kube, no_world)
    \<and> sn_status (ws_snapshot (wf_spec e)) = Some \<lparr>sst_phase = '''', sst_id = i, sst_sealed_at = ''''\<rparr>
    \<and> map d_name (ws_dominos (wf_spec e)) = [''load'']"
proof -
  let ?k = "inline_workflow [plain_dom_spec '''' ''builtin:identity''] [''load'']"
  obtain e where r: "resolve_engine_workflow ?k empty_kube no_world = (Inr e, empty_kube, no_world)"
    using inline_workflow_resolves by blast
  have k: "aws_snapshot_ref (awf_spec ?k) = ''''" "aws_domino_refs (awf_spec ?k) = []"
    "map d_name (ws_dominos (wf_spec (to_engine_workflow ?k))) = [''load'']"
    by (simp_all add: inline_workflow_def Let_def plain_workflow_def to_engine_workflow_def engine_workflow_def inline_dominos_def
        inline_domino_def plain_dom_spec_def  named_def)
  from inline_workflow_converted [OF k(1,2) r] r k(3) show ?thesis by fastforce
qed

text \<open>The steps of the chain object follow the dominos, whatever the execution chain says.\<close>

lemma chain_object_ignores_execution_chain:
  "\<exists>k c. ae_chain (aws_execution (awf_spec k)) = [''b'', ''a''] \<and> map dst_name (dcs_steps (dch_spec c)) = [''a'', ''b'']
    \<and> from_workflow k '''' empty_kube no_world = (Inr c, empty_kube, no_world)"
proof -
  let ?ds = "[plain_dom_spec ''a'' ''builtin:identity'', plain_dom_spec ''b'' ''builtin:identity'']"
  let ?k = "inline_workflow ?ds [''b'', ''a'']"
  obtain e where r: "resolve_engine_workflow ?k empty_kube no_world = (Inr e, empty_kube, no_world)"
    "ws_dominos (wf_spec e) = inline_dominos (awf_spec ?k)"
    using inline_workflow_resolves [of ?ds "[''b'', ''a'']"] by blast
  have "map dst_name (dcs_steps (dch_spec (from_engine_workflow e ?k ''''))) = [''a'', ''b'']"
    by (simp add: from_engine_workflow_def r(2) inline_workflow_def Let_def plain_workflow_def inline_dominos_def
        inline_domino_def plain_dom_spec_def  named_def)
  moreover have "ae_chain (aws_execution (awf_spec ?k)) = [''b'', ''a'']"
    by (simp add: inline_workflow_def Let_def plain_workflow_def)
  moreover have "from_workflow ?k '''' empty_kube no_world = (Inr (from_engine_workflow e ?k ''''), empty_kube, no_world)"
    by (simp add: from_workflow_def r)
  ultimately show ?thesis by (intro exI conjI)
qed


end
