(* ===== verification/Resolve.thy ===== *)
theory Resolve
  imports Api Backend Wheel
begin

text \<open>
  Which store a resource works on (\<open>pkg/store/resolve.go\<close>): from the provisioning of a
  workflow, chain, snapshot or domino, and from the compute context it refers to.  The
  Kubernetes client is the function that reads a compute context, absent when nil; the
  result names the constructor called and its argument, or the error.
\<close>

section \<open>Resolving\<close>

definition default_tsdb_endpoint :: string where
  "default_tsdb_endpoint = ''http://127.0.0.1:9090''"

record resolve_config =
  rc_store_path :: string
  rc_store_type :: store_type
  rc_endpoint :: string
  rc_context_ref :: string
  rc_namespace :: string
  rc_store_root :: string

text \<open>Store type, endpoint and path after the compute context had its say.\<close>

definition context_override ::
  "(string \<Rightarrow> api_context res) option \<Rightarrow> resolve_config \<Rightarrow> store_type \<times> string \<times> string" where
  "context_override cl cfg =
     (let own = (rc_store_type cfg, rc_endpoint cfg, rc_store_path cfg)
      in case cl of
           None \<Rightarrow> own
         | Some get \<Rightarrow>
             if rc_context_ref cfg = '''' then own
             else (case get (rc_context_ref cfg) of
                 Inl _ \<Rightarrow> own
               | Inr c \<Rightarrow>
                   if acs_store_type (acx_spec c) = ''tsdb'' then
                     (TypeTSDB,
                      if acs_store_endpoint (acx_spec c) \<noteq> '''' then acs_store_endpoint (acx_spec c)
                      else if act_store_endpoint (acx_status c) \<noteq> '''' then act_store_endpoint (acx_status c)
                      else default_tsdb_endpoint,
                      rc_store_path cfg)
                   else if acs_store_path (acx_spec c) \<noteq> ''''
                   then (rc_store_type cfg, rc_endpoint cfg, acs_store_path (acx_spec c))
                   else own))"

definition open_resolved :: "(string \<Rightarrow> api_context res) option \<Rightarrow> resolve_config \<Rightarrow> opener res" where
  "open_resolved cl cfg =
     (case context_override cl cfg of (storeType, endpoint, path) \<Rightarrow>
        if storeType = TypeTSDB then
          open_backend \<lparr>sc_type = TypeTSDB, sc_path = '''',
            sc_endpoint = (if endpoint = '''' then default_tsdb_endpoint else endpoint)\<rparr>
        else if storeType = TypePostgres then
          open_backend \<lparr>sc_type = TypePostgres, sc_path = path, sc_endpoint = ''''\<rparr>
        else
          let root = (if rc_store_root cfg = '''' then ''/var/kbl/store'' else rc_store_root cfg);
              path = (if path = '''' then path_join [root, rc_namespace cfg, ''default.db''] else path)
          in if is_postgres_dsn path
             then open_backend \<lparr>sc_type = TypePostgres, sc_path = path, sc_endpoint = ''''\<rparr>
             else open_backend \<lparr>sc_type = TypeSQLite, sc_path = path, sc_endpoint = ''''\<rparr>)"

definition is_tsdb_path :: "string \<Rightarrow> bool" where
  "is_tsdb_path p = (has_prefix p ''http://'' \<or> has_prefix p ''https://'')"

section \<open>Workflows, chains, snapshots and dominos\<close>

definition config_from_workflow :: "api_workflow \<Rightarrow> string \<Rightarrow> resolve_config" where
  "config_from_workflow k storeRoot =
     (let p = ap_store_path (aws_provisioning (awf_spec k));
          (ty, ep, path) = (if p \<noteq> '''' \<and> is_tsdb_path p then (TypeTSDB, p, '''') else (TypeSQLite, '''', p));
          (ty, path) = (if p \<noteq> '''' \<and> is_postgres_dsn p then (TypePostgres, p) else (ty, path))
      in \<lparr>rc_store_path = path, rc_store_type = ty, rc_endpoint = ep,
          rc_context_ref = ar_context_ref (aws_routing (awf_spec k)),
          rc_namespace = km_namespace (awf_meta k), rc_store_root = storeRoot\<rparr>)"

definition config_from_chain :: "api_chain \<Rightarrow> string \<Rightarrow> resolve_config" where
  "config_from_chain ch storeRoot =
     (let p = dcs_store_path (dch_spec ch);
          (ty, ep, path) = (if is_tsdb_path p then (TypeTSDB, p, '''') else (TypeSQLite, '''', p));
          ty = (if is_postgres_dsn path then TypePostgres else ty)
      in \<lparr>rc_store_path = path, rc_store_type = ty, rc_endpoint = ep, rc_context_ref = '''',
          rc_namespace = km_namespace (dch_meta ch), rc_store_root = storeRoot\<rparr>)"

definition wrap_open :: "opener res \<Rightarrow> opener res" where
  "wrap_open r = (case r of Inl e \<Rightarrow> Inl (wrapf ''open store'' e) | Inr b \<Rightarrow> Inr b)"

definition open_for_chain :: "(string \<Rightarrow> api_context res) option \<Rightarrow> api_chain \<Rightarrow> string \<Rightarrow> opener res" where
  "open_for_chain cl ch storeRoot =
     (let cfg = config_from_chain ch storeRoot;
          cfg = (if rc_store_path cfg = '''' \<and> rc_store_type cfg \<noteq> TypeTSDB \<and> rc_store_type cfg \<noteq> TypePostgres
                 then cfg\<lparr>rc_store_path := path_join [storeRoot, km_namespace (dch_meta ch), km_name (dch_meta ch) @ ''.db'']\<rparr>
                 else cfg)
      in wrap_open (open_resolved cl cfg))"

definition open_for_workflow :: "(string \<Rightarrow> api_context res) option \<Rightarrow> api_workflow \<Rightarrow> string \<Rightarrow> opener res" where
  "open_for_workflow cl k storeRoot =
     (let cfg = config_from_workflow k storeRoot;
          p = ap_store_path (aws_provisioning (awf_spec k));
          cfg = (if rc_store_path cfg = '''' \<and> rc_store_type cfg \<noteq> TypeTSDB \<and> rc_store_type cfg \<noteq> TypePostgres
                 then (if p \<noteq> '''' \<and> \<not> is_tsdb_path p then cfg\<lparr>rc_store_path := p\<rparr>
                       else cfg\<lparr>rc_store_path := path_join [storeRoot, km_namespace (awf_meta k), km_name (awf_meta k) @ ''.db'']\<rparr>)
                 else cfg)
      in wrap_open (open_resolved cl cfg))"

definition config_from_snapshot :: "api_snapshot \<Rightarrow> string \<Rightarrow> resolve_config" where
  "config_from_snapshot sn storeRoot =
     \<lparr>rc_store_path = '''', rc_store_type = TypeOther '''', rc_endpoint = '''',
      rc_context_ref = ass_context_ref (asn_spec sn), rc_namespace = km_namespace (asn_meta sn),
      rc_store_root = storeRoot\<rparr>"

definition open_for_snapshot :: "(string \<Rightarrow> api_context res) option \<Rightarrow> api_snapshot \<Rightarrow> string \<Rightarrow> opener res" where
  "open_for_snapshot cl sn storeRoot =
     (let cfg = config_from_snapshot sn storeRoot;
          cfg = (if rc_store_path cfg = ''''
                 then cfg\<lparr>rc_store_path := path_join [storeRoot, km_namespace (asn_meta sn), km_name (asn_meta sn) @ ''.db'']\<rparr>
                 else cfg)
      in open_resolved cl cfg)"

definition open_for_domino ::
  "(string \<Rightarrow> api_context res) option \<Rightarrow> api_domino \<Rightarrow> api_snapshot option \<Rightarrow> string \<Rightarrow> opener res" where
  "open_for_domino cl d snap storeRoot =
     (let p = adr_store_path (adn_spec d)
      in if p \<noteq> '''' then
           if is_tsdb_path p then open_backend \<lparr>sc_type = TypeTSDB, sc_path = '''', sc_endpoint = p\<rparr>
           else if is_postgres_dsn p then open_backend \<lparr>sc_type = TypePostgres, sc_path = p, sc_endpoint = ''''\<rparr>
           else open_backend \<lparr>sc_type = TypeSQLite, sc_path = p, sc_endpoint = ''''\<rparr>
         else (case snap of
             Some sn \<Rightarrow> open_for_snapshot cl sn storeRoot
           | None \<Rightarrow>
               let root = (if storeRoot = '''' then ''/var/kbl/store'' else storeRoot)
               in open_backend \<lparr>sc_type = TypeSQLite,
                    sc_path = path_join [root, km_namespace (adn_meta d), adr_snapshot_ref (adn_spec d) @ ''.db''],
                    sc_endpoint = ''''\<rparr>))"


section \<open>Precedence\<close>

text \<open>
  A compute context of type tsdb decides the store: whatever store path the workflow was
  given, it opens the context's endpoint, the one in its status when the spec names none, and
  the default endpoint when neither does.
\<close>

theorem tsdb_context_decides:
  assumes "ar_context_ref (aws_routing (awf_spec k)) \<noteq> ''''"
    and "get (ar_context_ref (aws_routing (awf_spec k))) = Inr c" "acs_store_type (acx_spec c) = ''tsdb''"
  shows "open_for_workflow (Some get) k dir = Inr (OpenTSDBClient
    (if acs_store_endpoint (acx_spec c) \<noteq> '''' then acs_store_endpoint (acx_spec c)
     else if act_store_endpoint (acx_status c) \<noteq> '''' then act_store_endpoint (acx_status c)
     else ''http://127.0.0.1:9090''))"
  using assms by (simp add: open_for_workflow_def config_from_workflow_def Let_def open_resolved_def
      context_override_def open_backend_def wrap_open_def default_tsdb_endpoint_def split: prod.split)

lemma path_join_rooted:
  assumes "p \<noteq> ''''" "hd p = CHR ''/''" shows "\<exists>q. path_join (p # xs) = CHR ''/'' # q"
proof -
  obtain q where p: "p = CHR ''/'' # q" using assms by (cases p) auto
  obtain r where j: "join_with ''/'' (p # filter (\<lambda>x. x \<noteq> []) xs) = CHR ''/'' # r"
    by (cases "filter (\<lambda>x. x \<noteq> []) xs") (simp_all add: p)
  have "path_join (p # xs) = path_clean (join_with ''/'' (p # filter (\<lambda>x. x \<noteq> []) xs))"
    by (simp add: path_join_def assms(1))
  then show ?thesis unfolding j by (simp add: path_clean_def Let_def)
qed

text \<open>
  The store of a slot is lost on a context with a directory: the wheel gives every slot a
  database of its own below the context's store path, but opening the store of the built
  workflow takes the context's store path itself, the same file for every slot.
\<close>

theorem context_path_replaces_slot_path:
  assumes "build_workflow whl (Some c) st dir = Inr k"
    and "get (ar_context_ref (aws_routing (awf_spec k))) = Inr c" "ar_context_ref (aws_routing (awf_spec k)) \<noteq> ''''"
    and "acs_store_type (acx_spec c) \<noteq> ''tsdb''" "acs_store_path (acx_spec c) = p"
    and "p \<noteq> ''''" "\<not> is_postgres_dsn p" "hd p = CHR ''/''"
  shows "ap_store_path (aws_provisioning (awf_spec k))
      = path_join [p, km_name (awl_meta whl), format_time_slice (ws_slice st) @ ''.db'']
    \<and> open_for_workflow (Some get) k dir = Inr (OpenSQLite p)"
proof -
  have sp: "ap_store_path (aws_provisioning (awf_spec k))
      = path_join [p, km_name (awl_meta whl), format_time_slice (ws_slice st) @ ''.db'']"
    using assms(1,5,6) by (auto simp: build_workflow_def slot_provisioning_def Let_def split: if_split_asm)
  obtain q where q: "ap_store_path (aws_provisioning (awf_spec k)) = CHR ''/'' # q"
    using path_join_rooted [OF assms(6,8)] unfolding sp by blast
  have "open_for_workflow (Some get) k dir = Inr (OpenSQLite p)"
    using assms(2-7) by (simp add: open_for_workflow_def config_from_workflow_def Let_def open_resolved_def
        context_override_def open_backend_def wrap_open_def q is_tsdb_path_def is_postgres_dsn_def has_prefix_def)
  with sp show ?thesis by simp
qed

lemma context_path_replaces_slot_path_witness:
  "\<exists>c k1 k2. build_workflow demo_wheel (Some c) \<lparr>ws_slice = 0, ws_index = 0, ws_rotations = 0\<rparr> ''/d'' = Inr k1
     \<and> build_workflow demo_wheel (Some c) \<lparr>ws_slice = 3600000000000, ws_index = 0, ws_rotations = 1\<rparr> ''/d'' = Inr k2
     \<and> open_for_workflow (Some (\<lambda>_. Inr c)) k1 ''/d'' = Inr (OpenSQLite ''/data'')
     \<and> open_for_workflow (Some (\<lambda>_. Inr c)) k2 ''/d'' = Inr (OpenSQLite ''/data'')"
proof -
  define c where "c = \<lparr>acx_meta = new_meta ''a'' '''' [],
    acx_spec = \<lparr>acs_node_name = ''n'', acs_store_path = ''/data'', acs_store_type = '''', acs_store_endpoint = '''',
      acs_data_path = ''''\<rparr>,
    acx_status = \<lparr>act_phase = '''', act_store_endpoint = '''', act_snapshot_count = 0, act_cache_entries = 0,
      act_conditions = []\<rparr>\<rparr>"
  have b: "\<exists>k. build_workflow demo_wheel (Some c) \<lparr>ws_slice = t, ws_index = 0, ws_rotations = n\<rparr> ''/d'' = Inr k
      \<and> ar_context_ref (aws_routing (awf_spec k)) = ''a''" for t n
    by (simp add: build_workflow_def demo_wheel_def Let_def)
  have o: "open_for_workflow (Some (\<lambda>_. Inr c)) k ''/d'' = Inr (OpenSQLite ''/data'')"
    if "build_workflow demo_wheel (Some c) st ''/d'' = Inr k" "ar_context_ref (aws_routing (awf_spec k)) = ''a''" for k st
    using context_path_replaces_slot_path [OF that(1), where get = "\<lambda>_. Inr c"] that(2)
    by (simp add: c_def is_postgres_dsn_def has_prefix_def)
  show ?thesis using b [of 0 0] b [of 3600000000000 1] o by blast
qed

lemma tsdb_context_decides_witness:
  "\<exists>get k. open_for_workflow (Some get) k ''/d'' = Inr (OpenTSDBClient ''http://ts'')
    \<and> ap_store_path (aws_provisioning (awf_spec k)) = ''/own.db''"
proof -
  define c where "c = \<lparr>acx_meta = new_meta ''a'' '''' [],
    acx_spec = \<lparr>acs_node_name = ''n'', acs_store_path = '''', acs_store_type = ''tsdb'', acs_store_endpoint = '''',
      acs_data_path = ''''\<rparr>,
    acx_status = \<lparr>act_phase = '''', act_store_endpoint = ''http://ts'', act_snapshot_count = 0, act_cache_entries = 0,
      act_conditions = []\<rparr>\<rparr>"
  obtain k0 where k0: "build_workflow demo_wheel None zero_state ''/d'' = Inr k0"
    by (simp add: build_workflow_def demo_wheel_def zero_state_def Let_def)
  define k where "k = k0\<lparr>awf_spec := (awf_spec k0)\<lparr>
    aws_routing := (aws_routing (awf_spec k0))\<lparr>ar_context_ref := ''a''\<rparr>,
    aws_provisioning := (aws_provisioning (awf_spec k0))\<lparr>ap_store_path := ''/own.db''\<rparr>\<rparr>\<rparr>"
  have "open_for_workflow (Some (\<lambda>_. Inr c)) k ''/d'' = Inr (OpenTSDBClient ''http://ts'')"
    using tsdb_context_decides [of k "\<lambda>_. Inr c" c "''/d''"] by (simp add: k_def c_def)
  then show ?thesis by (intro exI [of _ "\<lambda>_. Inr c"] exI [of _ k]) (simp add: k_def)
qed


end
