(* ===== verification/JsonTrip.thy ===== *)
theory JsonTrip
  imports Json
begin

text \<open>
  JSON there and back.  What \<open>json.Unmarshal\<close> reads from a string, a boolean or an object
  written by \<open>json.Marshal\<close>: the value itself, with every byte of a string that is not part
  of a valid UTF-8 sequence replaced by U+FFFD.  The stores and the change-data-capture
  stream rest on these lemmas.
\<close>

section \<open>Strings\<close>

function sanitize :: "string \<Rightarrow> string" where
  "sanitize [] = []"
| "sanitize (c # s) =
     (if byte_in 0 127 c then c # sanitize s
      else let k = utf8_len (c # s) in
        if k = 0 then utf8_replacement @ sanitize s
        else take k (c # s) @ sanitize (drop (k - 1) s))"
  by pat_completeness auto
termination by (relation "measure length") auto

function valid_utf8 :: "string \<Rightarrow> bool" where
  "valid_utf8 [] = True"
| "valid_utf8 (c # s) =
     (if byte_in 0 127 c then valid_utf8 s
      else let k = utf8_len (c # s) in k \<noteq> 0 \<and> valid_utf8 (drop (k - 1) s))"
  by pat_completeness auto
termination by (relation "measure length") auto

declare sanitize.simps [simp del] valid_utf8.simps [simp del] json_esc.simps [simp del]
  json_str_body.simps [simp del]

lemma sanitize_valid: "valid_utf8 s \<Longrightarrow> sanitize s = s"
proof (induction s rule: valid_utf8.induct)
  case (2 c s)
  show ?case
  proof (cases "byte_in 0 127 c")
    case True
    with 2 show ?thesis by (simp add: sanitize.simps valid_utf8.simps)
  next
    case False
    with 2 show ?thesis
      by (auto simp: sanitize.simps valid_utf8.simps Let_def take_Cons' drop_Cons' split: if_splits)
  qed
qed (simp add: sanitize.simps)

lemma valid_utf8_ascii: "list_all (byte_in 0 127) s \<Longrightarrow> valid_utf8 s"
  by (induction s) (auto simp: valid_utf8.simps)

lemma sanitize_ascii: "list_all (byte_in 0 127) s \<Longrightarrow> sanitize s = s"
  by (simp add: sanitize_valid valid_utf8_ascii)

lemma utf8_len_le4: "utf8_len s \<le> 4"
  by (auto simp: utf8_len_def Let_def split: list.splits)

lemma utf8_len_le: "utf8_len s \<le> length s"
  by (auto simp: utf8_len_def Let_def split: list.splits if_splits)

text \<open>The length of a rune depends on its own bytes only.\<close>

lemma utf8_len_take:
  assumes "utf8_len s \<noteq> 0" shows "utf8_len (take (utf8_len s) s @ x) = utf8_len s"
proof -
  obtain a s1 where s: "s = a # s1" using assms by (cases s) (auto simp: utf8_len_def)
  have "utf8_len s = 1 \<or> utf8_len s = 2 \<or> utf8_len s = 3 \<or> utf8_len s = 4"
    using assms utf8_len_le4 [of s] by linarith
  then consider "utf8_len s = 1" | b s2 where "utf8_len s = 2" "s1 = b # s2"
    | b c s3 where "utf8_len s = 3" "s1 = b # c # s3"
    | b c d s4 where "utf8_len s = 4" "s1 = b # c # d # s4"
    using utf8_len_le [of s] s by (auto simp: numeral_eq_Suc Suc_le_length_iff)
  then show ?thesis
    by cases (auto simp: s utf8_len_def Let_def split: if_splits list.splits)
qed

lemma hex_val_digit: "n < 16 \<Longrightarrow> hex_val (hex_digit n) = Some n"
  by (auto simp: hex_val_def hex_digit_def Let_def)

lemma get_u4_00:
  "get_u4 (CHR 0x5C # ''u00'' @ hex_byte c @ r) = Some (of_char c, r)"
proof -
  have n: "of_char c < (256 :: nat)" by (rule of_char_lt)
  then have "(of_char c :: nat) div 16 < 16" by (simp add: less_mult_imp_div_less)
  then show ?thesis
    by (simp add: get_u4_def hex_byte_def hex_val_digit) (simp add: hex_val_def)
qed

lemma get_u4_concrete:
  "get_u4 (CHR 0x5C # ''ufffd'' @ r) = Some (65533, r)"
  "get_u4 (CHR 0x5C # ''u2028'' @ r) = Some (8232, r)"
  "get_u4 (CHR 0x5C # ''u2029'' @ r) = Some (8233, r)"
  by (simp_all add: get_u4_def hex_val_def)

lemma utf8_encode_concrete:
  "utf8_encode 65533 = utf8_replacement"
  "utf8_encode 8232 = [CHR 0xE2, CHR 0x80, CHR 0xA8]"
  "utf8_encode 8233 = [CHR 0xE2, CHR 0x80, CHR 0xA9]"
  by (simp_all add: utf8_encode_def utf8_replacement_def char_of_eq_iff take_bit_eq_mod)

lemma str_body_plain:
  assumes "byte_in 0 127 c" "\<not> byte_in 0 31 c" "c \<noteq> CHR 0x22" "c \<noteq> CHR 0x5C"
  shows "json_str_body (c # s) = map_option (\<lambda>(v, q). (c # v, q)) (json_str_body s)"
  using assms by (simp add: json_str_body.simps)

lemma str_body_unescape:
  assumes "unescape e = Some d"
  shows "json_str_body (CHR 0x5C # e # s) = map_option (\<lambda>(v, q). (d # v, q)) (json_str_body s)"
  using assms by (subst json_str_body.simps) (auto simp: byte_in_def unescape_def split: if_splits)

lemma str_body_u4:
  assumes "get_u4 (CHR 0x5C # CHR ''u'' # s) = Some (n, r)" "n < 55296 \<or> 57343 < n"
  shows "json_str_body (CHR 0x5C # CHR ''u'' # s) = map_option (\<lambda>(v, q). (utf8_encode n @ v, q)) (json_str_body r)"
  using assms get_u4_length [OF assms(1)]
  by (subst json_str_body.simps) (auto simp: byte_in_def u16_rune_def Let_def)

lemma str_body_rune:
  assumes "\<not> byte_in 0 127 c" "utf8_len (c # s) \<noteq> 0"
  shows "json_str_body (take (utf8_len (c # s)) (c # s) @ r)
    = map_option (\<lambda>(v, q). (take (utf8_len (c # s)) (c # s) @ v, q)) (json_str_body r)"
proof -
  define k where "k = utf8_len (c # s)"
  obtain j where k: "k = Suc j" using assms(2) by (cases k) (auto simp: k_def)
  have c: "c \<noteq> CHR 0x22" "c \<noteq> CHR 0x5C" "\<not> byte_in 0 31 c" using assms(1) by (auto simp: byte_in_def)
  have j: "j \<le> length s" using utf8_len_le [of "c # s"] k k_def by simp
  have u: "utf8_len (c # take j s @ r) = Suc j"
    using utf8_len_take [OF assms(2), of r] by (simp add: k_def [symmetric] k)
  show ?thesis
    using c assms(1) j unfolding k_def [symmetric] k
    by (simp add: json_str_body.simps(2) [of c] u Let_def)
qed

lemma json_esc_ascii_cases:
  "json_safe c \<or> (\<exists>d. json_esc_ascii c = [CHR 0x5C, d] \<and> unescape d = Some c)
    \<or> json_esc_ascii c = CHR 0x5C # ''u00'' @ hex_byte c"
  unfolding json_esc_ascii_def by (simp add: unescape_def)

lemma str_body_ascii:
  assumes "byte_in 0 127 c"
  shows "json_str_body (json_esc_ascii c @ r) = map_option (\<lambda>(v, q). (c # v, q)) (json_str_body r)"
proof -
  consider "json_safe c" | d where "json_esc_ascii c = [CHR 0x5C, d]" "unescape d = Some c"
    | "json_esc_ascii c = CHR 0x5C # ''u00'' @ hex_byte c"
    using json_esc_ascii_cases [of c] by blast
  then show ?thesis
  proof cases
    case 1
    then have "\<not> byte_in 0 31 c" "c \<noteq> CHR 0x22" "c \<noteq> CHR 0x5C"
      by (auto simp: json_safe_def byte_in_def)
    with 1 show ?thesis by (simp add: json_esc_ascii_def str_body_plain assms)
  next
    case 2
    then show ?thesis by (simp add: str_body_unescape)
  next
    case 3
    have n: "(of_char c :: nat) < 128" using assms by (simp add: byte_in_def)
    with str_body_u4 [OF get_u4_00 [of c r, unfolded append_Cons append_Nil]] show ?thesis
      by (simp add: 3 utf8_encode_def)
  qed
qed

lemma str_body_end: "json_str_body (CHR 0x22 # r) = Some ([], r)"
  by (simp add: json_str_body.simps)

lemma str_body_esc: "json_str_body (json_esc s @ CHR 0x22 # r) = Some (sanitize s, r)"
proof (induction s rule: json_esc.induct)
  case 1
  then show ?case by (simp add: json_esc.simps sanitize.simps str_body_end)
next
  case (2 c s)
  show ?case
  proof (cases "byte_in 0 127 c")
    case True
    with 2(1) show ?thesis by (simp add: json_esc.simps sanitize.simps str_body_ascii)
  next
    case False
    define k where "k = utf8_len (c # s)"
    show ?thesis
    proof (cases "k = 0")
      case True
      have "json_str_body (CHR 0x5C # ''ufffd'' @ json_esc s @ CHR 0x22 # r)
          = Some (utf8_replacement @ sanitize s, r)"
        using str_body_u4 [OF get_u4_concrete(1) [unfolded append_Cons]] 2(2) [OF False refl] True
        by (simp add: k_def utf8_encode_concrete)
      with False True show ?thesis by (simp add: json_esc.simps sanitize.simps k_def [symmetric] Let_def)
    next
      case k: False
      consider "take k (c # s) = [CHR 0xE2, CHR 0x80, CHR 0xA8]" | "take k (c # s) = [CHR 0xE2, CHR 0x80, CHR 0xA9]"
        | "take k (c # s) \<noteq> [CHR 0xE2, CHR 0x80, CHR 0xA8]" "take k (c # s) \<noteq> [CHR 0xE2, CHR 0x80, CHR 0xA9]"
        by blast
      then show ?thesis
      proof cases
        case t: 1
        with 2(3) [OF False refl] k False str_body_u4 [OF get_u4_concrete(2) [unfolded append_Cons]]
        show ?thesis by (simp add: json_esc.simps sanitize.simps k_def [symmetric] Let_def utf8_encode_concrete)
      next
        case t: 2
        with 2(4) [OF False refl] k False str_body_u4 [OF get_u4_concrete(3) [unfolded append_Cons]]
        show ?thesis by (simp add: json_esc.simps sanitize.simps k_def [symmetric] Let_def utf8_encode_concrete)
      next
        case 3
        with 2(5) [OF False refl] k False str_body_rune [OF False, of s]
        show ?thesis by (simp add: json_esc.simps sanitize.simps k_def [symmetric] Let_def)
      qed
    qed
  qed
qed

section \<open>Objects\<close>

text \<open>\<open>json.Marshal\<close> of a struct: the fields in order, those with \<open>omitempty\<close> left out when empty.\<close>

definition json_obj :: "(string \<times> string) list \<Rightarrow> string" where
  "json_obj flds = ''{'' @ join_with '','' (map (\<lambda>(k, v). json_string k @ '':'' @ v) flds) @ ''}''"

definition omit_empty :: "string \<Rightarrow> string \<Rightarrow> (string \<times> string) list" where
  "omit_empty k v = (if v = '''' then [] else [(k, json_string v)])"

definition json_strmap :: "(string \<times> string) list \<Rightarrow> string" where
  "json_strmap m = json_obj (map (\<lambda>(k, v). (k, json_string v)) (sort_key fst m))"

definition json_bool :: "bool \<Rightarrow> string" where
  "json_bool b = (if b then ''true'' else ''false'')"

text \<open>\<open>reads n t v\<close>: text \<open>t\<close> is read as \<open>v\<close> wherever \<open>n\<close> levels of nesting are left.\<close>

definition reads :: "nat \<Rightarrow> string \<Rightarrow> gval \<Rightarrow> bool" where
  "reads n t v \<longleftrightarrow> (\<forall>d r. int n \<le> d \<longrightarrow> json_val d (t @ r) = Some (v, r))"

lemma reads_mono: "reads n t v \<Longrightarrow> n \<le> m \<Longrightarrow> reads m t v"
  by (auto simp: reads_def)

lemma skip_ws_Cons: "\<not> json_ws c \<Longrightarrow> skip_ws (c # s) = c # s"
  by (simp add: skip_ws_def)

lemma reads_string: "reads 0 (json_string s) (GStr (sanitize s))"
  by (simp add: reads_def json_val.simps json_string_def skip_ws_Cons json_ws_def str_body_esc)

lemma reads_bool: "reads 0 (json_bool b) (GBool b)"
  by (cases b) (simp_all add: reads_def json_val.simps json_bool_def skip_ws_Cons json_ws_def has_prefix_def)

lemma reads_null: "reads 0 ''null'' GNil"
  by (simp add: reads_def json_val.simps skip_ws_Cons json_ws_def has_prefix_def)

lemma expect_hit: "\<not> json_ws c \<Longrightarrow> expect c (c # s) = Some s"
  by (simp add: expect_def skip_ws_Cons)

lemma expect_miss: "\<not> json_ws x \<Longrightarrow> x \<noteq> c \<Longrightarrow> expect c (x # s) = None"
  by (simp add: expect_def skip_ws_Cons)

lemma gmap_set_new: "k \<notin> fst ` set m \<Longrightarrow> gmap_set k v m = m @ [(k, v)]"
  by (auto simp: gmap_set_def filter_id_conv)

definition member_text :: "string \<times> string \<times> gval \<Rightarrow> string" where
  "member_text = (\<lambda>(k, t, v). json_string k @ '':'' @ t)"

lemma read_member:
  assumes "reads n t v" "int n \<le> d" "sanitize k = k"
  shows "json_members d m (json_string k @ '':'' @ t @ c # s) =
    (case expect (CHR '','') (c # s) of
       Some r2 \<Rightarrow> if length r2 < length (json_string k @ '':'' @ t @ c # s)
         then json_members d (gmap_set k v m) r2 else None
     | None \<Rightarrow> map_option (\<lambda>q. (gmap_set k v m, q)) (expect (CHR ''}'') (c # s)))"
  using assms
  by (subst json_members.simps)
    (simp add: json_string_def expect_hit json_ws_def str_body_esc reads_def split: option.splits)

lemma read_members:
  assumes "fs \<noteq> []" "\<forall>(k, t, v)\<in>set fs. reads n t v \<and> sanitize k = k" "int n \<le> d"
    and "distinct (map fst m @ map fst fs)"
  shows "json_members d m (join_with '','' (map member_text fs) @ CHR ''}'' # r)
    = Some (m @ map (\<lambda>(k, t, v). (k, v)) fs, r)"
  using assms
proof (induction fs arbitrary: m)
  case (Cons f fs)
  obtain k t v where f: "f = (k, t, v)" by (cases f)
  have h: "reads n t v" "sanitize k = k" "k \<notin> fst ` set m" using Cons.prems f by auto
  show ?case
  proof (cases fs)
    case Nil
    show ?thesis
      using read_member [OF h(1) Cons.prems(3) h(2), of m "CHR ''}''" r]
      by (simp add: Nil f member_text_def expect_miss expect_hit json_ws_def gmap_set_new [OF h(3)])
  next
    case (Cons g gs)
    have d: "distinct (map fst (m @ [(k, v)]) @ map fst fs)" using Cons.prems(4) f by auto
    have IH: "json_members d (m @ [(k, v)]) (join_with '','' (map member_text fs) @ CHR ''}'' # r)
        = Some ((m @ [(k, v)]) @ map (\<lambda>(k, t, v). (k, v)) fs, r)"
      by (rule Cons.IH) (use Cons Cons.prems d in auto)
    have j: "join_with '','' (map member_text (f # fs)) @ CHR ''}'' # r
        = json_string k @ '':'' @ t @ CHR '','' # (join_with '','' (map member_text fs) @ CHR ''}'' # r)"
      by (simp add: Cons f member_text_def)
    show ?thesis
      unfolding j using read_member [OF h(1) Cons.prems(3) h(2), of m "CHR '',''"]
      by (simp add: expect_hit json_ws_def gmap_set_new [OF h(3)] IH f)
  qed
qed simp

lemma reads_obj:
  assumes "\<forall>(k, t, v)\<in>set fs. reads n t v \<and> sanitize k = k" "distinct (map fst fs)"
  shows "reads (Suc n) (json_obj (map (\<lambda>(k, t, v). (k, t)) fs)) (GMap (map (\<lambda>(k, t, v). (k, v)) fs))"
proof -
  have m: "map (\<lambda>(k, v). json_string k @ '':'' @ v) (map (\<lambda>(k, t, v). (k, t)) fs) = map member_text fs"
    by (auto simp: member_text_def)
  have "json_val d (json_obj (map (\<lambda>(k, t, v). (k, t)) fs) @ r)
      = Some (GMap (map (\<lambda>(k, t, v). (k, v)) fs), r)" if d: "int (Suc n) \<le> d" for d r
  proof (cases fs)
    case Nil
    then show ?thesis using d by (simp add: json_val.simps json_obj_def skip_ws_Cons json_ws_def expect_hit)
  next
    case (Cons f fs')
    obtain u where u: "join_with '','' (map member_text fs) @ CHR ''}'' # r = CHR 0x22 # u"
      using Cons by (cases f; cases "map member_text fs'") (auto simp: member_text_def json_string_def)
    have "json_members (d - 1) [] (join_with '','' (map member_text fs) @ CHR ''}'' # r)
        = Some ([] @ map (\<lambda>(k, t, v). (k, v)) fs, r)"
      by (rule read_members) (use Cons assms d in auto)
    then show ?thesis
      using d u unfolding json_obj_def m
      by (simp add: json_val.simps skip_ws_Cons json_ws_def expect_miss)
  qed
  then show ?thesis by (simp add: reads_def)
qed

lemma unmarshal_reads:
  assumes "reads n t v" "n \<le> 10000" shows "json_unmarshal t = Inr v"
proof -
  have "json_val json_max_depth (t @ []) = Some (v, [])"
    using assms unfolding reads_def json_max_depth_def by (metis of_nat_le_iff of_nat_numeral)
  then show ?thesis by (simp add: json_unmarshal_def skip_ws_def)
qed

section \<open>Reading structs back\<close>

text \<open>The keys the program writes are lower case and distinct, so a lookup is a map lookup.\<close>

lemma json_field_map_of:
  assumes "distinct (map fst m)" "\<forall>k\<in>fst ` set m. to_lower k = k" "to_lower n = n"
  shows "json_field n m = (case map_of m n of Some v \<Rightarrow> if v = GNil then None else Some v | None \<Rightarrow> None)"
  using assms(1,2)
proof (induction m)
  case (Cons p m)
  obtain k v where p: "p = (k, v)" by (cases p)
  have "json_field n (p # m) = (case json_field n m of Some x \<Rightarrow> Some x
      | None \<Rightarrow> if k = n \<and> v \<noteq> GNil then Some v else None)"
    using Cons.prems assms(3) by (simp add: json_field_def p find_append split: option.splits)
  moreover have "k = n \<Longrightarrow> map_of m n = None" using Cons.prems p by (auto simp: map_of_eq_None_iff)
  ultimately show ?case using Cons p by (auto split: option.splits)
qed (simp add: json_field_def)

end
