(* ===== verification/Cdc.thy ===== *)
theory Cdc
  imports JsonTrip Types Api Sqlite
begin

text \<open>
  Change data capture between stores (\<open>pkg/cdc\<close>): the envelopes, their JSON form and the
  Debezium form they may arrive in, the export from a store or a finished workflow, the
  in-process and Kafka transports, and the application to a target store.  The payload of an
  envelope is a Go \<open>interface{}\<close>: nothing, one of the two row structs, or decoded JSON.
\<close>

section \<open>Rows and envelopes\<close>

definition table_snapshots :: string where "table_snapshots = ''snapshots''"
definition table_domino_results :: string where "table_domino_results = ''domino_results''"
definition op_create :: string where "op_create = ''c''"
definition op_delete :: string where "op_delete = ''d''"
definition default_cdc_topic :: string where "default_cdc_topic = ''kbl.cdc.snapshots''"

record snap_row =
  cs_snapshot_id :: string
  cs_time_slice :: string
  cs_data :: string
  cs_sealed :: bool

record dom_row =
  cd_snapshot_id :: string
  cd_domino_id :: string
  cd_input_hash :: string
  cd_output_hash :: string
  cd_output :: string
  cd_reused :: bool

datatype payload = PNil | PSnap snap_row | PDom dom_row | PVal gval

record envelope =
  env_op :: string
  env_table :: string
  env_after :: payload
  env_before :: payload

record sync_progress =
  sp_snapshot_applied :: bool
  sp_domino_count :: int

definition is_complete :: "sync_progress \<Rightarrow> int \<Rightarrow> bool" where
  "is_complete p required =
     (if \<not> sp_snapshot_applied p then False
      else if required = 0 then True else required \<le> sp_domino_count p)"

section \<open>JSON\<close>

definition snap_row_json :: "snap_row \<Rightarrow> string" where
  "snap_row_json r = json_obj [(''snapshot_id'', json_string (cs_snapshot_id r)),
     (''time_slice'', json_string (cs_time_slice r)), (''data'', json_string (cs_data r)),
     (''sealed'', json_bool (cs_sealed r))]"

definition dom_row_json :: "dom_row \<Rightarrow> string" where
  "dom_row_json r = json_obj [(''snapshot_id'', json_string (cd_snapshot_id r)),
     (''domino_id'', json_string (cd_domino_id r)), (''input_hash'', json_string (cd_input_hash r)),
     (''output_hash'', json_string (cd_output_hash r)), (''output'', json_string (cd_output r)),
     (''reused'', json_bool (cd_reused r))]"

fun payload_json :: "payload \<Rightarrow> string res" where
  "payload_json PNil = Inr ''null''"
| "payload_json (PSnap r) = Inr (snap_row_json r)"
| "payload_json (PDom r) = Inr (dom_row_json r)"
| "payload_json (PVal v) = json_marshal v"

fun snap_row_of :: "gval \<Rightarrow> snap_row res" where
  "snap_row_of (GMap m) =
     bindr (dec_string (json_field ''snapshot_id'' m)) (\<lambda>i.
     bindr (dec_string (json_field ''time_slice'' m)) (\<lambda>t.
     bindr (dec_string (json_field ''data'' m)) (\<lambda>d.
     bindr (dec_bool (json_field ''sealed'' m)) (\<lambda>b.
     Inr \<lparr>cs_snapshot_id = i, cs_time_slice = t, cs_data = d, cs_sealed = b\<rparr>))))"
| "snap_row_of GNil = Inr \<lparr>cs_snapshot_id = '''', cs_time_slice = '''', cs_data = '''', cs_sealed = False\<rparr>"
| "snap_row_of _ = Inl json_error"

fun dom_row_of :: "gval \<Rightarrow> dom_row res" where
  "dom_row_of (GMap m) =
     bindr (dec_string (json_field ''snapshot_id'' m)) (\<lambda>i.
     bindr (dec_string (json_field ''domino_id'' m)) (\<lambda>d.
     bindr (dec_string (json_field ''input_hash'' m)) (\<lambda>h.
     bindr (dec_string (json_field ''output_hash'' m)) (\<lambda>oh.
     bindr (dec_string (json_field ''output'' m)) (\<lambda>out.
     bindr (dec_bool (json_field ''reused'' m)) (\<lambda>b.
     Inr \<lparr>cd_snapshot_id = i, cd_domino_id = d, cd_input_hash = h, cd_output_hash = oh,
          cd_output = out, cd_reused = b\<rparr>))))))"
| "dom_row_of GNil = Inr \<lparr>cd_snapshot_id = '''', cd_domino_id = '''', cd_input_hash = '''',
      cd_output_hash = '''', cd_output = '''', cd_reused = False\<rparr>"
| "dom_row_of _ = Inl json_error"

text \<open>\<open>decodeAfter[T]\<close>: through JSON text and back into the row type.\<close>

definition decode_after :: "(gval \<Rightarrow> 'r res) \<Rightarrow> payload \<Rightarrow> 'r res" where
  "decode_after row_of after =
     (if after = PNil then Inl (errorf ''missing after payload'')
      else bindr (payload_json after) (\<lambda>b. bindr (json_unmarshal b) row_of))"

definition decode_snap :: "payload \<Rightarrow> snap_row res" where
  "decode_snap = decode_after snap_row_of"

definition decode_dom :: "payload \<Rightarrow> dom_row res" where
  "decode_dom = decode_after dom_row_of"

definition matches_snapshot :: "string \<Rightarrow> envelope \<Rightarrow> bool" where
  "matches_snapshot snapshotID env =
     (if env_table env = table_snapshots then
        (case decode_snap (env_after env) of Inr row \<Rightarrow> cs_snapshot_id row = snapshotID | Inl _ \<Rightarrow> False)
      else if env_table env = table_domino_results then
        (case decode_dom (env_after env) of Inr row \<Rightarrow> cd_snapshot_id row = snapshotID | Inl _ \<Rightarrow> False)
      else False)"

section \<open>Applying envelopes to a store\<close>

definition apply_snapshot :: "'s backend \<Rightarrow> envelope \<Rightarrow> 's \<Rightarrow> unit res \<times> 's" where
  "apply_snapshot B env s =
     (if env_op env = op_delete then (Inr (), s)
      else (case decode_snap (env_after env) of
          Inl e \<Rightarrow> (Inl e, s)
        | Inr row \<Rightarrow>
            if \<not> cs_sealed row
            then (Inl (errorf (''refusing to replicate unsealed snapshot '' @ cs_snapshot_id row)), s)
            else b_save_snapshot B (cs_snapshot_id row) (cs_time_slice row) (cs_data row) True s))"

definition result_row :: "dom_row \<Rightarrow> replay_row" where
  "result_row row = \<lparr>re_snapshot_id = cd_snapshot_id row, re_domino_id = cd_domino_id row,
     re_input_hash = cd_input_hash row, re_output_hash = cd_output_hash row, re_output = cd_output row,
     re_reused = cd_reused row, re_prev_link = '''', re_link = ''''\<rparr>"

definition orphan_error :: "string \<Rightarrow> err" where
  "orphan_error i = errorf (''refusing orphan domino result for snapshot '' @ i @ '' (sealed parent required)'')"

definition apply_domino_result :: "'s backend \<Rightarrow> envelope \<Rightarrow> 's \<Rightarrow> unit res \<times> 's" where
  "apply_domino_result B env s =
     (if env_op env = op_delete then (Inr (), s)
      else (case decode_dom (env_after env) of
          Inl e \<Rightarrow> (Inl e, s)
        | Inr row \<Rightarrow>
            (case b_get_snapshot B (cd_snapshot_id row) s of
               (Inr (_, _, True), s1) \<Rightarrow> b_save_result B (result_row row) s1
             | (_, s1) \<Rightarrow> (Inl (orphan_error (cd_snapshot_id row)), s1))))"

definition apply_env :: "'s backend \<Rightarrow> envelope \<Rightarrow> 's \<Rightarrow> unit res \<times> 's" where
  "apply_env B env s =
     (if env_table env = table_snapshots then apply_snapshot B env s
      else if env_table env = table_domino_results then apply_domino_result B env s
      else (Inl (errorf (''unsupported cdc table '' @ quote (env_table env))), s))"

text \<open>The progress counted so far is returned beside an error; \<open>seen\<close> are the dominos counted.\<close>

definition note_applied :: "envelope \<Rightarrow> sync_progress \<times> string list \<Rightarrow> (sync_progress \<times> string list) res" where
  "note_applied env ps =
     (case ps of (p, seen) \<Rightarrow>
        if env_table env = table_snapshots then Inr (p\<lparr>sp_snapshot_applied := True\<rparr>, seen)
        else if env_table env = table_domino_results then
          (case decode_dom (env_after env) of
             Inl e \<Rightarrow> Inl e
           | Inr row \<Rightarrow>
               if cd_domino_id row \<in> set seen then Inr (p, seen)
               else Inr (p\<lparr>sp_domino_count := sp_domino_count p + 1\<rparr>, cd_domino_id row # seen))
        else Inr (p, seen))"

fun apply_loop ::
  "'s backend \<Rightarrow> string \<Rightarrow> envelope list \<Rightarrow> sync_progress \<times> string list \<Rightarrow> 's
     \<Rightarrow> (sync_progress \<times> err option) \<times> 's" where
  "apply_loop B i [] ps s = ((fst ps, None), s)"
| "apply_loop B i (env # envs) ps s =
     (if \<not> matches_snapshot i env then apply_loop B i envs ps s
      else (case apply_env B env s of
          (Inl e, s1) \<Rightarrow> ((fst ps, Some e), s1)
        | (Inr _, s1) \<Rightarrow>
            (case note_applied env ps of
               Inl e \<Rightarrow> ((fst ps, Some e), s1)
             | Inr ps' \<Rightarrow> apply_loop B i envs ps' s1)))"

definition no_progress :: sync_progress where
  "no_progress = \<lparr>sp_snapshot_applied = False, sp_domino_count = 0\<rparr>"

definition apply_all :: "'s backend \<Rightarrow> string \<Rightarrow> envelope list \<Rightarrow> 's \<Rightarrow> (sync_progress \<times> err option) \<times> 's" where
  "apply_all B snapshotID envs s = apply_loop B snapshotID envs (no_progress, []) s"

section \<open>Export\<close>

definition snap_envelope :: "snap_row \<Rightarrow> envelope" where
  "snap_envelope r = \<lparr>env_op = op_create, env_table = table_snapshots, env_after = PSnap r, env_before = PNil\<rparr>"

definition dom_envelope :: "dom_row \<Rightarrow> envelope" where
  "dom_envelope r = \<lparr>env_op = op_create, env_table = table_domino_results, env_after = PDom r, env_before = PNil\<rparr>"

fun export_dominos :: "'s backend \<Rightarrow> string \<Rightarrow> string list \<Rightarrow> 's \<Rightarrow> envelope list res \<times> 's" where
  "export_dominos B i [] s = (Inr [], s)"
| "export_dominos B i (d # ds) s =
     (case b_get_latest B i d s of
        (Inl e, s1) \<Rightarrow> (Inl (wrapf (''missing domino '' @ quote d @ '' on sealed snapshot '' @ i) e), s1)
      | (Inr (inHash, outHash, out), s1) \<Rightarrow>
          (case export_dominos B i ds s1 of
             (Inl e, s2) \<Rightarrow> (Inl e, s2)
           | (Inr envs, s2) \<Rightarrow>
               (Inr (dom_envelope \<lparr>cd_snapshot_id = i, cd_domino_id = d, cd_input_hash = inHash,
                  cd_output_hash = outHash, cd_output = out, cd_reused = False\<rparr> # envs), s2)))"

definition export_from_store :: "'s backend \<Rightarrow> string \<Rightarrow> string list \<Rightarrow> 's \<Rightarrow> envelope list res \<times> 's" where
  "export_from_store B snapshotID chain s =
     (case b_get_snapshot B snapshotID s of
        (Inl e, s1) \<Rightarrow> (Inl e, s1)
      | (Inr (timeSlice, data, sealed), s1) \<Rightarrow>
          if \<not> sealed then (Inl (errorf (''refusing to export unsealed snapshot '' @ snapshotID)), s1)
          else (case export_dominos B snapshotID chain s1 of
             (Inl e, s2) \<Rightarrow> (Inl e, s2)
           | (Inr envs, s2) \<Rightarrow>
               (Inr (snap_envelope \<lparr>cs_snapshot_id = snapshotID, cs_time_slice = timeSlice,
                  cs_data = data, cs_sealed = sealed\<rparr> # envs), s2)))"

definition workflow_exportable :: "api_workflow \<Rightarrow> bool" where
  "workflow_exportable wkf =
     (if ass_sealed (aws_snapshot (awf_spec wkf)) then True else aws_snapshot_ref (awf_spec wkf) \<noteq> '''')"

definition snapshot_data_json :: "api_workflow \<Rightarrow> string res" where
  "snapshot_data_json wkf =
     (let src = ass_source (aws_snapshot (awf_spec wkf))
      in case as_inline src of
          Some m \<Rightarrow> json_marshal (GMap m)
        | None \<Rightarrow>
            if as_path src \<noteq> '''' then Inr (json_obj [(''path'', json_string (as_path src))])
            else if as_uri src \<noteq> '''' then Inr (json_obj [(''uri'', json_string (as_uri src))])
            else Inr ''{}'')"

definition entry_envelope :: "string \<Rightarrow> log_entry \<Rightarrow> envelope" where
  "entry_envelope i e = dom_envelope \<lparr>cd_snapshot_id = i, cd_domino_id = le_domino_id e,
     cd_input_hash = le_input_hash e, cd_output_hash = le_output_hash e, cd_output = le_output e,
     cd_reused = le_reused e\<rparr>"

definition export_from_workflow :: "api_workflow option \<Rightarrow> run_result option \<Rightarrow> envelope list" where
  "export_from_workflow wo ro =
     (case ro of
        None \<Rightarrow> []
      | Some r \<Rightarrow>
          if rr_snapshot_id r = '''' then []
          else (case wo of
             None \<Rightarrow> []
           | Some wkf \<Rightarrow>
               if \<not> workflow_exportable wkf then []
               else snap_envelope \<lparr>cs_snapshot_id = rr_snapshot_id r,
                      cs_time_slice = ass_time_slice (aws_snapshot (awf_spec wkf)),
                      cs_data = (case snapshot_data_json wkf of Inr d \<Rightarrow> d | Inl _ \<Rightarrow> ''''), cs_sealed = True\<rparr>
                    # map (entry_envelope (rr_snapshot_id r)) (rr_entries r)))"

section \<open>Envelopes as JSON\<close>

definition marshal_envelope :: "envelope \<Rightarrow> string res" where
  "marshal_envelope env =
     (let opt = (\<lambda>k p. if p = PNil then Inr [] else bindr (payload_json p) (\<lambda>t. Inr [(k, t)]))
      in bindr (opt ''after'' (env_after env)) (\<lambda>a.
         bindr (opt ''before'' (env_before env)) (\<lambda>b.
         Inr (json_obj ([(''op'', json_string (env_op env)), (''table'', json_string (env_table env))] @ a @ b)))))"

text \<open>A decoded value in an \<open>interface{}\<close>: JSON null is nil.\<close>

definition payload_of :: "gval option \<Rightarrow> payload" where
  "payload_of v = (case v of None \<Rightarrow> PNil | Some GNil \<Rightarrow> PNil | Some v \<Rightarrow> PVal v)"

text \<open>The last member of a name up to case, \<open>null\<close> included.\<close>

definition json_member :: "string \<Rightarrow> gmap \<Rightarrow> gval option" where
  "json_member name m = map_option snd (find (\<lambda>(k, v). to_lower k = to_lower name) (rev m))"

fun coerce_bool :: "gval \<Rightarrow> bool" where
  "coerce_bool (GBool b) = b"
| "coerce_bool (GNum x) = (\<not> feq x fzero)"
| "coerce_bool (GStr s) = (s = ''true'' \<or> s = ''t'' \<or> s = ''1'')"
| "coerce_bool _ = False"

definition coerce_key :: "string \<Rightarrow> gmap \<Rightarrow> gmap" where
  "coerce_key k m = (case map_of m k of Some v \<Rightarrow> aput k (GBool (coerce_bool v)) m | None \<Rightarrow> m)"

fun normalize_debezium_after :: "gval \<Rightarrow> gval" where
  "normalize_debezium_after (GMap m) = GMap (coerce_key ''reused'' (coerce_key ''sealed'' m))"
| "normalize_debezium_after v = v"

text \<open>Connector and table of the \<open>source\<close> block.\<close>

fun debezium_source :: "gval option \<Rightarrow> (string \<times> string) res" where
  "debezium_source None = Inr ('''', '''')"
| "debezium_source (Some (GMap m)) =
     bindr (dec_string (json_field ''connector'' m)) (\<lambda>c.
     bindr (dec_string (json_field ''table'' m)) (\<lambda>t. Inr (c, t)))"
| "debezium_source (Some _) = Inl json_error"

definition debezium_body :: "gval \<Rightarrow> gval" where
  "debezium_body v = (case v of
      GMap m \<Rightarrow> (case map_of m ''payload'' of Some (GMap p) \<Rightarrow> GMap p | _ \<Rightarrow> v)
    | _ \<Rightarrow> v)"

definition unwrap_msg :: "gmap \<Rightarrow> envelope res" where
  "unwrap_msg m =
     bindr (dec_string (json_field ''op'' m)) (\<lambda>op.
     bindr (debezium_source (json_field ''source'' m)) (\<lambda>(connector, table).
       if connector = '''' \<and> table = '''' then Inl (errorf ''not a debezium record'')
       else if table = '''' then Inl (errorf ''debezium record missing source.table'')
       else Inr \<lparr>env_op = op, env_table = table,
              env_after = payload_of (map_option normalize_debezium_after (json_member ''after'' m)),
              env_before = PNil\<rparr>))"

definition unwrap_debezium :: "string \<Rightarrow> envelope res" where
  "unwrap_debezium data = bindr (json_unmarshal data) (\<lambda>v. case v of
      GMap _ \<Rightarrow> (case debezium_body v of GMap m \<Rightarrow> unwrap_msg m | _ \<Rightarrow> Inl json_error)
    | GNil \<Rightarrow> unwrap_msg []
    | _ \<Rightarrow> Inl json_error)"

definition plain_envelope :: "gmap \<Rightarrow> envelope res" where
  "plain_envelope m =
     bindr (dec_string (json_field ''op'' m)) (\<lambda>op.
     bindr (dec_string (json_field ''table'' m)) (\<lambda>table.
     Inr \<lparr>env_op = op, env_table = table, env_after = payload_of (json_member ''after'' m),
          env_before = payload_of (json_member ''before'' m)\<rparr>))"

definition unmarshal_envelope :: "string \<Rightarrow> envelope res" where
  "unmarshal_envelope data =
     (case unwrap_debezium data of
        Inr env \<Rightarrow> Inr env
      | Inl _ \<Rightarrow> bindr (json_unmarshal data) (\<lambda>v. case v of
            GMap m \<Rightarrow> plain_envelope m
          | GNil \<Rightarrow> plain_envelope []
          | _ \<Rightarrow> Inl json_error))"

section \<open>Transports\<close>

record cdc_bus =
  cb_events :: "(string \<times> envelope list) list"
  cb_closed :: bool

definition new_cdc_bus :: cdc_bus where
  "new_cdc_bus = \<lparr>cb_events = [], cb_closed = False\<rparr>"

definition buffered :: "cdc_bus \<Rightarrow> string \<Rightarrow> envelope list" where
  "buffered b i = (case map_of (cb_events b) i of Some es \<Rightarrow> es | None \<Rightarrow> [])"

definition cdc_publish :: "string \<Rightarrow> envelope \<Rightarrow> cdc_bus \<Rightarrow> unit res \<times> cdc_bus" where
  "cdc_publish snapshotID env b =
     (if cb_closed b then (Inl err_canceled, b)
      else (Inr (), b\<lparr>cb_events := aput snapshotID (buffered b snapshotID @ [env]) (cb_events b)\<rparr>))"

fun cdc_publish_batch :: "string \<Rightarrow> envelope list \<Rightarrow> cdc_bus \<Rightarrow> unit res \<times> cdc_bus" where
  "cdc_publish_batch i [] b = (Inr (), b)"
| "cdc_publish_batch i (env # envs) b =
     (case cdc_publish i env b of (Inl e, b1) \<Rightarrow> (Inl e, b1) | (Inr _, b1) \<Rightarrow> cdc_publish_batch i envs b1)"

definition cdc_consume :: "string \<Rightarrow> cdc_bus \<Rightarrow> envelope list res" where
  "cdc_consume snapshotID b = (if cb_closed b then Inl err_canceled else Inr (buffered b snapshotID))"

definition cdc_close :: "cdc_bus \<Rightarrow> unit res \<times> cdc_bus" where
  "cdc_close b = (Inr (), b\<lparr>cb_closed := True, cb_events := []\<rparr>)"

definition cdc_reset :: "cdc_bus \<Rightarrow> cdc_bus" where
  "cdc_reset b = b\<lparr>cb_events := [], cb_closed := False\<rparr>"

text \<open>\<open>MemoryPublisher\<close> and \<open>MemoryConsumer\<close> on an optional bus.\<close>

definition memory_publisher :: "string \<Rightarrow> envelope list \<Rightarrow> cdc_bus option \<Rightarrow> unit res \<times> cdc_bus option" where
  "memory_publisher i envs bo =
     (case bo of None \<Rightarrow> (Inr (), None)
      | Some b \<Rightarrow> (case cdc_publish_batch i envs b of (r, b') \<Rightarrow> (r, Some b')))"

definition memory_consumer :: "string \<Rightarrow> cdc_bus option \<Rightarrow> envelope list res" where
  "memory_consumer i bo = (case bo of None \<Rightarrow> Inr [] | Some b \<Rightarrow> cdc_consume i b)"

text \<open>
  Kafka: the writer appends a message or fails; a read returns a message or an error (a
  timeout of half a second among them).  \<open>reads\<close> are the reads that fit before the deadline.
\<close>

definition kafka_publisher_topic :: "string list \<Rightarrow> string \<Rightarrow> string res" where
  "kafka_publisher_topic brokers topic =
     (if brokers = [] then Inl (errorf ''kafka brokers required'')
      else Inr (if topic = '''' then default_cdc_topic else topic))"

definition kafka_consumer_config :: "string list \<Rightarrow> string \<Rightarrow> string \<Rightarrow> (string \<times> string) res" where
  "kafka_consumer_config brokers topic grp =
     (if brokers = [] then Inl (errorf ''kafka brokers required'')
      else Inr (if topic = '''' then default_cdc_topic else topic,
                if grp = '''' then ''kbl-cdc-replica'' else grp))"

record cdc_topic =
  ct_log :: "(string \<times> string) list"
  ct_faults :: faults

definition kafka_cdc_publish :: "string \<Rightarrow> envelope \<Rightarrow> cdc_topic \<Rightarrow> unit res \<times> cdc_topic" where
  "kafka_cdc_publish snapshotID env k =
     (case marshal_envelope env of
        Inl e \<Rightarrow> (Inl e, k)
      | Inr body \<Rightarrow>
          (case next_fault (ct_faults k) of
             (Some e, fs) \<Rightarrow> (Inl e, k\<lparr>ct_faults := fs\<rparr>)
           | (None, fs) \<Rightarrow> (Inr (), k\<lparr>ct_faults := fs, ct_log := ct_log k @ [(snapshotID, body)]\<rparr>)))"

fun kafka_cdc_publish_batch :: "string \<Rightarrow> envelope list \<Rightarrow> cdc_topic \<Rightarrow> unit res \<times> cdc_topic" where
  "kafka_cdc_publish_batch i [] k = (Inr (), k)"
| "kafka_cdc_publish_batch i (env # envs) k =
     (case kafka_cdc_publish i env k of
        (Inl e, k1) \<Rightarrow> (Inl e, k1)
      | (Inr _, k1) \<Rightarrow> kafka_cdc_publish_batch i envs k1)"

datatype kafka_read = ReadMsg string | ReadError

fun kafka_consume_loop :: "string \<Rightarrow> kafka_read list \<Rightarrow> envelope list \<Rightarrow> envelope list" where
  "kafka_consume_loop i [] out = out"
| "kafka_consume_loop i (ReadError # rs) out = (if out \<noteq> [] then out else kafka_consume_loop i rs out)"
| "kafka_consume_loop i (ReadMsg v # rs) out =
     (case unmarshal_envelope v of
        Inl _ \<Rightarrow> kafka_consume_loop i rs out
      | Inr env \<Rightarrow>
          if i \<noteq> '''' \<and> \<not> matches_snapshot i env then kafka_consume_loop i rs out
          else kafka_consume_loop i rs (out @ [env]))"

definition kafka_consume :: "string \<Rightarrow> kafka_read list \<Rightarrow> envelope list res" where
  "kafka_consume snapshotID rs =
     (let out = kafka_consume_loop snapshotID rs []
      in if out = [] then Inl (errorf (''no cdc events for snapshot '' @ snapshotID)) else Inr out)"

text \<open>\<open>SyncFromConsumer\<close>, given what the consumer returned.\<close>

definition incomplete_error :: "sync_progress \<Rightarrow> int \<Rightarrow> err" where
  "incomplete_error p n = errorf (''incomplete cdc sync: snapshot='' @
     (if sp_snapshot_applied p then ''true'' else ''false'') @ '' dominos='' @ int_str (sp_domino_count p)
     @ ''/'' @ int_str n)"

definition sync_from_consumer ::
  "envelope list res \<Rightarrow> 's backend \<Rightarrow> string \<Rightarrow> string list \<Rightarrow> 's \<Rightarrow> (sync_progress \<times> err option) \<times> 's" where
  "sync_from_consumer consumed B snapshotID chain s =
     (case consumed of
        Inl e \<Rightarrow> ((no_progress, Some e), s)
      | Inr envs \<Rightarrow>
          (case apply_all B snapshotID envs s of
             ((p, Some e), s1) \<Rightarrow> ((p, Some e), s1)
           | ((p, None), s1) \<Rightarrow>
               if \<not> is_complete p (int (length chain))
               then ((p, Some (incomplete_error p (int (length chain)))), s1)
               else ((p, None), s1)))"

section \<open>Decoding the program's own rows\<close>

definition snap_clean :: "snap_row \<Rightarrow> bool" where
  "snap_clean r = (valid_utf8 (cs_snapshot_id r) \<and> valid_utf8 (cs_time_slice r) \<and> valid_utf8 (cs_data r))"

definition dom_clean :: "dom_row \<Rightarrow> bool" where
  "dom_clean r = (valid_utf8 (cd_snapshot_id r) \<and> valid_utf8 (cd_domino_id r) \<and> valid_utf8 (cd_input_hash r)
     \<and> valid_utf8 (cd_output_hash r) \<and> valid_utf8 (cd_output r))"

definition snap_members :: "snap_row \<Rightarrow> (string \<times> string \<times> gval) list" where
  "snap_members r =
     [(''snapshot_id'', json_string (cs_snapshot_id r), GStr (sanitize (cs_snapshot_id r))),
      (''time_slice'', json_string (cs_time_slice r), GStr (sanitize (cs_time_slice r))),
      (''data'', json_string (cs_data r), GStr (sanitize (cs_data r))),
      (''sealed'', json_bool (cs_sealed r), GBool (cs_sealed r))]"

definition dom_members :: "dom_row \<Rightarrow> (string \<times> string \<times> gval) list" where
  "dom_members r =
     [(''snapshot_id'', json_string (cd_snapshot_id r), GStr (sanitize (cd_snapshot_id r))),
      (''domino_id'', json_string (cd_domino_id r), GStr (sanitize (cd_domino_id r))),
      (''input_hash'', json_string (cd_input_hash r), GStr (sanitize (cd_input_hash r))),
      (''output_hash'', json_string (cd_output_hash r), GStr (sanitize (cd_output_hash r))),
      (''output'', json_string (cd_output r), GStr (sanitize (cd_output r))),
      (''reused'', json_bool (cd_reused r), GBool (cd_reused r))]"

lemma row_keys:
  assumes "k \<in> set [''snapshot_id'', ''time_slice'', ''data'', ''sealed'', ''domino_id'', ''input_hash'',
    ''output_hash'', ''output'', ''reused'', ''op'', ''table'', ''after'', ''source'']"
  shows "sanitize k = k" "to_lower k = k"
  using assms by (auto intro!: sanitize_ascii simp: byte_in_def to_lower_def lower_char_def)

lemma snap_row_reads: "reads 1 (snap_row_json r) (GMap (map (\<lambda>(k, t, v). (k, v)) (snap_members r)))"
proof -
  have "reads (Suc 0) (json_obj (map (\<lambda>(k, t, v). (k, t)) (snap_members r)))
      (GMap (map (\<lambda>(k, t, v). (k, v)) (snap_members r)))"
    by (rule reads_obj) (auto simp: snap_members_def reads_string reads_bool row_keys)
  then show ?thesis by (simp add: snap_row_json_def snap_members_def)
qed

lemma dom_row_reads: "reads 1 (dom_row_json r) (GMap (map (\<lambda>(k, t, v). (k, v)) (dom_members r)))"
proof -
  have "reads (Suc 0) (json_obj (map (\<lambda>(k, t, v). (k, t)) (dom_members r)))
      (GMap (map (\<lambda>(k, t, v). (k, v)) (dom_members r)))"
    by (rule reads_obj) (auto simp: dom_members_def reads_string reads_bool row_keys)
  then show ?thesis by (simp add: dom_row_json_def dom_members_def)
qed

lemma snap_row_of_members:
  "snap_clean r \<Longrightarrow> snap_row_of (GMap (map (\<lambda>(k, t, v). (k, v)) (snap_members r))) = Inr r"
  by (simp add: snap_members_def json_field_map_of row_keys snap_clean_def sanitize_valid)

lemma dom_row_of_members:
  "dom_clean r \<Longrightarrow> dom_row_of (GMap (map (\<lambda>(k, t, v). (k, v)) (dom_members r))) = Inr r"
  by (simp add: dom_members_def json_field_map_of row_keys dom_clean_def sanitize_valid)

lemma decode_snap_clean: "snap_clean r \<Longrightarrow> decode_snap (PSnap r) = Inr r"
  using unmarshal_reads [OF snap_row_reads] snap_row_of_members
  by (simp add: decode_snap_def decode_after_def)

lemma decode_dom_clean: "dom_clean r \<Longrightarrow> decode_dom (PDom r) = Inr r"
  using unmarshal_reads [OF dom_row_reads] dom_row_of_members
  by (simp add: decode_dom_def decode_after_def)

section \<open>What applying envelopes does to a store\<close>

text \<open>The rows an envelope list carries for snapshot \<open>i\<close>.\<close>

fun snap_rows :: "string \<Rightarrow> envelope list \<Rightarrow> snap_row list" where
  "snap_rows i [] = []"
| "snap_rows i (env # envs) =
     (if matches_snapshot i env \<and> env_table env = table_snapshots
      then (case decode_snap (env_after env) of Inr r \<Rightarrow> r # snap_rows i envs | Inl _ \<Rightarrow> snap_rows i envs)
      else snap_rows i envs)"

fun dom_rows :: "string \<Rightarrow> envelope list \<Rightarrow> dom_row list" where
  "dom_rows i [] = []"
| "dom_rows i (env # envs) =
     (if matches_snapshot i env \<and> env_table env = table_domino_results
      then (case decode_dom (env_after env) of Inr r \<Rightarrow> r # dom_rows i envs | Inl _ \<Rightarrow> dom_rows i envs)
      else dom_rows i envs)"

lemma tables_differ: "table_snapshots \<noteq> table_domino_results"
  by (simp add: table_snapshots_def table_domino_results_def)

lemma matches_snapshot_cases:
  assumes "matches_snapshot i env"
  obtains (snap) r where "env_table env = table_snapshots" "decode_snap (env_after env) = Inr r" "cs_snapshot_id r = i"
    | (dom) r where "env_table env = table_domino_results" "decode_dom (env_after env) = Inr r" "cd_snapshot_id r = i"
  using assms by (auto simp: matches_snapshot_def split: if_splits sum.splits)

lemma snap_rows_id: "r \<in> set (snap_rows i envs) \<Longrightarrow> cs_snapshot_id r = i"
  by (induction envs) (auto simp: matches_snapshot_def split: if_splits sum.splits)

lemma dom_rows_id: "r \<in> set (dom_rows i envs) \<Longrightarrow> cd_snapshot_id r = i"
  using tables_differ by (induction envs) (auto simp: matches_snapshot_def split: if_splits sum.splits)

context store_laws begin

definition row_fits :: "dom_row \<Rightarrow> bool" where
  "row_fits r \<longleftrightarrow> okid (cd_domino_id r) \<and> okhash (cd_input_hash r) \<and> oktext (cd_output_hash r)
     \<and> oktext (cd_output r) \<and> oktext ''''"

definition fits :: "string \<Rightarrow> envelope list \<Rightarrow> bool" where
  "fits i envs \<longleftrightarrow> okid i \<and> (\<forall>r\<in>set (snap_rows i envs). oktext (cs_time_slice r) \<and> oktext (cs_data r))
     \<and> (\<forall>r\<in>set (dom_rows i envs). row_fits r)"

lemma apply_snapshot_laws:
  assumes "inv s" "okid i" "oktext (cs_time_slice r)" "decode_snap (env_after env) = Inr r" "cs_snapshot_id r = i"
    and "apply_snapshot B env s = (u, s')" "oktext (cs_data r)"
  shows "keeps s s' \<and> rows s' = rows s \<and> memo s' = memo s
    \<and> (u = Inr () \<longrightarrow> env_op env \<noteq> op_delete \<longrightarrow> cs_sealed r \<and> snap s' i = Some (cs_time_slice r, cs_data r, True))
    \<and> (\<not> cs_sealed r \<longrightarrow> s' = s)"
proof (cases "env_op env = op_delete \<or> \<not> cs_sealed r")
  case True
  with assms keeps_refl [OF assms(1)] show ?thesis by (auto simp: apply_snapshot_def split: if_splits)
next
  case False
  then have a: "b_save_snapshot B i (cs_time_slice r) (cs_data r) True s = (u, s')"
    using assms(4-6) by (simp add: apply_snapshot_def)
  show ?thesis
    using False save_snapshot_keeps [OF assms(1,2) a] save_snapshot_frame [OF assms(1,2) a]
      save_snapshot_sound [OF assms(1-3,7)] a by auto
qed

lemma apply_domino_laws:
  assumes "inv s" "okid i" "row_fits r" "decode_dom (env_after env) = Inr r" "cd_snapshot_id r = i"
    and "apply_domino_result B env s = (u, s')"
  shows "keeps s s' \<and> snap s' = snap s
    \<and> (u \<noteq> Inr () \<longrightarrow> rows s' = rows s)
    \<and> (u = Inr () \<longrightarrow> env_op env \<noteq> op_delete \<longrightarrow>
         (\<exists>ts d. snap s i = Some (ts, d, True)) \<and> rows s' i = rows s i @ [result_row r]
         \<and> (\<not> cd_reused r \<longrightarrow> memo s' i (cd_domino_id r) (cd_input_hash r) = Some (cd_output_hash r, cd_output r)))"
proof (cases "env_op env = op_delete")
  case True
  with assms keeps_refl [OF assms(1)] show ?thesis by (auto simp: apply_domino_result_def)
next
  case False
  obtain g s1 where g: "b_get_snapshot B i s = (g, s1)" by fastforce
  have same: "same s s1" by (rule get_snapshot_same [OF assms(1) g])
  note k1 = same_keeps [OF same]
  have v1: "inv s1" "snap s1 = snap s" "memo s1 = memo s" "rows s1 = rows s" using same by (simp_all add: same_def)
  show ?thesis
  proof (cases "\<exists>ts d. g = Inr (ts, d, True)")
    case False
    then have "u = Inl (orphan_error i)" "s' = s1"
      using assms(4-6) g \<open>env_op env \<noteq> op_delete\<close>
      by (auto simp: apply_domino_result_def split: sum.splits prod.splits bool.splits)
    with k1 v1 show ?thesis by simp
  next
    case True
    then obtain ts d where gs: "g = Inr (ts, d, True)" by blast
    have sn: "snap s i = Some (ts, d, True)" using get_snapshot_sound [OF assms(1,2)] g gs by simp
    have sr: "b_save_result B (result_row r) s1 = (u, s')"
      using assms(4-6) g gs \<open>env_op env \<noteq> op_delete\<close> by (simp add: apply_domino_result_def)
    have rr: "okid (re_snapshot_id (result_row r))" "okid (re_domino_id (result_row r))"
      "okhash (re_input_hash (result_row r))" "oktext (re_output_hash (result_row r))"
      "oktext (re_output (result_row r))" "oktext (re_prev_link (result_row r))" "oktext (re_link (result_row r))"
      using assms(2,3,5) by (simp_all add: result_row_def row_fits_def)
    have k2: "keeps s1 s'" by (rule save_result_keeps [OF v1(1) rr(1-3) sr])
    note fr = save_result_frame_h [OF v1(1) rr(1-3) sr]
    have so: "rows s' i = rows s i @ [result_row r] \<and> (\<not> cd_reused r \<longrightarrow>
        memo s' i (cd_domino_id r) (cd_input_hash r) = Some (cd_output_hash r, cd_output r))" if "u = Inr ()"
      using save_result_sound_h [OF v1(1) rr] sr that v1(4) assms(5) by (simp add: result_row_def)
    show ?thesis using keeps_trans [OF k1 k2] fr v1 so sn by auto
  qed
qed

end

subsection \<open>Progress\<close>

lemma card_insert_Diff:
  "finite A \<Longrightarrow> int (card (insert x A - S)) = (if x \<in> S then 0 else 1) + int (card (A - insert x S))"
proof -
  assume "finite A"
  moreover have "insert x A - S = (if x \<in> S then A - insert x S else insert x (A - insert x S))" by auto
  ultimately show ?thesis by (simp del: Diff_insert2)
qed

lemma apply_loop_progress:
  assumes "apply_loop B i envs (p, seen) s = ((p', None), s')"
  shows "sp_domino_count p' = sp_domino_count p + int (card (cd_domino_id ` set (dom_rows i envs) - set seen))
    \<and> sp_snapshot_applied p' = (sp_snapshot_applied p \<or> snap_rows i envs \<noteq> [])"
  using assms
proof (induction envs arbitrary: p seen s)
  case (Cons env envs)
  show ?case
  proof (cases "matches_snapshot i env")
    case False
    then show ?thesis using Cons by simp
  next
    case m: True
    then obtain u s1 ps where u: "apply_env B env s = (Inr u, s1)" and n: "note_applied env (p, seen) = Inr ps"
      and rest: "apply_loop B i envs ps s1 = ((p', None), s')"
      using Cons.prems by (auto split: prod.splits sum.splits)
    obtain p1 seen1 where ps: "ps = (p1, seen1)" by (cases ps)
    note IH = Cons.IH [OF rest [unfolded ps]]
    from m show ?thesis
    proof (cases rule: matches_snapshot_cases)
      case (snap r)
      then have "p1 = p\<lparr>sp_snapshot_applied := True\<rparr>" "seen1 = seen" using n ps by (simp_all add: note_applied_def)
      then show ?thesis using IH m snap tables_differ by simp
    next
      case (dom r)
      have "sp_snapshot_applied p1 = sp_snapshot_applied p" "set seen1 = insert (cd_domino_id r) (set seen)"
        "sp_domino_count p1 = sp_domino_count p + (if cd_domino_id r \<in> set seen then 0 else 1)"
        using n ps dom tables_differ by (auto simp: note_applied_def split: if_splits)
      moreover have "dom_rows i (env # envs) = r # dom_rows i envs" "snap_rows i (env # envs) = snap_rows i envs"
        using m dom tables_differ by simp_all
      ultimately show ?thesis
        using IH card_insert_Diff [of "cd_domino_id ` set (dom_rows i envs)" "cd_domino_id r" "set seen"] by simp
    qed
  qed
qed simp

context store_laws begin

text \<open>\<open>delivers\<close>: between two states the store gained these rows on \<open>i\<close>, and lost nothing.\<close>

definition delivers :: "string \<Rightarrow> snap_row list \<Rightarrow> dom_row list \<Rightarrow> 's \<Rightarrow> 's \<Rightarrow> bool" where
  "delivers i srs drs s s' \<longleftrightarrow> keeps s s' \<and> rows s' i = rows s i @ map result_row drs
     \<and> (\<forall>r\<in>set srs. cs_sealed r \<and> snap s' i = Some (cs_time_slice r, cs_data r, True))
     \<and> (\<forall>r\<in>set drs. (\<exists>ts d. snap s' i = Some (ts, d, True)) \<and> (\<not> cd_reused r \<longrightarrow>
          memo s' i (cd_domino_id r) (cd_input_hash r) = Some (cd_output_hash r, cd_output r)))"

lemma delivers_refl: "inv s \<Longrightarrow> delivers i [] [] s s"
  by (simp add: delivers_def keeps_refl)

lemma delivers_trans:
  assumes "delivers i a b s1 s2" "delivers i c d s2 s3" "okid i"
  shows "delivers i (a @ c) (b @ d) s1 s3"
proof -
  have k: "keeps s2 s3" using assms(2) by (simp add: delivers_def)
  have sn: "snap s3 i = Some (ts, dt, True)" if "snap s2 i = Some (ts, dt, True)" for ts dt
    using k that assms(3) by (simp add: keeps_def)
  have me: "memo s3 i x h = Some v" if "memo s2 i x h = Some v" for x h v
    using k that unfolding keeps_def by blast
  from assms(1,2) sn me show ?thesis
    unfolding delivers_def set_append by (intro conjI) (auto dest: keeps_trans)
qed

lemma apply_env_delivers:
  assumes "inv s" "fits i (env # envs)" "matches_snapshot i env" "apply_env B env s = (u, s')"
  shows "keeps s s' \<and> (u = Inr () \<longrightarrow> env_op env \<noteq> op_delete \<longrightarrow> delivers i (snap_rows i [env]) (dom_rows i [env]) s s')"
  using assms(3)
proof (cases rule: matches_snapshot_cases)
  case (snap r)
  have "okid i" "oktext (cs_time_slice r)" "apply_snapshot B env s = (u, s')" "oktext (cs_data r)"
    using assms snap by (simp_all add: fits_def apply_env_def)
  from apply_snapshot_laws [OF assms(1) this(1,2) snap(2,3) this(3,4)] show ?thesis
    using snap assms(3) tables_differ by (simp add: delivers_def)
next
  case (dom r)
  have a: "okid i" "row_fits r" "apply_domino_result B env s = (u, s')"
    using assms dom tables_differ by (simp_all add: fits_def apply_env_def)
  from apply_domino_laws [OF assms(1) a(1,2) dom(2,3) a(3)] show ?thesis
    using dom assms(3) tables_differ by (simp add: delivers_def)
qed

lemma fits_tl: "fits i (env # envs) \<Longrightarrow> fits i envs"
  by (auto simp: fits_def split: if_splits sum.splits)

lemma rows_Cons:
  "snap_rows i (env # envs) = snap_rows i [env] @ snap_rows i envs"
  "dom_rows i (env # envs) = dom_rows i [env] @ dom_rows i envs"
  by (auto split: sum.splits)

lemma apply_loop_delivers:
  assumes "inv s" "fits i envs" "apply_loop B i envs ps s = ((p', eo), s')"
  shows "keeps s s' \<and> (eo = None \<longrightarrow> (\<forall>env\<in>set envs. env_op env \<noteq> op_delete) \<longrightarrow>
    delivers i (snap_rows i envs) (dom_rows i envs) s s')"
  using assms
proof (induction envs arbitrary: ps s)
  case (Cons env envs)
  have f: "fits i envs" "okid i" using fits_tl [OF Cons.prems(2)] Cons.prems(2) by (simp_all add: fits_def)
  show ?case
  proof (cases "matches_snapshot i env")
    case False
    with Cons.prems(3) have rest: "apply_loop B i envs ps s = ((p', eo), s')" by simp
    from Cons.IH [OF Cons.prems(1) f(1) rest] False show ?thesis by simp
  next
    case m: True
    obtain u s1 where u: "apply_env B env s = (u, s1)" by fastforce
    note A = apply_env_delivers [OF Cons.prems(1,2) m u]
    then have k1: "keeps s s1" by simp
    show ?thesis
    proof (cases "\<exists>ps'. u = Inr () \<and> note_applied env ps = Inr ps'")
      case False
      then have "s' = s1" "eo \<noteq> None" using Cons.prems(3) m u by (cases u; auto split: sum.splits)+
      with k1 show ?thesis by blast
    next
      case True
      then obtain ps' where h: "u = Inr ()" "apply_loop B i envs ps' s1 = ((p', eo), s')"
        using Cons.prems(3) m u by auto
      note IH = Cons.IH [OF keeps_inv [OF k1] f(1) h(2)]
      show ?thesis
        unfolding rows_Cons [of i env envs] using A h(1) IH k1 keeps_trans delivers_trans f(2) by (metis list.set_intros)
    qed
  qed
qed (simp add: delivers_refl keeps_refl)

end

section \<open>Replication between SQLite stores\<close>

lemma sq_save_result_other:
  assumes "sq_save_result r s = (u, s')"
    and "(i, d, h) \<noteq> (re_snapshot_id r, re_domino_id r, re_input_hash r)"
  shows "sq_memo s' i d h = sq_memo s i d h"
proof -
  obtain e s1 where c: "sq_call s = (e, s1)" by fastforce
  note f = sq_call_frame [OF c]
  obtain u2 s2 where t: "sq_save_tx r s1 = (u2, s2)" by fastforce
  note tl = sq_save_tx_laws [OF t]
  have k: "\<not> sq_key i d h (sq_row r)" using assms(2) by (auto simp: sq_row_def)
  have "sq_results s' = sq_results s \<or> sq_results s' = sq_results s @ [sq_row r]"
    using assms(1) c t f tl by (auto simp: sq_save_result_def split: option.splits sum.splits)
  then show ?thesis using find_append_other [where P = "sq_key i d h" and y = "sq_row r"] k by (auto simp: sq_memo_def)
qed

lemma fits_sqlite: "sqlite.fits i envs"
  by (simp add: sqlite.fits_def sqlite.row_fits_def)

lemma matches_exported:
  "snap_clean r \<Longrightarrow> matches_snapshot (cs_snapshot_id r) (snap_envelope r)"
  "dom_clean q \<Longrightarrow> matches_snapshot (cd_snapshot_id q) (dom_envelope q)"
  using tables_differ by (simp_all add: matches_snapshot_def snap_envelope_def dom_envelope_def
      decode_snap_clean decode_dom_clean)

lemma dom_rows_exported:
  "\<forall>r\<in>set drs. dom_clean r \<and> cd_snapshot_id r = i
    \<Longrightarrow> dom_rows i (map dom_envelope drs) = drs \<and> snap_rows i (map dom_envelope drs) = []"
  using tables_differ matches_exported(2)
  by (induction drs) (auto simp: dom_envelope_def decode_dom_clean)

lemma apply_dom_exported:
  assumes "sq_inv t" "sq_ok t" "sq_snap t i = Some (ts, data, True)" "dom_clean r" "cd_snapshot_id r = i"
    and "sq_memo t i (cd_domino_id r) (cd_input_hash r) \<in> {None, Some (cd_output_hash r, cd_output r)}"
  shows "\<exists>t'. apply_env sqlite_backend (dom_envelope r) t = (Inr (), t') \<and> sq_inv t' \<and> sq_ok t'
    \<and> sq_snap t' = sq_snap t
    \<and> (\<forall>d h. d \<noteq> cd_domino_id r \<longrightarrow> sq_memo t' i d h = sq_memo t i d h)"
proof -
  obtain g t1 where g: "sq_get_snapshot i t = (g, t1)" by fastforce
  note G = sq_get_snapshot_laws [OF g]
  have "case sq_snap t i of Some x \<Rightarrow> g = Inr x | None \<Rightarrow> g = Inl err_no_rows" using G assms(2) by blast
  then have g': "g = Inr (ts, data, True)" using assms(3) by simp
  have t1: "sq_inv t1" "sq_ok t1" "sq_snap t1 = sq_snap t" "sq_memo t1 = sq_memo t" using G assms(1,2) by simp_all
  obtain u t2 where u: "sq_save_result (result_row r) t1 = (u, t2)" by fastforce
  note S = sq_save_result_laws [OF u t1(1)]
  have k: "re_snapshot_id (result_row r) = i" "re_domino_id (result_row r) = cd_domino_id r"
    "re_input_hash (result_row r) = cd_input_hash r" "re_output_hash (result_row r) = cd_output_hash r"
    "re_output (result_row r) = cd_output r" using assms(5) by (simp_all add: result_row_def)
  have "u = Inr () \<or> (\<exists>v. sq_memo t1 i (cd_domino_id r) (cd_input_hash r) = Some v \<and> v \<noteq> (cd_output_hash r, cd_output r))"
    using mp [OF S [THEN conjunct2, THEN conjunct2, THEN conjunct2, THEN conjunct2, THEN conjunct2,
      THEN conjunct2, THEN conjunct2] t1(2)] unfolding k by (elim conjE disjE) blast+
  then have "u = Inr ()" using assms(6) t1(4) by auto
  moreover have "apply_env sqlite_backend (dom_envelope r) t = (u, t2)"
    using tables_differ g g' u assms(4,5)
    by (simp add: apply_env_def apply_domino_result_def dom_envelope_def decode_dom_clean op_create_def
        op_delete_def sqlite_sel)
  ultimately show ?thesis using S t1 sq_save_result_other [OF u] k by auto
qed

lemma note_dom_exported:
  "dom_clean r \<Longrightarrow> \<exists>ps'. note_applied (dom_envelope r) ps = Inr ps'"
  using tables_differ by (cases ps) (simp add: note_applied_def dom_envelope_def decode_dom_clean)

lemma apply_doms_exported:
  assumes "sq_inv t" "sq_ok t" "sq_snap t i = Some (ts, data, True)" "distinct (map cd_domino_id drs)"
    and "\<forall>r\<in>set drs. dom_clean r \<and> cd_snapshot_id r = i
      \<and> sq_memo t i (cd_domino_id r) (cd_input_hash r) \<in> {None, Some (cd_output_hash r, cd_output r)}"
  shows "\<exists>p' t'. apply_loop sqlite_backend i (map dom_envelope drs) ps t = ((p', None), t')"
  using assms
proof (induction drs arbitrary: ps t)
  case (Cons r drs)
  have r: "dom_clean r" "cd_snapshot_id r = i"
    "sq_memo t i (cd_domino_id r) (cd_input_hash r) \<in> {None, Some (cd_output_hash r, cd_output r)}"
    using Cons.prems(5) by simp_all
  obtain t1 where t1: "apply_env sqlite_backend (dom_envelope r) t = (Inr (), t1)" "sq_inv t1" "sq_ok t1"
    "sq_snap t1 = sq_snap t" "\<forall>d h. d \<noteq> cd_domino_id r \<longrightarrow> sq_memo t1 i d h = sq_memo t i d h"
    using apply_dom_exported [OF Cons.prems(1-3) r] by blast
  obtain ps' where n: "note_applied (dom_envelope r) ps = Inr ps'" using note_dom_exported [OF r(1)] by blast
  have d: "distinct (map cd_domino_id drs)" "\<forall>q\<in>set drs. cd_domino_id q \<noteq> cd_domino_id r"
    using Cons.prems(4) by (simp, metis distinct.simps(2) imageI list.map(2) set_map)
  have rest: "\<forall>q\<in>set drs. dom_clean q \<and> cd_snapshot_id q = i
      \<and> sq_memo t1 i (cd_domino_id q) (cd_input_hash q) \<in> {None, Some (cd_output_hash q, cd_output q)}"
    using Cons.prems(5) t1(5) d(2) by auto
  have "sq_snap t1 i = Some (ts, data, True)" using t1(4) Cons.prems(3) by simp
  from Cons.IH [OF t1(2,3) this d(1) rest, of ps'] show ?case
    using matches_exported(2) [OF r(1)] r(2) t1(1) n by auto
qed auto

text \<open>The last result of a domino, as \<open>GetLatestResult\<close> finds it.\<close>

definition sq_latest :: "sqlite \<Rightarrow> string \<Rightarrow> dom_row \<Rightarrow> bool" where
  "sq_latest s i r \<longleftrightarrow> (case last_spine_result (sq_rows s i) (cd_domino_id r) of
      (q, True) \<Rightarrow> cd_input_hash r = re_input_hash q \<and> cd_output_hash r = re_output_hash q \<and> cd_output r = re_output q
    | (_, False) \<Rightarrow> sq_memo s i (cd_domino_id r) (cd_input_hash r) = Some (cd_output_hash r, cd_output r))"

lemma sq_latest_cong: "sq_rows s' = sq_rows s \<Longrightarrow> sq_memo s' = sq_memo s \<Longrightarrow> sq_latest s' = sq_latest s"
  by (intro ext) (simp only: sq_latest_def)

lemma sqlite_reads:
  "b_get_snapshot sqlite_backend = sq_get_snapshot" "b_get_latest sqlite_backend = sq_get_latest"
  by (simp_all add: sqlite_sel)

lemma export_dominos_Cons:
  assumes "export_dominos B i (d # ds) s = (Inr envs, s')"
  obtains ih oh out s1 envs1 where "b_get_latest B i d s = (Inr (ih, oh, out), s1)"
    "export_dominos B i ds s1 = (Inr envs1, s')"
    "envs = dom_envelope \<lparr>cd_snapshot_id = i, cd_domino_id = d, cd_input_hash = ih,
        cd_output_hash = oh, cd_output = out, cd_reused = False\<rparr> # envs1"
  using assms by (auto split: sum.splits prod.splits)

lemma export_from_store_Inr:
  assumes "export_from_store B i chain s = (Inr envs, s')"
  obtains ts data s1 envs1 where "b_get_snapshot B i s = (Inr (ts, data, True), s1)"
    "export_dominos B i chain s1 = (Inr envs1, s')"
    "envs = snap_envelope \<lparr>cs_snapshot_id = i, cs_time_slice = ts, cs_data = data, cs_sealed = True\<rparr> # envs1"
  using assms by (auto simp: export_from_store_def split: sum.splits prod.splits if_splits)

lemma export_dominos_laws:
  assumes "sq_inv s" "export_dominos sqlite_backend i chain s = (Inr envs, s')"
  shows "\<exists>drs. envs = map dom_envelope drs \<and> map cd_domino_id drs = chain
    \<and> (\<forall>r\<in>set drs. cd_snapshot_id r = i \<and> \<not> cd_reused r \<and> sq_latest s i r)"
  using assms
proof (induction chain arbitrary: s envs)
  case (Cons d chain)
  obtain ih oh out s1 envs1 where g: "sq_get_latest i d s = (Inr (ih, oh, out), s1)"
    and r: "export_dominos sqlite_backend i chain s1 = (Inr envs1, s')"
    and envs: "envs = dom_envelope \<lparr>cd_snapshot_id = i, cd_domino_id = d, cd_input_hash = ih,
        cd_output_hash = oh, cd_output = out, cd_reused = False\<rparr> # envs1"
    by (rule export_dominos_Cons [OF Cons.prems(2), unfolded sqlite_reads])
  note G = sq_get_latest_laws [OF g Cons.prems(1)]
  have inv1: "sq_inv s1" and v: "sq_rows s1 = sq_rows s" "sq_memo s1 = sq_memo s" using G Cons.prems(1) by blast+
  obtain drs where drs: "envs1 = map dom_envelope drs" "map cd_domino_id drs = chain"
    "\<forall>r\<in>set drs. cd_snapshot_id r = i \<and> \<not> cd_reused r \<and> sq_latest s i r"
    using Cons.IH [OF inv1 r] unfolding sq_latest_cong [OF v] by blast
  let ?r = "\<lparr>cd_snapshot_id = i, cd_domino_id = d, cd_input_hash = ih,
        cd_output_hash = oh, cd_output = out, cd_reused = False\<rparr>"
  have "case last_spine_result (sq_rows s i) d of
         (r, True) \<Rightarrow> ih = re_input_hash r \<and> oh = re_output_hash r \<and> out = re_output r
       | (_, False) \<Rightarrow> sq_memo s i d ih = Some (oh, out)"
    using G [THEN conjunct2, THEN conjunct2, THEN conjunct2, THEN conjunct2, THEN conjunct2] by simp
  then have "sq_latest s i ?r" unfolding sq_latest_def dom_row.select_convs .
  then show ?case using drs envs by (intro exI [of _ "?r # drs"]) simp
qed simp

lemma export_from_store_laws:
  assumes "sq_inv s" "export_from_store sqlite_backend i chain s = (Inr envs, s')"
  shows "\<exists>ts data drs. sq_snap s i = Some (ts, data, True)
    \<and> envs = snap_envelope \<lparr>cs_snapshot_id = i, cs_time_slice = ts, cs_data = data, cs_sealed = True\<rparr>
        # map dom_envelope drs
    \<and> map cd_domino_id drs = chain
    \<and> (\<forall>r\<in>set drs. cd_snapshot_id r = i \<and> \<not> cd_reused r \<and> sq_latest s i r)"
proof -
  obtain ts data s1 e1 where g: "sq_get_snapshot i s = (Inr (ts, data, True), s1)"
    and e: "export_dominos sqlite_backend i chain s1 = (Inr e1, s')"
    "envs = snap_envelope \<lparr>cs_snapshot_id = i, cs_time_slice = ts, cs_data = data, cs_sealed = True\<rparr> # e1"
    by (rule export_from_store_Inr [OF assms(2), unfolded sqlite_reads])
  note G = sq_get_snapshot_laws [OF g]
  have sn: "sq_snap s i = Some (ts, data, True)" using G by blast
  have v: "sq_inv s1" "sq_rows s1 = sq_rows s" "sq_memo s1 = sq_memo s" using G assms(1) by simp_all
  from export_dominos_laws [OF v(1) e(1)] sn e(2) show ?thesis
    unfolding sq_latest_cong [OF v(2,3)] by blast
qed

text \<open>No text of the envelopes is invalid UTF-8.\<close>

fun env_clean :: "envelope \<Rightarrow> bool" where
  "env_clean env = (case env_after env of PSnap r \<Rightarrow> snap_clean r | PDom r \<Rightarrow> dom_clean r | _ \<Rightarrow> False)"

lemma apply_snap_exported:
  assumes "sq_inv t" "sq_ok t" "snap_clean r" "cs_sealed r"
    and "sq_snap t (cs_snapshot_id r) \<in> {None, Some (cs_time_slice r, cs_data r, True)}"
  shows "\<exists>t'. apply_env sqlite_backend (snap_envelope r) t = (Inr (), t') \<and> sq_inv t' \<and> sq_ok t'
    \<and> sq_snap t' (cs_snapshot_id r) = Some (cs_time_slice r, cs_data r, True) \<and> sq_memo t' = sq_memo t
    \<and> sq_rows t' = sq_rows t"
proof -
  obtain u t1 where u: "sq_save_snapshot (cs_snapshot_id r) (cs_time_slice r) (cs_data r) True t = (u, t1)" by fastforce
  note S = sq_save_snapshot_laws [OF u assms(1)]
  have "u = Inr () \<or> (\<exists>a b. sq_snap t (cs_snapshot_id r) = Some (a, b, True) \<and> (a \<noteq> cs_time_slice r \<or> b \<noteq> cs_data r))"
    using mp [OF S [THEN conjunct2, THEN conjunct2, THEN conjunct2, THEN conjunct2, THEN conjunct2,
      THEN conjunct2] assms(2)] by blast
  then have "u = Inr ()" using assms(5) by auto
  moreover have "apply_env sqlite_backend (snap_envelope r) t = (u, t1)"
    using u assms(3,4) by (simp add: apply_env_def apply_snapshot_def snap_envelope_def decode_snap_clean
        op_create_def op_delete_def sqlite_sel)
  ultimately show ?thesis using S assms(2) by blast
qed

text \<open>
  C29 Replicating a sealed snapshot by change data capture: envelopes exported from one
  SQLite store and applied to another, without failures on the target and without a
  different record there, complete; the target then holds the same sealed snapshot and, for
  every domino of the chain, memoizes the source's last result, with one replay row each.
\<close>

theorem cdc_sync_replicates:
  assumes "sq_inv s" "export_from_store sqlite_backend i chain s = (Inr envs, s')"
    and "sq_inv t" "sq_ok t" "distinct chain" "list_all env_clean envs"
    and "sq_snap t i \<in> {None, sq_snap s i}"
    and "\<forall>r. PDom r \<in> env_after ` set envs \<longrightarrow>
      sq_memo t i (cd_domino_id r) (cd_input_hash r) \<in> {None, Some (cd_output_hash r, cd_output r)}"
  shows "\<exists>t' drs. sync_from_consumer (Inr envs) sqlite_backend i chain t
        = ((\<lparr>sp_snapshot_applied = True, sp_domino_count = int (length chain)\<rparr>, None), t')
    \<and> sq_snap t' i = sq_snap s i
    \<and> map cd_domino_id drs = chain \<and> sq_rows t' i = sq_rows t i @ map result_row drs
    \<and> (\<forall>r\<in>set drs. sq_latest s i r
         \<and> sq_memo t' i (cd_domino_id r) (cd_input_hash r) = Some (cd_output_hash r, cd_output r))"
proof -
  obtain ts data drs where sn: "sq_snap s i = Some (ts, data, True)"
    and envs: "envs = snap_envelope \<lparr>cs_snapshot_id = i, cs_time_slice = ts, cs_data = data, cs_sealed = True\<rparr>
        # map dom_envelope drs"
    and drs: "map cd_domino_id drs = chain"
      "\<forall>r\<in>set drs. cd_snapshot_id r = i \<and> \<not> cd_reused r \<and> sq_latest s i r"
    using export_from_store_laws [OF assms(1,2)] by blast
  let ?sr = "\<lparr>cs_snapshot_id = i, cs_time_slice = ts, cs_data = data, cs_sealed = True\<rparr>"
  have clean: "snap_clean ?sr" "\<forall>r\<in>set drs. dom_clean r"
    using assms(6) by (auto simp: envs snap_envelope_def dom_envelope_def list_all_iff)
  have memo: "\<forall>r\<in>set drs. sq_memo t i (cd_domino_id r) (cd_input_hash r) \<in> {None, Some (cd_output_hash r, cd_output r)}"
  proof
    fix r assume "r \<in> set drs"
    then have "dom_envelope r \<in> set envs" by (simp add: envs)
    then have "PDom r \<in> env_after ` set envs" by (rule rev_image_eqI) (simp add: dom_envelope_def)
    then show "sq_memo t i (cd_domino_id r) (cd_input_hash r) \<in> {None, Some (cd_output_hash r, cd_output r)}"
      using assms(8) by blast
  qed
  obtain t1 where t1: "apply_env sqlite_backend (snap_envelope ?sr) t = (Inr (), t1)" "sq_inv t1" "sq_ok t1"
    "sq_snap t1 i = Some (ts, data, True)" "sq_memo t1 = sq_memo t" "sq_rows t1 = sq_rows t"
    using apply_snap_exported [OF assms(3,4) clean(1)] assms(7) sn by auto
  have m: "matches_snapshot i (snap_envelope ?sr)" using matches_exported(1) [OF clean(1)] by simp
  have n: "note_applied (snap_envelope ?sr) (no_progress, []) = Inr (no_progress\<lparr>sp_snapshot_applied := True\<rparr>, [])"
    by (simp add: note_applied_def snap_envelope_def)
  obtain p' t' where loop: "apply_loop sqlite_backend i (map dom_envelope drs)
      (no_progress\<lparr>sp_snapshot_applied := True\<rparr>, []) t1 = ((p', None), t')"
    using apply_doms_exported [OF t1(2-4), of drs "(no_progress\<lparr>sp_snapshot_applied := True\<rparr>, [])"]
      drs assms(5) clean(2) memo t1(5) by auto
  have all: "apply_loop sqlite_backend i envs (no_progress, []) t = ((p', None), t')"
    using m n t1(1) loop by (simp add: envs)
  have dr: "dom_rows i envs = drs" "snap_rows i envs = [?sr]"
    using dom_rows_exported [of drs i] clean drs(2) m tables_differ
    by (auto simp: envs) (auto simp: snap_envelope_def decode_snap_clean)
  have nd: "\<forall>env\<in>set envs. env_op env \<noteq> op_delete"
    by (auto simp: envs snap_envelope_def dom_envelope_def op_create_def op_delete_def)
  have D: "sqlite.delivers i [?sr] drs t t'"
    using sqlite.apply_loop_delivers [OF assms(3) fits_sqlite all] nd dr by simp
  have "card (cd_domino_id ` set drs) = length chain"
    using drs(1) assms(5) distinct_card [of chain] by (metis list.set_map)
  then have p: "p' = \<lparr>sp_snapshot_applied = True, sp_domino_count = int (length chain)\<rparr>"
    using apply_loop_progress [OF all] dr by (simp add: no_progress_def sync_progress.equality)
  have "sync_from_consumer (Inr envs) sqlite_backend i chain t = ((p', None), t')"
    using all p by (simp add: sync_from_consumer_def apply_all_def is_complete_def)
  moreover have "sq_snap t' i = sq_snap s i" "sq_rows t' i = sq_rows t i @ map result_row drs"
    "\<forall>r\<in>set drs. sq_latest s i r \<and> sq_memo t' i (cd_domino_id r) (cd_input_hash r) = Some (cd_output_hash r, cd_output r)"
    using D sn drs(2) by (simp_all add: sqlite.delivers_def)
  ultimately show ?thesis using p drs(1) by blast
qed


definition demo_cdc_source :: sqlite where
  "demo_cdc_source = sq_empty\<lparr>sq_snaps := [(''s'', ''t'', ''data'', True)],
     sq_replay := [\<lparr>re_snapshot_id = ''s'', re_domino_id = ''d'', re_input_hash = ''in'', re_output_hash = ''oh'',
       re_output = ''out'', re_reused = True, re_prev_link = ''s'', re_link = ''l''\<rparr>]\<rparr>"

lemma demo_cdc_export:
  "export_from_store sqlite_backend ''s'' [''d''] demo_cdc_source =
     (Inr [snap_envelope \<lparr>cs_snapshot_id = ''s'', cs_time_slice = ''t'', cs_data = ''data'', cs_sealed = True\<rparr>,
        dom_envelope \<lparr>cd_snapshot_id = ''s'', cd_domino_id = ''d'', cd_input_hash = ''in'',
          cd_output_hash = ''oh'', cd_output = ''out'', cd_reused = False\<rparr>], demo_cdc_source)"
  by (simp add: export_from_store_def sqlite_reads demo_cdc_source_def sq_empty_def sq_get_snapshot_def
      sq_get_latest_def sq_call_def)

lemma cdc_sync_replicates_witness:
  "\<exists>envs t' r. export_from_store sqlite_backend ''s'' [''d''] demo_cdc_source = (Inr envs, demo_cdc_source)
     \<and> sync_from_consumer (Inr envs) sqlite_backend ''s'' [''d''] sq_empty
        = ((\<lparr>sp_snapshot_applied = True, sp_domino_count = 1\<rparr>, None), t')
     \<and> sq_snap t' ''s'' = Some (''t'', ''data'', True) \<and> sq_rows t' ''s'' = [result_row r]
     \<and> sq_latest demo_cdc_source ''s'' r"
proof -
  have inv: "sq_inv demo_cdc_source" "sq_inv sq_empty" "sq_ok sq_empty"
    by (simp_all add: sq_inv_def demo_cdc_source_def sq_empty_def sq_ok_def no_faults_def)
  have clean: "list_all env_clean [snap_envelope \<lparr>cs_snapshot_id = ''s'', cs_time_slice = ''t'', cs_data = ''data'', cs_sealed = True\<rparr>,
        dom_envelope \<lparr>cd_snapshot_id = ''s'', cd_domino_id = ''d'', cd_input_hash = ''in'',
          cd_output_hash = ''oh'', cd_output = ''out'', cd_reused = False\<rparr>]"
    by (simp add: snap_envelope_def dom_envelope_def snap_clean_def dom_clean_def valid_utf8.simps byte_in_def)
  have fresh: "sq_snap sq_empty ''s'' = None" "sq_memo sq_empty i d h = None" "sq_rows sq_empty ''s'' = []" for i d h
    by (simp_all add: sq_snap_def sq_memo_def sq_rows_def sq_empty_def)
  have src: "sq_snap demo_cdc_source ''s'' = Some (''t'', ''data'', True)"
    by (simp add: sq_snap_def demo_cdc_source_def)
  obtain t' r where "sync_from_consumer (Inr [snap_envelope \<lparr>cs_snapshot_id = ''s'', cs_time_slice = ''t'', cs_data = ''data'', cs_sealed = True\<rparr>,
        dom_envelope \<lparr>cd_snapshot_id = ''s'', cd_domino_id = ''d'', cd_input_hash = ''in'',
          cd_output_hash = ''oh'', cd_output = ''out'', cd_reused = False\<rparr>]) sqlite_backend ''s'' [''d''] sq_empty
        = ((\<lparr>sp_snapshot_applied = True, sp_domino_count = 1\<rparr>, None), t')"
    "sq_snap t' ''s'' = Some (''t'', ''data'', True)" "sq_rows t' ''s'' = [result_row r]" "sq_latest demo_cdc_source ''s'' r"
    using cdc_sync_replicates [OF inv(1) demo_cdc_export inv(2,3) _ clean] fresh src by auto
  then show ?thesis using demo_cdc_export by blast
qed

text \<open>
  C24 Applying any batch of envelopes to a SQLite store, under any failures: every sealed
  snapshot and every memoized output of the store survives, whatever the outcome.  When the
  batch is applied to its end and holds no delete, each of its snapshot rows was sealed and
  the store holds it sealed with that content, the domino rows are appended to the replay
  log of the snapshot in order, every row computed (not reused) is memoized, and the
  reported count is the number of distinct dominos.
\<close>

theorem cdc_apply_safe:
  assumes "sq_inv s" "apply_all sqlite_backend i envs s = ((p, eo), s')"
  shows "(\<forall>j ts dt. sq_snap s j = Some (ts, dt, True) \<longrightarrow> sq_snap s' j = Some (ts, dt, True))
    \<and> (\<forall>j d h v. sq_memo s j d h = Some v \<longrightarrow> sq_memo s' j d h = Some v)
    \<and> (eo = None \<and> (\<forall>env\<in>set envs. env_op env \<noteq> op_delete) \<longrightarrow>
         sq_rows s' i = sq_rows s i @ map result_row (dom_rows i envs)
         \<and> (\<forall>r\<in>set (snap_rows i envs). cs_sealed r \<and> sq_snap s' i = Some (cs_time_slice r, cs_data r, True))
         \<and> (\<forall>r\<in>set (dom_rows i envs). \<not> cd_reused r \<longrightarrow>
              sq_memo s' i (cd_domino_id r) (cd_input_hash r) = Some (cd_output_hash r, cd_output r))
         \<and> sp_domino_count p = int (card (cd_domino_id ` set (dom_rows i envs)))
         \<and> sp_snapshot_applied p = (snap_rows i envs \<noteq> []))"
proof -
  have l: "apply_loop sqlite_backend i envs (no_progress, []) s = ((p, eo), s')"
    using assms(2) by (simp add: apply_all_def)
  note D = sqlite.apply_loop_delivers [OF assms(1) fits_sqlite l]
  have k: "(\<forall>j ts dt. sq_snap s j = Some (ts, dt, True) \<longrightarrow> sq_snap s' j = Some (ts, dt, True))
    \<and> (\<forall>j d h v. sq_memo s j d h = Some v \<longrightarrow> sq_memo s' j d h = Some v)"
    using D [THEN conjunct1] by (auto simp: sqlite.keeps_def)
  have "sp_domino_count p = int (card (cd_domino_id ` set (dom_rows i envs)))"
    "sp_snapshot_applied p = (snap_rows i envs \<noteq> [])" if "eo = None"
    using apply_loop_progress [OF l [unfolded that]] by (simp_all add: no_progress_def)
  then show ?thesis using k D [THEN conjunct2] by (simp add: sqlite.delivers_def)
qed

lemma cdc_apply_safe_witness:
  "\<exists>e p s'. apply_all sqlite_backend ''s'' [snap_envelope \<lparr>cs_snapshot_id = ''s'', cs_time_slice = ''t'',
        cs_data = ''other'', cs_sealed = True\<rparr>] demo_cdc_source = ((p, Some e), s')
      \<and> sq_snap s' ''s'' = Some (''t'', ''data'', True)"
proof -
  let ?r = "\<lparr>cs_snapshot_id = ''s'', cs_time_slice = ''t'', cs_data = ''other'', cs_sealed = True\<rparr>"
  obtain p eo s' where a: "apply_all sqlite_backend ''s'' [snap_envelope ?r] demo_cdc_source = ((p, eo), s')"
    by (metis prod.collapse)
  have inv: "sq_inv demo_cdc_source" by (simp add: sq_inv_def demo_cdc_source_def sq_empty_def)
  have src: "sq_snap demo_cdc_source ''s'' = Some (''t'', ''data'', True)"
    by (simp add: sq_snap_def demo_cdc_source_def)
  have c: "snap_clean ?r" by (simp add: snap_clean_def valid_utf8.simps byte_in_def)
  have "snap_rows ''s'' [snap_envelope ?r] = [?r]"
    using matches_exported(1) [OF c] by (simp add: snap_envelope_def decode_snap_clean [OF c])
  moreover have "env_op (snap_envelope ?r) \<noteq> op_delete"
    by (simp add: snap_envelope_def op_create_def op_delete_def)
  ultimately have "eo \<noteq> None" using cdc_apply_safe [OF inv a] src by auto
  then show ?thesis using cdc_apply_safe [OF inv a] src a by auto
qed

text \<open>
  A delete envelope is skipped by the store but counted by the progress: a batch of one
  deletion of a snapshot reports the snapshot as applied, and the store does not hold it.
\<close>

theorem cdc_delete_counts_as_applied:
  assumes "snap_clean r"
  shows "apply_all B (cs_snapshot_id r) [(snap_envelope r)\<lparr>env_op := op_delete\<rparr>] s
    = ((\<lparr>sp_snapshot_applied = True, sp_domino_count = 0\<rparr>, None), s)"
  using matches_exported(1) [OF assms]
  by (simp add: apply_all_def apply_env_def apply_snapshot_def note_applied_def no_progress_def
      matches_snapshot_def snap_envelope_def)

lemma cdc_delete_counts_as_applied_witness:
  "\<exists>env. env_op env = op_delete \<and> apply_all sqlite_backend ''s'' [env] sq_empty
    = ((\<lparr>sp_snapshot_applied = True, sp_domino_count = 0\<rparr>, None), sq_empty)
    \<and> sq_snap sq_empty ''s'' = None"
proof -
  have "snap_clean \<lparr>cs_snapshot_id = ''s'', cs_time_slice = ''t'', cs_data = ''x'', cs_sealed = True\<rparr>"
    by (simp add: snap_clean_def valid_utf8.simps byte_in_def)
  from cdc_delete_counts_as_applied [OF this, of sqlite_backend sq_empty] show ?thesis
    by (intro exI [of _ "(snap_envelope \<lparr>cs_snapshot_id = ''s'', cs_time_slice = ''t'', cs_data = ''x'',
      cs_sealed = True\<rparr>)\<lparr>env_op := op_delete\<rparr>"]) (simp add: sq_snap_def sq_empty_def)
qed


end
