(* ===== verification/Events.thy ===== *)
theory Events
  imports GoTime JsonTrip Spine
begin

text \<open>
  The event bus of \<open>pkg/events\<close>: the snapshot-completed event and its content address, the
  in-process bus, and the Kafka bus with the broker as a fault schedule and a message log.
  A handler is a function on a state of its own, which the buses thread through; it does not
  call back into the bus that calls it.  The lemmas show that a bus delivers an event ID at
  most once.
\<close>

section \<open>Events\<close>

definition type_snapshot_completed :: string where
  "type_snapshot_completed = ''kbl.snapshot.completed''"

record snapshot_event =
  ev_event_id :: string
  ev_type :: string
  ev_snapshot_id :: string
  ev_time_slice :: string
  ev_workflow :: string
  ev_namespace :: string
  ev_universe :: string
  ev_multiverse :: string
  ev_partitions :: "(string \<times> string) list"
  ev_final_output :: string
  ev_worldline :: string
  ev_head_link :: string
  ev_occurred_at :: int

definition event_id :: "string \<Rightarrow> string \<Rightarrow> string \<Rightarrow> string \<Rightarrow> string res" where
  "event_id snapshotID wline universe wkflow =
     link [''kbl.snapshot.completed'', snapshotID, wline, universe, wkflow]"

text \<open>
  Two events with one ID agree on the joined record, or the two texts collide in SHA-256;
  fields without a colon, which all the program's IDs and names are, then agree one by one.
\<close>

definition event_key :: "string \<Rightarrow> string \<Rightarrow> string \<Rightarrow> string \<Rightarrow> string" where
  "event_key s w u k = join_with '':'' [''kbl.snapshot.completed'', s, w, u, k]"

lemma event_id_eq: "event_id s w u k = Inr (compute_str (event_key s w u k))"
  by (simp add: event_id_def link_Inr event_key_def)

lemma event_key_inject:
  assumes "event_key s w u k = event_key s' w' u' k'"
    and "CHR '':'' \<notin> set (s @ w @ u @ k)" "CHR '':'' \<notin> set (s' @ w' @ u' @ k')"
  shows "s = s' \<and> w = w' \<and> u = u' \<and> k = k'"
proof -
  have "[''kbl.snapshot.completed'', s, w, u, k] = [''kbl.snapshot.completed'', s', w', u', k']"
    by (rule join_with_inject [of _ "CHR '':''"]) (use assms in \<open>auto simp: event_key_def\<close>)
  then show ?thesis by simp
qed

lemma event_id_inject:
  assumes "event_id s w u k = event_id s' w' u' k'"
    and "CHR '':'' \<notin> set (s @ w @ u @ k)" "CHR '':'' \<notin> set (s' @ w' @ u' @ k')"
  shows "(s = s' \<and> w = w' \<and> u = u' \<and> k = k')
    \<or> sha_collision (event_key s w u k) (event_key s' w' u' k')"
  using assms event_key_inject compute_str_eqD unfolding event_id_eq by blast

section \<open>Events as JSON\<close>

definition event_json :: "snapshot_event \<Rightarrow> string res" where
  "event_json e =
     bindr (json_time (ev_occurred_at e)) (\<lambda>t. Inr (json_obj
       ([(''event_id'', json_string (ev_event_id e)), (''type'', json_string (ev_type e)),
         (''snapshot_id'', json_string (ev_snapshot_id e)),
         (''time_slice'', json_string (ev_time_slice e)),
         (''workflow'', json_string (ev_workflow e)),
         (''namespace'', json_string (ev_namespace e))]
        @ omit_empty ''universe'' (ev_universe e) @ omit_empty ''multiverse'' (ev_multiverse e)
        @ (if ev_partitions e = [] then [] else [(''partitions'', json_strmap (ev_partitions e))])
        @ omit_empty ''final_output_hash'' (ev_final_output e)
        @ omit_empty ''worldline'' (ev_worldline e) @ omit_empty ''head_link'' (ev_head_link e)
        @ [(''occurred_at'', t)])))"

fun dec_strmap :: "gval option \<Rightarrow> (string \<times> string) list res" where
  "dec_strmap None = Inr []"
| "dec_strmap (Some (GMap [])) = Inr []"
| "dec_strmap (Some (GMap ((k, GStr v) # m))) =
     bindr (dec_strmap (Some (GMap m))) (\<lambda>r. Inr ((k, v) # r))"
| "dec_strmap (Some (GMap ((k, GNil) # m))) =
     bindr (dec_strmap (Some (GMap m))) (\<lambda>r. Inr ((k, '''') # r))"
| "dec_strmap (Some _) = Inl json_error"

fun dec_time :: "gval option \<Rightarrow> int res" where
  "dec_time None = Inr zero_time"
| "dec_time (Some (GStr s)) = parse_rfc3339 s"
| "dec_time (Some _) = Inl json_error"

definition event_of_json :: "string \<Rightarrow> snapshot_event res" where
  "event_of_json s = bindr (json_unmarshal s) (\<lambda>v. case v of
      GMap m \<Rightarrow>
        (let str = (\<lambda>k. dec_string (json_field k m)) in
         bindr (str ''event_id'') (\<lambda>i. bindr (str ''type'') (\<lambda>ty. bindr (str ''snapshot_id'') (\<lambda>sid.
         bindr (str ''time_slice'') (\<lambda>ts. bindr (str ''workflow'') (\<lambda>k. bindr (str ''namespace'') (\<lambda>ns.
         bindr (str ''universe'') (\<lambda>u. bindr (str ''multiverse'') (\<lambda>mv.
         bindr (dec_strmap (json_field ''partitions'' m)) (\<lambda>ps.
         bindr (str ''final_output_hash'') (\<lambda>fo. bindr (str ''worldline'') (\<lambda>w.
         bindr (str ''head_link'') (\<lambda>h. bindr (dec_time (json_field ''occurred_at'' m)) (\<lambda>t.
         Inr \<lparr>ev_event_id = i, ev_type = ty, ev_snapshot_id = sid, ev_time_slice = ts,
              ev_workflow = k, ev_namespace = ns, ev_universe = u, ev_multiverse = mv,
              ev_partitions = ps, ev_final_output = fo, ev_worldline = w, ev_head_link = h,
              ev_occurred_at = t\<rparr>))))))))))))))
    | GNil \<Rightarrow> Inr \<lparr>ev_event_id = '''', ev_type = '''', ev_snapshot_id = '''', ev_time_slice = '''',
              ev_workflow = '''', ev_namespace = '''', ev_universe = '''', ev_multiverse = '''',
              ev_partitions = [], ev_final_output = '''', ev_worldline = '''', ev_head_link = '''',
              ev_occurred_at = zero_time\<rparr>
    | _ \<Rightarrow> Inl json_error)"

section \<open>The in-process bus\<close>

type_synonym 'w handler = "snapshot_event \<Rightarrow> 'w \<Rightarrow> unit res \<times> 'w"

record 'w memory_bus =
  mb_handlers :: "'w handler list"
  mb_seen :: "string list"
  mb_published :: "snapshot_event list"
  mb_closed :: bool

definition new_memory_bus :: "'w memory_bus" where
  "new_memory_bus = \<lparr>mb_handlers = [], mb_seen = [], mb_published = [], mb_closed = False\<rparr>"

text \<open>The handlers run in subscription order and stop at the first error.\<close>

fun run_handlers :: "'w handler list \<Rightarrow> snapshot_event \<Rightarrow> 'w \<Rightarrow> unit res \<times> 'w" where
  "run_handlers [] evt w = (Inr (), w)"
| "run_handlers (h # hs) evt w =
     (case h evt w of (Inl e, w') \<Rightarrow> (Inl e, w') | (Inr _, w') \<Rightarrow> run_handlers hs evt w')"

definition memory_publish ::
  "snapshot_event \<Rightarrow> 'w memory_bus \<Rightarrow> 'w \<Rightarrow> unit res \<times> 'w memory_bus \<times> 'w" where
  "memory_publish evt b w =
     (if mb_closed b then (Inl err_canceled, b, w)
      else if ev_event_id evt \<noteq> '''' \<and> ev_event_id evt \<in> set (mb_seen b) then (Inr (), b, w)
      else
        let b1 = (if ev_event_id evt \<noteq> '''' then b\<lparr>mb_seen := ev_event_id evt # mb_seen b\<rparr> else b);
            b2 = b1\<lparr>mb_published := mb_published b1 @ [evt]\<rparr>;
            (r, w') = run_handlers (mb_handlers b2) evt w
        in (r, b2, w'))"

definition memory_subscribe :: "'w handler \<Rightarrow> 'w memory_bus \<Rightarrow> unit res \<times> 'w memory_bus" where
  "memory_subscribe h b =
     (if mb_closed b then (Inl err_canceled, b)
      else (Inr (), b\<lparr>mb_handlers := mb_handlers b @ [h]\<rparr>))"

definition memory_published :: "'w memory_bus \<Rightarrow> snapshot_event list" where
  "memory_published b = mb_published b"

definition memory_close :: "'w memory_bus \<Rightarrow> unit res \<times> 'w memory_bus" where
  "memory_close b = (Inr (), b\<lparr>mb_closed := True, mb_handlers := []\<rparr>)"

text \<open>The discarding bus.\<close>

definition noop_publish :: "snapshot_event \<Rightarrow> unit res" where
  "noop_publish evt = Inr ()"

definition noop_subscribe :: "'w handler \<Rightarrow> unit res" where
  "noop_subscribe h = Inr ()"

definition noop_close :: "unit res" where
  "noop_close = Inr ()"

subsection \<open>Sequences of calls\<close>

datatype 'w bus_op = OpPublish snapshot_event | OpSubscribe "'w handler" | OpClose

fun bus_step :: "'w bus_op \<Rightarrow> 'w memory_bus \<times> 'w \<Rightarrow> 'w memory_bus \<times> 'w" where
  "bus_step (OpPublish evt) (b, w) = snd (memory_publish evt b w)"
| "bus_step (OpSubscribe h) (b, w) = (snd (memory_subscribe h b), w)"
| "bus_step OpClose (b, w) = (snd (memory_close b), w)"

text \<open>
  What every sequence of calls keeps: the published events with an ID have pairwise
  different IDs, and these are the IDs seen.
\<close>

definition ids_of :: "snapshot_event list \<Rightarrow> string list" where
  "ids_of es = filter (\<lambda>i. i \<noteq> '''') (map ev_event_id es)"

definition bus_inv :: "'w memory_bus \<Rightarrow> bool" where
  "bus_inv b \<longleftrightarrow> mb_seen b = rev (ids_of (mb_published b)) \<and> distinct (mb_seen b)
     \<and> (mb_closed b \<longrightarrow> mb_handlers b = [])"

lemma ids_of_snoc [simp]:
  "ids_of (es @ [e]) = ids_of es @ (if ev_event_id e \<noteq> '''' then [ev_event_id e] else [])"
  by (simp add: ids_of_def)

lemma memory_publish_inv:
  "bus_inv b \<Longrightarrow> memory_publish evt b w = (r, b', w') \<Longrightarrow> bus_inv b'"
  by (auto simp: memory_publish_def bus_inv_def Let_def split: if_splits prod.splits)

lemma bus_step_inv: "bus_inv b \<Longrightarrow> bus_inv (fst (bus_step op (b, w)))"
proof (cases op)
  case (OpPublish evt)
  obtain r b' w' where "memory_publish evt b w = (r, b', w')" by (metis prod_cases3)
  then show "bus_inv b \<Longrightarrow> ?thesis" using OpPublish memory_publish_inv by fastforce
qed (auto simp: memory_subscribe_def memory_close_def bus_inv_def)

lemma bus_run_inv: "bus_inv (fst s) \<Longrightarrow> bus_inv (fst (fold bus_step ops s))"
proof (induction ops arbitrary: s)
  case (Cons op ops)
  then show ?case using bus_step_inv [of "fst s" op "snd s"] by simp
qed simp

lemma new_memory_bus_inv: "bus_inv new_memory_bus"
  by (simp add: bus_inv_def new_memory_bus_def ids_of_def)

lemma bus_step_grows:
  "bus_step op (b, w) = (b', w') \<Longrightarrow> \<exists>es. mb_published b' = mb_published b @ es"
  by (cases op) (auto simp: memory_publish_def memory_subscribe_def memory_close_def Let_def
      split: if_splits prod.splits)

lemma bus_run_grows:
  "fold bus_step ops (b, w) = (b', w') \<Longrightarrow> \<exists>es. mb_published b' = mb_published b @ es"
proof (induction ops arbitrary: b w)
  case (Cons op ops)
  obtain b1 w1 where "bus_step op (b, w) = (b1, w1)" by (cases "bus_step op (b, w)")
  with Cons bus_step_grows [OF this] show ?case by fastforce
qed simp

lemma distinct_filter_once: "distinct xs \<Longrightarrow> length (filter (\<lambda>x. x = i) xs) \<le> 1"
  by (induction xs) (auto simp: filter_empty_conv)

lemma length_filter_ids:
  "i \<noteq> '''' \<Longrightarrow> length (filter (\<lambda>e. ev_event_id e = i) es) = length (filter (\<lambda>x. x = i) (ids_of es))"
  by (induction es rule: rev_induct) (auto simp: ids_of_def)

lemma published_once:
  assumes "fold bus_step ops (new_memory_bus, w0) = (b, w)" "i \<noteq> ''''"
  shows "length (filter (\<lambda>e. ev_event_id e = i) (memory_published b)) \<le> 1"
proof -
  have "bus_inv b" using bus_run_inv [of "(new_memory_bus, w0)" ops] assms(1) new_memory_bus_inv by simp
  then have "distinct (ids_of (mb_published b))" unfolding bus_inv_def by (metis distinct_rev)
  from distinct_filter_once [OF this, of i] show ?thesis
    by (simp add: memory_published_def length_filter_ids [OF assms(2)])
qed

lemma bus_step_seen:
  "bus_step op (b, w) = (b', w') \<Longrightarrow> set (mb_seen b) \<subseteq> set (mb_seen b') \<and> (mb_closed b \<longrightarrow> mb_closed b')"
  by (cases op) (auto simp: memory_publish_def memory_subscribe_def memory_close_def Let_def
      split: if_splits prod.splits)

lemma bus_run_seen:
  "fold bus_step ops (b, w) = (b', w') \<Longrightarrow> set (mb_seen b) \<subseteq> set (mb_seen b') \<and> (mb_closed b \<longrightarrow> mb_closed b')"
proof (induction ops arbitrary: b w)
  case (Cons op ops)
  obtain b1 w1 where s: "bus_step op (b, w) = (b1, w1)" by (cases "bus_step op (b, w)")
  with Cons.prems have "fold bus_step ops (b1, w1) = (b', w')" by simp
  from Cons.IH [OF this] bus_step_seen [OF s] show ?case by blast
qed simp

lemma memory_publish_seen:
  assumes "memory_publish evt b w = (r, b1, w1)" "\<not> mb_closed b" "ev_event_id evt \<noteq> ''''"
  shows "ev_event_id evt \<in> set (mb_seen b1)"
  using assms by (auto simp: memory_publish_def Let_def split: if_splits prod.splits)

section \<open>The Kafka bus\<close>

text \<open>
  \<open>KafkaBus\<close>: the writer appends to the broker's log or fails as the fault schedule says; the
  reader delivers the messages of a log.  A message is its key and its value; the time the
  producer stamps on it is not read back.
\<close>

record kafka_config =
  kg_brokers :: "string list"
  kg_topic :: string
  kg_group :: string

record 'w kafka_bus =
  kb_config :: kafka_config
  kb_handlers :: "'w handler list"
  kb_seen :: "string list"
  kb_closed :: bool

record broker =
  br_log :: "(string \<times> string) list"
  br_faults :: faults

definition new_kafka_bus :: "kafka_config \<Rightarrow> 'w kafka_bus res" where
  "new_kafka_bus cfg =
     (if kg_brokers cfg = [] then Inl (errorf ''kafka brokers required'')
      else Inr \<lparr>kb_config = cfg\<lparr>
             kg_topic := (if kg_topic cfg = '''' then ''kbl.snapshot.events'' else kg_topic cfg),
             kg_group := (if kg_group cfg = '''' then ''kbl-multiverse'' else kg_group cfg)\<rparr>,
           kb_handlers = [], kb_seen = [], kb_closed = False\<rparr>)"

definition write_message :: "string \<Rightarrow> string \<Rightarrow> broker \<Rightarrow> unit res \<times> broker" where
  "write_message key body k =
     (case next_fault (br_faults k) of
        (Some e, fs) \<Rightarrow> (Inl e, k\<lparr>br_faults := fs\<rparr>)
      | (None, fs) \<Rightarrow> (Inr (), k\<lparr>br_faults := fs, br_log := br_log k @ [(key, body)]\<rparr>))"

definition event_message_key :: "snapshot_event \<Rightarrow> string" where
  "event_message_key evt =
     (if ev_event_id evt \<noteq> '''' then ev_event_id evt
      else if ev_snapshot_id evt \<noteq> '''' then ev_snapshot_id evt else ev_workflow evt)"

definition kafka_publish ::
  "snapshot_event \<Rightarrow> 'w kafka_bus \<Rightarrow> broker \<Rightarrow> unit res \<times> 'w kafka_bus \<times> broker" where
  "kafka_publish evt b k =
     (if kb_closed b then (Inl err_canceled, b, k)
      else if ev_event_id evt \<noteq> '''' \<and> ev_event_id evt \<in> set (kb_seen b) then (Inr (), b, k)
      else
        let b' = (if ev_event_id evt \<noteq> '''' then b\<lparr>kb_seen := ev_event_id evt # kb_seen b\<rparr> else b)
        in case event_json evt of
            Inl e \<Rightarrow> (Inl e, b', k)
          | Inr body \<Rightarrow>
              (case write_message (event_message_key evt) body k of (r, k') \<Rightarrow> (r, b', k')))"

definition kafka_subscribe :: "'w handler \<Rightarrow> 'w kafka_bus \<Rightarrow> unit res \<times> 'w kafka_bus" where
  "kafka_subscribe h b = (Inr (), b\<lparr>kb_handlers := kb_handlers b @ [h]\<rparr>)"

text \<open>The consumer gives a decoded event to every handler, whatever they return.\<close>

fun call_handlers :: "'w handler list \<Rightarrow> snapshot_event \<Rightarrow> 'w \<Rightarrow> 'w" where
  "call_handlers [] evt w = w"
| "call_handlers (h # hs) evt w = call_handlers hs evt (snd (h evt w))"

fun consume_loop :: "'w handler list \<Rightarrow> string list \<Rightarrow> 'w \<Rightarrow> 'w" where
  "consume_loop hs [] w = w"
| "consume_loop hs (v # vs) w =
     (case event_of_json v of
        Inl _ \<Rightarrow> consume_loop hs vs w
      | Inr evt \<Rightarrow> consume_loop hs vs (call_handlers hs evt w))"

text \<open>\<open>Close\<close> reports the first error of closing writer and reader, once.\<close>

definition kafka_close :: "unit res \<Rightarrow> unit res \<Rightarrow> 'w kafka_bus \<Rightarrow> unit res \<times> 'w kafka_bus" where
  "kafka_close writer reader b =
     (if kb_closed b then (Inr (), b)
      else (case writer of Inl e \<Rightarrow> Inl e | Inr _ \<Rightarrow> reader, b\<lparr>kb_closed := True\<rparr>))"

text \<open>\<open>Ping\<close>: dial the first broker and list the brokers.\<close>

definition kafka_ping :: "(string \<Rightarrow> unit res) \<Rightarrow> (string \<Rightarrow> unit res) \<Rightarrow> string list \<Rightarrow> unit res" where
  "kafka_ping dial list_brokers brokers =
     (case brokers of
        [] \<Rightarrow> Inl (errorf ''no brokers'')
      | b # _ \<Rightarrow> bindr (dial b) (\<lambda>_. list_brokers b))"

lemma call_handlers_snoc:
  "call_handlers (hs @ [h]) evt w = snd (h evt (call_handlers hs evt w))"
  by (induction hs arbitrary: w) auto

lemma consume_loop_append:
  "consume_loop hs (vs @ vs') w = consume_loop hs vs' (consume_loop hs vs w)"
  by (induction hs vs w rule: consume_loop.induct) (auto split: sum.splits)

lemma kafka_publish_failed_seen:
  assumes "kafka_publish evt b k = (Inl e, b', k')" "\<not> kb_closed b" "ev_event_id evt \<noteq> ''''"
  shows "ev_event_id evt \<in> set (kb_seen b')" "\<not> kb_closed b'" "br_log k' = br_log k"
  using assms by (auto simp: kafka_publish_def write_message_def Let_def
      split: if_splits prod.splits sum.splits option.splits)

section \<open>Properties\<close>

text \<open>
  C36 Whatever is published, subscribed and closed on a new in-process bus, no event ID is
  published twice; and once an event has been published, also when a handler failed on it,
  publishing its ID again while the bus is open returns nil and reaches no handler.
\<close>

theorem memory_bus_at_most_once:
  assumes "fold bus_step ops (new_memory_bus, w0) = (b, w)" "i \<noteq> ''''"
    and "memory_publish evt b w = (r, b1, w1)" "ev_event_id evt = i" "\<not> mb_closed b"
    and "fold bus_step ops' (b1, w1) = (b2, w2)" "\<not> mb_closed b2" "ev_event_id evt' = i"
  shows "length (filter (\<lambda>e. ev_event_id e = i) (memory_published b2)) = 1
    \<and> memory_publish evt' b2 w2 = (Inr (), b2, w2)"
proof -
  have i1: "i \<in> set (mb_seen b1)" using memory_publish_seen assms by fastforce
  then have i2: "i \<in> set (mb_seen b2)" using bus_run_seen [OF assms(6)] by blast
  have all: "fold bus_step (ops @ OpPublish evt # ops') (new_memory_bus, w0) = (b2, w2)"
    using assms(1,3,6) by simp
  then have "bus_inv b2" using bus_run_inv [of "(new_memory_bus, w0)"] new_memory_bus_inv by (metis fst_conv)
  then have "i \<in> set (ids_of (mb_published b2))" using i2 by (auto simp: bus_inv_def)
  then have "filter (\<lambda>x. x = i) (ids_of (mb_published b2)) \<noteq> []" by (auto simp: filter_empty_conv)
  then have "length (filter (\<lambda>e. ev_event_id e = i) (mb_published b2)) \<noteq> 0"
    by (simp add: length_filter_ids [OF assms(2)])
  then have "length (filter (\<lambda>e. ev_event_id e = i) (memory_published b2)) = 1"
    using published_once [OF all assms(2)] unfolding memory_published_def by linarith
  then show ?thesis using assms(2,7,8) i2 by (simp add: memory_publish_def)
qed

definition demo_event :: snapshot_event where
  "demo_event = \<lparr>ev_event_id = ''e1'', ev_type = type_snapshot_completed, ev_snapshot_id = ''s'',
     ev_time_slice = ''t'', ev_workflow = ''w'', ev_namespace = ''n'', ev_universe = ''u'',
     ev_multiverse = ''m'', ev_partitions = [], ev_final_output = ''o'', ev_worldline = ''o'',
     ev_head_link = ''h'', ev_occurred_at = 0\<rparr>"

definition failing_handler :: "nat handler" where
  "failing_handler evt n = (Inl (errorf ''handler''), Suc n)"

lemma memory_bus_at_most_once_witness:
  "memory_publish demo_event
     \<lparr>mb_handlers = [failing_handler], mb_seen = [''e1''], mb_published = [demo_event], mb_closed = False\<rparr> 1
   = (Inr (), \<lparr>mb_handlers = [failing_handler], mb_seen = [''e1''], mb_published = [demo_event],
        mb_closed = False\<rparr>, 1)"
  using memory_bus_at_most_once [of "[OpSubscribe failing_handler]" 0
      "\<lparr>mb_handlers = [failing_handler], mb_seen = [], mb_published = [], mb_closed = False\<rparr>" 0 "''e1''"
      demo_event "Inl (errorf ''handler'')"
      "\<lparr>mb_handlers = [failing_handler], mb_seen = [''e1''], mb_published = [demo_event], mb_closed = False\<rparr>"
      1 "[]" "\<lparr>mb_handlers = [failing_handler], mb_seen = [''e1''], mb_published = [demo_event], mb_closed = False\<rparr>"
      1 demo_event]
  by (simp add: memory_publish_def memory_subscribe_def new_memory_bus_def demo_event_def failing_handler_def)

text \<open>
  The Kafka bus records an event ID as published before it writes the message: after a
  failed write, publishing the same event again reports success although the broker never
  receives it.
\<close>

theorem kafka_retry_loses_event:
  assumes "kafka_publish evt b k = (Inl e, b', k')" "\<not> kb_closed b" "ev_event_id evt \<noteq> ''''"
  shows "kafka_publish evt b' k'' = (Inr (), b', k'') \<and> br_log k' = br_log k"
  using kafka_publish_failed_seen [OF assms] assms(3) by (simp add: kafka_publish_def)

lemma kafka_retry_loses_event_witness:
  "\<exists>e b' k'. kafka_publish demo_event
     \<lparr>kb_config = \<lparr>kg_brokers = [''b''], kg_topic = ''t'', kg_group = ''g''\<rparr>, kb_handlers = [],
      kb_seen = [], kb_closed = False\<rparr> \<lparr>br_log = [], br_faults = [Some ''broker down'']\<rparr> = (Inl e, b', k')
   \<and> kafka_publish demo_event b' k' = (Inr (), b', k') \<and> br_log k' = []"
  (is "\<exists>e b' k'. kafka_publish _ ?b ?k = _ \<and> _ \<and> _")
proof -
  obtain e b' k' where p: "kafka_publish demo_event ?b ?k = (Inl e, b', k')"
    by (cases "event_json demo_event") (auto simp: kafka_publish_def write_message_def demo_event_def)
  with kafka_retry_loses_event [OF p, of k'] show ?thesis by (auto simp: demo_event_def)
qed

section \<open>Events on the wire\<close>

text \<open>The members of an encoded event with the values they are read as.\<close>

definition opt_member :: "string \<Rightarrow> string \<Rightarrow> (string \<times> string \<times> gval) list" where
  "opt_member k v = (if v = '''' then [] else [(k, json_string v, GStr (sanitize v))])"

definition str_member :: "string \<Rightarrow> string \<Rightarrow> string \<times> string \<times> gval" where
  "str_member k v = (k, json_string v, GStr (sanitize v))"

definition event_members :: "snapshot_event \<Rightarrow> string \<Rightarrow> (string \<times> string \<times> gval) list" where
  "event_members e t =
     [str_member ''event_id'' (ev_event_id e), str_member ''type'' (ev_type e),
      str_member ''snapshot_id'' (ev_snapshot_id e), str_member ''time_slice'' (ev_time_slice e),
      str_member ''workflow'' (ev_workflow e), str_member ''namespace'' (ev_namespace e)]
     @ opt_member ''universe'' (ev_universe e) @ opt_member ''multiverse'' (ev_multiverse e)
     @ (if ev_partitions e = [] then [] else [(''partitions'', json_strmap (ev_partitions e),
          GMap (map (\<lambda>(k, v). (k, GStr (sanitize v))) (ev_partitions e)))])
     @ opt_member ''final_output_hash'' (ev_final_output e)
     @ opt_member ''worldline'' (ev_worldline e) @ opt_member ''head_link'' (ev_head_link e)
     @ [str_member ''occurred_at'' t]"

definition event_clean :: "snapshot_event \<Rightarrow> bool" where
  "event_clean e = (list_all valid_utf8 [ev_event_id e, ev_type e, ev_snapshot_id e, ev_time_slice e,
       ev_workflow e, ev_namespace e, ev_universe e, ev_multiverse e, ev_final_output e,
       ev_worldline e, ev_head_link e]
     \<and> list_all (\<lambda>(k, v). valid_utf8 k \<and> valid_utf8 v) (ev_partitions e)
     \<and> sorted (map fst (ev_partitions e)) \<and> distinct (map fst (ev_partitions e))
     \<and> four_digit_year (ev_occurred_at e))"

lemma reads_strmap:
  assumes "list_all (\<lambda>(k, v). valid_utf8 k) m" "sorted (map fst m)" "distinct (map fst m)"
  shows "reads 1 (json_strmap m) (GMap (map (\<lambda>(k, v). (k, GStr (sanitize v))) m))"
proof -
  let ?fs = "map (\<lambda>(k, v). (k, json_string v, GStr (sanitize v))) m"
  have "reads (Suc 0) (json_obj (map (\<lambda>(k, t, v). (k, t)) ?fs)) (GMap (map (\<lambda>(k, t, v). (k, v)) ?fs))"
    by (rule reads_obj) (use assms in \<open>auto simp: list_all_iff sanitize_valid reads_string comp_def case_prod_beta\<close>)
  moreover have "sort_key fst m = m" using assms(2) by (simp add: sort_key_id_if_sorted)
  ultimately show ?thesis by (simp add: json_strmap_def comp_def split_def)
qed

lemma dec_strmap_strings: "dec_strmap (Some (GMap (map (\<lambda>(k, v). (k, GStr v)) m))) = Inr m"
  by (induction m) auto

lemma json_esc_safe: "list_all json_safe s \<Longrightarrow> json_esc s = s"
  by (induction s) (auto simp: json_esc.simps json_esc_ascii_def json_safe_def byte_in_def)

lemma json_safe_digit: "n < 10 \<Longrightarrow> json_safe (digit_char n)"
  by (auto simp: json_safe_def byte_in_def digit_char_def char_of_eq_iff take_bit_eq_mod)

lemma json_safe_fmt2: "n < 100 \<Longrightarrow> list_all json_safe (fmt2 n)"
  by (simp add: fmt2_def json_safe_digit)

lemma json_safe_fmt_digits: "list_all json_safe (fmt_digits k n)"
  by (induction k arbitrary: n) (auto simp: json_safe_digit)

lemma json_safe_trim: "list_all json_safe s \<Longrightarrow> list_all json_safe (trim_right_char c s)"
  by (auto simp: trim_right_char_def list_all_iff dest: set_dropWhileD)

lemma json_safe_rfc3339nano:
  assumes "four_digit_year t" shows "list_all json_safe (format_rfc3339nano t)"
proof -
  obtain y m d where d: "date_of t = (y, m, d)" by (metis prod_cases3)
  obtain h mi s where c: "clock_of t = (h, mi, s)" by (metis prod_cases3)
  note cv = civil_of_days_valid [OF d [unfolded date_of_def]]
  have d31: "d \<le> 31" using cv(5) days_in_le [OF cv(2,3)] by (rule order_trans)
  have y: "0 \<le> y" "y < 10000" using assms d by (auto simp: four_digit_year_def)
  have "nat y div 100 < 100" using y by (simp add: less_mult_imp_div_less nat_less_iff)
  then have "list_all json_safe (fmt_year y)" using y by (simp add: fmt_year_def json_safe_fmt2)
  moreover have "json_safe (CHR ''-'')" "json_safe (CHR ''T'')" "json_safe (CHR '':'')"
    "json_safe (CHR ''Z'')" "json_safe (CHR ''.'')" by (simp_all add: json_safe_def byte_in_def)
  ultimately show ?thesis
    using cv d31 clock_of_bounds [OF c]
    by (simp add: format_rfc3339nano_def fmt_date_clock_def d c json_safe_fmt2 json_safe_fmt_digits
        json_safe_trim Let_def)
qed

lemma json_safe_ascii: "list_all json_safe s \<Longrightarrow> sanitize s = s"
  by (rule sanitize_ascii) (auto simp: list_all_iff json_safe_def byte_in_def)

lemma json_time_string:
  "four_digit_year t \<Longrightarrow> json_time t = Inr (json_string (format_rfc3339nano t))"
  using json_esc_safe [OF json_safe_rfc3339nano]
  by (auto simp: json_time_def json_string_def four_digit_year_def)

lemma event_json_members:
  "event_clean e \<Longrightarrow> event_json e
    = Inr (json_obj (map (\<lambda>(k, t, v). (k, t)) (event_members e (format_rfc3339nano (ev_occurred_at e)))))"
  by (simp add: event_clean_def event_json_def json_time_string event_members_def str_member_def
      opt_member_def omit_empty_def)

lemma opt_member_keys [simp]:
  "map fst (opt_member k v) = (if v = '''' then [] else [k])"
  "map (\<lambda>(k, t, v). (k, v)) (opt_member k v) = (if v = '''' then [] else [(k, GStr (sanitize v))])"
  by (simp_all add: opt_member_def)

lemma map_of_opt:
  "map_of ((if b then [] else [(k, v)]) @ m) n = (if \<not> b \<and> n = k then Some v else map_of m n)"
  by simp

lemma event_members_reads:
  assumes "event_clean e"
  shows "\<forall>(k, t, v)\<in>set (event_members e s). reads 1 t v \<and> sanitize k = k"
    and "distinct (map fst (event_members e s))"
proof -
  have p: "reads 1 (json_strmap (ev_partitions e)) (GMap (map (\<lambda>(k, v). (k, GStr (sanitize v))) (ev_partitions e)))"
    using assms by (intro reads_strmap) (auto simp: event_clean_def list_all_iff)
  have r: "reads 1 (json_string v) (GStr (sanitize v))" for v
    using reads_mono [OF reads_string] by simp
  have k: "sanitize k = k" if "k \<in> set [''event_id'', ''type'', ''snapshot_id'', ''time_slice'', ''workflow'',
    ''namespace'', ''universe'', ''multiverse'', ''partitions'', ''final_output_hash'', ''worldline'',
    ''head_link'', ''occurred_at'']" for k
    using that by (intro sanitize_ascii) (auto simp: byte_in_def)
  show "\<forall>(k, t, v)\<in>set (event_members e s). reads 1 t v \<and> sanitize k = k"
    using p r k by (auto simp: event_members_def str_member_def opt_member_def)
  show "distinct (map fst (event_members e s))"
    by (auto simp: event_members_def str_member_def)
qed

definition event_fields :: "snapshot_event \<Rightarrow> string \<Rightarrow> gmap" where
  "event_fields e s = map (\<lambda>(k, t, v). (k, v)) (event_members e s)"

lemma event_fields_lookup:
  assumes "event_clean e" "to_lower n = n"
  shows "json_field n (event_fields e s)
    = (case map_of (event_fields e s) n of Some v \<Rightarrow> if v = GNil then None else Some v | None \<Rightarrow> None)"
proof (rule json_field_map_of [OF _ _ assms(2)])
  have m: "map fst (event_fields e s) = map fst (event_members e s)"
    by (simp add: event_fields_def comp_def split_def)
  show "distinct (map fst (event_fields e s))" using event_members_reads(2) [OF assms(1)] m by simp
  have "to_lower k = k" if "k \<in> set [''event_id'', ''type'', ''snapshot_id'', ''time_slice'', ''workflow'',
    ''namespace'', ''universe'', ''multiverse'', ''partitions'', ''final_output_hash'', ''worldline'',
    ''head_link'', ''occurred_at'']" for k
    using that by (auto simp: to_lower_def lower_char_def)
  then show "\<forall>k\<in>fst ` set (event_fields e s). to_lower k = k"
    unfolding image_set m by (auto simp: event_members_def str_member_def)
qed

lemma event_field_values:
  fixes s :: string
  assumes "event_clean e"
  defines "str n \<equiv> dec_string (json_field n (event_fields e s))"
  shows "str ''event_id'' = Inr (ev_event_id e)" "str ''type'' = Inr (ev_type e)"
    "str ''snapshot_id'' = Inr (ev_snapshot_id e)" "str ''time_slice'' = Inr (ev_time_slice e)"
    "str ''workflow'' = Inr (ev_workflow e)" "str ''namespace'' = Inr (ev_namespace e)"
    "str ''universe'' = Inr (ev_universe e)" "str ''multiverse'' = Inr (ev_multiverse e)"
    "str ''final_output_hash'' = Inr (ev_final_output e)" "str ''worldline'' = Inr (ev_worldline e)"
    "str ''head_link'' = Inr (ev_head_link e)"
    "dec_strmap (json_field ''partitions'' (event_fields e s)) = Inr (ev_partitions e)"
    "dec_time (json_field ''occurred_at'' (event_fields e s)) = parse_rfc3339 (sanitize s)"
proof -
  have c: "event_clean e" by (rule assms(1))
  have p: "map (\<lambda>(k, v). (k, GStr (sanitize v))) (ev_partitions e) = map (\<lambda>(k, v). (k, GStr v)) (ev_partitions e)"
    using c by (auto simp: event_clean_def list_all_iff sanitize_valid)
  note look = event_fields_lookup [OF c] and fields = event_fields_def event_members_def str_member_def
  have low: "to_lower ''event_id'' = ''event_id''" "to_lower ''type'' = ''type''"
    "to_lower ''snapshot_id'' = ''snapshot_id''" "to_lower ''time_slice'' = ''time_slice''"
    "to_lower ''workflow'' = ''workflow''" "to_lower ''namespace'' = ''namespace''"
    "to_lower ''universe'' = ''universe''" "to_lower ''multiverse'' = ''multiverse''"
    "to_lower ''partitions'' = ''partitions''" "to_lower ''final_output_hash'' = ''final_output_hash''"
    "to_lower ''worldline'' = ''worldline''" "to_lower ''head_link'' = ''head_link''"
    "to_lower ''occurred_at'' = ''occurred_at''" by (simp_all add: to_lower_def lower_char_def)
  show "str ''event_id'' = Inr (ev_event_id e)" "str ''type'' = Inr (ev_type e)"
    "str ''snapshot_id'' = Inr (ev_snapshot_id e)" "str ''time_slice'' = Inr (ev_time_slice e)"
    "str ''workflow'' = Inr (ev_workflow e)" "str ''namespace'' = Inr (ev_namespace e)"
    using c unfolding str_def look [OF low(1)] look [OF low(2)] look [OF low(3)] look [OF low(4)]
      look [OF low(5)] look [OF low(6)]
    by (simp_all add: fields event_clean_def sanitize_valid)
  show "str ''universe'' = Inr (ev_universe e)" "str ''multiverse'' = Inr (ev_multiverse e)"
    "str ''final_output_hash'' = Inr (ev_final_output e)" "str ''worldline'' = Inr (ev_worldline e)"
    "str ''head_link'' = Inr (ev_head_link e)"
    using c unfolding str_def look [OF low(7)] look [OF low(8)] look [OF low(10)] look [OF low(11)] look [OF low(12)]
    by (simp_all add: fields event_clean_def sanitize_valid)
  show "dec_strmap (json_field ''partitions'' (event_fields e s)) = Inr (ev_partitions e)"
    unfolding look [OF low(9)] using dec_strmap_strings [of "ev_partitions e"] by (simp add: fields p)
  show "dec_time (json_field ''occurred_at'' (event_fields e s)) = parse_rfc3339 (sanitize s)"
    unfolding look [OF low(13)] by (simp add: fields)
qed

text \<open>
  C34 What the Kafka bus publishes is what a consumer decodes: an event whose texts are valid
  UTF-8 and whose time has a four-digit year is read back from its JSON unchanged, to the
  nanosecond.
\<close>

theorem event_json_roundtrip:
  assumes "event_clean e"
  shows "bindr (event_json e) event_of_json = Inr e"
proof -
  let ?t = "format_rfc3339nano (ev_occurred_at e)"
  have four: "four_digit_year (ev_occurred_at e)" using assms by (simp add: event_clean_def)
  have "reads 2 (json_obj (map (\<lambda>(k, t, v). (k, t)) (event_members e ?t))) (GMap (event_fields e ?t))"
    using reads_obj [OF event_members_reads [OF assms]] by (simp add: event_fields_def numeral_2_eq_2)
  from unmarshal_reads [OF this] show ?thesis
    using json_safe_ascii [OF json_safe_rfc3339nano [OF four]] parse_format_rfc3339nano [OF four]
    by (simp add: event_json_members [OF assms] event_of_json_def event_field_values [OF assms])
qed

lemma event_json_roundtrip_witness:
  "event_clean (demo_event\<lparr>ev_partitions := [(''desk'', ''rates'')]\<rparr>)
   \<and> bindr (event_json (demo_event\<lparr>ev_partitions := [(''desk'', ''rates'')]\<rparr>)) event_of_json
       = Inr (demo_event\<lparr>ev_partitions := [(''desk'', ''rates'')]\<rparr>)"
proof -
  have t: "year_start 1969 = - 365" "year_start 1970 = 0" "year_start 1971 = 365" by (simp_all add: year_start_def)
  have y: "civil_year 0 = 1970" by (simp add: civil_year_def Let_def t)
  have "event_clean (demo_event\<lparr>ev_partitions := [(''desk'', ''rates'')]\<rparr>)"
    by (simp add: event_clean_def demo_event_def type_snapshot_completed_def valid_utf8.simps byte_in_def
        four_digit_year_def date_of_def unix_secs_def civil_of_days_def y Let_def)
  from this event_json_roundtrip [OF this] show ?thesis by blast
qed


end
