(* ===== verification/Routing.thy ===== *)
theory Routing
  imports Events Api
begin

text \<open>
  The router of \<open>pkg/routing\<close>: the universe a snapshot event goes to, and the fan-out of a
  completed run into the other universes of a multiverse.
\<close>

section \<open>The router\<close>

record target =
  tg_universe :: string
  tg_pluggable :: string
  tg_context_ref :: string

definition zero_target :: target where
  "zero_target = \<lparr>tg_universe = '''', tg_pluggable = '''', tg_context_ref = ''''\<rparr>"

record router =
  ro_spec :: multiverse_spec
  ro_refs :: "(string \<times> string) list"

text \<open>The refs map keeps the last universe of a name.\<close>

definition new_router :: "multiverse_spec \<Rightarrow> router" where
  "new_router sp =
     \<lparr>ro_spec = sp, ro_refs = fold (\<lambda>u m. aput (ur_name u) (ur_universe_ref u) m) (ms_universes sp) []\<rparr>"

definition ref_of :: "router \<Rightarrow> string \<Rightarrow> string" where
  "ref_of r u = (case map_of (ro_refs r) u of Some v \<Rightarrow> v | None \<Rightarrow> '''')"

fun contains_value :: "string list \<Rightarrow> string \<Rightarrow> bool" where
  "contains_value [] t = False"
| "contains_value (v # vs) t = (v = t \<or> contains_value vs t)"

fun match_rules :: "partition_rule list \<Rightarrow> (string \<times> string) list \<Rightarrow> bool" where
  "match_rules [] labels = True"
| "match_rules (rule # rules) labels =
     (case map_of labels (pr_key rule) of
        None \<Rightarrow> False
      | Some val \<Rightarrow> if \<not> contains_value (pr_values rule) val then False else match_rules rules labels)"

definition matches_partitions :: "partition_rule list \<Rightarrow> (string \<times> string) list \<Rightarrow> bool" where
  "matches_partitions rules labels = (if rules = [] then False else match_rules rules labels)"

fun find_slice_route :: "slice_route list \<Rightarrow> string \<Rightarrow> slice_route option" where
  "find_slice_route [] t = None"
| "find_slice_route (ts # rest) t =
     (if sr_time_slice ts \<noteq> '''' \<and> sr_time_slice ts = t then Some ts else find_slice_route rest t)"

definition universe_target :: "universe_route \<Rightarrow> target" where
  "universe_target u =
     \<lparr>tg_universe = ur_name u, tg_pluggable = ur_universe_ref u, tg_context_ref = ur_context_ref u\<rparr>"

fun partition_matches :: "universe_route list \<Rightarrow> (string \<times> string) list \<Rightarrow> target list" where
  "partition_matches [] labels = []"
| "partition_matches (u # us) labels =
     (if matches_partitions (ur_partitions u) labels
      then universe_target u # partition_matches us labels else partition_matches us labels)"

definition default_target :: "router \<Rightarrow> target" where
  "default_target r =
     (let d = ms_default (ro_spec r)
      in case find (\<lambda>u. ur_name u = d) (ms_universes (ro_spec r)) of
          Some u \<Rightarrow> universe_target u
        | None \<Rightarrow> \<lparr>tg_universe = d, tg_pluggable = ref_of r d, tg_context_ref = ''''\<rparr>)"

text \<open>A nil router is \<open>None\<close>.\<close>

definition resolve_route :: "router option \<Rightarrow> snapshot_event \<Rightarrow> target res" where
  "resolve_route ro evt =
     (case ro of
        None \<Rightarrow> Inl (errorf ''router is nil'')
      | Some r \<Rightarrow>
         (case find_slice_route (ms_slice_routes (ro_spec r)) (ev_time_slice evt) of
            Some ts \<Rightarrow> Inr \<lparr>tg_universe = sr_universe ts, tg_pluggable = ref_of r (sr_universe ts),
                          tg_context_ref = sr_context_ref ts\<rparr>
          | None \<Rightarrow>
             (case partition_matches (ms_universes (ro_spec r)) (ev_partitions evt) of
                a # b # _ \<Rightarrow> Inl (errorf (''ambiguous partition match for snapshot '' @ ev_snapshot_id evt
                    @ '': '' @ quote (tg_universe a) @ '' and '' @ quote (tg_universe b)))
              | [a] \<Rightarrow> Inr a
              | [] \<Rightarrow>
                  if ms_default (ro_spec r) \<noteq> '''' then Inr (default_target r)
                  else Inl (errorf (''no route for snapshot '' @ ev_snapshot_id evt)))))"

section \<open>Fan-out\<close>

definition history_from_event :: "snapshot_event \<Rightarrow> history" where
  "history_from_event evt =
     \<lparr>h_universe = ev_universe evt, h_snapshot_id = ev_snapshot_id evt,
      h_worldline = ev_worldline evt, h_head_link = ev_head_link evt\<rparr>"

definition fanout :: "router option \<Rightarrow> snapshot_event \<Rightarrow> history list res" where
  "fanout ro evt =
     (case ro of
        None \<Rightarrow> Inl (errorf ''router is nil'')
      | Some r \<Rightarrow>
          if ev_snapshot_id evt = '''' \<or> ev_worldline evt = ''''
          then Inl (errorf ''fanout requires a complete sealed record'')
          else Inr (branch (history_from_event evt) (map ur_name (ms_universes (ro_spec r)))))"

section \<open>Lemmas\<close>

lemma contains_value_iff [simp]: "contains_value vs t \<longleftrightarrow> t \<in> set vs"
  by (induction vs) auto

lemma matches_partitions_iff:
  "matches_partitions rules labels \<longleftrightarrow>
     rules \<noteq> [] \<and> (\<forall>r\<in>set rules. \<exists>v. map_of labels (pr_key r) = Some v \<and> v \<in> set (pr_values r))"
proof -
  have "match_rules rules labels \<longleftrightarrow>
      (\<forall>r\<in>set rules. \<exists>v. map_of labels (pr_key r) = Some v \<and> v \<in> set (pr_values r))"
    by (induction rules) (auto split: option.splits)
  then show ?thesis by (simp add: matches_partitions_def)
qed

lemma partition_matches_eq:
  "partition_matches us labels
     = map universe_target (filter (\<lambda>u. matches_partitions (ur_partitions u) labels) us)"
  by (induction us) auto

lemma find_slice_route_eq:
  "find_slice_route rs t = find (\<lambda>r. sr_time_slice r \<noteq> '''' \<and> sr_time_slice r = t) rs"
  by (induction rs) auto

lemma refs_fold: "map_of (fold (\<lambda>u m. aput (ur_name u) (ur_universe_ref u) m) us m) n
    = (case find (\<lambda>u. ur_name u = n) (rev us) of Some u \<Rightarrow> Some (ur_universe_ref u) | None \<Rightarrow> map_of m n)"
  by (induction us rule: rev_induct) auto

lemma ref_of_new_router:
  "ref_of (new_router sp) n = (case find (\<lambda>u. ur_name u = n) (rev (ms_universes sp)) of
      Some u \<Rightarrow> ur_universe_ref u | None \<Rightarrow> '''')"
  by (simp add: ref_of_def new_router_def refs_fold split: option.splits)

text \<open>
  The specification of routing: a declared time slice wins, then the only universe whose
  partition rules the labels satisfy, then the default; two matching universes are an error
  and so is no match without a default.
\<close>

definition slice_routed :: "multiverse_spec \<Rightarrow> snapshot_event \<Rightarrow> slice_route list" where
  "slice_routed sp evt = filter (\<lambda>r. sr_time_slice r \<noteq> '''' \<and> sr_time_slice r = ev_time_slice evt) (ms_slice_routes sp)"

definition label_routed :: "multiverse_spec \<Rightarrow> snapshot_event \<Rightarrow> universe_route list" where
  "label_routed sp evt = filter (\<lambda>u. ur_partitions u \<noteq> [] \<and>
     (\<forall>r\<in>set (ur_partitions u). \<exists>v\<in>set (pr_values r). map_of (ev_partitions evt) (pr_key r) = Some v)) (ms_universes sp)"

lemma find_filter: "find P xs = (case filter P xs of [] \<Rightarrow> None | x # _ \<Rightarrow> Some x)"
  by (induction xs) auto

lemma partition_matches_label_routed:
  "partition_matches (ms_universes sp) (ev_partitions evt) = map universe_target (label_routed sp evt)"
  unfolding partition_matches_eq label_routed_def matches_partitions_iff by (metis (no_types, lifting))

lemma fanout_new:
  "fanout (Some (new_router sp)) evt = Inr hs \<longleftrightarrow>
     ev_snapshot_id evt \<noteq> '''' \<and> ev_worldline evt \<noteq> ''''
     \<and> hs = branch (history_from_event evt) (map ur_name (ms_universes sp))"
  by (auto simp: fanout_def new_router_def)

section \<open>Properties\<close>

text \<open>
  Routing succeeds exactly in three cases, in this order of precedence: a time-slice
  route names the event's slice; no slice route applies and exactly one universe's
  partition rules are satisfied by the event's labels; neither applies and a default is
  declared.  Two matching universes are an error even with a default.
\<close>

theorem resolve_route_precedence:
  "resolve_route (Some (new_router sp)) evt =
     (case (slice_routed sp evt, label_routed sp evt) of
        (r # _, _) \<Rightarrow> Inr \<lparr>tg_universe = sr_universe r,
            tg_pluggable = ref_of (new_router sp) (sr_universe r), tg_context_ref = sr_context_ref r\<rparr>
      | ([], [u]) \<Rightarrow> Inr (universe_target u)
      | ([], u # v # _) \<Rightarrow> Inl (errorf (''ambiguous partition match for snapshot '' @ ev_snapshot_id evt
            @ '': '' @ quote (ur_name u) @ '' and '' @ quote (ur_name v)))
      | ([], []) \<Rightarrow> if ms_default sp = '''' then Inl (errorf (''no route for snapshot '' @ ev_snapshot_id evt))
          else Inr (default_target (new_router sp)))"
  unfolding resolve_route_def
  by (auto simp: new_router_def partition_matches_label_routed find_slice_route_eq find_filter
      slice_routed_def [symmetric] universe_target_def split: list.splits)

text \<open>
  Fan-out of a complete event yields one history per declared universe other than the
  event's own, each the same record as the event's history, and none shares a live store
  with it; an event without snapshot ID or worldline is refused.
\<close>

theorem fanout_same_record:
  assumes "fanout (Some (new_router sp)) evt = Inr hs"
  shows "map h_universe hs
      = filter (\<lambda>u. u \<noteq> '''' \<and> u \<noteq> ev_universe evt) (map ur_name (ms_universes sp))
    \<and> (\<forall>h\<in>set hs. same_record (history_from_event evt) h \<and> \<not> interfere (history_from_event evt) h False)"
  using assms unfolding fanout_new
  by (auto simp: branch_eq history_from_event_def same_record_iff interfere_def comp_def)

definition demo_multiverse :: multiverse_spec where
  "demo_multiverse = \<lparr>ms_default = ''u'',
     ms_universes = [\<lparr>ur_name = ''u'', ur_universe_ref = ''pu'', ur_context_ref = '''', ur_partitions = []\<rparr>,
       \<lparr>ur_name = ''v'', ur_universe_ref = ''pv'', ur_context_ref = ''c'',
        ur_partitions = [\<lparr>pr_key = ''desk'', pr_values = [''rates'']\<rparr>]\<rparr>],
     ms_slice_routes = [], ms_sync = None\<rparr>"

lemma fanout_same_record_witness:
  "fanout (Some (new_router demo_multiverse)) demo_event
     = Inr [\<lparr>h_universe = ''v'', h_snapshot_id = ''s'', h_worldline = ''o'', h_head_link = ''h''\<rparr>]
   \<and> same_record (history_from_event demo_event)
       \<lparr>h_universe = ''v'', h_snapshot_id = ''s'', h_worldline = ''o'', h_head_link = ''h''\<rparr>"
proof -
  have f: "fanout (Some (new_router demo_multiverse)) demo_event
     = Inr [\<lparr>h_universe = ''v'', h_snapshot_id = ''s'', h_worldline = ''o'', h_head_link = ''h''\<rparr>]"
    by (simp add: fanout_def new_router_def demo_multiverse_def demo_event_def history_from_event_def)
  from fanout_same_record [OF f] f show ?thesis by simp
qed

end
