(* ===== verification/Cluster.thy ===== *)
theory Cluster
  imports Universe Convert Resolve Engine Cdc Routing
begin

text \<open>
  What the store-running controllers share: the reconciler's configuration, and one state for
  everything a reconcile reads and changes: the API server (\<open>kube\<close>), the world, the stores
  (one state per opened constructor call, so that two resources that open the same path share
  it), the event bus and the Kafka topics.  Also here: the change-data publisher and consumer
  of \<open>internal/controller/cdc_publish.go\<close>, \<open>julia_replay.go\<close> and \<open>eventbus.go\<close>.
\<close>

section \<open>Configuration and state\<close>

text \<open>
  The publish method of an event bus: it acts on its own state, and, through its handlers, on
  the API server and the world.  \<open>mg_julia\<close> is \<open>julia.Available(julia.DefaultConfig())\<close>, \<open>mg_runner_image\<close> the
  builder's image, \<open>mg_pod_map\<close> the API machinery's conversion of a pod specification.
\<close>

type_synonym 'b publisher = "snapshot_event \<Rightarrow> kube \<times> world \<times> 'b \<Rightarrow> unit res \<times> kube \<times> world \<times> 'b"

record ('s, 'b) manager =
  mg_store_root :: string
  mg_backend :: "opener \<Rightarrow> 's backend"
  mg_exec :: exec_cfg
  mg_julia :: bool
  mg_runner_image :: string
  mg_pod_map :: "pod_spec \<Rightarrow> gmap"
  mg_publish :: "'b publisher option"

type_synonym topic = "string list \<times> string"

record ('s, 'b) cluster =
  cu_kube :: kube
  cu_world :: world
  cu_store :: "opener \<Rightarrow> 's"
  cu_open :: "nat \<Rightarrow> opener \<Rightarrow> err option"
  cu_opened :: nat
  cu_bus :: 'b
  cu_topics :: "topic \<Rightarrow> broker"
  cu_cdc_topics :: "topic \<Rightarrow> cdc_topic"
  cu_cdc :: cdc_bus

definition on_kube :: "(kube \<Rightarrow> 'r \<times> kube) \<Rightarrow> ('s, 'b) cluster \<Rightarrow> 'r \<times> ('s, 'b) cluster" where
  "on_kube f c = (case f (cu_kube c) of (r, kb) \<Rightarrow> (r, c\<lparr>cu_kube := kb\<rparr>))"

definition on_world :: "(world \<Rightarrow> 'r \<times> world) \<Rightarrow> ('s, 'b) cluster \<Rightarrow> 'r \<times> ('s, 'b) cluster" where
  "on_world f c = (case f (cu_world c) of (r, w) \<Rightarrow> (r, c\<lparr>cu_world := w\<rparr>))"

definition on_both :: "(kube \<Rightarrow> world \<Rightarrow> 'r \<times> kube \<times> world) \<Rightarrow> ('s, 'b) cluster \<Rightarrow> 'r \<times> ('s, 'b) cluster" where
  "on_both f c = (case f (cu_kube c) (cu_world c) of (r, kb, w) \<Rightarrow> (r, c\<lparr>cu_kube := kb, cu_world := w\<rparr>))"

definition on_store ::
  "opener \<Rightarrow> ('s \<Rightarrow> world \<Rightarrow> 'r \<times> 's \<times> world) \<Rightarrow> ('s, 'b) cluster \<Rightarrow> 'r \<times> ('s, 'b) cluster" where
  "on_store op f c = (case f (cu_store c op) (cu_world c) of
     (r, s, w) \<Rightarrow> (r, c\<lparr>cu_store := (cu_store c)(op := s), cu_world := w\<rparr>))"

definition on_backend :: "opener \<Rightarrow> ('s \<Rightarrow> 'r \<times> 's) \<Rightarrow> ('s, 'b) cluster \<Rightarrow> 'r \<times> ('s, 'b) cluster" where
  "on_backend op f = on_store op (\<lambda>s w. case f s of (r, s') \<Rightarrow> (r, s', w))"

text \<open>
  Opening a store: the compute context is read from the API server, then the constructor runs,
  which may fail (a directory, a server that does not answer).
\<close>

definition context_client :: "kube \<Rightarrow> string \<Rightarrow> api_context res" where
  "context_client kb name = kb_context kb (kb_tick kb) ('''', name)"

definition open_store ::
  "((string \<Rightarrow> api_context res) option \<Rightarrow> opener res) \<Rightarrow> (err \<Rightarrow> err) \<Rightarrow> ('s, 'b) cluster
     \<Rightarrow> opener res \<times> ('s, 'b) cluster" where
  "open_store resolve wrap c =
     (let c1 = c\<lparr>cu_kube := (cu_kube c)\<lparr>kb_tick := Suc (kb_tick (cu_kube c))\<rparr>\<rparr>
      in case resolve (Some (context_client (cu_kube c))) of
           Inl e \<Rightarrow> (Inl e, c1)
         | Inr op \<Rightarrow> (case cu_open c1 (cu_opened c1) op of
               Some e \<Rightarrow> (Inl (wrap e), c1\<lparr>cu_opened := Suc (cu_opened c1)\<rparr>)
             | None \<Rightarrow> (Inr op, c1\<lparr>cu_opened := Suc (cu_opened c1)\<rparr>)))"

definition engine_for :: "('s, 'b) manager \<Rightarrow> opener \<Rightarrow> 's engine" where
  "engine_for m op = new_engine (mg_backend m op) (mg_exec m)"

definition run_workflow :: "('s, 'b) manager \<Rightarrow> opener \<Rightarrow> workflow \<Rightarrow> ('s, 'b) cluster \<Rightarrow> run_result res \<times> ('s, 'b) cluster" where
  "run_workflow m op e = on_store op (run (engine_for m op) e)"

section \<open>Julia in a runner pod\<close>

definition steps_have_julia :: "api_chain \<Rightarrow> bool" where
  "steps_have_julia ch = list_ex (\<lambda>s. has_prefix (dst_command s) ''julia:'') (dcs_steps (dch_spec ch))"

definition workflow_has_julia_dominos :: "api_workflow \<Rightarrow> bool" where
  "workflow_has_julia_dominos k = list_ex (\<lambda>d. has_prefix (ads_command d) ''julia:'') (aws_dominos (awf_spec k))"

definition skip_julia_replay :: "('s, 'b) manager \<Rightarrow> api_chain option \<Rightarrow> api_workflow option \<Rightarrow> bool" where
  "skip_julia_replay m ch k =
     (let hasJulia = (case ch of None \<Rightarrow> False | Some c \<Rightarrow> steps_have_julia c);
          hasJulia = (if \<not> hasJulia then (case k of None \<Rightarrow> False | Some k \<Rightarrow> workflow_has_julia_dominos k) else hasJulia)
      in if \<not> hasJulia then False else \<not> mg_julia m)"

definition skip_standalone_julia :: "('s, 'b) manager \<Rightarrow> api_domino option \<Rightarrow> bool" where
  "skip_standalone_julia m d =
     (case d of None \<Rightarrow> False
      | Some d \<Rightarrow> if \<not> has_prefix (adr_command (adn_spec d)) ''julia:'' then False else \<not> mg_julia m)"

section \<open>Buses\<close>

text \<open>Publishing on the reconciler's bus; a nil bus discards.\<close>

definition bus_publish :: "('s, 'b) manager \<Rightarrow> snapshot_event \<Rightarrow> ('s, 'b) cluster \<Rightarrow> unit res \<times> ('s, 'b) cluster" where
  "bus_publish m evt c =
     (case mg_publish m of
        None \<Rightarrow> (noop_publish evt, c)
      | Some publish \<Rightarrow> (case publish evt (cu_kube c, cu_world c, cu_bus c) of
          (r, kb, w, b) \<Rightarrow> (r, c\<lparr>cu_kube := kb, cu_world := w, cu_bus := b\<rparr>)))"

text \<open>The in-process bus as such a publisher.\<close>

definition memory_bus_publisher :: "(kube \<times> world) memory_bus publisher" where
  "memory_bus_publisher evt st = (case st of (kb, w, b) \<Rightarrow>
     case memory_publish evt b (kb, w) of (r, b', kb', w') \<Rightarrow> (r, kb', w', b'))"

definition kafka_config_of :: "kafka_sync \<Rightarrow> kafka_config" where
  "kafka_config_of ks = \<lparr>kg_brokers = ks_brokers ks, kg_topic = ks_topic ks, kg_group = ks_group_id ks\<rparr>"

text \<open>A Kafka bus made for one event: it writes to the topic of the multiverse, its error is dropped.\<close>

definition kafka_sync_publish :: "kafka_sync \<Rightarrow> snapshot_event \<Rightarrow> ('s, 'b) cluster \<Rightarrow> ('s, 'b) cluster" where
  "kafka_sync_publish ks evt c =
     (case new_kafka_bus (kafka_config_of ks) :: unit kafka_bus res of
        Inl _ \<Rightarrow> c
      | Inr kbus \<Rightarrow>
          let t = (kg_brokers (kb_config kbus), kg_topic (kb_config kbus))
          in case kafka_publish evt kbus (cu_topics c t) of
               (_, _, k) \<Rightarrow> c\<lparr>cu_topics := (cu_topics c)(t := k)\<rparr>)"

text \<open>\<open>PublishSnapshotEvent\<close> of the multiverse controller.\<close>

definition publish_to_multiverse ::
  "('s, 'b) manager \<Rightarrow> api_multiverse \<Rightarrow> snapshot_event \<Rightarrow> ('s, 'b) cluster \<Rightarrow> unit res \<times> ('s, 'b) cluster" where
  "publish_to_multiverse m mv evt c =
     (let c1 = (case ms_sync (amv_spec mv) of
          None \<Rightarrow> c
        | Some sy \<Rightarrow> if sy_enabled sy
            then (case sy_kafka sy of None \<Rightarrow> c | Some ks \<Rightarrow> kafka_sync_publish ks evt c) else c)
      in bus_publish m evt c1)"

section \<open>Change data capture\<close>

datatype cdc_publisher = KafkaPublisher topic | MemoryPublisher

definition cdc_publisher_for :: "api_multiverse \<Rightarrow> cdc_publisher" where
  "cdc_publisher_for mv =
     (case ms_sync (amv_spec mv) of
        Some sy \<Rightarrow> (case sy_kafka sy of
            Some ks \<Rightarrow> if ks_brokers ks \<noteq> [] then
                (let topic = (if ks_cdc_topic ks = '''' then default_cdc_topic else ks_cdc_topic ks)
                 in case kafka_publisher_topic (ks_brokers ks) topic of
                      Inr t \<Rightarrow> KafkaPublisher (ks_brokers ks, t) | Inl _ \<Rightarrow> MemoryPublisher)
              else MemoryPublisher
          | None \<Rightarrow> MemoryPublisher)
      | None \<Rightarrow> MemoryPublisher)"

definition cdc_publish_envelopes ::
  "cdc_publisher \<Rightarrow> string \<Rightarrow> envelope list \<Rightarrow> ('s, 'b) cluster \<Rightarrow> unit res \<times> ('s, 'b) cluster" where
  "cdc_publish_envelopes pub i envs c =
     (case pub of
        KafkaPublisher t \<Rightarrow> (case kafka_cdc_publish_batch i envs (cu_cdc_topics c t) of
            (r, k) \<Rightarrow> (r, c\<lparr>cu_cdc_topics := (cu_cdc_topics c)(t := k)\<rparr>))
      | MemoryPublisher \<Rightarrow> (case cdc_publish_batch i envs (cu_cdc c) of (r, b) \<Rightarrow> (r, c\<lparr>cu_cdc := b\<rparr>)))"

text \<open>\<open>publishWorkflowCDC\<close>.  A multiverse without a sync block is a nil pointer the code reads.\<close>

definition publish_workflow_cdc ::
  "api_multiverse \<Rightarrow> api_workflow \<Rightarrow> run_result \<Rightarrow> ('s, 'b) cluster \<Rightarrow> unit res \<times> ('s, 'b) cluster" where
  "publish_workflow_cdc mv k result c =
     (case ms_sync (amv_spec mv) of
        None \<Rightarrow> (Inl (panic ''invalid memory address or nil pointer dereference''), c)
      | Some sy \<Rightarrow>
          if \<not> sy_enabled sy then (Inr (), c)
          else
            let envs = export_from_workflow (Some k) (Some result)
            in if envs = [] then (Inr (), c)
               else (Inr (), snd (cdc_publish_envelopes (cdc_publisher_for mv) (rr_snapshot_id result) envs c)))"

definition cdc_sync_from_multiverse :: "api_multiverse \<Rightarrow> cdc_sync" where
  "cdc_sync_from_multiverse mv =
     (case Option.bind (ms_sync (amv_spec mv)) sy_kafka of
        Some ks \<Rightarrow>
          \<lparr>cs_brokers = ks_brokers ks,
           cs_topic = (if ks_cdc_topic ks = '''' then default_cdc_topic else ks_cdc_topic ks),
           cs_group_id = ks_group_id ks\<rparr>
      | None \<Rightarrow> \<lparr>cs_brokers = [], cs_topic = default_cdc_topic, cs_group_id = ''''\<rparr>)"

section \<open>The bus of the process\<close>

fun split_brokers_loop :: "string list \<Rightarrow> string list" where
  "split_brokers_loop [] = []"
| "split_brokers_loop (p # ps) =
     (let p = trim_space p in if p \<noteq> '''' then p # split_brokers_loop ps else split_brokers_loop ps)"

definition split_brokers :: "string \<Rightarrow> string list" where
  "split_brokers s = (if s = '''' then [] else split_brokers_loop (split_on (CHR '','') s))"

text \<open>\<open>NewEventBus\<close>: a Kafka bus for a list of brokers, the in-process bus otherwise.\<close>

definition new_event_bus :: "string \<Rightarrow> string \<Rightarrow> 'w kafka_bus + 'w memory_bus" where
  "new_event_bus kafkaBrokers kafkaTopic =
     (let brokers = split_brokers kafkaBrokers
      in if 0 < length brokers then
           (case new_kafka_bus \<lparr>kg_brokers = brokers, kg_topic = kafkaTopic, kg_group = ''kbl-controller''\<rparr> of
              Inr bus \<Rightarrow> Inl bus
            | Inl _ \<Rightarrow> Inr new_memory_bus)
         else Inr new_memory_bus)"

end
