(* ===== verification/Operator.thy ===== *)
theory Operator
  imports Cluster Runs
begin

text \<open>
  Lemmas on the shared state that the controllers' proofs rest on: what the lifted calls change,
  which statuses a computation writes to the API server, that at most one store changed and
  that by one run of the engine, and, on SQLite stores, that no history changed.
\<close>

section \<open>What the lifted calls change\<close>

lemma on_kube_parts:
  assumes "on_kube f c = (r, c1)"
  shows "f (cu_kube c) = (r, cu_kube c1)" "cu_store c1 = cu_store c" "cu_world c1 = cu_world c"
  using assms by (auto simp: on_kube_def split: prod.splits)

lemma on_world_parts:
  assumes "on_world f c = (r, c1)"
  shows "cu_kube c1 = cu_kube c" "cu_store c1 = cu_store c" "f (cu_world c) = (r, cu_world c1)"
  using assms by (auto simp: on_world_def split: prod.splits)

lemma on_both_parts:
  assumes "on_both f c = (r, c1)"
  shows "f (cu_kube c) (cu_world c) = (r, cu_kube c1, cu_world c1)" "cu_store c1 = cu_store c"
  using assms by (auto simp: on_both_def split: prod.splits)

lemma runs_tick [simp]: "runs P kb (kb\<lparr>kb_tick := n\<rparr>)"
  unfolding runs_def by (intro exI [of _ n] exI [of _ "[]"]) simp

lemma open_store_frame:
  "open_store f g c = (r, c1) \<Longrightarrow> runs P (cu_kube c) (cu_kube c1) \<and> cu_store c1 = cu_store c \<and> cu_world c1 = cu_world c"
  by (auto simp: open_store_def Let_def split: sum.splits option.splits)

lemma open_store_Inr:
  "open_store f g c = (Inr op, c1) \<Longrightarrow> f (Some (context_client (cu_kube c))) = Inr op"
  by (auto simp: open_store_def Let_def split: sum.splits option.splits)

lemma on_store_parts:
  assumes "on_store op f c = (r, c1)"
  shows "f (cu_store c op) (cu_world c) = (r, cu_store c1 op, cu_world c1)" "cu_kube c1 = cu_kube c"
    "cu_store c1 = (cu_store c)(op := cu_store c1 op)"
  using assms by (auto simp: on_store_def split: prod.splits)

lemma on_backend_parts:
  assumes "on_backend op f c = (r, c1)"
  shows "f (cu_store c op) = (r, cu_store c1 op)" "cu_kube c1 = cu_kube c" "cu_world c1 = cu_world c"
    "cu_store c1 = (cu_store c)(op := cu_store c1 op)"
  using assms on_store_parts [OF assms [unfolded on_backend_def]]
  by (auto simp: on_backend_def on_store_def split: prod.splits)

lemma run_workflow_parts:
  assumes "run_workflow m op e c = (r, c1)"
  shows "run (engine_for m op) e (cu_store c op) (cu_world c) = (r, cu_store c1 op, cu_world c1)"
    "cu_kube c1 = cu_kube c" "cu_store c1 = (cu_store c)(op := cu_store c1 op)"
  using on_store_parts [OF assms [unfolded run_workflow_def]] by blast+

section \<open>The statuses a computation writes\<close>

text \<open>
  \<open>f\<close> picks the writes of one kind.  \<open>adds f c ks c'\<close>: \<open>c'\<close> is reached from \<open>c\<close> against the same
  server, with \<open>ks\<close> the objects written in between.
\<close>

definition said :: "(kube_write \<Rightarrow> 'k option) \<Rightarrow> ('s, 'b) cluster \<Rightarrow> 'k list" where
  "said f c = List.map_filter f (kb_log (cu_kube c))"

definition adds :: "(kube_write \<Rightarrow> 'k option) \<Rightarrow> ('s, 'b) cluster \<Rightarrow> 'k list \<Rightarrow> ('s, 'b) cluster \<Rightarrow> bool" where
  "adds f c ks c' \<longleftrightarrow> runs (\<lambda>_. True) (cu_kube c) (cu_kube c') \<and> said f c' = said f c @ ks"

lemma adds_trans: "adds f c ks c1 \<Longrightarrow> adds f c1 ls c2 \<Longrightarrow> adds f c (ks @ ls) c2"
  by (auto simp: adds_def intro: runs_trans)

lemma adds_silent: "runs (\<lambda>w. f w = None) (cu_kube c) (cu_kube c1) \<Longrightarrow> adds f c [] c1"
  unfolding adds_def by (auto simp: runs_def said_def map_filter_def list_all_iff)

lemma adds_same: "cu_kube c1 = cu_kube c \<Longrightarrow> adds f c [] c1"
  by (rule adds_silent) simp

lemma kube_put_log: "kube_put w kb = (r, kb1) \<Longrightarrow> kb_log kb1 = kb_log kb @ [w]"
  by (auto simp: kube_put_def)

lemma adds_put:
  assumes "kube_put w (cu_kube c) = (r, cu_kube c1)" "f w = Some k" shows "adds f c [k] c1"
  using kube_put_log [OF assms(1)] runs_put [OF assms(1)] assms(2) by (simp add: adds_def said_def map_filter_def)

lemma adds_put_then:
  assumes "on_kube (put_then w o1) c = (o2, c1)" "f w = Some k"
  shows "adds f c [k] c1 \<and> cu_store c1 = cu_store c"
  using adds_put [where f = f, OF put_then_cases(1) [OF on_kube_parts(1) [OF assms(1)]] assms(2)] on_kube_parts(2) [OF assms(1)] by simp

lemma adds_server: "adds f c ks c1 \<Longrightarrow> runs (\<lambda>_. True) (cu_kube c) (cu_kube c1)"
  by (simp add: adds_def)

section \<open>At most one run\<close>

text \<open>At most one store changed, by one run of the engine.\<close>

definition one_run :: "('s, 'b) manager \<Rightarrow> ('s, 'b) cluster \<Rightarrow> ('s, 'b) cluster \<Rightarrow> bool" where
  "one_run m c c' \<longleftrightarrow> cu_store c' = cu_store c
     \<or> (\<exists>op wk w r s' w'. run (engine_for m op) wk (cu_store c op) w = (r, s', w') \<and> cu_store c' = (cu_store c)(op := s'))"

lemma one_run_same: "cu_store c' = cu_store c \<Longrightarrow> one_run m c c'"
  by (simp add: one_run_def)

lemma run_workflow_one_run:
  assumes "run_workflow m op e c = (r, c1)" shows "one_run m c c1"
  unfolding one_run_def using run_workflow_parts(1,3) [OF assms] by blast

lemma one_run_from: "cu_store c1 = cu_store c \<Longrightarrow> one_run m c1 c2 = one_run m c c2"
  by (simp add: one_run_def)

section \<open>SQLite stores\<close>

text \<open>Every store of the controller is an SQLite database.\<close>

definition sqlite_stores :: "(sqlite, 'b) manager \<Rightarrow> (sqlite, 'b) cluster \<Rightarrow> bool" where
  "sqlite_stores m c \<longleftrightarrow> (\<forall>op. mg_backend m op = sqlite_backend \<and> sq_inv (cu_store c op))"

lemma sqlite_engine_store: "sqlite_stores m c \<Longrightarrow> en_store (engine_for m op) = sqlite_backend"
  by (simp add: sqlite_stores_def engine_for_def new_engine_def)

lemma one_run_keeps:
  assumes "sqlite_stores m c" "one_run m c c'"
  shows "sqlite.keeps (cu_store c op) (cu_store c' op)"
proof (cases "cu_store c' = cu_store c")
  case True then show ?thesis using assms(1) sqlite.keeps_refl by (simp add: sqlite_stores_def)
next
  case False
  then obtain op' wk w r s' w' where r: "run (engine_for m op') wk (cu_store c op') w = (r, s', w')" "cu_store c' = (cu_store c)(op' := s')"
    using assms(2) unfolding one_run_def by blast
  have inv: "sq_inv (cu_store c op)" for op using assms(1) by (simp add: sqlite_stores_def)
  have "sqlite.keeps (cu_store c op') s'"
    using sqlite.run_laws [OF inv sqlite_engine_store [OF assms(1)] _ _ r(1)] by simp
  then show ?thesis using r(2) sqlite.keeps_refl [OF inv] by simp
qed

lemma sqlite_stores_keeps: "sqlite_stores m c \<Longrightarrow> \<forall>op. sqlite.keeps (cu_store c op) (cu_store c' op) \<Longrightarrow> sqlite_stores m c'"
  by (simp add: sqlite_stores_def sqlite_keeps_iff)

text \<open>No store lost a sealed snapshot or a memoized output.\<close>

definition stores_keep :: "(sqlite, 'b) cluster \<Rightarrow> (sqlite, 'b) cluster \<Rightarrow> bool" where
  "stores_keep c c' \<longleftrightarrow> (\<forall>op. sqlite.keeps (cu_store c op) (cu_store c' op))"

lemma stores_keep_same: "sqlite_stores m c \<Longrightarrow> cu_store c' = cu_store c \<Longrightarrow> stores_keep c c'"
  using sqlite.keeps_refl by (simp add: stores_keep_def sqlite_stores_def)

lemma stores_keep_trans: "stores_keep c c1 \<Longrightarrow> stores_keep c1 c2 \<Longrightarrow> stores_keep c c2"
  using sqlite.keeps_trans unfolding stores_keep_def by blast

lemma stores_keep_one:
  assumes "sqlite_stores m c" "cu_store c' = (cu_store c)(op := s)" "sqlite.keeps (cu_store c op) s" shows "stores_keep c c'"
  using assms sqlite.keeps_refl by (auto simp: stores_keep_def sqlite_stores_def)

lemma stores_keep_stores: "sqlite_stores m c \<Longrightarrow> stores_keep c c' \<Longrightarrow> sqlite_stores m c'"
  unfolding stores_keep_def by (rule sqlite_stores_keeps)

lemma one_run_stores_keep: "sqlite_stores m c \<Longrightarrow> one_run m c c' \<Longrightarrow> stores_keep c c'"
  unfolding stores_keep_def using one_run_keeps by blast

section \<open>An operator and a cluster for concrete inputs\<close>

definition plain_manager :: "(sqlite, unit) manager" where
  "plain_manager = \<lparr>mg_store_root = '''', mg_backend = \<lambda>_. sqlite_backend, mg_exec = demo_cfg, mg_julia = True,
     mg_runner_image = '''', mg_pod_map = \<lambda>_. [], mg_publish = None\<rparr>"

definition idle_cluster :: "kube \<Rightarrow> (sqlite, unit) cluster" where
  "idle_cluster kb = \<lparr>cu_kube = kb, cu_world = no_world, cu_store = \<lambda>_. sq_empty, cu_open = \<lambda>_ _. None, cu_opened = 0,
     cu_bus = (), cu_topics = \<lambda>_. \<lparr>br_log = [], br_faults = []\<rparr>, cu_cdc_topics = \<lambda>_. \<lparr>ct_log = [], ct_faults = []\<rparr>,
     cu_cdc = new_cdc_bus\<rparr>"

lemma julia_replays [simp]: "mg_julia m \<Longrightarrow> skip_julia_replay m ch k = False"
  by (simp add: skip_julia_replay_def)

lemma idle_stores [simp]: "sqlite_stores plain_manager (idle_cluster kb)" "mg_julia plain_manager"
  by (simp_all add: sqlite_stores_def plain_manager_def idle_cluster_def)

end
