(* ===== verification/WorkflowCtl.thy ===== *)
theory WorkflowCtl
  imports Operator
begin

text \<open>
  The workflow controller (\<open>internal/controller/workflow_controller.go\<close>,
  \<open>workflow_events.go\<close>): one reconcile marks the workflow as running, applies its universe, and
  either runs the chain with the local engine or hands it to a domino chain object, and writes
  what came out to the status, the replay log and the event bus.  The lemmas say what a status
  that says \<open>Completed\<close> rests on, in which order phases are written, and that no reconcile ever
  changes a sealed snapshot or a memoized output of any store.
\<close>

section \<open>The replay log as JSON\<close>

definition log_entry_json :: "log_entry \<Rightarrow> string res" where
  "log_entry_json e =
     bindr (json_time (le_timestamp e)) (\<lambda>t. Inr (json_obj
       ([(''timestamp'', t), (''snapshot_id'', json_string (le_snapshot_id e)),
         (''domino_id'', json_string (le_domino_id e)), (''input_hash'', json_string (le_input_hash e)),
         (''output_hash'', json_string (le_output_hash e)), (''reused'', json_bool (le_reused e))]
        @ omit_empty ''output'' (le_output e) @ omit_empty ''regularity'' (le_regularity e)
        @ omit_empty ''prev_link'' (le_prev_link e) @ omit_empty ''link'' (le_link e))))"

fun log_entries_json :: "log_entry list \<Rightarrow> string list res" where
  "log_entries_json [] = Inr []"
| "log_entries_json (e # es) =
     bindr (log_entry_json e) (\<lambda>t. bindr (log_entries_json es) (\<lambda>ts. Inr (t # ts)))"

definition run_result_json :: "run_result \<Rightarrow> string res" where
  "run_result_json r =
     bindr (log_entries_json (rr_entries r)) (\<lambda>es.
     bindr (json_marshal (GNum (rr_work_cost r))) (\<lambda>cost. Inr (json_obj
       ([(''snapshot_id'', json_string (rr_snapshot_id r)),
         (''entries'', ''['' @ join_with '','' es @ '']''),
         (''final_output'', json_string (rr_final_output r))]
        @ omit_empty ''min_regularity'' (rr_min_regularity r)
        @ [(''work_evaluations'', int_str (rr_work_evaluations r)), (''work_reuses'', int_str (rr_work_reuses r)),
           (''work_cost_usd'', cost)]
        @ omit_empty ''head_link'' (rr_head_link r)))))"

text \<open>
  \<open>json.Indent\<close> with two blanks on compact text: depth, whether a bracket was just opened, and
  whether the text is inside a string, with its last escape.
\<close>

definition json_newline :: "nat \<Rightarrow> string" where
  "json_newline depth = CHR 0x0A # concat (replicate depth ''  '')"

fun json_indent :: "nat \<Rightarrow> bool \<Rightarrow> bool \<Rightarrow> bool \<Rightarrow> string \<Rightarrow> string" where
  "json_indent depth opened instr esc [] = []"
| "json_indent depth opened instr esc (c # cs) =
     (if instr then
        c # json_indent depth False (\<not> (c = CHR 0x22 \<and> \<not> esc)) (c = CHR 0x5C \<and> \<not> esc) cs
      else if c = CHR ''}'' \<or> c = CHR '']'' then
        (if opened then c # json_indent depth False False False cs
         else json_newline (depth - 1) @ c # json_indent (depth - 1) False False False cs)
      else
        let lead = (if opened then json_newline (Suc depth) else ''''); d = (if opened then Suc depth else depth)
        in if c = CHR ''{'' \<or> c = CHR ''['' then lead @ c # json_indent d True False False cs
           else if c = CHR '','' then lead @ c # json_newline d @ json_indent d False False False cs
           else if c = CHR '':'' then lead @ c # '' '' @ json_indent d False False False cs
           else lead @ c # json_indent d False (c = CHR 0x22) False cs)"

definition run_result_indented :: "run_result \<Rightarrow> string res" where
  "run_result_indented r = bindr (run_result_json r) (\<lambda>t. Inr (json_indent 0 False False False t))"

section \<open>Ending a reconcile\<close>

definition workflow_finalizer_name :: string where
  "workflow_finalizer_name = ''kbl.io/workflow-finalizer''"

abbreviation set_wf_status :: "(api_wf_status \<Rightarrow> api_wf_status) \<Rightarrow> api_workflow \<Rightarrow> api_workflow" where
  "set_wf_status f k \<equiv> k\<lparr>awf_status := f (awf_status k)\<rparr>"

definition wf_condition :: "string \<Rightarrow> string \<Rightarrow> string \<Rightarrow> int \<Rightarrow> api_workflow \<Rightarrow> k8s_condition" where
  "wf_condition ty reason msg now k = \<lparr>kc_type = ty, kc_status = ''True'',
     kc_observed_generation = km_generation (awf_meta k), kc_last_transition = now, kc_reason = reason, kc_message = msg\<rparr>"

text \<open>The phase, and with it the homeostasis flag.\<close>

definition set_phase :: "string \<Rightarrow> api_wf_status \<Rightarrow> api_wf_status" where
  "set_phase p s = s\<lparr>awt_phase := p, awt_homeostatic := homeostatic (phase_homeostasis p)\<rparr>"

definition fail_workflow :: "api_workflow \<Rightarrow> err \<Rightarrow> ('s, 'b) cluster \<Rightarrow> outcome \<times> ('s, 'b) cluster" where
  "fail_workflow k e c =
     (let (now, c1) = on_world time_now c;
          k1 = set_wf_status (\<lambda>s. (set_phase ''Error'' s)\<lparr>awt_message := err_msg e,
            awt_conditions := [wf_condition ''Failed'' ''ExecutionFailed'' (err_msg e) now k]\<rparr>) k
      in on_kube (put_then (UpdateWorkflowStatus k1) (no_requeue, Some e)) c1)"

definition wait_for_snapshot :: "api_workflow \<Rightarrow> err \<Rightarrow> kube \<Rightarrow> outcome \<times> kube" where
  "wait_for_snapshot k e =
     put_then (UpdateWorkflowStatus (set_wf_status (\<lambda>s. s\<lparr>awt_phase := ''Pending'', awt_message := err_msg e\<rparr>) k))
       (requeue_after 5000000000, None)"

definition is_snapshot_not_ready :: "err \<Rightarrow> bool" where
  "is_snapshot_not_ready e =
     (api_is_not_found e \<or> is_source_not_ready e \<or> contains_sub (err_msg e) ''is not ready'')"

text \<open>A panic ends the reconcile without running what follows.\<close>

definition panic_outcome :: "err \<Rightarrow> outcome" where
  "panic_outcome e = (no_requeue, Some e)"

section \<open>The replay log\<close>

definition replay_config_map :: "api_workflow \<Rightarrow> string \<Rightarrow> config_map" where
  "replay_config_map k data =
     \<lparr>cm_meta = owned_by ''Workflow'' (awf_meta k) (new_meta (km_name (awf_meta k) @ ''-replay'') (km_namespace (awf_meta k))
        [(''kbl.io/workflow'', km_name (awf_meta k)), (''app.kubernetes.io/managed-by'', ''kbl-controller'')]),
      cm_data = [(''replay.json'', data)]\<rparr>"

definition write_replay_log :: "api_workflow \<Rightarrow> run_result \<Rightarrow> kube \<Rightarrow> string res \<times> kube" where
  "write_replay_log k result kb =
     (case run_result_indented result of
        Inl e \<Rightarrow> (Inl e, kb)
      | Inr data \<Rightarrow>
          let cm = replay_config_map k data; ref = ''configmap/'' @ km_namespace (awf_meta k) @ ''/'' @ km_name (cm_meta cm)
          in case kube_get kb_config_map (km_namespace (cm_meta cm), km_name (cm_meta cm)) kb of
               (Inl e, kb1) \<Rightarrow>
                 if api_is_not_found e then
                   (case kube_put (CreateConfigMap cm) kb1 of
                      (Some e, kb2) \<Rightarrow> (Inl e, kb2) | (None, kb2) \<Rightarrow> (Inr ref, kb2))
                 else (Inl e, kb1)
             | (Inr existing, kb1) \<Rightarrow>
                 (case kube_put (UpdateConfigMap (existing\<lparr>cm_data := cm_data cm,
                      cm_meta := (cm_meta existing)\<lparr>km_labels := km_labels (cm_meta cm)\<rparr>\<rparr>)) kb1 of
                    (Some e, kb2) \<Rightarrow> (Inl e, kb2) | (None, kb2) \<Rightarrow> (Inr ref, kb2)))"

section \<open>The event\<close>

definition partition_labels :: "api_workflow \<Rightarrow> strmap" where
  "partition_labels k = map (\<lambda>(l, v). (trim_prefix l ''kbl.io/partition-'', v))
     (filter (\<lambda>(l, v). has_prefix l ''kbl.io/partition-'') (km_labels (awf_meta k)))"

definition completion_event :: "api_workflow \<Rightarrow> run_result \<Rightarrow> int \<Rightarrow> snapshot_event" where
  "completion_event k result now =
     (let u = ar_universe (aws_routing (awf_spec k)); wl = worldline (rr_entries result)
      in \<lparr>ev_event_id = (case event_id (rr_snapshot_id result) wl u (km_name (awf_meta k)) of Inr i \<Rightarrow> i | Inl _ \<Rightarrow> ''''),
          ev_type = type_snapshot_completed, ev_snapshot_id = rr_snapshot_id result,
          ev_time_slice = ass_time_slice (aws_snapshot (awf_spec k)), ev_workflow = km_name (awf_meta k),
          ev_namespace = km_namespace (awf_meta k), ev_universe = u,
          ev_multiverse = ar_multiverse_ref (aws_routing (awf_spec k)), ev_partitions = partition_labels k,
          ev_final_output = (if rr_entries result = [] then '''' else le_output_hash (last (rr_entries result))),
          ev_worldline = wl, ev_head_link = rr_head_link result, ev_occurred_at = now\<rparr>)"

text \<open>\<open>publishSnapshotEvent\<close>: the error is a panic; errors of the buses are dropped.\<close>

definition publish_completion ::
  "('s, 'b) manager \<Rightarrow> api_workflow \<Rightarrow> run_result \<Rightarrow> ('s, 'b) cluster \<Rightarrow> unit res \<times> ('s, 'b) cluster" where
  "publish_completion m k result c =
     (let (now, c1) = on_world time_now c; evt = completion_event k result now;
          ref = ar_multiverse_ref (aws_routing (awf_spec k))
      in if ref \<noteq> '''' then
           (case on_kube (kube_get kb_multiverse (km_namespace (awf_meta k), ref)) c1 of
              (Inr mv, c2) \<Rightarrow> publish_workflow_cdc mv k result (snd (publish_to_multiverse m mv evt c2))
            | (Inl _, c2) \<Rightarrow> (Inr (), snd (bus_publish m evt c2)))
         else (Inr (), snd (bus_publish m evt c1)))"

section \<open>Completion\<close>

definition domino_result :: "log_entry \<Rightarrow> api_domino_result" where
  "domino_result e = \<lparr>adres_domino_id = le_domino_id e, adres_input_hash = le_input_hash e,
     adres_output_hash = le_output_hash e, adres_reused = le_reused e\<rparr>"

definition reused_count :: "log_entry list \<Rightarrow> int" where
  "reused_count es = int (length (filter le_reused es))"

definition completed_workflow ::
  "run_result \<Rightarrow> string \<Rightarrow> string \<Rightarrow> string \<Rightarrow> int \<Rightarrow> api_workflow \<Rightarrow> api_workflow" where
  "completed_workflow result replayRef msg reason now k =
     set_wf_status (\<lambda>s. (set_phase ''Completed'' s)
       \<lparr>awt_observed_generation := km_generation (awf_meta k), awt_snapshot_id := rr_snapshot_id result,
        awt_domino_count := int (length (rr_entries result)), awt_reused_count := reused_count (rr_entries result),
        awt_recomputed_count := int (length (rr_entries result)) - reused_count (rr_entries result),
        awt_last_run := Some now, awt_replay_log_ref := replayRef,
        awt_domino_results := map domino_result (rr_entries result), awt_message := msg,
        awt_head_link := rr_head_link result, awt_work_evaluations := rr_work_evaluations result,
        awt_work_cost := rr_work_cost result,
        awt_conditions := [wf_condition ''Ready'' reason msg now k]\<rparr>) k"

text \<open>The tail \<open>execute\<close> and \<open>completeFromChain\<close> share: replay log, status, event.\<close>

definition complete_workflow ::
  "('s, 'b) manager \<Rightarrow> api_workflow \<Rightarrow> run_result \<Rightarrow> string \<Rightarrow> string \<Rightarrow> ('s, 'b) cluster
     \<Rightarrow> outcome \<times> ('s, 'b) cluster" where
  "complete_workflow m k result msg reason c =
     (let (ref, c1) = on_kube (write_replay_log k result) c;
          replayRef = (case ref of Inr r \<Rightarrow> r | Inl _ \<Rightarrow> '''');
          (now, c2) = on_world time_now c1;
          k1 = completed_workflow result replayRef msg reason now k
      in case on_kube (kube_put (UpdateWorkflowStatus k1)) c2 of
           (Some e, c3) \<Rightarrow> ((no_requeue, Some e), c3)
         | (None, c3) \<Rightarrow> (case publish_completion m k1 result c3 of
               (Inl p, c4) \<Rightarrow> (panic_outcome p, c4)
             | (Inr _, c4) \<Rightarrow> ((no_requeue, None), c4)))"

text \<open>Run the engine on the workflow; \<open>wait\<close> says what a snapshot that is not ready means.\<close>

definition run_resolved ::
  "('s, 'b) manager \<Rightarrow> bool \<Rightarrow> (err \<Rightarrow> err) \<Rightarrow> (run_result \<Rightarrow> string) \<Rightarrow> string \<Rightarrow> api_workflow \<Rightarrow> ('s, 'b) cluster
     \<Rightarrow> outcome \<times> ('s, 'b) cluster" where
  "run_resolved m wait openErr msg reason k c =
     (case open_store (\<lambda>cl. open_for_workflow cl k (mg_store_root m)) (wrapf ''open store'') c of
        (Inl e, c1) \<Rightarrow> fail_workflow k (openErr e) c1
      | (Inr op, c1) \<Rightarrow>
      (case on_both (resolve_engine_workflow k) c1 of
        (Inl e, c2) \<Rightarrow> if wait \<and> is_snapshot_not_ready e then on_kube (wait_for_snapshot k e) c2 else fail_workflow k e c2
      | (Inr wk, c2) \<Rightarrow>
      (case run_workflow m op wk c2 of
        (Inl e, c3) \<Rightarrow> fail_workflow k e c3
      | (Inr result, c3) \<Rightarrow> complete_workflow m k result (msg result) reason c3)))"

definition local_message :: "run_result \<Rightarrow> string" where
  "local_message result = ''completed: '' @ nat_str (length (rr_entries result)) @ '' dominos, ''
     @ int_str (reused_count (rr_entries result)) @ '' reused''"

definition chain_message :: "run_result \<Rightarrow> string" where
  "chain_message result = ''container chain completed: '' @ nat_str (length (rr_entries result)) @ '' dominos''"

section \<open>Container chains\<close>

definition step_domino_results :: "api_chain \<Rightarrow> api_domino_result list" where
  "step_domino_results ch = map (\<lambda>(i, s). \<lparr>adres_domino_id = dst_name s, adres_input_hash = '''',
       adres_output_hash = (if i < length (dct_step_results (dch_status ch))
          then dsr_output_hash (dct_step_results (dch_status ch) ! i) else ''''), adres_reused = False\<rparr>)
     (enumerate 0 (dcs_steps (dch_spec ch)))"

definition complete_from_chain_status ::
  "api_workflow \<Rightarrow> api_chain \<Rightarrow> ('s, 'b) cluster \<Rightarrow> outcome \<times> ('s, 'b) cluster" where
  "complete_from_chain_status k ch c =
     (let (now, c1) = on_world time_now c; n = int (length (dcs_steps (dch_spec ch)));
          msg = ''container chain completed '' @ int_str n @ '' in-cluster julia steps (operator skipped replay)'';
          k1 = set_wf_status (\<lambda>s. (set_phase ''Completed'' s)
            \<lparr>awt_observed_generation := km_generation (awf_meta k), awt_snapshot_id := dct_snapshot_id (dch_status ch),
             awt_domino_count := n, awt_reused_count := 0, awt_recomputed_count := n, awt_last_run := Some now,
             awt_domino_results := step_domino_results ch, awt_message := msg,
             awt_conditions := [wf_condition ''Ready'' ''ContainerChainCompleted'' msg now k]\<rparr>) k
      in on_kube (put_then (UpdateWorkflowStatus k1) (no_requeue, None)) c1)"

definition complete_from_chain ::
  "('s, 'b) manager \<Rightarrow> api_workflow \<Rightarrow> api_chain \<Rightarrow> ('s, 'b) cluster \<Rightarrow> outcome \<times> ('s, 'b) cluster" where
  "complete_from_chain m k ch c =
     (if skip_julia_replay m (Some ch) (Some k) then complete_from_chain_status k ch c
      else run_resolved m False id chain_message ''ContainerChainCompleted'' k c)"

definition chain_labels_from_workflow :: "api_workflow \<Rightarrow> strmap" where
  "chain_labels_from_workflow k =
     (let labels = fold (\<lambda>(l, v) m. if has_prefix l ''kbl.io/'' then aput l v m else m) (km_labels (awf_meta k))
            [(''kbl.io/workflow'', km_name (awf_meta k))]
      in if wf_runtime k = ''openkruise'' then aput ''kbl.io/openkruise-demo'' ''true'' labels else labels)"

definition chain_object :: "api_workflow \<Rightarrow> api_chain \<Rightarrow> api_chain" where
  "chain_object k ch =
     \<lparr>dch_meta = owned_by ''Workflow'' (awf_meta k) (new_meta (km_name (awf_meta k) @ ''-dchain'')
        (km_namespace (awf_meta k)) (chain_labels_from_workflow k)),
      dch_spec = dch_spec ch, dch_status = no_chain_status\<rparr>"

definition create_chain ::
  "api_workflow \<Rightarrow> string \<Rightarrow> ('s, 'b) cluster \<Rightarrow> outcome \<times> ('s, 'b) cluster" where
  "create_chain k0 storePath c =
     (case on_kube (apply_to_workflow k0) c of
        (Inl e, c1) \<Rightarrow> fail_workflow k0 e c1
      | (Inr k, c1) \<Rightarrow>
      (case on_both (from_workflow k storePath) c1 of
        (Inl e, c2) \<Rightarrow> if is_snapshot_not_ready e then on_kube (wait_for_snapshot k e) c2 else fail_workflow k e c2
      | (Inr ch, c2) \<Rightarrow>
      (case on_kube (kube_put (CreateChain (chain_object k ch))) c2 of
        (Some e, c3) \<Rightarrow> fail_workflow k (wrapf ''create domino chain'' e) c3
      | (None, c3) \<Rightarrow>
          on_kube (put_then (UpdateWorkflowStatus (set_wf_status (\<lambda>s. s
            \<lparr>awt_message := ''created domino chain '' @ km_name (awf_meta k) @ ''-dchain''\<rparr>) k))
            (requeue_after 3000000000, None)) c3)))"

definition execute_container ::
  "('s, 'b) manager \<Rightarrow> api_workflow \<Rightarrow> string \<Rightarrow> ('s, 'b) cluster \<Rightarrow> outcome \<times> ('s, 'b) cluster" where
  "execute_container m k storePath c =
     (let chainName = km_name (awf_meta k) @ ''-dchain''
      in case on_kube (kube_get kb_chain (km_namespace (awf_meta k), chainName)) c of
           (Inl e, c1) \<Rightarrow> if api_is_not_found e then create_chain k storePath c1 else ((no_requeue, Some e), c1)
         | (Inr ch, c1) \<Rightarrow>
             let phase = dct_phase (dch_status ch)
             in if phase = ''Completed'' then complete_from_chain m k ch c1
                else if phase = ''Error'' then fail_workflow k (errorf (''domino chain failed: '' @ dct_message (dch_status ch))) c1
                else on_kube (put_then (UpdateWorkflowStatus (set_wf_status (\<lambda>s. s
                       \<lparr>awt_message := ''waiting for domino chain '' @ chainName @ '' ('' @ phase @ '')''\<rparr>) k))
                       (requeue_after 5000000000, None)) c1)"

section \<open>Reconcile\<close>

definition running_workflow :: "api_workflow \<Rightarrow> api_workflow" where
  "running_workflow k = set_wf_status (\<lambda>s. (set_phase ''Running'' s)\<lparr>awt_message := ''executing domino chain''\<rparr>) k"

definition chain_store_path :: "('s, 'b) manager \<Rightarrow> api_workflow \<Rightarrow> string" where
  "chain_store_path m k =
     (if ap_store_path (aws_provisioning (awf_spec k)) = '''' then
        path_join [if mg_store_root m = '''' then ''/var/kbl/store'' else mg_store_root m,
          km_namespace (awf_meta k), km_name (awf_meta k) @ ''.db'']
      else ap_store_path (aws_provisioning (awf_spec k)))"

definition execute_workflow ::
  "('s, 'b) manager \<Rightarrow> api_workflow \<Rightarrow> ('s, 'b) cluster \<Rightarrow> outcome \<times> ('s, 'b) cluster" where
  "execute_workflow m k0 c =
     (let k1 = running_workflow k0
      in case on_kube (kube_put (UpdateWorkflowStatus k1)) c of
           (Some e, c1) \<Rightarrow> ((no_requeue, Some e), c1)
         | (None, c1) \<Rightarrow>
         (case on_kube (apply_to_workflow k1) c1 of
           (Inl e, c2) \<Rightarrow> fail_workflow k1 e c2
         | (Inr k, c2) \<Rightarrow>
         (case on_kube (needs_container_runtime k) c2 of
           (True, c3) \<Rightarrow> execute_container m k (chain_store_path m k) c3
         | (False, c3) \<Rightarrow> run_resolved m True (wrapf ''open store'') local_message ''ChainCompleted'' k c3)))"

definition finalize_workflow :: "api_workflow \<Rightarrow> kube \<Rightarrow> outcome \<times> kube" where
  "finalize_workflow k kb =
     (if contains_finalizer workflow_finalizer_name (awf_meta k)
      then put_then (UpdateWorkflow (k\<lparr>awf_meta := remove_finalizer workflow_finalizer_name (awf_meta k)\<rparr>)) (no_requeue, None) kb
      else ((no_requeue, None), kb))"

definition reconcile_found_workflow ::
  "('s, 'b) manager \<Rightarrow> api_workflow \<Rightarrow> ('s, 'b) cluster \<Rightarrow> outcome \<times> ('s, 'b) cluster" where
  "reconcile_found_workflow m k c =
     (if km_deleting (awf_meta k) then on_kube (finalize_workflow k) c
      else if \<not> contains_finalizer workflow_finalizer_name (awf_meta k) then
        on_kube (put_then (UpdateWorkflow (k\<lparr>awf_meta := add_finalizer workflow_finalizer_name (awf_meta k)\<rparr>)) (requeue_now, None)) c
      else if awt_observed_generation (awf_status k) = km_generation (awf_meta k) \<and> awt_phase (awf_status k) = ''Completed''
      then ((no_requeue, None), c)
      else execute_workflow m k c)"

definition reconcile_workflow ::
  "('s, 'b) manager \<Rightarrow> object_key \<Rightarrow> ('s, 'b) cluster \<Rightarrow> outcome \<times> ('s, 'b) cluster" where
  "reconcile_workflow m key c =
     (case on_kube (kube_get kb_workflow key) c of
        (Inl e, c1) \<Rightarrow> ((no_requeue, if api_is_not_found e then None else Some e), c1)
      | (Inr k, c1) \<Rightarrow> reconcile_found_workflow m k c1)"


section \<open>What the parts change\<close>

text \<open>The statuses a log writes, in order.\<close>

fun workflow_status :: "kube_write \<Rightarrow> api_workflow option" where
  "workflow_status (UpdateWorkflowStatus k) = Some k"
| "workflow_status _ = None"

abbreviation no_status :: "kube_write \<Rightarrow> bool" where
  "no_status w \<equiv> workflow_status w = None"

abbreviation statuses :: "('s, 'b) cluster \<Rightarrow> api_workflow list" where
  "statuses \<equiv> said workflow_status"

abbreviation tells :: "('s, 'b) cluster \<Rightarrow> api_workflow list \<Rightarrow> ('s, 'b) cluster \<Rightarrow> bool" where
  "tells \<equiv> adds workflow_status"

lemmas tells_trans = adds_trans [where f = workflow_status]
  and tells_silent = adds_silent [where f = workflow_status]
  and tells_same = adds_same [where f = workflow_status]

lemma tells_put: "kube_put (UpdateWorkflowStatus k) (cu_kube c) = (r, cu_kube c1) \<Longrightarrow> tells c [k] c1"
  by (erule adds_put) simp

lemma tells_put_then:
  "on_kube (put_then (UpdateWorkflowStatus k) o1) c = (o2, c1) \<Longrightarrow> tells c [k] c1 \<and> cu_store c1 = cu_store c"
  by (erule adds_put_then) simp

lemma fail_workflow_tells:
  assumes "fail_workflow k e c = (out, c1)"
  shows "\<exists>k'. tells c [k'] c1 \<and> awt_phase (awf_status k') = ''Error'' \<and> cu_store c1 = cu_store c"
proof -
  obtain now c2 where n: "on_world time_now c = (now, c2)" by fastforce
  obtain k' where "on_kube (put_then (UpdateWorkflowStatus k') (no_requeue, Some e)) c2 = (out, c1)"
    "awt_phase (awf_status k') = ''Error''"
    using assms n by (auto simp: fail_workflow_def Let_def set_phase_def)
  from tells_put_then [OF this(1)] this(2) tells_trans [OF tells_same] on_world_parts [OF n] show ?thesis by fastforce
qed

lemma wait_for_snapshot_tells:
  "on_kube (wait_for_snapshot k e) c = (out, c1) \<Longrightarrow>
    \<exists>k'. tells c [k'] c1 \<and> awt_phase (awf_status k') = ''Pending'' \<and> cu_store c1 = cu_store c"
  unfolding wait_for_snapshot_def by (drule tells_put_then) auto

lemma write_replay_log_silent: "write_replay_log k result kb = (r, kb1) \<Longrightarrow> runs no_status kb kb1"
  by (auto simp: write_replay_log_def Let_def split: sum.splits prod.splits option.splits if_splits
      dest!: runs_get [where P = no_status] runs_put [where P = no_status] intro: runs_trans)

text \<open>A reconciler whose bus handlers write no status of a workflow.\<close>

definition bus_frame :: "('s, 'b) manager \<Rightarrow> bool" where
  "bus_frame m \<longleftrightarrow> (\<forall>publish evt kb w b r kb' w' b'. mg_publish m = Some publish \<longrightarrow>
     publish evt (kb, w, b) = (r, kb', w', b') \<longrightarrow> runs no_status kb kb')"

lemma bus_publish_tells:
  assumes "bus_frame m" "bus_publish m evt c = (r, c1)"
  shows "tells c [] c1 \<and> cu_store c1 = cu_store c"
proof (cases "mg_publish m")
  case None with assms(2) show ?thesis by (auto simp: bus_publish_def intro: tells_same)
next
  case (Some publish)
  obtain r' kb w b where p: "publish evt (cu_kube c, cu_world c, cu_bus c) = (r', kb, w, b)" by (metis prod_cases4)
  have "runs no_status (cu_kube c) kb" using assms(1) Some p unfolding bus_frame_def by blast
  with assms(2) Some p show ?thesis by (auto simp: bus_publish_def intro!: tells_silent)
qed

lemma kafka_sync_publish_tells: "tells c [] (kafka_sync_publish ks evt c) \<and> cu_store (kafka_sync_publish ks evt c) = cu_store c"
  by (auto simp: kafka_sync_publish_def Let_def split: sum.splits prod.splits intro!: tells_same)

lemma publish_to_multiverse_tells:
  assumes "bus_frame m" "publish_to_multiverse m mv evt c = (r, c1)"
  shows "tells c [] c1 \<and> cu_store c1 = cu_store c"
proof -
  define c0 where "c0 = (case ms_sync (amv_spec mv) of None \<Rightarrow> c
    | Some sy \<Rightarrow> if sy_enabled sy then (case sy_kafka sy of None \<Rightarrow> c | Some ks \<Rightarrow> kafka_sync_publish ks evt c) else c)"
  have "tells c [] c0 \<and> cu_store c0 = cu_store c"
    using kafka_sync_publish_tells by (auto simp: c0_def tells_same split: option.splits)
  moreover have "bus_publish m evt c0 = (r, c1)" using assms(2) by (simp add: publish_to_multiverse_def c0_def)
  ultimately show ?thesis using bus_publish_tells [OF assms(1)] tells_trans [of c "[]" c0 "[]" c1] by fastforce
qed

lemma publish_workflow_cdc_tells:
  "publish_workflow_cdc mv k result c = (r, c1) \<Longrightarrow> tells c [] c1 \<and> cu_store c1 = cu_store c"
  by (auto simp: publish_workflow_cdc_def cdc_publish_envelopes_def Let_def tells_same
      split: option.splits if_splits prod.splits cdc_publisher.splits)

lemma publish_completion_tells:
  assumes "bus_frame m" "publish_completion m k result c = (r, c1)"
  shows "tells c [] c1 \<and> cu_store c1 = cu_store c"
proof -
  define ref where "ref = ar_multiverse_ref (aws_routing (awf_spec k))"
  obtain now c2 where n: "on_world time_now c = (now, c2)" by fastforce
  obtain g c3 where g: "on_kube (kube_get kb_multiverse (km_namespace (awf_meta k), ref)) c2 = (g, c3)" by fastforce
  define evt where "evt = completion_event k result now"
  obtain r4 c4 where b4: "bus_publish m evt c2 = (r4, c4)" by fastforce
  obtain r5 c5 where b5: "bus_publish m evt c3 = (r5, c5)" by fastforce
  have t2: "tells c [] c2" "cu_store c2 = cu_store c" using on_world_parts [OF n] tells_same by auto
  have t3: "tells c [] c3" "cu_store c3 = cu_store c"
    using tells_trans [OF t2(1) tells_silent [OF runs_get [OF on_kube_parts(1) [OF g]]]] on_kube_parts(2) [OF g] t2 by simp_all
  show ?thesis
  proof (cases "ref = ''''")
    case True then show ?thesis using assms(2) n b4 bus_publish_tells [OF assms(1) b4] tells_trans [OF t2(1)] t2
      by (auto simp: publish_completion_def ref_def [symmetric] evt_def [symmetric] Let_def)
  next
    case ref: False
    show ?thesis
    proof (cases g)
      case (Inl e) then show ?thesis using assms(2) ref n g b5 bus_publish_tells [OF assms(1) b5] tells_trans [OF t3(1)] t3
        by (auto simp: publish_completion_def ref_def [symmetric] evt_def [symmetric] Let_def)
    next
      case (Inr mv)
      obtain r6 c6 where b6: "publish_to_multiverse m mv evt c3 = (r6, c6)" by fastforce
      have "publish_workflow_cdc mv k result c6 = (r, c1)" using assms(2) ref n g b6 Inr
        by (auto simp: publish_completion_def ref_def [symmetric] evt_def [symmetric] Let_def)
      from publish_workflow_cdc_tells [OF this] publish_to_multiverse_tells [OF assms(1) b6] t3
        tells_trans [of c3 "[]" c6 "[]" c1] tells_trans [OF t3(1), of "[]" c1] show ?thesis by simp
    qed
  qed
qed

section \<open>What a status rests on\<close>

abbreviation wf_phase :: "api_workflow \<Rightarrow> string" where
  "wf_phase k \<equiv> awt_phase (awf_status k)"

text \<open>The status repeats the result of a run, for the generation that was run.\<close>

definition reports :: "run_result \<Rightarrow> api_workflow \<Rightarrow> bool" where
  "reports res k \<longleftrightarrow> awt_snapshot_id (awf_status k) = rr_snapshot_id res \<and> awt_head_link (awf_status k) = rr_head_link res
     \<and> awt_domino_results (awf_status k) = map domino_result (rr_entries res)
     \<and> awt_domino_count (awf_status k) = int (length (rr_entries res))
     \<and> awt_reused_count (awf_status k) + awt_recomputed_count (awf_status k) = awt_domino_count (awf_status k)
     \<and> awt_observed_generation (awf_status k) = km_generation (awf_meta k) \<and> awt_homeostatic (awf_status k)"

text \<open>
  One run of the engine, of the resolved workflow on the store the workflow names, succeeded and
  made the only change of the stores.
\<close>

definition ran :: "('s, 'b) manager \<Rightarrow> ('s, 'b) cluster \<Rightarrow> api_workflow \<Rightarrow> run_result \<Rightarrow> ('s, 'b) cluster \<Rightarrow> bool" where
  "ran m c k res c' \<longleftrightarrow> (\<exists>op wk kb kb1 kb2 w w1 s' w'. runs (\<lambda>_. True) (cu_kube c) kb \<and> runs (\<lambda>_. True) (cu_kube c) kb1
     \<and> open_for_workflow (Some (context_client kb)) k (mg_store_root m) = Inr op
     \<and> resolve_engine_workflow k kb1 w = (Inr wk, kb2, w1)
     \<and> run (engine_for m op) wk (cu_store c op) w1 = (Inr res, s', w') \<and> cu_store c' = (cu_store c)(op := s'))"

text \<open>The chain object of the workflow was found completed, and the operator has no Julia.\<close>

definition chain_reported :: "('s, 'b) manager \<Rightarrow> kube \<Rightarrow> api_workflow \<Rightarrow> bool" where
  "chain_reported m kb k \<longleftrightarrow> (\<exists>t ch. kb_chain kb t (km_namespace (awf_meta k), km_name (awf_meta k) @ ''-dchain'') = Inr ch
     \<and> dct_phase (dch_status ch) = ''Completed'' \<and> skip_julia_replay m (Some ch) (Some k)
     \<and> awt_snapshot_id (awf_status k) = dct_snapshot_id (dch_status ch)
     \<and> awt_domino_results (awf_status k) = step_domino_results ch)"

definition justified :: "('s, 'b) manager \<Rightarrow> ('s, 'b) cluster \<Rightarrow> api_workflow \<Rightarrow> ('s, 'b) cluster \<Rightarrow> bool" where
  "justified m c k c' \<longleftrightarrow> (\<exists>res. ran m c k res c' \<and> reports res k)
     \<or> cu_store c' = cu_store c \<and> chain_reported m (cu_kube c) k"

text \<open>How the work on a running workflow ends: without a status, or with one.\<close>

definition ends :: "('s, 'b) manager \<Rightarrow> ('s, 'b) cluster \<Rightarrow> api_workflow list \<Rightarrow> ('s, 'b) cluster \<Rightarrow> bool" where
  "ends m c ks c' \<longleftrightarrow> tells c ks c' \<and> one_run m c c' \<and> (ks = [] \<or> (\<exists>k. ks = [k]
     \<and> (wf_phase k = ''Error'' \<or> wf_phase k = ''Pending'' \<or> wf_phase k = ''Running'' \<or> wf_phase k = ''Completed'' \<and> justified m c k c')))"

lemma ran_one_run: "ran m c k res c' \<Longrightarrow> one_run m c c'"
  unfolding ran_def one_run_def by blast

lemma justified_before:
  assumes "tells c l c1" "cu_store c1 = cu_store c"
  shows "justified m c1 k c2 \<Longrightarrow> justified m c k c2" "one_run m c1 c2 = one_run m c c2"
proof -
  have r: "runs (\<lambda>_. True) (cu_kube c) (cu_kube c1)" using assms(1) by (simp add: adds_def)
  then have "chain_reported m (cu_kube c1) k = chain_reported m (cu_kube c) k" by (simp add: chain_reported_def runs_server(4))
  moreover have "ran m c1 k res c2 \<Longrightarrow> ran m c k res c2" for res
    using runs_trans [OF r] assms(2) unfolding ran_def by metis
  ultimately show "justified m c1 k c2 \<Longrightarrow> justified m c k c2"
    using assms(2) by (auto simp: justified_def)
  show "one_run m c1 c2 = one_run m c c2" using assms(2) by (simp add: one_run_def)
qed

lemma ends_before:
  assumes "tells c [] c1" "cu_store c1 = cu_store c" "ends m c1 ks c2" shows "ends m c ks c2"
  using assms(3) tells_trans [OF assms(1), of ks c2] justified_before(1) [OF assms(1,2)]
  unfolding ends_def justified_before(2) [OF assms(1,2)] by auto

lemma ends_status:
  "tells c [k] c1 \<Longrightarrow> cu_store c1 = cu_store c \<Longrightarrow> wf_phase k = ''Error'' \<or> wf_phase k = ''Pending'' \<or> wf_phase k = ''Running''
    \<Longrightarrow> ends m c [k] c1"
  by (auto simp: ends_def one_run_same)

lemma fail_workflow_ends: "fail_workflow k e c = (out, c1) \<Longrightarrow> \<exists>ks. ends m c ks c1"
  using fail_workflow_tells [of k e c out c1] ends_status [of c _ c1 m] by blast

lemma wait_for_snapshot_ends: "on_kube (wait_for_snapshot k e) c = (out, c1) \<Longrightarrow> \<exists>ks. ends m c ks c1"
  using wait_for_snapshot_tells [of k e c out c1] ends_status [of c _ c1 m] by blast

lemma running_status_ends:
  "on_kube (put_then (UpdateWorkflowStatus k) o1) c = (out, c1) \<Longrightarrow> wf_phase k = ''Running'' \<Longrightarrow> \<exists>ks. ends m c ks c1"
  using tells_put_then [of k o1 c out c1] ends_status [of c k c1 m] by blast

lemma complete_workflow_tells:
  assumes "bus_frame m" "complete_workflow m k res msg reason c = (out, c1)"
  shows "\<exists>k'. tells c [k'] c1 \<and> cu_store c1 = cu_store c \<and> wf_phase k' = ''Completed'' \<and> reports res k'
    \<and> awf_spec k' = awf_spec k \<and> awf_meta k' = awf_meta k"
proof -
  obtain ref c2 where a: "on_kube (write_replay_log k res) c = (ref, c2)" by fastforce
  obtain now c3 where n: "on_world time_now c2 = (now, c3)" by fastforce
  define k' where "k' = completed_workflow res (case ref of Inr r \<Rightarrow> r | Inl _ \<Rightarrow> '''') msg reason now k"
  obtain u c4 where u: "on_kube (kube_put (UpdateWorkflowStatus k')) c3 = (u, c4)" by fastforce
  obtain p c5 where p: "publish_completion m k' res c4 = (p, c5)" by fastforce
  have "tells c [] c2" by (rule tells_silent [OF write_replay_log_silent [OF on_kube_parts(1) [OF a]]])
  then have t3: "tells c [] c3" "cu_store c3 = cu_store c"
    using tells_trans [of c "[]" c2 "[]" c3] on_world_parts [OF n] tells_same [of c3 c2] on_kube_parts(2) [OF a] by simp_all
  have t4: "tells c [k'] c4" "cu_store c4 = cu_store c"
    using tells_trans [OF t3(1) tells_put [OF on_kube_parts(1) [OF u]]] on_kube_parts(2) [OF u] t3 by simp_all
  have "c1 = c4 \<or> c1 = c5" using assms(2) a n u p
    by (auto simp: complete_workflow_def Let_def k'_def [symmetric] split: option.splits sum.splits)
  then have "tells c [k'] c1 \<and> cu_store c1 = cu_store c"
    using t4 publish_completion_tells [OF assms(1) p] tells_trans [OF t4(1), of "[]" c5] by auto
  moreover have "wf_phase k' = ''Completed''" "reports res k'" "awf_spec k' = awf_spec k" "awf_meta k' = awf_meta k"
    by (simp_all add: k'_def completed_workflow_def set_phase_def reports_def)
  ultimately show ?thesis by blast
qed

lemma open_store_tells: "open_store f g c = (r, c1) \<Longrightarrow> tells c [] c1 \<and> cu_store c1 = cu_store c"
  by (auto simp: open_store_def Let_def split: sum.splits option.splits intro!: tells_silent)

text \<open>What a workflow resolves to, and its store, do not depend on its status.\<close>

lemma resolve_cong:
  assumes "awf_spec k' = awf_spec k" "awf_meta k' = awf_meta k"
  shows "resolve_engine_workflow k' = resolve_engine_workflow k" "open_for_workflow cl k' dir = open_for_workflow cl k dir"
  unfolding resolve_engine_workflow_def resolve_snapshot_def resolve_dominos_def engine_workflow_def
    inline_snapshot_name_def open_for_workflow_def config_from_workflow_def assms by (rule refl)+

lemma run_resolved_ends:
  assumes "bus_frame m" "run_resolved m wait oe msg reason k c = (out, c1)"
  shows "\<exists>ks. ends m c ks c1"
proof -
  obtain o1 c2 where o: "open_store (\<lambda>cl. open_for_workflow cl k (mg_store_root m)) (wrapf ''open store'') c = (o1, c2)" by fastforce
  obtain r c3 where r: "on_both (resolve_engine_workflow k) c2 = (r, c3)" by fastforce
  note t2 = open_store_tells [OF o]
  have t3: "tells c [] c3" "cu_store c3 = cu_store c"
    using tells_trans [of c "[]" c2 "[]" c3] t2 on_both_parts [OF r]
      tells_silent [OF runs_silent [OF resolve_engine_workflow_silent [OF on_both_parts(1) [OF r]]]] by simp_all
  show ?thesis
  proof (cases o1)
    case (Inl e)
    then have "fail_workflow k (oe e) c2 = (out, c1)" using assms(2) o by (simp add: run_resolved_def)
    then show ?thesis using fail_workflow_ends ends_before t2 by blast
  next
    case op: (Inr op)
    show ?thesis
    proof (cases r)
      case (Inl e)
      then have "fail_workflow k e c3 = (out, c1) \<or> on_kube (wait_for_snapshot k e) c3 = (out, c1)"
        using assms(2) o op r by (auto simp: run_resolved_def split: if_splits)
      then show ?thesis using fail_workflow_ends wait_for_snapshot_ends ends_before t3 by blast
    next
      case wk: (Inr wk)
      obtain res c4 where q: "run_workflow m op wk c3 = (res, c4)" by fastforce
      obtain s w where s: "run (engine_for m op) wk (cu_store c op) (cu_world c3) = (res, s, w)" "cu_store c4 = (cu_store c)(op := s)"
        "cu_kube c4 = cu_kube c3"
        using q t3(2) by (auto simp: run_workflow_def on_store_def split: prod.splits)
      have t4: "tells c [] c4" using tells_trans [OF t3(1) tells_same [OF s(3)]] by simp
      have or4: "one_run m c c4" unfolding one_run_def using s by blast
      show ?thesis
      proof (cases res)
        case (Inl e)
        then have "fail_workflow k e c4 = (out, c1)" using assms(2) o op r wk q by (simp add: run_resolved_def)
        from fail_workflow_tells [OF this] tells_trans [OF t4] or4 show ?thesis by (fastforce simp: ends_def one_run_def)
      next
        case (Inr result)
        then have "complete_workflow m k result (msg result) reason c4 = (out, c1)"
          using assms(2) o op r wk q by (simp add: run_resolved_def)
        from complete_workflow_tells [OF assms(1) this] obtain k' where
          k': "tells c4 [k'] c1" "cu_store c1 = cu_store c4" "wf_phase k' = ''Completed''" "reports result k'"
          and kk: "awf_spec k' = awf_spec k" "awf_meta k' = awf_meta k" by blast
        have "runs (\<lambda>_. True) (cu_kube c) (cu_kube c2)" "resolve_engine_workflow k' (cu_kube c2) (cu_world c2) = (Inr wk, cu_kube c3, cu_world c3)"
          "open_for_workflow (Some (context_client (cu_kube c))) k' (mg_store_root m) = Inr op"
          using t2 on_both_parts(1) [OF r] wk open_store_Inr o op resolve_cong [OF kk] by (simp_all add: adds_def)
        then have "ran m c k' result c1" unfolding ran_def using s(1,2) Inr k'(2) runs_refl by metis
        then have "justified m c k' c1" "one_run m c c1" using k'(4) ran_one_run by (auto simp: justified_def)
        then have "ends m c [k'] c1" using k'(3) tells_trans [OF t4 k'(1)] by (simp add: ends_def)
        then show ?thesis by blast
      qed
    qed
  qed
qed

section \<open>One reconcile\<close>

lemma apply_to_workflow_fills: "apply_to_workflow k kb = (Inr k', kb1) \<Longrightarrow> fills_in k k'"
  by (auto simp: apply_to_workflow_def Let_def split: prod.splits sum.splits if_splits
      intro: check_julia_fills(1) fills_in_trans [OF apply_universe_fills check_julia_fills(1)])

lemma fills_in_status: "fills_in k k' \<Longrightarrow> awf_status k' = awf_status k"
  unfolding fills_in_alt by (auto simp: set_runtime_def set_runner_image_def)

lemma apply_to_workflow_tells:
  assumes "on_kube (apply_to_workflow k) c = (r, c1)"
  shows "tells c [] c1" "cu_store c1 = cu_store c" "r = Inr k' \<Longrightarrow> awf_status k' = awf_status k \<and> awf_meta k' = awf_meta k"
  using tells_silent [OF runs_silent [OF apply_to_workflow_silent [OF on_kube_parts(1) [OF assms]]]] on_kube_parts [OF assms]
    apply_to_workflow_fills fills_in_status fills_in_keeps(4) by auto

lemma from_workflow_silent: "from_workflow k p kb w = (r, kb1, w1) \<Longrightarrow> runs no_writes kb kb1"
  by (auto simp: from_workflow_def split: prod.splits sum.splits dest: resolve_engine_workflow_silent)

lemma any_ref_has_image_silent: "any_ref_has_image ns names kb = (r, kb1) \<Longrightarrow> runs no_writes kb kb1"
proof (induction ns names kb arbitrary: r rule: any_ref_has_image.induct)
  case (2 ns name names kb)
  then show ?case by (auto split: prod.splits sum.splits if_splits dest: runs_get intro: runs_trans)
qed simp

lemma needs_container_runtime_silent: "needs_container_runtime k kb = (r, kb1) \<Longrightarrow> runs no_writes kb kb1"
  by (auto simp: needs_container_runtime_def Let_def split: if_splits dest: any_ref_has_image_silent)

lemma create_chain_ends:
  assumes "create_chain k0 p c = (out, c1)" "wf_phase k0 = ''Running''"
  shows "\<exists>ks. ends m c ks c1"
proof -
  obtain r c2 where r: "on_kube (apply_to_workflow k0) c = (r, c2)" by fastforce
  note t2 = apply_to_workflow_tells(1,2) [OF r]
  show ?thesis
  proof (cases r)
    case (Inl e)
    then have "fail_workflow k0 e c2 = (out, c1)" using assms(1) r by (simp add: create_chain_def)
    then show ?thesis using fail_workflow_ends ends_before [OF t2] by blast
  next
    case k: (Inr k)
    have ph: "wf_phase k = ''Running''" using apply_to_workflow_tells(3) [OF r k] assms(2) by simp
    obtain q c3 where q: "on_both (from_workflow k p) c2 = (q, c3)" by fastforce
    have t3: "tells c [] c3" "cu_store c3 = cu_store c"
      using tells_trans [OF t2(1) tells_silent [OF runs_silent [OF from_workflow_silent [OF on_both_parts(1) [OF q]]]]]
        on_both_parts(2) [OF q] t2(2) by simp_all
    show ?thesis
    proof (cases q)
      case (Inl e)
      then have "fail_workflow k e c3 = (out, c1) \<or> on_kube (wait_for_snapshot k e) c3 = (out, c1)"
        using assms(1) r k q by (auto simp: create_chain_def split: if_splits)
      then show ?thesis using fail_workflow_ends wait_for_snapshot_ends ends_before [OF t3] by blast
    next
      case ch: (Inr ch)
      obtain u c4 where u: "on_kube (kube_put (CreateChain (chain_object k ch))) c3 = (u, c4)" by fastforce
      have t4: "tells c [] c4" "cu_store c4 = cu_store c"
        using tells_trans [OF t3(1) tells_silent [OF runs_put [OF on_kube_parts(1) [OF u]]]] on_kube_parts(2) [OF u] t3(2) by simp_all
      show ?thesis
      proof (cases u)
        case None
        then have "on_kube (put_then (UpdateWorkflowStatus (set_wf_status (\<lambda>s. s
            \<lparr>awt_message := ''created domino chain '' @ km_name (awf_meta k) @ ''-dchain''\<rparr>) k))
            (requeue_after 3000000000, None)) c4 = (out, c1)" using assms(1) r k q ch u by (simp add: create_chain_def)
        from running_status_ends [OF this] ph ends_before [OF t4] show ?thesis by fastforce
      next
        case (Some e)
        then have "fail_workflow k (wrapf ''create domino chain'' e) c4 = (out, c1)" using assms(1) r k q ch u by (simp add: create_chain_def)
        from fail_workflow_ends [OF this] ends_before [OF t4] show ?thesis by blast
      qed
    qed
  qed
qed

lemma skip_julia_replay_Some:
  "skip_julia_replay m (Some ch) (Some k) \<longleftrightarrow> (steps_have_julia ch \<or> workflow_has_julia_dominos k) \<and> \<not> mg_julia m"
  by (simp add: skip_julia_replay_def Let_def)

lemma complete_from_chain_ends:
  assumes "bus_frame m" "complete_from_chain m k ch c = (out, c1)" "dct_phase (dch_status ch) = ''Completed''"
    and "kb_chain (cu_kube c) t (km_namespace (awf_meta k), km_name (awf_meta k) @ ''-dchain'') = Inr ch"
  shows "\<exists>ks. ends m c ks c1"
proof (cases "skip_julia_replay m (Some ch) (Some k)")
  case False
  then show ?thesis using run_resolved_ends [OF assms(1)] assms(2) by (simp add: complete_from_chain_def)
next
  case skip: True
  obtain now c2 where n: "on_world time_now c = (now, c2)" by fastforce
  obtain k' o1 where k': "on_kube (put_then (UpdateWorkflowStatus k') o1) c2 = (out, c1)" "wf_phase k' = ''Completed''"
    "awf_meta k' = awf_meta k" "awf_spec k' = awf_spec k" "awt_snapshot_id (awf_status k') = dct_snapshot_id (dch_status ch)"
    "awt_domino_results (awf_status k') = step_domino_results ch"
    using assms(2) skip n by (auto simp: complete_from_chain_def complete_from_chain_status_def Let_def set_phase_def)
  have "workflow_has_julia_dominos k' = workflow_has_julia_dominos k" using k'(4) by (simp add: workflow_has_julia_dominos_def)
  then have "skip_julia_replay m (Some ch) (Some k')" using skip by (simp add: skip_julia_replay_Some)
  then have "chain_reported m (cu_kube c) k'" using assms(3,4) k' unfolding chain_reported_def by auto
  moreover have "tells c [k'] c1" "cu_store c1 = cu_store c"
    using tells_put_then [OF k'(1)] tells_trans [OF tells_same [of c2 c], of "[k']" c1] on_world_parts [OF n] by simp_all
  ultimately have "ends m c [k'] c1" using k'(2) by (auto simp: ends_def justified_def one_run_same)
  then show ?thesis by blast
qed

lemma execute_container_ends:
  assumes "bus_frame m" "execute_container m k p c = (out, c1)" "wf_phase k = ''Running''"
  shows "\<exists>ks. ends m c ks c1"
proof -
  let ?key = "(km_namespace (awf_meta k), km_name (awf_meta k) @ ''-dchain'')"
  obtain g c2 where g: "on_kube (kube_get kb_chain ?key) c = (g, c2)" by fastforce
  have t2: "tells c [] c2" "cu_store c2 = cu_store c"
    using tells_silent [OF runs_get [OF on_kube_parts(1) [OF g]]] on_kube_parts(2) [OF g] by simp_all
  note en = ends_before [OF t2]
  show ?thesis
  proof (cases g)
    case (Inl e)
    show ?thesis
    proof (cases "api_is_not_found e")
      case True
      then have "create_chain k p c2 = (out, c1)" using assms(2) g Inl by (simp add: execute_container_def Let_def)
      from create_chain_ends [OF this assms(3)] en show ?thesis by blast
    next
      case False
      then have "c1 = c2" using assms(2) g Inl by (simp add: execute_container_def Let_def)
      then show ?thesis using t2 by (auto simp: ends_def one_run_same)
    qed
  next
    case ch: (Inr ch)
    have get: "kb_chain (cu_kube c2) (kb_tick (cu_kube c)) ?key = Inr ch"
      using kube_get_value [OF on_kube_parts(1) [OF g]] ch runs_server(4) [OF runs_get [OF on_kube_parts(1) [OF g]]] by simp
    consider "complete_from_chain m k ch c2 = (out, c1)" "dct_phase (dch_status ch) = ''Completed''"
      | e where "fail_workflow k e c2 = (out, c1)"
      | k' o1 where "on_kube (put_then (UpdateWorkflowStatus k') o1) c2 = (out, c1)" "wf_phase k' = ''Running''"
      using assms(2,3) g ch by (fastforce simp: execute_container_def Let_def split: if_splits)
    then show ?thesis
      by cases (use complete_from_chain_ends [OF assms(1) _ _ get] fail_workflow_ends running_status_ends en in blast)+
  qed
qed

lemma execute_workflow_ends:
  assumes "bus_frame m" "execute_workflow m k0 c = (out, c1)"
  shows "\<exists>c2. tells c [running_workflow k0] c2 \<and> cu_store c2 = cu_store c \<and> (\<exists>ks. ends m c2 ks c1)"
proof -
  let ?k = "running_workflow k0"
  have ph: "wf_phase ?k = ''Running''" by (simp add: running_workflow_def set_phase_def)
  obtain u c2 where u: "on_kube (kube_put (UpdateWorkflowStatus ?k)) c = (u, c2)" by fastforce
  have t2: "tells c [?k] c2" "cu_store c2 = cu_store c"
    using tells_put [OF on_kube_parts(1) [OF u]] on_kube_parts(2) [OF u] by simp_all
  obtain r c3 where r: "on_kube (apply_to_workflow ?k) c2 = (r, c3)" by fastforce
  note t3 = apply_to_workflow_tells [OF r]
  have "\<exists>ks. ends m c2 ks c1"
  proof (cases u)
    case (Some e)
    then have "c1 = c2" using assms(2) u by (simp add: execute_workflow_def Let_def)
    then show ?thesis using tells_same [of c2 c2] by (auto simp: ends_def one_run_same)
  next
    case None
    show ?thesis
    proof (cases r)
      case (Inl e)
      then have "fail_workflow ?k e c3 = (out, c1)" using assms(2) u None r by (simp add: execute_workflow_def Let_def)
      from fail_workflow_ends [OF this] ends_before [OF t3(1,2)] show ?thesis by blast
    next
      case (Inr k)
      have pk: "wf_phase k = ''Running''" using t3(3) [OF Inr] ph by simp
      obtain b c4 where b: "on_kube (needs_container_runtime k) c3 = (b, c4)" by fastforce
      have t4: "tells c2 [] c4" "cu_store c4 = cu_store c2"
        using tells_trans [OF t3(1) tells_silent [OF runs_silent [OF needs_container_runtime_silent [OF on_kube_parts(1) [OF b]]]]]
          on_kube_parts(2) [OF b] t3(2) by simp_all
      have "execute_container m k (chain_store_path m k) c4 = (out, c1)
        \<or> run_resolved m True (wrapf ''open store'') local_message ''ChainCompleted'' k c4 = (out, c1)"
        using assms(2) u None r Inr b by (auto simp: execute_workflow_def Let_def split: bool.splits)
      then show ?thesis using execute_container_ends [OF assms(1) _ pk] run_resolved_ends [OF assms(1)] ends_before [OF t4] by blast
    qed
  qed
  with t2 show ?thesis by blast
qed

lemma reconcile_workflow_cases:
  assumes "reconcile_workflow m key c = (out, c')"
  obtains "tells c [] c'" "cu_store c' = cu_store c"
    | k c2 where "tells c [] c2" "cu_store c2 = cu_store c" "execute_workflow m k c2 = (out, c')"
proof -
  obtain g c2 where g: "on_kube (kube_get kb_workflow key) c = (g, c2)" by fastforce
  have t2: "tells c [] c2" "cu_store c2 = cu_store c"
    using tells_silent [OF runs_get [OF on_kube_parts(1) [OF g]]] on_kube_parts(2) [OF g] by simp_all
  have "c' = c2 \<or> (\<exists>w o1. no_status w \<and> on_kube (put_then w o1) c2 = (out, c')) \<or> (\<exists>k. execute_workflow m k c2 = (out, c'))"
  proof (cases g)
    case (Inl e) then show ?thesis using assms g by (auto simp: reconcile_workflow_def)
  next
    case (Inr k)
    then have "reconcile_found_workflow m k c2 = (out, c')" using assms g by (simp add: reconcile_workflow_def)
    then consider "on_kube (finalize_workflow k) c2 = (out, c')" | "c' = c2" | "execute_workflow m k c2 = (out, c')"
      | k' where "on_kube (put_then (UpdateWorkflow k') (requeue_now, None)) c2 = (out, c')"
      by (auto simp: reconcile_found_workflow_def split: if_splits)
    then show ?thesis
    proof cases
      case 1
      then have "c' = c2 \<or> (\<exists>k' o1. on_kube (put_then (UpdateWorkflow k') o1) c2 = (out, c'))"
        by (cases "contains_finalizer workflow_finalizer_name (awf_meta k)") (auto simp: finalize_workflow_def on_kube_def)
      moreover have "no_status (UpdateWorkflow k')" for k' by simp
      ultimately show ?thesis by blast
    next
      case (4 k')
      moreover have "no_status (UpdateWorkflow k')" by simp
      ultimately show ?thesis by blast
    qed blast+
  qed
  then consider "c' = c2" | w o1 where "no_status w" "on_kube (put_then w o1) c2 = (out, c')"
    | k where "execute_workflow m k c2 = (out, c')" by blast
  then show thesis
  proof cases
    case 2
    have "runs no_status (cu_kube c2) (cu_kube c')" using on_kube_parts(1) [OF 2(2)] 2(1) by (rule runs_put_then)
    from tells_trans [OF t2(1) tells_silent [OF this]] on_kube_parts(2) [OF 2(2)] t2
    show thesis by (intro that(1)) simp_all
  qed (use t2 that in blast)+
qed




lemma reconcile_completed_justified:
  assumes "bus_frame m" "reconcile_workflow m key c = (out, c')" "wf_phase k = ''Completed''"
    and "k \<in> set (drop (length (statuses c)) (statuses c'))"
  shows "justified m c k c'"
  using assms(2)
proof (cases rule: reconcile_workflow_cases)
  case 1 then show ?thesis using assms(4) by (simp add: adds_def)
next
  case (2 k0 c2)
  obtain c3 ks where e: "tells c2 [running_workflow k0] c3" "cu_store c3 = cu_store c2" "ends m c3 ks c'"
    using execute_workflow_ends [OF assms(1) 2(3)] by blast
  have t: "tells c [running_workflow k0] c3" "cu_store c3 = cu_store c" using tells_trans [OF 2(1) e(1)] e(2) 2(2) by simp_all
  have "wf_phase (running_workflow k0) = ''Running''" by (simp add: running_workflow_def set_phase_def)
  then have "k \<in> set ks" using assms(3,4) t(1) e(3) by (auto simp: adds_def ends_def)
  then have "justified m c3 k c'" using e(3) assms(3) by (auto simp: ends_def)
  then show ?thesis by (rule justified_before(1) [OF t])
qed

lemma reconcile_one_run:
  assumes "bus_frame m" "reconcile_workflow m key c = (out, c')" shows "one_run m c c'"
  using assms(2)
proof (cases rule: reconcile_workflow_cases)
  case (2 k c2)
  obtain c3 ks where e: "tells c2 [running_workflow k] c3" "cu_store c3 = cu_store c2" "ends m c3 ks c'"
    using execute_workflow_ends [OF assms(1) 2(3)] by blast
  have "tells c [running_workflow k] c3" "cu_store c3 = cu_store c" using tells_trans [OF 2(1) e(1)] e(2) 2(2) by simp_all
  from justified_before(2) [OF this] e(3) show ?thesis by (simp add: ends_def)
qed (simp add: one_run_same)



section \<open>A run on concrete inputs\<close>

text \<open>A workflow with one step over an inline snapshot, in the multiverse \<open>mv\<close> when that is not empty.\<close>

definition identity_object :: "string \<Rightarrow> api_workflow" where
  "identity_object mv = (let k = inline_workflow [plain_dom_spec ''a'' ''builtin:identity''] [''a'']
     in k\<lparr>awf_meta := (awf_meta k)\<lparr>km_finalizers := [workflow_finalizer_name]\<rparr>,
          awf_spec := (awf_spec k)\<lparr>aws_provisioning := no_provisioning\<lparr>ap_store_path := ''/s.db''\<rparr>,
            aws_routing := no_routing\<lparr>ar_multiverse_ref := mv\<rparr>\<rparr>,
          awf_status := empty_wf_status\<lparr>awt_observed_generation := 1\<rparr>\<rparr>)"

definition plain_multiverse :: "sync_spec option \<Rightarrow> api_multiverse" where
  "plain_multiverse sy = \<lparr>amv_meta = new_meta ''mv'' ''ns'' [],
     amv_spec = \<lparr>ms_default = '''', ms_universes = [], ms_slice_routes = [], ms_sync = sy\<rparr>,
     amv_status = \<lparr>mst_phase = '''', mst_universe_count = 0, mst_kafka = False, mst_routed = [], mst_message = '''', mst_conditions = []\<rparr>\<rparr>"

definition plain_cluster :: "api_workflow \<Rightarrow> sync_spec option \<Rightarrow> (sqlite, unit) cluster" where
  "plain_cluster k sy =
     idle_cluster (empty_kube\<lparr>kb_workflow := \<lambda>_ _. Inr k, kb_multiverse := \<lambda>_ _. Inr (plain_multiverse sy)\<rparr>)"

lemma identity_object_spec:
  assumes "awf_spec k = awf_spec (identity_object mv)"
  shows "aws_snapshot_ref (awf_spec k) = ''''" "aws_domino_refs (awf_spec k) = []"
    "aws_dominos (awf_spec k) = [plain_dom_spec ''a'' ''builtin:identity'']" "ae_chain (aws_execution (awf_spec k)) = [''a'']"
    "ass_sealed (aws_snapshot (awf_spec k))" "ar_multiverse_ref (aws_routing (awf_spec k)) = mv" "wf_runtime k = ''''"
    "ar_universe (aws_routing (awf_spec k)) = ''''" "ar_context_ref (aws_routing (awf_spec k)) = ''''"
    "ap_store_path (aws_provisioning (awf_spec k)) = ''/s.db''"
    "engine_snap_spec (aws_snapshot (awf_spec k)) = \<lparr>ss_time_slice = ''t'',
      ss_source = \<lparr>src_inline = Some [], src_path = '''', src_uri = ''''\<rparr>, ss_context_ref = '''', ss_sealed = True\<rparr>"
  by (simp_all add: assms identity_object_def inline_workflow_def plain_workflow_def Let_def engine_snap_spec_def
        to_snapshot_source_def empty_snap_spec_def empty_source_def no_provisioning_def no_routing_def)

lemma identity_object_ready:
  assumes "awf_spec k = awf_spec (identity_object mv)"
  shows "apply_to_workflow k kb = (Inr k, kb)" "needs_container_runtime k kb = (False, kb)"
    "open_for_workflow cl k '''' = Inr (OpenSQLite ''/s.db'')"
    "\<exists>wk. resolve_engine_workflow k kb w = (Inr wk, kb, w) \<and> identity_workflow wk"
proof -
  note sp = identity_object_spec [OF assms]
  show "apply_to_workflow k kb = (Inr k, kb)"
    by (simp add: apply_to_workflow_def workflow_has_julia_def check_julia_image_def sp plain_dom_spec_def has_prefix_def
        trim_space_def Let_def)
  show "needs_container_runtime k kb = (False, kb)" by (simp add: needs_container_runtime_def sp plain_dom_spec_def Let_def)
  show "open_for_workflow cl k '''' = Inr (OpenSQLite ''/s.db'')"
    by (cases cl) (simp_all add: open_for_workflow_def sp config_from_workflow_def open_resolved_def context_override_def
        open_backend_def wrap_open_def is_tsdb_path_def is_postgres_dsn_def has_prefix_def Let_def)
  obtain i where i: "snapshot_id ''t'' (GMap []) = Inr i" using demo_snapshot_id by blast
  have c: "compute_id (engine_snap_spec (aws_snapshot (awf_spec k))) w = (Inr i, w)"
    using i demo_marshal by (simp add: sp compute_id_def seal_payload_def validate_def seal_content_def resolve_content_def Let_def)
  show "\<exists>wk. resolve_engine_workflow k kb w = (Inr wk, kb, w) \<and> identity_workflow wk"
    using sp i c by (simp add: resolve_engine_workflow_def resolve_snapshot_def resolve_dominos_def Let_def validate_def
        identity_workflow_def engine_workflow_def inline_dominos_def inline_domino_def plain_dom_spec_def named_def to_domino_inputs_def)
qed

lemma complete_accepted:
  assumes "kb_write (cu_kube c) = (\<lambda>_. None)"
  shows "\<exists>k' c3. complete_workflow m k result msg reason c = (case publish_completion m k' result c3 of
      (Inl p, c4) \<Rightarrow> (panic_outcome p, c4) | (Inr _, c4) \<Rightarrow> ((no_requeue, None), c4))
    \<and> tells c [k'] c3 \<and> cu_store c3 = cu_store c \<and> wf_phase k' = ''Completed'' \<and> awf_spec k' = awf_spec k \<and> awf_meta k' = awf_meta k"
proof -
  obtain ref c1 where r: "on_kube (write_replay_log k result) c = (ref, c1)" by fastforce
  obtain now c2 where n: "on_world time_now c1 = (now, c2)" by fastforce
  define k' where "k' = completed_workflow result (case ref of Inr r \<Rightarrow> r | Inl _ \<Rightarrow> '''') msg reason now k"
  obtain u c3 where u: "on_kube (kube_put (UpdateWorkflowStatus k')) c2 = (u, c3)" by fastforce
  have t: "tells c [] c2" "cu_store c2 = cu_store c"
    using tells_trans [OF tells_silent [OF write_replay_log_silent [OF on_kube_parts(1) [OF r]]] tells_same [of c2 c1]]
      on_kube_parts [OF r] on_world_parts [OF n] by simp_all
  have "kb_write (cu_kube c2) = kb_write (cu_kube c)" using t(1) by (auto simp: adds_def dest: runs_server(8))
  then have "u = None" using assms on_kube_parts(1) [OF u] by (simp add: kube_put_def)
  moreover have "tells c [k'] c3" using tells_trans [OF t(1) tells_put [OF on_kube_parts(1) [OF u]]] by simp
  moreover have "wf_phase k' = ''Completed''" "awf_spec k' = awf_spec k" "awf_meta k' = awf_meta k"
    by (simp_all add: k'_def completed_workflow_def set_phase_def)
  ultimately show ?thesis using r n u t(2) on_kube_parts(2) [OF u]
    by (intro exI [of _ k'] exI [of _ c3]) (simp add: complete_workflow_def k'_def Let_def)
qed

text \<open>
  C40 A multiverse without a sync block stops the reconcile of its workflows with a panic, after
  the status Completed was written: the run is recorded and announced as complete, and
  nothing is published to the change data log.
\<close>

theorem multiverse_without_sync_panics:
  assumes "bus_frame m" "kb_write (cu_kube c) = (\<lambda>_. None)" "ar_multiverse_ref (aws_routing (awf_spec k)) \<noteq> ''''"
    and "kb_multiverse (cu_kube c) = (\<lambda>_ _. Inr mv)" "ms_sync (amv_spec mv) = None"
    and "complete_workflow m k result msg reason c = (out, c')"
  shows "(\<exists>e. out = (no_requeue, Some e) \<and> err_kind e = KPanic)
    \<and> (\<exists>k'. statuses c' = statuses c @ [k'] \<and> wf_phase k' = ''Completed'')"
proof -
  obtain k' c3 where q: "complete_workflow m k result msg reason c = (case publish_completion m k' result c3 of
      (Inl p, c4) \<Rightarrow> (panic_outcome p, c4) | (Inr _, c4) \<Rightarrow> ((no_requeue, None), c4))"
    and t: "tells c [k'] c3" "wf_phase k' = ''Completed''" "awf_spec k' = awf_spec k"
    using complete_accepted [OF assms(2)] by blast
  obtain now c4 where n: "on_world time_now c3 = (now, c4)" by fastforce
  have "kb_multiverse (cu_kube c4) = (\<lambda>_ _. Inr mv)"
    using t(1) assms(4) on_world_parts(1) [OF n] by (auto simp: adds_def runs_def)
  then obtain c5 where g: "on_kube (kube_get kb_multiverse key) c4 = (Inr mv, c5)" for key
    by (auto simp: on_kube_def kube_get_def)
  obtain r c6 where p: "publish_completion m k' result c3 = (r, c6)" by fastforce
  have "r = Inl (panic ''invalid memory address or nil pointer dereference'')"
    using p n g assms(3,5) t(3) by (auto simp: publish_completion_def publish_workflow_cdc_def Let_def)
  then have "out = panic_outcome (panic ''invalid memory address or nil pointer dereference'')" "c' = c6"
    using assms(6) q p by simp_all
  moreover have "tells c [k'] c6" using publish_completion_tells [OF assms(1) p] tells_trans [OF t(1), of "[]" c6] by simp
  ultimately show ?thesis using t(2) by (auto simp: panic_outcome_def panic_def adds_def)
qed


lemma plain_manager_quiet [simp]: "bus_frame plain_manager" "sqlite_stores plain_manager (plain_cluster k sy)"
    "statuses (plain_cluster k sy) = []" "mg_julia plain_manager"
  by (simp_all add: bus_frame_def plain_manager_def sqlite_stores_def plain_cluster_def idle_cluster_def said_def empty_kube_def map_filter_def)

lemma plain_reconcile:
  "\<exists>k result c1. reconcile_workflow plain_manager key (plain_cluster (identity_object mv) sy)
      = complete_workflow plain_manager k result (local_message result) ''ChainCompleted'' c1
    \<and> awf_spec k = awf_spec (identity_object mv) \<and> kb_write (cu_kube c1) = (\<lambda>_. None)
    \<and> kb_multiverse (cu_kube c1) = (\<lambda>_ _. Inr (plain_multiverse sy))
    \<and> statuses c1 = [running_workflow (identity_object mv)]"
proof -
  let ?k = "running_workflow (identity_object mv)" and ?c = "plain_cluster (identity_object mv) sy"
  define c1 where "c1 = ?c\<lparr>cu_kube := (cu_kube ?c)\<lparr>kb_tick := Suc 1, kb_log := [UpdateWorkflowStatus ?k]\<rparr>\<rparr>"
  have found: "\<not> km_deleting (awf_meta (identity_object mv))" "contains_finalizer workflow_finalizer_name (awf_meta (identity_object mv))"
    "awt_phase (awf_status (identity_object mv)) = ''''" "awf_spec ?k = awf_spec (identity_object mv)"
    by (simp_all add: identity_object_def inline_workflow_def plain_workflow_def Let_def new_meta_def contains_finalizer_def
        empty_wf_status_def running_workflow_def)
  note ready = identity_object_ready [OF found(4)]
  have get: "on_kube (kube_get kb_workflow key) ?c = (Inr (identity_object mv), ?c\<lparr>cu_kube := (cu_kube ?c)\<lparr>kb_tick := 1\<rparr>\<rparr>)"
    by (simp add: on_kube_def kube_get_def plain_cluster_def idle_cluster_def empty_kube_def)
  have put: "on_kube (kube_put (UpdateWorkflowStatus ?k)) (?c\<lparr>cu_kube := (cu_kube ?c)\<lparr>kb_tick := 1\<rparr>\<rparr>) = (None, c1)"
    by (simp add: on_kube_def kube_put_def plain_cluster_def idle_cluster_def empty_kube_def c1_def)
  have "on_kube (apply_to_workflow ?k) c1 = (Inr ?k, c1)" "on_kube (needs_container_runtime ?k) c1 = (False, c1)"
    by (simp_all add: on_kube_def ready)
  then have go: "reconcile_workflow plain_manager key ?c
      = run_resolved plain_manager True (wrapf ''open store'') local_message ''ChainCompleted'' ?k c1"
    using get put found by (simp add: reconcile_workflow_def reconcile_found_workflow_def execute_workflow_def Let_def)
  define c2 where "c2 = c1\<lparr>cu_kube := (cu_kube c1)\<lparr>kb_tick := Suc (Suc 1)\<rparr>, cu_opened := 1\<rparr>"
  have op: "open_store (\<lambda>cl. open_for_workflow cl ?k (mg_store_root plain_manager)) (wrapf ''open store'') c1
      = (Inr (OpenSQLite ''/s.db''), c2)"
    using ready(3) by (simp add: open_store_def Let_def c2_def c1_def plain_cluster_def idle_cluster_def plain_manager_def)
  obtain wk where wk: "on_both (resolve_engine_workflow ?k) c2 = (Inr wk, c2)" "identity_workflow wk"
    using ready(4) [of "cu_kube c2" "cu_world c2"] by (auto simp: on_both_def)
  obtain result s' w' where "run (sql_engine demo_cfg) wk sq_empty no_world = (Inr result, s', w')" using identity_run [OF wk(2)] by blast
  then have "run_workflow plain_manager (OpenSQLite ''/s.db'') wk c2
      = (Inr result, c2\<lparr>cu_store := (cu_store c2)(OpenSQLite ''/s.db'' := s'), cu_world := w'\<rparr>)"
    by (simp add: run_workflow_def on_store_def engine_for_def c2_def c1_def plain_cluster_def idle_cluster_def plain_manager_def)
  then have "reconcile_workflow plain_manager key ?c = complete_workflow plain_manager ?k result (local_message result) ''ChainCompleted''
      (c2\<lparr>cu_store := (cu_store c2)(OpenSQLite ''/s.db'' := s'), cu_world := w'\<rparr>)"
    using op wk(1) by (simp add: go run_resolved_def)
  moreover have "kb_write (cu_kube c2) = (\<lambda>_. None)" "kb_multiverse (cu_kube c2) = (\<lambda>_ _. Inr (plain_multiverse sy))"
    "kb_log (cu_kube c2) = [UpdateWorkflowStatus ?k]"
    by (simp_all add: c2_def c1_def plain_cluster_def idle_cluster_def empty_kube_def)
  ultimately show ?thesis using found(4)
    by (intro exI [of _ ?k] exI [of _ result] exI [of _ "c2\<lparr>cu_store := (cu_store c2)(OpenSQLite ''/s.db'' := s'), cu_world := w'\<rparr>"])
      (simp add: said_def map_filter_def)
qed

text \<open>So it completes.\<close>

lemma plain_reconcile_completes:
  "\<exists>out c' k. reconcile_workflow plain_manager key (plain_cluster (identity_object '''') sy) = (out, c')
    \<and> statuses c' = [running_workflow (identity_object ''''), k] \<and> wf_phase k = ''Completed''"
proof -
  obtain k result c1 where q: "reconcile_workflow plain_manager key (plain_cluster (identity_object '''') sy)
      = complete_workflow plain_manager k result (local_message result) ''ChainCompleted'' c1"
    "kb_write (cu_kube c1) = (\<lambda>_. None)" "statuses c1 = [running_workflow (identity_object '''')]"
    using plain_reconcile by blast
  obtain k' c3 where d: "complete_workflow plain_manager k result (local_message result) ''ChainCompleted'' c1
      = (case publish_completion plain_manager k' result c3 of
      (Inl p, c4) \<Rightarrow> (panic_outcome p, c4) | (Inr _, c4) \<Rightarrow> ((no_requeue, None), c4))"
    "tells c1 [k'] c3" "wf_phase k' = ''Completed''"
    using complete_accepted [OF q(2)] by blast
  obtain r c4 where p: "publish_completion plain_manager k' result c3 = (r, c4)" by fastforce
  have "statuses c4 = statuses c1 @ [k']"
    using publish_completion_tells [OF plain_manager_quiet(1) p] d(2) by (simp add: adds_def)
  then show ?thesis using q d p by (cases r) auto
qed

lemma multiverse_without_sync_panics_witness:
  "\<exists>e c' k1 k2. reconcile_workflow plain_manager (''ns'', ''k'') (plain_cluster (identity_object ''mv'') None) = ((no_requeue, Some e), c')
    \<and> err_kind e = KPanic \<and> statuses c' = [k1, k2] \<and> wf_phase k2 = ''Completed''"
proof -
  obtain k result c1 where q: "reconcile_workflow plain_manager (''ns'', ''k'') (plain_cluster (identity_object ''mv'') None)
      = complete_workflow plain_manager k result (local_message result) ''ChainCompleted'' c1"
    "awf_spec k = awf_spec (identity_object ''mv'')"
    "kb_write (cu_kube c1) = (\<lambda>_. None)" "kb_multiverse (cu_kube c1) = (\<lambda>_ _. Inr (plain_multiverse None))"
    "statuses c1 = [running_workflow (identity_object ''mv'')]"
    using plain_reconcile by blast
  obtain out c' where d: "complete_workflow plain_manager k result (local_message result) ''ChainCompleted'' c1 = (out, c')" by fastforce
  from multiverse_without_sync_panics [OF plain_manager_quiet(1) q(3) _ q(4) _ d] identity_object_spec(6) [OF q(2)] q(1,5) d
  show ?thesis by (fastforce simp: plain_multiverse_def)
qed




end
