(* ===== verification/ChainCtl.thy ===== *)
theory ChainCtl
  imports Operator
begin

text \<open>
  The controller of domino chains (\<open>internal/controller/dominochain_controller.go\<close>): it keeps
  the objects of the chain's runtime (a pod, an OpenKruise pod with its image pull jobs, or a
  Volcano job), watches them, and when every step has run it replays the chain with the local
  engine to record it, unless the chain runs Julia and the operator has none.
\<close>

section \<open>Ending a reconcile\<close>

definition chain_finalizer_name :: string where
  "chain_finalizer_name = ''kbl.io/dominochain-finalizer''"

abbreviation set_chain_status :: "(api_chain_status \<Rightarrow> api_chain_status) \<Rightarrow> api_chain \<Rightarrow> api_chain" where
  "set_chain_status f ch \<equiv> ch\<lparr>dch_status := f (dch_status ch)\<rparr>"

text \<open>The error of the status update is dropped.\<close>

definition fail_chain :: "api_chain \<Rightarrow> err \<Rightarrow> kube \<Rightarrow> outcome \<times> kube" where
  "fail_chain ch e kb =
     ((no_requeue, Some e),
      snd (kube_put (UpdateChainStatus (set_chain_status (\<lambda>s. s\<lparr>dct_phase := ''Error'', dct_message := err_msg e\<rparr>) ch)) kb))"

definition finalize_chain :: "api_chain \<Rightarrow> kube \<Rightarrow> outcome \<times> kube" where
  "finalize_chain ch kb =
     (if contains_finalizer chain_finalizer_name (dch_meta ch)
      then put_then (UpdateChain (ch\<lparr>dch_meta := remove_finalizer chain_finalizer_name (dch_meta ch)\<rparr>)) (no_requeue, None) kb
      else ((no_requeue, None), kb))"

section \<open>The objects of a chain\<close>

definition meta_key :: "k8s_meta \<Rightarrow> object_key" where
  "meta_key m = (km_namespace m, km_name m)"

text \<open>Reading an object that is created when it does not exist.\<close>

definition ensure_config_map :: "api_chain \<Rightarrow> config_map \<Rightarrow> kube \<Rightarrow> err option \<times> kube" where
  "ensure_config_map owner cm0 kb =
     (let cm = cm0\<lparr>cm_meta := owned_by ''DominoChain'' (dch_meta owner) (cm_meta cm0)\<rparr>
      in case kube_get kb_config_map (meta_key (cm_meta cm)) kb of
           (Inl e, kb1) \<Rightarrow> if api_is_not_found e then kube_put (CreateConfigMap cm) kb1 else (Some e, kb1)
         | (Inr existing, kb1) \<Rightarrow> kube_put (UpdateConfigMap (existing\<lparr>cm_data := cm_data cm\<rparr>)) kb1)"

definition ensure_pod :: "api_chain \<Rightarrow> pod \<Rightarrow> kube \<Rightarrow> err option \<times> kube" where
  "ensure_pod owner p0 kb =
     (let p = p0\<lparr>pod_meta := owned_by ''DominoChain'' (dch_meta owner) (pod_meta p0)\<rparr>
      in case kube_get kb_pod (meta_key (pod_meta p)) kb of
           (Inl e, kb1) \<Rightarrow> if api_is_not_found e then kube_put (CreatePod p) kb1 else (Some e, kb1)
         | (Inr _, kb1) \<Rightarrow> (None, kb1))"

definition kube_get_untyped :: "string \<Rightarrow> object_key \<Rightarrow> kube \<Rightarrow> untyped res \<times> kube" where
  "kube_get_untyped kind = kube_get (\<lambda>kb t. kb_untyped kb t kind)"

definition ensure_untyped :: "string \<Rightarrow> string \<Rightarrow> api_chain \<Rightarrow> untyped \<Rightarrow> kube \<Rightarrow> err option \<times> kube" where
  "ensure_untyped missing create owner job0 kb =
     (let job = (if km_uid (dch_meta owner) \<noteq> '''' then job0\<lparr>un_meta := owned_by ''DominoChain'' (dch_meta owner) (un_meta job0)\<rparr>
                 else job0)
      in case kube_get_untyped (un_kind job) (meta_key (un_meta job)) kb of
           (Inl e, kb1) \<Rightarrow>
             if api_is_not_found e then
               (case kube_put (CreateUntyped job) kb1 of
                  (Some e, kb2) \<Rightarrow> (Some (if is_no_match e then wrapf missing e else wrapf create e), kb2)
                | (None, kb2) \<Rightarrow> (None, kb2))
             else (Some e, kb1)
         | (Inr _, kb1) \<Rightarrow> (None, kb1))"

definition ensure_image_pull_job :: "api_chain \<Rightarrow> untyped \<Rightarrow> kube \<Rightarrow> err option \<times> kube" where
  "ensure_image_pull_job = ensure_untyped ''openkruise ImagePullJob CRD not installed'' ''create ImagePullJob''"

definition ensure_volcano_job :: "api_chain \<Rightarrow> untyped \<Rightarrow> kube \<Rightarrow> err option \<times> kube" where
  "ensure_volcano_job = ensure_untyped ''volcano Job CRD not installed'' ''create volcano job''"

section \<open>How far the steps are\<close>

text \<open>The statuses of the first \<open>steps\<close> init containers, from index \<open>i\<close>; \<open>Inr False\<close>: still running.\<close>

fun init_statuses_done :: "nat \<Rightarrow> nat \<Rightarrow> container_status list \<Rightarrow> bool res" where
  "init_statuses_done i 0 sts = Inr True"
| "init_statuses_done i (Suc n) [] = Inr False"
| "init_statuses_done i (Suc n) (st # sts) =
     (case cns_terminated st of
        None \<Rightarrow> Inr False
      | Some code \<Rightarrow> if code \<noteq> 0 then Inl (errorf (''init container '' @ nat_str i @ '' exit code '' @ int_str code))
                     else init_statuses_done (Suc i) n sts)"

definition init_chain_complete :: "pod \<Rightarrow> nat \<Rightarrow> bool res" where
  "init_chain_complete p steps =
     (if pod_phase p = ''Succeeded'' then Inr True
      else if length (pod_init_statuses p) < steps then Inr False
      else (case init_statuses_done 0 steps (pod_init_statuses p) of
          Inl e \<Rightarrow> Inl e
        | Inr d \<Rightarrow> if \<not> d then Inr False else Inr (pod_phase p = ''Running'' \<or> pod_phase p = ''Succeeded'')))"

text \<open>All statuses with the container's name, the first that is not a success deciding.\<close>

fun slot_statuses_done :: "string \<Rightarrow> container_status list \<Rightarrow> bool \<Rightarrow> bool res" where
  "slot_statuses_done name [] found = Inr found"
| "slot_statuses_done name (cs # css) found =
     (if cns_name cs \<noteq> name then slot_statuses_done name css found
      else (case cns_terminated cs of
          None \<Rightarrow> Inr False
        | Some code \<Rightarrow>
            if code \<noteq> 0 then Inl (errorf (''openkruise container '' @ name @ '' exit code '' @ int_str code))
            else slot_statuses_done name css True))"

fun slots_done :: "api_chain \<Rightarrow> pod \<Rightarrow> nat list \<Rightarrow> bool res" where
  "slots_done ch p [] = Inr True"
| "slots_done ch p (i # is) =
     (case slot_statuses_done (step_container_name ch (int i)) (pod_statuses p) False of
        Inl e \<Rightarrow> Inl e
      | Inr d \<Rightarrow> if \<not> d then Inr False else slots_done ch p is)"

definition openkruise_slots_complete :: "pod \<Rightarrow> api_chain \<Rightarrow> bool res" where
  "openkruise_slots_complete p ch =
     (if pod_phase p = ''Succeeded'' then Inr True
      else if length (pod_statuses p) < length (dcs_steps (dch_spec ch)) then Inr False
      else slots_done ch p [0..<length (dcs_steps (dch_spec ch))])"

definition step_container_succeeded :: "pod \<Rightarrow> api_chain \<Rightarrow> int \<Rightarrow> bool" where
  "step_container_succeeded p ch step =
     list_ex (\<lambda>cs. cns_name cs = step_container_name ch step \<and> cns_terminated cs = Some 0) (pod_statuses p)"

section \<open>Completion\<close>

definition ready_condition :: "string \<Rightarrow> string \<Rightarrow> int \<Rightarrow> k8s_condition" where
  "ready_condition reason msg now = \<lparr>kc_type = ''Ready'', kc_status = ''True'', kc_observed_generation = 0,
     kc_last_transition = now, kc_reason = reason, kc_message = msg\<rparr>"

text \<open>The identity is that of the snapshot's JSON text, taken as a string.\<close>

definition runner_snapshot_id :: "api_chain \<Rightarrow> string \<Rightarrow> string" where
  "runner_snapshot_id ch snapJSON =
     (case snapshot_id (ass_time_slice (dcs_snapshot (dch_spec ch))) (GStr snapJSON) of
        Inr i \<Rightarrow> i
      | Inl _ \<Rightarrow> (case compute (GStr snapJSON) of Inr h \<Rightarrow> h | Inl _ \<Rightarrow> ''''))"

definition finish_chain_from_runner :: "api_chain \<Rightarrow> ('s, 'b) cluster \<Rightarrow> outcome \<times> ('s, 'b) cluster" where
  "finish_chain_from_runner ch c =
     (case on_world (snapshot_json (dcs_snapshot (dch_spec ch))) c of
        (Inl e, c1) \<Rightarrow> on_kube (fail_chain ch e) c1
      | (Inr snapJSON, c1) \<Rightarrow>
          let (now, c2) = on_world time_now c1; steps = dcs_steps (dch_spec ch);
              msg = ''completed '' @ nat_str (length steps) @ '' in-cluster julia steps (operator skipped replay)'';
              results = map (\<lambda>(i, s). \<lparr>dsr_name = dst_name s, dsr_index = int i, dsr_output_hash = '''',
                dsr_phase = ''Completed''\<rparr>) (enumerate 0 steps);
              ch1 = set_chain_status (\<lambda>s. s\<lparr>dct_phase := ''Completed'', dct_snapshot_id := runner_snapshot_id ch snapJSON,
                dct_message := msg, dct_step_results := results,
                dct_conditions := [ready_condition ''ChainCompletedInCluster'' msg now]\<rparr>) ch
          in on_kube (put_then (UpdateChainStatus ch1) (no_requeue, None)) c2)"

definition step_phase :: "bool \<Rightarrow> string" where
  "step_phase reused = (if reused then ''Cached'' else ''Completed'')"

definition append_step_result :: "api_step_result list \<Rightarrow> api_chain \<Rightarrow> nat \<Rightarrow> string \<Rightarrow> api_step_result list" where
  "append_step_result existing ch step phase =
     (if list_ex (\<lambda>r. dsr_index r = int step) existing then existing
      else existing @ [\<lparr>dsr_name = dst_name (dcs_steps (dch_spec ch) ! step), dsr_index = int step,
             dsr_output_hash = '''', dsr_phase = phase\<rparr>])"

text \<open>The steps as a workflow: every step reads the output of the one before it.\<close>

definition step_domino :: "api_chain \<Rightarrow> nat \<Rightarrow> api_step \<Rightarrow> domino" where
  "step_domino ch i s =
     (let prev = dst_name (dcs_steps (dch_spec ch) ! (i - 1))
      in zero_domino\<lparr>d_meta := named (dst_name s),
           d_spec := zero_dom_spec\<lparr>ds_snapshot_ref := km_name (dch_meta ch) @ ''-snapshot'', ds_command := dst_command s,
             ds_depends_on := (if 0 < i then [prev] else []),
             ds_inputs := (if 0 < i then [\<lparr>di_from_domino = prev, di_from_snapshot = ''''\<rparr>] else [])\<rparr>\<rparr>)"

definition chain_to_workflow :: "api_chain \<Rightarrow> workflow" where
  "chain_to_workflow ch =
     (let sn = dcs_snapshot (dch_spec ch); steps = dcs_steps (dch_spec ch)
      in \<lparr>wf_api_version = '''', wf_kind = '''', wf_meta = zero_meta,
          wf_spec = \<lparr>ws_snapshot = zero_snapshot\<lparr>sn_meta := named (km_name (dch_meta ch) @ ''-snapshot''),
              sn_spec := zero_snap_spec\<lparr>ss_time_slice := ass_time_slice sn,
                ss_source := zero_source\<lparr>src_inline := as_inline (ass_source sn)\<rparr>, ss_sealed := ass_sealed sn\<rparr>\<rparr>,
            ws_dominos = map (\<lambda>(i, s). step_domino ch i s) (enumerate 0 steps),
            ws_execution = \<lparr>ex_chain = map dst_name steps, ex_deterministic = True\<rparr>,
            ws_provisioning = zero_provisioning\<lparr>pv_store_path := dcs_store_path (dch_spec ch)\<rparr>,
            ws_routing = zero_routing\<rparr>\<rparr>)"

definition chain_completed :: "run_result \<Rightarrow> int \<Rightarrow> api_chain \<Rightarrow> api_chain" where
  "chain_completed result now ch =
     (let msg = ''completed '' @ nat_str (length (dcs_steps (dch_spec ch))) @ '' steps''
      in set_chain_status (\<lambda>s. s\<lparr>dct_phase := ''Completed'', dct_snapshot_id := rr_snapshot_id result,
           dct_final_output_hash := (case compute (GStr (rr_final_output result)) of Inr h \<Rightarrow> h | Inl _ \<Rightarrow> ''''),
           dct_message := msg,
           dct_step_results := map (\<lambda>(i, e). \<lparr>dsr_name = le_domino_id e, dsr_index = int i,
             dsr_output_hash = le_output_hash e, dsr_phase = step_phase (le_reused e)\<rparr>) (enumerate 0 (rr_entries result)),
           dct_conditions := [ready_condition ''ChainCompleted'' msg now]\<rparr>) ch)"

definition finish_chain ::
  "('s, 'b) manager \<Rightarrow> api_chain \<Rightarrow> opener \<Rightarrow> ('s, 'b) cluster \<Rightarrow> outcome \<times> ('s, 'b) cluster" where
  "finish_chain m ch op c =
     (if skip_julia_replay m (Some ch) None then finish_chain_from_runner ch c
      else (case run_workflow m op (chain_to_workflow ch) c of
          (Inl e, c1) \<Rightarrow> on_kube (fail_chain ch e) c1
        | (Inr result, c1) \<Rightarrow>
            let (now, c2) = on_world time_now c1
            in on_kube (put_then (UpdateChainStatus (chain_completed result now ch)) (no_requeue, None)) c2))"

definition complete_chain ::
  "('s, 'b) manager \<Rightarrow> api_chain \<Rightarrow> ('s, 'b) cluster \<Rightarrow> outcome \<times> ('s, 'b) cluster" where
  "complete_chain m ch c =
     (if skip_julia_replay m (Some ch) None then finish_chain_from_runner ch c
      else (case open_store (\<lambda>cl. open_for_chain cl ch (mg_store_root m)) (wrapf ''open store'') c of
          (Inl e, c1) \<Rightarrow> on_kube (fail_chain ch e) c1
        | (Inr op, c1) \<Rightarrow> finish_chain m ch op c1))"

section \<open>The three runtimes\<close>

definition running_chain :: "string \<Rightarrow> api_chain \<Rightarrow> api_chain" where
  "running_chain podName ch = set_chain_status (\<lambda>s. s\<lparr>dct_pod_name := podName, dct_phase := ''Running''\<rparr>) ch"

definition wait_chain :: "api_chain \<Rightarrow> kube \<Rightarrow> outcome \<times> kube" where
  "wait_chain ch = put_then (UpdateChainStatus ch) (requeue_after 5000000000, None)"

text \<open>What follows once the steps of a pod were looked at.\<close>

definition after_steps ::
  "('s, 'b) manager \<Rightarrow> api_chain \<Rightarrow> api_chain \<Rightarrow> pod \<Rightarrow> bool res \<Rightarrow> ('s, 'b) cluster \<Rightarrow> outcome \<times> ('s, 'b) cluster" where
  "after_steps m ch waiting live r c =
     (case r of
        Inl e \<Rightarrow> on_kube (fail_chain ch e) c
      | Inr d \<Rightarrow>
          if d then complete_chain m ch c
          else if pod_phase live = ''Failed''
          then on_kube (fail_chain ch (errorf (''pod '' @ km_name (pod_meta live) @ '' failed''))) c
          else on_kube (wait_chain waiting) c)"

definition reconcile_init_chain ::
  "('s, 'b) manager \<Rightarrow> api_chain \<Rightarrow> ('s, 'b) cluster \<Rightarrow> outcome \<times> ('s, 'b) cluster" where
  "reconcile_init_chain m ch c =
     (let p = build_init_chain_pod (mg_runner_image m) ch
      in case on_kube (ensure_pod ch p) c of
           (Some e, c1) \<Rightarrow> on_kube (fail_chain ch e) c1
         | (None, c1) \<Rightarrow>
         (case on_kube (kube_get kb_pod (meta_key (pod_meta p))) c1 of
           (Inl e, c2) \<Rightarrow> ((no_requeue, Some e), c2)
         | (Inr live, c2) \<Rightarrow>
             let ch1 = running_chain (km_name (pod_meta p)) ch
             in after_steps m ch1 ch1 live (init_chain_complete live (length (dcs_steps (dch_spec ch)))) c2))"

text \<open>One image pull job: \<open>Inl\<close> ends the reconcile.\<close>

definition pull_image ::
  "api_chain \<Rightarrow> nat \<Rightarrow> string \<Rightarrow> ('s, 'b) cluster \<Rightarrow> (outcome + unit) \<times> ('s, 'b) cluster" where
  "pull_image ch i img c =
     (let job = build_image_pull_job ch img i; stop = (\<lambda>(out, c'). (Inl out, c'))
      in case on_kube (ensure_image_pull_job ch job) c of
           (Some e, c1) \<Rightarrow> stop (on_kube (fail_chain ch e) c1)
         | (None, c1) \<Rightarrow>
         (case on_kube (kube_get_untyped (un_kind job) (meta_key (un_meta job))) c1 of
           (Inl e, c2) \<Rightarrow> (Inl (no_requeue, Some e), c2)
         | (Inr live, c2) \<Rightarrow>
             if is_image_pull_job_failed (Some live) then
               stop (on_kube (fail_chain ch (errorf (''openkruise ImagePullJob '' @ km_name (un_meta live) @ '': ''
                 @ image_pull_job_status_message (Some live)))) c2)
             else if \<not> is_image_pull_job_complete (Some live) then
               stop (on_kube (wait_chain (set_chain_status (\<lambda>s. s\<lparr>dct_phase := ''Running'',
                 dct_message := ''waiting for OpenKruise ImagePullJob '' @ km_name (un_meta live) @ '' ('' @ img @ '')''\<rparr>) ch)) c2)
             else (Inr (), c2)))"

fun pull_images ::
  "api_chain \<Rightarrow> (nat \<times> string) list \<Rightarrow> ('s, 'b) cluster \<Rightarrow> (outcome + unit) \<times> ('s, 'b) cluster" where
  "pull_images ch [] c = (Inr (), c)"
| "pull_images ch ((i, img) # imgs) c =
     (case pull_image ch i img c of
        (Inl out, c1) \<Rightarrow> (Inl out, c1)
      | (Inr _, c1) \<Rightarrow> pull_images ch imgs c1)"

definition reconcile_openkruise ::
  "('s, 'b) manager \<Rightarrow> api_chain \<Rightarrow> ('s, 'b) cluster \<Rightarrow> outcome \<times> ('s, 'b) cluster" where
  "reconcile_openkruise m ch c =
     (case pull_images ch (enumerate 0 (openkruise_pull_images (mg_runner_image m) (Some ch))) c of
        (Inl out, c1) \<Rightarrow> (out, c1)
      | (Inr _, c1) \<Rightarrow>
     (let p = build_openkruise_pod (mg_runner_image m) ch
      in case on_kube (ensure_pod ch p) c1 of
           (Some e, c2) \<Rightarrow> on_kube (fail_chain ch e) c2
         | (None, c2) \<Rightarrow>
         (case on_kube (kube_get kb_pod (meta_key (pod_meta p))) c2 of
           (Inl e, c3) \<Rightarrow> ((no_requeue, Some e), c3)
         | (Inr live, c3) \<Rightarrow>
             let ch1 = running_chain (km_name (pod_meta p)) ch
             in after_steps m ch1 (set_chain_status (\<lambda>s. s\<lparr>dct_message := ''waiting for openkruise runner slots''\<rparr>) ch1)
                  live (openkruise_slots_complete live ch1) c3)))"

text \<open>The pods of the job, the first one whose steps are done or failed deciding.\<close>

fun volcano_pods_done :: "nat \<Rightarrow> pod list \<Rightarrow> bool res" where
  "volcano_pods_done steps [] = Inr False"
| "volcano_pods_done steps (p # ps) =
     (case init_chain_complete p steps of
        Inl e \<Rightarrow> Inl e
      | Inr d \<Rightarrow> if d then Inr True else volcano_pods_done steps ps)"

definition kube_list_pods :: "string \<Rightarrow> strmap \<Rightarrow> kube \<Rightarrow> pod list res \<times> kube" where
  "kube_list_pods ns labels kb = (kb_pods kb (kb_tick kb) ns labels, kb\<lparr>kb_tick := Suc (kb_tick kb)\<rparr>)"

definition reconcile_volcano ::
  "('s, 'b) manager \<Rightarrow> api_chain \<Rightarrow> ('s, 'b) cluster \<Rightarrow> outcome \<times> ('s, 'b) cluster" where
  "reconcile_volcano m ch c =
     (let job = build_volcano_job (mg_pod_map m) (mg_runner_image m) ch
      in case on_kube (ensure_volcano_job ch job) c of
           (Some e, c1) \<Rightarrow> on_kube (fail_chain ch e) c1
         | (None, c1) \<Rightarrow>
         (case on_kube (kube_get_untyped (un_kind job) (meta_key (un_meta job))) c1 of
           (Inl e, c2) \<Rightarrow> ((no_requeue, Some e), c2)
         | (Inr live, c2) \<Rightarrow>
             let ch1 = running_chain (km_name (un_meta job)) ch
             in if is_volcano_job_complete live then complete_chain m ch1 c2
                else if is_volcano_job_failed live
                then on_kube (fail_chain ch1 (errorf (''volcano job '' @ km_name (un_meta live) @ '': ''
                       @ volcano_job_status_message live))) c2
                else (case on_kube (kube_list_pods (km_namespace (dch_meta ch))
                          [(''kbl.io/dominochain'', km_name (dch_meta ch))]) c2 of
                    (Inl e, c3) \<Rightarrow> ((no_requeue, Some e), c3)
                  | (Inr pods, c3) \<Rightarrow>
                      (case volcano_pods_done (length (dcs_steps (dch_spec ch))) pods of
                         Inl e \<Rightarrow> on_kube (fail_chain ch1 e) c3
                       | Inr d \<Rightarrow> if d then complete_chain m ch1 c3 else on_kube (wait_chain ch1) c3))))"

section \<open>Reconcile\<close>

definition run_chain_object ::
  "('s, 'b) manager \<Rightarrow> api_chain \<Rightarrow> ('s, 'b) cluster \<Rightarrow> outcome \<times> ('s, 'b) cluster" where
  "run_chain_object m ch c =
     (let runtime = (if dcs_runtime (dch_spec ch) = '''' then ''kubernetes-init'' else dcs_runtime (dch_spec ch))
      in case validate_chain (Some ch) (runner_image (mg_runner_image m) ch) of
           Inl e \<Rightarrow> on_kube (fail_chain ch e) c
         | Inr _ \<Rightarrow>
         (case on_world (snapshot_json (dcs_snapshot (dch_spec ch))) c of
           (Inl e, c1) \<Rightarrow> on_kube (fail_chain ch e) c1
         | (Inr json, c1) \<Rightarrow>
         (case on_kube (ensure_config_map ch (snapshot_config_map ch json)) c1 of
           (Some e, c2) \<Rightarrow> on_kube (fail_chain ch e) c2
         | (None, c2) \<Rightarrow>
             if runtime = ''openkruise'' then reconcile_openkruise m ch c2
             else if runtime = ''volcano-init'' then reconcile_volcano m ch c2
             else reconcile_init_chain m ch c2)))"

definition reconcile_found_chain ::
  "('s, 'b) manager \<Rightarrow> api_chain \<Rightarrow> ('s, 'b) cluster \<Rightarrow> outcome \<times> ('s, 'b) cluster" where
  "reconcile_found_chain m ch c =
     (if km_deleting (dch_meta ch) then on_kube (finalize_chain ch) c
      else if \<not> contains_finalizer chain_finalizer_name (dch_meta ch) then
        on_kube (put_then (UpdateChain (ch\<lparr>dch_meta := add_finalizer chain_finalizer_name (dch_meta ch)\<rparr>)) (requeue_now, None)) c
      else if dct_phase (dch_status ch) = ''Completed'' then ((no_requeue, None), c)
      else if dcs_steps (dch_spec ch) = [] then on_kube (fail_chain ch (errorf ''spec.steps must not be empty'')) c
      else run_chain_object m ch c)"

definition reconcile_chain ::
  "('s, 'b) manager \<Rightarrow> object_key \<Rightarrow> ('s, 'b) cluster \<Rightarrow> outcome \<times> ('s, 'b) cluster" where
  "reconcile_chain m key c =
     (case on_kube (kube_get kb_chain key) c of
        (Inl e, c1) \<Rightarrow> ((no_requeue, if api_is_not_found e then None else Some e), c1)
      | (Inr ch, c1) \<Rightarrow> reconcile_found_chain m ch c1)"


section \<open>What a status rests on\<close>

fun chain_status :: "kube_write \<Rightarrow> api_chain option" where
  "chain_status (UpdateChainStatus ch) = Some ch"
| "chain_status _ = None"

abbreviation ch_phase :: "api_chain \<Rightarrow> string" where
  "ch_phase ch \<equiv> dct_phase (dch_status ch)"

text \<open>The first \<open>n\<close> init containers of a pod all left with 0, or the pod succeeded.\<close>

definition init_steps_ran :: "pod \<Rightarrow> nat \<Rightarrow> bool" where
  "init_steps_ran p n \<longleftrightarrow> pod_phase p = ''Succeeded''
     \<or> n \<le> length (pod_init_statuses p) \<and> list_all (\<lambda>st. cns_terminated st = Some 0) (take n (pod_init_statuses p))"

text \<open>Every step of the chain has a container in the pod, and all containers of a step left with 0.\<close>

definition slots_ran :: "pod \<Rightarrow> api_chain \<Rightarrow> bool" where
  "slots_ran p ch \<longleftrightarrow> pod_phase p = ''Succeeded''
     \<or> list_all (\<lambda>i. step_container_succeeded p ch (int i)
          \<and> list_all (\<lambda>cs. cns_name cs = step_container_name ch (int i) \<longrightarrow> cns_terminated cs = Some 0) (pod_statuses p))
        [0..<length (dcs_steps (dch_spec ch))]"

lemma init_statuses_done_True:
  "init_statuses_done i n sts = Inr True \<Longrightarrow> n \<le> length sts \<and> list_all (\<lambda>st. cns_terminated st = Some 0) (take n sts)"
  by (induction i n sts rule: init_statuses_done.induct) (auto split: option.splits if_splits)

lemma init_chain_complete_True: "init_chain_complete p n = Inr True \<Longrightarrow> init_steps_ran p n"
  using init_statuses_done_True [of 0 n "pod_init_statuses p"]
  by (auto simp: init_chain_complete_def init_steps_ran_def split: if_splits sum.splits)

lemma slot_statuses_done_True:
  "slot_statuses_done name css found = Inr True \<Longrightarrow>
     (found \<or> list_ex (\<lambda>cs. cns_name cs = name \<and> cns_terminated cs = Some 0) css)
     \<and> list_all (\<lambda>cs. cns_name cs = name \<longrightarrow> cns_terminated cs = Some 0) css"
  by (induction name css found rule: slot_statuses_done.induct) (auto split: option.splits if_splits)

lemma slots_done_True:
  "slots_done ch p is = Inr True \<Longrightarrow> list_all (\<lambda>i. step_container_succeeded p ch (int i)
     \<and> list_all (\<lambda>cs. cns_name cs = step_container_name ch (int i) \<longrightarrow> cns_terminated cs = Some 0) (pod_statuses p)) is"
  by (induction ch p "is" rule: slots_done.induct)
    (auto simp: step_container_succeeded_def split: sum.splits if_splits dest: slot_statuses_done_True)

lemma openkruise_slots_complete_True: "openkruise_slots_complete p ch = Inr True \<Longrightarrow> slots_ran p ch"
  by (auto simp: openkruise_slots_complete_def slots_ran_def split: if_splits dest: slots_done_True)

lemma volcano_pods_done_True: "volcano_pods_done n ps = Inr True \<Longrightarrow> \<exists>p\<in>set ps. init_steps_ran p n"
  by (induction n ps rule: volcano_pods_done.induct)
    (auto split: sum.splits if_splits dest: init_chain_complete_True)

text \<open>The server showed, for the chain's runtime, that the steps ran.\<close>

definition steps_ran :: "kube \<Rightarrow> api_chain \<Rightarrow> bool" where
  "steps_ran kb ch \<longleftrightarrow> (let n = length (dcs_steps (dch_spec ch)); ns = km_namespace (dch_meta ch); name = km_name (dch_meta ch);
       rt = dcs_runtime (dch_spec ch)
     in if rt = ''openkruise'' then (\<exists>t p. kb_pod kb t (ns, name @ ''-chain'') = Inr p \<and> slots_ran p ch)
        else if rt = ''volcano-init'' then
          (\<exists>t job. kb_untyped kb t ''batch.volcano.sh/v1alpha1/Job'' (ns, volcano_job_name ch) = Inr job \<and> is_volcano_job_complete job)
          \<or> (\<exists>t ps p. kb_pods kb t ns [(''kbl.io/dominochain'', name)] = Inr ps \<and> p \<in> set ps \<and> init_steps_ran p n)
        else (\<exists>t p. kb_pod kb t (ns, name @ ''-chain'') = Inr p \<and> init_steps_ran p n))"

text \<open>The replay of the chain succeeded on the store the chain names, and the status repeats it.\<close>

definition chain_reports :: "run_result \<Rightarrow> api_chain \<Rightarrow> bool" where
  "chain_reports res ch \<longleftrightarrow> dct_snapshot_id (dch_status ch) = rr_snapshot_id res
     \<and> map dsr_name (dct_step_results (dch_status ch)) = map le_domino_id (rr_entries res)
     \<and> map dsr_output_hash (dct_step_results (dch_status ch)) = map le_output_hash (rr_entries res)"

definition chain_ran :: "('s, 'b) manager \<Rightarrow> ('s, 'b) cluster \<Rightarrow> api_chain \<Rightarrow> run_result \<Rightarrow> ('s, 'b) cluster \<Rightarrow> bool" where
  "chain_ran m c ch res c' \<longleftrightarrow> (\<exists>op kb w s' w'. runs (\<lambda>_. True) (cu_kube c) kb
     \<and> open_for_chain (Some (context_client kb)) ch (mg_store_root m) = Inr op
     \<and> run (engine_for m op) (chain_to_workflow ch) (cu_store c op) w = (Inr res, s', w') \<and> cu_store c' = (cu_store c)(op := s'))"

definition chain_justified :: "('s, 'b) manager \<Rightarrow> ('s, 'b) cluster \<Rightarrow> api_chain \<Rightarrow> ('s, 'b) cluster \<Rightarrow> bool" where
  "chain_justified m c ch c' \<longleftrightarrow> steps_ran (cu_kube c) ch
     \<and> ((\<exists>res. chain_ran m c ch res c' \<and> chain_reports res ch) \<or> skip_julia_replay m (Some ch) None \<and> cu_store c' = cu_store c)"

text \<open>How the work on a chain ends: at most one status, of the same object.\<close>

definition chain_ends :: "('s, 'b) manager \<Rightarrow> api_chain \<Rightarrow> ('s, 'b) cluster \<Rightarrow> ('s, 'b) cluster \<Rightarrow> bool" where
  "chain_ends m ch c c' \<longleftrightarrow> one_run m c c' \<and> (\<exists>l. adds chain_status c l c' \<and> (l = [] \<or> (\<exists>k. l = [k]
     \<and> dch_spec k = dch_spec ch \<and> dch_meta k = dch_meta ch
     \<and> (ch_phase k = ''Error'' \<or> ch_phase k = ''Running'' \<or> ch_phase k = ''Completed'' \<and> chain_justified m c k c'))))"

lemma steps_ran_server:
  assumes "runs P kb kb1" shows "steps_ran kb1 ch = steps_ran kb ch"
proof -
  have "kb_pod kb1 = kb_pod kb" "kb_untyped kb1 = kb_untyped kb" "kb_pods kb1 = kb_pods kb" using assms by (auto simp: runs_def)
  then show ?thesis by (simp add: steps_ran_def)
qed

lemma slots_ran_cong: "dch_spec k = dch_spec ch \<Longrightarrow> slots_ran p k = slots_ran p ch"
  by (simp add: slots_ran_def step_container_succeeded_def step_container_name_def)

lemma steps_ran_cong:
  assumes "dch_spec k = dch_spec ch" "dch_meta k = dch_meta ch" shows "steps_ran kb k = steps_ran kb ch"
  unfolding steps_ran_def slots_ran_cong [OF assms(1)] volcano_job_name_def assms by (rule refl)

lemma chain_cong:
  assumes "dch_spec k = dch_spec ch" "dch_meta k = dch_meta ch"
  shows "open_for_chain cl k dir = open_for_chain cl ch dir" "chain_to_workflow k = chain_to_workflow ch"
    "skip_julia_replay m (Some k) None = skip_julia_replay m (Some ch) None"
  unfolding open_for_chain_def config_from_chain_def chain_to_workflow_def step_domino_def skip_julia_replay_def steps_have_julia_def
    option.case assms by (rule refl)+

lemma chain_ends_before:
  assumes "adds chain_status c [] c1" "cu_store c1 = cu_store c" "chain_ends m ch c1 c2" shows "chain_ends m ch c c2"
proof -
  have r: "runs (\<lambda>_. True) (cu_kube c) (cu_kube c1)" using assms(1) by (simp add: adds_def)
  have "chain_ran m c1 k res c2 \<Longrightarrow> chain_ran m c k res c2" for k res
    using runs_trans [OF r] assms(2) unfolding chain_ran_def by metis
  then have "chain_justified m c1 k c2 \<Longrightarrow> chain_justified m c k c2" for k
    using steps_ran_server [OF r] assms(2) unfolding chain_justified_def by metis
  moreover obtain l where "one_run m c1 c2" "adds chain_status c1 l c2" "l = [] \<or> (\<exists>k. l = [k]
     \<and> dch_spec k = dch_spec ch \<and> dch_meta k = dch_meta ch
     \<and> (ch_phase k = ''Error'' \<or> ch_phase k = ''Running'' \<or> ch_phase k = ''Completed'' \<and> chain_justified m c1 k c2))"
    using assms(3) unfolding chain_ends_def by blast
  ultimately show ?thesis using adds_trans [OF assms(1), of l c2] one_run_from [OF assms(2)]
    unfolding chain_ends_def by (intro conjI exI [of _ l]) auto
qed


lemma chain_ends_none: "adds chain_status c [] c1 \<Longrightarrow> cu_store c1 = cu_store c \<Longrightarrow> chain_ends m ch c c1"
  unfolding chain_ends_def using one_run_same by blast

lemma chain_status_ends:
  assumes "on_kube (put_then (UpdateChainStatus k) o1) c = (out, c1)" "dch_spec k = dch_spec ch" "dch_meta k = dch_meta ch"
    "ch_phase k = ''Error'' \<or> ch_phase k = ''Running''"
  shows "chain_ends m ch c c1"
  using adds_put_then [OF assms(1), where f = chain_status and k = k] assms(2-4) one_run_same [of c1 c m]
  unfolding chain_ends_def by auto

lemma fail_chain_adds:
  assumes "on_kube (fail_chain k e) c = (out, c1)"
  shows "\<exists>k1. adds chain_status c [k1] c1 \<and> cu_store c1 = cu_store c \<and> dch_spec k1 = dch_spec k \<and> dch_meta k1 = dch_meta k
    \<and> ch_phase k1 = ''Error''"
proof -
  define k1 where "k1 = set_chain_status (\<lambda>s. s\<lparr>dct_phase := ''Error'', dct_message := err_msg e\<rparr>) k"
  obtain r where "kube_put (UpdateChainStatus k1) (cu_kube c) = (r, cu_kube c1)" "cu_store c1 = cu_store c"
    using assms(1) on_kube_parts(2) [OF assms(1)]
    by (cases "kube_put (UpdateChainStatus k1) (cu_kube c)") (auto simp: fail_chain_def k1_def on_kube_def)
  then have "adds chain_status c [k1] c1" "cu_store c1 = cu_store c" by (auto intro: adds_put)
  then show ?thesis by (intro exI [of _ k1]) (simp add: k1_def)
qed

lemma fail_chain_ends_after:
  assumes "adds chain_status c [] c2" "one_run m c c2" "on_kube (fail_chain k e) c2 = (out, c1)"
    "dch_spec k = dch_spec ch" "dch_meta k = dch_meta ch"
  shows "chain_ends m ch c c1"
proof -
  obtain k1 where k1: "adds chain_status c2 [k1] c1" "cu_store c1 = cu_store c2" "dch_spec k1 = dch_spec k" "dch_meta k1 = dch_meta k"
    "ch_phase k1 = ''Error''"
    using fail_chain_adds [OF assms(3)] by blast
  have "one_run m c c1" using assms(2) k1(2) by (simp add: one_run_def)
  then show ?thesis using adds_trans [OF assms(1) k1(1)] k1(3-5) assms(4,5)
    unfolding chain_ends_def by (intro conjI exI [of _ "[k1]"]) simp_all
qed

lemma fail_chain_ends:
  "on_kube (fail_chain k e) c = (out, c1) \<Longrightarrow> dch_spec k = dch_spec ch \<Longrightarrow> dch_meta k = dch_meta ch \<Longrightarrow> chain_ends m ch c c1"
  by (erule fail_chain_ends_after [rotated 2]) (simp_all add: adds_same one_run_same)

lemma fail_chain_ends_self: "on_kube (fail_chain ch e) c = (out, c1) \<Longrightarrow> chain_ends m ch c c1"
  by (erule fail_chain_ends) simp_all

lemma wait_chain_ends:
  "on_kube (wait_chain k) c = (out, c1) \<Longrightarrow> dch_spec k = dch_spec ch \<Longrightarrow> dch_meta k = dch_meta ch \<Longrightarrow> ch_phase k = ''Running''
    \<Longrightarrow> chain_ends m ch c c1"
  unfolding wait_chain_def by (erule chain_status_ends) simp_all

lemma chain_ends_same_object:
  assumes "dch_spec k = dch_spec ch" "dch_meta k = dch_meta ch" shows "chain_ends m k c c1 = chain_ends m ch c c1"
  unfolding chain_ends_def assms by (rule refl)

lemma finish_chain_from_runner_ends:
  assumes "finish_chain_from_runner ch c = (out, c1)" "skip_julia_replay m (Some ch) None" "steps_ran (cu_kube c) ch"
  shows "chain_ends m ch c c1"
proof -
  obtain q c2 where q: "on_world (snapshot_json (dcs_snapshot (dch_spec ch))) c = (q, c2)" by fastforce
  have t2: "adds chain_status c [] c2" "cu_store c2 = cu_store c" using on_world_parts [OF q] adds_same by auto
  show ?thesis
  proof (cases q)
    case (Inl e)
    then have "on_kube (fail_chain ch e) c2 = (out, c1)" using assms(1) q by (simp add: finish_chain_from_runner_def)
    from chain_ends_before [OF t2 fail_chain_ends_self [OF this]] show ?thesis .
  next
    case (Inr json)
    obtain now c3 where n: "on_world time_now c2 = (now, c3)" by fastforce
    have t3: "adds chain_status c [] c3" "cu_store c3 = cu_store c"
      using on_world_parts [OF n] on_world_parts [OF q] adds_same by auto
    obtain k o1 where k: "on_kube (put_then (UpdateChainStatus k) o1) c3 = (out, c1)" "dch_spec k = dch_spec ch" "dch_meta k = dch_meta ch"
      "ch_phase k = ''Completed''"
      using assms(1) q Inr n by (auto simp: finish_chain_from_runner_def Let_def)
    from adds_put_then [OF k(1), where f = chain_status and k = k] have a: "adds chain_status c [k] c1" "cu_store c1 = cu_store c"
      using adds_trans [OF t3(1), of "[k]" c1] t3(2) by simp_all
    have "chain_justified m c k c1" using assms(2,3) a(2) chain_cong(3) [OF k(2,3), of m] steps_ran_cong [OF k(2,3)]
      by (simp add: chain_justified_def)
    with a k(2-4) show ?thesis unfolding chain_ends_def using one_run_same by blast
  qed
qed

lemma map_enumerate_snd: "map (\<lambda>p. f (snd p)) (enumerate n xs) = map f xs"
  by (induction xs arbitrary: n) simp_all

lemma complete_chain_ends:
  assumes "complete_chain m ch c = (out, c1)" "steps_ran (cu_kube c) ch"
  shows "chain_ends m ch c c1"
proof (cases "skip_julia_replay m (Some ch) None")
  case True then show ?thesis using finish_chain_from_runner_ends assms by (simp add: complete_chain_def)
next
  case skip: False
  obtain o1 c2 where o: "open_store (\<lambda>cl. open_for_chain cl ch (mg_store_root m)) (wrapf ''open store'') c = (o1, c2)" by fastforce
  have t2: "adds chain_status c [] c2" "cu_store c2 = cu_store c" "runs (\<lambda>_. True) (cu_kube c) (cu_kube c2)"
    using open_store_frame [OF o] by (auto intro: adds_silent)
  show ?thesis
  proof (cases o1)
    case (Inl e)
    then have "on_kube (fail_chain ch e) c2 = (out, c1)" using assms(1) skip o by (simp add: complete_chain_def)
    from chain_ends_before [OF t2(1,2) fail_chain_ends_self [OF this]] show ?thesis .
  next
    case op: (Inr op)
    obtain q c3 where q: "run_workflow m op (chain_to_workflow ch) c2 = (q, c3)" by fastforce
    note rp = run_workflow_parts [OF q]
    show ?thesis
    proof (cases q)
      case (Inl e)
      then have f: "on_kube (fail_chain ch e) c3 = (out, c1)" using assms(1) skip o op q by (simp add: complete_chain_def finish_chain_def)
      have "adds chain_status c [] c3" using adds_trans [OF t2(1) adds_same [OF rp(2)]] by simp
      moreover have "one_run m c c3" using run_workflow_one_run [OF q] one_run_from [OF t2(2)] by simp
      ultimately show ?thesis using fail_chain_ends_after f by blast
    next
      case (Inr res)
      obtain now c4 where n: "on_world time_now c3 = (now, c4)" by fastforce
      define k where "k = chain_completed res now ch"
      have k: "dch_spec k = dch_spec ch" "dch_meta k = dch_meta ch" "ch_phase k = ''Completed''" "chain_reports res k"
        by (simp_all add: k_def chain_completed_def chain_reports_def Let_def comp_def split_def map_enumerate_snd)
      have put: "on_kube (put_then (UpdateChainStatus k) (no_requeue, None)) c4 = (out, c1)"
        using assms(1) skip o op q Inr n by (simp add: complete_chain_def finish_chain_def k_def)
      have "adds chain_status c [] c4" "cu_store c4 = cu_store c3"
        using adds_trans [OF t2(1) adds_same [of c4 c2]] rp(2) on_world_parts [OF n] by simp_all
      with adds_put_then [OF put, where f = chain_status and k = k] adds_trans [of chain_status c "[]" c4 "[k]" c1]
      have a: "adds chain_status c [k] c1" "cu_store c1 = cu_store c3" by simp_all
      have "open_for_chain (Some (context_client (cu_kube c))) k (mg_store_root m) = Inr op"
        using open_store_Inr o op chain_cong(1) [OF k(1,2)] by simp
      moreover have "run (engine_for m op) (chain_to_workflow k) (cu_store c op) (cu_world c2) = (Inr res, cu_store c3 op, cu_world c3)"
        using rp(1) Inr t2(2) chain_cong(2) [OF k(1,2)] by simp
      moreover have st: "cu_store c1 = (cu_store c)(op := cu_store c3 op)" using rp(3) t2(2) a(2) by simp
      ultimately have "chain_ran m c k res c1" unfolding chain_ran_def using runs_refl by blast
      then have "chain_justified m c k c1" "one_run m c c1"
        using k(4) assms(2) steps_ran_cong [OF k(1,2)] unfolding chain_justified_def chain_ran_def one_run_def by blast+
      then show ?thesis unfolding chain_ends_def using a(1) k by blast
    qed
  qed
qed


text \<open>The three runtimes.\<close>

lemma after_steps_ends:
  assumes "after_steps m k waiting live r c = (out, c1)" "r = Inr True \<Longrightarrow> steps_ran (cu_kube c) ch"
    and k: "dch_spec k = dch_spec ch" "dch_meta k = dch_meta ch"
    and w: "dch_spec waiting = dch_spec ch" "dch_meta waiting = dch_meta ch" "ch_phase waiting = ''Running''"
  shows "chain_ends m ch c c1"
proof -
  consider e where "on_kube (fail_chain k e) c = (out, c1)" | "r = Inr True" "complete_chain m k c = (out, c1)"
    | "on_kube (wait_chain waiting) c = (out, c1)"
    using assms(1) by (auto simp: after_steps_def split: sum.splits if_splits)
  then show ?thesis
  proof cases
    case 1 then show ?thesis using fail_chain_ends k by blast
  next
    case 2
    have "steps_ran (cu_kube c) k" using assms(2) [OF 2(1)] steps_ran_cong [OF k] by blast
    from complete_chain_ends [OF 2(2) this] show ?thesis unfolding chain_ends_same_object [OF k] .
  next
    case 3 then show ?thesis using wait_chain_ends w by blast
  qed
qed

abbreviation quiet :: "kube_write \<Rightarrow> bool" where
  "quiet w \<equiv> chain_status w = None"

lemma ensure_quiet:
  "ensure_config_map ch cm kb = (r, kb1) \<Longrightarrow> runs quiet kb kb1"
  "ensure_pod ch p kb = (r, kb1) \<Longrightarrow> runs quiet kb kb1"
  "ensure_untyped a b ch job kb = (r, kb1) \<Longrightarrow> runs quiet kb kb1"
  by (auto simp: ensure_config_map_def ensure_pod_def ensure_untyped_def kube_get_untyped_def Let_def
      split: sum.splits prod.splits option.splits if_splits
      dest!: runs_get [where P = quiet] runs_put [where P = quiet] intro: runs_trans)

lemma jobs_quiet:
  "ensure_image_pull_job ch job kb = (r, kb1) \<Longrightarrow> runs quiet kb kb1"
  "ensure_volcano_job ch job kb = (r, kb1) \<Longrightarrow> runs quiet kb kb1"
  "kube_get_untyped kind key kb = (q, kb1) \<Longrightarrow> runs P kb kb1"
  by (auto simp: ensure_image_pull_job_def ensure_volcano_job_def kube_get_untyped_def dest: ensure_quiet(3) runs_get)

lemma chain_adds_silent:
  assumes "on_kube f c = (r, c1)" "\<And>q kb1. f (cu_kube c) = (q, kb1) \<Longrightarrow> runs quiet (cu_kube c) kb1"
  shows "adds chain_status c [] c1" "cu_store c1 = cu_store c"
  using assms(2) [OF on_kube_parts(1) [OF assms(1)]] on_kube_parts(2) [OF assms(1)] by (auto intro: adds_silent)

lemma reconcile_init_chain_ends:
  assumes "reconcile_init_chain m ch c = (out, c1)" "dcs_runtime (dch_spec ch) \<noteq> ''openkruise''" "dcs_runtime (dch_spec ch) \<noteq> ''volcano-init''"
  shows "chain_ends m ch c c1"
proof -
  define p where "p = build_init_chain_pod (mg_runner_image m) ch"
  have key: "meta_key (pod_meta p) = (km_namespace (dch_meta ch), km_name (dch_meta ch) @ ''-chain'')"
    by (simp add: p_def build_init_chain_pod_def meta_key_def Let_def)
  obtain u c2 where u: "on_kube (ensure_pod ch p) c = (u, c2)" by fastforce
  note t2 = chain_adds_silent [OF u ensure_quiet(2)]
  obtain g c3 where g: "on_kube (kube_get kb_pod (meta_key (pod_meta p))) c2 = (g, c3)" by fastforce
  note t3 = chain_adds_silent [OF g runs_get]
  have t: "adds chain_status c [] c3" "cu_store c3 = cu_store c" using adds_trans [OF t2(1) t3(1)] t2(2) t3(2) by simp_all
  let ?k = "running_chain (km_name (pod_meta p)) ch"
  consider e where "u = Some e" "on_kube (fail_chain ch e) c2 = (out, c1)" | e where "u = None" "g = Inl e" "c1 = c3"
    | live where "u = None" "g = Inr live"
        "after_steps m ?k ?k live (init_chain_complete live (length (dcs_steps (dch_spec ch)))) c3 = (out, c1)"
    using assms(1) u g by (auto simp: reconcile_init_chain_def p_def [symmetric] Let_def split: option.splits sum.splits)
  then show ?thesis
  proof cases
    case 1 from chain_ends_before [OF t2 fail_chain_ends_self [OF 1(2)]] show ?thesis .
  next
    case 2 then show ?thesis using chain_ends_none t by simp
  next
    case 3
    have "kb_pod (cu_kube c3) (kb_tick (cu_kube c2)) (km_namespace (dch_meta ch), km_name (dch_meta ch) @ ''-chain'') = Inr live"
      using kube_get_value [OF on_kube_parts(1) [OF g]] 3(2) runs_server(10) [OF runs_get [OF on_kube_parts(1) [OF g]]] key by simp
    then have "init_chain_complete live (length (dcs_steps (dch_spec ch))) = Inr True \<Longrightarrow> steps_ran (cu_kube c3) ch"
      using assms(2,3) init_chain_complete_True by (auto simp: steps_ran_def Let_def)
    from after_steps_ends [OF 3(3) this] chain_ends_before [OF t] show ?thesis by (simp add: running_chain_def)
  qed
qed


lemma pull_image_ends:
  assumes "pull_image ch i img c = (r, c1)"
  shows "case r of Inl out \<Rightarrow> chain_ends m ch c c1 | Inr _ \<Rightarrow> adds chain_status c [] c1 \<and> cu_store c1 = cu_store c"
proof -
  define job where "job = build_image_pull_job ch img i"
  obtain u c2 where u: "on_kube (ensure_image_pull_job ch job) c = (u, c2)" by fastforce
  note t2 = chain_adds_silent [OF u jobs_quiet(1)]
  obtain g c3 where g: "on_kube (kube_get_untyped (un_kind job) (meta_key (un_meta job))) c2 = (g, c3)" by fastforce
  note t3 = chain_adds_silent [OF g jobs_quiet(3)]
  have t: "adds chain_status c [] c3" "cu_store c3 = cu_store c" using adds_trans [OF t2(1) t3(1)] t2(2) t3(2) by simp_all
  show ?thesis
  proof (cases r)
    case (Inr x)
    then have "c1 = c3" using assms u g
      by (auto simp: pull_image_def job_def [symmetric] Let_def split: option.splits sum.splits if_splits prod.splits)
    then show ?thesis using Inr t by simp
  next
    case (Inl out)
    then consider e where "on_kube (fail_chain ch e) c2 = (out, c1)" | "c1 = c3" | e where "on_kube (fail_chain ch e) c3 = (out, c1)"
      | k where "on_kube (wait_chain k) c3 = (out, c1)" "dch_spec k = dch_spec ch" "dch_meta k = dch_meta ch" "ch_phase k = ''Running''"
      using assms u g
      by (fastforce simp: pull_image_def job_def [symmetric] Let_def split: option.splits sum.splits if_splits prod.splits)
    then have "chain_ends m ch c c1"
    proof cases
      case 1 from chain_ends_before [OF t2 fail_chain_ends_self [OF 1]] show ?thesis .
    next
      case 2 then show ?thesis using chain_ends_none t by simp
    next
      case 3 from chain_ends_before [OF t fail_chain_ends_self [OF 3]] show ?thesis .
    next
      case 4 from chain_ends_before [OF t wait_chain_ends [OF 4]] show ?thesis .
    qed
    then show ?thesis using Inl by simp
  qed
qed

lemma pull_images_ends:
  "pull_images ch is c = (r, c1) \<Longrightarrow>
     case r of Inl out \<Rightarrow> chain_ends m ch c c1 | Inr _ \<Rightarrow> adds chain_status c [] c1 \<and> cu_store c1 = cu_store c"
proof (induction ch "is" c rule: pull_images.induct)
  case (1 ch c) then show ?case by (auto intro: adds_same)
next
  case (2 ch i img imgs c)
  obtain q c2 where q: "pull_image ch i img c = (q, c2)" by fastforce
  note e = pull_image_ends [OF q, of m]
  show ?case
  proof (cases q)
    case (Inl out) then show ?thesis using e 2(2) q by auto
  next
    case (Inr x)
    then have t: "adds chain_status c [] c2" "cu_store c2 = cu_store c" using e by simp_all
    have "pull_images ch imgs c2 = (r, c1)" using 2(2) q Inr by simp
    from 2(1) [OF q [symmetric] Inr this] show ?thesis
      using chain_ends_before [OF t] adds_trans [OF t(1), of "[]" c1] t(2) by (auto split: sum.splits)
  qed
qed

lemma reconcile_openkruise_ends:
  assumes "reconcile_openkruise m ch c = (out, c1)" "dcs_runtime (dch_spec ch) = ''openkruise''"
  shows "chain_ends m ch c c1"
proof -
  define p where "p = build_openkruise_pod (mg_runner_image m) ch"
  have key: "meta_key (pod_meta p) = (km_namespace (dch_meta ch), km_name (dch_meta ch) @ ''-chain'')"
    by (simp add: p_def build_openkruise_pod_def meta_key_def Let_def)
  obtain q c2 where q: "pull_images ch (enumerate 0 (openkruise_pull_images (mg_runner_image m) (Some ch))) c = (q, c2)" by fastforce
  note e = pull_images_ends [OF q, of m]
  show ?thesis
  proof (cases q)
    case (Inl o1) then show ?thesis using e assms(1) q by (simp add: reconcile_openkruise_def)
  next
    case (Inr x)
    then have t2: "adds chain_status c [] c2" "cu_store c2 = cu_store c" using e by simp_all
    obtain u c3 where u: "on_kube (ensure_pod ch p) c2 = (u, c3)" by fastforce
    note t3 = chain_adds_silent [OF u ensure_quiet(2)]
    obtain g c4 where g: "on_kube (kube_get kb_pod (meta_key (pod_meta p))) c3 = (g, c4)" by fastforce
    note t4 = chain_adds_silent [OF g runs_get]
    have t: "adds chain_status c [] c3" "cu_store c3 = cu_store c" "adds chain_status c [] c4" "cu_store c4 = cu_store c"
      using adds_trans [OF t2(1) t3(1)] adds_trans [OF adds_trans [OF t2(1) t3(1)] t4(1)] t2(2) t3(2) t4(2) by simp_all
    let ?k = "running_chain (km_name (pod_meta p)) ch"
    let ?w = "set_chain_status (\<lambda>s. s\<lparr>dct_message := ''waiting for openkruise runner slots''\<rparr>) ?k"
    have k: "dch_spec ?k = dch_spec ch" "dch_meta ?k = dch_meta ch" by (simp_all add: running_chain_def)
    consider e where "u = Some e" "on_kube (fail_chain ch e) c3 = (out, c1)" | e where "u = None" "g = Inl e" "c1 = c4"
      | live where "u = None" "g = Inr live" "after_steps m ?k ?w live (openkruise_slots_complete live ?k) c4 = (out, c1)"
      using assms(1) q Inr u g by (auto simp: reconcile_openkruise_def p_def [symmetric] Let_def split: option.splits sum.splits)
    then show ?thesis
    proof cases
      case 1 from chain_ends_before [OF t(1,2) fail_chain_ends_self [OF 1(2)]] show ?thesis .
    next
      case 2 then show ?thesis using chain_ends_none t by simp
    next
      case 3
      have "kb_pod (cu_kube c4) (kb_tick (cu_kube c3)) (km_namespace (dch_meta ch), km_name (dch_meta ch) @ ''-chain'') = Inr live"
        using kube_get_value [OF on_kube_parts(1) [OF g]] 3(2) runs_server(10) [OF runs_get [OF on_kube_parts(1) [OF g]]] key by simp
      then have "steps_ran (cu_kube c4) ch" if "openkruise_slots_complete live ?k = Inr True"
        using assms(2) openkruise_slots_complete_True [OF that] slots_ran_cong [OF k(1)] by (auto simp: steps_ran_def Let_def)
      from after_steps_ends [OF 3(3) this] chain_ends_before [OF t(3,4)] show ?thesis by (simp add: running_chain_def)
    qed
  qed
qed


lemma complete_running_ends:
  assumes "complete_chain m k c = (out, c1)" "steps_ran (cu_kube c) ch" "dch_spec k = dch_spec ch" "dch_meta k = dch_meta ch"
  shows "chain_ends m ch c c1"
proof -
  have "steps_ran (cu_kube c) k" using assms(2) steps_ran_cong [OF assms(3,4)] by blast
  from complete_chain_ends [OF assms(1) this] show ?thesis unfolding chain_ends_same_object [OF assms(3,4)] .
qed

lemma reconcile_volcano_ends:
  assumes "reconcile_volcano m ch c = (out, c1)" "dcs_runtime (dch_spec ch) = ''volcano-init''"
  shows "chain_ends m ch c c1"
proof -
  define job where "job = build_volcano_job (mg_pod_map m) (mg_runner_image m) ch"
  let ?key = "(km_namespace (dch_meta ch), volcano_job_name ch)" and ?kind = "''batch.volcano.sh/v1alpha1/Job''"
  let ?labels = "[(''kbl.io/dominochain'', km_name (dch_meta ch))]" and ?n = "length (dcs_steps (dch_spec ch))"
  have key: "un_kind job = ?kind" "meta_key (un_meta job) = ?key"
    by (simp_all add: job_def build_volcano_job_def meta_key_def Let_def)
  obtain u c2 where u: "on_kube (ensure_volcano_job ch job) c = (u, c2)" by fastforce
  note t2 = chain_adds_silent [OF u jobs_quiet(2)]
  obtain g c3 where g: "on_kube (kube_get_untyped (un_kind job) (meta_key (un_meta job))) c2 = (g, c3)" by fastforce
  note t3 = chain_adds_silent [OF g jobs_quiet(3)]
  obtain l c4 where l: "on_kube (kube_list_pods (km_namespace (dch_meta ch)) ?labels) c3 = (l, c4)" by fastforce
  have c4: "cu_kube c4 = cu_kube c3\<lparr>kb_tick := Suc (kb_tick (cu_kube c3))\<rparr>"
    using on_kube_parts(1) [OF l] by (simp add: kube_list_pods_def)
  have lv: "l = kb_pods (cu_kube c3) (kb_tick (cu_kube c3)) (km_namespace (dch_meta ch)) ?labels"
    using on_kube_parts(1) [OF l] by (simp add: kube_list_pods_def)
  have l': "runs quiet (cu_kube c3) (cu_kube c4)" "kb_pods (cu_kube c4) = kb_pods (cu_kube c3)" unfolding c4 by simp_all
  have t: "adds chain_status c [] c3" "cu_store c3 = cu_store c" "adds chain_status c [] c4" "cu_store c4 = cu_store c"
    using adds_trans [OF t2(1) t3(1)] adds_trans [OF adds_trans [OF t2(1) t3(1)] adds_silent [OF l'(1)]]
      t2(2) t3(2) on_kube_parts(2) [OF l] by simp_all
  let ?k = "running_chain (km_name (un_meta job)) ch"
  have k: "dch_spec ?k = dch_spec ch" "dch_meta ?k = dch_meta ch" "ch_phase ?k = ''Running''" by (simp_all add: running_chain_def)
  consider e where "on_kube (fail_chain ch e) c2 = (out, c1)" | "c1 = c3" | "c1 = c4"
    | live where "g = Inr live" "is_volcano_job_complete live" "complete_chain m ?k c3 = (out, c1)"
    | e where "on_kube (fail_chain ?k e) c3 = (out, c1)" | e where "on_kube (fail_chain ?k e) c4 = (out, c1)"
    | pods where "l = Inr pods" "volcano_pods_done ?n pods = Inr True" "complete_chain m ?k c4 = (out, c1)"
    | "on_kube (wait_chain ?k) c4 = (out, c1)"
    using assms(1) u g l
    by (fastforce simp: reconcile_volcano_def job_def [symmetric] Let_def split: option.splits sum.splits if_splits)
  then show ?thesis
  proof cases
    case 1 from chain_ends_before [OF t2 fail_chain_ends_self [OF 1]] show ?thesis .
  next
    case 2 then show ?thesis using chain_ends_none t by simp
  next
    case 3 then show ?thesis using chain_ends_none t by simp
  next
    case 4
    have "kb_untyped (cu_kube c3) (kb_tick (cu_kube c2)) ?kind ?key = Inr live"
      using kube_get_value [OF on_kube_parts(1) [OF g, unfolded kube_get_untyped_def]] 4(1)
        runs_server(11) [OF jobs_quiet(3) [OF on_kube_parts(1) [OF g]]] key by simp
    then have "steps_ran (cu_kube c3) ch" using assms(2) 4(2) by (auto simp: steps_ran_def Let_def)
    from chain_ends_before [OF t(1,2) complete_running_ends [OF 4(3) this k(1,2)]] show ?thesis .
  next
    case 5 from chain_ends_before [OF t(1,2) fail_chain_ends [OF 5 k(1,2)]] show ?thesis .
  next
    case 6 from chain_ends_before [OF t(3,4) fail_chain_ends [OF 6 k(1,2)]] show ?thesis .
  next
    case 7
    have "steps_ran (cu_kube c4) ch" using assms(2) 7(1) volcano_pods_done_True [OF 7(2)] lv l'(2) by (auto simp: steps_ran_def Let_def)
    from chain_ends_before [OF t(3,4) complete_running_ends [OF 7(3) this k(1,2)]] show ?thesis .
  next
    case 8 from chain_ends_before [OF t(3,4) wait_chain_ends [OF 8 k]] show ?thesis .
  qed
qed

lemma run_chain_object_ends:
  assumes "run_chain_object m ch c = (out, c1)" shows "chain_ends m ch c c1"
proof -
  obtain q c2 where q: "on_world (snapshot_json (dcs_snapshot (dch_spec ch))) c = (q, c2)" by fastforce
  have t2: "adds chain_status c [] c2" "cu_store c2 = cu_store c" using on_world_parts [OF q] adds_same by auto
  obtain u c3 where u: "on_kube (ensure_config_map ch (snapshot_config_map ch (case q of Inr j \<Rightarrow> j | Inl _ \<Rightarrow> ''''))) c2 = (u, c3)" by fastforce
  note t3 = chain_adds_silent [OF u ensure_quiet(1)]
  have t: "adds chain_status c [] c3" "cu_store c3 = cu_store c" using adds_trans [OF t2(1) t3(1)] t2(2) t3(2) by simp_all
  let ?rt = "dcs_runtime (dch_spec ch)"
  consider e where "on_kube (fail_chain ch e) c = (out, c1)" | e where "on_kube (fail_chain ch e) c2 = (out, c1)"
    | e where "on_kube (fail_chain ch e) c3 = (out, c1)" | "?rt = ''openkruise''" "reconcile_openkruise m ch c3 = (out, c1)"
    | "?rt = ''volcano-init''" "reconcile_volcano m ch c3 = (out, c1)"
    | "?rt \<noteq> ''openkruise''" "?rt \<noteq> ''volcano-init''" "reconcile_init_chain m ch c3 = (out, c1)"
    using assms q u by (auto simp: run_chain_object_def Let_def split: sum.splits option.splits if_splits)
  then show ?thesis
  proof cases
    case 1 then show ?thesis by (rule fail_chain_ends_self)
  next
    case 2 from chain_ends_before [OF t2 fail_chain_ends_self [OF 2]] show ?thesis .
  next
    case 3 from chain_ends_before [OF t fail_chain_ends_self [OF 3]] show ?thesis .
  next
    case 4 from chain_ends_before [OF t reconcile_openkruise_ends [OF 4(2,1)]] show ?thesis .
  next
    case 5 from chain_ends_before [OF t reconcile_volcano_ends [OF 5(2,1)]] show ?thesis .
  next
    case 6 from chain_ends_before [OF t reconcile_init_chain_ends [OF 6(3,1,2)]] show ?thesis .
  qed
qed

lemma reconcile_chain_ends:
  assumes "reconcile_chain m key c = (out, c')" shows "\<exists>ch. chain_ends m ch c c'"
proof -
  obtain g c2 where g: "on_kube (kube_get kb_chain key) c = (g, c2)" by fastforce
  have t: "adds chain_status c [] c2" "cu_store c2 = cu_store c" using chain_adds_silent [OF g] runs_get by blast+
  have quiet: "adds chain_status c2 [] c' \<and> cu_store c' = cu_store c2"
    if "on_kube (put_then (UpdateChain k) o1) c2 = (out, c')" for k o1
    using chain_adds_silent [OF that] runs_put_then [where P = quiet] by fastforce
  show ?thesis
  proof (cases g)
    case (Inl e) then show ?thesis using assms g chain_ends_none t by (fastforce simp: reconcile_chain_def)
  next
    case (Inr ch)
    then have "reconcile_found_chain m ch c2 = (out, c')" using assms g by (simp add: reconcile_chain_def)
    then consider "on_kube (finalize_chain ch) c2 = (out, c')"
      | k o1 where "on_kube (put_then (UpdateChain k) o1) c2 = (out, c')" | "c' = c2"
      | e where "on_kube (fail_chain ch e) c2 = (out, c')" | "run_chain_object m ch c2 = (out, c')"
      by (auto simp: reconcile_found_chain_def split: if_splits)
    then have "chain_ends m ch c2 c'"
    proof cases
      case 1
      then consider k o1 where "on_kube (put_then (UpdateChain k) o1) c2 = (out, c')" | "c' = c2"
        by (cases "contains_finalizer chain_finalizer_name (dch_meta ch)") (auto simp: finalize_chain_def on_kube_def)
      then show ?thesis by cases (use quiet chain_ends_none adds_same in blast)+
    qed (use quiet chain_ends_none adds_same fail_chain_ends_self run_chain_object_ends in blast)+
    then show ?thesis using chain_ends_before [OF t] by blast
  qed
qed




section \<open>Sources that are lost\<close>

lemma run_without_source:
  assumes "run en wk s w = (Inr res, s', w')" "sn_status (ws_snapshot (wf_spec wk)) = None"
  shows "ss_source (sn_spec (ws_snapshot (wf_spec wk))) \<noteq> zero_source"
proof
  assume z: "ss_source (sn_spec (ws_snapshot (wf_spec wk))) = zero_source"
  have "\<exists>e. resolve_prefer_store (en_store en) (ws_snapshot (wf_spec wk)) '''' s w = (Inl e, s, w)"
    by (simp add: resolve_prefer_store_def resolved_id_def assms(2) load_data_prefer_store_def resolve_engine_content_def z
        zero_source_def resolve_content_def Let_def)
  then show False using assms(1) by (auto simp: run_def Let_def split: if_splits)
qed

lemma run_chain_without_inline:
  assumes "as_inline (ass_source (dcs_snapshot (dch_spec ch))) = None"
  shows "run en (chain_to_workflow ch) s w \<noteq> (Inr res, s', w')"
  using run_without_source [of en "chain_to_workflow ch" s w res s' w'] assms by (auto simp: chain_to_workflow_def Let_def zero_defs)

text \<open>
  A chain over a snapshot that is read from a path or fetched from a URI is not replayed: the
  conversion for the engine keeps only inline content, so such a chain, unless it runs Julia
  and the operator has none, never gets a status that says Completed, whatever its pods do.
\<close>

theorem chain_over_path_never_completes:
  assumes "reconcile_chain m key c = (out, c')" "said chain_status c = []" "ch \<in> set (said chain_status c')"
    and "as_inline (ass_source (dcs_snapshot (dch_spec ch))) = None" "\<not> skip_julia_replay m (Some ch) None"
  shows "ch_phase ch \<noteq> ''Completed''"
proof
  assume "ch_phase ch = ''Completed''"
  then have "chain_justified m c ch c'" using reconcile_chain_ends [OF assms(1)] assms(2,3) unfolding chain_ends_def adds_def by auto
  then obtain res where "chain_ran m c ch res c'" using assms(5) unfolding chain_justified_def by blast
  then obtain op w s' w' where "run (engine_for m op) (chain_to_workflow ch) (cu_store c op) w = (Inr res, s', w')"
    unfolding chain_ran_def by blast
  from notE [OF run_chain_without_inline [OF assms(4)] this] show False .
qed

lemma json_marshal_GMap: "json_marshal (GMap m) = Inr t \<Longrightarrow> \<exists>u. t = CHR ''{'' # u"
  by (auto simp: json_marshal_def split: option.splits)

lemma id_payload_text:
  assumes "json_marshal v = Inr t"
  shows "compute (id_payload ts v) = Inr (compute_str (''{'' @ json_string ''data'' @ '':'' @ t @ '','' @ json_string ''timeSlice'' @ '':'' @ json_string ts @ ''}''))"
  using assms by (auto simp: id_payload_def compute_def json_marshal_def sort_key_def compute_str_def split: option.splits)

text \<open>
  A chain that completed without replay has another identity than its snapshot has everywhere
  else: the status takes the identity of the snapshot's JSON as a string, the engine that of
  the content, and the two hashed texts differ.
\<close>

theorem runner_identity_differs:
  assumes "as_inline (ass_source (dcs_snapshot (dch_spec ch))) = Some inl"
    and "snapshot_json (dcs_snapshot (dch_spec ch)) w = (Inr json, w')"
  shows "\<exists>x y. x \<noteq> y \<and> runner_snapshot_id ch json = take 32 (compute_str x)
    \<and> snapshot_id (ass_time_slice (dcs_snapshot (dch_spec ch))) (GMap inl) = Inr (take 32 (compute_str y))"
proof -
  let ?ts = "ass_time_slice (dcs_snapshot (dch_spec ch))"
  let ?text = "\<lambda>t. ''{'' @ json_string ''data'' @ '':'' @ t @ '','' @ json_string ''timeSlice'' @ '':'' @ json_string ?ts @ ''}''"
  have j: "json_marshal (GMap inl) = Inr json"
    using assms by (auto simp: snapshot_json_def resolve_content_def engine_snap_spec_def to_snapshot_source_def Let_def
        split: sum.splits prod.splits)
  have "json_marshal (GStr json) = Inr (json_string json)" by (simp add: json_marshal_def)
  from id_payload_text [OF this] have r: "runner_snapshot_id ch json = take 32 (compute_str (?text (json_string json)))"
    by (simp only: runner_snapshot_id_def snapshot_id_def snapshot_id_hex_len_def sum.case)
  have e: "snapshot_id ?ts (GMap inl) = Inr (take 32 (compute_str (?text json)))"
    by (simp only: id_payload_text [OF j] snapshot_id_def snapshot_id_hex_len_def sum.case)
  have "hd json = CHR ''{''" using json_marshal_GMap [OF j] by (metis list.sel(1))
  moreover have "hd (json_string json) = CHR 0x22" unfolding json_string_def by (rule list.sel(1))
  ultimately have "hd json \<noteq> hd (json_string json)" by simp
  then have ne: "json_string json \<noteq> json" by metis
  have "?text (json_string json) \<noteq> ?text json" using ne unfolding same_append_eq append_same_eq .
  then show ?thesis using r e by (intro exI conjI)
qed

section \<open>A chain on concrete inputs\<close>

definition identity_chain_object :: "string \<Rightarrow> api_source \<Rightarrow> api_chain" where
  "identity_chain_object command src =
     \<lparr>dch_meta = (new_meta ''c'' ''ns'' [])\<lparr>km_finalizers := [chain_finalizer_name]\<rparr>,
      dch_spec = \<lparr>dcs_snapshot = empty_snap_spec\<lparr>ass_time_slice := ''t'', ass_source := src, ass_sealed := True\<rparr>,
        dcs_steps = [\<lparr>dst_name = ''a'', dst_image = '''', dst_command = command, dst_args = []\<rparr>],
        dcs_runtime = '''', dcs_store_path = ''/s.db'', dcs_runner_image = '''', dcs_node_selector = [], dcs_volcano_queue = ''''\<rparr>,
      dch_status = no_chain_status\<rparr>"

definition chain_server :: "api_chain \<Rightarrow> kube" where
  "chain_server ch = empty_kube\<lparr>kb_chain := \<lambda>_ _. Inr ch,
     kb_pod := \<lambda>_ _. Inr ((build_init_chain_pod '''' ch)\<lparr>pod_phase := ''Succeeded''\<rparr>)\<rparr>"


lemma identity_chain_parts:
  "identity_workflow (chain_to_workflow (identity_chain_object ''builtin:identity'' (empty_source\<lparr>as_inline := Some []\<rparr>)))"
  "open_for_chain cl (identity_chain_object command src) '''' = Inr (OpenSQLite ''/s.db'')"
  by (simp_all add: identity_chain_object_def identity_workflow_def chain_to_workflow_def step_domino_def zero_defs named_def Let_def
      empty_source_def empty_snap_spec_def open_for_chain_def config_from_chain_def
      open_resolved_def context_override_def open_backend_def wrap_open_def is_tsdb_path_def is_postgres_dsn_def has_prefix_def
      split: option.splits)

text \<open>A chain whose pod succeeded goes to the replay, its snapshot written to a config map.\<close>

lemma identity_chain_reconcile:
  assumes "snapshot_json (dcs_snapshot (dch_spec ch)) no_world = (Inr json, no_world)"
    "ch = identity_chain_object ''builtin:identity'' src"
  shows "\<exists>ch1 c1. reconcile_chain plain_manager key (idle_cluster (chain_server ch)) = complete_chain plain_manager ch1 c1
    \<and> dch_spec ch1 = dch_spec ch \<and> dch_meta ch1 = dch_meta ch \<and> said chain_status c1 = []
    \<and> cu_store c1 = (\<lambda>_. sq_empty) \<and> cu_open c1 = (\<lambda>_ _. None) \<and> cu_world c1 = no_world \<and> kb_write (cu_kube c1) = (\<lambda>_. None)"
proof -
  let ?c = "idle_cluster (chain_server ch)"
  have found: "\<not> km_deleting (dch_meta ch)" "contains_finalizer chain_finalizer_name (dch_meta ch)" "ch_phase ch = ''''"
    "dcs_steps (dch_spec ch) \<noteq> []" "dcs_runtime (dch_spec ch) = ''''"
    by (simp_all add: assms(2) identity_chain_object_def new_meta_def contains_finalizer_def no_chain_status_def)
  define c1 where "c1 = ?c\<lparr>cu_kube := (cu_kube ?c)\<lparr>kb_tick := 1\<rparr>\<rparr>"
  have get: "on_kube (kube_get kb_chain key) ?c = (Inr ch, c1)"
    by (simp add: on_kube_def kube_get_def c1_def idle_cluster_def chain_server_def empty_kube_def)
  have json: "on_world (snapshot_json (dcs_snapshot (dch_spec ch))) c1 = (Inr json, c1)"
    using assms(1) by (simp add: on_world_def c1_def idle_cluster_def)
  have valid: "validate_chain (Some ch) r = Inr ()" for r
    by (simp add: validate_chain_def assms(2) identity_chain_object_def is_julia_command_def has_prefix_def)
  have go: "reconcile_chain plain_manager key ?c = run_chain_object plain_manager ch c1"
    using get found by (simp add: reconcile_chain_def reconcile_found_chain_def)
  define c2 where "c2 = snd (on_kube (ensure_config_map ch (snapshot_config_map ch json)) c1)"
  have cm: "on_kube (ensure_config_map ch (snapshot_config_map ch json)) c1 = (None, c2)"
    by (simp add: c2_def on_kube_def ensure_config_map_def Let_def kube_get_def kube_put_def c1_def idle_cluster_def chain_server_def
        empty_kube_def api_not_found_def api_is_not_found_def)
  have c2: "said chain_status c2 = []" "cu_store c2 = (\<lambda>_. sq_empty)" "cu_open c2 = (\<lambda>_ _. None)" "cu_world c2 = no_world"
    "kb_write (cu_kube c2) = (\<lambda>_. None)"
    "kb_pod (cu_kube c2) = (\<lambda>_ _. Inr ((build_init_chain_pod '''' ch)\<lparr>pod_phase := ''Succeeded''\<rparr>))"
    by (simp_all add: c2_def on_kube_def ensure_config_map_def Let_def kube_get_def kube_put_def c1_def idle_cluster_def chain_server_def
        empty_kube_def api_not_found_def api_is_not_found_def said_def map_filter_def)
  have run: "run_chain_object plain_manager ch c1 = reconcile_init_chain plain_manager ch c2"
    using json valid cm found(5) by (simp add: run_chain_object_def)
  define c3 where "c3 = c2\<lparr>cu_kube := (cu_kube c2)\<lparr>kb_tick := Suc (Suc (kb_tick (cu_kube c2)))\<rparr>\<rparr>"
  define ch1 where "ch1 = running_chain (km_name (pod_meta (build_init_chain_pod '''' ch))) ch"
  have "reconcile_init_chain plain_manager ch c2 = complete_chain plain_manager ch1 c3"
    using c2(6) by (simp add: reconcile_init_chain_def on_kube_def ensure_pod_def kube_get_def Let_def after_steps_def
        init_chain_complete_def c3_def ch1_def plain_manager_def)
  moreover have "dch_spec ch1 = dch_spec ch" "dch_meta ch1 = dch_meta ch" by (simp_all add: ch1_def running_chain_def)
  ultimately show ?thesis using go run c2 by (intro exI [of _ ch1] exI [of _ c3]) (simp add: c3_def said_def)
qed


lemma identity_chain_run:
  assumes "ch = identity_chain_object ''builtin:identity'' src" "dch_spec ch1 = dch_spec ch" "dch_meta ch1 = dch_meta ch"
    "cu_open c1 = (\<lambda>_ _. None)"
  shows "\<exists>c2. complete_chain plain_manager ch1 c1 = finish_chain plain_manager ch1 (OpenSQLite ''/s.db'') c2
    \<and> adds chain_status c1 [] c2 \<and> cu_store c2 = cu_store c1 \<and> cu_world c2 = cu_world c1"
proof -
  obtain q c2 where o: "open_store (\<lambda>cl. open_for_chain cl ch1 (mg_store_root plain_manager)) (wrapf ''open store'') c1 = (q, c2)" by fastforce
  have "open_for_chain cl ch1 '''' = Inr (OpenSQLite ''/s.db'')" for cl
    using identity_chain_parts(2) [of cl] chain_cong(1) [OF assms(2,3)] assms(1) by simp
  then have "q = Inr (OpenSQLite ''/s.db'')" using o assms(4) by (auto simp: open_store_def Let_def plain_manager_def)
  moreover have "skip_julia_replay plain_manager (Some ch1) None = False" by simp
  ultimately show ?thesis using o open_store_frame [OF o] adds_silent [where f = chain_status] by (auto simp: complete_chain_def)
qed


lemma chain_over_path_never_completes_witness:
  "\<exists>ch out c' k. as_uri (ass_source (dcs_snapshot (dch_spec ch))) = ''s3:b''
    \<and> reconcile_chain plain_manager (''ns'', ''c'') (idle_cluster (chain_server ch)) = (out, c')
    \<and> said chain_status c' = [k] \<and> ch_phase k \<noteq> ''Completed''"
proof -
  define ch where "ch = identity_chain_object ''builtin:identity'' (empty_source\<lparr>as_uri := ''s3:b''\<rparr>)"
  have "\<exists>json. snapshot_json (dcs_snapshot (dch_spec ch)) no_world = (Inr json, no_world)"
    by (simp add: ch_def identity_chain_object_def snapshot_json_def engine_snap_spec_def to_snapshot_source_def resolve_content_def
        empty_source_def Let_def file_uri_path_def is_http_uri_def has_prefix_def json_marshal_def)
  then obtain json where "snapshot_json (dcs_snapshot (dch_spec ch)) no_world = (Inr json, no_world)" by blast
  from identity_chain_reconcile [OF this ch_def, of "(''ns'', ''c'')"] obtain ch1 c1 where
    q: "reconcile_chain plain_manager (''ns'', ''c'') (idle_cluster (chain_server ch)) = complete_chain plain_manager ch1 c1"
    "dch_spec ch1 = dch_spec ch" "dch_meta ch1 = dch_meta ch" "said chain_status c1 = []" "cu_open c1 = (\<lambda>_ _. None)" by blast
  obtain c2 where f: "complete_chain plain_manager ch1 c1 = finish_chain plain_manager ch1 (OpenSQLite ''/s.db'') c2"
    "adds chain_status c1 [] c2"
    using identity_chain_run [OF ch_def q(2,3,5)] by blast
  obtain r c3 where r: "run_workflow plain_manager (OpenSQLite ''/s.db'') (chain_to_workflow ch1) c2 = (r, c3)" by fastforce
  have src: "as_inline (ass_source (dcs_snapshot (dch_spec ch1))) = None" by (simp add: q(2) ch_def identity_chain_object_def empty_source_def)
  have skip: "skip_julia_replay plain_manager (Some a) None = False" for a by simp
  obtain e where e: "r = Inl e"
    using run_workflow_parts(1) [OF r] run_chain_without_inline [OF src, where en = "engine_for plain_manager (OpenSQLite ''/s.db'')"]
    by (cases r) auto
  obtain out c' where p: "on_kube (fail_chain ch1 e) c3 = (out, c')" by fastforce
  then have go: "reconcile_chain plain_manager (''ns'', ''c'') (idle_cluster (chain_server ch)) = (out, c')"
    using f(1) r e skip q(1) by (simp add: finish_chain_def)
  obtain k where k: "adds chain_status c3 [k] c'" "dch_spec k = dch_spec ch1" "dch_meta k = dch_meta ch1" using fail_chain_adds [OF p] by blast
  have said: "said chain_status c' = [k]" using k(1) f(2) q(4) run_workflow_parts(2) [OF r] by (simp add: adds_def said_def)
  have "said chain_status (idle_cluster (chain_server ch)) = []"
    by (simp add: said_def idle_cluster_def chain_server_def empty_kube_def map_filter_def)
  from chain_over_path_never_completes [OF go this, of k] said src k(2) skip
  have "ch_phase k \<noteq> ''Completed''" by simp
  moreover have "as_uri (ass_source (dcs_snapshot (dch_spec ch))) = ''s3:b''" by (simp add: ch_def identity_chain_object_def)
  ultimately show ?thesis using go said by blast
qed

lemma runner_identity_differs_witness:
  "\<exists>x y. x \<noteq> y \<and> runner_snapshot_id (identity_chain_object ''julia:m'' (empty_source\<lparr>as_inline := Some []\<rparr>)) ''{}'' = take 32 (compute_str x)
    \<and> snapshot_id ''t'' (GMap []) = Inr (take 32 (compute_str y))"
  using runner_identity_differs [of "identity_chain_object ''julia:m'' (empty_source\<lparr>as_inline := Some []\<rparr>)" "[]" no_world "''{}''" no_world]
  by (simp add: identity_chain_object_def snapshot_json_def engine_snap_spec_def to_snapshot_source_def resolve_content_def
        demo_marshal empty_source_def Let_def del: json_esc.simps)


end
