(* ===== verification/SnapshotCtl.thy ===== *)
theory SnapshotCtl
  imports Operator
begin

text \<open>
  The controllers of snapshots (\<open>internal/controller/snapshot_controller.go\<close>) and of compute
  contexts (\<open>computecontext_controller.go\<close>).  A snapshot is sealed into the store it resolves to
  and its status names the identity; a compute context is pinged and its status says whether
  its store answers.  The lemmas say what a status that says \<open>Sealed\<close> rests on and when a context
  is reported as degraded.
\<close>

section \<open>Snapshots\<close>

abbreviation set_snap_status :: "(api_snap_status \<Rightarrow> api_snap_status) \<Rightarrow> api_snapshot \<Rightarrow> api_snapshot" where
  "set_snap_status f sn \<equiv> sn\<lparr>asn_status := f (asn_status sn)\<rparr>"

definition plain_condition :: "bool \<Rightarrow> string \<Rightarrow> string \<Rightarrow> int \<Rightarrow> k8s_condition" where
  "plain_condition ok reason msg now = \<lparr>kc_type = ''Ready'', kc_status = (if ok then ''True'' else ''False''),
     kc_observed_generation = 0, kc_last_transition = now, kc_reason = reason, kc_message = msg\<rparr>"

definition update_snap_status :: "api_snapshot \<Rightarrow> string \<Rightarrow> string \<Rightarrow> string \<Rightarrow> outcome \<Rightarrow> kube \<Rightarrow> outcome \<times> kube" where
  "update_snap_status sn phase i msg =
     put_then (UpdateSnapshotStatus (set_snap_status (\<lambda>s. s\<lparr>ast_phase := phase, ast_snapshot_id := i, ast_message := msg\<rparr>) sn))"

text \<open>The error of the status update is dropped.\<close>

definition fail_snapshot :: "api_snapshot \<Rightarrow> err \<Rightarrow> ('s, 'b) cluster \<Rightarrow> outcome \<times> ('s, 'b) cluster" where
  "fail_snapshot sn e c =
     (let (now, c1) = on_world time_now c;
          sn1 = set_snap_status (\<lambda>s. s\<lparr>ast_phase := ''Error'', ast_message := err_msg e,
            ast_conditions := [plain_condition False ''Error'' (err_msg e) now]\<rparr>) sn
      in ((no_requeue, Some e), snd (on_kube (kube_put (UpdateSnapshotStatus sn1)) c1)))"

definition sealed_snapshot :: "string \<Rightarrow> int \<Rightarrow> api_snapshot \<Rightarrow> api_snapshot" where
  "sealed_snapshot i now sn =
     (let msg = ''sealed snapshot '' @ i
      in set_snap_status (\<lambda>s. s\<lparr>ast_observed_generation := km_generation (asn_meta sn), ast_phase := ''Sealed'',
           ast_snapshot_id := i, ast_sealed_at := Some now, ast_message := msg,
           ast_conditions := [plain_condition True ''Sealed'' msg now]\<rparr>) sn)"

definition seal_snapshot :: "('s, 'b) manager \<Rightarrow> api_snapshot \<Rightarrow> ('s, 'b) cluster \<Rightarrow> outcome \<times> ('s, 'b) cluster" where
  "seal_snapshot m sn c =
     (case open_store (\<lambda>cl. open_for_snapshot cl sn (mg_store_root m)) (\<lambda>e. e) c of
        (Inl e, c1) \<Rightarrow> fail_snapshot sn (wrapf ''open store'' e) c1
      | (Inr op, c1) \<Rightarrow>
      (case on_store op (seal_to_backend (mg_backend m op) (engine_snap_spec (asn_spec sn))) c1 of
        (Inl e, c2) \<Rightarrow>
          if is_source_not_ready e then
            on_kube (update_snap_status sn ''Pending'' '''' (err_msg e) (requeue_after 5000000000, None)) c2
          else fail_snapshot sn e c2
      | (Inr i, c2) \<Rightarrow>
          let (now, c3) = on_world time_now c2
          in on_kube (put_then (UpdateSnapshotStatus (sealed_snapshot i now sn)) (no_requeue, None)) c3))"

definition reconcile_snapshot ::
  "('s, 'b) manager \<Rightarrow> object_key \<Rightarrow> ('s, 'b) cluster \<Rightarrow> outcome \<times> ('s, 'b) cluster" where
  "reconcile_snapshot m key c =
     (case on_kube (kube_get kb_snapshot key) c of
        (Inl e, c1) \<Rightarrow> ((no_requeue, if api_is_not_found e then None else Some e), c1)
      | (Inr sn, c1) \<Rightarrow>
          if \<not> ass_sealed (asn_spec sn) then
            on_kube (update_snap_status sn ''Pending'' '''' ''waiting for spec.sealed=true'' (no_requeue, None)) c1
          else if ast_observed_generation (asn_status sn) = km_generation (asn_meta sn)
            \<and> ast_phase (asn_status sn) = ''Sealed'' \<and> ast_snapshot_id (asn_status sn) \<noteq> ''''
          then ((no_requeue, None), c1)
          else (case validate (engine_snap_spec (asn_spec sn)) of
              Inl e \<Rightarrow> fail_snapshot sn e c1
            | Inr _ \<Rightarrow> seal_snapshot m sn c1))"

section \<open>Compute contexts\<close>

text \<open>
  Numbers as they are written: the members of an object with the text of each value, and the
  decoding of a 64-bit integer field, which takes no fraction and no exponent.
\<close>

function json_raw_members :: "int \<Rightarrow> string \<Rightarrow> ((string \<times> string) list \<times> string) option" where
  "json_raw_members d s =
     (case expect (CHR 0x22) s of
        None \<Rightarrow> None
      | Some s1 \<Rightarrow>
         (case json_str_body s1 of
            None \<Rightarrow> None
          | Some (k, s2) \<Rightarrow>
             (case expect (CHR '':'') s2 of
                None \<Rightarrow> None
              | Some s3 \<Rightarrow>
                 (case json_val d s3 of
                    None \<Rightarrow> None
                  | Some (_, r) \<Rightarrow>
                     (let raw = take (length (skip_ws s3) - length r) (skip_ws s3)
                      in case expect (CHR '','') r of
                        Some r2 \<Rightarrow>
                          (if length r2 < length s
                           then map_option (\<lambda>(kvs, q). ((k, raw) # kvs, q)) (json_raw_members d r2) else None)
                      | None \<Rightarrow> map_option (\<lambda>q. ([(k, raw)], q)) (expect (CHR ''}'') r))))))"
  by pat_completeness auto
termination by (relation "measure (length \<circ> snd)") auto

declare json_raw_members.simps [simp del]

definition raw_int :: "string \<Rightarrow> int res" where
  "raw_int raw =
     (let (neg, ds) = (case raw of c # t \<Rightarrow> if c = CHR ''-'' then (True, t) else (False, raw) | [] \<Rightarrow> (False, []));
          n = int (digits_val ds); i = (if neg then - n else n)
      in if ds \<noteq> [] \<and> list_all is_digit ds \<and> - (2 ^ 63) \<le> i \<and> i < 2 ^ 63 then Inr i else Inl json_error)"

fun raw_int_field :: "string \<Rightarrow> int \<Rightarrow> (string \<times> string) list \<Rightarrow> int res" where
  "raw_int_field name i [] = Inr i"
| "raw_int_field name i ((k, raw) # kvs) =
     (if to_lower k = to_lower name \<and> raw \<noteq> ''null''
      then bindr (raw_int raw) (\<lambda>i. raw_int_field name i kvs) else raw_int_field name i kvs)"

text \<open>\<open>json.NewDecoder(body).Decode(&stats)\<close>: the first value of the body.\<close>

definition decode_stats :: "string \<Rightarrow> (int \<times> int) res" where
  "decode_stats body =
     (case json_val json_max_depth body of
        None \<Rightarrow> Inl json_error
      | Some (GNil, _) \<Rightarrow> Inr (0, 0)
      | Some (GMap m, _) \<Rightarrow>
          if m = [] then Inr (0, 0)
          else (case json_raw_members (json_max_depth - 1) (drop 1 (skip_ws body)) of
              None \<Rightarrow> Inl json_error
            | Some (kvs, _) \<Rightarrow>
                bindr (raw_int_field ''snapshots'' 0 kvs) (\<lambda>s.
                bindr (raw_int_field ''memo_entries'' 0 kvs) (\<lambda>e. Inr (s, e))))
      | Some _ \<Rightarrow> Inl json_error)"

definition ping_tsdb :: "string \<Rightarrow> world \<Rightarrow> err option \<times> world" where
  "ping_tsdb endpoint w =
     (case http_get (endpoint @ ''/healthz'') w of
        (HttpErr e, w1) \<Rightarrow> (Some e, w1)
      | (HttpResp status _, w1) \<Rightarrow> (if status \<noteq> 200 then Some (errorf (''status '' @ int_str status)) else None, w1))"

definition fetch_tsdb_stats :: "string \<Rightarrow> world \<Rightarrow> (int \<times> int) res \<times> world" where
  "fetch_tsdb_stats endpoint w =
     (case http_get (endpoint @ ''/v1/stats'') w of
        (HttpErr e, w1) \<Rightarrow> (Inl e, w1)
      | (HttpResp status body, w1) \<Rightarrow>
          (if status \<noteq> 200 then Inl (errorf (''status '' @ int_str status))
           else (case body of Inl e \<Rightarrow> Inl e | Inr text \<Rightarrow> decode_stats text), w1))"

definition context_status :: "string \<Rightarrow> string \<Rightarrow> int \<times> int \<Rightarrow> string \<Rightarrow> int \<Rightarrow> api_context \<Rightarrow> api_context" where
  "context_status phase endpoint counts msg now x = x\<lparr>acx_status := (acx_status x)
     \<lparr>act_phase := phase, act_store_endpoint := endpoint, act_snapshot_count := fst counts, act_cache_entries := snd counts,
      act_conditions := [plain_condition (phase = ''Ready'') phase msg now]\<rparr>\<rparr>"

definition put_context_status ::
  "string \<Rightarrow> string \<Rightarrow> int \<times> int \<Rightarrow> string \<Rightarrow> api_context \<Rightarrow> outcome \<Rightarrow> ('s, 'b) cluster \<Rightarrow> outcome \<times> ('s, 'b) cluster" where
  "put_context_status phase endpoint counts msg x out c =
     (let (now, c1) = on_world time_now c
      in on_kube (put_then (UpdateContextStatus (context_status phase endpoint counts msg now x)) out) c1)"

definition reconcile_context :: "object_key \<Rightarrow> ('s, 'b) cluster \<Rightarrow> outcome \<times> ('s, 'b) cluster" where
  "reconcile_context key c =
     (case on_kube (kube_get kb_context key) c of
        (Inl e, c1) \<Rightarrow> ((no_requeue, if api_is_not_found e then None else Some e), c1)
      | (Inr x, c1) \<Rightarrow>
          let storeType = (if acs_store_type (acx_spec x) = '''' then ''sqlite'' else acs_store_type (acx_spec x));
              endpoint = (if storeType = ''tsdb'' \<and> acs_store_endpoint (acx_spec x) = '''' then default_tsdb_endpoint
                          else acs_store_endpoint (acx_spec x))
          in if storeType = ''tsdb'' then
               (case on_world (ping_tsdb endpoint) c1 of
                  (Some e, c2) \<Rightarrow> put_context_status ''Degraded'' endpoint (0, 0) (''tsdb unreachable: '' @ err_msg e) x
                      (requeue_after 30000000000, None) c2
                | (None, c2) \<Rightarrow>
                    (case on_world (fetch_tsdb_stats endpoint) c2 of
                       (r, c3) \<Rightarrow> put_context_status ''Ready'' endpoint (case r of Inr counts \<Rightarrow> counts | Inl _ \<Rightarrow> (0, 0))
                           ''ready'' x (requeue_after 60000000000, None) c3))
             else put_context_status ''Ready'' endpoint (0, 0) ''ready'' x (requeue_after 60000000000, None) c1)"


section \<open>What Sealed rests on\<close>

fun snapshot_status :: "kube_write \<Rightarrow> api_snapshot option" where
  "snapshot_status (UpdateSnapshotStatus sn) = Some sn"
| "snapshot_status _ = None"

abbreviation sn_phase :: "api_snapshot \<Rightarrow> string" where
  "sn_phase sn \<equiv> ast_phase (asn_status sn)"

lemma seal_to_backend_seals:
  assumes "sq_inv s" "seal_to_backend sqlite_backend spec s w = (r, s', w')"
  shows "sqlite.keeps s s'" "r = Inr i \<Longrightarrow> \<exists>content data. snapshot_id (ss_time_slice spec) content = Inr i
    \<and> sq_snap s' i = Some (ss_time_slice spec, data, True)"
proof -
  obtain q w1 where q: "seal_payload spec w = (q, w1)" by fastforce
  have "sqlite.keeps s s' \<and> (r = Inr i \<longrightarrow> (\<exists>content data. snapshot_id (ss_time_slice spec) content = Inr i
    \<and> sq_snap s' i = Some (ss_time_slice spec, data, True)))"
  proof (cases q)
    case (Inl e) then show ?thesis using assms q sqlite.keeps_refl by (auto simp: seal_to_backend_def)
  next
    case (Inr p)
    obtain j payload where p: "p = (j, payload)" by fastforce
    obtain u s1 where u: "b_save_snapshot sqlite_backend j (ss_time_slice spec) payload True s = (u, s1)" by fastforce
    have r: "s' = s1" "r = (case u of Inl e \<Rightarrow> Inl e | Inr _ \<Rightarrow> Inr j)"
      using assms(2) q Inr p u by (auto simp: seal_to_backend_def save_snapshot_payload_def sqlite_backend_def split: sum.splits)
    show ?thesis using r sqlite.save_snapshot_keeps [OF assms(1) _ u] sqlite.save_snapshot_sound [OF assms(1), of j]
        seal_payload_id [of spec w j payload w1] q Inr p u by (cases u) auto
  qed
  then show "sqlite.keeps s s'" "r = Inr i \<Longrightarrow> \<exists>content data. snapshot_id (ss_time_slice spec) content = Inr i
    \<and> sq_snap s' i = Some (ss_time_slice spec, data, True)" by simp_all
qed

text \<open>The snapshot is sealed under that identity in the store it resolves to.\<close>

definition sealed_in_store ::
  "(sqlite, 'b) manager \<Rightarrow> (sqlite, 'b) cluster \<Rightarrow> api_snapshot \<Rightarrow> (sqlite, 'b) cluster \<Rightarrow> bool" where
  "sealed_in_store m c sn c' \<longleftrightarrow> (\<exists>op kb content data. runs (\<lambda>_. True) (cu_kube c) kb
     \<and> open_for_snapshot (Some (context_client kb)) sn (mg_store_root m) = Inr op
     \<and> snapshot_id (ass_time_slice (asn_spec sn)) content = Inr (ast_snapshot_id (asn_status sn))
     \<and> sq_snap (cu_store c' op) (ast_snapshot_id (asn_status sn)) = Some (ass_time_slice (asn_spec sn), data, True))"

definition snapshot_ends :: "(sqlite, 'b) manager \<Rightarrow> (sqlite, 'b) cluster \<Rightarrow> (sqlite, 'b) cluster \<Rightarrow> bool" where
  "snapshot_ends m c c' \<longleftrightarrow> stores_keep c c' \<and> (\<exists>l. adds snapshot_status c l c' \<and> (l = [] \<or> (\<exists>sn. l = [sn]
     \<and> (sn_phase sn = ''Pending'' \<or> sn_phase sn = ''Error'' \<or> sn_phase sn = ''Sealed'' \<and> sealed_in_store m c sn c'))))"

lemma snapshot_ends_before:
  assumes "adds snapshot_status c [] c1" "stores_keep c c1" "snapshot_ends m c1 c2" shows "snapshot_ends m c c2"
proof -
  have "sealed_in_store m c1 sn c2 \<Longrightarrow> sealed_in_store m c sn c2" for sn
    using runs_trans [OF adds_server [OF assms(1)]] unfolding sealed_in_store_def by blast
  moreover obtain l where l: "stores_keep c1 c2" "adds snapshot_status c1 l c2" "l = [] \<or> (\<exists>sn. l = [sn]
     \<and> (sn_phase sn = ''Pending'' \<or> sn_phase sn = ''Error'' \<or> sn_phase sn = ''Sealed'' \<and> sealed_in_store m c1 sn c2))"
    using assms(3) unfolding snapshot_ends_def by blast
  ultimately show ?thesis using adds_trans [OF assms(1) l(2)] stores_keep_trans [OF assms(2) l(1)] unfolding snapshot_ends_def
    by (intro conjI exI [of _ l]) auto
qed

lemma fail_snapshot_ends:
  assumes "sqlite_stores m c" "fail_snapshot sn e c = (out, c1)" shows "snapshot_ends m c c1"
proof -
  obtain now c2 where n: "on_world time_now c = (now, c2)" by fastforce
  define sn1 where "sn1 = set_snap_status (\<lambda>s. s\<lparr>ast_phase := ''Error'', ast_message := err_msg e,
            ast_conditions := [plain_condition False ''Error'' (err_msg e) now]\<rparr>) sn"
  obtain u where u: "on_kube (kube_put (UpdateSnapshotStatus sn1)) c2 = (u, c1)"
    using assms(2) n by (cases "on_kube (kube_put (UpdateSnapshotStatus sn1)) c2") (auto simp: fail_snapshot_def sn1_def)
  have "adds snapshot_status c2 [sn1] c1" by (rule adds_put [OF on_kube_parts(1) [OF u]]) simp
  then have "adds snapshot_status c [sn1] c1"
    using adds_trans [OF adds_same [OF on_world_parts(1) [OF n]], of snapshot_status "[sn1]" c1] by simp
  moreover have "stores_keep c c1"
    using stores_keep_same [OF assms(1)] on_kube_parts(2) [OF u] on_world_parts(2) [OF n] by simp
  moreover have "sn_phase sn1 = ''Error''" by (simp add: sn1_def)
  ultimately show ?thesis unfolding snapshot_ends_def by blast
qed

lemma pending_snapshot_ends:
  assumes "sqlite_stores m c" "on_kube (update_snap_status sn ''Pending'' i msg o1) c = (out, c1)" shows "snapshot_ends m c c1"
proof -
  define sn1 where "sn1 = set_snap_status (\<lambda>s. s\<lparr>ast_phase := ''Pending'', ast_snapshot_id := i, ast_message := msg\<rparr>) sn"
  have "adds snapshot_status c [sn1] c1" "cu_store c1 = cu_store c"
    using adds_put_then [OF assms(2) [unfolded update_snap_status_def], of snapshot_status] by (simp_all add: sn1_def)
  then show ?thesis using stores_keep_same [OF assms(1)] unfolding snapshot_ends_def
    by (intro conjI exI [of _ "[sn1]"]) (auto simp: sn1_def)
qed

lemma snapshot_ends_none: "sqlite_stores m c \<Longrightarrow> adds snapshot_status c [] c1 \<Longrightarrow> cu_store c1 = cu_store c \<Longrightarrow> snapshot_ends m c c1"
  unfolding snapshot_ends_def using stores_keep_same by blast

lemma sealed_snapshot_cong:
  "open_for_snapshot cl (sealed_snapshot i now sn) dir = open_for_snapshot cl sn dir" "asn_spec (sealed_snapshot i now sn) = asn_spec sn"
  by (simp_all add: sealed_snapshot_def open_for_snapshot_def config_from_snapshot_def Let_def)

lemma seal_snapshot_ends:
  assumes st: "sqlite_stores m c" and "seal_snapshot m sn c = (out, c1)" shows "snapshot_ends m c c1"
proof -
  obtain o1 c2 where o: "open_store (\<lambda>cl. open_for_snapshot cl sn (mg_store_root m)) (\<lambda>e. e) c = (o1, c2)" by fastforce
  note fr = open_store_frame [OF o]
  have t2: "adds snapshot_status c [] c2" "stores_keep c c2" "sqlite_stores m c2"
    using fr st stores_keep_same [OF st] by (auto intro: adds_silent simp: sqlite_stores_def)
  show ?thesis
  proof (cases o1)
    case (Inl e)
    then have "fail_snapshot sn (wrapf ''open store'' e) c2 = (out, c1)" using assms(2) o by (simp add: seal_snapshot_def)
    from snapshot_ends_before [OF t2(1,2) fail_snapshot_ends [OF t2(3) this]] show ?thesis .
  next
    case op: (Inr op)
    obtain q c3 where q: "on_store op (seal_to_backend (mg_backend m op) (engine_snap_spec (asn_spec sn))) c2 = (q, c3)" by fastforce
    note sp = on_store_parts [OF q]
    have inv: "sq_inv (cu_store c2 op)" "mg_backend m op = sqlite_backend" using t2(3) by (simp_all add: sqlite_stores_def)
    note seals = seal_to_backend_seals [OF inv(1) sp(1) [unfolded inv(2)]]
    have t3: "adds snapshot_status c [] c3" "stores_keep c c3" "sqlite_stores m c3"
      using adds_trans [OF t2(1) adds_same [OF sp(2)]] stores_keep_trans [OF t2(2) stores_keep_one [OF t2(3) sp(3) seals(1)]]
        stores_keep_stores [OF st] by simp_all
    show ?thesis
    proof (cases q)
      case (Inl e)
      then have "fail_snapshot sn e c3 = (out, c1)
          \<or> on_kube (update_snap_status sn ''Pending'' '''' (err_msg e) (requeue_after 5000000000, None)) c3 = (out, c1)"
        using assms(2) o op q by (auto simp: seal_snapshot_def split: if_splits)
      then show ?thesis using fail_snapshot_ends [OF t3(3)] pending_snapshot_ends [OF t3(3)] snapshot_ends_before [OF t3(1,2)] by blast
    next
      case (Inr i)
      obtain now c4 where n: "on_world time_now c3 = (now, c4)" by fastforce
      define sn1 where "sn1 = sealed_snapshot i now sn"
      have p: "on_kube (put_then (UpdateSnapshotStatus sn1) (no_requeue, None)) c4 = (out, c1)"
        using assms(2) o op q Inr n by (simp add: seal_snapshot_def sn1_def)
      have a: "adds snapshot_status c [sn1] c1" "cu_store c1 = cu_store c3"
        using adds_put_then [OF p, of snapshot_status] adds_trans [OF adds_trans [OF t3(1) adds_same [OF on_world_parts(1) [OF n]]], of "[sn1]" c1]
          on_world_parts(2) [OF n] by simp_all
      have "stores_keep c c1" using t3(2) a(2) by (simp add: stores_keep_def)
      moreover have "sealed_in_store m c sn1 c1"
      proof -
        have "ast_snapshot_id (asn_status sn1) = i" by (simp add: sn1_def sealed_snapshot_def Let_def)
        then show ?thesis using seals(2) [OF Inr] open_store_Inr [OF o [unfolded op]] a(2)
          unfolding sealed_in_store_def sn1_def sealed_snapshot_cong by (auto simp: engine_snap_spec_def intro!: exI [of _ op])
      qed
      moreover have "sn_phase sn1 = ''Sealed''" by (simp add: sn1_def sealed_snapshot_def Let_def)
      ultimately show ?thesis using a(1) unfolding snapshot_ends_def by blast
    qed
  qed
qed

lemma reconcile_snapshot_ends:
  assumes st: "sqlite_stores m c" and "reconcile_snapshot m key c = (out, c')" shows "snapshot_ends m c c'"
proof -
  obtain g c2 where g: "on_kube (kube_get kb_snapshot key) c = (g, c2)" by fastforce
  have t: "adds snapshot_status c [] c2" "stores_keep c c2" "sqlite_stores m c2"
    using adds_silent [OF runs_get [OF on_kube_parts(1) [OF g]]] on_kube_parts(2) [OF g] stores_keep_same [OF st] st
    by (simp_all add: sqlite_stores_def)
  have "snapshot_ends m c2 c'"
  proof (cases g)
    case (Inl e) then show ?thesis using assms(2) g snapshot_ends_none [OF t(3) adds_same] by (simp add: reconcile_snapshot_def)
  next
    case (Inr sn)
    then consider "on_kube (update_snap_status sn ''Pending'' '''' ''waiting for spec.sealed=true'' (no_requeue, None)) c2 = (out, c')"
      | "c' = c2" | e where "fail_snapshot sn e c2 = (out, c')" | "seal_snapshot m sn c2 = (out, c')"
      using assms(2) g by (auto simp: reconcile_snapshot_def split: if_splits sum.splits)
    then show ?thesis
      by cases (use snapshot_ends_none [OF t(3) adds_same] pending_snapshot_ends [OF t(3)] fail_snapshot_ends [OF t(3)]
        seal_snapshot_ends [OF t(3)] in blast)+
  qed
  from snapshot_ends_before [OF t(1,2) this] show ?thesis .
qed



definition plain_snapshot :: "bool \<Rightarrow> api_snapshot" where
  "plain_snapshot sealed = \<lparr>asn_meta = (new_meta ''s'' ''ns'' [])\<lparr>km_generation := 1\<rparr>,
     asn_spec = empty_snap_spec\<lparr>ass_time_slice := ''t'', ass_source := empty_source\<lparr>as_inline := Some []\<rparr>, ass_sealed := sealed\<rparr>,
     asn_status = \<lparr>ast_observed_generation = 0, ast_phase = '''', ast_snapshot_id = '''', ast_sealed_at = None,
       ast_message = '''', ast_conditions = []\<rparr>\<rparr>"


section \<open>What Degraded rests on\<close>

fun context_write :: "kube_write \<Rightarrow> api_context option" where
  "context_write (UpdateContextStatus x) = Some x"
| "context_write _ = None"

definition pinged_endpoint :: "api_context \<Rightarrow> string" where
  "pinged_endpoint x = (if acs_store_endpoint (acx_spec x) = '''' then default_tsdb_endpoint else acs_store_endpoint (acx_spec x))"

lemma put_context_status_adds:
  assumes "put_context_status phase endpoint counts msg x o1 c = (out, c1)"
  shows "\<exists>x'. adds context_write c [x'] c1 \<and> cu_store c1 = cu_store c \<and> acx_spec x' = acx_spec x
    \<and> act_phase (acx_status x') = phase \<and> act_store_endpoint (acx_status x') = endpoint"
proof -
  obtain now c2 where n: "on_world time_now c = (now, c2)" by fastforce
  let ?x = "context_status phase endpoint counts msg now x"
  have "on_kube (put_then (UpdateContextStatus ?x) o1) c2 = (out, c1)" using assms n by (simp add: put_context_status_def)
  from adds_put_then [OF this, of context_write ?x] adds_trans [OF adds_same [OF on_world_parts(1) [OF n]], of context_write "[?x]" c1]
  show ?thesis using on_world_parts(2) [OF n] by (intro exI [of _ ?x]) (simp add: context_status_def)
qed

text \<open>
  A compute context reports the health of the store its workflows open.  A reconcile that finds
  the context writes one status: Degraded when the context is of type tsdb and its health check
  fails, Ready otherwise; and for a context of type tsdb the endpoint in the status, the one
  that was pinged, is the endpoint that resolving any store through this context opens.
\<close>

theorem context_status_follows_health:
  assumes "reconcile_context key c = (out, c')" "kb_context (cu_kube c) (kb_tick (cu_kube c)) key = Inr x"
  shows "\<exists>x'. said context_write c' = said context_write c @ [x'] \<and> acx_spec x' = acx_spec x \<and> cu_store c' = cu_store c
    \<and> act_phase (acx_status x') = (if acs_store_type (acx_spec x) = ''tsdb'' \<and> fst (ping_tsdb (pinged_endpoint x) (cu_world c)) \<noteq> None
        then ''Degraded'' else ''Ready'')
    \<and> (acs_store_type (acx_spec x) = ''tsdb'' \<longrightarrow> act_store_endpoint (acx_status x') = pinged_endpoint x
        \<and> (\<forall>cfg. rc_context_ref cfg \<noteq> '''' \<longrightarrow> open_resolved (Some (\<lambda>_. Inr x')) cfg = Inr (OpenTSDBClient (pinged_endpoint x))))"
proof -
  let ?tsdb = "acs_store_type (acx_spec x) = ''tsdb''"
  obtain c1 where g: "on_kube (kube_get kb_context key) c = (Inr x, c1)" "cu_world c1 = cu_world c" "cu_store c1 = cu_store c"
    using assms(2) by (auto simp: on_kube_def kube_get_def)
  have t1: "adds context_write c [] c1" by (rule adds_silent [OF runs_get [OF on_kube_parts(1) [OF g(1)]]])
  obtain p c2 where p: "on_world (ping_tsdb (pinged_endpoint x)) c1 = (p, c2)" by fastforce
  obtain r c3 where r: "on_world (fetch_tsdb_stats (pinged_endpoint x)) c2 = (r, c3)" by fastforce
  have pv: "fst (ping_tsdb (pinged_endpoint x) (cu_world c)) = p" using on_world_parts(3) [OF p] g(2) by simp
  have same: "adds context_write c [] c2" "adds context_write c [] c3" "cu_store c2 = cu_store c" "cu_store c3 = cu_store c"
    using adds_trans [OF t1 adds_same [OF on_world_parts(1) [OF p]]]
      adds_trans [OF adds_trans [OF t1 adds_same [OF on_world_parts(1) [OF p]]] adds_same [OF on_world_parts(1) [OF r]]]
      on_world_parts(2) [OF p] on_world_parts(2) [OF r] g(3) by simp_all
  obtain phase endpoint counts msg o1 c4 where put: "put_context_status phase endpoint counts msg x o1 c4 = (out, c')"
    "adds context_write c [] c4" "cu_store c4 = cu_store c" "phase = (if ?tsdb \<and> p \<noteq> None then ''Degraded'' else ''Ready'')"
    "?tsdb \<Longrightarrow> endpoint = pinged_endpoint x"
  proof (cases ?tsdb)
    case True
    then have e: "reconcile_context key c = (case (p, c2) of
        (Some e, c2) \<Rightarrow> put_context_status ''Degraded'' (pinged_endpoint x) (0, 0) (''tsdb unreachable: '' @ err_msg e) x
          (requeue_after 30000000000, None) c2
      | (None, c2) \<Rightarrow> put_context_status ''Ready'' (pinged_endpoint x) (case r of Inr counts \<Rightarrow> counts | Inl _ \<Rightarrow> (0, 0))
          ''ready'' x (requeue_after 60000000000, None) c3)"
      using g p r by (auto simp: reconcile_context_def pinged_endpoint_def Let_def split: option.splits)
    show thesis
    proof (cases p)
      case None then show thesis using that [OF _ same(2,4)] e assms(1) True by simp
    next
      case (Some er) then show thesis using that [OF _ same(1,3)] e assms(1) True by simp
    qed
  next
    case False
    have "\<exists>ep. put_context_status ''Ready'' ep (0, 0) ''ready'' x (requeue_after 60000000000, None) c1 = (out, c')"
      using g(1) assms(1) False by (auto simp: reconcile_context_def Let_def split: if_splits)
    then show thesis using that [OF _ t1 g(3)] False by auto
  qed
  obtain x' where x': "adds context_write c4 [x'] c'" "cu_store c' = cu_store c4" "acx_spec x' = acx_spec x"
    "act_phase (acx_status x') = phase" "act_store_endpoint (acx_status x') = endpoint"
    using put_context_status_adds [OF put(1)] by blast
  have "pinged_endpoint x \<noteq> ''''" by (simp add: pinged_endpoint_def default_tsdb_endpoint_def)
  then have "open_resolved (Some (\<lambda>_. Inr x')) cfg = Inr (OpenTSDBClient (pinged_endpoint x))" if "?tsdb" "rc_context_ref cfg \<noteq> ''''" for cfg
    using that x'(3,5) put(5) [OF that(1)]
    by (simp add: open_resolved_def context_override_def open_backend_def) (simp add: pinged_endpoint_def)
  moreover have "said context_write c' = said context_write c @ [x']"
    using adds_trans [OF put(2) x'(1)] by (simp add: adds_def)
  ultimately show ?thesis using x'(2-5) put(3-5) pv by (intro exI [of _ x']) simp
qed

lemma context_status_follows_health_witness:
  "\<exists>x x' out c'. acs_store_type (acx_spec x) = ''tsdb''
     \<and> reconcile_context ('''', ''a'') (idle_cluster (empty_kube\<lparr>kb_context := \<lambda>_ _. Inr x\<rparr>)) = (out, c')
     \<and> said context_write c' = [x'] \<and> act_phase (acx_status x') = ''Degraded''
     \<and> act_store_endpoint (acx_status x') = default_tsdb_endpoint"
proof -
  define x where "x = \<lparr>acx_meta = new_meta ''a'' '''' [],
    acx_spec = \<lparr>acs_node_name = ''n'', acs_store_path = '''', acs_store_type = ''tsdb'', acs_store_endpoint = '''', acs_data_path = ''''\<rparr>,
    acx_status = \<lparr>act_phase = '''', act_store_endpoint = '''', act_snapshot_count = 0, act_cache_entries = 0, act_conditions = []\<rparr>\<rparr>"
  let ?c = "idle_cluster (empty_kube\<lparr>kb_context := \<lambda>_ _. Inr x\<rparr>)"
  obtain out c' where r: "reconcile_context ('''', ''a'') ?c = (out, c')" by fastforce
  have x: "kb_context (cu_kube ?c) (kb_tick (cu_kube ?c)) ('''', ''a'') = Inr x" "acs_store_type (acx_spec x) = ''tsdb''"
    "pinged_endpoint x = default_tsdb_endpoint" "said context_write ?c = []" "fst (ping_tsdb default_tsdb_endpoint (cu_world ?c)) \<noteq> None"
    by (simp_all add: idle_cluster_def x_def pinged_endpoint_def said_def empty_kube_def map_filter_def ping_tsdb_def http_get_def no_world_def)
  from context_status_follows_health [OF r x(1)] x(2-5) r show ?thesis by auto
qed


end
