(* ===== verification/DominoCtl.thy ===== *)
theory DominoCtl
  imports Operator
begin

text \<open>
  The controller of standalone dominos (\<open>internal/controller/domino_controller.go\<close>): a domino on
  a sealed snapshot waits for the dominos it depends on, runs as one step of the engine after
  the last row of the snapshot's replay log, and reports the hashes and links of its entry.
\<close>

section \<open>Ending a reconcile\<close>

definition domino_dependency_requeue :: "64 word" where
  "domino_dependency_requeue = 5000000000"

abbreviation set_domino_status :: "(api_domres_status \<Rightarrow> api_domres_status) \<Rightarrow> api_domino \<Rightarrow> api_domino" where
  "set_domino_status f d \<equiv> d\<lparr>adn_status := f (adn_status d)\<rparr>"

definition domino_phase :: "string \<Rightarrow> string \<Rightarrow> api_domino \<Rightarrow> api_domino" where
  "domino_phase phase msg = set_domino_status (\<lambda>s. s\<lparr>adt_phase := phase, adt_message := msg\<rparr>)"

text \<open>The error of the status update is dropped.\<close>

definition fail_domino :: "api_domino \<Rightarrow> err \<Rightarrow> ('s, 'b) cluster \<Rightarrow> outcome \<times> ('s, 'b) cluster" where
  "fail_domino d e c =
     (let (now, c1) = on_world time_now c;
          d1 = set_domino_status (\<lambda>s. s\<lparr>adt_phase := ''Error'', adt_message := err_msg e,
            adt_conditions := [\<lparr>kc_type = ''Ready'', kc_status = ''False'', kc_observed_generation = 0,
              kc_last_transition = now, kc_reason = ''Error'', kc_message = err_msg e\<rparr>]\<rparr>) d
      in ((no_requeue, Some e), snd (on_kube (kube_put (UpdateDominoStatus d1)) c1)))"

section \<open>Dependencies\<close>

text \<open>\<open>Inr None\<close>: a dependency has not run yet.\<close>

fun dependency_outputs ::
  "('s, 'b) manager \<Rightarrow> opener \<Rightarrow> string \<Rightarrow> string \<Rightarrow> string list \<Rightarrow> (string \<times> string) list \<Rightarrow> ('s, 'b) cluster
     \<Rightarrow> (string \<times> string) list option res \<times> ('s, 'b) cluster" where
  "dependency_outputs m op ns i [] outputs c = (Inr (Some outputs), c)"
| "dependency_outputs m op ns i (dep # deps) outputs c =
     (case on_kube (kube_get kb_domino (ns, dep)) c of
        (Inl e, c1) \<Rightarrow> (Inl (wrapf (''dependency domino '' @ quote dep) e), c1)
      | (Inr d, c1) \<Rightarrow>
          if adt_phase (adn_status d) \<noteq> ''Completed'' \<and> adt_phase (adn_status d) \<noteq> ''Cached'' then (Inr None, c1)
          else (case on_backend op (b_get_domino_output (mg_backend m op) i dep) c1 of
              (Inl e, c2) \<Rightarrow> (Inl (wrapf (''dependency output '' @ quote dep) e), c2)
            | (Inr out, c2) \<Rightarrow> dependency_outputs m op ns i deps (aput dep out outputs) c2))"

definition load_dependency_outputs ::
  "('s, 'b) manager \<Rightarrow> api_domino \<Rightarrow> string \<Rightarrow> api_snapshot \<Rightarrow> ('s, 'b) cluster
     \<Rightarrow> (string \<times> string) list option res \<times> ('s, 'b) cluster" where
  "load_dependency_outputs m d i sn c =
     (if adr_depends_on (adn_spec d) = [] then (Inr (Some []), c)
      else (case open_store (\<lambda>cl. open_for_domino cl d (Some sn) (mg_store_root m)) (\<lambda>e. e) c of
          (Inl e, c1) \<Rightarrow> (Inl e, c1)
        | (Inr op, c1) \<Rightarrow> dependency_outputs m op (km_namespace (adn_meta d)) i (adr_depends_on (adn_spec d)) [] c1))"

section \<open>Execution\<close>

text \<open>\<open>s[:8]\<close> of a shorter text is a panic.\<close>

definition first_eight :: "string \<Rightarrow> string res" where
  "first_eight s = (if length s < 8 then Inl (panic ''slice bounds out of range'') else Inr (take 8 s))"

definition completed_domino :: "log_entry \<Rightarrow> int \<Rightarrow> api_domino \<Rightarrow> api_domino res" where
  "completed_domino e now d =
     (let phase = (if le_reused e then ''Cached'' else ''Completed'')
      in bindr (first_eight (le_input_hash e)) (\<lambda>ih.
         bindr (first_eight (le_output_hash e)) (\<lambda>oh.
           let msg = phase @ '': input='' @ ih @ '' output='' @ oh
           in Inr (set_domino_status (\<lambda>s. s\<lparr>adt_observed_generation := km_generation (adn_meta d), adt_phase := phase,
                adt_input_hash := le_input_hash e, adt_output_hash := le_output_hash e, adt_reused := le_reused e,
                adt_prev_link := le_prev_link e, adt_head_link := le_link e, adt_completed_at := Some now, adt_message := msg,
                adt_conditions := [\<lparr>kc_type = ''Ready'', kc_status = ''True'', kc_observed_generation = 0,
                  kc_last_transition = now, kc_reason = phase, kc_message = msg\<rparr>]\<rparr>) d))))"

text \<open>The snapshot for the engine, with the identity of its status.\<close>

definition domino_snapshot :: "api_snapshot \<Rightarrow> snapshot" where
  "domino_snapshot sn = (to_engine_snapshot sn)\<lparr>sn_status := Some
     \<lparr>sst_phase = ast_phase (asn_status sn), sst_id = ast_snapshot_id (asn_status sn), sst_sealed_at = ''''\<rparr>\<rparr>"

definition execute_standalone ::
  "('s, 'b) manager \<Rightarrow> api_domino \<Rightarrow> api_snapshot \<Rightarrow> (string \<times> string) list \<Rightarrow> ('s, 'b) cluster \<Rightarrow> outcome \<times> ('s, 'b) cluster" where
  "execute_standalone m d sn prior c =
     (let i = ast_snapshot_id (asn_status sn)
      in case open_store (\<lambda>cl. open_for_domino cl d (Some sn) (mg_store_root m)) (wrapf ''open store'') c of
           (Inl e, c1) \<Rightarrow> fail_domino d e c1
         | (Inr op, c1) \<Rightarrow>
         (case on_backend op (b_list_replay (mg_backend m op) i) c1 of
           (Inl e, c2) \<Rightarrow> fail_domino d (wrapf ''list replay'' e) c2
         | (Inr rows, c2) \<Rightarrow>
         (case on_store op (run_single_from (engine_for m op) i (domino_snapshot sn) (to_engine_domino d) prior (spine_head rows i)) c2 of
           (Inl e, c3) \<Rightarrow> fail_domino d e c3
         | (Inr entry, c3) \<Rightarrow>
             let (now, c4) = on_world time_now c3
             in (case completed_domino entry now d of
                   Inl p \<Rightarrow> ((no_requeue, Some p), c4)
                 | Inr d1 \<Rightarrow> on_kube (put_then (UpdateDominoStatus d1) (no_requeue, None)) c4))))"

text \<open>A domino whose snapshot is sealed.\<close>

definition reconcile_ready_domino ::
  "('s, 'b) manager \<Rightarrow> api_domino \<Rightarrow> api_snapshot \<Rightarrow> ('s, 'b) cluster \<Rightarrow> outcome \<times> ('s, 'b) cluster" where
  "reconcile_ready_domino m d sn c =
     (if skip_standalone_julia m (Some d) then
        (if adt_phase (adn_status d) = ''Pending'' \<and> contains_sub (adt_message (adn_status d)) ''in-cluster runner''
         then ((no_requeue, None), c)
         else on_kube (put_then (UpdateDominoStatus
           (domino_phase ''Pending'' ''julia catalog step; runs in-cluster runner (operator has no julia)'' d)) (no_requeue, None)) c)
      else (case load_dependency_outputs m d (ast_snapshot_id (asn_status sn)) sn c of
          (Inl e, c1) \<Rightarrow> fail_domino d e c1
        | (Inr None, c1) \<Rightarrow>
            on_kube (put_then (UpdateDominoStatus (domino_phase ''Pending'' ''waiting for dependency dominos'' d))
              (requeue_after domino_dependency_requeue, None)) c1
        | (Inr (Some prior), c1) \<Rightarrow>
            let d1 = domino_phase ''Running'' ''executing domino'' d
            in (case on_kube (kube_put (UpdateDominoStatus d1)) c1 of
                  (Some e, c2) \<Rightarrow> ((no_requeue, Some e), c2)
                | (None, c2) \<Rightarrow> execute_standalone m d1 sn prior c2)))"

definition reconcile_domino ::
  "('s, 'b) manager \<Rightarrow> object_key \<Rightarrow> ('s, 'b) cluster \<Rightarrow> outcome \<times> ('s, 'b) cluster" where
  "reconcile_domino m key c =
     (case on_kube (kube_get kb_domino key) c of
        (Inl e, c1) \<Rightarrow> ((no_requeue, if api_is_not_found e then None else Some e), c1)
      | (Inr d, c1) \<Rightarrow>
          if adt_observed_generation (adn_status d) = km_generation (adn_meta d)
            \<and> (adt_phase (adn_status d) = ''Completed'' \<or> adt_phase (adn_status d) = ''Cached'')
          then ((no_requeue, None), c1)
          else
            let ref = adr_snapshot_ref (adn_spec d)
            in (case on_kube (kube_get kb_snapshot (km_namespace (adn_meta d), ref)) c1 of
                  (Inl e, c2) \<Rightarrow> fail_domino d (wrapf (''snapshot '' @ quote ref) e) c2
                | (Inr sn, c2) \<Rightarrow>
                    if ast_phase (asn_status sn) \<noteq> ''Sealed'' \<or> ast_snapshot_id (asn_status sn) = '''' then
                      on_kube (put_then (UpdateDominoStatus (domino_phase ''Pending''
                          (''waiting for snapshot '' @ quote ref @ '' to seal'') d)) (requeue_after domino_dependency_requeue, None)) c2
                    else reconcile_ready_domino m d sn c2))"


section \<open>The log of a snapshot\<close>

fun domino_write :: "kube_write \<Rightarrow> api_domino option" where
  "domino_write (UpdateDominoStatus d) = Some d"
| "domino_write _ = None"

abbreviation dm_phase :: "api_domino \<Rightarrow> string" where
  "dm_phase d \<equiv> adt_phase (adn_status d)"

text \<open>Every row is linked to the one before it, the first to \<open>prev\<close>.\<close>

fun linked_rows :: "string \<Rightarrow> replay_row list \<Rightarrow> bool" where
  "linked_rows prev [] = True"
| "linked_rows prev (r # rs) \<longleftrightarrow> re_prev_link r = prev
     \<and> re_link r = compute_str (prev @ '':'' @ re_input_hash r @ '':'' @ re_output_hash r) \<and> linked_rows (re_link r) rs"

lemma compute_str_not_Nil [simp]: "compute_str s \<noteq> []"
  using length_compute_str [of s] by (metis list.size(3) zero_neq_numeral)

lemma linked_rows_snoc:
  "linked_rows prev (rs @ [r]) \<longleftrightarrow> linked_rows prev rs
     \<and> re_prev_link r = (if rs = [] then prev else re_link (last rs))
     \<and> re_link r = compute_str (re_prev_link r @ '':'' @ re_input_hash r @ '':'' @ re_output_hash r)"
  by (induction rs arbitrary: prev) auto

lemma linked_rows_head: "linked_rows i rs \<Longrightarrow> spine_head rs i = (if rs = [] then i else re_link (last rs))"
  by (induction rs rule: rev_induct) (auto simp: linked_rows_snoc)

text \<open>One row is added at the head of the log, and no other log changes.\<close>

definition extends_log ::
  "(sqlite, 'b) cluster \<Rightarrow> opener \<Rightarrow> string \<Rightarrow> replay_row \<Rightarrow> (sqlite, 'b) cluster \<Rightarrow> bool" where
  "extends_log c op i r c' \<longleftrightarrow> sq_rows (cu_store c' op) i = sq_rows (cu_store c op) i @ [r]
     \<and> re_prev_link r = spine_head (sq_rows (cu_store c op) i) i
     \<and> re_link r = compute_str (re_prev_link r @ '':'' @ re_input_hash r @ '':'' @ re_output_hash r)
     \<and> (\<forall>op' j. (op', j) \<noteq> (op, i) \<longrightarrow> sq_rows (cu_store c' op') j = sq_rows (cu_store c op') j)"

definition same_logs :: "(sqlite, 'b) cluster \<Rightarrow> (sqlite, 'b) cluster \<Rightarrow> bool" where
  "same_logs c c' \<longleftrightarrow> (\<forall>op i. sq_rows (cu_store c' op) i = sq_rows (cu_store c op) i)"

lemma extends_log_linked:
  assumes "extends_log c op i r c'" "\<forall>op i. linked_rows i (sq_rows (cu_store c op) i)"
  shows "linked_rows j (sq_rows (cu_store c' op') j)"
proof (cases "(op', j) = (op, i)")
  case True
  have "linked_rows i (sq_rows (cu_store c op) i)" using assms(2) by blast
  then show ?thesis using assms(1) True linked_rows_head [of i "sq_rows (cu_store c op) i"]
    by (auto simp: extends_log_def linked_rows_snoc)
next
  case False then show ?thesis using assms by (auto simp: extends_log_def)
qed

section \<open>What changes in the stores\<close>

text \<open>A read of one store: same views, and no loss.\<close>

definition reads_only :: "(sqlite, 'b) cluster \<Rightarrow> (sqlite, 'b) cluster \<Rightarrow> bool" where
  "reads_only c c' \<longleftrightarrow> stores_keep c c' \<and> same_logs c c'"

lemma reads_only_same: "sqlite_stores m c \<Longrightarrow> cu_store c' = cu_store c \<Longrightarrow> reads_only c c'"
  using stores_keep_same by (simp add: reads_only_def same_logs_def)

lemma reads_only_trans: "reads_only c c1 \<Longrightarrow> reads_only c1 c2 \<Longrightarrow> reads_only c c2"
  using stores_keep_trans by (auto simp: reads_only_def same_logs_def)

lemma reads_only_backend:
  assumes "sqlite_stores m c" "on_backend op f c = (r, c1)" "\<And>s r s'. sq_inv s \<Longrightarrow> f s = (r, s') \<Longrightarrow> sqlite.same s s'"
  shows "reads_only c c1"
proof -
  have s: "sqlite.same (cu_store c op) (cu_store c1 op)"
    using assms(1) assms(3) [OF _ on_backend_parts(1) [OF assms(2)]] by (simp add: sqlite_stores_def)
  have e: "cu_store c1 op' = (if op' = op then cu_store c1 op else cu_store c op')" for op'
    using on_backend_parts(4) [OF assms(2)] by (metis fun_upd_apply)
  have "stores_keep c c1" by (rule stores_keep_one [OF assms(1) on_backend_parts(4) [OF assms(2)] sqlite.same_keeps [OF s]])
  moreover have "same_logs c c1" using s e unfolding same_logs_def sqlite.same_def by metis
  ultimately show ?thesis by (simp add: reads_only_def)
qed

lemma get_output_same: "sq_inv s \<Longrightarrow> sq_get_domino_output i d s = (r, s') \<Longrightarrow> sqlite.same s s'"
  using sqlite.get_latest_same [of s i d]
  by (auto simp: sq_get_domino_output_def sqlite_backend_def split: sum.splits prod.splits)

lemma dependency_outputs_reads:
  "sqlite_stores m c \<Longrightarrow> dependency_outputs m op ns i deps outs c = (r, c1) \<Longrightarrow>
    adds domino_write c [] c1 \<and> reads_only c c1"
proof (induction m op ns i deps outs c arbitrary: r rule: dependency_outputs.induct)
  case (1 m op ns i outs c) then show ?case using adds_same reads_only_same by fastforce
next
  case (2 m op ns i dep deps outs c)
  obtain g c2 where g: "on_kube (kube_get kb_domino (ns, dep)) c = (g, c2)" by fastforce
  have t2: "adds domino_write c [] c2" "reads_only c c2" "sqlite_stores m c2"
    using adds_silent [OF runs_get [OF on_kube_parts(1) [OF g]]] reads_only_same [OF 2(2)] on_kube_parts(2) [OF g] 2(2)
    by (simp_all add: sqlite_stores_def)
  obtain o1 c3 where o: "on_backend op (b_get_domino_output (mg_backend m op) i dep) c2 = (o1, c3)" by fastforce
  have b: "b_get_domino_output (mg_backend m op) i dep = sq_get_domino_output i dep"
    using 2(2) by (simp add: sqlite_stores_def sqlite_backend_def)
  have t3: "adds domino_write c [] c3" "reads_only c c3"
    using adds_trans [OF t2(1) adds_same [OF on_backend_parts(2) [OF o]]]
      reads_only_trans [OF t2(2) reads_only_backend [OF t2(3) o]] get_output_same unfolding b by fastforce+
  have st3: "sqlite_stores m c3" using stores_keep_stores [OF 2(2)] t3(2) by (simp add: reads_only_def)
  consider "c1 = c2" | "c1 = c3" | d out where "g = Inr d" "\<not> (dm_phase d \<noteq> ''Completed'' \<and> dm_phase d \<noteq> ''Cached'')"
      "o1 = Inr out" "dependency_outputs m op ns i deps (aput dep out outs) c3 = (r, c1)"
    using 2(3) g o by (fastforce split: sum.splits if_splits)
  then show ?case
  proof cases
    case 3
    from 2(1) [OF g [symmetric] 3(1) 3(2) o [symmetric] 3(3) st3 3(4)]
    show ?thesis using adds_trans [OF t3(1), of "[]" c1] reads_only_trans [OF t3(2)] by simp
  qed (use t2 t3 in auto)
qed


lemma load_dependency_outputs_reads:
  assumes "sqlite_stores m c" "load_dependency_outputs m d i sn c = (r, c1)"
  shows "adds domino_write c [] c1 \<and> reads_only c c1"
proof (cases "adr_depends_on (adn_spec d) = []")
  case True then show ?thesis using assms adds_same reads_only_same by (fastforce simp: load_dependency_outputs_def)
next
  case False
  obtain o1 c2 where o: "open_store (\<lambda>cl. open_for_domino cl d (Some sn) (mg_store_root m)) (\<lambda>e. e) c = (o1, c2)" by fastforce
  have t: "adds domino_write c [] c2" "reads_only c c2" "sqlite_stores m c2"
    using open_store_frame [OF o] reads_only_same [OF assms(1)] assms(1) by (auto intro: adds_silent simp: sqlite_stores_def)
  show ?thesis
  proof (cases o1)
    case (Inl e) then show ?thesis using assms(2) False o t by (simp add: load_dependency_outputs_def)
  next
    case (Inr op)
    then have "dependency_outputs m op (km_namespace (adn_meta d)) i (adr_depends_on (adn_spec d)) [] c2 = (r, c1)"
      using assms(2) False o by (simp add: load_dependency_outputs_def)
    from dependency_outputs_reads [OF t(3) this] adds_trans [OF t(1), of "[]" c1] reads_only_trans [OF t(2)] show ?thesis by simp
  qed
qed

section \<open>One step of the engine\<close>

lemma run_single_from_extends:
  assumes "sq_inv s" "en_store en = sqlite_backend" "prev \<noteq> ''''" "run_single_from en i snap d prior prev s w = (r, s', w')"
  shows "sqlite.keeps s s'" "j \<noteq> i \<Longrightarrow> sq_rows s' j = sq_rows s j" "r = Inl e \<Longrightarrow> sq_rows s' = sq_rows s"
    "r = Inr x \<Longrightarrow> sq_rows s' i = sq_rows s i @ [entry_row x] \<and> le_prev_link x = prev \<and> length (le_input_hash x) = 64
       \<and> le_link x = compute_str (prev @ '':'' @ le_input_hash x @ '':'' @ le_output_hash x)"
proof -
  have cases: "(\<exists>e. r = Inl e) \<and> s' = s \<or> run_domino en '''' False d snap i (d_name d) prior prev s w = (r, s', w')"
    using assms(3,4) by (auto simp: run_single_from_def split: if_splits)
  have keeps: "sqlite.keeps s s' \<and> (\<forall>j. j \<noteq> i \<longrightarrow> sq_rows s' j = sq_rows s j) \<and> (\<forall>e. r = Inl e \<longrightarrow> sq_rows s' = sq_rows s)"
    using cases
  proof
    assume "(\<exists>e. r = Inl e) \<and> s' = s" then show ?thesis using sqlite.keeps_refl [OF assms(1)] by auto
  next
    assume "run_domino en '''' False d snap i (d_name d) prior prev s w = (r, s', w')"
    from sqlite.run_domino_keeps [OF assms(1,2) _ _ this] show ?thesis by simp
  qed
  then show "sqlite.keeps s s'" "j \<noteq> i \<Longrightarrow> sq_rows s' j = sq_rows s j" "r = Inl e \<Longrightarrow> sq_rows s' = sq_rows s" by simp_all
  assume r: "r = Inr x"
  then have "run_domino en '''' False d snap i (d_name d) prior prev s w = (Inr x, s', w')" using cases by blast
  from sqlite.run_domino_entry [OF assms(1,2) _ _ _ _ _ this, of "[d]"]
  have "entry_of i (d_name d) prev d x" "sq_rows s' i = sq_rows s i @ [entry_row x]" by simp_all
  then show "sq_rows s' i = sq_rows s i @ [entry_row x] \<and> le_prev_link x = prev \<and> length (le_input_hash x) = 64
       \<and> le_link x = compute_str (prev @ '':'' @ le_input_hash x @ '':'' @ le_output_hash x)"
    by (auto simp: entry_of_def link_msg_def)
qed

text \<open>The status of a domino that ran repeats the row that was added.\<close>

definition domino_reports :: "replay_row \<Rightarrow> api_domino \<Rightarrow> bool" where
  "domino_reports r d \<longleftrightarrow> dm_phase d = (if re_reused r then ''Cached'' else ''Completed'')
     \<and> adt_input_hash (adn_status d) = re_input_hash r \<and> adt_output_hash (adn_status d) = re_output_hash r
     \<and> adt_prev_link (adn_status d) = re_prev_link r \<and> adt_head_link (adn_status d) = re_link r
     \<and> adt_reused (adn_status d) = re_reused r"

text \<open>How a reconcile ends: no log changed, or one row was added and reported, or the report panicked.\<close>

definition domino_ends :: "string \<Rightarrow> (sqlite, 'b) cluster \<Rightarrow> api_domino list \<Rightarrow> (sqlite, 'b) cluster \<Rightarrow> bool" where
  "domino_ends i c l c' \<longleftrightarrow> adds domino_write c l c' \<and> stores_keep c c'
     \<and> (same_logs c c' \<and> (l = [] \<or> (\<exists>d. l = [d] \<and> (dm_phase d = ''Error'' \<or> dm_phase d = ''Pending'')))
        \<or> (\<exists>op r. extends_log c op i r c' \<and> (l = [] \<and> length (re_output_hash r) < 8 \<or> (\<exists>d. l = [d] \<and> domino_reports r d))))"

lemma fail_domino_adds:
  assumes "fail_domino d e c = (out, c1)"
  shows "\<exists>d1. adds domino_write c [d1] c1 \<and> cu_store c1 = cu_store c \<and> dm_phase d1 = ''Error''"
proof -
  obtain now c2 where n: "on_world time_now c = (now, c2)" by fastforce
  define d1 where "d1 = set_domino_status (\<lambda>s. s\<lparr>adt_phase := ''Error'', adt_message := err_msg e,
      adt_conditions := [\<lparr>kc_type = ''Ready'', kc_status = ''False'', kc_observed_generation = 0,
        kc_last_transition = now, kc_reason = ''Error'', kc_message = err_msg e\<rparr>]\<rparr>) d"
  obtain u where u: "on_kube (kube_put (UpdateDominoStatus d1)) c2 = (u, c1)"
    using assms n by (cases "on_kube (kube_put (UpdateDominoStatus d1)) c2") (auto simp: fail_domino_def d1_def)
  then have d1: "on_kube (kube_put (UpdateDominoStatus d1)) c2 = (u, c1)" "dm_phase d1 = ''Error''" by (simp_all add: d1_def)
  have "adds domino_write c2 [d1] c1" by (rule adds_put [OF on_kube_parts(1) [OF d1(1)]]) simp
  then show ?thesis using adds_trans [OF adds_same [OF on_world_parts(1) [OF n]], of domino_write "[d1]" c1]
      on_kube_parts(2) [OF d1(1)] on_world_parts(2) [OF n] d1(2) by auto
qed


lemma domino_ends_status:
  assumes "sqlite_stores m c" "adds domino_write c [d] c1" "cu_store c1 = cu_store c" "dm_phase d = ''Error'' \<or> dm_phase d = ''Pending''"
  shows "domino_ends i c [d] c1"
  using assms stores_keep_same [OF assms(1,3)] by (auto simp: domino_ends_def same_logs_def)

lemma fail_domino_ends:
  assumes "sqlite_stores m c" "fail_domino d e c = (out, c1)" shows "\<exists>l. domino_ends i c l c1"
  using fail_domino_adds [OF assms(2)] domino_ends_status [OF assms(1)] by blast

lemma pending_domino_ends:
  assumes "sqlite_stores m c" "on_kube (put_then (UpdateDominoStatus (domino_phase ''Pending'' msg d)) o1) c = (out, c1)"
  shows "\<exists>l. domino_ends i c l c1"
  using adds_put_then [OF assms(2), of domino_write] domino_ends_status [OF assms(1)] by (fastforce simp: domino_phase_def)

lemma domino_ends_before:
  assumes "adds domino_write c [] c1" "reads_only c c1" "domino_ends i c1 l c2" shows "domino_ends i c l c2"
proof -
  have logs: "sq_rows (cu_store c1 op) j = sq_rows (cu_store c op) j" for op j
    using assms(2) by (simp add: reads_only_def same_logs_def)
  have "extends_log c1 op i r c2 = extends_log c op i r c2" for op r by (simp add: extends_log_def logs)
  moreover have "same_logs c1 c2 = same_logs c c2" by (simp add: same_logs_def logs)
  moreover have "stores_keep c1 c2 \<Longrightarrow> stores_keep c c2" using assms(2) stores_keep_trans [of c c1 c2] by (simp add: reads_only_def)
  moreover have "adds domino_write c1 l c2 \<Longrightarrow> adds domino_write c l c2" using adds_trans [OF assms(1)] by simp
  ultimately show ?thesis using assms(3) unfolding domino_ends_def by simp
qed

lemma completed_domino_reports:
  assumes "completed_domino e now d = Inr d1" shows "domino_reports (entry_row e) d1"
  using assms by (auto simp: completed_domino_def domino_reports_def entry_row_def Let_def bindr_Inr_iff)

lemma first_eight_Inl: "first_eight s = Inl p \<Longrightarrow> length s < 8"
  by (simp add: first_eight_def split: if_splits)

lemma execute_standalone_ends:
  assumes st: "sqlite_stores m c" and "execute_standalone m d sn prior c = (out, c1)" "i = ast_snapshot_id (asn_status sn)" "i \<noteq> ''''"
  shows "\<exists>l. domino_ends i c l c1"
proof -
  obtain o1 c2 where o: "open_store (\<lambda>cl. open_for_domino cl d (Some sn) (mg_store_root m)) (wrapf ''open store'') c = (o1, c2)" by fastforce
  have t2: "adds domino_write c [] c2" "reads_only c c2" "sqlite_stores m c2"
    using open_store_frame [OF o] reads_only_same [OF st] st by (auto intro: adds_silent simp: sqlite_stores_def)
  show ?thesis
  proof (cases o1)
    case (Inl e)
    then have "fail_domino d e c2 = (out, c1)" using assms(2) o by (simp add: execute_standalone_def Let_def)
    from fail_domino_ends [OF t2(3) this] domino_ends_before [OF t2(1,2)] show ?thesis by blast
  next
    case op: (Inr op)
    have B: "mg_backend m op = sqlite_backend" using st by (simp add: sqlite_stores_def)
    obtain q c3 where q: "on_backend op (b_list_replay sqlite_backend i) c2 = (q, c3)" by fastforce
    have t3: "adds domino_write c [] c3" "reads_only c c3"
      using adds_trans [OF t2(1) adds_same [OF on_backend_parts(2) [OF q]]]
        reads_only_trans [OF t2(2) reads_only_backend [OF t2(3) q sqlite.list_replay_same]] by simp_all
    have st3: "sqlite_stores m c3" using stores_keep_stores [OF st] t3(2) by (simp add: reads_only_def)
    show ?thesis
    proof (cases q)
      case (Inl e)
      then have "fail_domino d (wrapf ''list replay'' e) c3 = (out, c1)" using assms(2,3) o op q B by (simp add: execute_standalone_def Let_def)
      from fail_domino_ends [OF st3 this] domino_ends_before [OF t3] show ?thesis by blast
    next
      case rows: (Inr rows)
      have "sq_inv (cu_store c2 op)" using t2(3) by (simp add: sqlite_stores_def)
      from sqlite.list_replay_sound [OF this _ on_backend_parts(1) [OF q, unfolded rows]]
      have log: "rows = sq_rows (cu_store c3 op) i" using t2(2) t3(2) by (simp add: reads_only_def same_logs_def)
      have prev: "spine_head rows i \<noteq> ''''" using assms(4) by (simp add: spine_head_def)
      obtain x c4 where x: "on_store op (run_single_from (engine_for m op) i (domino_snapshot sn) (to_engine_domino d) prior (spine_head rows i)) c3 = (x, c4)" by fastforce
      note sp = on_store_parts [OF x]
      have inv: "sq_inv (cu_store c3 op)" using st3 by (simp add: sqlite_stores_def)
      note ex = run_single_from_extends [OF inv sqlite_engine_store [OF st] prev sp(1)]
      have k4: "stores_keep c3 c4" by (rule stores_keep_one [OF st3 sp(3) ex(1)])
      have a4: "adds domino_write c3 [] c4" by (rule adds_same [OF sp(2)])
      have other: "cu_store c4 op' = (if op' = op then cu_store c4 op else cu_store c3 op')" for op' using sp(3) by (metis fun_upd_apply)
      have "\<exists>l. domino_ends i c3 l c1"
      proof (cases x)
        case (Inl e)
        then have f: "fail_domino d e c4 = (out, c1)" using assms(2,3) o op q rows x B by (simp add: execute_standalone_def Let_def)
        have "same_logs c3 c4" using ex(3) [OF Inl] other unfolding same_logs_def by metis
        then have "reads_only c3 c4" using k4 by (simp add: reads_only_def)
        with fail_domino_ends [OF stores_keep_stores [OF st3 k4] f] domino_ends_before [OF a4] show ?thesis by blast
      next
        case entry: (Inr entry)
        obtain now c5 where n: "on_world time_now c4 = (now, c5)" by fastforce
        have ext: "extends_log c3 op i (entry_row entry) c'" if "cu_store c' = cu_store c4" for c'
        proof -
          have "sq_rows (cu_store c4 op') j = sq_rows (cu_store c3 op') j" if "(op', j) \<noteq> (op, i)" for op' j
            using ex(2) [of j] other [of op'] that by (cases "op' = op") auto
          then show ?thesis using ex(4) [OF entry] log that by (auto simp: extends_log_def entry_row_def)
        qed
        have k: "stores_keep c3 c'" if "cu_store c' = cu_store c4" for c' using k4 that by (simp add: stores_keep_def)
        have a5: "adds domino_write c3 [] c5" "cu_store c5 = cu_store c4"
          using adds_trans [OF a4 adds_same [OF on_world_parts(1) [OF n]]] on_world_parts(2) [OF n] by simp_all
        show ?thesis
        proof (cases "completed_domino entry now d")
          case (Inl p)
          then have "c1 = c5" using assms(2,3) o op q rows x entry n B by (simp add: execute_standalone_def Let_def)
          moreover have "length (le_output_hash entry) < 8" using Inl ex(4) [OF entry]
            by (auto simp: completed_domino_def first_eight_def Let_def split: if_splits)
          ultimately have "domino_ends i c3 [] c1" unfolding domino_ends_def
            using a5 k [OF a5(2)] ext [OF a5(2)]
            by (intro conjI disjI2 exI [of _ op] exI [of _ "entry_row entry"] disjI1) (simp_all add: entry_row_def)
          then show ?thesis by blast
        next
          case (Inr d1)
          then have p: "on_kube (put_then (UpdateDominoStatus d1) (no_requeue, None)) c5 = (out, c1)"
            using assms(2,3) o op q rows x entry n B by (simp add: execute_standalone_def Let_def)
          have a1: "adds domino_write c3 [d1] c1" "cu_store c1 = cu_store c4"
            using adds_put_then [OF p, of domino_write d1] adds_trans [OF a5(1), of "[d1]" c1] a5(2) by simp_all
          have "domino_ends i c3 [d1] c1" unfolding domino_ends_def
            using a1(1) k [OF a1(2)] ext [OF a1(2)] completed_domino_reports [OF Inr] by blast
          then show ?thesis by blast
        qed
      qed
      then show ?thesis using domino_ends_before [OF t3] by blast
    qed
  qed
qed


section \<open>One reconcile\<close>

text \<open>The statuses of one reconcile: the way it ends, after the phase Running when the domino is executed.\<close>

definition domino_reconciled :: "(sqlite, 'b) cluster \<Rightarrow> (sqlite, 'b) cluster \<Rightarrow> bool" where
  "domino_reconciled c c' \<longleftrightarrow> (\<exists>l0 c1 i l. adds domino_write c l0 c1 \<and> reads_only c c1
     \<and> (\<forall>d \<in> set l0. dm_phase d = ''Running'') \<and> domino_ends i c1 l c')"

lemma domino_reconciledI:
  assumes "adds domino_write c l0 c1" "reads_only c c1" "\<forall>d \<in> set l0. dm_phase d = ''Running''" "\<exists>l. domino_ends i c1 l c'"
  shows "domino_reconciled c c'"
proof -
  from assms(4) obtain l where "domino_ends i c1 l c'" ..
  then show ?thesis unfolding domino_reconciled_def
    using assms(1-3) by (intro exI [of _ l0] exI [of _ c1] exI [of _ i] exI [of _ l] conjI)
qed

lemma domino_reconciled_ends: "sqlite_stores m c \<Longrightarrow> \<exists>l. domino_ends i c l c' \<Longrightarrow> domino_reconciled c c'"
  by (rule domino_reconciledI [OF adds_same [OF refl] reads_only_same [OF _ refl]]) simp_all

lemma domino_ends_ex: "domino_ends i c l c' \<Longrightarrow> \<exists>l. domino_ends i c l c'"
  by (rule exI)

lemma domino_ends_same:
  assumes "sqlite_stores m c" shows "domino_ends i c [] c"
  using stores_keep_same [OF assms refl] adds_same [OF refl, of domino_write c] by (simp add: domino_ends_def same_logs_def)

lemma domino_reconciled_same: "sqlite_stores m c \<Longrightarrow> domino_reconciled c c"
  by (rule domino_reconciled_ends [OF _ domino_ends_ex [OF domino_ends_same]])

lemma domino_reconciled_before:
  assumes "adds domino_write c [] c1" "reads_only c c1" "domino_reconciled c1 c2" shows "domino_reconciled c c2"
proof -
  from assms(3) obtain l0 c' i l where r: "adds domino_write c1 l0 c'" "reads_only c1 c'"
      "\<forall>d \<in> set l0. dm_phase d = ''Running''" "domino_ends i c' l c2" unfolding domino_reconciled_def by (elim exE conjE)
  show ?thesis
    by (rule domino_reconciledI [OF _ reads_only_trans [OF assms(2) r(2)] r(3) domino_ends_ex [OF r(4)]])
      (use adds_trans [OF assms(1) r(1)] in simp)
qed

lemma reconcile_ready_domino_reconciled:
  assumes st: "sqlite_stores m c" and r: "reconcile_ready_domino m d sn c = (out, c1)" "ast_snapshot_id (asn_status sn) \<noteq> ''''"
  shows "domino_reconciled c c1"
proof -
  let ?i = "ast_snapshot_id (asn_status sn)" and ?d = "domino_phase ''Running'' ''executing domino'' d"
  obtain q c2 where q: "load_dependency_outputs m d ?i sn c = (q, c2)" by fastforce
  have t2: "adds domino_write c [] c2" "reads_only c c2" using load_dependency_outputs_reads [OF st q] by simp_all
  have st2: "sqlite_stores m c2" using stores_keep_stores [OF st] t2(2) by (simp add: reads_only_def)
  obtain u c3 where u: "on_kube (kube_put (UpdateDominoStatus ?d)) c2 = (u, c3)" by fastforce
  have a3: "adds domino_write c2 [?d] c3" by (rule adds_put [OF on_kube_parts(1) [OF u]]) simp
  have t3: "reads_only c2 c3" "sqlite_stores m c3"
    using reads_only_same [OF st2] on_kube_parts(2) [OF u] st2 by (simp_all add: sqlite_stores_def)
  have ran: "domino_reconciled c2 c1" if "\<exists>l. domino_ends ?i c3 l c1"
    by (rule domino_reconciledI [OF a3 t3(1) _ that]) (simp add: domino_phase_def)
  consider "c1 = c" | msg o1 where "on_kube (put_then (UpdateDominoStatus (domino_phase ''Pending'' msg d)) o1) c = (out, c1)"
    | e where "fail_domino d e c2 = (out, c1)"
    | msg o1 where "on_kube (put_then (UpdateDominoStatus (domino_phase ''Pending'' msg d)) o1) c2 = (out, c1)"
    | "c1 = c3" | prior where "execute_standalone m ?d sn prior c3 = (out, c1)"
    using r(1) q u by (fastforce simp: reconcile_ready_domino_def Let_def split: if_splits sum.splits option.splits)
  then show ?thesis
  proof cases
    case 1 then show ?thesis using domino_reconciled_same [OF st] by simp
  next
    case 2 show ?thesis by (rule domino_reconciled_ends [OF st pending_domino_ends [OF st 2]])
  next
    case 3 show ?thesis
      by (rule domino_reconciled_before [OF t2 domino_reconciled_ends [OF st2 fail_domino_ends [OF st2 3]]])
  next
    case 4 show ?thesis
      by (rule domino_reconciled_before [OF t2 domino_reconciled_ends [OF st2 pending_domino_ends [OF st2 4]]])
  next
    case 5 show ?thesis
      by (rule domino_reconciled_before [OF t2 ran]) (use 5 domino_ends_same [OF t3(2)] in blast)
  next
    case 6 show ?thesis
      by (rule domino_reconciled_before [OF t2 ran [OF execute_standalone_ends [OF t3(2) 6 refl r(2)]]])
  qed
qed

lemma reconcile_domino_reconciled:
  assumes st: "sqlite_stores m c" and r: "reconcile_domino m key c = (out, c')" shows "domino_reconciled c c'"
proof -
  obtain g c2 where g: "on_kube (kube_get kb_domino key) c = (g, c2)" by fastforce
  have t2: "adds domino_write c [] c2" "reads_only c c2" "sqlite_stores m c2"
    using adds_silent [OF runs_get [OF on_kube_parts(1) [OF g]]] reads_only_same [OF st] on_kube_parts(2) [OF g] st
    by (simp_all add: sqlite_stores_def)
  note quiet = domino_reconciled_same [OF t2(3)]
  show ?thesis
  proof (cases g)
    case (Inl e) then show ?thesis using r g domino_reconciled_before [OF t2(1,2) quiet] by (simp add: reconcile_domino_def)
  next
    case (Inr d)
    obtain h c3 where h: "on_kube (kube_get kb_snapshot (km_namespace (adn_meta d), adr_snapshot_ref (adn_spec d))) c2 = (h, c3)" by fastforce
    have t3: "adds domino_write c2 [] c3" "reads_only c2 c3" "sqlite_stores m c3"
      using adds_silent [OF runs_get [OF on_kube_parts(1) [OF h]]] reads_only_same [OF t2(3)] on_kube_parts(2) [OF h] t2(3)
      by (simp_all add: sqlite_stores_def)
    consider "c' = c2" | e where "fail_domino d e c3 = (out, c')"
      | msg o1 where "on_kube (put_then (UpdateDominoStatus (domino_phase ''Pending'' msg d)) o1) c3 = (out, c')"
      | sn where "reconcile_ready_domino m d sn c3 = (out, c')" "ast_snapshot_id (asn_status sn) \<noteq> ''''"
      using r g h Inr by (fastforce simp: reconcile_domino_def Let_def split: if_splits sum.splits)
    then have "domino_reconciled c2 c'"
    proof cases
      case 2 show ?thesis
        by (rule domino_reconciled_before [OF t3(1,2) domino_reconciled_ends [OF t3(3) fail_domino_ends [OF t3(3) 2]]])
    next
      case 3 show ?thesis
        by (rule domino_reconciled_before [OF t3(1,2) domino_reconciled_ends [OF t3(3) pending_domino_ends [OF t3(3) 3]]])
    next
      case 4 show ?thesis by (rule domino_reconciled_before [OF t3(1,2) reconcile_ready_domino_reconciled [OF t3(3) 4]])
    qed (use quiet in blast)
    then show ?thesis by (rule domino_reconciled_before [OF t2(1,2)])
  qed
qed

text \<open>A status that tells of a finished domino is about the row that was added.\<close>

lemma domino_ends_finished:
  assumes "domino_ends i c l c'" "d \<in> set l" "dm_phase d = ''Completed'' \<or> dm_phase d = ''Cached''"
  shows "\<exists>op r. extends_log c op i r c' \<and> domino_reports r d"
  using assms unfolding domino_ends_def by fastforce

lemma domino_ends_linked:
  assumes "domino_ends i c l c'" "\<forall>op i. linked_rows i (sq_rows (cu_store c op) i)"
  shows "linked_rows j (sq_rows (cu_store c' op) j)"
proof -
  from assms(1) consider "same_logs c c'" | op i r where "extends_log c op i r c'" unfolding domino_ends_def by blast
  then show ?thesis using assms(2) extends_log_linked by cases (simp_all add: same_logs_def)
qed

lemma extends_log_from:
  assumes "reads_only c c1" shows "extends_log c1 op i r c2 = extends_log c op i r c2"
  using assms by (simp add: extends_log_def reads_only_def same_logs_def)

text \<open>
  C12 A reconcile of a standalone domino, on SQLite stores and whatever the API server and the
  stores answer, keeps every sealed snapshot and memoized output of every store.  When every
  row of every replay log is linked to the row before it, it still is.  And every status of
  phase Completed or Cached that the reconcile writes repeats the hashes and links of one row:
  this row was added at the head of the log of one snapshot, in one store, and no other log of
  any store changed.
\<close>

theorem domino_extends_spine:
  assumes "sqlite_stores m c" "reconcile_domino m key c = (out, c')"
  shows "stores_keep c c'
    \<and> ((\<forall>op i. linked_rows i (sq_rows (cu_store c op) i)) \<longrightarrow> (\<forall>op i. linked_rows i (sq_rows (cu_store c' op) i)))
    \<and> (\<exists>l. said domino_write c' = said domino_write c @ l
        \<and> (\<forall>d \<in> set l. dm_phase d = ''Completed'' \<or> dm_phase d = ''Cached'' \<longrightarrow>
             (\<exists>op i r. extends_log c op i r c' \<and> domino_reports r d)))"
proof -
  from reconcile_domino_reconciled [OF assms] obtain l0 c1 i l where r: "adds domino_write c l0 c1" "reads_only c c1"
      "\<forall>d \<in> set l0. dm_phase d = ''Running''" "domino_ends i c1 l c'" unfolding domino_reconciled_def by (elim exE conjE)
  have a: "adds domino_write c (l0 @ l) c'" "stores_keep c c'"
    using adds_trans [OF r(1)] stores_keep_trans [of c c1 c'] r(2,4) by (simp_all add: reads_only_def domino_ends_def)
  have logs: "sq_rows (cu_store c1 op) j = sq_rows (cu_store c op) j" for op j
    using r(2) by (simp add: reads_only_def same_logs_def)
  have "\<exists>op i r. extends_log c op i r c' \<and> domino_reports r d"
    if "d \<in> set (l0 @ l)" "dm_phase d = ''Completed'' \<or> dm_phase d = ''Cached''" for d
  proof -
    have "d \<in> set l" using that r(3) by auto
    from domino_ends_finished [OF r(4) this that(2)] obtain op e where "extends_log c1 op i e c'" "domino_reports e d" by blast
    then show ?thesis unfolding extends_log_from [OF r(2)] by (intro exI conjI)
  qed
  moreover have "linked_rows i (sq_rows (cu_store c' op) i)" if "\<forall>op i. linked_rows i (sq_rows (cu_store c op) i)" for op i
    by (rule domino_ends_linked [OF r(4)]) (simp add: logs that)
  ultimately show ?thesis using a by (intro conjI exI [of _ "l0 @ l"]) (auto simp: adds_def)
qed

definition plain_domino :: api_domino where
  "plain_domino = \<lparr>adn_meta = (new_meta ''d'' ''ns'' [])\<lparr>km_generation := 1\<rparr>,
     adn_spec = \<lparr>adr_snapshot_ref = ''s'', adr_command = ''builtin:identity'', adr_depends_on = [], adr_inputs = [], adr_image = '''',
       adr_store_path = ''p''\<rparr>,
     adn_status = \<lparr>adt_observed_generation = 0, adt_phase = '''', adt_input_hash = '''', adt_output_hash = '''', adt_reused = False,
       adt_completed_at = None, adt_message = '''', adt_prev_link = '''', adt_head_link = '''', adt_conditions = []\<rparr>\<rparr>"

definition sealed_plain :: "string \<Rightarrow> api_snapshot" where
  "sealed_plain i = \<lparr>asn_meta = new_meta ''s'' ''ns'' [],
     asn_spec = empty_snap_spec\<lparr>ass_time_slice := ''t'', ass_source := empty_source\<lparr>as_inline := Some []\<rparr>, ass_sealed := True\<rparr>,
     asn_status = \<lparr>ast_observed_generation = 0, ast_phase = ''Sealed'', ast_snapshot_id = i, ast_sealed_at = None,
       ast_message = '''', ast_conditions = []\<rparr>\<rparr>"

definition domino_cluster :: "string \<Rightarrow> (sqlite, unit) cluster" where
  "domino_cluster i = (idle_cluster (empty_kube\<lparr>kb_domino := \<lambda>_ _. Inr plain_domino, kb_snapshot := \<lambda>_ _. Inr (sealed_plain i)\<rparr>))
     \<lparr>cu_store := \<lambda>_. seeded i\<rparr>"

lemma identity_single:
  assumes "snapshot_id ''t'' (GMap []) = Inr i" "i \<noteq> ''''"
  shows "\<exists>e s' w'. run_single_from (sql_engine cfg) i (domino_snapshot (sealed_plain i)) (to_engine_domino plain_domino) [] i (seeded i) w
     = (Inr e, s', w') \<and> length (le_output_hash e) = 64"
proof -
  have "identity_domino (to_engine_domino plain_domino)"
    by (simp add: identity_domino_def to_engine_domino_def plain_domino_def to_domino_inputs_def)
  moreover have "resolved_id (domino_snapshot (sealed_plain i)) i = i" "ss_sealed (sn_spec (domino_snapshot (sealed_plain i)))"
    using assms(2) by (simp_all add: resolved_id_def domino_snapshot_def sealed_plain_def to_engine_snapshot_def)
  ultimately show ?thesis using identity_step [OF _ _ assms(2)] assms(2) by (simp add: run_single_from_def)
qed

lemma domino_extends_spine_witness:
  "\<exists>i out c' d op j r. reconcile_domino plain_manager (''ns'', ''d'') (domino_cluster i) = (out, c')
     \<and> said domino_write c' = [domino_phase ''Running'' ''executing domino'' plain_domino, d]
     \<and> extends_log (domino_cluster i) op j r c' \<and> domino_reports r d"
proof -
  obtain i where i: "snapshot_id ''t'' (GMap []) = Inr i" using demo_snapshot_id by blast
  have ne: "i \<noteq> ''''" using snapshot_id_not_Nil [OF i] .
  let ?c = "domino_cluster i" and ?d = "domino_phase ''Running'' ''executing domino'' plain_domino" and ?op = "OpenSQLite ''p''"
  obtain out c' where r: "reconcile_domino plain_manager (''ns'', ''d'') ?c = (out, c')" by fastforce
  define c1 where "c1 = ?c\<lparr>cu_kube := (cu_kube ?c)\<lparr>kb_tick := 3, kb_log := [UpdateDominoStatus ?d]\<rparr>\<rparr>"
  define c2 where "c2 = c1\<lparr>cu_kube := (cu_kube c1)\<lparr>kb_tick := 4\<rparr>, cu_opened := Suc 0\<rparr>"
  have ex: "reconcile_domino plain_manager (''ns'', ''d'') ?c = execute_standalone plain_manager ?d (sealed_plain i) [] c1"
    using ne by (simp add: reconcile_domino_def reconcile_ready_domino_def load_dependency_outputs_def skip_standalone_julia_def
        on_kube_def kube_get_def kube_put_def domino_cluster_def idle_cluster_def empty_kube_def plain_domino_def sealed_plain_def
        new_meta_def has_prefix_def Let_def c1_def plain_manager_def numeral_3_eq_3)
  have op: "open_store (\<lambda>cl. open_for_domino cl ?d (Some (sealed_plain i)) (mg_store_root plain_manager)) (wrapf ''open store'') c1 = (Inr ?op, c2)"
    by (simp add: open_store_def open_for_domino_def domino_phase_def plain_domino_def is_tsdb_path_def is_postgres_dsn_def
        open_backend_def Let_def c2_def c1_def domino_cluster_def idle_cluster_def has_prefix_def)
  have ls: "on_backend ?op (b_list_replay (mg_backend plain_manager ?op) i) c2 = (Inr [], c2)"
    by (simp add: on_backend_def on_store_def plain_manager_def sqlite_backend_def sq_list_replay_def sq_call_def seeded_def sq_empty_def fun_eq_iff
        c2_def c1_def domino_cluster_def idle_cluster_def)
  have eng: "engine_for plain_manager ?op = sql_engine demo_cfg" by (simp add: engine_for_def plain_manager_def)
  have dm: "to_engine_domino ?d = to_engine_domino plain_domino" by (simp add: to_engine_domino_def domino_phase_def)
  have st: "cu_store c2 ?op = seeded i" by (simp add: c2_def c1_def domino_cluster_def)
  obtain e s' w' where e: "run_single_from (sql_engine demo_cfg) i (domino_snapshot (sealed_plain i)) (to_engine_domino plain_domino) [] i
      (seeded i) (cu_world c2) = (Inr e, s', w')" "length (le_output_hash e) = 64"
    using identity_single [OF i ne] by blast
  let ?c3 = "c2\<lparr>cu_store := (cu_store c2)(?op := s'), cu_world := w'\<rparr>"
  have rs: "on_store ?op (run_single_from (engine_for plain_manager ?op) i (domino_snapshot (sealed_plain i)) (to_engine_domino ?d) []
      (spine_head [] i)) c2 = (Inr e, ?c3)"
    using e(1) by (simp add: on_store_def eng dm st spine_head_def)
  have ih: "length (le_input_hash e) = 64"
    using run_single_from_extends(4) [OF seeded_inv(1) sql_engine_store ne e(1)] by simp
  obtain now c4 where n: "on_world time_now ?c3 = (now, c4)" by fastforce
  obtain d where d: "completed_domino e now ?d = Inr d"
    using e(2) ih by (simp add: completed_domino_def first_eight_def Let_def)
  note rep = completed_domino_reports [OF d]
  have fin: "on_kube (put_then (UpdateDominoStatus d) (no_requeue, None)) c4 = (out, c')"
    using r rs op ls n d unfolding ex by (simp add: execute_standalone_def sealed_plain_def Let_def)
  have "said domino_write c4 = [?d]"
    using on_world_parts(1) [OF n] by (simp add: said_def c2_def c1_def map_filter_def)
  then have log: "said domino_write c' = [?d, d]"
    using adds_put_then [OF fin, of domino_write d] by (simp add: adds_def)
  have c0: "sqlite_stores plain_manager ?c" "said domino_write ?c = []"
    by (simp_all add: sqlite_stores_def plain_manager_def domino_cluster_def idle_cluster_def said_def empty_kube_def map_filter_def)
  have "dm_phase d = ''Completed'' \<or> dm_phase d = ''Cached''" using rep by (simp add: domino_reports_def)
  with domino_extends_spine [OF c0(1) r] log c0(2) obtain op j q where "extends_log ?c op j q c'" "domino_reports q d" by auto
  then show ?thesis using r log by (intro exI conjI) simp_all
qed


end
