(* ===== verification/ReplicaCtl.thy ===== *)
theory ReplicaCtl
  imports Operator Replica
begin

text \<open>
  The read replica controller (\<open>internal/controller/readreplica_controller.go\<close>): it copies the
  sealed snapshot a routed event names into the store of the target universe, straight from
  the source store or from the change-data envelopes.  Source and target are opened
  independently and may be the same database, so the copy of \<open>Replica\<close> is stated here once
  more over all stores of the controller; on two databases it is that copy.
\<close>

section \<open>A copy between stores that may coincide\<close>

definition at_store :: "opener \<Rightarrow> ('s \<Rightarrow> 'r \<times> 's) \<Rightarrow> (opener \<Rightarrow> 's) \<Rightarrow> 'r \<times> (opener \<Rightarrow> 's)" where
  "at_store op f st = (case f (st op) of (r, s) \<Rightarrow> (r, st(op := s)))"

definition backend_at :: "opener \<Rightarrow> 's backend \<Rightarrow> (opener \<Rightarrow> 's) backend" where
  "backend_at op B =
     \<lparr>b_save_snapshot = \<lambda>i t d b. at_store op (b_save_snapshot B i t d b),
      b_get_snapshot = \<lambda>i. at_store op (b_get_snapshot B i),
      b_lookup_memo = \<lambda>i d h. at_store op (b_lookup_memo B i d h),
      b_save_result = \<lambda>r. at_store op (b_save_result B r),
      b_get_domino_output = \<lambda>i d. at_store op (b_get_domino_output B i d),
      b_get_latest = \<lambda>i d. at_store op (b_get_latest B i d),
      b_list_replay = \<lambda>i. at_store op (b_list_replay B i),
      b_close = at_store op (b_close B),
      b_get_data = map_option (\<lambda>f i. at_store op (f i)) (b_get_data B),
      b_save_payload = map_option (\<lambda>f i t p b. at_store op (f i t p b)) (b_save_payload B)\<rparr>"

fun copy_dominos_in ::
  "'u backend \<Rightarrow> 'u backend \<Rightarrow> string \<Rightarrow> replay_row list \<Rightarrow> string list \<Rightarrow> int \<Rightarrow> 'u \<Rightarrow> int res \<times> 'u" where
  "copy_dominos_in src tgt snapshotID rows [] n u = (Inr n, u)"
| "copy_dominos_in src tgt snapshotID rows (d # ds) n u =
     (case replica_record src snapshotID rows d u of
        (Inl e, u1) \<Rightarrow> (Inl e, u1)
      | (Inr rec, u1) \<Rightarrow>
          (case b_save_result tgt (rec\<lparr>re_snapshot_id := snapshotID, re_reused := False\<rparr>) u1 of
             (Inl e, u2) \<Rightarrow> (Inl (wrapf (''copy domino '' @ quote d) e), u2)
           | (Inr _, u2) \<Rightarrow> copy_dominos_in src tgt snapshotID rows ds (n + 1) u2))"

definition materialize_in ::
  "'u backend \<Rightarrow> 'u backend \<Rightarrow> string \<Rightarrow> string list \<Rightarrow> 'u \<Rightarrow> materialize_result res \<times> 'u" where
  "materialize_in src tgt snapshotID chain u =
     (if snapshotID = '''' then (Inl (errorf ''snapshot ID is required''), u)
      else (case b_get_snapshot src snapshotID u of
        (Inl e, u1) \<Rightarrow> (Inl (wrapf ''read source snapshot'' e), u1)
      | (Inr (timeSlice, data, sealed), u1) \<Rightarrow>
          if \<not> sealed
          then (Inl (errorf (''refusing to materialize unsealed snapshot '' @ snapshotID
              @ '' (cross-universe signaling requires a sealed Cauchy view)'')), u1)
          else (case b_save_snapshot tgt snapshotID timeSlice data True u1 of
            (Inl e, u2) \<Rightarrow> (Inl (wrapf ''write target snapshot'' e), u2)
          | (Inr _, u2) \<Rightarrow>
              (case b_list_replay src snapshotID u2 of
                 (Inl e, u3) \<Rightarrow> (Inl (wrapf ''read source replay'' e), u3)
               | (Inr rows, u3) \<Rightarrow>
                   (case copy_dominos_in src tgt snapshotID rows chain 0 u3 of
                      (Inl e, u4) \<Rightarrow> (Inl e, u4)
                    | (Inr n, u4) \<Rightarrow> (Inr \<lparr>mz_snapshot_copied = True, mz_domino_count = n\<rparr>, u4))))))"

definition on_stores :: "((opener \<Rightarrow> 's) \<Rightarrow> 'r \<times> (opener \<Rightarrow> 's)) \<Rightarrow> ('s, 'b) cluster \<Rightarrow> 'r \<times> ('s, 'b) cluster" where
  "on_stores f c = (case f (cu_store c) of (r, st) \<Rightarrow> (r, c\<lparr>cu_store := st\<rparr>))"

section \<open>Opening the target\<close>

text \<open>The configuration of the target store and the path the status names.\<close>

definition target_config :: "api_replica \<Rightarrow> string \<Rightarrow> resolve_config \<times> string" where
  "target_config rr storeRoot =
     (let root = (if storeRoot = '''' then ''/var/kbl/store'' else storeRoot);
          path = path_join [root, km_namespace (arr_meta rr), ''replicas'', rs_universe (arr_spec rr) @ ''.db''];
          cfg = \<lparr>rc_store_path = (if rs_context_ref (arr_spec rr) = '''' then path else ''''), rc_store_type = TypeOther '''',
            rc_endpoint = '''', rc_context_ref = rs_context_ref (arr_spec rr), rc_namespace = km_namespace (arr_meta rr),
            rc_store_root = root\<rparr>
      in (cfg, if rc_store_type cfg = TypeTSDB \<or> has_prefix (rc_endpoint cfg) ''http''
               then (if rc_endpoint cfg \<noteq> '''' then rc_endpoint cfg else path)
               else if rc_store_path cfg \<noteq> '''' then rc_store_path cfg else path))"

definition open_target_store ::
  "('s, 'b) manager \<Rightarrow> api_replica \<Rightarrow> ('s, 'b) cluster \<Rightarrow> (opener \<times> string) res \<times> ('s, 'b) cluster" where
  "open_target_store m rr c =
     (case target_config rr (mg_store_root m) of (cfg, path) \<Rightarrow>
      (case open_store (\<lambda>cl. open_resolved cl cfg) (\<lambda>e. e) c of
         (Inl e, c1) \<Rightarrow> (Inl e, c1)
       | (Inr op, c1) \<Rightarrow> (Inr (op, path), c1)))"

section \<open>The consumer\<close>

datatype cdc_consumer = KafkaConsumer topic string | MemoryConsumer

definition cdc_consumer_for :: "api_replica \<Rightarrow> cdc_consumer" where
  "cdc_consumer_for rr =
     (case rs_cdc (arr_spec rr) of
        Some cs \<Rightarrow>
          if cs_brokers cs \<noteq> [] then
            (let topic = (if cs_topic cs = '''' then default_cdc_topic else cs_topic cs);
                 grp = (if cs_group_id cs = '''' then ''kbl-cdc-'' @ km_name (arr_meta rr) else cs_group_id cs)
             in case kafka_consumer_config (cs_brokers cs) topic grp of
                  Inr (t, g) \<Rightarrow> KafkaConsumer (cs_brokers cs, t) g | Inl _ \<Rightarrow> MemoryConsumer)
          else MemoryConsumer
      | None \<Rightarrow> MemoryConsumer)"

text \<open>
  \<open>dels\<close> are the reads of a Kafka consumer, by topic and group, that fit into the five seconds
  the controller grants.
\<close>

type_synonym deliveries = "topic \<Rightarrow> string \<Rightarrow> kafka_read list"

definition consume_for :: "deliveries \<Rightarrow> cdc_consumer \<Rightarrow> string \<Rightarrow> ('s, 'b) cluster \<Rightarrow> envelope list res" where
  "consume_for dels cons i c =
     (case cons of
        KafkaConsumer t g \<Rightarrow> kafka_consume i (dels t g)
      | MemoryConsumer \<Rightarrow> memory_consumer i (Some (cu_cdc c)))"

section \<open>Reconcile\<close>

abbreviation set_replica_status :: "(replica_status \<Rightarrow> replica_status) \<Rightarrow> api_replica \<Rightarrow> api_replica" where
  "set_replica_status f rr \<equiv> rr\<lparr>arr_status := f (arr_status rr)\<rparr>"

text \<open>The error of the status update is dropped.\<close>

definition fail_replica :: "api_replica \<Rightarrow> err \<Rightarrow> ('s, 'b) cluster \<Rightarrow> outcome \<times> ('s, 'b) cluster" where
  "fail_replica rr e c =
     (let (now, c1) = on_world time_now c;
          rr1 = set_replica_status (\<lambda>s. s\<lparr>rst_phase := ''Error'', rst_message := err_msg e,
            rst_conditions := [\<lparr>kc_type = ''Ready'', kc_status = ''False'', kc_observed_generation = 0,
              kc_last_transition = now, kc_reason = ''Error'', kc_message = err_msg e\<rparr>]\<rparr>) rr
      in ((requeue_after 30000000000, Some e), snd (on_kube (kube_put (UpdateReplicaStatus rr1)) c1)))"

definition replica_phase :: "string \<Rightarrow> string \<Rightarrow> api_replica \<Rightarrow> api_replica" where
  "replica_phase phase msg = set_replica_status (\<lambda>s. s\<lparr>rst_phase := phase, rst_message := msg\<rparr>)"

definition replication_mode :: "api_replica \<Rightarrow> string" where
  "replication_mode rr = (if rs_mode (arr_spec rr) = '''' then ''direct'' else rs_mode (arr_spec rr))"

definition ready_replica :: "int \<Rightarrow> string \<Rightarrow> int \<Rightarrow> api_replica \<Rightarrow> api_replica" where
  "ready_replica n path now rr =
     (let msg = replication_mode rr @ '': snapshot '' @ rs_snapshot_id (arr_spec rr) @ '' with '' @ int_str n @ '' dominos to '' @ path
      in set_replica_status (\<lambda>s. s\<lparr>rst_observed_generation := km_generation (arr_meta rr), rst_phase := ''Ready'',
           rst_domino_count := n, rst_store_path := path, rst_materialized_at := Some now, rst_message := msg,
           rst_conditions := [\<lparr>kc_type = ''Ready'', kc_status = ''True'', kc_observed_generation = 0,
             kc_last_transition = now, kc_reason = ''Materialized'', kc_message = msg\<rparr>]\<rparr>) rr)"

definition finish_replica :: "int \<Rightarrow> string \<Rightarrow> api_replica \<Rightarrow> ('s, 'b) cluster \<Rightarrow> outcome \<times> ('s, 'b) cluster" where
  "finish_replica n path rr c =
     (let (now, c1) = on_world time_now c
      in on_kube (put_then (UpdateReplicaStatus (ready_replica n path now rr)) (no_requeue, None)) c1)"

definition sync_replica ::
  "('s, 'b) manager \<Rightarrow> deliveries \<Rightarrow> opener \<Rightarrow> string \<Rightarrow> string list \<Rightarrow> api_replica \<Rightarrow> ('s, 'b) cluster
     \<Rightarrow> outcome \<times> ('s, 'b) cluster" where
  "sync_replica m dels tgt path chain rr c =
     (let i = rs_snapshot_id (arr_spec rr)
      in case on_backend tgt (sync_from_consumer (consume_for dels (cdc_consumer_for rr) i c) (mg_backend m tgt) i chain) c of
           ((progress, Some e), c1) \<Rightarrow>
             ((requeue_after 5000000000, None), snd (on_kube (kube_put (UpdateReplicaStatus
                (replica_phase ''Pending'' (''waiting for cdc events: '' @ err_msg e) rr))) c1))
         | ((progress, None), c1) \<Rightarrow> finish_replica (sp_domino_count progress) path rr c1)"

definition copy_replica ::
  "('s, 'b) manager \<Rightarrow> opener \<Rightarrow> string \<Rightarrow> api_workflow \<Rightarrow> api_replica \<Rightarrow> ('s, 'b) cluster \<Rightarrow> outcome \<times> ('s, 'b) cluster" where
  "copy_replica m tgt path k rr c =
     (case open_store (\<lambda>cl. open_for_workflow cl k (mg_store_root m)) (wrapf ''open store'') c of
        (Inl e, c1) \<Rightarrow> fail_replica rr (wrapf ''open source store'' e) c1
      | (Inr src, c1) \<Rightarrow>
          (case on_stores (materialize_in (backend_at src (mg_backend m src)) (backend_at tgt (mg_backend m tgt))
                  (rs_snapshot_id (arr_spec rr)) (ae_chain (aws_execution (awf_spec k)))) c1 of
             (Inl e, c2) \<Rightarrow> fail_replica rr e c2
           | (Inr result, c2) \<Rightarrow> finish_replica (mz_domino_count result) path rr c2))"

definition reconcile_replica ::
  "('s, 'b) manager \<Rightarrow> deliveries \<Rightarrow> object_key \<Rightarrow> ('s, 'b) cluster \<Rightarrow> outcome \<times> ('s, 'b) cluster" where
  "reconcile_replica m dels key c =
     (case on_kube (kube_get kb_replica key) c of
        (Inl e, c1) \<Rightarrow> ((no_requeue, if api_is_not_found e then None else Some e), c1)
      | (Inr rr, c1) \<Rightarrow>
          if rst_observed_generation (arr_status rr) = km_generation (arr_meta rr) \<and> rst_phase (arr_status rr) = ''Ready''
          then ((no_requeue, None), c1)
          else (case on_kube (kube_get kb_workflow (rs_namespace (arr_spec rr), rs_workflow (arr_spec rr))) c1 of
              (Inl e, c2) \<Rightarrow> fail_replica rr (wrapf ''source workflow'' e) c2
            | (Inr k, c2) \<Rightarrow>
                (case open_target_store m rr c2 of
                   (Inl e, c3) \<Rightarrow> fail_replica rr (wrapf ''open target store'' e) c3
                 | (Inr (tgt, path), c3) \<Rightarrow>
                     let rr1 = replica_phase ''Materializing'' (''materializing via '' @ replication_mode rr) rr
                     in (case on_kube (kube_put (UpdateReplicaStatus rr1)) c3 of
                           (Some e, c4) \<Rightarrow> ((no_requeue, Some e), c4)
                         | (None, c4) \<Rightarrow>
                             if replication_mode rr = ''cdc''
                             then sync_replica m dels tgt path (ae_chain (aws_execution (awf_spec k))) rr1 c4
                             else copy_replica m tgt path k rr1 c4))))"


section \<open>The copy, store by store\<close>

lemma at_store_parts:
  "at_store op f u = (r, u') \<Longrightarrow> f (u op) = (r, u' op) \<and> (\<forall>op'. op' \<noteq> op \<longrightarrow> u' op' = u op')"
  by (auto simp: at_store_def split: prod.splits)

lemma backend_at_simps [simp]:
  "b_get_snapshot (backend_at op B) i = at_store op (b_get_snapshot B i)"
  "b_save_snapshot (backend_at op B) i t d b = at_store op (b_save_snapshot B i t d b)"
  "b_save_result (backend_at op B) r = at_store op (b_save_result B r)"
  "b_get_latest (backend_at op B) i d = at_store op (b_get_latest B i d)"
  "b_list_replay (backend_at op B) i = at_store op (b_list_replay B i)"
  by (simp_all add: backend_at_def)

lemma replica_record_at: "replica_record (backend_at op A) i rows d = at_store op (replica_record A i rows d)"
  by (intro ext) (auto simp: replica_record_def at_store_def split: prod.splits sum.splits bool.splits)

lemma copy_dominos_apart:
  assumes "src \<noteq> tgt"
  shows "copy_dominos_in (backend_at src A) (backend_at tgt B) i rows ds n u
    = (case copy_dominos A B i rows ds n (u src) (u tgt) of (r, s, t) \<Rightarrow> (r, u(src := s, tgt := t)))"
proof (induction ds arbitrary: n u)
  case Nil then show ?case by (simp add: fun_eq_iff)
next
  case (Cons d ds)
  obtain q s1 where q: "replica_record A i rows d (u src) = (q, s1)" by fastforce
  show ?case
  proof (cases q)
    case (Inl e) then show ?thesis using q assms by (simp add: replica_record_at at_store_def fun_eq_iff)
  next
    case (Inr rec)
    obtain v t1 where v: "b_save_result B (rec\<lparr>re_snapshot_id := i, re_reused := False\<rparr>) (u tgt) = (v, t1)" by fastforce
    show ?thesis
    proof (cases v)
      case (Inl e) then show ?thesis using q v \<open>q = Inr rec\<close> assms by (simp add: replica_record_at at_store_def fun_eq_iff)
    next
      case (Inr x)
      obtain r s t where rest: "copy_dominos A B i rows ds (n + 1) s1 t1 = (r, s, t)" by (metis prod_cases3)
      define v1 where "v1 = u(src := s1, tgt := t1)"
      have v1: "v1 src = s1" "v1 tgt = t1" "v1(src := s, tgt := t) = u(src := s, tgt := t)"
        using assms by (simp_all add: v1_def fun_eq_iff)
      have "copy_dominos_in (backend_at src A) (backend_at tgt B) i rows ds (n + 1) v1 = (r, u(src := s, tgt := t))"
        by (simp only: Cons.IH v1(1,2) rest prod.case v1(3))
      moreover have "copy_dominos_in (backend_at src A) (backend_at tgt B) i rows (d # ds) n u
          = copy_dominos_in (backend_at src A) (backend_at tgt B) i rows ds (n + 1) v1"
        using q v \<open>q = Inr rec\<close> Inr assms by (simp add: replica_record_at at_store_def v1_def)
      moreover have "copy_dominos A B i rows (d # ds) n (u src) (u tgt) = (r, s, t)"
        using q v \<open>q = Inr rec\<close> Inr rest by simp
      ultimately show ?thesis by (simp del: copy_dominos_in.simps copy_dominos.simps add: fun_eq_iff)
    qed
  qed
qed

text \<open>
  The copy of the read replica controller is Materialize of \<open>pkg/replica\<close> whenever source and
  target are different databases, for any two implementations of the store.
\<close>

theorem replica_copy_is_materialize:
  assumes "src \<noteq> tgt"
  shows "materialize_in (backend_at src A) (backend_at tgt B) i ds u
    = (case materialize (Some A) (Some B) i ds (u src) (u tgt) of (r, s, t) \<Rightarrow> (r, u(src := s, tgt := t)))"
proof (cases "i = ''''")
  case True then show ?thesis by (simp add: materialize_in_def materialize_def)
next
  case ne: False
  obtain g s1 where g: "b_get_snapshot A i (u src) = (g, s1)" by fastforce
  show ?thesis
  proof (cases "\<exists>ts dt. g = Inr (ts, dt, True)")
    case False
    then show ?thesis using ne g assms
      by (auto simp: materialize_in_def materialize_def at_store_def split: sum.splits prod.splits bool.splits)
  next
    case True
    then obtain ts dt where gs: "g = Inr (ts, dt, True)" by blast
    obtain v t1 where v: "b_save_snapshot B i ts dt True (u tgt) = (v, t1)" by fastforce
    show ?thesis
    proof (cases v)
      case (Inl e) then show ?thesis using ne g gs v assms by (simp add: materialize_in_def materialize_def at_store_def)
    next
      case (Inr x)
      obtain l s2 where l: "b_list_replay A i s1 = (l, s2)" by fastforce
      show ?thesis
      proof (cases l)
        case (Inl e) then show ?thesis using ne g gs v \<open>v = Inr x\<close> l assms
            by (simp add: materialize_in_def materialize_def at_store_def fun_upd_twist)
      next
        case lo: (Inr rows)
        obtain r s t where c: "copy_dominos A B i rows ds 0 s2 t1 = (r, s, t)" by (metis prod_cases3)
        define v1 where "v1 = u(src := s2, tgt := t1)"
        have v1: "v1 src = s2" "v1 tgt = t1" "v1(src := s, tgt := t) = u(src := s, tgt := t)" "u(src := s1, tgt := t1, src := s2) = v1"
          using assms by (simp_all add: v1_def fun_eq_iff)
        have "copy_dominos_in (backend_at src A) (backend_at tgt B) i rows ds 0 v1 = (r, u(src := s, tgt := t))"
          by (simp only: copy_dominos_apart [OF assms] v1(1,2) c prod.case v1(3))
        then show ?thesis using ne g gs v \<open>v = Inr x\<close> l lo c assms v1(4)
          by (cases r) (simp_all add: materialize_in_def materialize_def at_store_def)
      qed
    qed
  qed
qed

lemma replica_copy_is_materialize_witness:
  "fst (materialize_in (backend_at (OpenSQLite ''a'') sqlite_backend) (backend_at (OpenSQLite ''b'') sqlite_backend) ''s'' [''d'']
       (\<lambda>op. if op = OpenSQLite ''a'' then demo_source else sq_empty))
     = fst (materialize (Some sqlite_backend) (Some sqlite_backend) ''s'' [''d''] demo_source sq_empty)"
  using replica_copy_is_materialize [of "OpenSQLite ''a''" "OpenSQLite ''b''" sqlite_backend sqlite_backend "''s''" "[''d'']"
      "\<lambda>op. if op = OpenSQLite ''a'' then demo_source else sq_empty"]
  by (simp split: prod.splits)

lemma replica_record_reads:
  assumes "sq_inv s" "replica_record sqlite_backend i rows d s = (q, s')"
  shows "sqlite.same s s' \<and> (\<forall>rec. q = Inr rec \<longrightarrow> re_domino_id rec = d)"
proof -
  obtain r b where l: "last_spine_result rows d = (r, b)" by fastforce
  show ?thesis
  proof (cases b)
    case True
    then show ?thesis using assms l sq2.last_spine_resultD [of rows d r] sqlite.same_refl by (auto simp: replica_record_def)
  next
    case False
    obtain t s1 where g: "b_get_latest sqlite_backend i d s = (t, s1)" by fastforce
    from sqlite.get_latest_same [OF assms(1) g] assms(2) l False g show ?thesis
      by (auto simp: replica_record_def split: sum.splits)
  qed
qed

text \<open>\<open>kept\<close>: every store keeps what it has, and only the target gains.\<close>

definition kept :: "opener \<Rightarrow> (opener \<Rightarrow> sqlite) \<Rightarrow> (opener \<Rightarrow> sqlite) \<Rightarrow> bool" where
  "kept tgt u u' \<longleftrightarrow> (\<forall>op. sqlite.keeps (u op) (u' op) \<and> (op \<noteq> tgt \<longrightarrow> sqlite.same (u op) (u' op)))"

lemma kept_trans: "kept tgt u u1 \<Longrightarrow> kept tgt u1 u2 \<Longrightarrow> kept tgt u u2"
  unfolding kept_def using sqlite.keeps_trans sqlite.same_trans by blast

lemma kept_refl: "\<forall>op. sq_inv (u op) \<Longrightarrow> kept tgt u u"
  unfolding kept_def using sqlite.keeps_refl sqlite.same_refl by blast

lemma kept_inv: "kept tgt u u' \<Longrightarrow> \<forall>op. sq_inv (u' op)"
  unfolding kept_def using sqlite.keeps_inv by blast

lemma kept_read:
  assumes "\<forall>op. sq_inv (u op)" "at_store src f u = (r, u')" "sqlite.same (u src) (u' src)" shows "kept tgt u u'"
proof -
  have "sqlite.same (u op) (u' op)" for op
    using at_store_parts [OF assms(2)] assms(1,3) sqlite.same_refl [of "u op"] by (cases "op = src") auto
  then show ?thesis unfolding kept_def using sqlite.same_keeps by blast
qed

lemma kept_write:
  assumes "\<forall>op. sq_inv (u op)" "at_store tgt f u = (r, u')" "sqlite.keeps (u tgt) (u' tgt)" shows "kept tgt u u'"
  using at_store_parts [OF assms(2)] assms(1,3) sqlite.same_refl sqlite.keeps_refl unfolding kept_def by metis

lemma copy_dominos_in_laws:
  assumes "\<forall>op. sq_inv (u op)"
    and "copy_dominos_in (backend_at src sqlite_backend) (backend_at tgt sqlite_backend) i rows ds n u = (r, u')"
  shows "kept tgt u u' \<and> sq_snap (u' tgt) = sq_snap (u tgt)
    \<and> (\<forall>m. r = Inr m \<longrightarrow> m = n + int (length ds)
         \<and> (\<exists>ws. sq_rows (u' tgt) i = sq_rows (u tgt) i @ ws \<and> map re_domino_id ws = ds
              \<and> (\<forall>w\<in>set ws. sq_memo (u' tgt) i (re_domino_id w) (re_input_hash w) = Some (re_output_hash w, re_output w))))"
  using assms
proof (induction ds arbitrary: n u)
  case Nil then show ?case using kept_refl by auto
next
  case (Cons d ds)
  obtain q u1 where q: "at_store src (replica_record sqlite_backend i rows d) u = (q, u1)" by fastforce
  have "sq_inv (u src)" using Cons.prems(1) by blast
  note rl = replica_record_reads [OF this conjunct1 [OF at_store_parts [OF q]]]
  have k1: "kept tgt u u1" by (rule kept_read [OF Cons.prems(1) q]) (use rl in blast)
  have same1: "sqlite.same (u tgt) (u1 tgt)"
    using at_store_parts [OF q] rl Cons.prems(1) sqlite.same_refl [of "u tgt"] by (cases "tgt = src") auto
  then have eq1: "sq_snap (u1 tgt) = sq_snap (u tgt)" "sq_rows (u1 tgt) = sq_rows (u tgt)" by (simp_all add: sqlite.same_def)
  show ?case
  proof (cases q)
    case (Inl e) then show ?thesis using Cons.prems(2) q k1 eq1 by (auto simp: replica_record_at)
  next
    case (Inr rec)
    define w where "w = rec\<lparr>re_snapshot_id := i, re_reused := False\<rparr>"
    have w: "re_snapshot_id w = i" "re_domino_id w = d" "\<not> re_reused w" using rl Inr by (simp_all add: w_def)
    obtain v u2 where v: "at_store tgt (b_save_result sqlite_backend w) u1 = (v, u2)" by fastforce
    note vp = conjunct1 [OF at_store_parts [OF v]]
    have inv1: "sq_inv (u1 tgt)" using kept_inv [OF k1] by blast
    have k2: "kept tgt u1 u2" by (rule kept_write [OF kept_inv [OF k1] v sqlite.save_result_keeps [OF inv1 _ _ _ vp]]) simp_all
    have k: "kept tgt u u2" by (rule kept_trans [OF k1 k2])
    have f: "sq_snap (u2 tgt) = sq_snap (u1 tgt)" using sqlite.save_result_frame_h [OF inv1 _ _ _ vp] by simp
    show ?thesis
    proof (cases v)
      case (Inl e) then show ?thesis using Cons.prems(2) q v k eq1 f \<open>q = Inr rec\<close> by (auto simp: replica_record_at w_def)
    next
      case (Inr x)
      have vu: "v = Inr ()" using Inr by simp
      have so: "sq_rows (u2 tgt) i = sq_rows (u1 tgt) i @ [w]" "sq_memo (u2 tgt) i d (re_input_hash w) = Some (re_output_hash w, re_output w)"
        using sqlite.save_result_sound_h [OF inv1 _ _ _ _ _ _ _ vp [unfolded vu]] w by simp_all
      have rest: "copy_dominos_in (backend_at src sqlite_backend) (backend_at tgt sqlite_backend) i rows ds (n + 1) u2 = (r, u')"
        using Cons.prems(2) q v \<open>q = Inr rec\<close> Inr by (simp add: replica_record_at w_def)
      note IH = Cons.IH [OF kept_inv [OF k] rest]
      have "m = n + int (length (d # ds)) \<and> (\<exists>ws. sq_rows (u' tgt) i = sq_rows (u tgt) i @ ws \<and> map re_domino_id ws = d # ds
              \<and> (\<forall>w\<in>set ws. sq_memo (u' tgt) i (re_domino_id w) (re_input_hash w) = Some (re_output_hash w, re_output w)))"
        if "r = Inr m" for m
      proof -
        from IH that obtain ws where ws: "m = n + 1 + int (length ds)" "sq_rows (u' tgt) i = sq_rows (u2 tgt) i @ ws" "map re_domino_id ws = ds"
          "\<forall>w\<in>set ws. sq_memo (u' tgt) i (re_domino_id w) (re_input_hash w) = Some (re_output_hash w, re_output w)" by blast
        have "sqlite.keeps (u2 tgt) (u' tgt)" using IH by (simp add: kept_def)
        then have "sq_memo (u' tgt) i d (re_input_hash w) = Some (re_output_hash w, re_output w)" using so(2) by (simp add: sqlite.keeps_def)
        then show ?thesis using ws so(1) eq1 w by (intro conjI exI [of _ "w # ws"]) simp_all
      qed
      moreover have "kept tgt u u'" using kept_trans [OF k] IH by blast
      moreover have "sq_snap (u' tgt) = sq_snap (u tgt)" using IH f eq1 by simp
      ultimately show ?thesis by blast
    qed
  qed
qed

text \<open>What the target holds after a completed copy.\<close>

definition holds_copy :: "(opener \<Rightarrow> sqlite) \<Rightarrow> opener \<Rightarrow> opener \<Rightarrow> string \<Rightarrow> string list \<Rightarrow> (opener \<Rightarrow> sqlite) \<Rightarrow> bool" where
  "holds_copy u src tgt i ds u' \<longleftrightarrow>
     (\<exists>ts dt. sq_snap (u src) i = Some (ts, dt, True) \<and> sq_snap (u' tgt) i = Some (ts, dt, True))
     \<and> (\<exists>ws. sq_rows (u' tgt) i = sq_rows (u tgt) i @ ws \<and> map re_domino_id ws = ds
         \<and> (\<forall>w\<in>set ws. sq_memo (u' tgt) i (re_domino_id w) (re_input_hash w) = Some (re_output_hash w, re_output w)))"

lemma materialize_in_laws:
  assumes inv: "\<forall>op. sq_inv (u op)"
    and m: "materialize_in (backend_at src sqlite_backend) (backend_at tgt sqlite_backend) i ds u = (r, u')"
  shows "kept tgt u u' \<and> (\<forall>x. r = Inr x \<longrightarrow> mz_domino_count x = int (length ds) \<and> holds_copy u src tgt i ds u')"
proof (cases "i = ''''")
  case True then show ?thesis using m kept_refl [OF inv] by (auto simp: materialize_in_def)
next
  case ne: False
  obtain g u1 where g: "at_store src (b_get_snapshot sqlite_backend i) u = (g, u1)" by fastforce
  have invs: "sq_inv (u src)" using inv by blast
  note gp = conjunct1 [OF at_store_parts [OF g]]
  have k1: "kept tgt u u1" by (rule kept_read [OF inv g sqlite.get_snapshot_same [OF invs gp]])
  have r1: "sq_rows (u1 tgt) = sq_rows (u tgt)"
    using at_store_parts [OF g] sqlite.get_snapshot_same [OF invs gp] by (cases "tgt = src") (auto simp: sqlite.same_def)
  show ?thesis
  proof (cases "\<exists>ts dt. g = Inr (ts, dt, True)")
    case False
    then have "\<exists>e. r = Inl e" "u' = u1" using ne m g by (auto simp: materialize_in_def split: sum.splits prod.splits bool.splits)
    then show ?thesis using k1 by auto
  next
    case True
    then obtain ts dt where gs: "g = Inr (ts, dt, True)" by blast
    have sn: "sq_snap (u src) i = Some (ts, dt, True)" using sqlite.get_snapshot_sound [OF invs _ gp [unfolded gs]] by simp
    obtain v u2 where v: "at_store tgt (b_save_snapshot sqlite_backend i ts dt True) u1 = (v, u2)" by fastforce
    note vp = conjunct1 [OF at_store_parts [OF v]]
    have inv1: "sq_inv (u1 tgt)" using kept_inv [OF k1] by blast
    have k2: "kept tgt u u2" by (rule kept_trans [OF k1 kept_write [OF kept_inv [OF k1] v sqlite.save_snapshot_keeps [OF inv1 _ vp]]]) simp
    have r2: "sq_rows (u2 tgt) = sq_rows (u tgt)" using sqlite.save_snapshot_frame [OF inv1 _ vp] r1 by simp
    show ?thesis
    proof (cases v)
      case (Inl e)
      then have "\<exists>e. r = Inl e" "u' = u2" using ne m g gs v by (auto simp: materialize_in_def)
      then show ?thesis using k2 by auto
    next
      case vo: (Inr y)
      then have vu: "v = Inr ()" by simp
      have sb: "sq_snap (u2 tgt) i = Some (ts, dt, True)"
        using sqlite.save_snapshot_sound [OF inv1 _ _ _ vp [unfolded vu]] by simp
      obtain l u3 where l: "at_store src (b_list_replay sqlite_backend i) u2 = (l, u3)" by fastforce
      note lp = conjunct1 [OF at_store_parts [OF l]]
      have inv2: "sq_inv (u2 src)" using kept_inv [OF k2] by blast
      have k3: "kept tgt u u3" by (rule kept_trans [OF k2 kept_read [OF kept_inv [OF k2] l sqlite.list_replay_same [OF inv2 lp]]])
      have e3: "sq_rows (u3 tgt) = sq_rows (u tgt)" "sq_snap (u3 tgt) = sq_snap (u2 tgt)"
        using at_store_parts [OF l] sqlite.list_replay_same [OF inv2 lp] r2 by (cases "tgt = src"; auto simp: sqlite.same_def)+
      show ?thesis
      proof (cases l)
        case (Inl e)
        then have "\<exists>e. r = Inl e" "u' = u3" using ne m g gs v vo l by (auto simp: materialize_in_def)
        then show ?thesis using k3 by auto
      next
        case lo: (Inr rows)
        obtain c u4 where c: "copy_dominos_in (backend_at src sqlite_backend) (backend_at tgt sqlite_backend) i rows ds 0 u3 = (c, u4)" by fastforce
        have u4: "u' = u4" "r = (case c of Inl e \<Rightarrow> Inl e | Inr n \<Rightarrow> Inr \<lparr>mz_snapshot_copied = True, mz_domino_count = n\<rparr>)"
          using ne m g gs v vo l lo c by (auto simp: materialize_in_def split: sum.splits)
        note L = copy_dominos_in_laws [OF kept_inv [OF k3] c]
        have "kept tgt u u'" using kept_trans [OF k3] L u4 by blast
        then show ?thesis using L u4 sn sb e3 by (auto simp: holds_copy_def split: sum.splits)
      qed
    qed
  qed
qed



section \<open>What Ready rests on\<close>

lemma sync_from_consumer_laws:
  assumes "sq_inv s" "sync_from_consumer q sqlite_backend i chain s = ((p, eo), s')"
  shows "sqlite.keeps s s' \<and> (eo = None \<longrightarrow> (\<exists>envs. q = Inr envs \<and> int (length chain) \<le> sp_domino_count p
      \<and> sp_domino_count p = int (card (cd_domino_id ` set (dom_rows i envs)))
      \<and> ((\<forall>env\<in>set envs. env_op env \<noteq> op_delete) \<longrightarrow>
           (\<exists>ts dt. sq_snap s' i = Some (ts, dt, True)) \<and> sq_rows s' i = sq_rows s i @ map result_row (dom_rows i envs))))"
proof (cases q)
  case (Inl e) then show ?thesis using assms sqlite.keeps_refl by (auto simp: sync_from_consumer_def)
next
  case (Inr envs)
  obtain p1 e1 s1 where a: "apply_all sqlite_backend i envs s = ((p1, e1), s1)" by (metis prod.collapse)
  then have l: "apply_loop sqlite_backend i envs (no_progress, []) s = ((p1, e1), s1)" by (simp add: apply_all_def)
  note D = sqlite.apply_loop_delivers [OF assms(1) fits_sqlite l]
  have s': "s' = s1" "p = p1" "eo = None \<Longrightarrow> e1 = None \<and> is_complete p1 (int (length chain))"
    using assms(2) Inr a by (auto simp: sync_from_consumer_def split: option.splits if_splits)
  have "int (length chain) \<le> sp_domino_count p1 \<and> sp_domino_count p1 = int (card (cd_domino_id ` set (dom_rows i envs)))
      \<and> ((\<forall>env\<in>set envs. env_op env \<noteq> op_delete) \<longrightarrow>
           (\<exists>ts dt. sq_snap s1 i = Some (ts, dt, True)) \<and> sq_rows s1 i = sq_rows s i @ map result_row (dom_rows i envs))"
    if "eo = None"
  proof -
    have e: "e1 = None" "is_complete p1 (int (length chain))" using s'(3) [OF that] by simp_all
    have pr: "sp_domino_count p1 = int (card (cd_domino_id ` set (dom_rows i envs)))" "sp_snapshot_applied p1 = (snap_rows i envs \<noteq> [])"
      using apply_loop_progress [OF l [unfolded e(1)]] by (simp_all add: no_progress_def)
    have c: "snap_rows i envs \<noteq> []" "int (length chain) \<le> sp_domino_count p1"
      using e(2) pr by (auto simp: is_complete_def split: if_splits)
    obtain r where "r \<in> set (snap_rows i envs)" using c(1) by (cases "snap_rows i envs") auto
    then show ?thesis using D e(1) pr c(2) by (auto simp: sqlite.delivers_def)
  qed
  then show ?thesis using D s' Inr by auto
qed

lemma cdc_frame:
  "on_kube f c = (r, c1) \<Longrightarrow> cu_cdc c1 = cu_cdc c"
  "open_store g h c = (q, c1) \<Longrightarrow> cu_cdc c1 = cu_cdc c"
  by (auto simp: on_kube_def open_store_def Let_def split: prod.splits sum.splits option.splits)

fun replica_write :: "kube_write \<Rightarrow> api_replica option" where
  "replica_write (UpdateReplicaStatus rr) = Some rr"
| "replica_write _ = None"

abbreviation rr_phase :: "api_replica \<Rightarrow> string" where
  "rr_phase rr \<equiv> rst_phase (arr_status rr)"

text \<open>
  The snapshot is in the store the target resolves to, and only this store changed: copied
  from the store of the source workflow, or delivered by the consumer.
\<close>

definition copied :: "(sqlite, 'b) manager \<Rightarrow> (sqlite, 'b) cluster \<Rightarrow> opener \<Rightarrow> api_workflow \<Rightarrow> api_replica \<Rightarrow> (sqlite, 'b) cluster \<Rightarrow> bool" where
  "copied m c tgt k rr c' \<longleftrightarrow> rst_domino_count (arr_status rr) = int (length (ae_chain (aws_execution (awf_spec k))))
     \<and> (\<exists>kb src. runs (\<lambda>_. True) (cu_kube c) kb \<and> open_for_workflow (Some (context_client kb)) k (mg_store_root m) = Inr src
          \<and> holds_copy (cu_store c) src tgt (rs_snapshot_id (arr_spec rr)) (ae_chain (aws_execution (awf_spec k))) (cu_store c'))"

definition delivered :: "deliveries \<Rightarrow> (sqlite, 'b) cluster \<Rightarrow> opener \<Rightarrow> api_workflow \<Rightarrow> api_replica \<Rightarrow> (sqlite, 'b) cluster \<Rightarrow> bool" where
  "delivered dels c tgt k rr c' \<longleftrightarrow> (\<exists>envs. let i = rs_snapshot_id (arr_spec rr) in
     consume_for dels (cdc_consumer_for rr) i c = Inr envs
     \<and> int (length (ae_chain (aws_execution (awf_spec k)))) \<le> rst_domino_count (arr_status rr)
     \<and> rst_domino_count (arr_status rr) = int (card (cd_domino_id ` set (dom_rows i envs)))
     \<and> ((\<forall>env\<in>set envs. env_op env \<noteq> op_delete) \<longrightarrow> (\<exists>ts dt. sq_snap (cu_store c' tgt) i = Some (ts, dt, True))
          \<and> sq_rows (cu_store c' tgt) i = sq_rows (cu_store c tgt) i @ map result_row (dom_rows i envs)))"

definition replicated :: "(sqlite, 'b) manager \<Rightarrow> deliveries \<Rightarrow> (sqlite, 'b) cluster \<Rightarrow> api_replica \<Rightarrow> (sqlite, 'b) cluster \<Rightarrow> bool" where
  "replicated m dels c rr c' \<longleftrightarrow> (\<exists>n k kb tgt.
     kb_workflow (cu_kube c) n (rs_namespace (arr_spec rr), rs_workflow (arr_spec rr)) = Inr k
     \<and> runs (\<lambda>_. True) (cu_kube c) kb \<and> open_resolved (Some (context_client kb)) (fst (target_config rr (mg_store_root m))) = Inr tgt
     \<and> kept tgt (cu_store c) (cu_store c')
     \<and> (if replication_mode rr = ''cdc'' then delivered dels c tgt k rr c' else copied m c tgt k rr c'))"

text \<open>How a reconcile ends: without Ready, or with it at the end.\<close>

definition replica_ends :: "(sqlite, 'b) manager \<Rightarrow> deliveries \<Rightarrow> (sqlite, 'b) cluster \<Rightarrow> (sqlite, 'b) cluster \<Rightarrow> bool" where
  "replica_ends m dels c c' \<longleftrightarrow> stores_keep c c' \<and> (\<exists>l. adds replica_write c l c'
     \<and> (\<forall>rr \<in> set l. rr_phase rr = ''Ready'' \<longrightarrow> replicated m dels c rr c'))"

lemma replica_endsI:
  assumes "stores_keep c c'" "adds replica_write c l c'" "\<And>rr. rr \<in> set l \<Longrightarrow> rr_phase rr = ''Ready'' \<Longrightarrow> replicated m dels c rr c'"
  shows "replica_ends m dels c c'"
  unfolding replica_ends_def using assms by blast

lemma fail_replica_adds:
  assumes "fail_replica rr e c = (out, c1)"
  shows "\<exists>l. adds replica_write c l c1 \<and> cu_store c1 = cu_store c \<and> (\<forall>rr \<in> set l. rr_phase rr \<noteq> ''Ready'')"
proof -
  obtain now c2 where n: "on_world time_now c = (now, c2)" by fastforce
  define rr1 where "rr1 = set_replica_status (\<lambda>s. s\<lparr>rst_phase := ''Error'', rst_message := err_msg e,
            rst_conditions := [\<lparr>kc_type = ''Ready'', kc_status = ''False'', kc_observed_generation = 0,
              kc_last_transition = now, kc_reason = ''Error'', kc_message = err_msg e\<rparr>]\<rparr>) rr"
  obtain u where u: "on_kube (kube_put (UpdateReplicaStatus rr1)) c2 = (u, c1)"
    using assms n by (cases "on_kube (kube_put (UpdateReplicaStatus rr1)) c2") (auto simp: fail_replica_def rr1_def)
  have "adds replica_write c2 [rr1] c1" by (rule adds_put [OF on_kube_parts(1) [OF u]]) simp
  then have "adds replica_write c [rr1] c1" using adds_trans [OF adds_same [OF on_world_parts(1) [OF n]], of replica_write "[rr1]" c1] by simp
  moreover have "cu_store c1 = cu_store c" using on_kube_parts(2) [OF u] on_world_parts(2) [OF n] by simp
  ultimately show ?thesis by (intro exI [of _ "[rr1]"]) (simp add: rr1_def)
qed

lemma finish_replica_adds:
  assumes "finish_replica n path rr c = (out, c1)"
  shows "\<exists>rr1. adds replica_write c [rr1] c1 \<and> cu_store c1 = cu_store c \<and> arr_spec rr1 = arr_spec rr \<and> arr_meta rr1 = arr_meta rr
    \<and> rst_domino_count (arr_status rr1) = n"
proof -
  obtain now c2 where w: "on_world time_now c = (now, c2)" by fastforce
  let ?rr = "ready_replica n path now rr"
  have p: "on_kube (put_then (UpdateReplicaStatus ?rr) (no_requeue, None)) c2 = (out, c1)" using assms w by (simp add: finish_replica_def)
  have "adds replica_write c2 [?rr] c1 \<and> cu_store c1 = cu_store c2" by (rule adds_put_then [OF p]) simp
  then show ?thesis using adds_trans [OF adds_same [OF on_world_parts(1) [OF w]], of replica_write "[?rr]" c1] on_world_parts(2) [OF w]
    by (intro exI [of _ ?rr]) (simp add: ready_replica_def Let_def)
qed

text \<open>Only the status, not the specification, matters for where a replica goes.\<close>

lemma replica_cong:
  assumes "arr_spec rr1 = arr_spec rr" "arr_meta rr1 = arr_meta rr"
  shows "target_config rr1 = target_config rr" "cdc_consumer_for rr1 = cdc_consumer_for rr" "replication_mode rr1 = replication_mode rr"
  by (intro ext, unfold target_config_def assms) (rule refl, (simp_all only: cdc_consumer_for_def replication_mode_def assms))

lemma kept_upd:
  assumes "\<forall>op. sq_inv (u op)" "sqlite.keeps (u tgt) s" shows "kept tgt u (u(tgt := s))"
  using assms sqlite.same_refl sqlite.keeps_refl unfolding kept_def by simp

lemma stores_kept: "kept tgt (cu_store c) (cu_store c') \<Longrightarrow> stores_keep c c'"
  by (simp add: kept_def stores_keep_def)

lemma sync_replica_ends:
  assumes st: "sqlite_stores m c4" and "sync_replica m dels tgt path chain rr c4 = (out, c')"
    and base: "cu_store c4 = cu_store c" "cu_cdc c4 = cu_cdc c" "chain = ae_chain (aws_execution (awf_spec k))"
  shows "stores_keep c4 c' \<and> (\<exists>l. adds replica_write c4 l c' \<and> (\<forall>rr' \<in> set l. rr_phase rr' = ''Ready'' \<longrightarrow>
      arr_spec rr' = arr_spec rr \<and> arr_meta rr' = arr_meta rr \<and> kept tgt (cu_store c) (cu_store c') \<and> delivered dels c tgt k rr' c'))"
proof -
  let ?i = "rs_snapshot_id (arr_spec rr)" and ?q = "consume_for dels (cdc_consumer_for rr) (rs_snapshot_id (arr_spec rr)) c4"
  have B: "mg_backend m tgt = sqlite_backend" and inv: "\<forall>op. sq_inv (cu_store c4 op)" using st by (simp_all add: sqlite_stores_def)
  obtain p eo c5 where q: "on_backend tgt (sync_from_consumer ?q (mg_backend m tgt) ?i chain) c4 = ((p, eo), c5)" by (metis prod.collapse)
  note bp = on_backend_parts [OF q, unfolded B]
  have "sq_inv (cu_store c4 tgt)" using inv by blast
  note L = sync_from_consumer_laws [OF this bp(1)]
  have "kept tgt (cu_store c4) ((cu_store c4)(tgt := cu_store c5 tgt))" by (rule kept_upd [OF inv]) (use L in simp)
  then have k: "kept tgt (cu_store c4) (cu_store c5)" unfolding bp(4) [symmetric] .
  have a5: "adds replica_write c4 [] c5" by (rule adds_same [OF bp(2)])
  show ?thesis
  proof (cases eo)
    case (Some e)
    define rr1 where "rr1 = replica_phase ''Pending'' (''waiting for cdc events: '' @ err_msg e) rr"
    obtain u c6 where u: "on_kube (kube_put (UpdateReplicaStatus rr1)) c5 = (u, c6)" by fastforce
    then have "c6 = c'" using assms(2) q Some by (simp add: sync_replica_def Let_def rr1_def)
    then have u: "on_kube (kube_put (UpdateReplicaStatus rr1)) c5 = (u, c')" using u by simp
    have "adds replica_write c5 [rr1] c'" by (rule adds_put [OF on_kube_parts(1) [OF u]]) simp
    then have "adds replica_write c4 [rr1] c'" using adds_trans [OF a5, of "[rr1]" c'] by simp
    moreover have "rr_phase rr1 \<noteq> ''Ready''" by (simp add: rr1_def replica_phase_def)
    moreover have "stores_keep c4 c'" using stores_kept [OF k] on_kube_parts(2) [OF u] by (simp add: stores_keep_def)
    ultimately show ?thesis by (intro conjI exI [of _ "[rr1]"]) auto
  next
    case None
    then have f: "finish_replica (sp_domino_count p) path rr c5 = (out, c')" using assms(2) q by (simp add: sync_replica_def Let_def)
    from finish_replica_adds [OF f] obtain rr1 where rr1: "adds replica_write c5 [rr1] c'" "cu_store c' = cu_store c5"
        "arr_spec rr1 = arr_spec rr" "arr_meta rr1 = arr_meta rr" "rst_domino_count (arr_status rr1) = sp_domino_count p" by blast
    have "consume_for dels (cdc_consumer_for rr1) ?i c = ?q"
      using base(2) replica_cong(2) [OF rr1(3,4)] by (simp add: consume_for_def split: cdc_consumer.splits)
    then have "delivered dels c tgt k rr1 c'" using L None rr1(2,3,5) base(1,3) unfolding delivered_def Let_def by auto
    moreover have "adds replica_write c4 [rr1] c'" using adds_trans [OF a5 rr1(1)] by simp
    moreover have "stores_keep c4 c'" using stores_kept [OF k] rr1(2) by (simp add: stores_keep_def)
    ultimately show ?thesis using k rr1(2-4) base(1) by (intro conjI exI [of _ "[rr1]"]) auto
  qed
qed

lemma copy_replica_ends:
  assumes st: "sqlite_stores m c4" and "copy_replica m tgt path k rr c4 = (out, c')"
    and base: "cu_store c4 = cu_store c" "runs (\<lambda>_. True) (cu_kube c) (cu_kube c4)"
  shows "stores_keep c4 c' \<and> (\<exists>l. adds replica_write c4 l c' \<and> (\<forall>rr' \<in> set l. rr_phase rr' = ''Ready'' \<longrightarrow>
      arr_spec rr' = arr_spec rr \<and> arr_meta rr' = arr_meta rr \<and> kept tgt (cu_store c) (cu_store c') \<and> copied m c tgt k rr' c'))"
proof -
  let ?i = "rs_snapshot_id (arr_spec rr)" and ?ds = "ae_chain (aws_execution (awf_spec k))"
  have fails: ?thesis if "fail_replica rr e c5 = (out, c')" "adds replica_write c4 [] c5" "stores_keep c4 c5" for e c5
  proof -
    from fail_replica_adds [OF that(1)] obtain l where l: "adds replica_write c5 l c'" "cu_store c' = cu_store c5"
      "\<forall>rr \<in> set l. rr_phase rr \<noteq> ''Ready''" by blast
    then show ?thesis using adds_trans [OF that(2) l(1)] that(3) by (intro conjI exI [of _ l]) (auto simp: stores_keep_def)
  qed
  obtain o1 c5 where o: "open_store (\<lambda>cl. open_for_workflow cl k (mg_store_root m)) (wrapf ''open store'') c4 = (o1, c5)" by fastforce
  have t5: "adds replica_write c4 [] c5" "cu_store c5 = cu_store c4" "stores_keep c4 c5"
    using open_store_frame [OF o] stores_keep_same [OF st] by (auto intro: adds_silent)
  show ?thesis
  proof (cases o1)
    case (Inl e)
    then show ?thesis using fails [OF _ t5(1,3), of "wrapf ''open source store'' e"] assms(2) o by (simp add: copy_replica_def)
  next
    case op: (Inr src)
    have B: "mg_backend m = (\<lambda>_. sqlite_backend)" and inv: "\<forall>op. sq_inv (cu_store c4 op)" using st by (auto simp: sqlite_stores_def)
    obtain r u' where m: "materialize_in (backend_at src sqlite_backend) (backend_at tgt sqlite_backend) ?i ?ds (cu_store c4) = (r, u')" by fastforce
    note L = materialize_in_laws [OF inv m]
    let ?c6 = "c5\<lparr>cu_store := u'\<rparr>"
    have s6: "on_stores (materialize_in (backend_at src (mg_backend m src)) (backend_at tgt (mg_backend m tgt)) ?i ?ds) c5 = (r, ?c6)"
      using m t5(2) B by (simp add: on_stores_def)
    have t6: "adds replica_write c4 [] ?c6" "stores_keep c4 ?c6"
      using adds_trans [OF t5(1) adds_same [of ?c6 c5]] stores_kept [of tgt c4 ?c6] L by simp_all
    show ?thesis
    proof (cases r)
      case (Inl e)
      then show ?thesis using fails [OF _ t6, of e] assms(2) o op s6 by (simp add: copy_replica_def)
    next
      case (Inr x)
      then have f: "finish_replica (mz_domino_count x) path rr ?c6 = (out, c')" using assms(2) o op s6 by (simp add: copy_replica_def)
      from finish_replica_adds [OF f] obtain rr1 where rr1: "adds replica_write ?c6 [rr1] c'" "cu_store c' = u'"
          "arr_spec rr1 = arr_spec rr" "arr_meta rr1 = arr_meta rr" "rst_domino_count (arr_status rr1) = mz_domino_count x" by auto
      have "copied m c tgt k rr1 c'" unfolding copied_def rr1(3,5)
        using L Inr rr1(2) base open_store_Inr [OF o [unfolded op]] by (intro conjI exI [of _ "cu_kube c4"] exI [of _ src]) auto
      moreover have "adds replica_write c4 [rr1] c'" using adds_trans [OF t6(1) rr1(1)] by simp
      moreover have "stores_keep c4 c'" using t6(2) rr1(2) by (simp add: stores_keep_def)
      ultimately show ?thesis using L rr1(2-4) base(1) by (intro conjI exI [of _ "[rr1]"]) auto
    qed
  qed
qed

lemma replica_ends_none:
  assumes "sqlite_stores m c" "adds replica_write c [] c'" "cu_store c' = cu_store c" shows "replica_ends m dels c c'"
  by (rule replica_endsI [OF stores_keep_same [OF assms(1,3)] assms(2)]) simp

lemma fail_replica_ends:
  assumes "sqlite_stores m c" "fail_replica rr e c1 = (out, c')" "adds replica_write c [] c1" "cu_store c1 = cu_store c"
  shows "replica_ends m dels c c'"
proof -
  from fail_replica_adds [OF assms(2)] obtain l where l: "adds replica_write c1 l c'" "cu_store c' = cu_store c1"
    "\<forall>rr \<in> set l. rr_phase rr \<noteq> ''Ready''" by blast
  show ?thesis by (rule replica_endsI [OF stores_keep_same [OF assms(1)], of _ l]) (use adds_trans [OF assms(3) l(1)] l(2,3) assms(4) in auto)
qed

text \<open>From the status Materializing on.\<close>

lemma start_replica_ends:
  assumes st: "sqlite_stores m c" and t3: "adds replica_write c [] c3" "cu_store c3 = cu_store c" "cu_cdc c3 = cu_cdc c"
    and u: "on_kube (kube_put (UpdateReplicaStatus rr1)) c3 = (u, c4)"
    and rr1: "arr_spec rr1 = arr_spec rr" "arr_meta rr1 = arr_meta rr" "rr_phase rr1 \<noteq> ''Ready''"
    and step: "(case u of Some e \<Rightarrow> ((no_requeue, Some e), c4) | None \<Rightarrow>
            if replication_mode rr = ''cdc'' then sync_replica m dels tgt path (ae_chain (aws_execution (awf_spec k))) rr1 c4
            else copy_replica m tgt path k rr1 c4) = (out, c')"
    and found: "kb_workflow (cu_kube c) n (rs_namespace (arr_spec rr), rs_workflow (arr_spec rr)) = Inr k"
      "runs (\<lambda>_. True) (cu_kube c) kb" "open_resolved (Some (context_client kb)) (fst (target_config rr (mg_store_root m))) = Inr tgt"
  shows "replica_ends m dels c c'"
proof -
  have "adds replica_write c3 [rr1] c4" by (rule adds_put [OF on_kube_parts(1) [OF u]]) simp
  then have a4: "adds replica_write c [rr1] c4" using adds_trans [OF t3(1), of "[rr1]" c4] by simp
  have t4: "cu_store c4 = cu_store c" "cu_cdc c4 = cu_cdc c" using on_kube_parts(2) [OF u] t3(2,3) cdc_frame(1) [OF u] by simp_all
  have k4: "stores_keep c c4" by (rule stores_keep_same [OF st t4(1)])
  have st4: "sqlite_stores m c4" using st t4(1) by (simp add: sqlite_stores_def)
  show ?thesis
  proof (cases u)
    case (Some e) then show ?thesis using replica_endsI [OF k4 a4] rr1(3) step by auto
  next
    case None
    have "stores_keep c4 c' \<and> (\<exists>l. adds replica_write c4 l c' \<and> (\<forall>rr' \<in> set l. rr_phase rr' = ''Ready'' \<longrightarrow>
        arr_spec rr' = arr_spec rr1 \<and> arr_meta rr' = arr_meta rr1 \<and> kept tgt (cu_store c) (cu_store c')
        \<and> (if replication_mode rr = ''cdc'' then delivered dels c tgt k rr' c' else copied m c tgt k rr' c')))"
      using sync_replica_ends [OF st4 _ t4 refl] copy_replica_ends [OF st4 _ t4(1) adds_server [OF a4]] step None by (auto split: if_splits)
    then obtain l where l: "stores_keep c4 c'" "adds replica_write c4 l c'" "\<forall>rr' \<in> set l. rr_phase rr' = ''Ready'' \<longrightarrow>
        arr_spec rr' = arr_spec rr1 \<and> arr_meta rr' = arr_meta rr1 \<and> kept tgt (cu_store c) (cu_store c')
        \<and> (if replication_mode rr = ''cdc'' then delivered dels c tgt k rr' c' else copied m c tgt k rr' c')" by blast
    have "replicated m dels c rr' c'" if "rr' \<in> set (rr1 # l)" "rr_phase rr' = ''Ready''" for rr'
    proof -
      have "rr' \<in> set l" using that rr1(3) by auto
      with l(3) that have r: "arr_spec rr' = arr_spec rr" "arr_meta rr' = arr_meta rr" "kept tgt (cu_store c) (cu_store c')"
        "if replication_mode rr = ''cdc'' then delivered dels c tgt k rr' c' else copied m c tgt k rr' c'" using rr1 by auto
      note cong = replica_cong [OF r(1,2)]
      show ?thesis unfolding replicated_def cong(1,3) r(1)
        using found r(3,4) by (intro exI [of _ n] exI [of _ k] exI [of _ kb] exI [of _ tgt] conjI)
    qed
    then show ?thesis using replica_endsI [OF stores_keep_trans [OF k4 l(1)], of "rr1 # l"] adds_trans [OF a4 l(2)] by simp
  qed
qed

lemma open_target_parts:
  assumes "open_target_store m rr c = (q, c1)"
  obtains o1 where "open_store (\<lambda>cl. open_resolved cl (fst (target_config rr (mg_store_root m)))) (\<lambda>e. e) c = (o1, c1)"
    "q = (case o1 of Inl e \<Rightarrow> Inl e | Inr op \<Rightarrow> Inr (op, snd (target_config rr (mg_store_root m))))"
  using assms by (auto simp: open_target_store_def split: prod.splits sum.splits)

lemma reconcile_replica_ends:
  assumes st: "sqlite_stores m c" and r: "reconcile_replica m dels key c = (out, c')" shows "replica_ends m dels c c'"
proof -
  obtain g c1 where g: "on_kube (kube_get kb_replica key) c = (g, c1)" by fastforce
  have t1: "adds replica_write c [] c1" "cu_store c1 = cu_store c"
    using adds_silent [OF runs_get [OF on_kube_parts(1) [OF g]]] on_kube_parts(2) [OF g] by simp_all
  consider "c' = c1" | rr where "g = Inr rr" "\<not> (rst_observed_generation (arr_status rr) = km_generation (arr_meta rr) \<and> rr_phase rr = ''Ready'')"
    using r g by (fastforce simp: reconcile_replica_def split: sum.splits if_splits)
  then show ?thesis
  proof cases
    case 1 then show ?thesis using replica_ends_none [OF st] t1 by simp
  next
    case 2
    let ?key = "(rs_namespace (arr_spec rr), rs_workflow (arr_spec rr))"
    obtain q c2 where q: "on_kube (kube_get kb_workflow ?key) c1 = (q, c2)" by fastforce
    have t2: "adds replica_write c [] c2" "cu_store c2 = cu_store c"
      using adds_trans [OF t1(1) adds_silent [OF runs_get [OF on_kube_parts(1) [OF q]]]] on_kube_parts(2) [OF q] t1(2) by simp_all
    obtain o2 c3 where ot: "open_target_store m rr c2 = (o2, c3)" by fastforce
    from open_target_parts [OF ot] obtain o1 where
      o: "open_store (\<lambda>cl. open_resolved cl (fst (target_config rr (mg_store_root m)))) (\<lambda>e. e) c2 = (o1, c3)"
        "o2 = (case o1 of Inl e \<Rightarrow> Inl e | Inr op \<Rightarrow> Inr (op, snd (target_config rr (mg_store_root m))))" .
    have t3: "adds replica_write c [] c3" "cu_store c3 = cu_store c" "cu_cdc c3 = cu_cdc c"
      using adds_trans [OF t2(1) adds_silent [of replica_write c2 c3]] open_store_frame [OF o(1)] t2(2)
        cdc_frame(1) [OF g] cdc_frame(1) [OF q] cdc_frame(2) [OF o(1)] by simp_all
    define rr1 where "rr1 = replica_phase ''Materializing'' (''materializing via '' @ replication_mode rr) rr"
    have same: "arr_spec rr1 = arr_spec rr" "arr_meta rr1 = arr_meta rr" "rr_phase rr1 \<noteq> ''Ready''" by (simp_all add: rr1_def replica_phase_def)
    obtain u c4 where u: "on_kube (kube_put (UpdateReplicaStatus rr1)) c3 = (u, c4)" by fastforce
    show ?thesis
    proof (cases q)
      case (Inl e)
      then have "fail_replica rr (wrapf ''source workflow'' e) c2 = (out, c')" using r g 2 q by (auto simp: reconcile_replica_def)
      from fail_replica_ends [OF st this t2] show ?thesis .
    next
      case k: (Inr k)
      have wfk: "kb_workflow (cu_kube c) (kb_tick (cu_kube c1)) ?key = Inr k"
        using kube_get_value [OF on_kube_parts(1) [OF q]] k runs_server [OF adds_server [OF t1(1)]] by simp
      show ?thesis
      proof (cases o1)
        case (Inl e)
        then have "fail_replica rr (wrapf ''open target store'' e) c3 = (out, c')" using r g 2 q k ot o(2) by (auto simp: reconcile_replica_def)
        from fail_replica_ends [OF st this t3(1,2)] show ?thesis .
      next
        case tgt: (Inr tgt)
        have "(case u of Some e \<Rightarrow> ((no_requeue, Some e), c4) | None \<Rightarrow>
            if replication_mode rr = ''cdc'' then sync_replica m dels tgt (snd (target_config rr (mg_store_root m))) (ae_chain (aws_execution (awf_spec k))) rr1 c4
            else copy_replica m tgt (snd (target_config rr (mg_store_root m))) k rr1 c4) = (out, c')"
          using r g 2 q k ot o(2) tgt u by (auto simp: reconcile_replica_def rr1_def Let_def split: option.splits)
        from start_replica_ends [OF st t3 u same this wfk adds_server [OF t2(1)] open_store_Inr [OF o(1) [unfolded tgt]]] show ?thesis .
      qed
    qed
  qed
qed


definition plain_replica :: api_replica where
  "plain_replica = \<lparr>arr_meta = (new_meta ''r'' ''ns'' [])\<lparr>km_generation := 1\<rparr>,
     arr_spec = \<lparr>rs_multiverse_ref = ''mv'', rs_routed_event_id = ''e'', rs_snapshot_id = ''s'', rs_workflow = ''w'', rs_namespace = ''ns'',
       rs_time_slice = ''t'', rs_universe = ''u'', rs_context_ref = '''', rs_universe_ref = '''', rs_output_hash = '''', rs_partitions = [],
       rs_mode = '''', rs_cdc = None\<rparr>,
     arr_status = \<lparr>rst_observed_generation = 0, rst_phase = '''', rst_domino_count = 0, rst_store_path = '''', rst_materialized_at = None,
       rst_message = '''', rst_conditions = []\<rparr>\<rparr>"



definition replica_cluster :: "(sqlite, unit) cluster" where
  "replica_cluster = (idle_cluster (empty_kube\<lparr>kb_replica := \<lambda>_ _. Inr plain_replica,
     kb_workflow := \<lambda>_ _. Inr (plain_workflow ''w'' [] [''d''])\<rparr>))\<lparr>cu_store := \<lambda>_. demo_source\<rparr>"

lemma demo_source_copy:
  "\<exists>u'. materialize_in (backend_at src sqlite_backend) (backend_at tgt sqlite_backend) ''s'' [''d''] (\<lambda>_. demo_source)
     = (Inr \<lparr>mz_snapshot_copied = True, mz_domino_count = 1\<rparr>, u')"
  by (simp add: materialize_in_def replica_record_at at_store_def sqlite_backend_def demo_source_def demo_row_def sq_empty_def
        sq_get_snapshot_def sq_call_def sq_save_snapshot_def refuse_sealed_mutation_def sq_list_replay_def replica_record_def
        last_spine_result_find sq_save_result_def sq_save_tx_def sq_save_memo_def sq_lookup_memo_def refuse_memo_conflict_def
        sq_insert_result_def)

lemma plain_replica_ready:
  fixes m :: "(sqlite, 'b) manager"
  assumes "mg_store_root m = ''''" "mg_backend m = (\<lambda>_. sqlite_backend)" "cu_store c = (\<lambda>_. demo_source)"
    "cu_open c = (\<lambda>_ _. None)" "cu_opened c = 0" "cu_kube c = empty_kube\<lparr>kb_replica := \<lambda>_ _. Inr plain_replica,
       kb_workflow := \<lambda>_ _. Inr (plain_workflow ''w'' [] [''d''])\<rparr>"
  shows "\<exists>out c' rr. reconcile_replica m (\<lambda>_ _. []) (''ns'', ''r'') c = (out, c') \<and> rr \<in> set (said replica_write c')
    \<and> rr_phase rr = ''Ready'' \<and> arr_spec rr = arr_spec plain_replica \<and> arr_meta rr = arr_meta plain_replica"
proof -
  let ?k = "plain_workflow ''w'' [] [''d'']" and ?src = "OpenSQLite ''ns/w.db''"
    and ?tgt = "OpenSQLite ''/var/kbl/store/ns/replicas/u.db''" and ?dels = "\<lambda>_ _. [] :: kafka_read list"
  let ?rr = "replica_phase ''Materializing'' (''materializing via '' @ replication_mode plain_replica) plain_replica"
  obtain out c' where r: "reconcile_replica m ?dels (''ns'', ''r'') c = (out, c')" by fastforce
  define c2 where "c2 = c\<lparr>cu_kube := (cu_kube c)\<lparr>kb_tick := Suc (Suc 0)\<rparr>\<rparr>"
  define c3 where "c3 = c2\<lparr>cu_kube := (cu_kube c2)\<lparr>kb_tick := Suc (Suc (Suc 0))\<rparr>, cu_opened := Suc 0\<rparr>"
  define c4 where "c4 = c3\<lparr>cu_kube := (cu_kube c3)\<lparr>kb_tick := Suc (Suc (Suc (Suc 0))), kb_log := [UpdateReplicaStatus ?rr]\<rparr>\<rparr>"
  define c5 where "c5 = c4\<lparr>cu_kube := (cu_kube c4)\<lparr>kb_tick := Suc (Suc (Suc (Suc (Suc 0))))\<rparr>, cu_opened := Suc (Suc 0)\<rparr>"
  have path: "path_join [''/var/kbl/store'', ''ns'', ''replicas'', ''u.db''] = ''/var/kbl/store/ns/replicas/u.db''"
    "path_join ['''', ''ns'', ''w.db''] = ''ns/w.db''" by code_simp+
  have gets: "on_kube (kube_get kb_replica (''ns'', ''r'')) c = (Inr plain_replica, c\<lparr>cu_kube := (cu_kube c)\<lparr>kb_tick := Suc 0\<rparr>\<rparr>)"
    "on_kube (kube_get kb_workflow (''ns'', ''w'')) (c\<lparr>cu_kube := (cu_kube c)\<lparr>kb_tick := Suc 0\<rparr>\<rparr>) = (Inr ?k, c2)"
    using assms by (simp_all add: on_kube_def kube_get_def c2_def empty_kube_def)
  have tgt: "open_target_store m plain_replica c2 = (Inr (?tgt, ''/var/kbl/store/ns/replicas/u.db''), c3)"
    using path assms by (simp add: open_target_store_def target_config_def open_store_def open_resolved_def context_override_def plain_replica_def 
        new_meta_def is_postgres_dsn_def has_prefix_def open_backend_def c3_def c2_def Let_def)
  have put: "on_kube (kube_put (UpdateReplicaStatus ?rr)) c3 = (None, c4)"
    using assms by (simp add: on_kube_def kube_put_def c4_def c3_def c2_def empty_kube_def)
  have src: "open_store (\<lambda>cl. open_for_workflow cl ?k (mg_store_root m)) (wrapf ''open store'') c4 = (Inr ?src, c5)"
    using path assms by (simp add: open_store_def open_for_workflow_def config_from_workflow_def plain_workflow_def no_provisioning_def no_routing_def wrap_open_def
        open_resolved_def context_override_def new_meta_def is_postgres_dsn_def is_tsdb_path_def has_prefix_def open_backend_def
        c5_def c4_def c3_def c2_def Let_def)
  obtain u' where u': "materialize_in (backend_at ?src sqlite_backend) (backend_at ?tgt sqlite_backend) ''s'' [''d''] (\<lambda>_. demo_source)
     = (Inr \<lparr>mz_snapshot_copied = True, mz_domino_count = 1\<rparr>, u')" using demo_source_copy by blast
  have copy: "on_stores (materialize_in (backend_at ?src (mg_backend m ?src)) (backend_at ?tgt (mg_backend m ?tgt)) ''s'' [''d'']) c5
      = (Inr \<lparr>mz_snapshot_copied = True, mz_domino_count = 1\<rparr>, c5\<lparr>cu_store := u'\<rparr>)"
    using u' assms by (simp add: on_stores_def c5_def c4_def c3_def c2_def)
  have spec: "rs_snapshot_id (arr_spec ?rr) = ''s''" "ae_chain (aws_execution (awf_spec ?k)) = [''d'']" "replication_mode plain_replica = ''direct''"
    "rs_namespace (arr_spec plain_replica) = ''ns''" "rs_workflow (arr_spec plain_replica) = ''w''"
    "rst_observed_generation (arr_status plain_replica) \<noteq> km_generation (arr_meta plain_replica)"
    by (simp_all add: plain_replica_def plain_workflow_def replica_phase_def replication_mode_def)
  have "finish_replica 1 ''/var/kbl/store/ns/replicas/u.db'' ?rr (c5\<lparr>cu_store := u'\<rparr>) = (out, c')"
    using r gets tgt put src copy spec by (simp add: reconcile_replica_def copy_replica_def Let_def)
  moreover obtain now c6 where n: "on_world time_now (c5\<lparr>cu_store := u'\<rparr>) = (now, c6)" by fastforce
  ultimately have fin: "on_kube (put_then (UpdateReplicaStatus (ready_replica 1 ''/var/kbl/store/ns/replicas/u.db'' now ?rr)) (no_requeue, None)) c6 = (out, c')"
    by (simp add: finish_replica_def)
  let ?done = "ready_replica 1 ''/var/kbl/store/ns/replicas/u.db'' now ?rr"
  have rdy: "?done \<in> set (said replica_write c')" "rr_phase ?done = ''Ready''"
    using adds_put_then [OF fin, of replica_write ?done] by (simp_all add: adds_def ready_replica_def Let_def)
  have "arr_spec ?done = arr_spec plain_replica" "arr_meta ?done = arr_meta plain_replica" by (simp_all add: ready_replica_def replica_phase_def Let_def)
  with r rdy show ?thesis by (intro exI conjI)
qed


end
