(* ===== verification/MultiverseCtl.thy ===== *)
theory MultiverseCtl
  imports Operator
begin

text \<open>
  The multiverse controller (\<open>internal/controller/multiverse_controller.go\<close> and
  \<open>multiverse_replicas.go\<close>): it validates the universes of a multiverse, reports the
  connection to Kafka, and subscribes to the event bus, once per multiverse, a handler that
  routes every snapshot event and creates a read replica in the universe it goes to.  The
  handlers run when another controller publishes on the bus; a subscription is kept as the
  data the handler's closure captures, so that the bus is a plain state of the cluster.
\<close>

section \<open>Read replicas of an event\<close>

definition name_char :: "char \<Rightarrow> bool" where
  "name_char ch \<longleftrightarrow> (CHR ''a'' \<le> ch \<and> ch \<le> CHR ''z'') \<or> (CHR ''0'' \<le> ch \<and> ch \<le> CHR ''9'') \<or> ch = CHR ''-''"

text \<open>\<open>ReplaceAllString\<close> of \<open>[^a-z0-9-]+\<close> by a dash: one dash per run of other bytes, \<open>inside\<close> one of them.\<close>

fun sanitize_runs :: "bool \<Rightarrow> string \<Rightarrow> string" where
  "sanitize_runs inside [] = []"
| "sanitize_runs inside (ch # cs) =
     (if name_char ch then ch # sanitize_runs False cs
      else if inside then sanitize_runs True cs else CHR ''-'' # sanitize_runs True cs)"

definition truncate_id :: "string \<Rightarrow> nat \<Rightarrow> string" where
  "truncate_id i n = (if length i \<le> n then i else take n i)"

definition read_replica_name :: "snapshot_event \<Rightarrow> target \<Rightarrow> string" where
  "read_replica_name evt tgt =
     (let parts = [''replica'', ev_workflow evt, truncate_id (ev_snapshot_id evt) 8, tg_universe tgt];
          name = to_lower (join_with ''-'' parts);
          name = sanitize_runs False name;
          name = trim_char (CHR ''-'') name
      in if 63 < length name then trim_right_char (CHR ''-'') (take 63 name) else name)"

definition replica_of :: "api_multiverse \<Rightarrow> snapshot_event \<Rightarrow> target \<Rightarrow> api_replica" where
  "replica_of mv evt tgt =
     (let synced = (case ms_sync (amv_spec mv) of Some sy \<Rightarrow> sy_enabled sy | None \<Rightarrow> False)
      in \<lparr>arr_meta = owned_by ''Multiverse'' (amv_meta mv)
            (new_meta (read_replica_name evt tgt) (km_namespace (amv_meta mv))
               [(''kbl.io/multiverse'', km_name (amv_meta mv)), (''kbl.io/target-universe'', tg_universe tgt),
                (''kbl.io/source-workflow'', ev_workflow evt)]),
          arr_spec = \<lparr>rs_multiverse_ref = km_name (amv_meta mv), rs_routed_event_id = ev_event_id evt,
            rs_snapshot_id = ev_snapshot_id evt, rs_workflow = ev_workflow evt, rs_namespace = ev_namespace evt,
            rs_time_slice = ev_time_slice evt, rs_universe = tg_universe tgt, rs_context_ref = tg_context_ref tgt,
            rs_universe_ref = tg_pluggable tgt, rs_output_hash = ev_final_output evt, rs_partitions = ev_partitions evt,
            rs_mode = (if synced then ''cdc'' else ''direct''),
            rs_cdc = (if synced then Some (cdc_sync_from_multiverse mv) else None)\<rparr>,
          arr_status = \<lparr>rst_observed_generation = 0, rst_phase = '''', rst_domino_count = 0, rst_store_path = '''',
            rst_materialized_at = None, rst_message = '''', rst_conditions = []\<rparr>\<rparr>)"

definition ensure_read_replica :: "api_multiverse \<Rightarrow> snapshot_event \<Rightarrow> target \<Rightarrow> kube \<Rightarrow> err option \<times> kube" where
  "ensure_read_replica mv evt tgt kb =
     (case kube_get kb_replica (km_namespace (amv_meta mv), read_replica_name evt tgt) kb of
        (Inr _, kb1) \<Rightarrow> (None, kb1)
      | (Inl e, kb1) \<Rightarrow>
          if \<not> api_is_not_found e then (Some e, kb1)
          else kube_put (CreateReplica (replica_of mv evt tgt)) kb1)"

section \<open>The handler\<close>

definition append_routed_event :: "routed_event list \<Rightarrow> routed_event \<Rightarrow> nat \<Rightarrow> routed_event list" where
  "append_routed_event existing evt mx =
     (if list_ex (\<lambda>e. ro_event_id e = ro_event_id evt) existing then existing
      else let out = existing @ [evt] in if length out > mx then drop (length out - mx) out else out)"

definition routed_record :: "snapshot_event \<Rightarrow> target \<Rightarrow> int \<Rightarrow> routed_event" where
  "routed_record evt tgt now =
     \<lparr>ro_event_id = ev_event_id evt, ro_snapshot_id = ev_snapshot_id evt, ro_time_slice = ev_time_slice evt,
      ro_workflow = ev_namespace evt @ ''/'' @ ev_workflow evt, ro_universe = tg_universe tgt,
      ro_context_ref = tg_context_ref tgt, ro_routed_at = format_rfc3339 now\<rparr>"

abbreviation set_multiverse_status :: "(multiverse_status \<Rightarrow> multiverse_status) \<Rightarrow> api_multiverse \<Rightarrow> api_multiverse" where
  "set_multiverse_status f mv \<equiv> mv\<lparr>amv_status := f (amv_status mv)\<rparr>"

text \<open>The handler of the multiverse \<open>name\<close>, with the specification it had when it subscribed.\<close>

definition multiverse_handler :: "string \<times> string \<times> multiverse_spec \<Rightarrow> (kube \<times> world) handler" where
  "multiverse_handler sub evt st =
     (case sub of (ns, name, spec) \<Rightarrow> case st of (kb, w) \<Rightarrow>
        if ev_multiverse evt \<noteq> '''' \<and> ev_multiverse evt \<noteq> name then (Inr (), kb, w)
        else (case resolve_route (Some (new_router spec)) evt of
          Inl _ \<Rightarrow> (Inr (), kb, w)
        | Inr tgt \<Rightarrow>
          (case kube_get kb_multiverse (ns, name) kb of
            (Inl e, kb1) \<Rightarrow> (Inl e, kb1, w)
          | (Inr latest, kb1) \<Rightarrow>
              let (now, w1) = time_now w;
                  latest1 = set_multiverse_status (\<lambda>s. s\<lparr>mst_routed :=
                    append_routed_event (mst_routed s) (routed_record evt tgt now) 50\<rparr>) latest
              in (case kube_put (UpdateMultiverseStatus latest1) kb1 of
                    (Some e, kb2) \<Rightarrow> (Inl e, kb2, w1)
                  | (None, kb2) \<Rightarrow>
                      (case ensure_read_replica latest1 evt tgt kb2 of
                         (Some e, kb3) \<Rightarrow> (Inl e, kb3, w1) | (None, kb3) \<Rightarrow> (Inr (), kb3, w1))))))"

section \<open>The bus with its subscriptions\<close>

text \<open>
  The in-process bus of \<open>Events\<close> whose handlers are all handlers of multiverses, and the
  reconciler's map of the multiverses that subscribed.  A reconciler without a bus has \<open>None\<close>.
\<close>

record routing_bus =
  rb_subs :: "(string \<times> string \<times> multiverse_spec) list"
  rb_seen :: "string list"
  rb_published :: "snapshot_event list"
  rb_closed :: bool

record multiverse_ctrl =
  mc_bus :: "routing_bus option"
  mc_subscribed :: "string list"

definition memory_bus_of :: "routing_bus \<Rightarrow> (kube \<times> world) memory_bus" where
  "memory_bus_of b = \<lparr>mb_handlers = map multiverse_handler (rb_subs b), mb_seen = rb_seen b,
     mb_published = rb_published b, mb_closed = rb_closed b\<rparr>"

definition routing_publisher :: "multiverse_ctrl publisher" where
  "routing_publisher evt st =
     (case st of (kb, w, mc) \<Rightarrow>
      (case mc_bus mc of
         None \<Rightarrow> (noop_publish evt, kb, w, mc)
       | Some b \<Rightarrow> (case memory_publish evt (memory_bus_of b) (kb, w) of
            (r, b', kb', w') \<Rightarrow>
              (r, kb', w', mc\<lparr>mc_bus := Some (b\<lparr>rb_seen := mb_seen b', rb_published := mb_published b'\<rparr>)\<rparr>))))"

definition multiverse_key :: "api_multiverse \<Rightarrow> string" where
  "multiverse_key mv = km_namespace (amv_meta mv) @ ''/'' @ km_name (amv_meta mv)"

text \<open>\<open>Inl\<close>: the bus refused; the map has the multiverse all the same.\<close>

definition ensure_subscription :: "api_multiverse \<Rightarrow> multiverse_ctrl \<Rightarrow> unit res \<times> multiverse_ctrl" where
  "ensure_subscription mv mc =
     (if multiverse_key mv \<in> set (mc_subscribed mc) then (Inr (), mc)
      else
        let mc1 = mc\<lparr>mc_subscribed := multiverse_key mv # mc_subscribed mc\<rparr>
        in (case mc_bus mc1 of
              None \<Rightarrow> (Inr (), mc1)
            | Some b \<Rightarrow>
                if rb_closed b then (Inl err_canceled, mc1)
                else (Inr (), mc1\<lparr>mc_bus := Some (b\<lparr>rb_subs := rb_subs b
                   @ [(km_namespace (amv_meta mv), km_name (amv_meta mv), amv_spec mv)]\<rparr>)\<rparr>)))"

section \<open>Reconcile\<close>

definition multiverse_finalizer :: string where
  "multiverse_finalizer = ''kbl.io/multiverse-finalizer''"

definition on_bus :: "('b \<Rightarrow> 'r \<times> 'b) \<Rightarrow> ('s, 'b) cluster \<Rightarrow> 'r \<times> ('s, 'b) cluster" where
  "on_bus f c = (case f (cu_bus c) of (r, b) \<Rightarrow> (r, c\<lparr>cu_bus := b\<rparr>))"

definition finalize_multiverse :: "api_multiverse \<Rightarrow> ('s, multiverse_ctrl) cluster \<Rightarrow> outcome \<times> ('s, multiverse_ctrl) cluster" where
  "finalize_multiverse mv c =
     (let (err, c1) = (if contains_finalizer multiverse_finalizer (amv_meta mv)
            then on_kube (kube_put (UpdateMultiverse (mv\<lparr>amv_meta := remove_finalizer multiverse_finalizer (amv_meta mv)\<rparr>))) c
            else (None, c))
      in (case err of
            Some e \<Rightarrow> ((no_requeue, Some e), c1)
          | None \<Rightarrow> ((no_requeue, None), snd (on_bus (\<lambda>mc. ((), mc\<lparr>mc_subscribed :=
              filter (\<lambda>k. k \<noteq> multiverse_key mv) (mc_subscribed mc)\<rparr>)) c1))))"

definition fail_multiverse :: "api_multiverse \<Rightarrow> err \<Rightarrow> ('s, 'b) cluster \<Rightarrow> outcome \<times> ('s, 'b) cluster" where
  "fail_multiverse mv e c =
     ((no_requeue, Some e), snd (on_kube (kube_put (UpdateMultiverseStatus
        (set_multiverse_status (\<lambda>s. s\<lparr>mst_phase := ''Degraded'', mst_message := err_msg e\<rparr>) mv))) c))"

fun check_universes :: "universe_route list \<Rightarrow> kube \<Rightarrow> err option \<times> kube" where
  "check_universes [] kb = (None, kb)"
| "check_universes (u # us) kb =
     (case validate_universe_ref (ur_universe_ref u) kb of
        (Some e, kb1) \<Rightarrow>
          (Some (wrapf (''universe '' @ quote (ur_name u) @ '' ref '' @ quote (ur_universe_ref u)) e), kb1)
      | (None, kb1) \<Rightarrow> check_universes us kb1)"

text \<open>\<open>dial\<close> and \<open>brokers\<close> are the network's answers to \<open>events.Ping\<close>.\<close>

record kafka_net =
  kn_dial :: "string \<Rightarrow> unit res"
  kn_brokers :: "string \<Rightarrow> unit res"

definition note_kafka :: "kafka_net \<Rightarrow> api_multiverse \<Rightarrow> api_multiverse" where
  "note_kafka net mv =
     (case ms_sync (amv_spec mv) of
        Some sy \<Rightarrow> if sy_enabled sy then
           (case sy_kafka sy of
              Some ks \<Rightarrow> (case kafka_ping (kn_dial net) (kn_brokers net) (ks_brokers ks) of
                  Inl e \<Rightarrow> set_multiverse_status (\<lambda>s. s\<lparr>mst_phase := ''Degraded'', mst_kafka := False,
                     mst_message := ''kafka unreachable: '' @ err_msg e\<rparr>) mv
                | Inr _ \<Rightarrow> set_multiverse_status (\<lambda>s. s\<lparr>mst_kafka := True\<rparr>) mv)
            | None \<Rightarrow> mv)
          else mv
      | None \<Rightarrow> mv)"

definition multiverse_status_of :: "kafka_net \<Rightarrow> int \<Rightarrow> api_multiverse \<Rightarrow> api_multiverse" where
  "multiverse_status_of net now mv =
     (let n = int (length (ms_universes (amv_spec mv)));
          mv1 = note_kafka net mv;
          mv2 = (if mst_phase (amv_status mv1) \<noteq> ''Degraded''
                 then set_multiverse_status (\<lambda>s. s\<lparr>mst_phase := ''Active'',
                    mst_message := ''routing '' @ int_str n @ '' universes''\<rparr>) mv1
                 else mv1)
      in set_multiverse_status (\<lambda>s. s\<lparr>mst_universe_count := n,
           mst_conditions := [\<lparr>kc_type = ''Ready'', kc_status = ''True'', kc_observed_generation = 0,
             kc_last_transition = now, kc_reason = mst_phase s, kc_message = mst_message s\<rparr>]\<rparr>) mv2)"

definition reconcile_multiverse ::
  "kafka_net \<Rightarrow> object_key \<Rightarrow> ('s, multiverse_ctrl) cluster \<Rightarrow> outcome \<times> ('s, multiverse_ctrl) cluster" where
  "reconcile_multiverse net key c =
     (case on_kube (kube_get kb_multiverse key) c of
        (Inl e, c1) \<Rightarrow> ((no_requeue, if api_is_not_found e then None else Some e), c1)
      | (Inr mv, c1) \<Rightarrow>
          if km_deleting (amv_meta mv) then finalize_multiverse mv c1
          else if \<not> contains_finalizer multiverse_finalizer (amv_meta mv) then
            on_kube (put_then (UpdateMultiverse (mv\<lparr>amv_meta := add_finalizer multiverse_finalizer (amv_meta mv)\<rparr>))
              (requeue_now, None)) c1
          else (case on_kube (check_universes (ms_universes (amv_spec mv))) c1 of
              (Some e, c2) \<Rightarrow> fail_multiverse mv e c2
            | (None, c2) \<Rightarrow>
                let (now, c3) = on_world time_now c2;
                    mv1 = multiverse_status_of net now mv
                in (case on_kube (kube_put (UpdateMultiverseStatus mv1)) c3 of
                      (Some e, c4) \<Rightarrow> ((no_requeue, Some e), c4)
                    | (None, c4) \<Rightarrow> ((requeue_after 120000000000, None), snd (on_bus (ensure_subscription mv1) c4)))))"


section \<open>Names of replicas\<close>

lemma sanitize_runs_chars: "set (sanitize_runs b s) \<subseteq> {ch. name_char ch}"
  by (induction b s rule: sanitize_runs.induct) (auto simp: name_char_def)

lemma sanitize_runs_append_clean:
  "\<forall>ch \<in> set xs. name_char ch \<Longrightarrow> xs \<noteq> [] \<Longrightarrow> sanitize_runs b (xs @ ys) = xs @ sanitize_runs False ys"
proof (induction xs arbitrary: b)
  case (Cons x xs) then show ?case by (cases xs) auto
qed simp

lemma last_trim_right: "trim_right_char ch s \<noteq> [] \<Longrightarrow> last (trim_right_char ch s) \<noteq> ch"
  unfolding trim_right_char_def last_rev using hd_dropWhile [of "\<lambda>x. x = ch" "rev s"] by auto

lemma trim_right_prefix: "\<exists>t. s = trim_right_char ch s @ t"
proof -
  have "rev s = takeWhile (\<lambda>x. x = ch) (rev s) @ dropWhile (\<lambda>x. x = ch) (rev s)" by simp
  then have "s = rev (dropWhile (\<lambda>x. x = ch) (rev s)) @ rev (takeWhile (\<lambda>x. x = ch) (rev s))" by (metis rev_append rev_rev_ident)
  then show ?thesis unfolding trim_right_char_def by blast
qed

lemma trim_right_keeps:
  assumes "xs \<noteq> []" "last xs \<noteq> ch" shows "\<exists>zs. trim_right_char ch (xs @ ys) = xs @ zs"
proof -
  have "rev xs \<noteq> []" "hd (rev xs) \<noteq> ch" using assms by (simp_all add: hd_rev)
  then have d: "dropWhile (\<lambda>x. x = ch) (rev xs) = rev xs" by (cases "rev xs") auto
  show ?thesis
  proof (cases "\<exists>x\<in>set ys. x \<noteq> ch")
    case True
    then have "trim_right_char ch (xs @ ys) = xs @ rev (dropWhile (\<lambda>x. x = ch) (rev ys))"
      by (auto simp: trim_right_char_def dropWhile_append)
    then show ?thesis by blast
  next
    case False
    then have "trim_right_char ch (xs @ ys) = xs @ []" using d by (auto simp: trim_right_char_def dropWhile_append)
    then show ?thesis by blast
  qed
qed

text \<open>
  C39 The name of a read replica is a DNS label, whatever the event and the target: at most 63
  bytes, of small letters, digits and dashes, beginning with \<open>replica\<close> and not ending in a dash.
\<close>

theorem replica_name_is_label:
  "length (read_replica_name evt tgt) \<le> 63 \<and> set (read_replica_name evt tgt) \<subseteq> {ch. name_char ch}
   \<and> (\<exists>r. read_replica_name evt tgt = ''replica'' @ r) \<and> last (read_replica_name evt tgt) \<noteq> CHR ''-''"
proof -
  define raw where "raw = join_with ''-'' [''replica'', ev_workflow evt, truncate_id (ev_snapshot_id evt) 8, tg_universe tgt]"
  obtain r0 where "raw = ''replica'' @ r0" by (simp add: raw_def)
  then have "to_lower raw = ''replica'' @ to_lower r0" by (simp add: to_lower_def lower_char_def less_eq_char_def)
  then have s: "sanitize_runs False (to_lower raw) = ''replica'' @ sanitize_runs False (to_lower r0)"
    using sanitize_runs_append_clean [of "''replica''"] by (simp add: name_char_def less_eq_char_def)
  define name where "name = trim_char (CHR ''-'') (sanitize_runs False (to_lower raw))"
  have "name = trim_right_char (CHR ''-'') (''replica'' @ sanitize_runs False (to_lower r0))" by (simp add: name_def trim_char_def s)
  then obtain z where z: "name = ''replica'' @ z" using trim_right_keeps [of "''replica''" "CHR ''-''" "sanitize_runs False (to_lower r0)"] by auto
  have chars: "set name \<subseteq> {ch. name_char ch}"
    using sanitize_runs_chars [of False "to_lower raw"] by (auto simp: name_def trim_char_def trim_right_char_def dest!: set_dropWhileD)
  have "name \<noteq> []" by (simp add: z)
  then have lst: "last name \<noteq> CHR ''-''" using last_trim_right unfolding name_def trim_char_def by blast
  have res: "read_replica_name evt tgt = (if 63 < length name then trim_right_char (CHR ''-'') (take 63 name) else name)"
    by (simp add: read_replica_name_def name_def raw_def Let_def)
  show ?thesis
  proof (cases "63 < length name")
    case True
    have "take 63 name = ''replica'' @ take 56 z" by (simp add: z)
    then obtain y where y: "read_replica_name evt tgt = ''replica'' @ y" using trim_right_keeps [of "''replica''" "CHR ''-''" "take 56 z"] res True by auto
    obtain t where t: "take 63 name = read_replica_name evt tgt @ t" using trim_right_prefix [of "take 63 name" "CHR ''-''"] res True by auto
    then have "length (read_replica_name evt tgt) \<le> 63" "set (read_replica_name evt tgt) \<subseteq> set name"
      by (metis (no_types) length_append length_take le_add1 min.cobounded2 order_trans, metis set_take_subset set_append Un_subset_iff)
    moreover have "read_replica_name evt tgt \<noteq> []" by (simp add: y)
    then have "last (read_replica_name evt tgt) \<noteq> CHR ''-''" using last_trim_right res True by metis
    ultimately show ?thesis using y chars by blast
  next
    case False then show ?thesis using res z chars lst by auto
  qed
qed

section \<open>What a handler does\<close>

text \<open>A status of a multiverse or a new replica.\<close>

fun routing_write :: "kube_write \<Rightarrow> bool" where
  "routing_write (UpdateMultiverseStatus _) = True"
| "routing_write (CreateReplica _) = True"
| "routing_write _ = False"

lemma ensure_read_replica_runs: "ensure_read_replica mv evt tgt kb = (r, kb1) \<Longrightarrow> runs routing_write kb kb1"
  by (auto simp: ensure_read_replica_def split: sum.splits prod.splits if_splits
      dest!: runs_get [where P = routing_write] runs_put [where P = routing_write] intro: runs_trans)

lemma multiverse_handler_runs:
  assumes "multiverse_handler sub evt (kb, w) = (r, kb', w')" shows "runs routing_write kb kb'"
  using assms
  by (auto simp: multiverse_handler_def Let_def split: sum.splits prod.splits if_splits option.splits
      dest!: runs_get [where P = routing_write] runs_put [where P = routing_write] ensure_read_replica_runs intro: runs_trans)

lemma run_handlers_runs:
  "run_handlers (map multiverse_handler subs) evt (kb, w) = (r, kb', w') \<Longrightarrow> runs routing_write kb kb'"
proof (induction subs arbitrary: kb w)
  case (Cons s subs)
  obtain q kb1 w1 where h: "multiverse_handler s evt (kb, w) = (q, kb1, w1)" by (metis prod_cases3)
  from multiverse_handler_runs [OF h] Cons h show ?case by (auto split: sum.splits intro: runs_trans)
qed auto

lemma routing_publisher_runs:
  assumes "routing_publisher evt (kb, w, mc) = (r, kb', w', mc')" shows "runs routing_write kb kb'"
  using assms run_handlers_runs
  by (fastforce simp: routing_publisher_def memory_publish_def memory_bus_of_def Let_def split: option.splits if_splits prod.splits)

section \<open>One event, one target\<close>

lemma append_routed_event_bound:
  "length es \<le> mx \<Longrightarrow> length (append_routed_event es e mx) \<le> mx"
  unfolding append_routed_event_def Let_def by (simp only: length_drop split: if_splits) auto

lemma append_routed_event_has:
  assumes "0 < mx" shows "ro_event_id e \<in> ro_event_id ` set (append_routed_event es e mx)"
proof (cases "list_ex (\<lambda>x. ro_event_id x = ro_event_id e) es")
  case True
  then obtain x where "x \<in> set es" "ro_event_id x = ro_event_id e" by (auto simp: list_ex_iff)
  then have "ro_event_id e \<in> ro_event_id ` set es" by (metis imageI)
  then show ?thesis using True by (simp add: append_routed_event_def)
next
  case False
  have "e \<in> set (drop (length (es @ [e]) - mx) (es @ [e]))"
    using assms by (auto simp: drop_append not_le)
  then have "ro_event_id e \<in> ro_event_id ` set (drop (length (es @ [e]) - mx) (es @ [e]))" by (rule imageI)
  then show ?thesis using False by (auto simp: append_routed_event_def Let_def simp del: drop_append)
qed

lemma append_routed_event_distinct:
  assumes "distinct (map ro_event_id es)" shows "distinct (map ro_event_id (append_routed_event es e mx))"
proof (cases "list_ex (\<lambda>x. ro_event_id x = ro_event_id e) es")
  case False
  then have "distinct (map ro_event_id (es @ [e]))" using assms by (auto simp: list_ex_iff)
  with False show ?thesis by (auto simp: append_routed_event_def Let_def drop_map [symmetric] simp del: drop_append)
qed (simp add: append_routed_event_def assms)

text \<open>
  C26 The handler of a multiverse on a snapshot event that is addressed to it and that its router
  sends to a target: when it returns no error, it has written the status of the multiverse it
  read, with the event among the recorded ones, then at most 50 of them and each event once if
  this was so before, and, unless a replica of that name exists, a new read replica.  The
  replica asks for the snapshot of the event, from its workflow into the universe and context of
  the target, by change data capture exactly when the multiverse has its sync enabled.
\<close>

theorem routed_event_creates_replica:
  assumes "multiverse_handler (ns, name, spec) evt (kb, w) = (Inr u, kb', w')"
    and "ev_multiverse evt = '''' \<or> ev_multiverse evt = name" "resolve_route (Some (new_router spec)) evt = Inr tgt"
  shows "\<exists>mv mv1. kb_multiverse kb (kb_tick kb) (ns, name) = Inr mv \<and> amv_spec mv1 = amv_spec mv \<and> amv_meta mv1 = amv_meta mv
    \<and> (length (mst_routed (amv_status mv)) \<le> 50 \<longrightarrow> length (mst_routed (amv_status mv1)) \<le> 50)
    \<and> (distinct (map ro_event_id (mst_routed (amv_status mv))) \<longrightarrow> distinct (map ro_event_id (mst_routed (amv_status mv1))))
    \<and> ev_event_id evt \<in> ro_event_id ` set (mst_routed (amv_status mv1))
    \<and> (case kb_replica kb (Suc (Suc (kb_tick kb))) (km_namespace (amv_meta mv), read_replica_name evt tgt) of
         Inr _ \<Rightarrow> kb_log kb' = kb_log kb @ [UpdateMultiverseStatus mv1]
       | Inl e \<Rightarrow> api_is_not_found e \<and> (\<exists>rr. kb_log kb' = kb_log kb @ [UpdateMultiverseStatus mv1, CreateReplica rr]
           \<and> rs_snapshot_id (arr_spec rr) = ev_snapshot_id evt \<and> rs_workflow (arr_spec rr) = ev_workflow evt
           \<and> rs_namespace (arr_spec rr) = ev_namespace evt \<and> rs_universe (arr_spec rr) = tg_universe tgt
           \<and> rs_context_ref (arr_spec rr) = tg_context_ref tgt
           \<and> (rs_mode (arr_spec rr) = ''cdc'' \<longleftrightarrow> (\<exists>sy. ms_sync (amv_spec mv) = Some sy \<and> sy_enabled sy))))"
proof -
  obtain now w1 where n: "time_now w = (now, w1)" by fastforce
  have go: "\<not> (ev_multiverse evt \<noteq> '''' \<and> ev_multiverse evt \<noteq> name)" using assms(2) by blast
  define kb1 where "kb1 = kb\<lparr>kb_tick := Suc (kb_tick kb)\<rparr>"
  have get: "kube_get kb_multiverse (ns, name) kb = (kb_multiverse kb (kb_tick kb) (ns, name), kb1)"
    by (simp add: kube_get_def kb1_def)
  obtain mv where mv: "kb_multiverse kb (kb_tick kb) (ns, name) = Inr mv"
    using assms(1,3) go get by (cases "kb_multiverse kb (kb_tick kb) (ns, name)") (auto simp: multiverse_handler_def)
  define mv1 where "mv1 = set_multiverse_status (\<lambda>s. s\<lparr>mst_routed := append_routed_event (mst_routed s) (routed_record evt tgt now) 50\<rparr>) mv"
  define kb2 where "kb2 = kb1\<lparr>kb_tick := Suc (Suc (kb_tick kb)), kb_log := kb_log kb @ [UpdateMultiverseStatus mv1]\<rparr>"
  have put: "kube_put (UpdateMultiverseStatus mv1) kb1 = (kb_write kb (Suc (kb_tick kb)), kb2)"
    by (simp add: kube_put_def kb2_def kb1_def)
  have e: "ensure_read_replica mv1 evt tgt kb2 = (None, kb')"
    using assms(1,3) go get mv n put
    by (auto simp: multiverse_handler_def Let_def mv1_def split: option.splits prod.splits)
  have m1: "amv_spec mv1 = amv_spec mv" "amv_meta mv1 = amv_meta mv"
    "mst_routed (amv_status mv1) = append_routed_event (mst_routed (amv_status mv)) (routed_record evt tgt now) 50"
    by (simp_all add: mv1_def)
  have log: "case kb_replica kb (Suc (Suc (kb_tick kb))) (km_namespace (amv_meta mv), read_replica_name evt tgt) of
         Inr _ \<Rightarrow> kb_log kb' = kb_log kb @ [UpdateMultiverseStatus mv1]
       | Inl e \<Rightarrow> api_is_not_found e \<and> kb_log kb' = kb_log kb @ [UpdateMultiverseStatus mv1, CreateReplica (replica_of mv1 evt tgt)]"
    using e m1(2) by (auto simp: ensure_read_replica_def kube_get_def kube_put_def kb2_def kb1_def split: sum.splits if_splits)
  have spec: "rs_snapshot_id (arr_spec (replica_of mv1 evt tgt)) = ev_snapshot_id evt"
    "rs_workflow (arr_spec (replica_of mv1 evt tgt)) = ev_workflow evt" "rs_namespace (arr_spec (replica_of mv1 evt tgt)) = ev_namespace evt"
    "rs_universe (arr_spec (replica_of mv1 evt tgt)) = tg_universe tgt" "rs_context_ref (arr_spec (replica_of mv1 evt tgt)) = tg_context_ref tgt"
    "rs_mode (arr_spec (replica_of mv1 evt tgt)) = ''cdc'' \<longleftrightarrow> (\<exists>sy. ms_sync (amv_spec mv) = Some sy \<and> sy_enabled sy)"
    using m1(1) by (auto simp: replica_of_def Let_def split: option.splits)
  have "ro_event_id (routed_record evt tgt now) = ev_event_id evt" by (simp add: routed_record_def)
  then have routed: "length (mst_routed (amv_status mv)) \<le> 50 \<longrightarrow> length (mst_routed (amv_status mv1)) \<le> 50"
    "distinct (map ro_event_id (mst_routed (amv_status mv))) \<longrightarrow> distinct (map ro_event_id (mst_routed (amv_status mv1)))"
    "ev_event_id evt \<in> ro_event_id ` set (mst_routed (amv_status mv1))"
    using append_routed_event_bound [of _ 50] append_routed_event_distinct append_routed_event_has [of 50 "routed_record evt tgt now"]
    unfolding m1(3) by simp_all
  show ?thesis
    by (rule exI [of _ mv], rule exI [of _ mv1], intro conjI mv m1(1,2) routed)
      (use log spec in \<open>auto split: sum.splits\<close>)
qed



definition plain_multiverse :: "string \<Rightarrow> bool \<Rightarrow> api_multiverse" where
  "plain_multiverse phase deleting = \<lparr>amv_meta = (new_meta ''mv'' ''ns'' [])\<lparr>km_deleting := deleting, km_finalizers := [multiverse_finalizer]\<rparr>,
     amv_spec = \<lparr>ms_default = ''u'', ms_universes = [], ms_slice_routes = [], ms_sync = None\<rparr>,
     amv_status = \<lparr>mst_phase = phase, mst_universe_count = 0, mst_kafka = False, mst_routed = [], mst_message = '''', mst_conditions = []\<rparr>\<rparr>"

definition plain_event :: snapshot_event where
  "plain_event = \<lparr>ev_event_id = ''e'', ev_type = ''snapshot.completed'', ev_snapshot_id = ''s'', ev_time_slice = ''t'',
     ev_workflow = ''w'', ev_namespace = ''ns'', ev_universe = '''', ev_multiverse = ''mv'', ev_partitions = [], ev_final_output = '''',
     ev_worldline = '''', ev_head_link = '''', ev_occurred_at = 0\<rparr>"

lemma plain_route: "\<exists>tgt. resolve_route (Some (new_router (amv_spec (plain_multiverse p d)))) plain_event = Inr tgt"
  by (simp add: resolve_route_def new_router_def plain_multiverse_def Let_def)

lemma routed_event_creates_replica_witness:
  "\<exists>kb' w' mv1 rr. multiverse_handler (''ns'', ''mv'', amv_spec (plain_multiverse '''' False)) plain_event
       (empty_kube\<lparr>kb_multiverse := \<lambda>_ _. Inr (plain_multiverse '''' False)\<rparr>, no_world) = (Inr (), kb', w')
     \<and> kb_log kb' = [UpdateMultiverseStatus mv1, CreateReplica rr] \<and> rs_snapshot_id (arr_spec rr) = ''s'' \<and> rs_mode (arr_spec rr) \<noteq> ''cdc''"
proof -
  let ?mv = "plain_multiverse '''' False" and ?kb = "empty_kube\<lparr>kb_multiverse := \<lambda>_ _. Inr (plain_multiverse '''' False)\<rparr>"
  obtain tgt where t: "resolve_route (Some (new_router (amv_spec ?mv))) plain_event = Inr tgt" using plain_route by blast
  obtain r kb' w' where h: "multiverse_handler (''ns'', ''mv'', amv_spec ?mv) plain_event (?kb, no_world) = (r, kb', w')" by (metis prod_cases3)
  have "r = Inr ()" using h t
    by (auto simp: multiverse_handler_def plain_event_def kube_get_def kube_put_def ensure_read_replica_def empty_kube_def Let_def
        api_not_found_def api_is_not_found_def split: prod.splits)
  with h have h: "multiverse_handler (''ns'', ''mv'', amv_spec ?mv) plain_event (?kb, no_world) = (Inr (), kb', w')" by simp
  have e: "ev_multiverse plain_event = '''' \<or> ev_multiverse plain_event = ''mv''" "ev_snapshot_id plain_event = ''s''" by (simp_all add: plain_event_def)
  have s: "kb_replica ?kb n k = Inl api_not_found" "kb_multiverse ?kb n k = Inr ?mv" "kb_log ?kb = []" "ms_sync (amv_spec ?mv) = None" for n k
    by (simp_all add: empty_kube_def plain_multiverse_def)
  from routed_event_creates_replica [OF h e(1) t] obtain mv1 rr where
    "kb_log kb' = [UpdateMultiverseStatus mv1, CreateReplica rr]" "rs_snapshot_id (arr_spec rr) = ''s''" "rs_mode (arr_spec rr) \<noteq> ''cdc''"
    unfolding s e(2) by (auto simp: s(4))
  with h show ?thesis by (intro exI conjI)
qed

section \<open>The status of a multiverse\<close>

fun multiverse_write :: "kube_write \<Rightarrow> api_multiverse option" where
  "multiverse_write (UpdateMultiverseStatus mv) = Some mv"
| "multiverse_write _ = None"

lemma check_universes_runs: "check_universes us kb = (r, kb1) \<Longrightarrow> runs P kb kb1"
  by (induction us arbitrary: kb) (auto simp: validate_universe_ref_def split: prod.splits option.splits if_splits sum.splits
      dest!: runs_get [where P = P] intro: runs_trans)

lemma on_bus_parts:
  assumes "on_bus f c = (r, c1)" shows "cu_kube c1 = cu_kube c" "f (cu_bus c) = (r, cu_bus c1)" "cu_store c1 = cu_store c"
  using assms by (auto simp: on_bus_def split: prod.splits)

lemma bus_frame_lift:
  "on_kube g c = (q, c1) \<Longrightarrow> cu_bus c1 = cu_bus c"
  "on_world h c = (q', c1) \<Longrightarrow> cu_bus c1 = cu_bus c"
  by (auto simp: on_kube_def on_world_def split: prod.splits)

lemma finalize_multiverse_adds:
  assumes "finalize_multiverse mv c = (out, c')" shows "adds multiverse_write c [] c' \<and> cu_store c' = cu_store c"
proof -
  let ?w = "UpdateMultiverse (mv\<lparr>amv_meta := remove_finalizer multiverse_finalizer (amv_meta mv)\<rparr>)"
  let ?f = "\<lambda>mc. ((), mc\<lparr>mc_subscribed := filter (\<lambda>k. k \<noteq> multiverse_key mv) (mc_subscribed mc)\<rparr>)"
  obtain u c1 where u: "on_kube (kube_put ?w) c = (u, c1)" by fastforce
  have a: "adds multiverse_write c [] c1" "cu_store c1 = cu_store c"
    using adds_silent [where f = multiverse_write, OF runs_put [OF on_kube_parts(1) [OF u]]] on_kube_parts(2) [OF u] by simp_all
  have b: "adds multiverse_write c2 [] (snd (on_bus ?f c2)) \<and> cu_store (snd (on_bus ?f c2)) = cu_store c2" for c2 :: "('a, multiverse_ctrl) cluster"
    by (auto simp: on_bus_def intro!: adds_same)
  have "c' = c1 \<or> c' = snd (on_bus ?f c1) \<or> c' = snd (on_bus ?f c)"
    using assms u by (auto simp: finalize_multiverse_def Let_def split: if_splits option.splits)
  then show ?thesis using a b [of c1] b [of c] adds_trans [OF a(1), of "[]"] by auto
qed

text \<open>The ways a reconcile of a multiverse goes, and what it leaves on the bus.\<close>

lemma reconcile_multiverse_cases:
  assumes "reconcile_multiverse net key c = (out, c')" "kb_multiverse (cu_kube c) (kb_tick (cu_kube c)) key = Inr mv"
  obtains (deleted) c1 where "km_deleting (amv_meta mv)" "adds multiverse_write c [] c1" "cu_bus c1 = cu_bus c" "cu_store c1 = cu_store c"
      "finalize_multiverse mv c1 = (out, c')"
    | (quiet) "\<not> km_deleting (amv_meta mv)" "adds multiverse_write c [] c'" "cu_bus c' = cu_bus c" "cu_store c' = cu_store c"
    | (status) mv1 where "\<not> km_deleting (amv_meta mv)" "adds multiverse_write c [mv1] c'" "cu_store c' = cu_store c"
      "(\<exists>e. mv1 = set_multiverse_status (\<lambda>s. s\<lparr>mst_phase := ''Degraded'', mst_message := err_msg e\<rparr>) mv) \<and> cu_bus c' = cu_bus c
       \<or> (\<exists>now. mv1 = multiverse_status_of net now mv) \<and> (cu_bus c' = cu_bus c \<or> cu_bus c' = snd (ensure_subscription mv1 (cu_bus c)))"
proof -
  obtain c1 where g: "on_kube (kube_get kb_multiverse key) c = (Inr mv, c1)"
    using assms(2) by (auto simp: on_kube_def kube_get_def)
  have t1: "adds multiverse_write c [] c1" "cu_bus c1 = cu_bus c" "cu_store c1 = cu_store c"
    using adds_silent [OF runs_get [OF on_kube_parts(1) [OF g]]] bus_frame_lift(1) [OF g] on_kube_parts(2) [OF g] by simp_all
  show thesis
  proof (cases "km_deleting (amv_meta mv)")
    case True then show thesis using deleted [OF True t1] assms(1) g by (simp add: reconcile_multiverse_def)
  next
    case nd: False
    show thesis
    proof (cases "contains_finalizer multiverse_finalizer (amv_meta mv)")
      case False
      then have p: "on_kube (put_then (UpdateMultiverse (mv\<lparr>amv_meta := add_finalizer multiverse_finalizer (amv_meta mv)\<rparr>)) (requeue_now, None)) c1 = (out, c')"
        using assms(1) g nd by (simp add: reconcile_multiverse_def)
      have "adds multiverse_write c1 [] c'" by (rule adds_silent [OF runs_put_then [OF on_kube_parts(1) [OF p]]]) simp
      then show thesis using quiet [OF nd] adds_trans [OF t1(1)] t1(2,3) bus_frame_lift(1) [OF p] on_kube_parts(2) [OF p] by fastforce
    next
      case fin: True
      obtain v c2 where v: "on_kube (check_universes (ms_universes (amv_spec mv))) c1 = (v, c2)" by fastforce
      have t2: "adds multiverse_write c [] c2" "cu_bus c2 = cu_bus c" "cu_store c2 = cu_store c"
        using adds_trans [OF t1(1) adds_silent [OF check_universes_runs [OF on_kube_parts(1) [OF v]]]] bus_frame_lift(1) [OF v]
          on_kube_parts(2) [OF v] t1 by simp_all
      show thesis
      proof (cases v)
        case (Some e)
        define mv1 where "mv1 = set_multiverse_status (\<lambda>s. s\<lparr>mst_phase := ''Degraded'', mst_message := err_msg e\<rparr>) mv"
        obtain u where u: "on_kube (kube_put (UpdateMultiverseStatus mv1)) c2 = (u, c')"
          using assms(1) g nd fin v Some by (cases "on_kube (kube_put (UpdateMultiverseStatus mv1)) c2")
            (simp add: reconcile_multiverse_def fail_multiverse_def mv1_def)
        have "adds multiverse_write c2 [mv1] c'" by (rule adds_put [OF on_kube_parts(1) [OF u]]) simp
        then have "adds multiverse_write c [mv1] c'" using adds_trans [OF t2(1), of "[mv1]" c'] by simp
        then show thesis using status [OF nd, of mv1] mv1_def bus_frame_lift(1) [OF u] on_kube_parts(2) [OF u] t2(2,3) by auto
      next
        case None
        obtain now c3 where n: "on_world time_now c2 = (now, c3)" by fastforce
        define mv1 where "mv1 = multiverse_status_of net now mv"
        obtain u c4 where u: "on_kube (kube_put (UpdateMultiverseStatus mv1)) c3 = (u, c4)" by fastforce
        have "adds multiverse_write c3 [mv1] c4" by (rule adds_put [OF on_kube_parts(1) [OF u]]) simp
        then have a4: "adds multiverse_write c [mv1] c4"
          using adds_trans [OF adds_trans [OF t2(1) adds_same [OF on_world_parts(1) [OF n]]], of "[mv1]" c4] by simp
        have b4: "cu_bus c4 = cu_bus c" "cu_store c4 = cu_store c"
          using bus_frame_lift(1) [OF u] bus_frame_lift(2) [OF n] on_kube_parts(2) [OF u] on_world_parts(2) [OF n] t2(2,3) by simp_all
        obtain x c5 where x: "on_bus (ensure_subscription mv1) c4 = (x, c5)" by fastforce
        have "c' = c4 \<or> c' = c5"
          using assms(1) g nd fin v None n u x by (auto simp: reconcile_multiverse_def mv1_def split: option.splits)
        then show thesis
        proof
          assume "c' = c4" then show thesis using status [OF nd, of mv1] a4 b4 mv1_def by auto
        next
          assume c5: "c' = c5"
          have "adds multiverse_write c [mv1] c5" using adds_trans [OF a4 adds_same [OF on_bus_parts(1) [OF x]]] by simp
          moreover have "cu_bus c5 = snd (ensure_subscription mv1 (cu_bus c))" using on_bus_parts(2) [OF x] b4(1) by simp
          ultimately show thesis using status [OF nd, of mv1] c5 on_bus_parts(3) [OF x] b4(2) mv1_def by auto
        qed
      qed
    qed
  qed
qed

text \<open>
  A multiverse never leaves the phase Degraded: when a reconcile reads one in this phase, every
  status it writes is Degraded again, also when the universes are valid and Kafka answers.
\<close>

theorem degraded_multiverse_stays:
  assumes "reconcile_multiverse net key c = (out, c')" "kb_multiverse (cu_kube c) (kb_tick (cu_kube c)) key = Inr mv"
    and "mst_phase (amv_status mv) = ''Degraded''"
  shows "\<exists>l. said multiverse_write c' = said multiverse_write c @ l \<and> (\<forall>mv1 \<in> set l. mst_phase (amv_status mv1) = ''Degraded'')"
  using assms(1,2)
proof (cases rule: reconcile_multiverse_cases)
  case (deleted c1)
  have "adds multiverse_write c1 [] c'" using finalize_multiverse_adds [OF deleted(5)] by simp
  then show ?thesis using adds_trans [OF deleted(2)] by (fastforce simp: adds_def)
next
  case quiet then show ?thesis by (auto simp: adds_def)
next
  case (status mv1)
  have "mst_phase (amv_status (multiverse_status_of net now mv)) = ''Degraded''" for now
    using assms(3) by (simp add: multiverse_status_of_def note_kafka_def Let_def split: option.splits sum.splits)
  then have "mst_phase (amv_status mv1) = ''Degraded''" using status(4) by auto
  then show ?thesis using status(2) by (auto simp: adds_def)
qed

definition routing_cluster :: "api_multiverse \<Rightarrow> multiverse_ctrl \<Rightarrow> (sqlite, multiverse_ctrl) cluster" where
  "routing_cluster mv mc = \<lparr>cu_kube = empty_kube\<lparr>kb_multiverse := \<lambda>_ _. Inr mv\<rparr>, cu_world = no_world, cu_store = \<lambda>_. sq_empty,
     cu_open = \<lambda>_ _. None, cu_opened = 0, cu_bus = mc, cu_topics = \<lambda>_. \<lparr>br_log = [], br_faults = []\<rparr>,
     cu_cdc_topics = \<lambda>_. \<lparr>ct_log = [], ct_faults = []\<rparr>, cu_cdc = new_cdc_bus\<rparr>"

definition idle_bus :: multiverse_ctrl where
  "idle_bus = \<lparr>mc_bus = Some \<lparr>rb_subs = [], rb_seen = [], rb_published = [], rb_closed = False\<rparr>, mc_subscribed = []\<rparr>"

definition healthy_net :: kafka_net where
  "healthy_net = \<lparr>kn_dial = \<lambda>_. Inr (), kn_brokers = \<lambda>_. Inr ()\<rparr>"

lemma routing_cluster_reads [simp]:
  "kb_multiverse (cu_kube (routing_cluster mv mc)) n k = Inr mv" "cu_bus (routing_cluster mv mc) = mc"
  by (simp_all add: routing_cluster_def empty_kube_def)

lemma plain_multiverse_simps [simp]:
  "km_deleting (amv_meta (plain_multiverse p d)) = d" "mst_phase (amv_status (plain_multiverse p d)) = p"
  "multiverse_key (plain_multiverse p d) = ''ns/mv''"
  by (simp_all add: plain_multiverse_def multiverse_key_def new_meta_def)

lemma degraded_multiverse_stays_witness:
  "\<exists>out c' mv1. reconcile_multiverse healthy_net (''ns'', ''mv'') (routing_cluster (plain_multiverse ''Degraded'' False) idle_bus) = (out, c')
     \<and> snd out = None \<and> said multiverse_write c' = [mv1] \<and> mst_phase (amv_status mv1) = ''Degraded''"
proof -
  let ?c = "routing_cluster (plain_multiverse ''Degraded'' False) idle_bus"
  obtain out c' where r: "reconcile_multiverse healthy_net (''ns'', ''mv'') ?c = (out, c')" by fastforce
  have "snd out = None \<and> (\<exists>mv1. said multiverse_write c' = [mv1])" using r
    by (auto simp: reconcile_multiverse_def on_kube_def on_world_def on_bus_def kube_get_def kube_put_def time_now_def routing_cluster_def empty_kube_def
        plain_multiverse_def contains_finalizer_def Let_def said_def map_filter_def split: prod.splits)
  moreover have "said multiverse_write ?c = []" by (simp add: said_def routing_cluster_def empty_kube_def map_filter_def)
  ultimately show ?thesis using degraded_multiverse_stays [OF r routing_cluster_reads(1)] r by auto
qed

section \<open>Subscriptions\<close>

definition sub_key :: "string \<times> string \<times> multiverse_spec \<Rightarrow> string" where
  "sub_key sub = fst sub @ ''/'' @ fst (snd sub)"

text \<open>Every handler on the bus belongs to a different multiverse of the reconciler's map.\<close>

definition subs_once :: "multiverse_ctrl \<Rightarrow> bool" where
  "subs_once mc \<longleftrightarrow> (case mc_bus mc of None \<Rightarrow> True | Some b \<Rightarrow>
     distinct (map sub_key (rb_subs b)) \<and> set (map sub_key (rb_subs b)) \<subseteq> set (mc_subscribed mc))"

lemma ensure_subscription_once: "subs_once mc \<Longrightarrow> subs_once (snd (ensure_subscription mv mc))"
  by (auto simp: ensure_subscription_def subs_once_def sub_key_def multiverse_key_def Let_def split: option.splits)

lemma routing_publisher_once:
  assumes "routing_publisher evt (kb, w, mc) = (r, kb', w', mc')" shows "subs_once mc' = subs_once mc"
proof (cases "mc_bus mc")
  case None then show ?thesis using assms by (simp add: routing_publisher_def)
next
  case (Some b)
  obtain b' :: "(kube \<times> world) memory_bus" where "mc' = mc\<lparr>mc_bus := Some (b\<lparr>rb_seen := mb_seen b', rb_published := mb_published b'\<rparr>)\<rparr>"
    using assms Some by (auto simp: routing_publisher_def split: prod.splits)
  then show ?thesis using Some by (simp add: subs_once_def)
qed

text \<open>
  C35 A multiverse subscribes one handler.  As long as no multiverse is deleted, a reconcile, and an
  event published on the bus, keep it that the handlers of the bus belong to different
  multiverses, all of them in the reconciler's map.
\<close>

theorem multiverse_subscribes_once:
  assumes "subs_once (cu_bus c)" "reconcile_multiverse net key c = (out, c')"
    and "\<forall>mv. kb_multiverse (cu_kube c) (kb_tick (cu_kube c)) key = Inr mv \<longrightarrow> \<not> km_deleting (amv_meta mv)"
  shows "subs_once (cu_bus c') \<and> (\<forall>evt r kb w mc. routing_publisher evt (cu_kube c', cu_world c', cu_bus c') = (r, kb, w, mc) \<longrightarrow> subs_once mc)"
proof -
  have "subs_once (cu_bus c')"
  proof (cases "kb_multiverse (cu_kube c) (kb_tick (cu_kube c)) key")
    case (Inl e)
    then have "on_kube (kube_get kb_multiverse key) c = (Inl e, c\<lparr>cu_kube := (cu_kube c)\<lparr>kb_tick := Suc (kb_tick (cu_kube c))\<rparr>\<rparr>)"
      by (simp add: on_kube_def kube_get_def)
    then show ?thesis using assms(1,2) by (auto simp: reconcile_multiverse_def)
  next
    case (Inr mv)
    from assms(2) Inr show ?thesis
    proof (cases rule: reconcile_multiverse_cases)
      case (deleted c1) then show ?thesis using assms(3) Inr by blast
    next
      case quiet then show ?thesis using assms(1) by simp
    next
      case (status mv1) then show ?thesis using assms(1) ensure_subscription_once by auto
    qed
  qed
  then show ?thesis using routing_publisher_once by metis
qed

text \<open>
  The finalizer of a multiverse forgets the subscription but leaves the handler on the bus: after
  a reconcile of a deleted multiverse the bus is as it was, and the key of the multiverse is gone
  from the map, so that a multiverse created under the same name subscribes a second handler.
\<close>

theorem finalized_multiverse_still_routes:
  assumes "reconcile_multiverse net key c = (out, c')" "kb_multiverse (cu_kube c) (kb_tick (cu_kube c)) key = Inr mv"
    and "km_deleting (amv_meta mv)" "snd out = None"
  shows "mc_bus (cu_bus c') = mc_bus (cu_bus c) \<and> multiverse_key mv \<notin> set (mc_subscribed (cu_bus c'))
    \<and> (\<forall>b mv2. mc_bus (cu_bus c) = Some b \<longrightarrow> \<not> rb_closed b \<longrightarrow> multiverse_key mv2 = multiverse_key mv \<longrightarrow>
         (\<exists>b2. mc_bus (snd (ensure_subscription mv2 (cu_bus c'))) = Some b2
           \<and> rb_subs b2 = rb_subs b @ [(km_namespace (amv_meta mv2), km_name (amv_meta mv2), amv_spec mv2)]))"
proof -
  from assms(1,2) have "mc_bus (cu_bus c') = mc_bus (cu_bus c) \<and> multiverse_key mv \<notin> set (mc_subscribed (cu_bus c'))"
  proof (cases rule: reconcile_multiverse_cases)
    case (deleted c1)
    then show ?thesis using assms(4)
      by (auto simp: finalize_multiverse_def Let_def on_bus_def on_kube_def split: option.splits prod.splits if_splits)
  qed (use assms(3) in simp_all)
  then show ?thesis by (auto simp: ensure_subscription_def Let_def)
qed

lemma multiverse_subscribes_once_witness:
  "\<exists>out c'. reconcile_multiverse healthy_net (''ns'', ''mv'') (routing_cluster (plain_multiverse '''' False) idle_bus) = (out, c')
     \<and> mc_bus (cu_bus c') \<noteq> mc_bus idle_bus \<and> subs_once (cu_bus c')"
proof -
  let ?c = "routing_cluster (plain_multiverse '''' False) idle_bus"
  obtain out c' where r: "reconcile_multiverse healthy_net (''ns'', ''mv'') ?c = (out, c')" by fastforce
  have "mc_bus (cu_bus c') \<noteq> mc_bus idle_bus" using r
    by (auto simp: reconcile_multiverse_def on_kube_def on_world_def on_bus_def kube_get_def kube_put_def time_now_def routing_cluster_def empty_kube_def
        plain_multiverse_def contains_finalizer_def Let_def ensure_subscription_def idle_bus_def split: prod.splits)
  moreover have "subs_once (cu_bus ?c)" by (simp add: subs_once_def idle_bus_def)
  ultimately show ?thesis using multiverse_subscribes_once [OF _ r] r by auto
qed

lemma finalized_multiverse_still_routes_witness:
  "\<exists>out c' sub b. reconcile_multiverse healthy_net (''ns'', ''mv'') (routing_cluster (plain_multiverse '''' True)
        \<lparr>mc_bus = Some \<lparr>rb_subs = [sub], rb_seen = [], rb_published = [], rb_closed = False\<rparr>, mc_subscribed = [''ns/mv'']\<rparr>) = (out, c')
     \<and> mc_bus (cu_bus c') = Some b \<and> rb_subs b = [sub] \<and> mc_subscribed (cu_bus c') = []"
proof -
  fix sub
  let ?mc = "\<lparr>mc_bus = Some \<lparr>rb_subs = [sub], rb_seen = [], rb_published = [], rb_closed = False\<rparr>, mc_subscribed = [''ns/mv'']\<rparr>"
  let ?c = "routing_cluster (plain_multiverse '''' True) ?mc"
  obtain out c' where r: "reconcile_multiverse healthy_net (''ns'', ''mv'') ?c = (out, c')" by fastforce
  have "snd out = None" "mc_subscribed (cu_bus c') = []" using r
    by (auto simp: reconcile_multiverse_def finalize_multiverse_def on_kube_def on_bus_def kube_get_def kube_put_def routing_cluster_def empty_kube_def
        plain_multiverse_def contains_finalizer_def Let_def multiverse_key_def new_meta_def)
  with finalized_multiverse_still_routes [OF r routing_cluster_reads(1)] r show ?thesis
    by (intro exI [of _ out] exI [of _ c'] exI [of _ sub] exI [of _ "\<lparr>rb_subs = [sub], rb_seen = [], rb_published = [], rb_closed = False\<rparr>"]) simp
qed


end
