(* ===== verification/System.thy ===== *)
theory System
  imports WheelCtl WorkflowCtl ChainCtl SnapshotCtl DominoCtl ReplicaCtl MultiverseCtl
begin

text \<open>
  The operator as a whole: all reconcilers of \<open>cmd/kbl-controller\<close> on one cluster, with the
  event bus whose handlers are those of the multiverse controller.  A step is one reconcile of
  one of them on any object, or any change of the world around it, of the API server, the bus
  and the Kafka topics, that leaves the stores alone.  The theorems hold for every sequence of
  steps, in any order.
\<close>

section \<open>Steps\<close>

type_synonym operator_state = "(sqlite, multiverse_ctrl) cluster"

inductive operator_step :: "(sqlite, multiverse_ctrl) manager \<Rightarrow> operator_state \<Rightarrow> operator_state \<Rightarrow> bool" for m where
  step_workflow: "reconcile_workflow m key c = (out, c') \<Longrightarrow> operator_step m c c'"
| step_chain: "reconcile_chain m key c = (out, c') \<Longrightarrow> operator_step m c c'"
| step_snapshot: "reconcile_snapshot m key c = (out, c') \<Longrightarrow> operator_step m c c'"
| step_domino: "reconcile_domino m key c = (out, c') \<Longrightarrow> operator_step m c c'"
| step_context: "reconcile_context key c = (out, c') \<Longrightarrow> operator_step m c c'"
| step_replica: "reconcile_replica m dels key c = (out, c') \<Longrightarrow> operator_step m c c'"
| step_multiverse: "reconcile_multiverse net key c = (out, c') \<Longrightarrow> operator_step m c c'"
| step_universe: "on_kube (reconcile_universe key) c = (out, c') \<Longrightarrow> operator_step m c c'"
| step_wheel: "on_both (reconcile_wheel (mg_store_root m) key) c = (out, c') \<Longrightarrow> operator_step m c c'"
| step_world: "cu_store c' = cu_store c \<Longrightarrow> operator_step m c c'"

inductive operates :: "(sqlite, multiverse_ctrl) manager \<Rightarrow> operator_state \<Rightarrow> operator_state \<Rightarrow> bool" for m where
  op_none: "operates m c c"
| op_more: "operates m c c1 \<Longrightarrow> operator_step m c1 c2 \<Longrightarrow> operates m c c2"

text \<open>The bus of the manager is the one the multiverse controller subscribes to.\<close>

definition routed :: "(sqlite, multiverse_ctrl) manager \<Rightarrow> bool" where
  "routed m \<longleftrightarrow> mg_publish m = Some routing_publisher \<or> mg_publish m = None"

text \<open>The handlers on it write no status of a workflow, as the workflow controller relies on.\<close>

lemma routed_bus_frame: "routed m \<Longrightarrow> bus_frame m"
proof -
  have w: "routing_write w \<Longrightarrow> no_status w" for w by (cases w) simp_all
  have "runs routing_write kb kb' \<Longrightarrow> runs no_status kb kb'" for kb kb' using runs_mono [of routing_write kb kb' no_status] w by blast
  then show "routed m \<Longrightarrow> bus_frame m" using routing_publisher_runs unfolding routed_def bus_frame_def by fastforce
qed

section \<open>Nothing recorded is lost\<close>

lemma reconcile_context_store: "reconcile_context key c = (out, c') \<Longrightarrow> cu_store c' = cu_store c"
  by (auto simp: reconcile_context_def put_context_status_def on_kube_def on_world_def Let_def
      split: sum.splits prod.splits if_splits option.splits)

lemma reconcile_multiverse_store:
  assumes "reconcile_multiverse net key c = (out, c')" shows "cu_store c' = cu_store c"
proof (cases "kb_multiverse (cu_kube c) (kb_tick (cu_kube c)) key")
  case (Inl e)
  then show ?thesis using assms by (auto simp: reconcile_multiverse_def on_kube_def kube_get_def)
next
  case (Inr mv)
  from assms Inr show ?thesis
  proof (cases rule: reconcile_multiverse_cases)
    case (deleted c1) then show ?thesis using finalize_multiverse_adds [of mv c1 out c'] by simp
  qed simp_all
qed

lemma operator_step_keeps:
  assumes "operator_step m c c'" "routed m" "sqlite_stores m c" shows "stores_keep c c'"
  using assms(1)
proof cases
  case (step_workflow key out)
  from one_run_stores_keep [OF assms(3) reconcile_one_run [OF routed_bus_frame [OF assms(2)] this]] show ?thesis .
next
  case (step_chain key out)
  from reconcile_chain_ends [OF this] have "one_run m c c'" by (auto simp: chain_ends_def)
  from one_run_stores_keep [OF assms(3) this] show ?thesis .
next
  case (step_snapshot key out)
  from reconcile_snapshot_ends [OF assms(3) this] show ?thesis by (simp add: snapshot_ends_def)
next
  case (step_domino key out)
  from reconcile_domino_reconciled [OF assms(3) this] obtain c1 i l where "reads_only c c1" "domino_ends i c1 l c'"
    unfolding domino_reconciled_def by (elim exE conjE)
  then have "stores_keep c c1" "stores_keep c1 c'" by (simp_all add: reads_only_def domino_ends_def)
  then show ?thesis by (rule stores_keep_trans)
next
  case (step_context key out) show ?thesis by (rule stores_keep_same [OF assms(3) reconcile_context_store [OF step_context]])
next
  case (step_replica dels key out)
  from reconcile_replica_ends [OF assms(3) this] show ?thesis by (simp add: replica_ends_def)
next
  case (step_multiverse net key out) show ?thesis by (rule stores_keep_same [OF assms(3) reconcile_multiverse_store [OF step_multiverse]])
next
  case (step_universe key out) show ?thesis by (rule stores_keep_same [OF assms(3) on_kube_parts(2) [OF step_universe]])
next
  case (step_wheel key out) show ?thesis by (rule stores_keep_same [OF assms(3) on_both_parts(2) [OF step_wheel]])
next
  case step_world then show ?thesis using stores_keep_same [OF assms(3)] by blast
qed

lemma operates_keeps: "operates m c c' \<Longrightarrow> routed m \<Longrightarrow> sqlite_stores m c \<Longrightarrow> stores_keep c c'"
proof (induction rule: operates.induct)
  case (op_none c) then show ?case using stores_keep_same by blast
next
  case (op_more c c1 c2)
  then have k: "stores_keep c c1" by blast
  from operator_step_keeps [OF op_more.hyps(2) op_more.prems(1) stores_keep_stores [OF op_more.prems(2) k]] k
  show ?case using stores_keep_trans by blast
qed



text \<open>A manager with the routing bus, and the concrete cluster of a replica on it.\<close>

definition routing_manager :: "(sqlite, multiverse_ctrl) manager" where
  "routing_manager = \<lparr>mg_store_root = '''', mg_backend = \<lambda>_. sqlite_backend, mg_exec = demo_cfg, mg_julia = True,
     mg_runner_image = '''', mg_pod_map = \<lambda>_. [], mg_publish = Some routing_publisher\<rparr>"

definition history_cluster :: operator_state where
  "history_cluster = (routing_cluster (plain_multiverse '''' False) idle_bus)\<lparr>cu_store := \<lambda>_. demo_source\<rparr>"



end
