(* ===== verification/Disk.thy ===== *)
theory Disk
  imports GoLib
begin

text \<open>
  The part of package os the file store uses: a tree of directories and files, keyed by the
  components of their paths, a clock, and a schedule that says which call fails and how much
  of its work it has done by then.  A path the system refuses for other reasons (a NUL byte,
  a name that is too long) is such a failure.
\<close>

section \<open>Trees of files\<close>

text \<open>
  \<open>dk_fault n = Some (m, k)\<close>: call \<open>n\<close> fails with message \<open>m\<close>; a write that fails has left the
  file alone when \<open>k\<close> is \<open>None\<close>, and has written its first bytes, at most \<open>k\<close> and not all of
  them, otherwise.
\<close>

record disk =
  dk_files :: "(string list \<times> string) list"
  dk_dirs :: "string list list"
  dk_fault :: "nat \<Rightarrow> (string \<times> nat option) option"
  dk_clock :: "nat \<Rightarrow> int"
  dk_tick :: nat

definition path_comps :: "string \<Rightarrow> string list" where
  "path_comps p = split_on (CHR ''/'') p"

definition file_at :: "disk \<Rightarrow> string list \<Rightarrow> string option" where
  "file_at d k = map_of (dk_files d) k"

definition disk_step :: "disk \<Rightarrow> disk" where
  "disk_step d = d\<lparr>dk_tick := Suc (dk_tick d)\<rparr>"

definition put_file :: "string list \<Rightarrow> string \<Rightarrow> disk \<Rightarrow> disk" where
  "put_file k b d = d\<lparr>dk_files := aput k b (dk_files d)\<rparr>"

definition add_dirs :: "string list list \<Rightarrow> disk \<Rightarrow> disk" where
  "add_dirs ds d = d\<lparr>dk_dirs := ds @ dk_dirs d\<rparr>"

definition ancestors :: "string list \<Rightarrow> string list list" where
  "ancestors k = map (\<lambda>i. take i k) [1..<length k]"

definition below_file :: "disk \<Rightarrow> string list \<Rightarrow> bool" where
  "below_file d k = list_ex (\<lambda>a. file_at d a \<noteq> None) (ancestors k)"

definition path_error :: "ekind \<Rightarrow> string \<Rightarrow> string \<Rightarrow> string \<Rightarrow> err" where
  "path_error k op p m = Err k (op @ '' '' @ p @ '': '' @ m)"

text \<open>The error for a path at which there is nothing.\<close>

definition absent :: "disk \<Rightarrow> string \<Rightarrow> string \<Rightarrow> err" where
  "absent d op p = (if below_file d (path_comps p) then path_error KIO op p ''not a directory''
     else path_error KNotExist op p ''no such file or directory'')"

section \<open>Calls\<close>

definition disk_now :: "disk \<Rightarrow> int \<times> disk" where
  "disk_now d = (dk_clock d (dk_tick d), disk_step d)"

text \<open>\<open>os.ReadFile\<close>.\<close>

definition disk_read :: "string \<Rightarrow> disk \<Rightarrow> string res \<times> disk" where
  "disk_read p d =
     ((case dk_fault d (dk_tick d) of
         Some (m, _) \<Rightarrow> Inl (io_err m)
       | None \<Rightarrow> (case file_at d (path_comps p) of
             Some b \<Rightarrow> Inr b
           | None \<Rightarrow> if path_comps p \<in> set (dk_dirs d) then Inl (path_error KIO ''read'' p ''is a directory'')
               else Inl (absent d ''open'' p))), disk_step d)"

text \<open>What is left of a text after at most \<open>n\<close> and not all of its bytes.\<close>

definition cut_short :: "nat \<Rightarrow> string \<Rightarrow> string" where
  "cut_short n b = take (min n (length b - 1)) b"

lemma cut_short_Nil [simp]: "cut_short n [] = []"
  by (simp add: cut_short_def)

lemma cut_short_take: "b \<noteq> [] \<Longrightarrow> \<exists>k. cut_short n b = take k b \<and> k < length b"
  by (cases b) (auto simp: cut_short_def intro!: exI [of _ "min n (length b - 1)"])

text \<open>\<open>os.WriteFile\<close>: the file is cut to nothing and then filled.\<close>

definition disk_write :: "string \<Rightarrow> string \<Rightarrow> disk \<Rightarrow> unit res \<times> disk" where
  "disk_write p b d =
     (let k = path_comps p in
      if k \<in> set (dk_dirs d) then (Inl (path_error KIO ''open'' p ''is a directory''), disk_step d)
      else if butlast k \<notin> set (dk_dirs d) then (Inl (absent d ''open'' p), disk_step d)
      else (case dk_fault d (dk_tick d) of
          Some (m, None) \<Rightarrow> (Inl (io_err m), disk_step d)
        | Some (m, Some n) \<Rightarrow> (Inl (io_err m), put_file k (cut_short n b) (disk_step d))
        | None \<Rightarrow> (Inr (), put_file k b (disk_step d))))"

text \<open>\<open>os.MkdirAll\<close>.\<close>

definition disk_mkdirs :: "string \<Rightarrow> disk \<Rightarrow> unit res \<times> disk" where
  "disk_mkdirs p d =
     (let k = path_comps p; ds = ancestors k @ [k]; d1 = disk_step d in
      if file_at d k \<noteq> None \<or> below_file d k then (Inl (path_error KIO ''mkdir'' p ''not a directory''), d1)
      else (case dk_fault d (dk_tick d) of
          Some (m, n) \<Rightarrow> (Inl (io_err m), add_dirs (take (case n of None \<Rightarrow> 0 | Some n \<Rightarrow> n) ds) d1)
        | None \<Rightarrow> (Inr (), add_dirs ds d1)))"

text \<open>\<open>os.ReadDir\<close>: the names in a directory, in the order of their bytes.\<close>

definition names_in :: "disk \<Rightarrow> string list \<Rightarrow> string list" where
  "names_in d k = sort (remdups (map last (filter (\<lambda>q. q \<noteq> [] \<and> butlast q = k) (map fst (dk_files d) @ dk_dirs d))))"

definition disk_list :: "string \<Rightarrow> disk \<Rightarrow> string list res \<times> disk" where
  "disk_list p d =
     ((case dk_fault d (dk_tick d) of
         Some (m, _) \<Rightarrow> Inl (io_err m)
       | None \<Rightarrow> if path_comps p \<in> set (dk_dirs d) then Inr (names_in d (path_comps p))
           else if file_at d (path_comps p) \<noteq> None then Inl (path_error KIO ''readdirent'' p ''not a directory'')
           else Inl (absent d ''open'' p)), disk_step d)"

text \<open>
  The number of files \<open>filepath.Walk\<close> visits below a directory; a failure ends the walk after
  some of them and goes unseen.
\<close>

definition disk_count :: "string \<Rightarrow> disk \<Rightarrow> nat \<times> disk" where
  "disk_count p d =
     (let k = path_comps p; n = length (filter (\<lambda>(q, _). length k < length q \<and> take (length k) q = k) (dk_files d))
      in ((case dk_fault d (dk_tick d) of
             Some (m, j) \<Rightarrow> min n (case j of None \<Rightarrow> 0 | Some j \<Rightarrow> j)
           | None \<Rightarrow> n), disk_step d))"

section \<open>What the calls do\<close>

lemma disk_step_fields [simp]:
  "dk_files (disk_step d) = dk_files d" "dk_dirs (disk_step d) = dk_dirs d" "dk_fault (disk_step d) = dk_fault d"
  "dk_clock (disk_step d) = dk_clock d" "dk_tick (disk_step d) = Suc (dk_tick d)" "file_at (disk_step d) = file_at d"
  "names_in (disk_step d) = names_in d" "below_file (disk_step d) = below_file d"
  by (simp_all add: disk_step_def file_at_def fun_eq_iff names_in_def below_file_def)

lemma put_file_fields [simp]:
  "dk_dirs (put_file k b d) = dk_dirs d" "dk_fault (put_file k b d) = dk_fault d"
  "dk_clock (put_file k b d) = dk_clock d" "dk_tick (put_file k b d) = dk_tick d"
  "file_at (put_file k b d) = (file_at d)(k \<mapsto> b)"
  by (simp_all add: put_file_def file_at_def fun_eq_iff)

lemma os_is_not_exist_simps [simp]:
  "\<not> os_is_not_exist (io_err m)" "os_is_not_exist (path_error k op p m) = (k = KNotExist)"
  by (simp_all add: os_is_not_exist_def path_error_def)

lemma disk_readD:
  assumes "disk_read p d = (r, d')"
  shows "d' = disk_step d" "r = Inr b \<Longrightarrow> file_at d (path_comps p) = Some b"
    "r = Inl e \<Longrightarrow> os_is_not_exist e \<Longrightarrow> file_at d (path_comps p) = None"
    "dk_fault d (dk_tick d) = None \<Longrightarrow> file_at d (path_comps p) = Some b \<Longrightarrow> r = Inr b"
    "dk_fault d (dk_tick d) = None \<Longrightarrow> file_at d (path_comps p) = None \<Longrightarrow> path_comps p \<notin> set (dk_dirs d)
       \<Longrightarrow> \<not> below_file d (path_comps p) \<Longrightarrow> \<exists>e. r = Inl e \<and> os_is_not_exist e"
  using assms by (auto simp: disk_read_def absent_def split: option.splits if_splits)

text \<open>A write changes one file: it holds the text, or the call failed and it holds less or what it held.\<close>

lemma disk_writeD:
  assumes "disk_write p b d = (r, d')"
  shows "(r = Inr () \<and> d' = put_file (path_comps p) b (disk_step d))
    \<or> (\<exists>e. r = Inl e \<and> (d' = disk_step d
        \<or> (\<exists>n. d' = put_file (path_comps p) (cut_short n b) (disk_step d))))"
  using assms by (auto simp: disk_write_def Let_def split: if_splits option.splits)

lemma disk_write_ok:
  assumes "disk_write p b d = (r, d')" "dk_fault d (dk_tick d) = None" "path_comps p \<notin> set (dk_dirs d)"
    "butlast (path_comps p) \<in> set (dk_dirs d)"
  shows "r = Inr ()"
  using assms by (auto simp: disk_write_def Let_def)

lemma add_dirs_fields [simp]:
  "dk_files (add_dirs ds d) = dk_files d" "dk_fault (add_dirs ds d) = dk_fault d"
  "dk_clock (add_dirs ds d) = dk_clock d" "dk_tick (add_dirs ds d) = dk_tick d"
  "file_at (add_dirs ds d) = file_at d" "set (dk_dirs (add_dirs ds d)) = set ds \<union> set (dk_dirs d)"
  by (simp_all add: add_dirs_def file_at_def fun_eq_iff)

lemma disk_mkdirsD:
  assumes "disk_mkdirs p d = (r, d')"
  shows "(\<exists>e. r = Inl e) \<and> d' = disk_step d
    \<or> (\<exists>ds. d' = add_dirs ds (disk_step d) \<and> set ds \<subseteq> set (ancestors (path_comps p) @ [path_comps p])
        \<and> (r = Inr () \<longrightarrow> ds = ancestors (path_comps p) @ [path_comps p]))"
proof (cases "file_at d (path_comps p) \<noteq> None \<or> below_file d (path_comps p)")
  case True
  then show ?thesis using assms by (auto simp: disk_mkdirs_def Let_def)
next
  case False
  show ?thesis
  proof (cases "dk_fault d (dk_tick d)")
    case None
    then show ?thesis using assms False by (auto simp: disk_mkdirs_def Let_def)
  next
    case (Some mn)
    obtain m n where mn: "mn = (m, n)" by (cases mn)
    define j where "j = (case n of None \<Rightarrow> 0 | Some n \<Rightarrow> n)"
    have "r = Inl (io_err m)" "d' = add_dirs (take j (ancestors (path_comps p) @ [path_comps p])) (disk_step d)"
      using assms False Some mn unfolding disk_mkdirs_def Let_def j_def by (simp_all only: if_False option.case prod.case prod.inject)
    then show ?thesis by (intro disjI2 exI [of _ "take j (ancestors (path_comps p) @ [path_comps p])"]) (metis Inl_Inr_False set_take_subset)
  qed
qed

lemma disk_mkdirs_ok:
  assumes "disk_mkdirs p d = (r, d')" "dk_fault d (dk_tick d) = None" "file_at d (path_comps p) = None"
    "\<not> below_file d (path_comps p)"
  shows "r = Inr ()"
  using assms by (auto simp: disk_mkdirs_def Let_def)

lemma set_names_in:
  "set (names_in d k) = {n. file_at d (k @ [n]) \<noteq> None \<or> k @ [n] \<in> set (dk_dirs d)}"
proof -
  have "q \<noteq> [] \<and> butlast q = k \<longleftrightarrow> q = k @ [last q]" for q :: "string list" by (metis append_butlast_last_id butlast_snoc snoc_eq_iff_butlast)
  then show ?thesis
    by (auto simp: names_in_def file_at_def map_of_eq_None_iff image_iff) (metis fst_conv last_snoc)+
qed

lemma sorted_names_in [simp]: "sorted (names_in d k)" "distinct (names_in d k)"
  by (simp_all add: names_in_def)

lemma names_in_cong:
  "file_at d' = file_at d \<Longrightarrow> set (dk_dirs d') = set (dk_dirs d) \<Longrightarrow> names_in d' k = names_in d k"
  by (rule sorted_distinct_set_unique) (simp_all add: set_names_in)

end
