(* ===== verification/JsonTorn.thy ===== *)
theory JsonTorn
  imports JsonTrip
begin

text \<open>
  JSON texts cut short.  The reader of \<open>Json\<close> never looks past the value it returns, so an
  object that reads completely reads the same when more text follows; hence no proper prefix
  of an encoded object is an object.  The file store rests on this: a record whose write was
  interrupted cannot pass for a record.
\<close>

section \<open>Strings\<close>

lemma get_u4_suffix: "get_u4 s = Some (r, t) \<Longrightarrow> suffix t s"
  by (auto simp: get_u4_def suffix_drop split: if_splits option.splits)

lemma u16_rune_suffix: "suffix (snd (u16_rune r s)) s"
  by (auto simp: u16_rune_def split: if_splits option.splits dest: get_u4_suffix)

lemma str_body_suffix: "json_str_body s = Some (v, r) \<Longrightarrow> suffix (CHR 0x22 # r) s"
proof (induction s arbitrary: v r rule: json_str_body.induct)
  case (2 c s)
  have step: ?case if "json_str_body t = Some (v', r)" "suffix t (c # s)"
      "\<And>v r. json_str_body t = Some (v, r) \<Longrightarrow> suffix (CHR 0x22 # r) t" for t v'
    using that suffix_order.trans by blast
  have s0: "suffix s (c # s)" "\<And>t. suffix t s \<Longrightarrow> suffix t (c # s)" by (auto simp: suffix_Cons)
  consider "c = CHR 0x22" | "c \<noteq> CHR 0x22" "c = CHR 0x5C" | "c \<noteq> CHR 0x22" "c \<noteq> CHR 0x5C" "\<not> byte_in 0 31 c" "byte_in 0 127 c"
    | "c \<noteq> CHR 0x22" "c \<noteq> CHR 0x5C" "\<not> byte_in 0 31 c" "\<not> byte_in 0 127 c"
    using 2(6) by (auto simp: json_str_body.simps(2) [of c s] split: if_splits)
  then show ?case
  proof cases
    case 1
    with 2(6) show ?thesis by (simp add: json_str_body.simps)
  next
    case c: 2
    then obtain e t where s: "s = e # t" using 2(6) by (auto simp: json_str_body.simps byte_in_def split: list.splits)
    show ?thesis
    proof (cases "e = CHR ''u''")
      case True
      obtain n rest where g: "get_u4 (c # s) = Some (n, rest)"
        using 2(6) c s True by (auto simp: json_str_body.simps byte_in_def split: option.splits)
      define p where "p = u16_rune n rest"
      have q: "length (snd p) < length (c # s)" "\<exists>v'. json_str_body (snd p) = Some (v', r)"
        using 2(6) c s True g by (auto simp: json_str_body.simps byte_in_def p_def Let_def split: if_splits)
      have "suffix (snd p) (c # s)"
        using get_u4_suffix [OF g] u16_rune_suffix [of n rest] suffix_order.trans by (auto simp: p_def)
      moreover have "\<not> byte_in 0 31 c" using c by (simp add: byte_in_def)
      ultimately show ?thesis using q(2) 2(1) [OF c(1) _ c(2) s True g refl p_def q(1)] by (blast intro: step)
    next
      case False
      obtain d where "unescape e = Some d" "\<exists>v'. json_str_body t = Some (v', r)"
        using 2(6) c s False by (auto simp: json_str_body.simps byte_in_def split: option.splits)
      moreover have "\<not> byte_in 0 31 c" using c by (simp add: byte_in_def)
      ultimately show ?thesis using 2(2) [OF c(1) _ c(2) s False] s by (auto simp: suffix_Cons)
    qed
  next
    case 3
    with 2(6) obtain v' where "json_str_body s = Some (v', r)" by (auto simp: json_str_body.simps)
    from step [OF this s0(1)] 2(3) 3 show ?thesis by blast
  next
    case 4
    define k where "k = utf8_len (c # s)"
    show ?thesis
    proof (cases "k = 0")
      case True
      with 4 2(6) obtain v' where "json_str_body s = Some (v', r)" by (auto simp: json_str_body.simps k_def)
      from step [OF this s0(1)] 2(4) 4 True show ?thesis by (simp add: k_def)
    next
      case False
      with 4 2(6) obtain v' where "json_str_body (drop (k - 1) s) = Some (v', r)"
        by (auto simp: json_str_body.simps k_def Let_def)
      from step [OF this s0(2) [OF suffix_drop]] 2(5) [OF 4(1,3,2,4) k_def False] show ?thesis by blast
    qed
  qed
qed (simp add: json_str_body.simps)

lemma utf8_len_extend:
  assumes "CHR 0x22 \<in> set s" shows "utf8_len (c # s @ x) = utf8_len (c # s)"
proof -
  consider "s = [CHR 0x22]" | a b where "s = [a, b]" "a = CHR 0x22 \<or> b = CHR 0x22" | a b d t where "s = a # b # d # t"
    using assms by (cases s rule: list.exhaust; cases "tl s"; cases "tl (tl s)") auto
  then show ?thesis
    by cases (auto simp: utf8_len_def byte_in_def Let_def)
qed

lemma get_u4_extend:
  "get_u4 s = Some (n, r) \<Longrightarrow> get_u4 (s @ x) = Some (n, r @ x)"
  by (auto simp: get_u4_def nth_append split: if_splits option.splits)

lemma opt_list_None: "None \<in> set xs \<Longrightarrow> opt_list xs = None"
proof (induction xs)
  case (Cons a xs)
  then show ?case by (cases a) auto
qed simp

lemma get_u4_extend_None:
  assumes "CHR 0x22 \<in> set s" "get_u4 s = None" shows "get_u4 (s @ x) = None"
proof (cases "6 \<le> length s")
  case True
  with assms(2) show ?thesis by (auto simp: get_u4_def nth_append split: if_splits option.splits)
next
  case False
  show ?thesis
  proof (rule ccontr)
    assume "get_u4 (s @ x) \<noteq> None"
    then have g: "6 \<le> length (s @ x)" "(s @ x) ! 0 = CHR 0x5C" "(s @ x) ! 1 = CHR ''u''"
      "opt_list (map hex_val (take 4 (drop 2 (s @ x)))) \<noteq> None"
      by (auto simp: get_u4_def split: if_splits option.splits)
    obtain i where i: "i < length s" "s ! i = CHR 0x22" using assms(1) by (auto simp: in_set_conv_nth)
    then have "s ! 0 = CHR 0x22 \<or> i \<noteq> 0" "s ! 1 = CHR 0x22 \<or> i \<noteq> 1" by auto
    moreover have "0 < length s" "1 < length s \<or> i = 0" using i by auto
    ultimately have "i \<noteq> 0" "i \<noteq> 1" using g(2,3) i by (auto simp: nth_append split: if_splits)
    then have "Suc (Suc (i - 2)) = i" by simp
    then have "take 4 (drop 2 (s @ x)) ! (i - 2) = CHR 0x22" "i - 2 < length (take 4 (drop 2 (s @ x)))"
      using i False g(1) by (auto simp: nth_append)
    then have "CHR 0x22 \<in> set (take 4 (drop 2 (s @ x)))" using nth_mem by metis
    then have "None \<in> hex_val ` set (take 4 (drop 2 (s @ x)))" by (force simp: hex_val_def)
    then show False using g(4) opt_list_None by (metis list.set_map)
  qed
qed

lemma u16_rune_extend:
  "CHR 0x22 \<in> set s \<Longrightarrow> u16_rune n (s @ x) = (fst (u16_rune n s), snd (u16_rune n s) @ x)"
  using get_u4_extend_None [of s x]
  by (cases "get_u4 s") (auto simp: u16_rune_def get_u4_extend)


text \<open>What follows the closing quote of a string does not change how it is read.\<close>

lemma str_body_extend: "json_str_body s = Some (v, r) \<Longrightarrow> json_str_body (s @ x) = Some (v, r @ x)"
proof (induction s arbitrary: v r rule: json_str_body.induct)
  case (2 c s)
  have quote: "CHR 0x22 \<in> set t" if "json_str_body t = Some (v', r')" for t v' r'
    using str_body_suffix [OF that] by (auto simp: suffix_def)
  consider "c = CHR 0x22" | "c \<noteq> CHR 0x22" "c = CHR 0x5C" "\<not> byte_in 0 31 c"
    | "c \<noteq> CHR 0x22" "c \<noteq> CHR 0x5C" "\<not> byte_in 0 31 c" "byte_in 0 127 c"
    | "c \<noteq> CHR 0x22" "c \<noteq> CHR 0x5C" "\<not> byte_in 0 31 c" "\<not> byte_in 0 127 c"
    using 2(6) by (auto simp: json_str_body.simps(2) [of c s] byte_in_def split: if_splits)
  then show ?case
  proof cases
    case 1
    with 2(6) show ?thesis by (simp add: json_str_body.simps)
  next
    case c: 2
    then obtain e t where s: "s = e # t" using 2(6) by (auto simp: json_str_body.simps split: list.splits)
    show ?thesis
    proof (cases "e = CHR ''u''")
      case True
      obtain n rest where g: "get_u4 (c # s) = Some (n, rest)"
        using 2(6) c s True by (auto simp: json_str_body.simps split: option.splits)
      define p where "p = u16_rune n rest"
      obtain v' where q: "length (snd p) < length (c # s)" "json_str_body (snd p) = Some (v', r)" "v = fst p @ v'"
        using 2(6) c s True g by (auto simp: json_str_body.simps p_def Let_def split: if_splits)
      have "CHR 0x22 \<in> set (snd p)" by (rule quote [OF q(2)])
      then have "CHR 0x22 \<in> set rest" using set_mono_suffix [OF u16_rune_suffix [of n rest]] by (auto simp: p_def)
      note u = u16_rune_extend [OF this, of n x]
      have g2: "get_u4 (c # e # t @ x) = Some (n, rest @ x)" using get_u4_extend [OF g, of x] s by simp
      have IH: "json_str_body (snd p @ x) = Some (v', r @ x)"
        by (rule 2(1) [OF c(1,3,2) s True g refl p_def q(1,2)])
      have "json_str_body ((c # s) @ x) = map_option (\<lambda>(v, q). (fst p @ v, q)) (json_str_body (snd p @ x))"
        using c s True g2 u q(1) by (simp add: json_str_body.simps p_def)
      then show ?thesis using IH q(3) by simp
    next
      case False
      obtain d v' where d: "unescape e = Some d" "json_str_body t = Some (v', r)" "v = d # v'"
        using 2(6) c s False by (auto simp: json_str_body.simps split: option.splits)
      have "json_str_body (t @ x) = Some (v', r @ x)" by (rule 2(2) [OF c(1,3,2) s False d(1,2)])
      then show ?thesis using c s False d by (simp add: str_body_unescape)
    qed
  next
    case 3
    with 2(6) obtain v' where v: "json_str_body s = Some (v', r)" "v = c # v'" by (auto simp: json_str_body.simps)
    with 2(3) [OF 3(1,3,2,4)] 3 show ?thesis by (simp add: json_str_body.simps(2) [of c "s @ x"])
  next
    case 4
    define k where "k = utf8_len (c # s)"
    show ?thesis
    proof (cases "k = 0")
      case True
      with 4 2(6) obtain v' where v: "json_str_body s = Some (v', r)" "v = utf8_replacement @ v'"
        by (auto simp: json_str_body.simps k_def)
      have "utf8_len (c # s @ x) = 0" using utf8_len_extend [OF quote [OF v(1)]] True by (simp add: k_def)
      with 2(4) [OF 4(1,3,2,4) k_def True v(1)] v(2) 4 show ?thesis by (simp add: json_str_body.simps(2) [of c "s @ x"])
    next
      case False
      with 4 2(6) obtain v' where v: "json_str_body (drop (k - 1) s) = Some (v', r)" "v = take k (c # s) @ v'"
        by (auto simp: json_str_body.simps k_def Let_def)
      have l: "k \<le> length (c # s)" unfolding k_def by (rule utf8_len_le)
      have t: "take k (c # s) @ (drop k (c # s) @ x) = c # s @ x" by (metis append_Cons append_assoc append_take_drop_id)
      have "utf8_len (c # s @ x) = k"
        using utf8_len_take [of "c # s" "drop k (c # s) @ x"] False unfolding k_def [symmetric] t .
      with 2(5) [OF 4(1,3,2,4) k_def False v(1)] v(2) 4 False l show ?thesis
        by (simp add: json_str_body.simps(2) [of c "s @ x"] take_Cons' drop_append)
    qed
  qed
qed (simp add: json_str_body.simps)

section \<open>Values\<close>

lemma skip_ws_extend: "skip_ws s \<noteq> [] \<Longrightarrow> skip_ws (s @ x) = skip_ws s @ x"
  by (auto simp: skip_ws_def dropWhile_append dropWhile_eq_Nil_conv)

lemma expect_extend: "expect c s = Some r \<Longrightarrow> expect c (s @ x) = Some (r @ x)"
  by (auto simp: expect_def skip_ws_extend split: list.splits if_splits)

lemma expect_extend_None: "expect c s = None \<Longrightarrow> skip_ws s \<noteq> [] \<Longrightarrow> expect c (s @ x) = None"
  by (auto simp: expect_def skip_ws_extend split: list.splits if_splits)

lemma expect_ws: "expect c s = Some r \<Longrightarrow> skip_ws s \<noteq> [] \<and> s \<noteq> []"
  by (cases "skip_ws s"; cases s) (auto simp: expect_def skip_ws_def)


lemma takeWhile_extend: "drop (length (takeWhile P s)) s \<noteq> [] \<Longrightarrow> takeWhile P (s @ x) = takeWhile P s"
  by (induction s) auto

lemma json_number_extend:
  assumes "json_number s = Some (neg, m, e, r)" "r \<noteq> []"
  shows "json_number (s @ x) = Some (neg, m, e, r @ x)"
proof -
  define hd_is :: "char \<Rightarrow> string \<Rightarrow> bool" where "hd_is = (\<lambda>c s. case s of a # t \<Rightarrow> a = c | [] \<Rightarrow> False)"
  have hd_is: "hd_is c (t @ x) = hd_is c t" if "t \<noteq> []" for c t
    using that by (cases t) (simp_all add: hd_is_def)
  define sg where "sg = (\<lambda>s. case s of c # t \<Rightarrow> (if c = CHR ''-'' then (True, t) else (False, s)) | [] \<Rightarrow> (False, s))"
  define ipf where "ipf = (\<lambda>s1. case s1 of c # t \<Rightarrow> (if c = CHR ''0'' then [c] else takeWhile is_digit s1) | [] \<Rightarrow> [])"
  define exf where "exf = (\<lambda>s3. case s3 of c # t \<Rightarrow> c = CHR ''e'' \<or> c = CHR ''E'' | [] \<Rightarrow> False)"
  define esf where "esf = (\<lambda>ex s4. case s4 of c # t \<Rightarrow> (if ex \<and> (c = CHR ''+'' \<or> c = CHR ''-'') then [c] else []) | [] \<Rightarrow> [])"
  have N: "json_number s = (case sg s of (neg, s1) \<Rightarrow>
      let ip = ipf s1; s2 = drop (length ip) s1; dot = hd_is (CHR ''.'') s2;
          fp = (if dot then takeWhile is_digit (drop 1 s2) else []);
          s3 = (if dot then drop (Suc (length fp)) s2 else s2);
          ex = exf s3; s4 = (if ex then drop 1 s3 else s3); esg = esf ex s4; s5 = drop (length esg) s4;
          ed = (if ex then takeWhile is_digit s5 else []); s6 = drop (length ed) s5;
          ev = (if esg = ''-'' then - int (digits_val ed) else int (digits_val ed))
      in if ip = [] \<or> (dot \<and> fp = []) \<or> (ex \<and> ed = []) then None
         else Some (neg, digits_val (ip @ fp), ev - int (length fp), s6))" for s
    by (simp only: json_number_def sg_def ipf_def hd_is_def exf_def esf_def Let_def)
  obtain n s1 where s1: "sg s = (n, s1)" by fastforce
  define ip s2 where "ip = ipf s1" and "s2 = drop (length ip) s1"
  define dot where "dot = hd_is (CHR ''.'') s2"
  define fp where "fp = (if dot then takeWhile is_digit (drop 1 s2) else [])"
  define s3 where "s3 = (if dot then drop (Suc (length fp)) s2 else s2)"
  define ex s4 where "ex = exf s3" and "s4 = (if ex then drop 1 s3 else s3)"
  define esg s5 where "esg = esf ex s4" and "s5 = drop (length esg) s4"
  define ed s6 where "ed = (if ex then takeWhile is_digit s5 else [])" and "s6 = drop (length ed) s5"
  have num: "json_number s = (let ev = (if esg = ''-'' then - int (digits_val ed) else int (digits_val ed))
      in if ip = [] \<or> (dot \<and> fp = []) \<or> (ex \<and> ed = []) then None
         else Some (n, digits_val (ip @ fp), ev - int (length fp), s6))"
    by (simp only: N [of s] s1 prod.case Let_def ip_def s2_def dot_def fp_def s3_def ex_def s4_def esg_def s5_def ed_def s6_def)
  have r: "s6 = r" "ip \<noteq> []" using assms(1) unfolding num Let_def by (auto split: if_splits)
  have ne: "s5 \<noteq> []" "s4 \<noteq> []" "s3 \<noteq> []" "s2 \<noteq> []" "s1 \<noteq> []" "drop (length ed) s5 \<noteq> []"
    using r assms(2) by (auto simp: s6_def s5_def s4_def s3_def s2_def split: if_splits)
  have e1: "sg (s @ x) = (n, s1 @ x)"
    using s1 ne(5) by (cases s) (auto simp: sg_def split: if_splits)
  have e2: "ipf (s1 @ x) = ip" "drop (length ip) (s1 @ x) = s2 @ x"
    using ne(4,5) takeWhile_extend [of is_digit s1 x] by (cases s1; auto simp: ip_def ipf_def s2_def drop_append)+
  have e3: "hd_is (CHR ''.'') (s2 @ x) = dot" using hd_is [OF ne(4)] by (simp add: dot_def)
  have e4: "(if dot then takeWhile is_digit (drop 1 (s2 @ x)) else []) = fp"
    "(if dot then drop (Suc (length fp)) (s2 @ x) else s2 @ x) = s3 @ x"
    using ne(3,4) takeWhile_extend [of is_digit "drop 1 s2" x]
    by (cases s2; auto simp: fp_def s3_def drop_append)+
  have e5: "exf (s3 @ x) = ex" "(if ex then drop 1 (s3 @ x) else s3 @ x) = s4 @ x"
    using ne(3) by (cases s3; auto simp: ex_def exf_def s4_def)+
  have e6: "esf ex (s4 @ x) = esg" "drop (length esg) (s4 @ x) = s5 @ x"
    using ne(1,2) by (cases s4; auto simp: esg_def esf_def s5_def)+
  have e7: "(if ex then takeWhile is_digit (s5 @ x) else []) = ed" "drop (length ed) (s5 @ x) = s6 @ x"
    using ne(1,6) takeWhile_extend [of is_digit s5 x] by (auto simp: ed_def s6_def drop_append)
  have "json_number (s @ x) = (let ev = (if esg = ''-'' then - int (digits_val ed) else int (digits_val ed))
      in if ip = [] \<or> (dot \<and> fp = []) \<or> (ex \<and> ed = []) then None
         else Some (n, digits_val (ip @ fp), ev - int (length fp), s6 @ x))"
    unfolding N [of "s @ x"] e1 prod.case Let_def e2 e3 e4 e5 e6 e7 ..
  then show ?thesis using assms(1) r(1) unfolding num Let_def by (auto split: if_splits)
qed


text \<open>A value that ends before the text does is read the same way when the text goes on.\<close>

definition open_value :: "string \<Rightarrow> bool" where
  "open_value s = (case skip_ws s of c # _ \<Rightarrow> c = CHR ''{'' | [] \<Rightarrow> False)"

lemma json_extend:
  "json_val d s = Some (v, r) \<Longrightarrow> r \<noteq> [] \<or> open_value s \<Longrightarrow> json_val d (s @ x) = Some (v, r @ x)"
  "json_elems d s = Some (vs, r) \<Longrightarrow> json_elems d (s @ x) = Some (vs, r @ x)"
  "json_members d m s = Some (m', r) \<Longrightarrow> json_members d m (s @ x) = Some (m', r @ x)"
proof (induction d s and d s and d m s arbitrary: v r and vs r and m' r rule: json_val_json_elems_json_members.induct)
  case (1 d s)
  then obtain c t where ws: "skip_ws s = c # t" by (auto simp: json_val.simps [of d s] split: list.splits)
  then have wx: "skip_ws (s @ x) = c # t @ x" by (simp add: skip_ws_extend)
  show ?case
  proof (cases "c = CHR ''{''")
    case c: True
    then have d: "\<not> d \<le> 0" using 1(3) ws by (auto simp: json_val.simps [of d s])
    show ?thesis
    proof (cases "expect (CHR ''}'') t")
      case None
      then obtain m where m: "json_members (d - 1) [] t = Some (m, r)" "v = GMap m"
        using 1(3) ws c d by (auto simp: json_val.simps [of d s])
      then have "skip_ws t \<noteq> []" using expect_ws by (auto simp: json_members.simps [of _ _ t] split: option.splits)
      with None expect_extend_None have "expect (CHR ''}'') (t @ x) = None" by blast
      then show ?thesis using 1(1) [OF ws c d None m(1)] wx c d m(2) by (simp add: json_val.simps [of d "s @ x"])
    next
      case (Some q)
      then show ?thesis using 1(3) ws wx c d expect_extend [OF Some, of x]
        by (simp add: json_val.simps [of d])
    qed
  next
    case c: False
    show ?thesis
    proof (cases "c = CHR ''[''")
      case c2: True
      then have d: "\<not> d \<le> 0" using 1(3) ws c by (auto simp: json_val.simps [of d s])
      show ?thesis
      proof (cases "expect (CHR '']'') t")
        case None
        then obtain m where m: "json_elems (d - 1) t = Some (m, r)" "v = GArr m"
          using 1(3) ws c c2 d by (auto simp: json_val.simps [of d s])
        have "skip_ws t \<noteq> []"
        proof
          assume "skip_ws t = []"
          then show False using m(1) by (simp add: json_elems.simps [of _ t] json_val.simps [of _ t])
        qed
        with None expect_extend_None have "expect (CHR '']'') (t @ x) = None" by blast
        then show ?thesis using 1(2) [OF ws c c2 d None m(1)] wx c c2 d m(2) by (simp add: json_val.simps [of d "s @ x"])
      next
        case (Some q)
        then show ?thesis using 1(3) ws wx c c2 d expect_extend [OF Some, of x]
          by (simp add: json_val.simps [of d])
      qed
    next
      case c2: False
      have r: "r \<noteq> []" using 1(4) ws c by (auto simp: open_value_def)
      have pre: "has_prefix (c # t) p \<Longrightarrow> has_prefix (c # t @ x) p" for p
        by (metis append_Cons append_assoc has_prefix_iff)
      have len: "has_prefix (c # t) p \<Longrightarrow> length p \<le> Suc (length t)" for p
        by (auto simp: has_prefix_iff dest: arg_cong [of _ _ length])
      consider "c = CHR 0x22" | "c \<noteq> CHR 0x22" "has_prefix (c # t) ''true''" | "c \<noteq> CHR 0x22" "has_prefix (c # t) ''false''"
        | "c \<noteq> CHR 0x22" "has_prefix (c # t) ''null''"
        | "c \<noteq> CHR 0x22" "\<not> has_prefix (c # t) ''true''" "\<not> has_prefix (c # t) ''false''" "\<not> has_prefix (c # t) ''null''"
        by blast
      then show ?thesis
      proof cases
        case c3: 1
        then obtain b where "json_str_body t = Some (b, r)" "v = GStr b"
          using 1(3) ws c c2 by (auto simp: json_val.simps [of d s])
        then show ?thesis using str_body_extend ws wx c c2 c3 by (simp add: json_val.simps [of d "s @ x"])
      next
        case c3: 2
        then have "v = GBool True" "r = drop 3 t" using 1(3) ws c c2 by (auto simp: json_val.simps [of d s])
        then show ?thesis using pre [OF c3(2)] len [OF c3(2)] wx c c2 c3 by (simp add: json_val.simps [of d "s @ x"])
      next
        case c3: 3
        then have n: "\<not> has_prefix (c # t @ x) ''true''" by (auto simp: has_prefix_iff)
        have "v = GBool False" "r = drop 4 t" using c3 1(3) ws c c2 by (auto simp: json_val.simps [of d s] has_prefix_iff)
        then show ?thesis using n pre [OF c3(2)] len [OF c3(2)] wx c c2 c3 by (simp add: json_val.simps [of d "s @ x"])
      next
        case c3: 4
        then have n: "\<not> has_prefix (c # t @ x) ''true''" "\<not> has_prefix (c # t @ x) ''false''" by (auto simp: has_prefix_iff)
        have "v = GNil" "r = drop 3 t" using c3 1(3) ws c c2 by (auto simp: json_val.simps [of d s] has_prefix_iff)
        then show ?thesis using n pre [OF c3(2)] len [OF c3(2)] wx c c2 c3 by (simp add: json_val.simps [of d "s @ x"])
      next
        case c3: 5
        then obtain neg k e y where n: "json_number (c # t) = Some (neg, k, e, r)" "fparse neg k e = Some y" "v = GNum y"
          using 1(3) ws c c2 by (auto simp: json_val.simps [of d s] split: option.splits)
        have "c \<noteq> CHR ''t''" "c \<noteq> CHR ''f''" "c \<noteq> CHR ''n''"
          using n(1) by (auto simp: json_number_def Let_def is_digit_def byte_in_def)
        then have "\<not> has_prefix (c # t @ x) ''true''" "\<not> has_prefix (c # t @ x) ''false''" "\<not> has_prefix (c # t @ x) ''null''"
          by (auto simp: has_prefix_iff)
        then show ?thesis using json_number_extend [OF n(1) r, of x] n(2,3) wx c c2 c3(1)
          by (simp add: json_val.simps [of d "s @ x"])
      qed
    qed
  qed
next
  case (2 d s)
  obtain v1 r1 where v1: "json_val d s = Some (v1, r1)" using 2(3) by (auto simp: json_elems.simps [of d s] split: option.splits)
  show ?case
  proof (cases "expect (CHR '','') r1")
    case None
    then obtain q where q: "expect (CHR '']'') r1 = Some q" "vs = [v1]" "r = q"
      using 2(3) v1 by (auto simp: json_elems.simps [of d s])
    have ne: "r1 \<noteq> []" "skip_ws r1 \<noteq> []" using expect_ws [OF q(1)] by auto
    show ?thesis using 2(1) [OF v1] ne expect_extend [OF q(1), of x] expect_extend_None [OF None ne(2), of x] q
      by (simp add: json_elems.simps [of d "s @ x"])
  next
    case (Some r2)
    then obtain ws where w: "length r2 < length s" "json_elems d r2 = Some (ws, r)" "vs = v1 # ws"
      using 2(3) v1 by (auto simp: json_elems.simps [of d s] split: if_splits)
    have ne: "r1 \<noteq> []" using expect_ws [OF Some] by auto
    show ?thesis using 2(1) [OF v1] ne expect_extend [OF Some, of x] 2(2) [OF v1 refl Some w(1,2)] w
      by (simp add: json_elems.simps [of d "s @ x"])
  qed
next
  case (3 d m s)
  obtain s1 k s2 s3 v1 r1 where p: "expect (CHR 0x22) s = Some s1" "json_str_body s1 = Some (k, s2)"
    "expect (CHR '':'') s2 = Some s3" "length s3 < length s" "json_val d s3 = Some (v1, r1)"
    using 3(3) by (auto simp: json_members.simps [of d m s] split: option.splits if_splits)
  note px = expect_extend [OF p(1), of x] str_body_extend [OF p(2), of x] expect_extend [OF p(3), of x]
  have IH1: "r1 \<noteq> [] \<Longrightarrow> json_val d (s3 @ x) = Some (v1, r1 @ x)"
    using 3(1) [OF p(1,2) refl p(3) _ p(5)] p(4) by simp
  show ?case
  proof (cases "expect (CHR '','') r1")
    case None
    then obtain q where q: "expect (CHR ''}'') r1 = Some q" "m' = gmap_set k v1 m" "r = q"
      using 3(3) p by (auto simp: json_members.simps [of d m s])
    have ne: "r1 \<noteq> []" "skip_ws r1 \<noteq> []" using expect_ws [OF q(1)] by auto
    show ?thesis using IH1 ne expect_extend [OF q(1), of x] expect_extend_None [OF None ne(2), of x] q p(4) px
      by (simp add: json_members.simps [of d m "s @ x"])
  next
    case (Some r2)
    then have w: "length r2 < length s" "json_members d (gmap_set k v1 m) r2 = Some (m', r)"
      using 3(3) p by (auto simp: json_members.simps [of d m s] split: if_splits)
    have ne: "r1 \<noteq> []" using expect_ws [OF Some] by auto
    have "json_members d (gmap_set k v1 m) (r2 @ x) = Some (m', r @ x)"
      using 3(2) [OF p(1,2) refl p(3) _ p(5) refl Some w] p(4) by simp
    then show ?thesis using IH1 ne expect_extend [OF Some, of x] w(1) p(4) px
      by (simp add: json_members.simps [of d m "s @ x"])
  qed
qed

text \<open>A record that was written only in part is not read as a record.\<close>

lemma torn_object:
  assumes "reads n (json_obj fs) v" "n \<le> 10000" "k < length (json_obj fs)"
  shows "\<exists>e. json_unmarshal (take k (json_obj fs)) = Inl e"
proof (rule ccontr)
  let ?t = "json_obj fs"
  assume "\<not> ?thesis"
  then obtain v' r where r: "json_val json_max_depth (take k ?t) = Some (v', r)"
    by (auto simp: json_unmarshal_def split: option.splits)
  have "k \<noteq> 0"
  proof
    assume "k = 0"
    then show False using r by (simp add: json_val.simps skip_ws_def)
  qed
  then have "open_value (take k ?t)" by (cases k) (simp_all add: open_value_def json_obj_def skip_ws_Cons json_ws_def)
  from json_extend(1) [OF r disjI2 [OF this], of "drop k ?t"]
  have "json_val json_max_depth ?t = Some (v', r @ drop k ?t)" by simp
  moreover have "json_val json_max_depth (?t @ []) = Some (v, [])"
    using assms(1,2) unfolding reads_def json_max_depth_def by (metis of_nat_le_iff of_nat_numeral)
  ultimately show False using assms(3) by simp
qed

end
