(* ===== verification/Tsdb.thy ===== *)
theory Tsdb
  imports Disk JsonTorn Engine Events "HOL-Library.Product_Lexorder"
begin

text \<open>
  \<open>TSDBEngine\<close> of \<open>pkg/store/tsdb_engine.go\<close>: the node-local store that keeps every snapshot,
  memo and replay row as a JSON file below one directory.  The theory holds the records and
  their JSON, the methods on a disk whose calls may fail at any point and leave a file cut
  short, and the proof that the engine keeps the laws of \<open>store_laws\<close>.  The engine's lock
  makes each method one step.
\<close>

section \<open>Records\<close>

record snapshot_record =
  srec_snapshot_id :: string
  srec_time_slice :: string
  srec_data :: string
  srec_sealed :: bool
  srec_created_at :: int

record memo_record =
  mrec_snapshot_id :: string
  mrec_domino_id :: string
  mrec_input_hash :: string
  mrec_output_hash :: string
  mrec_output :: string
  mrec_created_at :: int

record replay_record =
  rrec_snapshot_id :: string
  rrec_domino_id :: string
  rrec_input_hash :: string
  rrec_output_hash :: string
  rrec_reused :: bool
  rrec_output :: string
  rrec_prev_link :: string
  rrec_link :: string
  rrec_created_at :: int

definition snapshot_record_json :: "snapshot_record \<Rightarrow> string res" where
  "snapshot_record_json r =
     bindr (json_time (srec_created_at r)) (\<lambda>t. Inr (json_obj
       ([(''snapshot_id'', json_string (srec_snapshot_id r)), (''time_slice'', json_string (srec_time_slice r))]
        @ omit_empty ''data'' (srec_data r)
        @ [(''sealed'', json_bool (srec_sealed r)), (''created_at'', t)])))"

definition memo_record_json :: "memo_record \<Rightarrow> string res" where
  "memo_record_json r =
     bindr (json_time (mrec_created_at r)) (\<lambda>t. Inr (json_obj
       [(''snapshot_id'', json_string (mrec_snapshot_id r)), (''domino_id'', json_string (mrec_domino_id r)),
        (''input_hash'', json_string (mrec_input_hash r)), (''output_hash'', json_string (mrec_output_hash r)),
        (''output'', json_string (mrec_output r)), (''created_at'', t)]))"

definition replay_record_json :: "replay_record \<Rightarrow> string res" where
  "replay_record_json r =
     bindr (json_time (rrec_created_at r)) (\<lambda>t. Inr (json_obj
       ([(''snapshot_id'', json_string (rrec_snapshot_id r)), (''domino_id'', json_string (rrec_domino_id r)),
         (''input_hash'', json_string (rrec_input_hash r)), (''output_hash'', json_string (rrec_output_hash r)),
         (''reused'', json_bool (rrec_reused r))]
        @ omit_empty ''output'' (rrec_output r) @ omit_empty ''prev_link'' (rrec_prev_link r)
        @ omit_empty ''link'' (rrec_link r) @ [(''created_at'', t)])))"

fun snapshot_record_of :: "gval \<Rightarrow> snapshot_record res" where
  "snapshot_record_of (GMap m) =
     bindr (dec_string (json_field ''snapshot_id'' m)) (\<lambda>i.
     bindr (dec_string (json_field ''time_slice'' m)) (\<lambda>t.
     bindr (dec_string (json_field ''data'' m)) (\<lambda>d.
     bindr (dec_bool (json_field ''sealed'' m)) (\<lambda>b.
     bindr (dec_time (json_field ''created_at'' m)) (\<lambda>c.
     Inr \<lparr>srec_snapshot_id = i, srec_time_slice = t, srec_data = d, srec_sealed = b, srec_created_at = c\<rparr>)))))"
| "snapshot_record_of GNil =
     Inr \<lparr>srec_snapshot_id = '''', srec_time_slice = '''', srec_data = '''', srec_sealed = False, srec_created_at = zero_time\<rparr>"
| "snapshot_record_of _ = Inl json_error"

fun memo_record_of :: "gval \<Rightarrow> memo_record res" where
  "memo_record_of (GMap m) =
     bindr (dec_string (json_field ''snapshot_id'' m)) (\<lambda>i.
     bindr (dec_string (json_field ''domino_id'' m)) (\<lambda>d.
     bindr (dec_string (json_field ''input_hash'' m)) (\<lambda>h.
     bindr (dec_string (json_field ''output_hash'' m)) (\<lambda>oh.
     bindr (dec_string (json_field ''output'' m)) (\<lambda>out.
     bindr (dec_time (json_field ''created_at'' m)) (\<lambda>c.
     Inr \<lparr>mrec_snapshot_id = i, mrec_domino_id = d, mrec_input_hash = h, mrec_output_hash = oh,
          mrec_output = out, mrec_created_at = c\<rparr>))))))"
| "memo_record_of GNil =
     Inr \<lparr>mrec_snapshot_id = '''', mrec_domino_id = '''', mrec_input_hash = '''', mrec_output_hash = '''',
          mrec_output = '''', mrec_created_at = zero_time\<rparr>"
| "memo_record_of _ = Inl json_error"

fun replay_record_of :: "gval \<Rightarrow> replay_record res" where
  "replay_record_of (GMap m) =
     bindr (dec_string (json_field ''snapshot_id'' m)) (\<lambda>i.
     bindr (dec_string (json_field ''domino_id'' m)) (\<lambda>d.
     bindr (dec_string (json_field ''input_hash'' m)) (\<lambda>h.
     bindr (dec_string (json_field ''output_hash'' m)) (\<lambda>oh.
     bindr (dec_bool (json_field ''reused'' m)) (\<lambda>b.
     bindr (dec_string (json_field ''output'' m)) (\<lambda>out.
     bindr (dec_string (json_field ''prev_link'' m)) (\<lambda>p.
     bindr (dec_string (json_field ''link'' m)) (\<lambda>l.
     bindr (dec_time (json_field ''created_at'' m)) (\<lambda>c.
     Inr \<lparr>rrec_snapshot_id = i, rrec_domino_id = d, rrec_input_hash = h, rrec_output_hash = oh,
          rrec_reused = b, rrec_output = out, rrec_prev_link = p, rrec_link = l, rrec_created_at = c\<rparr>)))))))))"
| "replay_record_of GNil =
     Inr \<lparr>rrec_snapshot_id = '''', rrec_domino_id = '''', rrec_input_hash = '''', rrec_output_hash = '''',
          rrec_reused = False, rrec_output = '''', rrec_prev_link = '''', rrec_link = '''', rrec_created_at = zero_time\<rparr>"
| "replay_record_of _ = Inl json_error"

text \<open>\<open>json.Unmarshal(body, &rec)\<close>.\<close>

definition unmarshal_into :: "(gval \<Rightarrow> 'r res) \<Rightarrow> string \<Rightarrow> 'r res" where
  "unmarshal_into rec_of body = bindr (json_unmarshal body) rec_of"

section \<open>Paths\<close>

definition snapshot_path :: "string \<Rightarrow> string \<Rightarrow> string" where
  "snapshot_path dir i = path_join [dir, ''snapshots'', i @ ''.json'']"

definition snapshot_data_path :: "string \<Rightarrow> string \<Rightarrow> string" where
  "snapshot_data_path dir i = path_join [dir, ''snapshots'', i @ ''.data.json'']"

definition memo_path :: "string \<Rightarrow> string \<Rightarrow> string \<Rightarrow> string \<Rightarrow> string" where
  "memo_path dir i d h = path_join [dir, ''memo'', i, d, h @ ''.json'']"

text \<open>\<open>filepath.Dir\<close>.\<close>

definition path_dir :: "string \<Rightarrow> string" where
  "path_dir p = path_clean (rev (dropWhile (\<lambda>c. c \<noteq> CHR ''/'') (rev p)))"

section \<open>Methods\<close>

fun mkdir_each :: "string list \<Rightarrow> disk \<Rightarrow> unit res \<times> disk" where
  "mkdir_each [] d = (Inr (), d)"
| "mkdir_each (p # ps) d =
     (case disk_mkdirs p d of
        (Inl e, d1) \<Rightarrow> (Inl (wrapf (''create tsdb dir '' @ p) e), d1)
      | (Inr _, d1) \<Rightarrow> mkdir_each ps d1)"

definition open_tsdb_engine :: "string \<Rightarrow> disk \<Rightarrow> unit res \<times> disk" where
  "open_tsdb_engine dir =
     mkdir_each [path_join [dir, ''snapshots''], path_join [dir, ''memo''], path_join [dir, ''replay'']]"

text \<open>\<open>getSnapshotMetaLocked\<close>.\<close>

definition ts_get_snapshot :: "string \<Rightarrow> string \<Rightarrow> disk \<Rightarrow> (string \<times> string \<times> bool) res \<times> disk" where
  "ts_get_snapshot dir i d =
     (case disk_read (snapshot_path dir i) d of
        (Inl e, d1) \<Rightarrow> (Inl e, d1)
      | (Inr body, d1) \<Rightarrow>
        (case unmarshal_into snapshot_record_of body of
           Inl e \<Rightarrow> (Inl e, d1)
         | Inr rec \<Rightarrow>
             if srec_data rec = '''' then
               (case disk_read (snapshot_data_path dir i) d1 of
                  (Inr sidecar, d2) \<Rightarrow> (Inr (srec_time_slice rec, sidecar, srec_sealed rec), d2)
                | (Inl e, d2) \<Rightarrow> if os_is_not_exist e then (Inr (srec_time_slice rec, '''', srec_sealed rec), d2)
                    else (Inl e, d2))
             else (Inr (srec_time_slice rec, srec_data rec, srec_sealed rec), d1)))"

definition ts_save_snapshot ::
  "string \<Rightarrow> string \<Rightarrow> string \<Rightarrow> string \<Rightarrow> bool \<Rightarrow> disk \<Rightarrow> unit res \<times> disk" where
  "ts_save_snapshot dir i timeSlice payload sealed d =
     (case ts_get_snapshot dir i d of (existing, d1) \<Rightarrow>
      case refuse_sealed_mutation existing timeSlice payload sealed of
        Inl e \<Rightarrow> (Inl e, d1)
      | Inr _ \<Rightarrow>
          if (case existing of Inr (_, _, b) \<Rightarrow> b | Inl _ \<Rightarrow> False) then (Inr (), d1)
          else (case disk_now d1 of (now, d2) \<Rightarrow>
            case snapshot_record_json \<lparr>srec_snapshot_id = i, srec_time_slice = timeSlice, srec_data = '''',
                srec_sealed = sealed, srec_created_at = now\<rparr> of
              Inl e \<Rightarrow> (Inl e, d2)
            | Inr body \<Rightarrow>
                (case disk_write (snapshot_path dir i) body d2 of
                   (Inl e, d3) \<Rightarrow> (Inl e, d3)
                 | (Inr _, d3) \<Rightarrow> disk_write (snapshot_data_path dir i) payload d3)))"

definition ts_snapshot_sealed :: "string \<Rightarrow> string \<Rightarrow> disk \<Rightarrow> bool res \<times> disk" where
  "ts_snapshot_sealed dir i d =
     (case disk_read (snapshot_path dir i) d of
        (Inl e, d1) \<Rightarrow> (Inl e, d1)
      | (Inr body, d1) \<Rightarrow> (bindr (unmarshal_into snapshot_record_of body) (\<lambda>rec. Inr (srec_sealed rec)), d1))"

definition ts_get_data :: "string \<Rightarrow> string \<Rightarrow> disk \<Rightarrow> (string \<times> bool) res \<times> disk" where
  "ts_get_data dir i d =
     (case ts_snapshot_sealed dir i d of
        (Inl e, d1) \<Rightarrow> (Inl e, d1)
      | (Inr sealed, d1) \<Rightarrow>
        (case disk_read (snapshot_data_path dir i) d1 of
           (Inl e, d2) \<Rightarrow> (Inl e, d2)
         | (Inr body, d2) \<Rightarrow> (Inr (body, sealed), d2)))"

text \<open>\<open>OpenSnapshotData\<close>, with what its reader will return.\<close>

definition ts_open_data :: "string \<Rightarrow> string \<Rightarrow> disk \<Rightarrow> (string \<times> bool) res \<times> disk" where
  "ts_open_data dir i d =
     (case ts_snapshot_sealed dir i d of
        (Inl e, d1) \<Rightarrow> (Inl e, d1)
      | (Inr sealed, d1) \<Rightarrow>
        (case disk_read (snapshot_data_path dir i) d1 of
           (Inl e, d2) \<Rightarrow> (Inl e, d2)
         | (Inr body, d2) \<Rightarrow> (Inr (body, sealed), d2)))"

definition ts_lookup_memo ::
  "string \<Rightarrow> string \<Rightarrow> string \<Rightarrow> string \<Rightarrow> disk \<Rightarrow> (string \<times> string) option res \<times> disk" where
  "ts_lookup_memo dir i dn h d =
     (case disk_read (memo_path dir i dn h) d of
        (Inl e, d1) \<Rightarrow> (if os_is_not_exist e then Inr None else Inl e, d1)
      | (Inr body, d1) \<Rightarrow>
          (bindr (unmarshal_into memo_record_of body) (\<lambda>rec. Inr (Some (mrec_output_hash rec, mrec_output rec))), d1))"

text \<open>The write-once part of \<open>SaveResult\<close>.\<close>

definition ts_save_memo :: "string \<Rightarrow> replay_row \<Rightarrow> disk \<Rightarrow> unit res \<times> disk" where
  "ts_save_memo dir r d =
     (let p = memo_path dir (re_snapshot_id r) (re_domino_id r) (re_input_hash r) in
      case disk_read p d of
        (Inr body, d1) \<Rightarrow>
          (bindr (unmarshal_into memo_record_of body) (\<lambda>rec.
             refuse_memo_conflict (Some (mrec_output_hash rec, mrec_output rec)) (re_output_hash r) (re_output r)), d1)
      | (Inl e, d1) \<Rightarrow>
          if \<not> os_is_not_exist e then (Inl e, d1)
          else (case disk_now d1 of (now, d2) \<Rightarrow>
            case memo_record_json \<lparr>mrec_snapshot_id = re_snapshot_id r, mrec_domino_id = re_domino_id r,
                mrec_input_hash = re_input_hash r, mrec_output_hash = re_output_hash r,
                mrec_output = re_output r, mrec_created_at = now\<rparr> of
              Inl e \<Rightarrow> (Inl e, d2)
            | Inr body \<Rightarrow>
                (case disk_mkdirs (path_dir p) d2 of
                   (Inl e, d3) \<Rightarrow> (Inl e, d3)
                 | (Inr _, d3) \<Rightarrow> disk_write p body d3)))"

definition replay_name :: "int \<Rightarrow> string \<Rightarrow> string \<Rightarrow> string" where
  "replay_name nanos dn h = int_str nanos @ ''-'' @ dn @ ''-'' @ take 8 h @ ''.json''"

text \<open>The replay row of \<open>SaveResult\<close>; \<open>inputHash[:8]\<close> panics on a shorter hash.\<close>

definition ts_save_replay :: "string \<Rightarrow> replay_row \<Rightarrow> disk \<Rightarrow> unit res \<times> disk" where
  "ts_save_replay dir r d =
     (case disk_now d of (now, d1) \<Rightarrow>
      case replay_record_json \<lparr>rrec_snapshot_id = re_snapshot_id r, rrec_domino_id = re_domino_id r,
          rrec_input_hash = re_input_hash r, rrec_output_hash = re_output_hash r, rrec_reused = re_reused r,
          rrec_output = re_output r, rrec_prev_link = re_prev_link r, rrec_link = re_link r,
          rrec_created_at = now\<rparr> of
        Inl e \<Rightarrow> (Inl e, d1)
      | Inr body \<Rightarrow>
         (case disk_now d1 of (nanos, d2) \<Rightarrow>
          if length (re_input_hash r) < 8 then (Inl (panic ''slice bounds out of range''), d2)
          else disk_write (path_join [dir, ''replay'', replay_name nanos (re_domino_id r) (re_input_hash r)]) body d2))"

definition ts_save_result :: "string \<Rightarrow> replay_row \<Rightarrow> disk \<Rightarrow> unit res \<times> disk" where
  "ts_save_result dir r d =
     (if re_reused r then ts_save_replay dir r d
      else (case ts_save_memo dir r d of
          (Inl e, d1) \<Rightarrow> (Inl e, d1)
        | (Inr _, d1) \<Rightarrow> ts_save_replay dir r d1))"

definition replay_entry :: "replay_record \<Rightarrow> replay_row" where
  "replay_entry rec = \<lparr>re_snapshot_id = rrec_snapshot_id rec, re_domino_id = rrec_domino_id rec,
     re_input_hash = rrec_input_hash rec, re_output_hash = rrec_output_hash rec, re_output = rrec_output rec,
     re_reused = rrec_reused rec, re_prev_link = rrec_prev_link rec, re_link = rrec_link rec\<rparr>"

text \<open>The loop of \<open>listReplayLocked\<close> over the files of the directory.\<close>

fun read_replays :: "string \<Rightarrow> string \<Rightarrow> string list \<Rightarrow> disk \<Rightarrow> (string \<times> replay_record) list res \<times> disk" where
  "read_replays dir i [] d = (Inr [], d)"
| "read_replays dir i (n # ns) d =
     (case disk_read (path_join [path_join [dir, ''replay''], n]) d of
        (Inl e, d1) \<Rightarrow> (Inl e, d1)
      | (Inr body, d1) \<Rightarrow>
        (case unmarshal_into replay_record_of body of
           Inl e \<Rightarrow> (Inl e, d1)
         | Inr rec \<Rightarrow>
            (case read_replays dir i ns d1 of
               (Inl e, d2) \<Rightarrow> (Inl e, d2)
             | (Inr rs, d2) \<Rightarrow> (Inr (if rrec_snapshot_id rec \<noteq> i then rs else (n, rec) # rs), d2))))"

text \<open>The order of the rows: their time, then the name of their file.\<close>

definition replay_key :: "string \<times> replay_record \<Rightarrow> int \<times> string" where
  "replay_key = (\<lambda>(n, rec). (rrec_created_at rec, n))"

definition ts_list_replay :: "string \<Rightarrow> string \<Rightarrow> disk \<Rightarrow> replay_row list res \<times> disk" where
  "ts_list_replay dir i d =
     (case disk_list (path_join [dir, ''replay'']) d of
        (Inl e, d1) \<Rightarrow> (Inl e, d1)
      | (Inr names, d1) \<Rightarrow>
        (case read_replays dir i names d1 of
           (Inl e, d2) \<Rightarrow> (Inl e, d2)
         | (Inr rs, d2) \<Rightarrow> (Inr (map (replay_entry \<circ> snd) (sort_key replay_key rs)), d2)))"

definition ts_get_latest :: "string \<Rightarrow> string \<Rightarrow> string \<Rightarrow> disk \<Rightarrow> (string \<times> string \<times> string) res \<times> disk" where
  "ts_get_latest dir i dn d =
     (case ts_list_replay dir i d of
        (Inl e, d1) \<Rightarrow> (Inl e, d1)
      | (Inr rows, d1) \<Rightarrow>
        (case last_spine_result rows dn of
           (rec, True) \<Rightarrow> (Inr (re_input_hash rec, re_output_hash rec, re_output rec), d1)
         | (_, False) \<Rightarrow> (Inl (Err KNotExist ''file does not exist''), d1)))"

definition ts_get_domino_output :: "string \<Rightarrow> string \<Rightarrow> string \<Rightarrow> disk \<Rightarrow> string res \<times> disk" where
  "ts_get_domino_output dir i dn d =
     (case ts_get_latest dir i dn d of (r, d1) \<Rightarrow> (bindr r (\<lambda>(_, _, out). Inr out), d1))"

text \<open>\<open>Stats\<close>: entries of the snapshot directory, and memo files.\<close>

definition ts_stats :: "string \<Rightarrow> disk \<Rightarrow> (nat \<times> nat) res \<times> disk" where
  "ts_stats dir d =
     (case disk_list (path_join [dir, ''snapshots'']) d of
        (Inl e, d1) \<Rightarrow> (Inl e, d1)
      | (Inr names, d1) \<Rightarrow>
        (case disk_count (path_join [dir, ''memo'']) d1 of (n, d2) \<Rightarrow> (Inr (length names, n), d2)))"

definition tsdb_backend :: "string \<Rightarrow> disk backend" where
  "tsdb_backend dir =
     \<lparr>b_save_snapshot = ts_save_snapshot dir, b_get_snapshot = ts_get_snapshot dir,
      b_lookup_memo = ts_lookup_memo dir, b_save_result = ts_save_result dir,
      b_get_domino_output = ts_get_domino_output dir, b_get_latest = ts_get_latest dir,
      b_list_replay = ts_list_replay dir, b_close = (\<lambda>d. (Inr (), d)),
      b_get_data = Some (ts_get_data dir), b_save_payload = Some (ts_save_snapshot dir)\<rparr>"


section \<open>Records on disk\<close>

definition bool_member :: "string \<Rightarrow> bool \<Rightarrow> string \<times> string \<times> gval" where
  "bool_member k b = (k, json_bool b, GBool b)"

definition snapshot_members :: "snapshot_record \<Rightarrow> (string \<times> string \<times> gval) list" where
  "snapshot_members r =
     [str_member ''snapshot_id'' (srec_snapshot_id r), str_member ''time_slice'' (srec_time_slice r)]
     @ opt_member ''data'' (srec_data r)
     @ [bool_member ''sealed'' (srec_sealed r), str_member ''created_at'' (format_rfc3339nano (srec_created_at r))]"

definition memo_members :: "memo_record \<Rightarrow> (string \<times> string \<times> gval) list" where
  "memo_members r =
     [str_member ''snapshot_id'' (mrec_snapshot_id r), str_member ''domino_id'' (mrec_domino_id r),
      str_member ''input_hash'' (mrec_input_hash r), str_member ''output_hash'' (mrec_output_hash r),
      str_member ''output'' (mrec_output r), str_member ''created_at'' (format_rfc3339nano (mrec_created_at r))]"

definition replay_members :: "replay_record \<Rightarrow> (string \<times> string \<times> gval) list" where
  "replay_members r =
     [str_member ''snapshot_id'' (rrec_snapshot_id r), str_member ''domino_id'' (rrec_domino_id r),
      str_member ''input_hash'' (rrec_input_hash r), str_member ''output_hash'' (rrec_output_hash r),
      bool_member ''reused'' (rrec_reused r)]
     @ opt_member ''output'' (rrec_output r) @ opt_member ''prev_link'' (rrec_prev_link r)
     @ opt_member ''link'' (rrec_link r) @ [str_member ''created_at'' (format_rfc3339nano (rrec_created_at r))]"

definition member_texts :: "(string \<times> string \<times> gval) list \<Rightarrow> (string \<times> string) list" where
  "member_texts ms = map (\<lambda>(k, t, v). (k, t)) ms"

definition member_values :: "(string \<times> string \<times> gval) list \<Rightarrow> gmap" where
  "member_values ms = map (\<lambda>(k, t, v). (k, v)) ms"

definition record_keys :: "string set" where
  "record_keys = {''snapshot_id'', ''time_slice'', ''data'', ''sealed'', ''created_at'', ''domino_id'', ''input_hash'',
     ''output_hash'', ''output'', ''reused'', ''prev_link'', ''link''}"

text \<open>The members of a record are read back, and looked up by their keys.\<close>

definition record_members :: "(string \<times> string \<times> gval) list \<Rightarrow> bool" where
  "record_members ms \<longleftrightarrow> distinct (map fst ms)
     \<and> (\<forall>(k, t, v)\<in>set ms. k \<in> record_keys \<and> reads 0 t v \<and> v \<noteq> GNil)"

lemma record_keysD: "k \<in> record_keys \<Longrightarrow> sanitize k = k \<and> to_lower k = k"
  by (auto simp: record_keys_def to_lower_def lower_char_def byte_in_def intro!: sanitize_ascii)

lemma record_membersD:
  assumes "record_members ms"
  shows "reads 1 (json_obj (member_texts ms)) (GMap (member_values ms))"
    and "n \<in> record_keys \<Longrightarrow> json_field n (member_values ms) = map_of (member_values ms) n"
proof -
  show "reads 1 (json_obj (member_texts ms)) (GMap (member_values ms))"
    using reads_obj [of ms 0] assms record_keysD by (fastforce simp: record_members_def member_texts_def member_values_def)
  have f: "map fst (member_values ms) = map fst ms" by (simp add: member_values_def comp_def split_def)
  assume n: "n \<in> record_keys"
  have "json_field n (member_values ms) = (case map_of (member_values ms) n of
      Some v \<Rightarrow> if v = GNil then None else Some v | None \<Rightarrow> None)"
  proof (rule json_field_map_of)
    show "distinct (map fst (member_values ms))" using assms f by (simp add: record_members_def)
    show "\<forall>k\<in>fst ` set (member_values ms). to_lower k = k"
      using assms record_keysD by (fastforce simp: record_members_def member_values_def)
    show "to_lower n = n" using record_keysD [OF n] by simp
  qed
  moreover have "map_of (member_values ms) n = Some v \<Longrightarrow> v \<noteq> GNil" for v
    using assms by (fastforce simp: record_members_def member_values_def dest: map_of_SomeD)
  ultimately show "json_field n (member_values ms) = map_of (member_values ms) n"
    by (auto split: option.splits)
qed

lemma reads_str_member: "reads 0 (json_string s) (GStr (sanitize s))" "reads 0 (json_bool b) (GBool b)"
  by (rule reads_string, rule reads_bool)

lemmas member_defs = str_member_def opt_member_def bool_member_def

lemma record_members_all:
  "record_members (snapshot_members s)" "record_members (memo_members m)" "record_members (replay_members r)"
  by (auto simp: record_members_def snapshot_members_def memo_members_def replay_members_def member_defs
      record_keys_def reads_str_member)

lemma in_record_keys:
  "''snapshot_id'' \<in> record_keys" "''time_slice'' \<in> record_keys" "''data'' \<in> record_keys" "''sealed'' \<in> record_keys"
  "''created_at'' \<in> record_keys" "''domino_id'' \<in> record_keys" "''input_hash'' \<in> record_keys"
  "''output_hash'' \<in> record_keys" "''output'' \<in> record_keys" "''reused'' \<in> record_keys"
  "''prev_link'' \<in> record_keys" "''link'' \<in> record_keys"
  by (simp_all add: record_keys_def)

lemmas record_fields = in_record_keys [THEN record_membersD(2) [OF record_members_all(1)]]
  in_record_keys [THEN record_membersD(2) [OF record_members_all(2)]]
  in_record_keys [THEN record_membersD(2) [OF record_members_all(3)]]

lemma created_at_read: "four_digit_year t \<Longrightarrow> parse_rfc3339 (sanitize (format_rfc3339nano t)) = Inr t"
  using json_safe_ascii [OF json_safe_rfc3339nano] parse_format_rfc3339nano by simp

lemma map_of_member_values [simp]:
  "map_of (member_values []) n = None"
  "map_of (member_values ((k, t, v) # ms)) n = (if n = k then Some v else map_of (member_values ms) n)"
  "map_of (member_values ((if b then [] else [(k, t, v)]) @ ms)) n = (if \<not> b \<and> n = k then Some v else map_of (member_values ms) n)"
  by (simp_all add: member_values_def)

text \<open>
  A record on disk is read back with the invalid bytes of its texts replaced; a record cut
  short is not read at all.
\<close>

definition sane_snapshot :: "snapshot_record \<Rightarrow> snapshot_record" where
  "sane_snapshot r = r\<lparr>srec_snapshot_id := sanitize (srec_snapshot_id r), srec_time_slice := sanitize (srec_time_slice r),
     srec_data := sanitize (srec_data r)\<rparr>"

definition sane_memo :: "memo_record \<Rightarrow> memo_record" where
  "sane_memo r = r\<lparr>mrec_snapshot_id := sanitize (mrec_snapshot_id r), mrec_domino_id := sanitize (mrec_domino_id r),
     mrec_input_hash := sanitize (mrec_input_hash r), mrec_output_hash := sanitize (mrec_output_hash r),
     mrec_output := sanitize (mrec_output r)\<rparr>"

definition sane_replay :: "replay_record \<Rightarrow> replay_record" where
  "sane_replay r = r\<lparr>rrec_snapshot_id := sanitize (rrec_snapshot_id r), rrec_domino_id := sanitize (rrec_domino_id r),
     rrec_input_hash := sanitize (rrec_input_hash r), rrec_output_hash := sanitize (rrec_output_hash r),
     rrec_output := sanitize (rrec_output r), rrec_prev_link := sanitize (rrec_prev_link r),
     rrec_link := sanitize (rrec_link r)\<rparr>"

lemma sanitize_Nil [simp]: "sanitize [] = []"
  by (simp add: sanitize.simps)

lemma record_decoded:
  "four_digit_year (srec_created_at s) \<Longrightarrow> snapshot_record_of (GMap (member_values (snapshot_members s))) = Inr (sane_snapshot s)"
  "four_digit_year (mrec_created_at m) \<Longrightarrow> memo_record_of (GMap (member_values (memo_members m))) = Inr (sane_memo m)"
  "four_digit_year (rrec_created_at r) \<Longrightarrow> replay_record_of (GMap (member_values (replay_members r))) = Inr (sane_replay r)"
  by (simp_all add: record_fields) (simp_all add: snapshot_members_def memo_members_def replay_members_def member_defs
      created_at_read sane_snapshot_def sane_memo_def sane_replay_def)



lemma json_time_Inr:
  "json_time t = Inr s \<longleftrightarrow> four_digit_year t \<and> s = json_string (format_rfc3339nano t)"
proof (cases "four_digit_year t")
  case False
  then show ?thesis by (auto simp: json_time_def four_digit_year_def split: prod.splits if_splits)
qed (auto simp: json_time_string)

lemma record_json:
  "snapshot_record_json s = Inr b \<longleftrightarrow> four_digit_year (srec_created_at s) \<and> b = json_obj (member_texts (snapshot_members s))"
  "memo_record_json m = Inr b \<longleftrightarrow> four_digit_year (mrec_created_at m) \<and> b = json_obj (member_texts (memo_members m))"
  "replay_record_json r = Inr b \<longleftrightarrow> four_digit_year (rrec_created_at r) \<and> b = json_obj (member_texts (replay_members r))"
  by (auto simp: snapshot_record_json_def memo_record_json_def replay_record_json_def bindr_Inr_iff json_time_Inr
      member_texts_def snapshot_members_def memo_members_def replay_members_def member_defs omit_empty_def)

lemma unmarshal_members:
  assumes "record_members ms"
  shows "unmarshal_into f (json_obj (member_texts ms)) = f (GMap (member_values ms))"
    and "\<exists>e. unmarshal_into f (cut_short n (json_obj (member_texts ms))) = Inl e"
proof -
  note rd = record_membersD(1) [OF assms]
  show "unmarshal_into f (json_obj (member_texts ms)) = f (GMap (member_values ms))"
    using unmarshal_reads [OF rd] by (simp add: unmarshal_into_def)
  have "json_obj (member_texts ms) \<noteq> []" by (simp add: json_obj_def)
  then obtain k where "cut_short n (json_obj (member_texts ms)) = take k (json_obj (member_texts ms))"
    "k < length (json_obj (member_texts ms))" using cut_short_take by blast
  then obtain e where "json_unmarshal (cut_short n (json_obj (member_texts ms))) = Inl e"
    using torn_object [OF rd] by auto
  then show "\<exists>e. unmarshal_into f (cut_short n (json_obj (member_texts ms))) = Inl e"
    by (simp add: unmarshal_into_def)
qed

lemma record_stored:
  "snapshot_record_json s = Inr b \<Longrightarrow> unmarshal_into snapshot_record_of b = Inr (sane_snapshot s)"
  "memo_record_json m = Inr b \<Longrightarrow> unmarshal_into memo_record_of b = Inr (sane_memo m)"
  "replay_record_json r = Inr b \<Longrightarrow> unmarshal_into replay_record_of b = Inr (sane_replay r)"
  by (simp_all add: record_json unmarshal_members(1) [OF record_members_all(1)] unmarshal_members(1) [OF record_members_all(2)]
      unmarshal_members(1) [OF record_members_all(3)] record_decoded del: snapshot_record_of.simps memo_record_of.simps replay_record_of.simps)

lemma record_torn:
  "snapshot_record_json s = Inr b \<Longrightarrow> \<exists>e. unmarshal_into snapshot_record_of (cut_short n b) = Inl e"
  "memo_record_json m = Inr b \<Longrightarrow> \<exists>e. unmarshal_into memo_record_of (cut_short n b) = Inl e"
  "replay_record_json r = Inr b \<Longrightarrow> \<exists>e. unmarshal_into replay_record_of (cut_short n b) = Inl e"
  using unmarshal_members(2) [OF record_members_all(1)] unmarshal_members(2) [OF record_members_all(2)]
    unmarshal_members(2) [OF record_members_all(3)] by (auto simp: record_json)

section \<open>Places\<close>

text \<open>The directory of the store: an absolute, clean path.  Identities and hashes name files.\<close>

definition store_dir :: "string \<Rightarrow> bool" where
  "store_dir dir \<longleftrightarrow> (\<exists>rs. list_all plain_comp rs \<and> rs \<noteq> [] \<and> dir = CHR ''/'' # join_with ''/'' rs)"

definition tsdb_id :: "string \<Rightarrow> bool" where
  "tsdb_id i \<longleftrightarrow> plain_comp i \<and> valid_utf8 i \<and> \<not> has_suffix i ''.data''"

definition tsdb_hash :: "string \<Rightarrow> bool" where
  "tsdb_hash h \<longleftrightarrow> 8 \<le> length h \<and> CHR ''/'' \<notin> set h \<and> valid_utf8 h"

definition place :: "string \<Rightarrow> string list \<Rightarrow> string list" where
  "place dir cs = path_comps dir @ cs"

lemma path_comps_join:
  assumes "store_dir dir" "list_all plain_comp cs"
  shows "path_comps (path_join (dir # cs)) = place dir cs"
proof -
  obtain rs where rs: "list_all plain_comp rs" "rs \<noteq> []" "dir = CHR ''/'' # join_with ''/'' rs"
    using assms(1) by (auto simp: store_dir_def)
  have "split_on (CHR ''/'') (CHR ''/'' # join_with ''/'' xs) = [] # xs" if "list_all plain_comp xs" "xs \<noteq> []" for xs
    using that split_join [of xs "CHR ''/''"] by (auto simp: list_all_iff plain_comp_def)
  from this [of rs] this [of "rs @ cs"] path_join_plain [OF rs(1) assms(2) rs(2)] rs assms(2) show ?thesis
    by (simp add: path_comps_def place_def)
qed

lemma plain_comp_json: "CHR ''/'' \<notin> set x \<Longrightarrow> plain_comp (x @ ''.json'')"
  by (cases x) (auto simp: plain_comp_def Cons_eq_append_conv append_eq_Cons_conv)

lemma plain_dirs: "plain_comp ''snapshots''" "plain_comp ''memo''" "plain_comp ''replay''"
  by (simp_all add: plain_comp_def)

lemma tsdb_id_plain: "tsdb_id i \<Longrightarrow> plain_comp i" "tsdb_id i \<Longrightarrow> CHR ''/'' \<notin> set i" "tsdb_id i \<Longrightarrow> valid_utf8 i"
  by (simp_all add: tsdb_id_def plain_comp_def)

lemma comps_paths:
  assumes "store_dir dir"
  shows "CHR ''/'' \<notin> set i \<Longrightarrow> path_comps (snapshot_path dir i) = place dir [''snapshots'', i @ ''.json'']"
    and "CHR ''/'' \<notin> set i \<Longrightarrow> path_comps (snapshot_data_path dir i) = place dir [''snapshots'', i @ ''.data.json'']"
    and "tsdb_id i \<Longrightarrow> tsdb_id x \<Longrightarrow> tsdb_hash h \<Longrightarrow> path_comps (memo_path dir i x h) = place dir [''memo'', i, x, h @ ''.json'']"
    and "path_comps (path_join [dir, ''replay'']) = place dir [''replay'']"
    and "plain_comp n \<Longrightarrow> path_comps (path_join [dir, ''replay'', n]) = place dir [''replay'', n]"
    and "plain_comp n \<Longrightarrow> path_comps (path_join [path_join [dir, ''replay''], n]) = place dir [''replay'', n]"
proof -
  show "CHR ''/'' \<notin> set i \<Longrightarrow> path_comps (snapshot_path dir i) = place dir [''snapshots'', i @ ''.json'']"
    using path_comps_join [OF assms] plain_comp_json plain_dirs by (simp add: snapshot_path_def)
  show "CHR ''/'' \<notin> set i \<Longrightarrow> path_comps (snapshot_data_path dir i) = place dir [''snapshots'', i @ ''.data.json'']"
    using path_comps_join [OF assms, of "[''snapshots'', i @ ''.data.json'']"] plain_comp_json [of "i @ ''.data''"] plain_dirs
    by (simp add: snapshot_data_path_def)
  show "tsdb_id i \<Longrightarrow> tsdb_id x \<Longrightarrow> tsdb_hash h \<Longrightarrow> path_comps (memo_path dir i x h) = place dir [''memo'', i, x, h @ ''.json'']"
    using path_comps_join [OF assms] plain_comp_json plain_dirs tsdb_id_plain(1) by (simp add: memo_path_def tsdb_hash_def)
  show "path_comps (path_join [dir, ''replay'']) = place dir [''replay'']"
    using path_comps_join [OF assms] plain_dirs by simp
  show "plain_comp n \<Longrightarrow> path_comps (path_join [dir, ''replay'', n]) = place dir [''replay'', n]"
    using path_comps_join [OF assms] plain_dirs by simp
  obtain rs where rs: "list_all plain_comp rs" "rs \<noteq> []" "dir = CHR ''/'' # join_with ''/'' rs"
    using assms by (auto simp: store_dir_def)
  have j: "path_join [dir, ''replay''] = CHR ''/'' # join_with ''/'' (rs @ [''replay''])"
    using path_join_plain [OF rs(1) _ rs(2), of "[''replay'']"] plain_dirs rs(3) by simp
  have sd: "store_dir (path_join [dir, ''replay''])"
    unfolding store_dir_def j using rs plain_dirs by (intro exI [of _ "rs @ [''replay'']"]) simp
  show "plain_comp n \<Longrightarrow> path_comps (path_join [path_join [dir, ''replay''], n]) = place dir [''replay'', n]"
    using path_comps_join [OF sd, of "[n]"] path_comps_join [OF assms, of "[''replay'']"] plain_dirs by (simp add: place_def)
qed

lemma place_inject [simp]: "place dir a = place dir b \<longleftrightarrow> a = b"
  by (simp add: place_def)



section \<open>Views and invariant\<close>

text \<open>The record in the file at a place.\<close>

definition stored :: "(gval \<Rightarrow> 'r res) \<Rightarrow> disk \<Rightarrow> string list \<Rightarrow> 'r option" where
  "stored rec_of d k = (case file_at d k of None \<Rightarrow> None
     | Some b \<Rightarrow> (case unmarshal_into rec_of b of Inl _ \<Rightarrow> None | Inr rec \<Rightarrow> Some rec))"

definition snapshot_at :: "string \<Rightarrow> disk \<Rightarrow> string \<Rightarrow> snapshot_record option" where
  "snapshot_at dir d i = stored snapshot_record_of d (place dir [''snapshots'', i @ ''.json''])"

definition memo_at :: "string \<Rightarrow> disk \<Rightarrow> string \<Rightarrow> string \<Rightarrow> string \<Rightarrow> memo_record option" where
  "memo_at dir d i x h = stored memo_record_of d (place dir [''memo'', i, x, h @ ''.json''])"

definition replay_at :: "string \<Rightarrow> disk \<Rightarrow> string \<Rightarrow> replay_record option" where
  "replay_at dir d n = stored replay_record_of d (place dir [''replay'', n])"

definition sidecar :: "string \<Rightarrow> disk \<Rightarrow> string \<Rightarrow> string" where
  "sidecar dir d i = (case file_at d (place dir [''snapshots'', i @ ''.data.json'']) of None \<Rightarrow> '''' | Some s \<Rightarrow> s)"

definition ts_snap :: "string \<Rightarrow> disk \<Rightarrow> string \<Rightarrow> (string \<times> string \<times> bool) option" where
  "ts_snap dir d i = (if tsdb_id i then map_option (\<lambda>rec. (srec_time_slice rec, sidecar dir d i, srec_sealed rec)) (snapshot_at dir d i)
     else None)"

definition ts_memo :: "string \<Rightarrow> disk \<Rightarrow> string \<Rightarrow> string \<Rightarrow> string \<Rightarrow> (string \<times> string) option" where
  "ts_memo dir d i x h = (if tsdb_id i \<and> tsdb_id x \<and> tsdb_hash h
     then map_option (\<lambda>rec. (mrec_output_hash rec, mrec_output rec)) (memo_at dir d i x h) else None)"

text \<open>Of the file with this name, the row on this snapshot.\<close>

definition replay_pick :: "string \<Rightarrow> disk \<Rightarrow> string \<Rightarrow> string \<Rightarrow> (string \<times> replay_record) option" where
  "replay_pick dir d i n = (case replay_at dir d n of
     Some rec \<Rightarrow> if rrec_snapshot_id rec = i then Some (n, rec) else None | None \<Rightarrow> None)"

definition replay_rows :: "string \<Rightarrow> disk \<Rightarrow> string \<Rightarrow> (string \<times> replay_record) list" where
  "replay_rows dir d i = sort_key replay_key (List.map_filter (replay_pick dir d i) (names_in d (place dir [''replay''])))"

definition ts_rows :: "string \<Rightarrow> disk \<Rightarrow> string \<Rightarrow> replay_row list" where
  "ts_rows dir d i = map (replay_entry \<circ> snd) (replay_rows dir d i)"

definition tsdb_ok :: "disk \<Rightarrow> bool" where
  "tsdb_ok d \<longleftrightarrow> (\<forall>n. dk_fault d n = None)"

text \<open>
  The clock moves on between any two calls.  Snapshot records written by this engine keep their
  data in the file beside them; the files of the replay directory are named after a time that
  has passed.
\<close>

definition clock_runs :: "disk \<Rightarrow> bool" where
  "clock_runs d \<longleftrightarrow> (\<forall>m n. m < n \<longrightarrow> dk_clock d m < dk_clock d n) \<and> (\<forall>n. 0 \<le> dk_clock d n)"

definition disk_time :: "disk \<Rightarrow> int" where
  "disk_time d = dk_clock d (dk_tick d)"

definition replay_named :: "disk \<Rightarrow> string \<Rightarrow> bool" where
  "replay_named d n \<longleftrightarrow> plain_comp n \<and> (\<exists>t m. n = nat_str t @ ''-'' @ m \<and> int t < disk_time d)"

definition tsdb_inv :: "string \<Rightarrow> disk \<Rightarrow> bool" where
  "tsdb_inv dir d \<longleftrightarrow> store_dir dir \<and> clock_runs d
     \<and> (\<forall>i rec. tsdb_id i \<longrightarrow> snapshot_at dir d i = Some rec \<longrightarrow> srec_data rec = '''')
     \<and> (\<forall>i x h rec. tsdb_id i \<longrightarrow> tsdb_id x \<longrightarrow> tsdb_hash h \<longrightarrow> memo_at dir d i x h = Some rec \<longrightarrow>
          valid_utf8 (mrec_output_hash rec) \<and> valid_utf8 (mrec_output rec))
     \<and> (\<forall>n. file_at d (place dir [''replay'', n]) \<noteq> None \<longrightarrow> replay_named d n)
     \<and> (\<forall>n rec. replay_at dir d n = Some rec \<longrightarrow> rrec_created_at rec < disk_time d)
     \<and> (\<forall>n. place dir [''replay'', n] \<notin> set (dk_dirs d))"

lemma valid_sanitize: "valid_utf8 (sanitize s)"
proof (induction s rule: sanitize.induct)
  case (2 c s)
  show ?case
  proof (cases "byte_in 0 127 c")
    case True
    with 2 show ?thesis by (simp add: sanitize.simps valid_utf8.simps)
  next
    case False
    define k where "k = utf8_len (c # s)"
    show ?thesis
    proof (cases "k = 0")
      case True
      have "valid_utf8 (utf8_replacement @ t) = valid_utf8 t" for t
        by (simp add: utf8_replacement_def valid_utf8.simps byte_in_def utf8_len_def)
      with 2 False True show ?thesis by (simp add: sanitize.simps k_def)
    next
      case k: False
      let ?t = "sanitize (drop (k - 1) s)"
      have l: "utf8_len (take k (c # s) @ ?t) = k" using utf8_len_take [of "c # s" ?t] k by (simp add: k_def)
      have "length (take k (c # s)) = k" using utf8_len_le [of "c # s"] by (simp add: k_def)
      moreover have "take k (c # s) = c # take (k - 1) s" using k by (cases k) auto
      ultimately have "valid_utf8 (take k (c # s) @ ?t) = valid_utf8 ?t"
        using l False k by (simp add: valid_utf8.simps Let_def)
      with 2(3) [OF False k_def k] False k show ?thesis by (simp add: sanitize.simps k_def [symmetric])
    qed
  qed
qed (simp add: sanitize.simps valid_utf8.simps)

lemma sort_key_unique:
  assumes "inj_on f (set xs)" "distinct xs" "distinct ys" "set ys = set xs" "sorted (map f ys)"
  shows "sort_key f xs = ys"
proof -
  have "map f (sort_key f xs) = map f ys"
    by (rule sorted_distinct_set_unique) (use assms in \<open>auto simp: distinct_map\<close>)
  then show ?thesis using assms(1,4) by (intro map_inj_on [of f]) simp_all
qed

lemma stored_file: "stored f d k = Some r \<Longrightarrow> file_at d k \<noteq> None"
  by (auto simp: stored_def split: option.splits)

lemma replay_key_inj: "inj_on replay_key (set (replay_rows dir d i))"
  unfolding inj_on_def replay_rows_def
  by (auto simp: replay_key_def replay_pick_def List.map_filter_def split: option.splits if_splits)

lemma set_map_filter: "set (List.map_filter f xs) = {y. \<exists>x\<in>set xs. f x = Some y}"
  by (force simp: List.map_filter_def image_iff)

lemma set_replay_rows:
  "set (replay_rows dir d i) = {(n, rec). replay_at dir d n = Some rec \<and> rrec_snapshot_id rec = i}"
proof -
  have "n \<in> set (names_in d (place dir [''replay'']))" if "replay_at dir d n = Some rec" for n rec
    using stored_file that by (fastforce simp: replay_at_def set_names_in place_def)
  then show ?thesis by (fastforce simp: replay_rows_def set_map_filter replay_pick_def split: option.splits if_splits)
qed

lemma distinct_map_filter: "distinct xs \<Longrightarrow> (\<And>x y. f x = Some y \<Longrightarrow> fst y = x) \<Longrightarrow> distinct (List.map_filter f xs)"
proof (induction xs)
  case (Cons x xs)
  have n: "y \<notin> set (List.map_filter f xs)" if y: "f x = Some y" for y
  proof
    assume "y \<in> set (List.map_filter f xs)"
    then obtain z where "z \<in> set xs" "f z = Some y" by (auto simp: set_map_filter)
    then show False using Cons.prems y by (metis distinct.simps(2))
  qed
  have "distinct (List.map_filter f xs)" using Cons by simp
  with n show ?case by (auto simp: List.map_filter_simps split: option.splits)
qed (simp add: List.map_filter_def)

lemma distinct_replay_rows: "distinct (replay_rows dir d i)"
  unfolding replay_rows_def distinct_sort
  by (rule distinct_map_filter) (auto simp: replay_pick_def split: option.splits if_splits)

lemma replay_rows_eqI:
  assumes "distinct ps" "set ps = {(n, rec). replay_at dir d n = Some rec \<and> rrec_snapshot_id rec = i}"
    and "sorted (map replay_key ps)"
  shows "replay_rows dir d i = ps"
proof -
  have s: "sort_key replay_key (replay_rows dir d i) = replay_rows dir d i"
    by (rule sort_key_id_if_sorted) (simp add: replay_rows_def)
  have "sort_key replay_key (replay_rows dir d i) = ps"
    by (rule sort_key_unique) (use assms replay_key_inj distinct_replay_rows set_replay_rows in auto)
  then show ?thesis using s by simp
qed

lemma sorted_replay_rows: "sorted (map replay_key (replay_rows dir d i))"
  by (simp add: replay_rows_def)

text \<open>The views depend on the files only.\<close>

lemma views_cong:
  assumes "file_at d' = file_at d"
  shows "snapshot_at dir d' = snapshot_at dir d" "memo_at dir d' = memo_at dir d" "replay_at dir d' = replay_at dir d"
    "ts_snap dir d' = ts_snap dir d" "ts_memo dir d' = ts_memo dir d" "ts_rows dir d' = ts_rows dir d"
proof -
  have st: "stored f d' = stored f d" for f :: "gval \<Rightarrow> 'x res" by (simp add: stored_def assms fun_eq_iff)
  show a: "snapshot_at dir d' = snapshot_at dir d" and b: "memo_at dir d' = memo_at dir d"
    and c: "replay_at dir d' = replay_at dir d"
    by (simp_all add: snapshot_at_def memo_at_def replay_at_def fun_eq_iff stored_def assms)
  show "ts_snap dir d' = ts_snap dir d" "ts_memo dir d' = ts_memo dir d"
    by (simp_all add: ts_snap_def ts_memo_def fun_eq_iff a b sidecar_def assms)
  have "replay_rows dir d' i = replay_rows dir d i" for i
    by (rule replay_rows_eqI) (use distinct_replay_rows set_replay_rows sorted_replay_rows c in auto)
  then show "ts_rows dir d' = ts_rows dir d" by (simp add: ts_rows_def fun_eq_iff)
qed

text \<open>A call that writes nothing.\<close>

definition idle :: "disk \<Rightarrow> disk \<Rightarrow> bool" where
  "idle d d' \<longleftrightarrow> file_at d' = file_at d \<and> set (dk_dirs d') = set (dk_dirs d) \<and> dk_clock d' = dk_clock d
     \<and> dk_fault d' = dk_fault d \<and> dk_tick d \<le> dk_tick d'"

lemma idle_refl [simp]: "idle d d"
  by (simp add: idle_def)

lemma idle_step [simp]: "idle d (disk_step d)"
  by (simp add: idle_def)

lemma idle_trans: "idle d d' \<Longrightarrow> idle d' d'' \<Longrightarrow> idle d d''"
  by (auto simp: idle_def)

lemma idle_step_trans [simp]: "idle d d' \<Longrightarrow> idle d (disk_step d')"
  by (simp add: idle_def)

lemma clock_runs_le: "clock_runs d \<Longrightarrow> m \<le> n \<Longrightarrow> dk_clock d m \<le> dk_clock d n"
  by (cases "m = n") (auto simp: clock_runs_def order_le_less)

lemma idle_time: "idle d d' \<Longrightarrow> clock_runs d \<Longrightarrow> clock_runs d' \<and> disk_time d \<le> disk_time d'"
  by (simp add: idle_def disk_time_def clock_runs_le) (simp add: clock_runs_def)

lemma idle_inv:
  assumes "tsdb_inv dir d" "idle d d'"
  shows "tsdb_inv dir d'"
proof -
  have f: "file_at d' = file_at d" "set (dk_dirs d') = set (dk_dirs d)" using assms(2) by (simp_all add: idle_def)
  have t: "clock_runs d'" "disk_time d \<le> disk_time d'" using idle_time [OF assms(2)] assms(1) by (simp_all add: tsdb_inv_def)
  have n: "replay_named d n \<Longrightarrow> replay_named d' n" for n using t(2) by (fastforce simp: replay_named_def)
  show ?thesis using assms(1) t n unfolding tsdb_inv_def views_cong [OF f(1)] f by (fastforce intro: less_le_trans)
qed

lemma idle_frame:
  assumes "tsdb_inv dir d" "idle d d'"
  shows "tsdb_inv dir d' \<and> (tsdb_ok d \<longrightarrow> tsdb_ok d') \<and> ts_snap dir d' = ts_snap dir d
    \<and> ts_memo dir d' = ts_memo dir d \<and> ts_rows dir d' = ts_rows dir d"
  using idle_inv [OF assms] views_cong [of d' d dir] assms(2) by (simp add: idle_def tsdb_ok_def)



section \<open>Reading\<close>

lemma disk_read_idle: "disk_read p d = (r, d') \<Longrightarrow> idle d d'"
  using disk_readD(1) by fastforce

lemma disk_read_found:
  assumes "disk_read p d = (Inl e, d')" "file_at d (path_comps p) \<noteq> None"
  shows "\<not> not_found e" "\<not> os_is_not_exist e"
  using assms by (auto simp: disk_read_def not_found_def is_no_rows_def errors_is_not_exist_def io_err_def
      os_is_not_exist_def split: option.splits if_splits)

lemma disk_read_error:
  "disk_read p d = (Inl e, d') \<Longrightarrow> \<not> os_is_not_exist e \<Longrightarrow> \<not> not_found e"
  by (auto simp: disk_read_def not_found_def is_no_rows_def errors_is_not_exist_def io_err_def absent_def
      os_is_not_exist_def path_error_def split: option.splits if_splits)

lemma tsdb_inv_dir [simp]: "tsdb_inv dir d \<Longrightarrow> store_dir dir"
  by (simp add: tsdb_inv_def)

lemma ts_get_snapshot_laws:
  assumes "ts_get_snapshot dir i d = (g, d')"
  shows "idle d d'"
    and "tsdb_inv dir d \<Longrightarrow> tsdb_id i \<Longrightarrow> g = Inr x \<Longrightarrow> ts_snap dir d i = Some x"
    and "tsdb_inv dir d \<Longrightarrow> tsdb_id i \<Longrightarrow> g = Inl e \<Longrightarrow> ts_snap dir d i = Some x \<Longrightarrow> \<not> not_found e"
proof -
  obtain r d1 where r: "disk_read (snapshot_path dir i) d = (r, d1)" by fastforce
  obtain q d2 where q: "disk_read (snapshot_data_path dir i) d1 = (q, d2)" by fastforce
  note id = disk_read_idle [OF r] disk_read_idle [OF q]
  have "d' = d1 \<or> d' = d2" using assms r q by (auto simp: ts_get_snapshot_def split: sum.splits if_splits)
  then show "idle d d'" using id idle_trans by blast
  assume inv: "tsdb_inv dir d" and i: "tsdb_id i"
  note p = comps_paths(1,2) [OF tsdb_inv_dir [OF inv] tsdb_id_plain(2) [OF i]]
  have f1: "file_at d1 = file_at d" using id(1) by (simp add: idle_def)
  have meta: "file_at d (place dir [''snapshots'', i @ ''.json'']) = Some b" if "r = Inr b" for b
    using disk_readD(2) [OF r that] p by simp
  have side: "sidecar dir d i = s" if "q = Inr s" for s
    using disk_readD(2) [OF q that] p f1 by (simp add: sidecar_def)
  have side0: "sidecar dir d i = ''''" if "q = Inl e" "os_is_not_exist e" for e
    using disk_readD(3) [OF q that] p f1 by (simp add: sidecar_def)
  have nodata: "srec_data rec = ''''" if "snapshot_at dir d i = Some rec" for rec
    using inv i that by (simp add: tsdb_inv_def)
  show "ts_snap dir d i = Some x" if g: "g = Inr x"
  proof -
    from assms r q g obtain b rec where b: "r = Inr b" "unmarshal_into snapshot_record_of b = Inr rec"
      by (auto simp: ts_get_snapshot_def split: sum.splits)
    then have at: "snapshot_at dir d i = Some rec" using meta by (simp add: snapshot_at_def stored_def)
    have "x = (srec_time_slice rec, sidecar dir d i, srec_sealed rec)"
      using assms r q g b nodata [OF at] side side0 by (auto simp: ts_get_snapshot_def split: sum.splits if_splits)
    then show ?thesis using at i by (simp add: ts_snap_def)
  qed
  show "\<not> not_found e" if g: "g = Inl e" "ts_snap dir d i = Some x"
  proof -
    from g(2) i obtain rec where at: "snapshot_at dir d i = Some rec" by (auto simp: ts_snap_def)
    then obtain b where b: "file_at d (place dir [''snapshots'', i @ ''.json'']) = Some b"
      "unmarshal_into snapshot_record_of b = Inr rec"
      by (auto simp: snapshot_at_def stored_def split: option.splits sum.splits)
    show ?thesis
    proof (cases r)
      case (Inl e1)
      with assms r g(1) have "e = e1" by (simp add: ts_get_snapshot_def)
      then show ?thesis using disk_read_found(1) [of "snapshot_path dir i" d e1 d1] r Inl p b by simp
    next
      case (Inr b1)
      then have "b1 = b" using meta b by simp
      then have "q = Inl e \<and> \<not> os_is_not_exist e"
        using assms r q g(1) Inr b nodata [OF at] by (auto simp: ts_get_snapshot_def split: sum.splits if_splits)
      then show ?thesis using disk_read_error q by blast
    qed
  qed
qed

lemma ts_get_data_laws:
  assumes "ts_get_data dir i d = (p, d')"
  shows "idle d d'"
    and "tsdb_inv dir d \<Longrightarrow> tsdb_id i \<Longrightarrow> p = Inr (data, sealed) \<Longrightarrow> \<exists>ts. ts_snap dir d i = Some (ts, data, sealed)"
proof -
  obtain r d1 where r: "disk_read (snapshot_path dir i) d = (r, d1)" by fastforce
  obtain q d2 where q: "disk_read (snapshot_data_path dir i) d1 = (q, d2)" by fastforce
  note id = disk_read_idle [OF r] disk_read_idle [OF q]
  have "d' = d1 \<or> d' = d2" using assms r q
    by (cases r) (auto simp: ts_get_data_def ts_snapshot_sealed_def split: sum.splits)
  then show "idle d d'" using id idle_trans by blast
  assume h: "tsdb_inv dir d" "tsdb_id i" "p = Inr (data, sealed)"
  note pc = comps_paths(1,2) [OF tsdb_inv_dir [OF h(1)] tsdb_id_plain(2) [OF h(2)]]
  from assms r q h(3) obtain b rec where b: "r = Inr b" "unmarshal_into snapshot_record_of b = Inr rec"
    "sealed = srec_sealed rec" "q = Inr data"
    by (auto simp: ts_get_data_def ts_snapshot_sealed_def bindr_Inr_iff split: sum.splits)
  have "snapshot_at dir d i = Some rec" using disk_readD(2) [OF r b(1)] pc b by (simp add: snapshot_at_def stored_def)
  moreover have "sidecar dir d i = data"
    using disk_readD(2) [OF q b(4)] pc id(1) by (simp add: sidecar_def idle_def)
  ultimately show "\<exists>ts. ts_snap dir d i = Some (ts, data, sealed)" using h(2) b(3) by (simp add: ts_snap_def)
qed

lemma ts_lookup_memo_laws:
  assumes "ts_lookup_memo dir i x h d = (m, d')"
  shows "idle d d'"
    and "tsdb_inv dir d \<Longrightarrow> tsdb_id i \<Longrightarrow> tsdb_id x \<Longrightarrow> tsdb_hash h \<Longrightarrow> m = Inr v \<Longrightarrow> v = None \<or> v = ts_memo dir d i x h"
proof -
  obtain r d1 where r: "disk_read (memo_path dir i x h) d = (r, d1)" by fastforce
  show "idle d d'" using assms r disk_read_idle [OF r] by (auto simp: ts_lookup_memo_def split: sum.splits)
  assume h: "tsdb_inv dir d" "tsdb_id i" "tsdb_id x" "tsdb_hash h" "m = Inr v"
  note p = comps_paths(3) [OF tsdb_inv_dir [OF h(1)] h(2-4)]
  show "v = None \<or> v = ts_memo dir d i x h"
  proof (cases r)
    case (Inl e)
    with assms r h(5) show ?thesis by (auto simp: ts_lookup_memo_def split: if_splits)
  next
    case (Inr b)
    with assms r h(5) obtain rec where rec: "unmarshal_into memo_record_of b = Inr rec"
      "v = Some (mrec_output_hash rec, mrec_output rec)" by (auto simp: ts_lookup_memo_def bindr_Inr_iff)
    with disk_readD(2) [OF r Inr] p h show ?thesis by (simp add: ts_memo_def memo_at_def stored_def)
  qed
qed



lemma read_replays_idle: "read_replays dir i ns d = (l, d') \<Longrightarrow> idle d d'"
proof (induction ns arbitrary: d l d')
  case (Cons n ns)
  obtain r d1 where r: "disk_read (path_join [path_join [dir, ''replay''], n]) d = (r, d1)" by fastforce
  obtain l2 d2 where l2: "read_replays dir i ns d1 = (l2, d2)" by fastforce
  have "d' = d1 \<or> d' = d2" using Cons.prems r l2 by (auto split: sum.splits)
  then show ?case using disk_read_idle [OF r] Cons.IH [OF l2] idle_trans by blast
qed simp

lemma read_replays_laws:
  assumes "read_replays dir i ns d = (Inr rs, d')" "store_dir dir" "\<forall>n\<in>set ns. plain_comp n"
  shows "rs = List.map_filter (replay_pick dir d i) ns"
  using assms
proof (induction ns arbitrary: d rs d')
  case (Cons n ns)
  obtain r d1 where r: "disk_read (path_join [path_join [dir, ''replay''], n]) d = (r, d1)" by fastforce
  obtain l2 d2 where l2: "read_replays dir i ns d1 = (l2, d2)" by fastforce
  obtain b rec rs2 where b: "r = Inr b" "unmarshal_into replay_record_of b = Inr rec" "l2 = Inr rs2"
    "rs = (if rrec_snapshot_id rec \<noteq> i then rs2 else (n, rec) # rs2)"
    using Cons.prems(1) r l2 by (auto split: sum.splits)
  have "replay_at dir d n = Some rec"
    using disk_readD(2) [OF r b(1)] comps_paths(6) [OF Cons.prems(2)] Cons.prems(3) b(2) by (simp add: replay_at_def stored_def)
  moreover have f: "replay_at dir d1 = replay_at dir d" using disk_read_idle [OF r] views_cong(3) [of d1 d dir] by (simp add: idle_def)
  then have "replay_pick dir d1 = replay_pick dir d" by (simp add: replay_pick_def fun_eq_iff)
  then have "rs2 = List.map_filter (replay_pick dir d i) ns"
    using Cons.IH [of d1 rs2] l2 b(3) Cons.prems(2,3) by simp
  ultimately show ?case using b(4) by (simp add: replay_pick_def [of dir d i n])
qed simp

lemma replay_names_plain:
  assumes "tsdb_inv dir d" "n \<in> set (names_in d (place dir [''replay'']))"
  shows "plain_comp n"
proof -
  have "file_at d (place dir [''replay'', n]) \<noteq> None"
    using assms by (auto simp: set_names_in place_def tsdb_inv_def)
  then show ?thesis using assms(1) by (auto simp: tsdb_inv_def replay_named_def)
qed

lemma ts_list_replay_laws:
  assumes "ts_list_replay dir i d = (l, d')"
  shows "idle d d'" and "tsdb_inv dir d \<Longrightarrow> l = Inr rs \<Longrightarrow> rs = ts_rows dir d i"
proof -
  obtain r d1 where r: "disk_list (path_join [dir, ''replay'']) d = (r, d1)" by fastforce
  have d1: "d1 = disk_step d" using r by (auto simp: disk_list_def)
  have "idle d1 d2" if "read_replays dir i ns d1 = (q, d2)" for ns q d2 using read_replays_idle [OF that] .
  then show "idle d d'" using assms r d1 idle_trans [of d "disk_step d"]
    by (cases r) (auto simp: ts_list_replay_def split: sum.splits prod.splits)
  assume h: "tsdb_inv dir d" "l = Inr rs"
  obtain ns q d2 where q: "r = Inr ns" "read_replays dir i ns d1 = (Inr q, d2)"
    "rs = map (replay_entry \<circ> snd) (sort_key replay_key q)"
    using assms r h(2) by (cases r) (auto simp: ts_list_replay_def split: sum.splits prod.splits)
  have ns: "ns = names_in d (place dir [''replay''])"
    using r q(1) comps_paths(4) [OF tsdb_inv_dir [OF h(1)]] by (auto simp: disk_list_def split: option.splits if_splits)
  have p: "\<forall>n\<in>set ns. plain_comp n" using replay_names_plain [OF h(1)] ns by simp
  have "q = List.map_filter (replay_pick dir d1 i) ns" by (rule read_replays_laws [OF q(2) tsdb_inv_dir [OF h(1)] p])
  moreover have "replay_pick dir d1 i = replay_pick dir d i" using d1 views_cong(3) [of d1 d dir] by (simp add: replay_pick_def fun_eq_iff)
  ultimately show "rs = ts_rows dir d i" using q(3) ns by (simp add: ts_rows_def replay_rows_def)
qed

lemma ts_get_latest_laws:
  assumes "ts_get_latest dir i x d = (t, d')"
  shows "idle d d'" and "tsdb_inv dir d \<Longrightarrow> t = Inr (ih, oh, out) \<Longrightarrow>
    \<exists>r. last_spine_result (ts_rows dir d i) x = (r, True) \<and> ih = re_input_hash r \<and> oh = re_output_hash r \<and> out = re_output r"
proof -
  obtain l d1 where l: "ts_list_replay dir i d = (l, d1)" by fastforce
  have "d' = d1" using assms l by (cases l) (auto simp: ts_get_latest_def split: prod.splits bool.splits)
  then show "idle d d'" using ts_list_replay_laws(1) [OF l] by simp
  assume h: "tsdb_inv dir d" "t = Inr (ih, oh, out)"
  then obtain rs where "l = Inr rs" using assms l by (cases l) (auto simp: ts_get_latest_def)
  with ts_list_replay_laws(2) [OF l h(1)] have "l = Inr (ts_rows dir d i)" by simp
  with assms l h(2) show "\<exists>r. last_spine_result (ts_rows dir d i) x = (r, True) \<and> ih = re_input_hash r
      \<and> oh = re_output_hash r \<and> out = re_output r"
    by (auto simp: ts_get_latest_def split: prod.splits bool.splits)
qed



section \<open>Writing\<close>

lemma stored_put:
  "stored f (put_file k b d) k' = (if k' = k then (case unmarshal_into f b of Inl _ \<Rightarrow> None | Inr r \<Rightarrow> Some r)
     else stored f d k')"
  by (simp add: stored_def)

lemma ts_rows_cong: "replay_at dir d' = replay_at dir d \<Longrightarrow> ts_rows dir d' = ts_rows dir d"
proof -
  assume "replay_at dir d' = replay_at dir d"
  then have "replay_rows dir d' i = replay_rows dir d i" for i
    by (intro replay_rows_eqI) (use distinct_replay_rows set_replay_rows sorted_replay_rows in auto)
  then show ?thesis by (simp add: ts_rows_def fun_eq_iff)
qed

lemma id_not_data: "tsdb_id i \<Longrightarrow> j @ ''.data.json'' \<noteq> i @ ''.json''"
proof
  assume i: "tsdb_id i" and "j @ ''.data.json'' = i @ ''.json''"
  then have "(j @ ''.data'') @ ''.json'' = i @ ''.json''" by simp
  then have "i = j @ ''.data''" by (simp only: append_same_eq)
  with i show False by (simp add: tsdb_id_def)
qed

lemma put_file_time [simp]: "clock_runs (put_file k b d) = clock_runs d" "disk_time (put_file k b d) = disk_time d"
  "replay_named (put_file k b d) = replay_named d"
  by (simp_all add: clock_runs_def disk_time_def replay_named_def fun_eq_iff)

text \<open>The record of a snapshot and the file beside it.\<close>

lemma put_snapshot:
  assumes "d' = put_file (place dir [''snapshots'', i @ ''.json'']) b d" "tsdb_inv dir d" "tsdb_id i" "\<And>rec. unmarshal_into snapshot_record_of b = Inr rec \<Longrightarrow> srec_data rec = ''''"
  shows "tsdb_inv dir d'" "ts_memo dir d' = ts_memo dir d" "ts_rows dir d' = ts_rows dir d"
    "j \<noteq> i \<Longrightarrow> ts_snap dir d' j = ts_snap dir d j"
    "unmarshal_into snapshot_record_of b = Inr rec \<Longrightarrow> snapshot_at dir d' i = Some rec"
proof -
  have m: "memo_at dir d' = memo_at dir d" and r: "replay_at dir d' = replay_at dir d"
    by (simp_all add: assms(1) memo_at_def replay_at_def stored_put fun_eq_iff)
  have s: "snapshot_at dir d' j = (if j = i then (case unmarshal_into snapshot_record_of b of Inl _ \<Rightarrow> None | Inr r \<Rightarrow> Some r)
      else snapshot_at dir d j)" for j
    by (simp add: assms(1) snapshot_at_def stored_put)
  show "ts_memo dir d' = ts_memo dir d" by (simp add: ts_memo_def m fun_eq_iff)
  show "ts_rows dir d' = ts_rows dir d" by (rule ts_rows_cong [OF r])
  have side: "sidecar dir d' j = sidecar dir d j" for j
    using id_not_data [OF assms(3), of j] by (simp add: assms(1) sidecar_def)
  show "j \<noteq> i \<Longrightarrow> ts_snap dir d' j = ts_snap dir d j" by (simp add: ts_snap_def s side)
  show "unmarshal_into snapshot_record_of b = Inr rec \<Longrightarrow> snapshot_at dir d' i = Some rec" by (simp add: s)
  show "tsdb_inv dir d'"
    using assms(2,4) unfolding tsdb_inv_def m r s by (auto simp: assms(1) split: sum.splits)
qed

lemma put_sidecar:
  assumes "d' = put_file (place dir [''snapshots'', i @ ''.data.json'']) b d" "tsdb_inv dir d" "tsdb_id i"
  shows "tsdb_inv dir d'" "ts_memo dir d' = ts_memo dir d" "ts_rows dir d' = ts_rows dir d"
    "j \<noteq> i \<Longrightarrow> ts_snap dir d' j = ts_snap dir d j"
    "snapshot_at dir d i = Some rec \<Longrightarrow> ts_snap dir d' i = Some (srec_time_slice rec, b, srec_sealed rec)"
proof -
  have m: "memo_at dir d' = memo_at dir d" and r: "replay_at dir d' = replay_at dir d"
    by (simp_all add: assms(1) memo_at_def replay_at_def stored_put fun_eq_iff)
  have s: "snapshot_at dir d' j = snapshot_at dir d j" if "tsdb_id j" for j
    using id_not_data [OF that, of i] by (simp add: assms(1) snapshot_at_def stored_put)
  show "ts_memo dir d' = ts_memo dir d" by (simp add: ts_memo_def m fun_eq_iff)
  show "ts_rows dir d' = ts_rows dir d" by (rule ts_rows_cong [OF r])
  have side: "sidecar dir d' j = (if j = i then b else sidecar dir d j)" for j
    by (simp add: assms(1) sidecar_def)
  show "j \<noteq> i \<Longrightarrow> ts_snap dir d' j = ts_snap dir d j" by (simp add: ts_snap_def s side)
  show "snapshot_at dir d i = Some rec \<Longrightarrow> ts_snap dir d' i = Some (srec_time_slice rec, b, srec_sealed rec)"
    using assms(3) by (simp add: ts_snap_def s side)
  show "tsdb_inv dir d'"
    using assms(2) s unfolding tsdb_inv_def m r by (auto simp: assms(1))
qed

text \<open>\<open>d'\<close> differs from \<open>d\<close> in snapshot \<open>i\<close> only.\<close>

definition touches_snap :: "string \<Rightarrow> string \<Rightarrow> disk \<Rightarrow> disk \<Rightarrow> bool" where
  "touches_snap dir i d d' \<longleftrightarrow> tsdb_inv dir d' \<and> ts_memo dir d' = ts_memo dir d \<and> ts_rows dir d' = ts_rows dir d
     \<and> (\<forall>j. j \<noteq> i \<longrightarrow> ts_snap dir d' j = ts_snap dir d j)"

lemma touches_idle: "tsdb_inv dir d \<Longrightarrow> idle d d' \<Longrightarrow> touches_snap dir i d d'"
  using idle_frame [of dir d d'] by (simp add: touches_snap_def)

lemma touches_trans: "touches_snap dir i d d' \<Longrightarrow> touches_snap dir i d' d'' \<Longrightarrow> touches_snap dir i d d''"
  by (simp add: touches_snap_def)

lemma touches_put:
  assumes "tsdb_inv dir d" "tsdb_id i"
  shows "(\<And>rec. unmarshal_into snapshot_record_of b = Inr rec \<Longrightarrow> srec_data rec = '''') \<Longrightarrow>
      touches_snap dir i d (put_file (place dir [''snapshots'', i @ ''.json'']) b d)"
    and "touches_snap dir i d (put_file (place dir [''snapshots'', i @ ''.data.json'']) b d)"
  using put_snapshot [where b = b, OF refl assms] put_sidecar [where b = b, OF refl assms] by (auto simp: touches_snap_def)

text \<open>A write of which all that can come keeps the relation.\<close>

lemma touches_write:
  assumes "disk_write p b d = (r, d')" "touches_snap dir i d0 (disk_step d)"
    and "touches_snap dir i (disk_step d) (put_file (path_comps p) b (disk_step d))"
    and "\<And>n. touches_snap dir i (disk_step d) (put_file (path_comps p) (cut_short n b) (disk_step d))"
  shows "touches_snap dir i d0 d'"
  using disk_writeD [OF assms(1)] assms(2) touches_trans [OF assms(2,3)] touches_trans [OF assms(2,4)] by auto

lemma ts_save_snapshot_laws:
  assumes "tsdb_inv dir d" "tsdb_id i" "ts_save_snapshot dir i ts data sealed d = (u, d')"
  shows "touches_snap dir i d d'"
    and "ts_snap dir d i = Some (t, b, True) \<Longrightarrow> ts_snap dir d' i = ts_snap dir d i"
    and "valid_utf8 ts \<Longrightarrow> u = Inr () \<Longrightarrow> ts_snap dir d' i = Some (ts, data, sealed)"
proof -
  obtain g d1 where g: "ts_get_snapshot dir i d = (g, d1)" by fastforce
  note id1 = ts_get_snapshot_laws(1) [OF g]
  note gl = ts_get_snapshot_laws(2,3) [OF g assms(1,2)]
  have inv1: "tsdb_inv dir d1" by (rule idle_inv [OF assms(1) id1])
  define old where "old = (case g of Inr (_, _, b) \<Rightarrow> b | Inl _ \<Rightarrow> False)"
  have "touches_snap dir i d d' \<and> (\<forall>t b. ts_snap dir d i = Some (t, b, True) \<longrightarrow> ts_snap dir d' i = ts_snap dir d i)
    \<and> (valid_utf8 ts \<longrightarrow> u = Inr () \<longrightarrow> ts_snap dir d' i = Some (ts, data, sealed))"
  proof (cases "refuse_sealed_mutation g ts data sealed = Inr () \<and> \<not> old")
    case False
    have d': "d' = d1" and u: "u = Inr () \<longrightarrow> refuse_sealed_mutation g ts data sealed = Inr () \<and> old"
      using assms(3) g False by (auto simp: ts_save_snapshot_def old_def split: sum.splits)
    have "u = Inr () \<Longrightarrow> g = Inr (ts, data, True) \<and> sealed"
      using u by (auto simp: refuse_sealed_mutation_def old_def split: sum.splits if_splits prod.splits)
    then show ?thesis using gl(1) d' touches_idle [OF assms(1) id1] idle_frame [OF assms(1) id1] by auto
  next
    case True
    have open_: "ts_snap dir d i \<noteq> Some (t, b, True)" for t b
    proof
      assume s: "ts_snap dir d i = Some (t, b, True)"
      show False
      proof (cases g)
        case (Inl e)
        then show False using gl(2) [OF Inl s] True by (simp add: refuse_sealed_mutation_def)
      next
        case (Inr x)
        then have "x = (t, b, True)" using gl(1) [OF Inr] s by simp
        then show False using Inr True by (simp add: old_def)
      qed
    qed
    obtain now d2 where now: "disk_now d1 = (now, d2)" by fastforce
    have d2: "d2 = disk_step d1" "idle d d2" using now idle_trans [OF id1, of d2] by (auto simp: disk_now_def)
    have inv2: "tsdb_inv dir d2" by (rule idle_inv [OF assms(1) d2(2)])
    define rec where "rec = \<lparr>srec_snapshot_id = i, srec_time_slice = ts, srec_data = '''', srec_sealed = sealed, srec_created_at = now\<rparr>"
    show ?thesis
    proof (cases "snapshot_record_json rec")
      case (Inl e)
      then have "d' = d2" "u = Inl e" using assms(3) g True now by (simp_all add: ts_save_snapshot_def old_def rec_def)
      then show ?thesis using open_ touches_idle [OF assms(1) d2(2)] by simp
    next
      case (Inr body)
      obtain q d3 where q: "disk_write (snapshot_path dir i) body d2 = (q, d3)" by fastforce
      have fin: "(u, d') = (case q of Inl e \<Rightarrow> (Inl e, d3) | Inr _ \<Rightarrow> disk_write (snapshot_data_path dir i) data d3)"
        using assms(3) g True now Inr q by (simp add: ts_save_snapshot_def old_def rec_def split: sum.splits)
      note pc = comps_paths(1,2) [OF tsdb_inv_dir [OF assms(1)] tsdb_id_plain(2) [OF assms(2)]]
      have full: "unmarshal_into snapshot_record_of body = Inr (sane_snapshot rec)" using record_stored(1) [OF Inr] .
      have st: "tsdb_inv dir (disk_step d2)" using idle_inv [OF inv2 idle_step] .
      have torn: "srec_data r = ''''" if "unmarshal_into snapshot_record_of (cut_short n body) = Inr r" for n r
        using record_torn(1) [OF Inr, of n] that by simp
      have whole: "srec_data r = ''''" if "unmarshal_into snapshot_record_of body = Inr r" for r
        using full that by (auto simp: sane_snapshot_def rec_def)
      have t2: "touches_snap dir i d (disk_step d2)" by (rule touches_idle [OF assms(1) idle_step_trans [OF d2(2)]])
      have t3: "touches_snap dir i d d3"
        by (rule touches_write [OF q t2]) (use touches_put(1) [OF st assms(2)] whole torn pc in auto)
      show ?thesis
      proof (cases q)
        case (Inl e)
        with fin have "d' = d3" "u = Inl e" by simp_all
        then show ?thesis using t3 open_ by simp
      next
        case (Inr x)
        have d3: "d3 = put_file (place dir [''snapshots'', i @ ''.json'']) body (disk_step d2)"
          using disk_writeD [OF q] Inr pc by auto
        have at3: "snapshot_at dir d3 i = Some (sane_snapshot rec)"
          using put_snapshot(5) [OF refl st assms(2) whole full] d3 by simp
        have inv3: "tsdb_inv dir d3" using t3 by (simp add: touches_snap_def)
        have w: "disk_write (snapshot_data_path dir i) data d3 = (u, d')" using fin Inr by simp
        have inv4: "tsdb_inv dir (disk_step d3)" by (rule idle_inv [OF inv3 idle_step])
        have t4: "touches_snap dir i d (disk_step d3)" using touches_trans [OF t3 touches_idle [OF inv3 idle_step]] .
        have at4: "snapshot_at dir (disk_step d3) i = Some (sane_snapshot rec)" using at3 views_cong(1) [of "disk_step d3" d3] by simp
        have t5: "touches_snap dir i d d'"
          by (rule touches_write [OF w t4]) (use touches_put(2) [OF inv4 assms(2)] pc in auto)
        have "ts_snap dir d' i = Some (ts, data, sealed)" if "valid_utf8 ts" "u = Inr ()"
        proof -
          have "d' = put_file (place dir [''snapshots'', i @ ''.data.json'']) data (disk_step d3)"
            using disk_writeD [OF w] that(2) pc by auto
          then show ?thesis using put_sidecar(5) [OF refl inv4 assms(2) at4] that(1)
            by (simp add: sane_snapshot_def rec_def sanitize_valid)
        qed
        then show ?thesis using t5 open_ by simp
      qed
    qed
  qed
  then show "touches_snap dir i d d'" "ts_snap dir d i = Some (t, b, True) \<Longrightarrow> ts_snap dir d' i = ts_snap dir d i"
    "valid_utf8 ts \<Longrightarrow> u = Inr () \<Longrightarrow> ts_snap dir d' i = Some (ts, data, sealed)" by blast+
qed



subsection \<open>Memos\<close>

lemma clean_comps_slash: "list_all plain_comp cs \<Longrightarrow> clean_comps rooted acc (cs @ [[]]) = rev acc @ cs"
  by (induction cs arbitrary: acc) (auto simp: plain_comp_def)

lemma path_dir_join:
  assumes "store_dir dir" "list_all plain_comp cs" "plain_comp c"
  shows "path_comps (path_dir (path_join (dir # cs @ [c]))) = place dir cs"
proof -
  obtain rs where rs: "list_all plain_comp rs" "rs \<noteq> []" "dir = CHR ''/'' # join_with ''/'' rs"
    using assms(1) by (auto simp: store_dir_def)
  define A where "A = CHR ''/'' # join_with ''/'' (rs @ cs)"
  have p: "path_join (dir # cs @ [c]) = A @ CHR ''/'' # c"
    using path_join_plain [OF rs(1), of "cs @ [c]"] assms(2,3) rs join_with_append [of "rs @ cs" "''/''" c "[]"]
    by (simp add: A_def)
  have c: "dropWhile (\<lambda>c. c \<noteq> CHR ''/'') (rev c @ CHR ''/'' # rev A) = CHR ''/'' # rev A"
    using assms(3) by (subst dropWhile_append2) (auto simp: plain_comp_def)
  have sl: "A @ ''/'' = CHR ''/'' # join_with ''/'' ((rs @ cs) @ [[]])"
    using join_with_append [of "rs @ cs" "''/''" "[]" "[]"] rs(2) by (simp add: A_def)
  have free: "\<forall>x \<in> set ((rs @ cs) @ [[]]). CHR ''/'' \<notin> set x"
    using rs(1) assms(2) by (auto simp: list_all_iff plain_comp_def)
  have "split_on (CHR ''/'') (A @ ''/'') = [] # (rs @ cs) @ [[]]"
    unfolding sl using split_join [OF _ free] by simp
  then have "path_clean (A @ ''/'') = A"
    using rs(1) assms(2) clean_comps_slash [of "rs @ cs" True "[]"] by (simp add: path_clean_def A_def)
  then have "path_dir (path_join (dir # cs @ [c])) = A" by (simp add: path_dir_def p c)
  then show ?thesis
    using path_comps_join [OF assms(1,2)] path_join_plain [OF rs(1) assms(2) rs(2)] rs(3) by (simp add: A_def)
qed

lemma ancestors_prefix: "k \<in> set (ancestors K @ [K]) \<Longrightarrow> prefix k K"
  by (auto simp: ancestors_def take_is_prefix)

lemma replay_not_above_memo:
  "k \<in> set (ancestors (place dir [''memo'', i, x]) @ [place dir [''memo'', i, x]]) \<Longrightarrow> k \<noteq> place dir [''replay'', n]"
  using ancestors_prefix [of k "place dir [''memo'', i, x]"] by (auto simp: place_def)

text \<open>\<open>d'\<close> has a memo more than \<open>d\<close> at most.\<close>

definition grows_memo :: "string \<Rightarrow> disk \<Rightarrow> disk \<Rightarrow> bool" where
  "grows_memo dir d d' \<longleftrightarrow> tsdb_inv dir d' \<and> ts_snap dir d' = ts_snap dir d \<and> ts_rows dir d' = ts_rows dir d
     \<and> (\<forall>i x h v. ts_memo dir d i x h = Some v \<longrightarrow> ts_memo dir d' i x h = Some v)"

lemma grows_idle: "tsdb_inv dir d \<Longrightarrow> idle d d' \<Longrightarrow> grows_memo dir d d'"
  using idle_frame [of dir d d'] by (simp add: grows_memo_def)

lemma grows_trans: "grows_memo dir d d' \<Longrightarrow> grows_memo dir d' d'' \<Longrightarrow> grows_memo dir d d''"
  by (simp add: grows_memo_def)

lemma put_memo:
  assumes "tsdb_inv dir d" "tsdb_id i" "tsdb_id x" "tsdb_hash h"
    and "file_at d (place dir [''memo'', i, x, h @ ''.json'']) = None"
    and "\<And>rec. unmarshal_into memo_record_of b = Inr rec \<Longrightarrow> valid_utf8 (mrec_output_hash rec) \<and> valid_utf8 (mrec_output rec)"
  shows "grows_memo dir d (put_file (place dir [''memo'', i, x, h @ ''.json'']) b d)"
    and "unmarshal_into memo_record_of b = Inr rec \<Longrightarrow>
      ts_memo dir (put_file (place dir [''memo'', i, x, h @ ''.json'']) b d) i x h = Some (mrec_output_hash rec, mrec_output rec)"
proof -
  let ?d' = "put_file (place dir [''memo'', i, x, h @ ''.json'']) b d"
  have s: "snapshot_at dir ?d' = snapshot_at dir d" and r: "replay_at dir ?d' = replay_at dir d"
    and c: "sidecar dir ?d' = sidecar dir d"
    by (simp_all add: snapshot_at_def replay_at_def sidecar_def stored_put fun_eq_iff)
  have m: "memo_at dir ?d' j y g = (if j = i \<and> y = x \<and> g = h then (case unmarshal_into memo_record_of b of Inl _ \<Rightarrow> None | Inr r \<Rightarrow> Some r)
      else memo_at dir d j y g)" for j y g
    by (auto simp: memo_at_def stored_put)
  have n: "memo_at dir d i x h = None" using assms(5) by (simp add: memo_at_def stored_def)
  show "unmarshal_into memo_record_of b = Inr rec \<Longrightarrow> ts_memo dir ?d' i x h = Some (mrec_output_hash rec, mrec_output rec)"
    using assms(2-4) by (simp add: ts_memo_def m)
  have "tsdb_inv dir ?d'" using assms(1,6) unfolding tsdb_inv_def s r m by (auto split: sum.splits)
  moreover have "ts_memo dir ?d' j y g = Some v" if "ts_memo dir d j y g = Some v" for j y g v
    using that n by (auto simp: ts_memo_def m split: if_splits)
  ultimately show "grows_memo dir d ?d'"
    using ts_rows_cong [OF r] by (simp add: grows_memo_def ts_snap_def s c fun_eq_iff)
qed

lemma add_memo_dirs:
  assumes "tsdb_inv dir d" "set ds \<subseteq> set (ancestors (place dir [''memo'', i, x]) @ [place dir [''memo'', i, x]])"
  shows "grows_memo dir d (add_dirs ds d)"
proof -
  have f: "file_at (add_dirs ds d) = file_at d" by simp
  have "place dir [''replay'', n] \<notin> set ds" for n using assms(2) replay_not_above_memo by blast
  moreover have "clock_runs (add_dirs ds d) = clock_runs d" "disk_time (add_dirs ds d) = disk_time d"
    "replay_named (add_dirs ds d) = replay_named d" by (simp_all add: clock_runs_def disk_time_def replay_named_def fun_eq_iff)
  ultimately have "tsdb_inv dir (add_dirs ds d)"
    using assms(1) unfolding tsdb_inv_def views_cong(1-3) [OF f] by simp
  then show ?thesis using views_cong(4-6) [OF f] by (simp add: grows_memo_def)
qed

lemma ts_save_memo_laws:
  assumes "tsdb_inv dir d" "tsdb_id (re_snapshot_id r)" "tsdb_id (re_domino_id r)" "tsdb_hash (re_input_hash r)"
    and "ts_save_memo dir r d = (u, d')"
  shows "grows_memo dir d d'"
    and "u = Inr () \<Longrightarrow> valid_utf8 (re_output_hash r) \<Longrightarrow> valid_utf8 (re_output r) \<Longrightarrow>
      ts_memo dir d' (re_snapshot_id r) (re_domino_id r) (re_input_hash r) = Some (re_output_hash r, re_output r)"
proof -
  let ?i = "re_snapshot_id r" and ?x = "re_domino_id r" and ?h = "re_input_hash r"
  define p where "p = memo_path dir ?i ?x ?h"
  obtain q d1 where q: "disk_read p d = (q, d1)" by fastforce
  note id1 = disk_read_idle [OF q]
  have inv1: "tsdb_inv dir d1" by (rule idle_inv [OF assms(1) id1])
  have g1: "grows_memo dir d d1" by (rule grows_idle [OF assms(1) id1])
  note dir = tsdb_inv_dir [OF assms(1)]
  have pc: "path_comps p = place dir [''memo'', ?i, ?x, ?h @ ''.json'']" using comps_paths(3) [OF dir assms(2-4)] by (simp add: p_def)
  have "grows_memo dir d d' \<and> (u = Inr () \<longrightarrow> valid_utf8 (re_output_hash r) \<longrightarrow> valid_utf8 (re_output r) \<longrightarrow>
      ts_memo dir d' ?i ?x ?h = Some (re_output_hash r, re_output r))"
  proof (cases q)
    case (Inr body)
    have d': "d' = d1" using assms(5) q Inr by (simp add: ts_save_memo_def p_def)
    have m1: "ts_memo dir d1 = ts_memo dir d" using views_cong(5) [of d1 d dir] id1 by (simp add: idle_def)
    have "ts_memo dir d ?i ?x ?h = Some (re_output_hash r, re_output r)" if "u = Inr ()"
    proof -
      from that assms(5) q Inr obtain rec where rec: "unmarshal_into memo_record_of body = Inr rec"
        "refuse_memo_conflict (Some (mrec_output_hash rec, mrec_output rec)) (re_output_hash r) (re_output r) = Inr ()"
        by (auto simp: ts_save_memo_def p_def bindr_Inr_iff)
      then show ?thesis using disk_readD(2) [OF q Inr] pc assms(2-4)
        by (auto simp: ts_memo_def memo_at_def stored_def refuse_memo_conflict_def split: if_splits)
    qed
    then show ?thesis using g1 d' m1 by simp
  next
    case (Inl e)
    show ?thesis
    proof (cases "os_is_not_exist e")
      case False
      then have "d' = d1" "u = Inl e" using assms(5) q Inl by (simp_all add: ts_save_memo_def p_def)
      then show ?thesis using g1 by simp
    next
      case True
      have none: "file_at d (path_comps p) = None" by (rule disk_readD(3) [OF q Inl True])
      obtain now d2 where now: "disk_now d1 = (now, d2)" by fastforce
      have id2: "idle d d2" using now idle_trans [OF id1, of d2] by (auto simp: disk_now_def)
      have inv2: "tsdb_inv dir d2" by (rule idle_inv [OF assms(1) id2])
      have g2: "grows_memo dir d d2" by (rule grows_idle [OF assms(1) id2])
      define rec where "rec = \<lparr>mrec_snapshot_id = ?i, mrec_domino_id = ?x, mrec_input_hash = ?h,
        mrec_output_hash = re_output_hash r, mrec_output = re_output r, mrec_created_at = now\<rparr>"
      show ?thesis
      proof (cases "memo_record_json rec")
        case (Inl e2)
        then have "d' = d2" "u = Inl e2" using assms(5) q \<open>q = Inl e\<close> True now
          by (simp_all add: ts_save_memo_def p_def [symmetric] rec_def Let_def)
        then show ?thesis using g2 by simp
      next
        case (Inr body)
        obtain v d3 where v: "disk_mkdirs (path_dir p) d2 = (v, d3)" by fastforce
        have fin: "(u, d') = (case v of Inl e \<Rightarrow> (Inl e, d3) | Inr _ \<Rightarrow> disk_write p body d3)"
          using assms(5) q \<open>q = Inl e\<close> True now Inr v
          by (simp add: ts_save_memo_def p_def [symmetric] rec_def Let_def split: sum.splits)
        have pd: "path_comps (path_dir p) = place dir [''memo'', ?i, ?x]"
          using path_dir_join [OF dir, of "[''memo'', ?i, ?x]" "?h @ ''.json''"] plain_comp_json plain_dirs tsdb_id_plain(1) assms(2-4)
          by (simp add: p_def memo_path_def tsdb_hash_def)
        have st2: "tsdb_inv dir (disk_step d2)" "grows_memo dir d (disk_step d2)"
          using idle_inv [OF inv2 idle_step] grows_idle [OF assms(1) idle_step_trans [OF id2]] by simp_all
        have f3: "file_at d3 = file_at d" using disk_mkdirsD [OF v] id2 by (auto simp: idle_def)
        have g3: "grows_memo dir d d3"
        proof -
          from disk_mkdirsD [OF v] consider "d3 = disk_step d2" | ds where "d3 = add_dirs ds (disk_step d2)"
            "set ds \<subseteq> set (ancestors (path_comps (path_dir p)) @ [path_comps (path_dir p)])" by blast
          then show ?thesis
          proof cases
            case 2
            then show ?thesis using grows_trans [OF st2(2) add_memo_dirs [OF st2(1)]] pd by simp
          qed (simp add: st2)
        qed
        have inv3: "tsdb_inv dir d3" using g3 by (simp add: grows_memo_def)
        show ?thesis
        proof (cases v)
          case (Inl e2)
          with fin have "d' = d3" "u = Inl e2" by simp_all
          then show ?thesis using g3 by simp
        next
          case (Inr y)
          then have w: "disk_write p body d3 = (u, d')" using fin by simp
          have st3: "tsdb_inv dir (disk_step d3)" by (rule idle_inv [OF inv3 idle_step])
          have g4: "grows_memo dir d (disk_step d3)" by (rule grows_trans [OF g3 grows_idle [OF inv3 idle_step]])
          have none3: "file_at (disk_step d3) (place dir [''memo'', ?i, ?x, ?h @ ''.json'']) = None"
            using none f3 pc by simp
          note json = \<open>memo_record_json rec = Inr body\<close>
          have full: "unmarshal_into memo_record_of body = Inr (sane_memo rec)" by (rule record_stored(2) [OF json])
          have whole: "valid_utf8 (mrec_output_hash a) \<and> valid_utf8 (mrec_output a)"
            if "unmarshal_into memo_record_of body = Inr a" for a
            using full that by (auto simp: sane_memo_def valid_sanitize)
          have torn: "valid_utf8 (mrec_output_hash a) \<and> valid_utf8 (mrec_output a)"
            if "unmarshal_into memo_record_of (cut_short n body) = Inr a" for a n
            using record_torn(2) [OF json, of n] that by simp
          note P = put_memo [OF st3 assms(2-4) none3]
          show ?thesis
            using disk_writeD [OF w] P(1) [OF whole] P(1) [OF torn] P(2) [OF whole full] grows_trans [OF g4] g4
            unfolding pc by (auto simp: sane_memo_def rec_def sanitize_valid)
        qed
      qed
    qed
  qed
  then show "grows_memo dir d d'" "u = Inr () \<Longrightarrow> valid_utf8 (re_output_hash r) \<Longrightarrow> valid_utf8 (re_output r) \<Longrightarrow>
      ts_memo dir d' ?i ?x ?h = Some (re_output_hash r, re_output r)" by blast+
qed



subsection \<open>Replay rows\<close>

lemma nat_str_no_slash: "CHR ''/'' \<notin> set (nat_str n)"
  by (auto dest: nat_str_digits)

lemma replay_name_split:
  "0 \<le> t \<Longrightarrow> replay_name t x h = nat_str (nat t) @ ''-'' @ (x @ ''-'' @ take 8 h @ ''.json'')"
  by (simp add: replay_name_def int_str_def)

lemma replay_name_plain:
  assumes "0 \<le> t" "tsdb_id x" "tsdb_hash h" shows "plain_comp (replay_name t x h)"
proof -
  have "CHR ''/'' \<notin> set (nat_str (nat t) @ ''-'' @ x @ ''-'' @ take 8 h)"
    using assms(2,3) nat_str_no_slash by (auto simp: tsdb_id_def plain_comp_def tsdb_hash_def dest: in_set_takeD)
  from plain_comp_json [OF this] show ?thesis by (simp add: replay_name_split [OF assms(1)])
qed

text \<open>A name made of the present time is not in use.\<close>

lemma replay_name_fresh:
  assumes "tsdb_inv dir d" "disk_time d \<le> t"
  shows "file_at d (place dir [''replay'', replay_name t x h]) = None"
proof (rule ccontr)
  assume "file_at d (place dir [''replay'', replay_name t x h]) \<noteq> None"
  moreover have "file_at d (place dir [''replay'', n]) \<noteq> None \<longrightarrow> replay_named d n" for n
    using assms(1) unfolding tsdb_inv_def by blast
  ultimately have "replay_named d (replay_name t x h)" by blast
  then obtain s m where n: "replay_name t x h = nat_str s @ ''-'' @ m" "int s < disk_time d"
    unfolding replay_named_def by blast
  have "0 \<le> disk_time d" using assms(1) by (simp add: tsdb_inv_def clock_runs_def disk_time_def)
  then have t: "0 \<le> t" using assms(2) by (rule order_trans)
  have "nat_str (nat t) @ CHR ''-'' # (x @ ''-'' @ take 8 h @ ''.json'') = nat_str s @ CHR ''-'' # m"
    using n(1) by (simp add: replay_name_split [OF t])
  from split_first [OF this nat_str_no_dot(2) nat_str_no_dot(2)] have "nat t = s" by simp
  then show False using n(2) assms(2) t by simp
qed

lemma sorted_replay_snoc:
  assumes "sorted (map replay_key ps)" "\<forall>p\<in>set ps. rrec_created_at (snd p) < rrec_created_at rec"
  shows "sorted (map replay_key (ps @ [(n, rec)]))"
  using assms by (auto simp: sorted_append replay_key_def less_eq_prod_def)

lemma put_replay:
  assumes "tsdb_inv dir d" "file_at d (place dir [''replay'', n]) = None" "replay_named d n"
    and "\<forall>rec. unmarshal_into replay_record_of b = Inr rec \<longrightarrow> rrec_created_at rec < disk_time d"
  shows "tsdb_inv dir (put_file (place dir [''replay'', n]) b d)"
    "ts_snap dir (put_file (place dir [''replay'', n]) b d) = ts_snap dir d"
    "ts_memo dir (put_file (place dir [''replay'', n]) b d) = ts_memo dir d"
    "unmarshal_into replay_record_of b = Inl e \<Longrightarrow> ts_rows dir (put_file (place dir [''replay'', n]) b d) = ts_rows dir d"
    "unmarshal_into replay_record_of b = Inr rec \<Longrightarrow> rrec_snapshot_id rec \<noteq> j \<Longrightarrow>
       ts_rows dir (put_file (place dir [''replay'', n]) b d) j = ts_rows dir d j"
    "unmarshal_into replay_record_of b = Inr rec \<Longrightarrow>
       \<forall>m old. replay_at dir d m = Some old \<longrightarrow> rrec_created_at old < rrec_created_at rec \<Longrightarrow>
       ts_rows dir (put_file (place dir [''replay'', n]) b d) (rrec_snapshot_id rec)
         = ts_rows dir d (rrec_snapshot_id rec) @ [replay_entry rec]"
proof -
  let ?d' = "put_file (place dir [''replay'', n]) b d"
  have s: "snapshot_at dir ?d' = snapshot_at dir d" and m: "memo_at dir ?d' = memo_at dir d"
    and c: "sidecar dir ?d' = sidecar dir d"
    by (simp_all add: snapshot_at_def memo_at_def sidecar_def stored_put fun_eq_iff)
  have r: "replay_at dir ?d' k = (if k = n then (case unmarshal_into replay_record_of b of Inl _ \<Rightarrow> None | Inr r \<Rightarrow> Some r)
      else replay_at dir d k)" for k
    by (simp add: replay_at_def stored_put)
  have none: "replay_at dir d n = None" using assms(2) by (simp add: replay_at_def stored_def)
  show "ts_snap dir ?d' = ts_snap dir d" "ts_memo dir ?d' = ts_memo dir d"
    by (simp_all add: ts_snap_def ts_memo_def s m c fun_eq_iff)
  show "tsdb_inv dir ?d'" using assms(1,3,4) unfolding tsdb_inv_def s m r by (auto split: sum.splits)
  show "ts_rows dir ?d' = ts_rows dir d" if "unmarshal_into replay_record_of b = Inl e"
    using that none by (intro ts_rows_cong) (auto simp: r fun_eq_iff)
  show "ts_rows dir ?d' j = ts_rows dir d j" if h: "unmarshal_into replay_record_of b = Inr rec" "rrec_snapshot_id rec \<noteq> j"
  proof -
    have "replay_rows dir ?d' j = replay_rows dir d j"
      using none h by (intro replay_rows_eqI)
        (auto simp: distinct_replay_rows set_replay_rows sorted_replay_rows r split: if_splits)
    then show ?thesis by (simp add: ts_rows_def)
  qed
  show "ts_rows dir ?d' (rrec_snapshot_id rec) = ts_rows dir d (rrec_snapshot_id rec) @ [replay_entry rec]"
    if h: "unmarshal_into replay_record_of b = Inr rec"
      "\<forall>m old. replay_at dir d m = Some old \<longrightarrow> rrec_created_at old < rrec_created_at rec"
  proof -
    have "replay_rows dir ?d' (rrec_snapshot_id rec) = replay_rows dir d (rrec_snapshot_id rec) @ [(n, rec)]"
    proof (rule replay_rows_eqI)
      show "distinct (replay_rows dir d (rrec_snapshot_id rec) @ [(n, rec)])"
        using none by (simp add: distinct_replay_rows set_replay_rows)
      show "set (replay_rows dir d (rrec_snapshot_id rec) @ [(n, rec)])
          = {(k, q). replay_at dir ?d' k = Some q \<and> rrec_snapshot_id q = rrec_snapshot_id rec}"
        using none h(1) by (auto simp: set_replay_rows r split: if_splits)
      show "sorted (map replay_key (replay_rows dir d (rrec_snapshot_id rec) @ [(n, rec)]))"
        by (rule sorted_replay_snoc [OF sorted_replay_rows]) (use h(2) in \<open>auto simp: set_replay_rows\<close>)
    qed
    then show ?thesis by (simp add: ts_rows_def)
  qed
qed

lemma sane_replay_fields [simp]:
  "rrec_snapshot_id (sane_replay r) = sanitize (rrec_snapshot_id r)" "rrec_created_at (sane_replay r) = rrec_created_at r"
  by (simp_all add: sane_replay_def)

lemma ts_save_replay_laws:
  assumes "tsdb_inv dir d" "tsdb_id (re_snapshot_id r)" "tsdb_id (re_domino_id r)" "tsdb_hash (re_input_hash r)"
    and "ts_save_replay dir r d = (u, d')"
  shows "tsdb_inv dir d'" "ts_snap dir d' = ts_snap dir d" "ts_memo dir d' = ts_memo dir d"
    "j \<noteq> re_snapshot_id r \<Longrightarrow> ts_rows dir d' j = ts_rows dir d j" "u \<noteq> Inr () \<Longrightarrow> ts_rows dir d' = ts_rows dir d"
    "u = Inr () \<Longrightarrow> valid_utf8 (re_output_hash r) \<Longrightarrow> valid_utf8 (re_output r) \<Longrightarrow> valid_utf8 (re_prev_link r)
      \<Longrightarrow> valid_utf8 (re_link r) \<Longrightarrow> ts_rows dir d' (re_snapshot_id r) = ts_rows dir d (re_snapshot_id r) @ [r]"
proof -
  let ?x = "re_domino_id r" and ?h = "re_input_hash r"
  define now where "now = disk_time d"
  define d1 where "d1 = disk_step d"
  define nanos where "nanos = disk_time d1"
  define d2 where "d2 = disk_step d1"
  define d3 where "d3 = disk_step d2"
  have t: "disk_now d = (now, d1)" "disk_now d1 = (nanos, d2)"
    by (simp_all add: disk_now_def now_def d1_def nanos_def d2_def disk_time_def)
  have i3: "idle d d1" "idle d d2" "idle d d3" by (simp_all add: d1_def d2_def d3_def)
  note F1 = idle_frame [OF assms(1) i3(1)] and F2 = idle_frame [OF assms(1) i3(2)] and F3 = idle_frame [OF assms(1) i3(3)]
  have cl: "clock_runs d" using assms(1) by (simp add: tsdb_inv_def)
  have times: "now < nanos" "nanos < disk_time d3" "0 \<le> nanos" "disk_time d3 > now" "disk_time d \<le> now"
    using cl by (simp_all add: now_def nanos_def d3_def d2_def d1_def disk_time_def clock_runs_def)
  define rec where "rec = \<lparr>rrec_snapshot_id = re_snapshot_id r, rrec_domino_id = ?x, rrec_input_hash = ?h,
    rrec_output_hash = re_output_hash r, rrec_reused = re_reused r, rrec_output = re_output r,
    rrec_prev_link = re_prev_link r, rrec_link = re_link r, rrec_created_at = now\<rparr>"
  define n where "n = replay_name nanos ?x ?h"
  have pn: "plain_comp n" unfolding n_def by (rule replay_name_plain [OF times(3) assms(3,4)])
  have sid: "sanitize (re_snapshot_id r) = re_snapshot_id r" using assms(2) by (simp add: tsdb_id_def sanitize_valid)
  have "tsdb_inv dir d' \<and> ts_snap dir d' = ts_snap dir d \<and> ts_memo dir d' = ts_memo dir d
    \<and> (\<forall>j. j \<noteq> re_snapshot_id r \<longrightarrow> ts_rows dir d' j = ts_rows dir d j) \<and> (u \<noteq> Inr () \<longrightarrow> ts_rows dir d' = ts_rows dir d)
    \<and> (u = Inr () \<longrightarrow> valid_utf8 (re_output_hash r) \<longrightarrow> valid_utf8 (re_output r) \<longrightarrow> valid_utf8 (re_prev_link r)
      \<longrightarrow> valid_utf8 (re_link r) \<longrightarrow> ts_rows dir d' (re_snapshot_id r) = ts_rows dir d (re_snapshot_id r) @ [r])"
  proof (cases "replay_record_json rec")
    case (Inl e)
    then have "d' = d1" "u = Inl e" using assms(5) t by (simp_all add: ts_save_replay_def rec_def)
    then show ?thesis using F1 by simp
  next
    case (Inr body)
    have w: "disk_write (path_join [dir, ''replay'', n]) body d2 = (u, d')"
      using assms(4,5) t Inr by (simp add: ts_save_replay_def rec_def n_def tsdb_hash_def)
    have pc: "path_comps (path_join [dir, ''replay'', n]) = place dir [''replay'', n]"
      using comps_paths(5) [OF tsdb_inv_dir [OF assms(1)] pn] .
    have inv3: "tsdb_inv dir d3" using F3 by simp
    have none: "file_at d3 (place dir [''replay'', n]) = None"
    proof -
      have "file_at d (place dir [''replay'', n]) = None"
        unfolding n_def by (rule replay_name_fresh [OF assms(1)]) (use times in simp)
      then show ?thesis using i3(3) by (simp add: idle_def)
    qed
    have named: "replay_named d3 n"
      using pn times(2,3) replay_name_split [OF times(3), of ?x ?h] unfolding replay_named_def n_def by (metis nat_0_le)
    have full: "unmarshal_into replay_record_of body = Inr (sane_replay rec)" by (rule record_stored(3) [OF Inr])
    have whole: "\<forall>a. unmarshal_into replay_record_of body = Inr a \<longrightarrow> rrec_created_at a < disk_time d3"
      using full times(4) by (auto simp: rec_def)
    have torn: "\<exists>e. unmarshal_into replay_record_of (cut_short k body) = Inl e" for k by (rule record_torn(3) [OF Inr])
    have torn2: "\<forall>a. unmarshal_into replay_record_of (cut_short k body) = Inr a \<longrightarrow> rrec_created_at a < disk_time d3" for k
      using torn [of k] by auto
    note P = put_replay [where b = body, OF inv3 none named whole]
    from disk_writeD [OF w] consider "u = Inr ()" "d' = put_file (place dir [''replay'', n]) body d3"
      | e where "u = Inl e" "d' = d3" | e k where "u = Inl e" "d' = put_file (place dir [''replay'', n]) (cut_short k body) d3"
      unfolding pc d3_def [symmetric] by blast
    then show ?thesis
    proof cases
      case 1
      have new: "\<forall>m old. replay_at dir d3 m = Some old \<longrightarrow> rrec_created_at old < rrec_created_at (sane_replay rec)"
        using assms(1) views_cong(3) [of d3 d dir] i3(3) by (simp add: rec_def tsdb_inv_def now_def idle_def)
      have id: "rrec_snapshot_id (sane_replay rec) = re_snapshot_id r" by (simp add: rec_def sid)
      have e: "replay_entry (sane_replay rec) = r" if "valid_utf8 (re_output_hash r)" "valid_utf8 (re_output r)"
          "valid_utf8 (re_prev_link r)" "valid_utf8 (re_link r)"
        using that assms(2-4) by (simp add: replay_entry_def sane_replay_def rec_def sanitize_valid tsdb_id_def tsdb_hash_def)
      show ?thesis using 1 P(1,2,3) P(5) [OF full] P(6) [OF full new] id e F3 by simp
    next
      case 2
      then show ?thesis using F3 by simp
    next
      case 3
      obtain er where er: "unmarshal_into replay_record_of (cut_short k body) = Inl er" using torn by blast
      note Q = put_replay [where b = "cut_short k body", OF inv3 none named torn2]
      show ?thesis using 3 Q(1,2,3) Q(4) [OF er] F3 by simp
    qed
  qed
  then show "tsdb_inv dir d'" "ts_snap dir d' = ts_snap dir d" "ts_memo dir d' = ts_memo dir d"
    "j \<noteq> re_snapshot_id r \<Longrightarrow> ts_rows dir d' j = ts_rows dir d j" "u \<noteq> Inr () \<Longrightarrow> ts_rows dir d' = ts_rows dir d"
    "u = Inr () \<Longrightarrow> valid_utf8 (re_output_hash r) \<Longrightarrow> valid_utf8 (re_output r) \<Longrightarrow> valid_utf8 (re_prev_link r)
      \<Longrightarrow> valid_utf8 (re_link r) \<Longrightarrow> ts_rows dir d' (re_snapshot_id r) = ts_rows dir d (re_snapshot_id r) @ [r]" by simp_all
qed



section \<open>The laws of a store\<close>

lemma ts_save_result_laws:
  assumes "tsdb_inv dir d" "tsdb_id (re_snapshot_id r)" "tsdb_id (re_domino_id r)" "tsdb_hash (re_input_hash r)"
    and "ts_save_result dir r d = (u, d')"
  shows "tsdb_inv dir d' \<and> ts_snap dir d' = ts_snap dir d
      \<and> (\<forall>i x h v. ts_memo dir d i x h = Some v \<longrightarrow> ts_memo dir d' i x h = Some v)
      \<and> (\<forall>i. i \<noteq> re_snapshot_id r \<longrightarrow> ts_rows dir d' i = ts_rows dir d i)
      \<and> (u \<noteq> Inr () \<longrightarrow> ts_rows dir d' = ts_rows dir d)"
    and "u = Inr () \<Longrightarrow> list_all valid_utf8 [re_output_hash r, re_output r, re_prev_link r, re_link r] \<Longrightarrow>
      ts_rows dir d' (re_snapshot_id r) = ts_rows dir d (re_snapshot_id r) @ [r]
      \<and> (\<not> re_reused r \<longrightarrow> ts_memo dir d' (re_snapshot_id r) (re_domino_id r) (re_input_hash r)
            = Some (re_output_hash r, re_output r))"
proof -
  obtain v d1 where v: "(if re_reused r then (Inr (), d) else ts_save_memo dir r d) = (v, d1)" by fastforce
  have m: "grows_memo dir d d1" "v = Inr () \<Longrightarrow> \<not> re_reused r \<Longrightarrow> valid_utf8 (re_output_hash r) \<Longrightarrow> valid_utf8 (re_output r) \<Longrightarrow>
      ts_memo dir d1 (re_snapshot_id r) (re_domino_id r) (re_input_hash r) = Some (re_output_hash r, re_output r)"
    using v ts_save_memo_laws [OF assms(1-4)] grows_idle [OF assms(1) idle_refl] by (auto split: if_splits)
  then have inv1: "tsdb_inv dir d1" by (simp add: grows_memo_def)
  have R: "v = Inr () \<and> ts_save_replay dir r d1 = (u, d') \<or> (\<exists>e. u = Inl e) \<and> d' = d1"
    using assms(5) v by (auto simp: ts_save_result_def split: if_splits sum.splits)
  have A: "(\<exists>e. u = Inl e) \<and> d' = d1 \<or> v = Inr () \<and> tsdb_inv dir d' \<and> ts_snap dir d' = ts_snap dir d1 \<and> ts_memo dir d' = ts_memo dir d1
    \<and> (\<forall>j. j \<noteq> re_snapshot_id r \<longrightarrow> ts_rows dir d' j = ts_rows dir d1 j) \<and> (u \<noteq> Inr () \<longrightarrow> ts_rows dir d' = ts_rows dir d1)
    \<and> (u = Inr () \<longrightarrow> list_all valid_utf8 [re_output_hash r, re_output r, re_prev_link r, re_link r] \<longrightarrow>
        ts_rows dir d' (re_snapshot_id r) = ts_rows dir d1 (re_snapshot_id r) @ [r])"
    using R
  proof
    assume s: "v = Inr () \<and> ts_save_replay dir r d1 = (u, d')"
    note L = ts_save_replay_laws [OF inv1 assms(2-4) conjunct2 [OF s]]
    show ?thesis using s L by simp
  qed simp
  show "tsdb_inv dir d' \<and> ts_snap dir d' = ts_snap dir d
      \<and> (\<forall>i x h v. ts_memo dir d i x h = Some v \<longrightarrow> ts_memo dir d' i x h = Some v)
      \<and> (\<forall>i. i \<noteq> re_snapshot_id r \<longrightarrow> ts_rows dir d' i = ts_rows dir d i)
      \<and> (u \<noteq> Inr () \<longrightarrow> ts_rows dir d' = ts_rows dir d)"
    using A m(1) by (auto simp: grows_memo_def)
  show "ts_rows dir d' (re_snapshot_id r) = ts_rows dir d (re_snapshot_id r) @ [r]
      \<and> (\<not> re_reused r \<longrightarrow> ts_memo dir d' (re_snapshot_id r) (re_domino_id r) (re_input_hash r)
            = Some (re_output_hash r, re_output r))"
    if "u = Inr ()" "list_all valid_utf8 [re_output_hash r, re_output r, re_prev_link r, re_link r]"
    using A m that by (auto simp: grows_memo_def)
qed

lemma hex_encode_char: "c \<in> set (hex_encode bs) \<Longrightarrow> byte_in 48 57 c \<or> byte_in 97 102 c"
proof -
  assume "c \<in> set (hex_encode bs)"
  then obtain b where "c = hex_digit (of_char b div 16) \<or> c = hex_digit (of_char b mod 16)"
    by (auto simp: hex_encode_def hex_byte_def)
  moreover have "(of_char b :: nat) div 16 < 16" using of_char_lt [of b] by (simp add: less_mult_imp_div_less)
  ultimately obtain n where "c = hex_digit n" "n < 16" by fastforce
  then show ?thesis by (auto simp: hex_digit_def byte_in_def)
qed

lemma compute_str_char: "c \<in> set (compute_str y) \<Longrightarrow> byte_in 0 127 c \<and> c \<noteq> CHR ''/'' \<and> c \<noteq> CHR ''.''"
  using hex_encode_char [of c "sha256 y"] by (auto simp: compute_str_def byte_in_def)

lemma compute_str_valid: "valid_utf8 (compute_str y)" "valid_utf8 (take n (compute_str y))"
proof -
  have "byte_in 0 127 c" if "c \<in> set (take n (compute_str y))" for c n
    using compute_str_char [of c y] in_set_takeD [OF that] by simp
  then have "valid_utf8 (take n (compute_str y))" for n by (intro valid_utf8_ascii) (simp add: list_all_iff)
  from this [of n] this [of "length (compute_str y)"] show "valid_utf8 (compute_str y)" "valid_utf8 (take n (compute_str y))"
    by simp_all
qed

lemma tsdb_hash_compute: "tsdb_hash (compute_str y)"
  using compute_str_valid(1) by (auto simp: tsdb_hash_def dest: compute_str_char)

lemma tsdb_id_hash: "tsdb_id (take 32 (compute_str y))"
proof -
  let ?i = "take 32 (compute_str y)"
  have c: "c \<noteq> CHR ''/'' \<and> c \<noteq> CHR ''.''" if "c \<in> set ?i" for c using compute_str_char [of c y] that by (auto dest: in_set_takeD)
  have l: "length ?i = 32" by simp
  have "\<not> has_suffix ?i ''.data''"
  proof
    assume "has_suffix ?i ''.data''"
    then obtain t where "?i = t @ ''.data''" by (auto simp: has_suffix_iff)
    then have "CHR ''.'' \<in> set ?i" by (simp only: set_append) simp
    then show False using c by blast
  qed
  moreover have "compute_str y \<noteq> []" using length_compute_str [of y] by (metis list.size(3) zero_neq_numeral)
  then have "plain_comp ?i" using c l by (auto simp: plain_comp_def)
  ultimately show ?thesis using compute_str_valid(2) by (simp add: tsdb_id_def)
qed

lemmas tsdb_sel = tsdb_backend_def backend.select_convs option.inject

interpretation tsdb: store_laws "tsdb_backend dir" "tsdb_inv dir" tsdb_ok tsdb_id valid_utf8 tsdb_hash
  "ts_snap dir" "ts_memo dir" "ts_rows dir" for dir
proof (unfold_locales, goal_cases)
  case 1 show ?case by (rule tsdb_id_hash)
next
  case 2 show ?case by (rule compute_str_valid)
next
  case 3 then show ?case by (simp add: tsdb_id_def)
next
  case (4 s i d h oh out)
  then show ?case unfolding ts_memo_def tsdb_inv_def by (auto split: if_splits)
next
  case 5 then show ?case using idle_frame ts_get_snapshot_laws(1) unfolding tsdb_sel by blast
next
  case 6 then show ?case using idle_frame ts_lookup_memo_laws(1) unfolding tsdb_sel by blast
next
  case 7 then show ?case using idle_frame ts_list_replay_laws(1) unfolding tsdb_sel by blast
next
  case 8 then show ?case using idle_frame ts_get_latest_laws(1) unfolding tsdb_sel by blast
next
  case 9 then show ?case using idle_frame ts_get_data_laws(1) unfolding tsdb_sel by blast
next
  case 10 then show ?case using ts_get_snapshot_laws(2) unfolding tsdb_sel by blast
next
  case 11 then show ?case using ts_lookup_memo_laws(2) unfolding tsdb_sel by blast
next
  case 12 then show ?case using ts_list_replay_laws(2) unfolding tsdb_sel by blast
next
  case (13 s i d ih oh out s')
  then show ?case using ts_get_latest_laws(2) [of dir i d s _ s' ih oh out] unfolding tsdb_sel by fastforce
next
  case 14 then show ?case using ts_get_data_laws(2) unfolding tsdb_sel by blast
next
  case (15 s i ts data sealed u s')
  then have q: "ts_save_snapshot dir i ts data sealed s = (u, s')" by (simp add: tsdb_sel)
  show ?case using ts_save_snapshot_laws(1,2) [OF 15(1,2) q] unfolding touches_snap_def by blast
next
  case (16 s i ts data sealed s')
  then have q: "ts_save_snapshot dir i ts data sealed s = (Inr (), s')" by (simp add: tsdb_sel)
  show ?case using ts_save_snapshot_laws(3) [OF 16(1,2) q 16(3)] by simp
next
  case (17 s r u s')
  then have q: "ts_save_result dir r s = (u, s')" by (simp add: tsdb_sel)
  show ?case using ts_save_result_laws(1) [OF 17(1-4) q] .
next
  case (18 s r s')
  then have q: "ts_save_result dir r s = (Inr (), s')" by (simp add: tsdb_sel)
  show ?case using ts_save_result_laws(2) [OF 18(1-4) q] 18(5-8) by simp
next
  case 19 then show ?case by (simp add: tsdb_backend_def)
next
  case 20 show ?case by (rule tsdb_hash_compute)
qed


end
