(* ===== verification/TsdbHttp.thy ===== *)
theory TsdbHttp
  imports Tsdb
begin

text \<open>
  The TSDB service: \<open>NewTSDBHandler\<close> (\<open>pkg/store/tsdb_handler.go\<close>), which serves an engine
  over HTTP, and \<open>TSDBClient\<close> (\<open>pkg/store/tsdb_client.go\<close>), the store that talks to it.  A
  request carries its path in the escaped form of the wire and its query as the pairs that
  \<open>net/url\<close> encodes and decodes; \<open>http.ServeMux\<close> redirects a path that is not clean.  The
  network loses requests and answers as a schedule says.
\<close>

section \<open>Paths on the wire\<close>

text \<open>\<open>url.PathEscape\<close>, and how the server reads a path.\<close>

definition path_char :: "char \<Rightarrow> bool" where
  "path_char c = (byte_in 48 57 c \<or> byte_in 65 90 c \<or> byte_in 97 122 c \<or> c \<in> set ''-_.~$&+:=@'')"

definition upper_hex :: "nat \<Rightarrow> char" where
  "upper_hex n = (if n < 10 then char_of (48 + n) else char_of (55 + n))"

definition escape_char :: "char \<Rightarrow> string" where
  "escape_char c = (if path_char c then [c] else [CHR 0x25, upper_hex (of_char c div 16), upper_hex (of_char c mod 16)])"

definition path_escape :: "string \<Rightarrow> string" where
  "path_escape s = concat (map escape_char s)"

fun path_unescape :: "string \<Rightarrow> string" where
  "path_unescape (c # a # b # s) =
     (if c = CHR 0x25 then (case (hex_val a, hex_val b) of
          (Some m, Some n) \<Rightarrow> char_of (16 * m + n) # path_unescape s
        | _ \<Rightarrow> c # path_unescape (a # b # s))
      else c # path_unescape (a # b # s))"
| "path_unescape (c # s) = c # path_unescape s"
| "path_unescape [] = []"

text \<open>\<open>cleanPath\<close> of \<open>net/http\<close>.\<close>

definition clean_url_path :: "string \<Rightarrow> string" where
  "clean_url_path p =
     (if p = '''' then ''/''
      else let q = (if hd p = CHR ''/'' then p else CHR ''/'' # p); n = path_clean q
           in if last q = CHR ''/'' \<and> n \<noteq> ''/'' then n @ ''/'' else n)"

section \<open>Requests and answers\<close>

record request =
  hq_method :: string
  hq_path :: string
  hq_query :: "(string \<times> string) list"
  hq_body :: string

record answer =
  ha_status :: nat
  ha_body :: string

text \<open>What a request comes to: an answer, a redirection, or a connection that breaks (a panic).\<close>

datatype reply = Answer answer | Redirect string | Aborted

definition http_ok :: "string \<Rightarrow> reply" where
  "http_ok body = Answer \<lparr>ha_status = 200, ha_body = body\<rparr>"

definition http_created :: reply where
  "http_created = Answer \<lparr>ha_status = 201, ha_body = ''''\<rparr>"

text \<open>\<open>http.Error\<close> and \<open>http.NotFound\<close>.\<close>

definition http_error :: "string \<Rightarrow> nat \<Rightarrow> reply" where
  "http_error msg code = Answer \<lparr>ha_status = code, ha_body = msg @ [CHR 0x0A]\<rparr>"

definition http_not_found :: reply where
  "http_not_found = http_error ''404 page not found'' 404"

text \<open>An engine call that panics breaks the connection.\<close>

definition http_fail :: "err \<Rightarrow> nat \<Rightarrow> reply" where
  "http_fail e code = (if err_kind e = KPanic then Aborted else http_error (err_msg e) code)"

text \<open>\<open>writeJSON\<close>: nothing is written when the value cannot be encoded.\<close>

definition write_json :: "string res \<Rightarrow> reply" where
  "write_json b = http_ok (case b of Inl _ \<Rightarrow> '''' | Inr t \<Rightarrow> t @ [CHR 0x0A])"

definition query_get :: "string \<Rightarrow> request \<Rightarrow> string" where
  "query_get k rq = (case map_of (hq_query rq) k of None \<Rightarrow> '''' | Some v \<Rightarrow> v)"

section \<open>Bodies\<close>

definition replay_entry_json :: "replay_row \<Rightarrow> string" where
  "replay_entry_json r = json_obj
     ([(''snapshot_id'', json_string (re_snapshot_id r)), (''domino_id'', json_string (re_domino_id r)),
       (''input_hash'', json_string (re_input_hash r)), (''output_hash'', json_string (re_output_hash r)),
       (''output'', json_string (re_output r)), (''reused'', json_bool (re_reused r))]
      @ omit_empty ''prev_link'' (re_prev_link r) @ omit_empty ''link'' (re_link r))"

definition json_arr :: "string list \<Rightarrow> string" where
  "json_arr ts = ''['' @ join_with '','' ts @ '']''"

fun replay_entry_of :: "gval \<Rightarrow> replay_row res" where
  "replay_entry_of (GMap m) =
     bindr (dec_string (json_field ''snapshot_id'' m)) (\<lambda>i.
     bindr (dec_string (json_field ''domino_id'' m)) (\<lambda>d.
     bindr (dec_string (json_field ''input_hash'' m)) (\<lambda>h.
     bindr (dec_string (json_field ''output_hash'' m)) (\<lambda>oh.
     bindr (dec_string (json_field ''output'' m)) (\<lambda>out.
     bindr (dec_bool (json_field ''reused'' m)) (\<lambda>b.
     bindr (dec_string (json_field ''prev_link'' m)) (\<lambda>p.
     bindr (dec_string (json_field ''link'' m)) (\<lambda>l.
     Inr \<lparr>re_snapshot_id = i, re_domino_id = d, re_input_hash = h, re_output_hash = oh, re_output = out,
          re_reused = b, re_prev_link = p, re_link = l\<rparr>))))))))"
| "replay_entry_of GNil = Inr zero_row"
| "replay_entry_of _ = Inl json_error"

fun all_of :: "('a \<Rightarrow> 'b res) \<Rightarrow> 'a list \<Rightarrow> 'b list res" where
  "all_of f [] = Inr []"
| "all_of f (x # xs) = bindr (f x) (\<lambda>y. bindr (all_of f xs) (\<lambda>ys. Inr (y # ys)))"

fun replay_list_of :: "gval \<Rightarrow> replay_row list res" where
  "replay_list_of (GArr vs) = all_of replay_entry_of vs"
| "replay_list_of GNil = Inr []"
| "replay_list_of _ = Inl json_error"

text \<open>The body of a request to save a snapshot.\<close>

fun save_request_of :: "gval \<Rightarrow> (string \<times> string \<times> string \<times> bool) res" where
  "save_request_of (GMap m) =
     bindr (dec_string (json_field ''snapshot_id'' m)) (\<lambda>i.
     bindr (dec_string (json_field ''time_slice'' m)) (\<lambda>t.
     bindr (dec_string (json_field ''data'' m)) (\<lambda>d.
     bindr (dec_bool (json_field ''sealed'' m)) (\<lambda>b. Inr (i, t, d, b)))))"
| "save_request_of GNil = Inr ('''', '''', '''', False)"
| "save_request_of _ = Inl json_error"

text \<open>The three hashes of a latest result.\<close>

fun latest_of :: "gval \<Rightarrow> (string \<times> string \<times> string) res" where
  "latest_of (GMap m) =
     bindr (dec_string (json_field ''input_hash'' m)) (\<lambda>ih.
     bindr (dec_string (json_field ''output_hash'' m)) (\<lambda>oh.
     bindr (dec_string (json_field ''output'' m)) (\<lambda>out. Inr (ih, oh, out))))"
| "latest_of GNil = Inr ('''', '''', '''')"
| "latest_of _ = Inl json_error"

section \<open>The handler\<close>

definition handle_stats :: "string \<Rightarrow> disk \<Rightarrow> reply \<times> disk" where
  "handle_stats dir d =
     (case ts_stats dir d of
        (Inl e, d1) \<Rightarrow> (http_fail e 500, d1)
      | (Inr (snaps, memo), d1) \<Rightarrow>
          (write_json (Inr (json_obj [(''memo_entries'', nat_str memo), (''snapshots'', nat_str snaps)])), d1))"

definition handle_save_snapshot :: "string \<Rightarrow> request \<Rightarrow> disk \<Rightarrow> reply \<times> disk" where
  "handle_save_snapshot dir rq d =
     (if hq_method rq \<noteq> ''POST'' then (http_error ''method not allowed'' 405, d)
      else (case unmarshal_into save_request_of (hq_body rq) of
          Inl e \<Rightarrow> (http_error (err_msg e) 400, d)
        | Inr (i, ts, data, sealed) \<Rightarrow>
          (case ts_save_snapshot dir i ts data sealed d of
             (Inl e, d1) \<Rightarrow> (http_fail e 500, d1)
           | (Inr _, d1) \<Rightarrow> (http_created, d1))))"

definition handle_get_snapshot :: "string \<Rightarrow> string \<Rightarrow> request \<Rightarrow> disk \<Rightarrow> reply \<times> disk" where
  "handle_get_snapshot dir path rq d =
     (let rest = trim_prefix path ''/v1/snapshots/'' in
      if rest = '''' then (http_not_found, d)
      else if has_suffix rest ''/data'' \<and> hq_method rq = ''GET'' then
        let i = trim_suffix (trim_suffix rest ''/data'') ''/'' in
        if i = '''' then (http_not_found, d)
        else (case ts_open_data dir i d of
            (Inl e, d1) \<Rightarrow> (http_not_found, d1)
          | (Inr (data, sealed), d1) \<Rightarrow>
              if \<not> sealed then (http_error ''snapshot not sealed'' 409, d1) else (http_ok data, d1))
      else if hq_method rq \<noteq> ''GET'' then (http_not_found, d)
      else (case ts_get_snapshot dir rest d of
          (Inl e, d1) \<Rightarrow> (http_not_found, d1)
        | (Inr (ts, data, sealed), d1) \<Rightarrow>
            (write_json (snapshot_record_json \<lparr>srec_snapshot_id = rest, srec_time_slice = ts, srec_data = data,
               srec_sealed = sealed, srec_created_at = zero_time\<rparr>), d1)))"

definition handle_memo :: "string \<Rightarrow> request \<Rightarrow> disk \<Rightarrow> reply \<times> disk" where
  "handle_memo dir rq d =
     (if hq_method rq \<noteq> ''GET'' then (http_error ''method not allowed'' 405, d)
      else let i = query_get ''snapshot_id'' rq; x = query_get ''domino_id'' rq; h = query_get ''input_hash'' rq in
        (case ts_lookup_memo dir i x h d of
           (Inl e, d1) \<Rightarrow> (http_fail e 500, d1)
         | (Inr None, d1) \<Rightarrow> (http_not_found, d1)
         | (Inr (Some (oh, out)), d1) \<Rightarrow>
             (write_json (memo_record_json \<lparr>mrec_snapshot_id = i, mrec_domino_id = x, mrec_input_hash = h,
                mrec_output_hash = oh, mrec_output = out, mrec_created_at = zero_time\<rparr>), d1)))"

definition handle_results :: "string \<Rightarrow> request \<Rightarrow> disk \<Rightarrow> reply \<times> disk" where
  "handle_results dir rq d =
     (if hq_method rq \<noteq> ''POST'' then (http_error ''method not allowed'' 405, d)
      else (case unmarshal_into replay_entry_of (hq_body rq) of
          Inl e \<Rightarrow> (http_error (err_msg e) 400, d)
        | Inr r \<Rightarrow>
          (case ts_save_result dir r d of
             (Inl e, d1) \<Rightarrow> (http_fail e 500, d1)
           | (Inr _, d1) \<Rightarrow> (http_created, d1))))"

definition handle_outputs :: "string \<Rightarrow> string \<Rightarrow> request \<Rightarrow> disk \<Rightarrow> reply \<times> disk" where
  "handle_outputs dir path rq d =
     (if hq_method rq \<noteq> ''GET'' then (http_error ''method not allowed'' 405, d)
      else (case split_on (CHR ''/'') (trim_prefix path ''/v1/outputs/'') of
          [i, x] \<Rightarrow>
            (case ts_get_domino_output dir i x d of
               (Inl e, d1) \<Rightarrow> (http_not_found, d1)
             | (Inr out, d1) \<Rightarrow> (write_json (Inr (json_obj [(''output'', json_string out)])), d1))
        | _ \<Rightarrow> (http_not_found, d)))"

definition handle_latest :: "string \<Rightarrow> string \<Rightarrow> request \<Rightarrow> disk \<Rightarrow> reply \<times> disk" where
  "handle_latest dir path rq d =
     (if hq_method rq \<noteq> ''GET'' then (http_error ''method not allowed'' 405, d)
      else (case split_on (CHR ''/'') (trim_prefix path ''/v1/latest-results/'') of
          [i, x] \<Rightarrow>
            (case ts_get_latest dir i x d of
               (Inl e, d1) \<Rightarrow> (http_not_found, d1)
             | (Inr (ih, oh, out), d1) \<Rightarrow>
                 (write_json (Inr (json_obj [(''input_hash'', json_string ih), (''output'', json_string out),
                    (''output_hash'', json_string oh)])), d1))
        | _ \<Rightarrow> (http_not_found, d)))"

definition handle_replay :: "string \<Rightarrow> request \<Rightarrow> disk \<Rightarrow> reply \<times> disk" where
  "handle_replay dir rq d =
     (if hq_method rq \<noteq> ''GET'' then (http_error ''method not allowed'' 405, d)
      else let i = query_get ''snapshot_id'' rq in
        if i = '''' then (http_error ''snapshot_id is required'' 400, d)
        else (case ts_list_replay dir i d of
            (Inl e, d1) \<Rightarrow> (http_fail e 500, d1)
          | (Inr rows, d1) \<Rightarrow> (write_json (Inr (json_arr (map replay_entry_json rows))), d1)))"

text \<open>
  The mux: a path is cleaned first, by a redirection; of the patterns that match, the longest
  wins, and a path that only lacks the slash of a pattern is redirected to it.
\<close>

definition serve :: "string \<Rightarrow> request \<Rightarrow> disk \<Rightarrow> reply \<times> disk" where
  "serve dir rq d =
     (let p = clean_url_path (hq_path rq); path = path_unescape (hq_path rq) in
      if p \<in> {''/v1/outputs'', ''/v1/latest-results''} then (Redirect (p @ ''/''), d)
      else if p \<noteq> hq_path rq then (Redirect p, d)
      else if p = ''/healthz'' then (http_ok ''ok'', d)
      else if p = ''/v1/stats'' then handle_stats dir d
      else if p = ''/v1/snapshots'' then handle_save_snapshot dir rq d
      else if has_prefix p ''/v1/snapshots/'' then handle_get_snapshot dir path rq d
      else if p = ''/v1/memo'' then handle_memo dir rq d
      else if p = ''/v1/results'' then handle_results dir rq d
      else if has_prefix p ''/v1/outputs/'' then handle_outputs dir path rq d
      else if has_prefix p ''/v1/latest-results/'' then handle_latest dir path rq d
      else if p = ''/v1/replay'' then handle_replay dir rq d
      else (http_not_found, d))"

section \<open>The network\<close>

text \<open>
  \<open>ln_fault n = Some (b, m)\<close>: exchange \<open>n\<close> fails with message \<open>m\<close>; the request had reached the
  server before when \<open>b\<close> holds.
\<close>

record tsdb_link =
  ln_disk :: disk
  ln_fault :: "nat \<Rightarrow> (bool \<times> string) option"
  ln_tick :: nat

definition exchange :: "string \<Rightarrow> request \<Rightarrow> tsdb_link \<Rightarrow> reply res \<times> tsdb_link" where
  "exchange dir rq s =
     (let s1 = s\<lparr>ln_tick := Suc (ln_tick s)\<rparr> in
      case ln_fault s (ln_tick s) of
        Some (False, m) \<Rightarrow> (Inl (io_err m), s1)
      | f \<Rightarrow> (case serve dir rq (ln_disk s) of (rp, d1) \<Rightarrow>
          ((case f of Some (_, m) \<Rightarrow> Inl (io_err m)
            | None \<Rightarrow> if rp = Aborted then Inl (io_err ''EOF'') else Inr rp), s1\<lparr>ln_disk := d1\<rparr>)))"

text \<open>\<open>http.Client\<close> follows up to ten redirections, with a GET.\<close>

fun send :: "nat \<Rightarrow> string \<Rightarrow> request \<Rightarrow> tsdb_link \<Rightarrow> answer res \<times> tsdb_link" where
  "send n dir rq s =
     (case exchange dir rq s of
        (Inl e, s1) \<Rightarrow> (Inl e, s1)
      | (Inr (Answer a), s1) \<Rightarrow> (Inr a, s1)
      | (Inr (Redirect p), s1) \<Rightarrow>
          (case n of 0 \<Rightarrow> (Inl (errorf ''stopped after 10 redirects''), s1)
           | Suc m \<Rightarrow> send m dir (rq\<lparr>hq_method := ''GET'', hq_path := p, hq_body := ''''\<rparr>) s1)
      | (Inr Aborted, s1) \<Rightarrow> (Inl (io_err ''EOF''), s1))"

declare send.simps [simp del]

definition http_get_at :: "string \<Rightarrow> string \<Rightarrow> (string \<times> string) list \<Rightarrow> tsdb_link \<Rightarrow> answer res \<times> tsdb_link" where
  "http_get_at dir path q = send 10 dir \<lparr>hq_method = ''GET'', hq_path = path, hq_query = q, hq_body = ''''\<rparr>"

section \<open>The client\<close>

definition status_text :: "nat \<Rightarrow> string" where
  "status_text c = (if c = 200 then ''OK'' else if c = 201 then ''Created'' else if c = 400 then ''Bad Request''
     else if c = 404 then ''Not Found'' else if c = 405 then ''Method Not Allowed''
     else if c = 409 then ''Conflict'' else if c = 500 then ''Internal Server Error'' else '''')"

definition read_error :: "answer \<Rightarrow> err" where
  "read_error a = errorf (''tsdb api '' @ nat_str (ha_status a) @ '' '' @ status_text (ha_status a) @ '': '' @ trim_space (ha_body a))"

definition client_ping :: "string \<Rightarrow> tsdb_link \<Rightarrow> unit res \<times> tsdb_link" where
  "client_ping dir s =
     (case http_get_at dir ''/healthz'' [] s of
        (Inl e, s1) \<Rightarrow> (Inl e, s1)
      | (Inr a, s1) \<Rightarrow> (if ha_status a \<noteq> 200 then Inl (errorf (''unexpected status '' @ nat_str (ha_status a))) else Inr (), s1))"

definition open_tsdb_client :: "string \<Rightarrow> tsdb_link \<Rightarrow> unit res \<times> tsdb_link" where
  "open_tsdb_client dir s =
     (case client_ping dir s of
        (Inl e, s1) \<Rightarrow> (Inl (wrapf ''tsdb health check'' e), s1)
      | (Inr _, s1) \<Rightarrow> (Inr (), s1))"

definition client_post :: "string \<Rightarrow> string \<Rightarrow> string \<Rightarrow> tsdb_link \<Rightarrow> unit res \<times> tsdb_link" where
  "client_post dir path body s =
     (case send 10 dir \<lparr>hq_method = ''POST'', hq_path = path, hq_query = [], hq_body = body\<rparr> s of
        (Inl e, s1) \<Rightarrow> (Inl e, s1)
      | (Inr a, s1) \<Rightarrow> (if ha_status a \<ge> 300 then Inl (read_error a) else Inr (), s1))"

definition client_save_snapshot ::
  "string \<Rightarrow> string \<Rightarrow> string \<Rightarrow> string \<Rightarrow> bool \<Rightarrow> tsdb_link \<Rightarrow> unit res \<times> tsdb_link" where
  "client_save_snapshot dir i timeSlice data sealed =
     client_post dir ''/v1/snapshots'' (json_obj [(''data'', json_string data), (''sealed'', json_bool sealed),
       (''snapshot_id'', json_string i), (''time_slice'', json_string timeSlice)])"

definition client_get_snapshot :: "string \<Rightarrow> string \<Rightarrow> tsdb_link \<Rightarrow> (string \<times> string \<times> bool) res \<times> tsdb_link" where
  "client_get_snapshot dir i s =
     (case http_get_at dir (''/v1/snapshots/'' @ path_escape i) [] s of
        (Inl e, s1) \<Rightarrow> (Inl e, s1)
      | (Inr a, s1) \<Rightarrow>
          (if ha_status a = 404 then Inl (errorf ''snapshot not found'')
           else if ha_status a \<noteq> 200 then Inl (read_error a)
           else bindr (unmarshal_into snapshot_record_of (ha_body a)) (\<lambda>rec.
             Inr (srec_time_slice rec, srec_data rec, srec_sealed rec)), s1))"

definition client_get_data :: "string \<Rightarrow> string \<Rightarrow> tsdb_link \<Rightarrow> (string \<times> bool) res \<times> tsdb_link" where
  "client_get_data dir i s =
     (case http_get_at dir (''/v1/snapshots/'' @ path_escape i @ ''/data'') [] s of
        (Inl e, s1) \<Rightarrow> (Inl e, s1)
      | (Inr a, s1) \<Rightarrow>
          (if ha_status a = 404 then Inl (errorf ''snapshot not found'')
           else if ha_status a \<noteq> 200 then Inl (read_error a)
           else Inr (ha_body a, True), s1))"

definition client_lookup_memo ::
  "string \<Rightarrow> string \<Rightarrow> string \<Rightarrow> string \<Rightarrow> tsdb_link \<Rightarrow> (string \<times> string) option res \<times> tsdb_link" where
  "client_lookup_memo dir i x h s =
     (case http_get_at dir ''/v1/memo'' [(''domino_id'', x), (''input_hash'', h), (''snapshot_id'', i)] s of
        (Inl e, s1) \<Rightarrow> (Inl e, s1)
      | (Inr a, s1) \<Rightarrow>
          (if ha_status a = 404 then Inr None
           else if ha_status a \<noteq> 200 then Inl (read_error a)
           else bindr (unmarshal_into memo_record_of (ha_body a)) (\<lambda>rec.
             Inr (Some (mrec_output_hash rec, mrec_output rec))), s1))"

definition client_save_result :: "string \<Rightarrow> replay_row \<Rightarrow> tsdb_link \<Rightarrow> unit res \<times> tsdb_link" where
  "client_save_result dir r =
     client_post dir ''/v1/results'' (json_obj [(''domino_id'', json_string (re_domino_id r)),
       (''input_hash'', json_string (re_input_hash r)), (''link'', json_string (re_link r)),
       (''output'', json_string (re_output r)), (''output_hash'', json_string (re_output_hash r)),
       (''prev_link'', json_string (re_prev_link r)), (''reused'', json_bool (re_reused r)),
       (''snapshot_id'', json_string (re_snapshot_id r))])"

definition client_list_replay :: "string \<Rightarrow> string \<Rightarrow> tsdb_link \<Rightarrow> replay_row list res \<times> tsdb_link" where
  "client_list_replay dir i s =
     (case http_get_at dir ''/v1/replay'' [(''snapshot_id'', i)] s of
        (Inl e, s1) \<Rightarrow> (Inl e, s1)
      | (Inr a, s1) \<Rightarrow>
          (if ha_status a \<noteq> 200 then Inl (read_error a)
           else unmarshal_into replay_list_of (ha_body a), s1))"

definition client_get_latest ::
  "string \<Rightarrow> string \<Rightarrow> string \<Rightarrow> tsdb_link \<Rightarrow> (string \<times> string \<times> string) res \<times> tsdb_link" where
  "client_get_latest dir i x s =
     (case http_get_at dir (''/v1/latest-results/'' @ path_escape i @ ''/'' @ path_escape x) [] s of
        (Inl e, s1) \<Rightarrow> (Inl e, s1)
      | (Inr a, s1) \<Rightarrow>
          (if ha_status a \<noteq> 200 then Inl (read_error a)
           else unmarshal_into latest_of (ha_body a), s1))"

definition client_get_domino_output :: "string \<Rightarrow> string \<Rightarrow> string \<Rightarrow> tsdb_link \<Rightarrow> string res \<times> tsdb_link" where
  "client_get_domino_output dir i x s =
     (case client_get_latest dir i x s of (r, s1) \<Rightarrow> (bindr r (\<lambda>(_, _, out). Inr out), s1))"

definition tsdb_client :: "string \<Rightarrow> tsdb_link backend" where
  "tsdb_client dir =
     \<lparr>b_save_snapshot = client_save_snapshot dir, b_get_snapshot = client_get_snapshot dir,
      b_lookup_memo = client_lookup_memo dir, b_save_result = client_save_result dir,
      b_get_domino_output = client_get_domino_output dir, b_get_latest = client_get_latest dir,
      b_list_replay = client_list_replay dir, b_close = (\<lambda>s. (Inr (), s)),
      b_get_data = Some (client_get_data dir), b_save_payload = None\<rparr>"

end
