(* ===== verification/TsdbRuns.thy ===== *)
theory TsdbRuns
  imports Runs Tsdb
begin

text \<open>
  The engine on the file store, and what a call that is interrupted leaves behind.  The
  properties of \<open>Run\<close> come from the lemmas of \<open>Engine\<close> through the interpretation \<open>tsdb\<close> of the
  store contract; they hold whatever call of the file system fails, and however much of a
  file it has written by then.
\<close>

section \<open>Concrete inputs\<close>

text \<open>A disk with a running clock, without and with a failure.\<close>

definition demo_disk :: disk where
  "demo_disk = \<lparr>dk_files = [], dk_dirs = map (place ''/t'') [[''snapshots''], [''memo''], [''replay'']],
     dk_fault = \<lambda>_. None, dk_clock = int, dk_tick = 0\<rparr>"

definition faulty_disk :: "nat \<Rightarrow> disk" where
  "faulty_disk n = demo_disk\<lparr>dk_fault := \<lambda>m. if m = n then Some (''no space left on device'', Some 2) else None\<rparr>"

lemma demo_dir: "store_dir ''/t''"
  unfolding store_dir_def by (rule exI [of _ "[''t'']"]) (simp add: plain_comp_def)

lemma empty_disk_inv:
  assumes "store_dir dir" "dk_files d = []" "clock_runs d" "\<forall>n. place dir [''replay'', n] \<notin> set (dk_dirs d)"
  shows "tsdb_inv dir d" "ts_snap dir d i = None" "ts_memo dir d i x h = None" "ts_rows dir d i = []"
proof -
  have f: "file_at d k = None" for k by (simp add: file_at_def assms(2))
  have s: "stored g d k = None" for g :: "gval \<Rightarrow> 'a res" and k by (simp add: stored_def f)
  show "tsdb_inv dir d" using assms
    by (simp add: tsdb_inv_def snapshot_at_def memo_at_def replay_at_def stored_def f)
  show "ts_snap dir d i = None" "ts_memo dir d i x h = None"
    by (simp_all add: ts_snap_def ts_memo_def snapshot_at_def memo_at_def stored_def f)
  have "replay_rows dir d i = []"
    by (rule replay_rows_eqI) (simp_all add: replay_at_def stored_def f)
  then show "ts_rows dir d i = []" by (simp add: ts_rows_def)
qed

lemma demo_disk_inv: "tsdb_inv ''/t'' demo_disk" "tsdb_inv ''/t'' (faulty_disk n)"
  using demo_dir by (auto intro!: empty_disk_inv simp: demo_disk_def faulty_disk_def clock_runs_def)

lemma demo_id: "tsdb_id ''a''" "tsdb_id ''i''"
  by (simp_all add: tsdb_id_def plain_comp_def has_suffix_def has_prefix_def valid_utf8_ascii byte_in_def)

text \<open>A workflow of one step that sums its input; what it puts out is ASCII text.\<close>

definition sum_workflow :: workflow where
  "sum_workflow = demo_workflow\<lparr>wf_spec := (wf_spec demo_workflow)\<lparr>ws_dominos :=
     [demo_domino\<lparr>d_spec := zero_dom_spec\<lparr>ds_command := ''builtin:coarsen''\<rparr>\<rparr>]\<rparr>\<rparr>"

lemma ascii_nat_str: "list_all (byte_in 0 127) (nat_str n)"
  using nat_str_digits [of _ n] by (fastforce simp: list_all_iff byte_in_def)

lemma ascii_short_digits: "short_digits a = (ds, k) \<Longrightarrow> list_all (byte_in 0 127) ds"
  using ascii_nat_str by (auto simp: short_digits_def Let_def split: prod.splits)

lemma ascii_sub: "list_all P s \<Longrightarrow> list_all P (take n s) \<and> list_all P (drop n s)"
  by (metis append_take_drop_id list_all_append)

lemma ascii_fformat: "fformat x = Some t \<Longrightarrow> list_all (byte_in 0 127) t"
proof -
  have z: "list_all (byte_in 0 127) (replicate n (CHR ''0''))" for n by (simp add: list_all_iff byte_in_def)
  have p: "list_all (byte_in 0 127) (fmt_plain ds k)" "list_all (byte_in 0 127) (fmt_exp ds k)"
    if "list_all (byte_in 0 127) ds" for ds k
    using that ascii_sub [OF that] z ascii_nat_str by (simp_all add: fmt_plain_def fmt_exp_def byte_in_def)
  have "list_all (byte_in 0 127) (fformat_pos q)" for q
    using p ascii_short_digits by (auto simp: fformat_pos_def Let_def split: prod.splits)
  then show "fformat x = Some t \<Longrightarrow> list_all (byte_in 0 127) t"
    by (cases x) (auto simp: byte_in_def split: if_splits)
qed

lemma ascii_join: "list_all P sep \<Longrightarrow> list_all (list_all P) xs \<Longrightarrow> list_all P (join_with sep xs)"
  by (induction sep xs rule: join_with.induct) auto

lemma ascii_opt_list: "opt_list xs = Some ys \<Longrightarrow> set xs = Some ` set ys"
  by (induction xs arbitrary: ys rule: opt_list.induct) (auto split: option.splits)

lemma ascii_coarsen:
  assumes "marshal_coarsen x n = Inr t"
  shows "list_all (byte_in 0 127) t"
proof -
  define m where "m = [(''value'', GNum x), (''v'', GNum x), (''parts'', GInt n), (''method'', GStr ''sum'')]"
  obtain ps where ps: "opt_list (map (\<lambda>(k, v). map_option (Pair k) (json_enc v)) m) = Some ps"
    "t = ''{'' @ join_with '','' (map (\<lambda>(k, s). json_string k @ '':'' @ s) (sort_key fst ps)) @ ''}''"
    using assms by (auto simp: marshal_coarsen_def json_marshal_def m_def [symmetric] split: option.splits)
  have "list_all (byte_in 0 127) (json_string k) \<and> list_all (byte_in 0 127) s" if "(k, s) \<in> set ps" for k s
  proof -
    have "Some (k, s) \<in> set (map (\<lambda>(k, v). map_option (Pair k) (json_enc v)) m)"
      using ascii_opt_list [OF ps(1)] that by auto
    then consider "fformat x = Some s" "k = ''value'' \<or> k = ''v''" | "s = int_str n" "k = ''parts''"
      | "s = json_string ''sum''" "k = ''method''"
      by (auto simp: m_def dest!: sym [of "Some _"])
    moreover have "list_all (byte_in 0 127) (json_string ''value'')" "list_all (byte_in 0 127) (json_string ''v'')"
      "list_all (byte_in 0 127) (json_string ''parts'')" "list_all (byte_in 0 127) (json_string ''method'')"
      "list_all (byte_in 0 127) (json_string ''sum'')"
      by (simp_all add: json_string_def json_esc.simps json_esc_ascii_def json_safe_def byte_in_def)
    moreover have "list_all (byte_in 0 127) (int_str n)" using ascii_nat_str by (simp add: int_str_def byte_in_def)
    ultimately show ?thesis using ascii_fformat [of x s] by cases auto
  qed
  then have "list_all (list_all (byte_in 0 127)) (map (\<lambda>(k, s). json_string k @ '':'' @ s) (sort_key fst ps))"
    by (auto simp: list_all_iff byte_in_def)
  then show ?thesis unfolding ps(2) using ascii_join [of "byte_in 0 127" "'',''"] by (simp add: byte_in_def)
qed

lemma sum_texts: "texts_ok valid_utf8 en (ws_dominos (wf_spec sum_workflow))"
proof -
  have "valid_utf8 out" if "execute cfg ''builtin:coarsen'' inp w = (Inr out, w')" for cfg inp w out w'
  proof -
    have "bi_coarsen inp = Inr out" using that by (simp add: execute_def has_prefix_def builtin_execute_def)
    then obtain x n where "marshal_coarsen x n = Inr out"
      by (auto simp: bi_coarsen_def Let_def split: if_splits sum.splits)
    then show ?thesis using ascii_coarsen valid_utf8_ascii by blast
  qed
  then show ?thesis by (auto simp: texts_ok_def sum_workflow_def execute_domino_def fst_def split: prod.splits)
qed

section \<open>Runs\<close>

text \<open>
  C3 The engine on the file store.  Whatever call of the file system fails, even one that has
  written part of a file, a run leaves a well-formed store in which every sealed snapshot and
  every memoized output is what it was; the rows of at most one snapshot grew, by a verified
  spine over a prefix of the chain whose entries are all memoized.
\<close>

theorem tsdb_run_keeps_history:
  assumes "tsdb_inv dir d" "\<forall>n\<in>set (w_chain wk). tsdb_id n"
    and "texts_ok valid_utf8 (new_engine (tsdb_backend dir) cfg) (ws_dominos (wf_spec wk))"
    and "run (new_engine (tsdb_backend dir) cfg) wk d w = (r, d', w')"
  shows "tsdb_inv dir d'
    \<and> (\<forall>i t b. tsdb_id i \<longrightarrow> ts_snap dir d i = Some (t, b, True) \<longrightarrow> ts_snap dir d' i = Some (t, b, True))
    \<and> (\<forall>i x h v. ts_memo dir d i x h = Some v \<longrightarrow> ts_memo dir d' i x h = Some v)
    \<and> (\<exists>i es. (\<forall>j. j \<noteq> i \<longrightarrow> ts_rows dir d' j = ts_rows dir d j)
        \<and> ts_rows dir d' i = ts_rows dir d i @ map entry_row es \<and> verify_spine i es = Inr ()
        \<and> map le_domino_id es = take (length es) (w_chain wk)
        \<and> list_all (\<lambda>e. ts_memo dir d' (le_snapshot_id e) (le_domino_id e) (le_input_hash e)
              = Some (le_output_hash e, le_output e)) es)"
proof -
  have st: "en_store (new_engine (tsdb_backend dir) cfg) = tsdb_backend dir" by (simp add: new_engine_def)
  have "tsdb.keeps dir d d' \<and> (\<exists>i es. (\<forall>j. j \<noteq> i \<longrightarrow> ts_rows dir d' j = ts_rows dir d j)
      \<and> ts_rows dir d' i = ts_rows dir d i @ map entry_row es \<and> verify_spine i es = Inr ()
      \<and> map le_domino_id es = take (length es) (w_chain wk) \<and> list_all (tsdb.memoized dir d') es)"
    using tsdb.run_laws [OF assms(1) st assms(2-4)] by blast
  moreover have "list_all (tsdb.memoized dir d') es = list_all (\<lambda>e. ts_memo dir d' (le_snapshot_id e) (le_domino_id e) (le_input_hash e)
      = Some (le_output_hash e, le_output e)) es" for es
    by (simp add: tsdb.memoized_def list_all_iff)
  ultimately show ?thesis by (simp add: tsdb.keeps_def)
qed

lemma tsdb_run_keeps_history_witness:
  "case run (new_engine (tsdb_backend ''/t'') demo_cfg) sum_workflow (faulty_disk 5) no_world of (r, d', w') \<Rightarrow>
     tsdb_inv ''/t'' d' \<and> (\<exists>i es. ts_rows ''/t'' d' i = map entry_row es \<and> verify_spine i es = Inr ()
       \<and> map le_domino_id es = take (length es) (w_chain sum_workflow))"
proof -
  obtain r d' w' where r: "run (new_engine (tsdb_backend ''/t'') demo_cfg) sum_workflow (faulty_disk 5) no_world = (r, d', w')"
    by (metis prod_cases3)
  have n: "\<forall>n\<in>set (w_chain sum_workflow). tsdb_id n"
    using demo_id by (simp add: sum_workflow_def demo_workflow_def)
  have e: "ts_rows ''/t'' (faulty_disk 5) i = []" for i
    by (rule empty_disk_inv(4) [OF demo_dir]) (simp_all add: faulty_disk_def demo_disk_def clock_runs_def)
  show ?thesis using tsdb_run_keeps_history [OF demo_disk_inv(2) n sum_texts r] r e by fastforce
qed


section \<open>Interrupted calls\<close>

text \<open>What a call can do to the files, whatever fails.\<close>

lemma disk_fault_kept:
  "disk_write p b d = (r, d') \<Longrightarrow> dk_fault d' = dk_fault d"
  "disk_mkdirs p d = (r, d') \<Longrightarrow> dk_fault d' = dk_fault d"
  using disk_writeD [of p b d r d'] disk_mkdirsD [of p d r d'] by auto

lemma disk_write_file:
  assumes "disk_write p b d = (r, d')"
  shows "r = Inr () \<and> file_at d' = (file_at d)(path_comps p \<mapsto> b)
    \<or> (\<exists>e. r = Inl e) \<and> (file_at d' = file_at d \<or> (\<exists>n. file_at d' = (file_at d)(path_comps p \<mapsto> cut_short n b)))"
  using disk_writeD [OF assms] by fastforce

lemma ts_save_snapshot_files:
  assumes "ts_save_snapshot dir i ts data sealed d = (u, d')"
  shows "dk_fault d' = dk_fault d" and "file_at d' = file_at d
    \<or> (\<exists>body now q d2 d3. snapshot_record_json \<lparr>srec_snapshot_id = i, srec_time_slice = ts, srec_data = '''',
          srec_sealed = sealed, srec_created_at = now\<rparr> = Inr body
        \<and> file_at d2 = file_at d \<and> dk_fault d2 = dk_fault d \<and> disk_write (snapshot_path dir i) body d2 = (q, d3)
        \<and> (if q = Inr () then disk_write (snapshot_data_path dir i) data d3 = (u, d') else d' = d3))"
proof -
  obtain g d1 where g: "ts_get_snapshot dir i d = (g, d1)" by fastforce
  obtain now d2 where now: "disk_now d1 = (now, d2)" by fastforce
  have f: "file_at d1 = file_at d" "file_at d2 = file_at d" "dk_fault d1 = dk_fault d" "dk_fault d2 = dk_fault d"
    using ts_get_snapshot_laws(1) [OF g] now by (auto simp: idle_def disk_now_def)
  define rec where "rec = \<lparr>srec_snapshot_id = i, srec_time_slice = ts, srec_data = '''', srec_sealed = sealed, srec_created_at = now\<rparr>"
  let ?files = "file_at d' = file_at d \<or> (\<exists>body now q d2 d3. snapshot_record_json \<lparr>srec_snapshot_id = i, srec_time_slice = ts,
      srec_data = '''', srec_sealed = sealed, srec_created_at = now\<rparr> = Inr body
    \<and> file_at d2 = file_at d \<and> dk_fault d2 = dk_fault d \<and> disk_write (snapshot_path dir i) body d2 = (q, d3)
    \<and> (if q = Inr () then disk_write (snapshot_data_path dir i) data d3 = (u, d') else d' = d3))"
  have "dk_fault d' = dk_fault d \<and> ?files"
  proof (cases "refuse_sealed_mutation g ts data sealed = Inr () \<and> \<not> (case g of Inr (_, _, b) \<Rightarrow> b | Inl _ \<Rightarrow> False)
      \<and> (\<exists>body. snapshot_record_json rec = Inr body)")
    case False
    then show ?thesis using assms g now f
      by (auto simp: ts_save_snapshot_def rec_def [symmetric] split: sum.splits if_splits)
  next
    case True
    then obtain body where body: "snapshot_record_json rec = Inr body" by blast
    obtain q d3 where q: "disk_write (snapshot_path dir i) body d2 = (q, d3)" by fastforce
    have "(u, d') = (case q of Inl e \<Rightarrow> (Inl e, d3) | Inr _ \<Rightarrow> disk_write (snapshot_data_path dir i) data d3)"
      using assms g now True body q by (simp add: ts_save_snapshot_def rec_def [symmetric] split: sum.splits)
    then have "if q = Inr () then disk_write (snapshot_data_path dir i) data d3 = (u, d') else d' = d3"
      by (cases q) auto
    then show ?thesis using body q f(2,4) disk_fault_kept(1) [OF q] disk_fault_kept(1) [of "snapshot_data_path dir i" data d3]
      unfolding rec_def by (metis (full_types))
  qed
  then show "dk_fault d' = dk_fault d" ?files by blast+
qed

lemma ts_save_memo_files:
  assumes "ts_save_memo dir r d = (u, d')"
  defines "k \<equiv> path_comps (memo_path dir (re_snapshot_id r) (re_domino_id r) (re_input_hash r))"
  shows "dk_fault d' = dk_fault d \<and> (file_at d' = file_at d \<or> (\<exists>m body. memo_record_json m = Inr body
    \<and> (u = Inr () \<and> file_at d' = (file_at d)(k \<mapsto> body)
       \<or> (\<exists>e n. u = Inl e \<and> file_at d' = (file_at d)(k \<mapsto> cut_short n body)))))"
proof -
  let ?p = "memo_path dir (re_snapshot_id r) (re_domino_id r) (re_input_hash r)"
  obtain q d1 where q: "disk_read ?p d = (q, d1)" by fastforce
  obtain now d2 where now: "disk_now d1 = (now, d2)" by fastforce
  have f: "file_at d1 = file_at d" "file_at d2 = file_at d" "dk_fault d1 = dk_fault d" "dk_fault d2 = dk_fault d"
    using disk_read_idle [OF q] now by (auto simp: idle_def disk_now_def)
  define m where "m = \<lparr>mrec_snapshot_id = re_snapshot_id r, mrec_domino_id = re_domino_id r,
    mrec_input_hash = re_input_hash r, mrec_output_hash = re_output_hash r, mrec_output = re_output r, mrec_created_at = now\<rparr>"
  obtain v d3 where v: "disk_mkdirs (path_dir ?p) d2 = (v, d3)" by fastforce
  have f3: "file_at d3 = file_at d" "dk_fault d3 = dk_fault d" using disk_mkdirsD [OF v] f by auto
  show ?thesis
  proof (cases "(\<exists>e. q = Inl e \<and> os_is_not_exist e) \<and> (\<exists>body. memo_record_json m = Inr body) \<and> v = Inr ()")
    case False
    then have "d' = d1 \<or> d' = d2 \<or> d' = d3"
      using assms(1) q now v by (cases v) (auto simp: ts_save_memo_def Let_def m_def [symmetric] split: sum.splits if_splits)
    then show ?thesis using f f3 by auto
  next
    case True
    then obtain body where body: "memo_record_json m = Inr body" by blast
    have "disk_write ?p body d3 = (u, d')"
      using assms(1) q now v body True by (auto simp: ts_save_memo_def Let_def m_def [symmetric])
    from disk_write_file [OF this] disk_fault_kept(1) [OF this] show ?thesis unfolding f3 k_def using body by blast
  qed
qed

lemma ts_save_replay_files:
  assumes "ts_save_replay dir r d = (u, d')"
  shows "dk_fault d' = dk_fault d \<and> (file_at d' = file_at d \<or> (\<exists>rec body nanos. replay_record_json rec = Inr body \<and> 8 \<le> length (re_input_hash r)
    \<and> (let k = path_comps (path_join [dir, ''replay'', replay_name nanos (re_domino_id r) (re_input_hash r)]) in
       u = Inr () \<and> file_at d' = (file_at d)(k \<mapsto> body)
       \<or> (\<exists>e n. u = Inl e \<and> file_at d' = (file_at d)(k \<mapsto> cut_short n body)))))"
proof -
  obtain now d1 where now: "disk_now d = (now, d1)" by fastforce
  obtain nanos d2 where nanos: "disk_now d1 = (nanos, d2)" by fastforce
  have f: "file_at d1 = file_at d" "file_at d2 = file_at d" "dk_fault d1 = dk_fault d" "dk_fault d2 = dk_fault d"
    using now nanos by (auto simp: disk_now_def)
  define rec where "rec = \<lparr>rrec_snapshot_id = re_snapshot_id r, rrec_domino_id = re_domino_id r,
    rrec_input_hash = re_input_hash r, rrec_output_hash = re_output_hash r, rrec_reused = re_reused r,
    rrec_output = re_output r, rrec_prev_link = re_prev_link r, rrec_link = re_link r, rrec_created_at = now\<rparr>"
  show ?thesis
  proof (cases "(\<exists>body. replay_record_json rec = Inr body) \<and> 8 \<le> length (re_input_hash r)")
    case False
    then have "d' = d1 \<or> d' = d2"
      using assms now nanos by (auto simp: ts_save_replay_def rec_def [symmetric] split: sum.splits if_splits)
    then show ?thesis using f by auto
  next
    case True
    then obtain body where body: "replay_record_json rec = Inr body" by blast
    have "disk_write (path_join [dir, ''replay'', replay_name nanos (re_domino_id r) (re_input_hash r)]) body d2 = (u, d')"
      using assms now nanos body True by (auto simp: ts_save_replay_def rec_def [symmetric])
    from disk_write_file [OF this] disk_fault_kept(1) [OF this] show ?thesis unfolding f Let_def using body True by blast
  qed
qed

lemma cut_short_prefix: "b \<noteq> '''' \<Longrightarrow> strict_prefix (cut_short n b) b"
proof -
  assume "b \<noteq> ''''"
  then obtain k where k: "cut_short n b = take k b" "k < length b" using cut_short_take by blast
  then have "length (cut_short n b) < length b" by simp
  then show ?thesis unfolding strict_prefix_def k(1) by (metis k(1) less_irrefl take_is_prefix)
qed

text \<open>
  C10 An interrupted seal is final.  When saving a sealed snapshot fails after its metadata has
  been written, the snapshot is sealed over a proper prefix of its data (\<open>GetSnapshot\<close> returns it
  as sealed), and in every later state that kept it, saving the full data again is refused.
\<close>

theorem interrupted_seal_is_final:
  assumes "tsdb_inv dir d" "tsdb_id i" "valid_utf8 ts" "payload \<noteq> ''''"
    and "snapshot_at dir d i = None" "sidecar dir d i = ''''"
    and "ts_save_snapshot dir i ts payload True d = (Inl e, d')" "snapshot_at dir d' i \<noteq> None"
  shows "\<exists>b. strict_prefix b payload \<and> ts_snap dir d' i = Some (ts, b, True)
    \<and> (\<forall>d2 u d3. tsdb_inv dir d2 \<longrightarrow> ts_snap dir d2 i = ts_snap dir d' i \<longrightarrow>
          ts_save_snapshot dir i ts payload True d2 = (u, d3) \<longrightarrow> u \<noteq> Inr () \<and> ts_snap dir d3 i = Some (ts, b, True))"
proof -
  note pc = comps_paths(1,2) [OF tsdb_inv_dir [OF assms(1)] tsdb_id_plain(2) [OF assms(2)]]
  have at: "snapshot_at dir e1 i = (case file_at e1 (place dir [''snapshots'', i @ ''.json'']) of None \<Rightarrow> None
      | Some b \<Rightarrow> (case unmarshal_into snapshot_record_of b of Inl _ \<Rightarrow> None | Inr r \<Rightarrow> Some r))" for e1
    by (simp add: snapshot_at_def stored_def)
  from ts_save_snapshot_files(2) [OF assms(7)] assms(5,8) obtain body now q d2 d3 where
    body: "snapshot_record_json \<lparr>srec_snapshot_id = i, srec_time_slice = ts, srec_data = '''', srec_sealed = True, srec_created_at = now\<rparr> = Inr body"
    and f: "file_at d2 = file_at d" and q: "disk_write (snapshot_path dir i) body d2 = (q, d3)"
    and w: "if q = Inr () then disk_write (snapshot_data_path dir i) payload d3 = (Inl e, d') else d' = d3"
    by (auto simp: at)
  note full = record_stored(1) [OF body] and torn = record_torn(1) [OF body]
  have q': "q = Inr ()"
  proof (rule ccontr)
    assume "q \<noteq> Inr ()"
    then have "file_at d' = file_at d \<or> (\<exists>n. file_at d' = (file_at d)(place dir [''snapshots'', i @ ''.json''] \<mapsto> cut_short n body))"
      using disk_write_file [OF q] w pc f by simp
    then show False
    proof
      assume "file_at d' = file_at d"
      then show False using assms(5,8) by (simp add: at)
    next
      assume "\<exists>n. file_at d' = (file_at d)(place dir [''snapshots'', i @ ''.json''] \<mapsto> cut_short n body)"
      then obtain n where n: "file_at d' = (file_at d)(place dir [''snapshots'', i @ ''.json''] \<mapsto> cut_short n body)" by blast
      obtain er where "unmarshal_into snapshot_record_of (cut_short n body) = Inl er" using torn by blast
      with n show False using assms(8) by (simp add: at)
    qed
  qed
  then have f3: "file_at d3 = (file_at d)(place dir [''snapshots'', i @ ''.json''] \<mapsto> body)" using disk_write_file [OF q] f pc by simp
  from q' w disk_write_file [of "snapshot_data_path dir i" payload d3 "Inl e" d'] pc
  have f': "file_at d' = file_at d3 \<or> (\<exists>n. file_at d' = (file_at d3)(place dir [''snapshots'', i @ ''.data.json''] \<mapsto> cut_short n payload))"
    by simp
  have ne: "i @ ''.data.json'' \<noteq> i @ ''.json''" by simp
  have "snapshot_at dir d' i = Some (sane_snapshot \<lparr>srec_snapshot_id = i, srec_time_slice = ts, srec_data = '''', srec_sealed = True, srec_created_at = now\<rparr>)"
    using f' f3 full ne by (auto simp: at)
  then have s: "ts_snap dir d' i = Some (ts, sidecar dir d' i, True)"
    using assms(2,3) by (simp add: ts_snap_def sane_snapshot_def sanitize_valid)
  have "sidecar dir d' i = '''' \<or> (\<exists>n. sidecar dir d' i = cut_short n payload)"
    using f' f3 assms(6) by (auto simp: sidecar_def)
  then have b: "strict_prefix (sidecar dir d' i) payload"
    using cut_short_prefix [OF assms(4)] assms(4) by (metis strict_prefix_simps(2) neq_Nil_conv)
  have "u \<noteq> Inr () \<and> ts_snap dir d5 i = Some (ts, sidecar dir d' i, True)"
    if "tsdb_inv dir d4" "ts_snap dir d4 i = ts_snap dir d' i" "ts_save_snapshot dir i ts payload True d4 = (u, d5)" for d4 u d5
    using ts_save_snapshot_laws(2,3) [OF that(1) assms(2) that(3)] that(2) s assms(3) b by auto
  then show ?thesis using s b by blast
qed

lemma butlast_place [simp]: "cs \<noteq> [] \<Longrightarrow> butlast (place dir cs) = place dir (butlast cs)"
  by (simp add: place_def butlast_append)

lemma early_times: "four_digit_year 0 \<and> four_digit_year 1 \<and> four_digit_year 2 \<and> four_digit_year 3"
  by code_simp

lemma demo_disk_file: "file_at demo_disk k = None" "file_at (faulty_disk n) k = None" "\<not> below_file (faulty_disk n) k"
  "set (dk_dirs (faulty_disk n)) = {place ''/t'' [''snapshots''], place ''/t'' [''memo''], place ''/t'' [''replay'']}"
  by (simp_all add: file_at_def demo_disk_def faulty_disk_def below_file_def list_ex_iff)

lemma demo_ticks: "dk_tick (faulty_disk n) = 0" "dk_clock (faulty_disk n) = int"
    "dk_fault (faulty_disk n) m = (if m = n then Some (''no space left on device'', Some 2) else None)"
  by (simp_all add: faulty_disk_def demo_disk_def)

lemma demo_comps:
  "path_comps (snapshot_path ''/t'' ''i'') = place ''/t'' [''snapshots'', ''i.json'']"
  "path_comps (snapshot_data_path ''/t'' ''i'') = place ''/t'' [''snapshots'', ''i.data.json'']"
  using comps_paths(1,2) [OF demo_dir, of "''i''"] by simp_all

lemma interrupted_seal_is_final_witness:
  "case ts_save_snapshot ''/t'' ''i'' ''t'' ''{}'' True (faulty_disk 3) of (u, d') \<Rightarrow>
     (\<exists>e. u = Inl e) \<and> (\<exists>b. strict_prefix b ''{}'' \<and> ts_snap ''/t'' d' ''i'' = Some (''t'', b, True))"
proof -
  obtain body where body: "snapshot_record_json \<lparr>srec_snapshot_id = ''i'', srec_time_slice = ''t'', srec_data = '''',
      srec_sealed = True, srec_created_at = 1\<rparr> = Inr body"
    using early_times by (simp add: record_json)
  let ?d = "put_file (place ''/t'' [''snapshots'', ''i.json'']) body (disk_step (disk_step (disk_step (faulty_disk 3))))"
  have e: "ts_save_snapshot ''/t'' ''i'' ''t'' ''{}'' True (faulty_disk 3) = (Inl (io_err ''no space left on device''),
      put_file (place ''/t'' [''snapshots'', ''i.data.json'']) (cut_short 2 ''{}'') (disk_step ?d))"
    using body by (simp add: ts_save_snapshot_def ts_get_snapshot_def disk_read_def demo_comps demo_ticks demo_disk_file absent_def
        path_error_def refuse_sealed_mutation_def not_found_def is_no_rows_def errors_is_not_exist_def disk_now_def
        disk_write_def Let_def)
  have n: "snapshot_at ''/t'' (faulty_disk 3) ''i'' = None" "sidecar ''/t'' (faulty_disk 3) ''i'' = ''''"
    by (simp_all add: snapshot_at_def stored_def sidecar_def demo_disk_file)
  have s: "snapshot_at ''/t'' (put_file (place ''/t'' [''snapshots'', ''i.data.json'']) (cut_short 2 ''{}'') (disk_step ?d)) ''i'' \<noteq> None"
    using record_stored(1) [OF body] by (simp add: snapshot_at_def stored_put stored_def)
  have "valid_utf8 ''t''" by (simp add: valid_utf8_ascii byte_in_def)
  from interrupted_seal_is_final [OF demo_disk_inv(2) demo_id(2) this _ n e s] e show ?thesis by auto
qed


text \<open>A result to record on the demo disks.\<close>

definition demo_row :: "bool \<Rightarrow> replay_row" where
  "demo_row b = \<lparr>re_snapshot_id = ''i'', re_domino_id = ''a'', re_input_hash = ''00000000'', re_output_hash = ''h'',
     re_output = ''{}'', re_reused = b, re_prev_link = '''', re_link = ''''\<rparr>"

lemma demo_hash: "tsdb_hash ''00000000''"
  by (simp add: tsdb_hash_def valid_utf8_ascii byte_in_def)

lemma demo_memo_comps: "path_comps (memo_path ''/t'' ''i'' ''a'' ''00000000'') = place ''/t'' [''memo'', ''i'', ''a'', ''00000000.json'']"
  using comps_paths(3) [OF demo_dir demo_id(2,1) demo_hash] by simp


lemma read_replays_torn:
  assumes "store_dir dir" "n \<in> set ns" "plain_comp n" "file_at d (place dir [''replay'', n]) = Some b"
    and "unmarshal_into replay_record_of b = Inl e"
  shows "\<exists>e. fst (read_replays dir i ns d) = Inl e"
  using assms(2,4)
proof (induction ns arbitrary: d)
  case (Cons m ns)
  obtain r d1 where r: "disk_read (path_join [path_join [dir, ''replay''], m]) d = (r, d1)" by fastforce
  have f: "file_at d1 = file_at d" using disk_read_idle [OF r] by (simp add: idle_def)
  show ?case
  proof (cases "m = n")
    case True
    have "r = Inr b \<or> (\<exists>e. r = Inl e)"
      using disk_readD(2) [OF r] comps_paths(6) [OF assms(1,3)] Cons.prems(2) True by (cases r) auto
    then show ?thesis using r assms(5) by auto
  next
    case False
    obtain l d2 where l: "read_replays dir i ns d1 = (l, d2)" by fastforce
    have "\<exists>e. l = Inl e" using Cons.IH [of d1] Cons.prems False f l by auto
    then show ?thesis using r l by (auto split: sum.splits)
  qed
qed simp

text \<open>
  C21 A replay row cut short blocks every listing.  When recording a result fails after some of
  its row has been written, then in every later state that holds that file the replay of no
  snapshot can be listed, and no latest result or output can be read.
\<close>

theorem torn_row_blocks_replay:
  assumes "ts_save_replay dir r d = (Inl e, d')"
    and "file_at d' (place dir [''replay'', n]) \<noteq> file_at d (place dir [''replay'', n])"
    and "tsdb_inv dir d2" "file_at d2 (place dir [''replay'', n]) = file_at d' (place dir [''replay'', n])"
  shows "(\<exists>e. fst (ts_list_replay dir i d2) = Inl e) \<and> (\<exists>e. fst (ts_get_latest dir i x d2) = Inl e)
    \<and> (\<exists>e. fst (ts_get_domino_output dir i x d2) = Inl e)"
proof -
  note dir = tsdb_inv_dir [OF assms(3)]
  from ts_save_replay_files [OF assms(1)] assms(2) obtain rec body m where
    rec: "replay_record_json rec = Inr body" "file_at d' (place dir [''replay'', n]) = Some (cut_short m body)"
    by (auto simp: Let_def split: if_splits)
  obtain er where er: "unmarshal_into replay_record_of (cut_short m body) = Inl er" using record_torn(3) [OF rec(1)] by blast
  have f: "file_at d2 (place dir [''replay'', n]) = Some (cut_short m body)" using rec assms(4) by simp
  have n: "plain_comp n" using assms(3) f by (auto simp: tsdb_inv_def replay_named_def)
  obtain l d3 where l: "disk_list (path_join [dir, ''replay'']) d2 = (l, d3)" by fastforce
  have d3: "d3 = disk_step d2" using l by (auto simp: disk_list_def)
  have "\<exists>e. fst (ts_list_replay dir i d2) = Inl e" for i
  proof (cases l)
    case (Inr ns)
    then have "ns = names_in d2 (place dir [''replay''])"
      using l comps_paths(4) [OF dir] by (auto simp: disk_list_def split: option.splits if_splits)
    then have "n \<in> set ns" using f by (simp add: set_names_in place_def)
    then obtain e where "fst (read_replays dir i ns d3) = Inl e"
      using read_replays_torn [OF dir _ n _ er, of ns d3 i] f d3 by auto
    then show ?thesis using l Inr by (cases "read_replays dir i ns d3") (auto simp: ts_list_replay_def)
  qed (simp add: ts_list_replay_def l)
  then obtain e where e: "fst (ts_list_replay dir i d2) = Inl e" by blast
  then show ?thesis by (cases "ts_list_replay dir i d2") (auto simp: ts_get_latest_def ts_get_domino_output_def)
qed

lemma torn_row_blocks_replay_witness:
  "case ts_save_result ''/t'' (demo_row True) (faulty_disk 2) of (u, d') \<Rightarrow>
     (\<exists>e. u = Inl e) \<and> (\<exists>e. fst (ts_list_replay ''/t'' ''j'' d') = Inl e) \<and> (\<exists>e. fst (ts_get_latest ''/t'' ''j'' ''a'' d') = Inl e)"
proof -
  obtain body where body: "replay_record_json \<lparr>rrec_snapshot_id = ''i'', rrec_domino_id = ''a'', rrec_input_hash = ''00000000'',
      rrec_output_hash = ''h'', rrec_reused = True, rrec_output = ''{}'', rrec_prev_link = '''', rrec_link = '''',
      rrec_created_at = 0\<rparr> = Inr body"
    using early_times by (simp add: record_json)
  define n where "n = replay_name 1 ''a'' ''00000000''"
  let ?k = "place ''/t'' [''replay'', n]"
  have "plain_comp n" unfolding n_def by (rule replay_name_plain) (simp_all add: demo_id demo_hash)
  then have pc: "path_comps (path_join [''/t'', ''replay'', n]) = ?k" by (rule comps_paths(5) [OF demo_dir])
  let ?d' = "put_file ?k (cut_short 2 body) (disk_step (disk_step (disk_step (faulty_disk 2))))"
  have e: "ts_save_replay ''/t'' (demo_row True) (faulty_disk 2) = (Inl (io_err ''no space left on device''), ?d')"
    using body by (simp add: ts_save_replay_def demo_row_def disk_now_def demo_ticks n_def [symmetric] disk_write_def pc
        Let_def demo_disk_file)
  have inv: "tsdb_inv ''/t'' ?d'"
    by (rule ts_save_replay_laws(1) [OF demo_disk_inv(2) _ _ _ e]) (simp_all add: demo_row_def demo_id demo_hash)
  have "file_at ?d' ?k \<noteq> file_at (faulty_disk 2) ?k" by (simp add: demo_disk_file)
  from torn_row_blocks_replay [OF e this inv refl, of "''j''" "''a''"] show ?thesis
    using e by (simp add: ts_save_result_def demo_row_def)
qed


end
