(* ===== verification/TsdbClient.thy ===== *)
theory TsdbClient
  imports TsdbHttp TsdbRuns
begin

text \<open>
  The client over the server over the engine: what a call of \<open>TSDBClient\<close> comes to once the
  request, the handler and the answer are taken together, and the proof that the client is a
  store in the sense of \<open>store_laws\<close> as long as no answer is lost and no write is cut short.
\<close>


section \<open>Escaped paths\<close>

lemma upper_hex_digit:
  assumes "n < 16"
  shows "hex_val (upper_hex n) = Some n" "upper_hex n \<noteq> CHR ''/''"
proof -
  have n: "n = of_char (char_of n :: char)" "48 + n < 256" "55 + n < 256" using assms by simp_all
  have v: "(of_char (upper_hex n) :: nat) = (if n < 10 then 48 + n else 55 + n)" using n by (simp add: upper_hex_def)
  then show "hex_val (upper_hex n) = Some n" using assms by (simp add: hex_val_def Let_def)
  have "(of_char (upper_hex n) :: nat) \<noteq> of_char (CHR ''/'')" using v by simp
  then show "upper_hex n \<noteq> CHR ''/''" by fastforce
qed

lemma path_unescape_plain: "c \<noteq> CHR 0x25 \<Longrightarrow> path_unescape (c # s) = c # path_unescape s"
  by (cases s rule: path_unescape.cases) auto

lemma path_unescape_escape_char: "path_unescape (escape_char c @ s) = c # path_unescape s"
proof (cases "path_char c")
  case True
  then have "c \<noteq> CHR 0x25" by (auto simp: path_char_def byte_in_def)
  then show ?thesis using True by (simp add: escape_char_def path_unescape_plain)
next
  case False
  have "(of_char c :: nat) div 16 < 16" "(of_char c :: nat) mod 16 < 16" using of_char_lt [of c] by (simp_all add: less_mult_imp_div_less)
  moreover have "char_of (16 * ((of_char c :: nat) div 16) + of_char c mod 16) = c" by (simp only: mult_div_mod_eq char_of_char)
  ultimately show ?thesis using False by (simp add: escape_char_def upper_hex_digit(1))
qed

lemma path_unescape_escape: "path_unescape (path_escape i @ s) = i @ path_unescape s"
  by (induction i) (simp_all add: path_escape_def path_unescape_escape_char)

lemma path_unescape_fixed: "CHR 0x25 \<notin> set p \<Longrightarrow> path_unescape (p @ s) = p @ path_unescape s"
  by (induction p) (auto simp: path_unescape_plain)

lemma path_escape_slash: "CHR ''/'' \<notin> set (path_escape i)"
proof -
  have "CHR ''/'' \<notin> set (escape_char c)" for c
  proof -
    have "(of_char c :: nat) div 16 < 16" "(of_char c :: nat) mod 16 < 16"
      using of_char_lt [of c] by (simp_all add: less_mult_imp_div_less)
    then have "upper_hex (of_char c div 16) \<noteq> CHR ''/''" "upper_hex (of_char c mod 16) \<noteq> CHR ''/''"
      using upper_hex_digit(2) by blast+
    then show ?thesis by (auto simp: escape_char_def path_char_def byte_in_def)
  qed
  then show ?thesis by (simp add: path_escape_def)
qed

lemma path_escape_plain:
  assumes "plain_comp i"
  shows "plain_comp (path_escape i)"
proof -
  have u: "path_unescape (path_escape i) = i" using path_unescape_escape [of i "[]"] by simp
  have "path_escape i \<noteq> ''''" "path_escape i \<noteq> ''.''" "path_escape i \<noteq> ''..''"
    using assms u by (auto simp: plain_comp_def)
  then show ?thesis using path_escape_slash by (simp add: plain_comp_def)
qed

lemma last_join:
  assumes "cs \<noteq> []" "last cs \<noteq> []"
  shows "join_with sep cs \<noteq> [] \<and> last (join_with sep cs) = last (last cs)"
  using assms
proof (induction sep cs rule: join_with.induct)
  case (3 sep c d cs)
  then show ?case by (auto simp: last_append)
qed simp_all

text \<open>A path whose segments are plain needs no cleaning.\<close>

lemma clean_url_plain:
  assumes "list_all plain_comp cs" "cs \<noteq> []"
  shows "clean_url_path (CHR ''/'' # join_with ''/'' cs) = CHR ''/'' # join_with ''/'' cs"
proof -
  have f: "\<forall>x\<in>set cs. CHR ''/'' \<notin> set x" using assms(1) by (auto simp: list_all_iff plain_comp_def)
  have "split_on (CHR ''/'') (CHR ''/'' # join_with ''/'' cs) = [] # cs" using split_join [OF assms(2) f] by simp
  then have c: "path_clean (CHR ''/'' # join_with ''/'' cs) = CHR ''/'' # join_with ''/'' cs"
    using clean_comps_plain [OF assms(1)] by (simp add: path_clean_def)
  have "last (join_with ''/'' cs) \<noteq> CHR ''/'' \<and> join_with ''/'' cs \<noteq> []"
  proof -
    have "plain_comp (last cs)" using assms by (auto simp: list_all_iff)
    then have "last cs \<noteq> []" "last (last cs) \<noteq> CHR ''/''" by (auto simp: plain_comp_def dest: last_in_set)
    then show ?thesis using last_join [OF assms(2), of "''/''"] by simp
  qed
  then show ?thesis using c by (simp add: clean_url_path_def Let_def)
qed


section \<open>Bodies\<close>

lemma unmarshal_line:
  assumes "reads n t v" "n \<le> 10000"
  shows "json_unmarshal (t @ [CHR 0x0A]) = Inr v"
proof -
  have "json_val json_max_depth (t @ [CHR 0x0A]) = Some (v, [CHR 0x0A])"
    using assms unfolding reads_def json_max_depth_def by (metis of_nat_le_iff of_nat_numeral)
  then show ?thesis by (simp add: json_unmarshal_def skip_ws_def json_ws_def)
qed

lemma unmarshal_members_line:
  assumes "record_members ms"
  shows "unmarshal_into f (json_obj (member_texts ms) @ [CHR 0x0A]) = f (GMap (member_values ms))"
  using unmarshal_line [OF record_membersD(1) [OF assms]] by (simp add: unmarshal_into_def)

text \<open>The bodies the client sends.\<close>

definition save_members :: "string \<Rightarrow> string \<Rightarrow> string \<Rightarrow> bool \<Rightarrow> (string \<times> string \<times> gval) list" where
  "save_members i ts data sealed =
     [str_member ''data'' data, bool_member ''sealed'' sealed, str_member ''snapshot_id'' i, str_member ''time_slice'' ts]"

definition row_members :: "replay_row \<Rightarrow> (string \<times> string \<times> gval) list" where
  "row_members r =
     [str_member ''domino_id'' (re_domino_id r), str_member ''input_hash'' (re_input_hash r), str_member ''link'' (re_link r),
      str_member ''output'' (re_output r), str_member ''output_hash'' (re_output_hash r),
      str_member ''prev_link'' (re_prev_link r), bool_member ''reused'' (re_reused r),
      str_member ''snapshot_id'' (re_snapshot_id r)]"

definition entry_members :: "replay_row \<Rightarrow> (string \<times> string \<times> gval) list" where
  "entry_members r =
     [str_member ''snapshot_id'' (re_snapshot_id r), str_member ''domino_id'' (re_domino_id r),
      str_member ''input_hash'' (re_input_hash r), str_member ''output_hash'' (re_output_hash r),
      str_member ''output'' (re_output r), bool_member ''reused'' (re_reused r)]
     @ opt_member ''prev_link'' (re_prev_link r) @ opt_member ''link'' (re_link r)"

definition latest_members :: "string \<Rightarrow> string \<Rightarrow> string \<Rightarrow> (string \<times> string \<times> gval) list" where
  "latest_members ih oh out = [str_member ''input_hash'' ih, str_member ''output'' out, str_member ''output_hash'' oh]"

lemmas body_members = save_members_def row_members_def entry_members_def latest_members_def

lemma body_members_ok:
  "record_members (save_members i ts data sealed)" "record_members (row_members r)" "record_members (entry_members r)"
  "record_members (latest_members ih oh out)"
  by (auto simp: record_members_def body_members member_defs record_keys_def reads_str_member)

definition sane_row :: "replay_row \<Rightarrow> replay_row" where
  "sane_row r = \<lparr>re_snapshot_id = sanitize (re_snapshot_id r), re_domino_id = sanitize (re_domino_id r),
     re_input_hash = sanitize (re_input_hash r), re_output_hash = sanitize (re_output_hash r),
     re_output = sanitize (re_output r), re_reused = re_reused r, re_prev_link = sanitize (re_prev_link r),
     re_link = sanitize (re_link r)\<rparr>"

lemmas body_fields = in_record_keys [THEN record_membersD(2) [OF body_members_ok(1)]]
  in_record_keys [THEN record_membersD(2) [OF body_members_ok(2)]]
  in_record_keys [THEN record_membersD(2) [OF body_members_ok(3)]]
  in_record_keys [THEN record_membersD(2) [OF body_members_ok(4)]]

lemma body_decoded:
  "save_request_of (GMap (member_values (save_members i ts data sealed))) = Inr (sanitize i, sanitize ts, sanitize data, sealed)"
  "replay_entry_of (GMap (member_values (row_members r))) = Inr (sane_row r)"
  "replay_entry_of (GMap (member_values (entry_members r))) = Inr (sane_row r)"
  "latest_of (GMap (member_values (latest_members ih oh out))) = Inr (sanitize ih, sanitize oh, sanitize out)"
  by (simp_all add: body_fields sane_row_def) (simp_all add: body_members member_defs)

text \<open>A list of objects.\<close>

lemma read_elems:
  assumes "fs \<noteq> []" "\<forall>(t, v)\<in>set fs. reads n t v \<and> (\<exists>u. t = CHR ''{'' # u)" "int n \<le> d"
  shows "json_elems d (join_with '','' (map fst fs) @ CHR '']'' # r) = Some (map snd fs, r)"
  using assms
proof (induction fs)
  case (Cons f fs)
  obtain t v where f: "f = (t, v)" by (cases f)
  have tv: "json_val d (t @ s) = Some (v, s)" for s using Cons.prems f by (auto simp: reads_def)
  show ?case
  proof (cases fs)
    case Nil
    then show ?thesis using tv by (subst json_elems.simps) (simp add: f expect_miss expect_hit json_ws_def)
  next
    case (Cons g gs)
    have j: "join_with '','' (map fst (f # fs)) @ CHR '']'' # r = t @ CHR '','' # (join_with '','' (map fst fs) @ CHR '']'' # r)"
      by (simp add: Cons f)
    have IH: "json_elems d (join_with '','' (map fst fs) @ CHR '']'' # r) = Some (map snd fs, r)"
      by (rule Cons.IH) (use Cons Cons.prems in auto)
    show ?thesis unfolding j using tv IH by (subst json_elems.simps) (simp add: f expect_hit json_ws_def)
  qed
qed simp

lemma reads_arr:
  assumes "\<forall>(t, v)\<in>set fs. reads n t v \<and> (\<exists>u. t = CHR ''{'' # u)"
  shows "reads (Suc n) (json_arr (map fst fs)) (GArr (map snd fs))"
proof -
  have "json_val d (json_arr (map fst fs) @ r) = Some (GArr (map snd fs), r)" if d: "int (Suc n) \<le> d" for d r
  proof (cases fs)
    case Nil
    then show ?thesis using d by (simp add: json_val.simps json_arr_def skip_ws_Cons json_ws_def expect_hit)
  next
    case (Cons f fs')
    then obtain u where "fst f = CHR ''{'' # u" using assms by fastforce
    then obtain u' where u: "join_with '','' (map fst fs) @ CHR '']'' # r = CHR ''{'' # u'"
      using Cons by (cases fs') auto
    have "json_elems (d - 1) (join_with '','' (map fst fs) @ CHR '']'' # r) = Some (map snd fs, r)"
      by (rule read_elems) (use Cons assms d in auto)
    then show ?thesis using d u unfolding json_arr_def
      by (simp add: json_val.simps skip_ws_Cons json_ws_def expect_miss)
  qed
  then show ?thesis by (simp add: reads_def)
qed

lemma entry_json: "replay_entry_json r = json_obj (member_texts (entry_members r))"
  by (simp add: replay_entry_json_def member_texts_def entry_members_def member_defs omit_empty_def)

lemma all_of_map: "\<forall>x\<in>set xs. f (g x) = Inr (h x) \<Longrightarrow> all_of f (map g xs) = Inr (map h xs)"
  by (induction xs) simp_all

lemma entries_decoded:
  "unmarshal_into replay_list_of (json_arr (map replay_entry_json rs) @ [CHR 0x0A]) = Inr (map sane_row rs)"
proof -
  let ?f = "\<lambda>r. (replay_entry_json r, GMap (member_values (entry_members r)))"
  have "reads (Suc 1) (json_arr (map fst (map ?f rs))) (GArr (map snd (map ?f rs)))"
    by (rule reads_arr) (use record_membersD(1) [OF body_members_ok(3)] in \<open>auto simp: entry_json json_obj_def\<close>)
  then have "json_unmarshal (json_arr (map replay_entry_json rs) @ [CHR 0x0A]) = Inr (GArr (map (\<lambda>r. GMap (member_values (entry_members r))) rs))"
    using unmarshal_line [of "Suc 1" "json_arr (map replay_entry_json rs)"] by (simp add: comp_def)
  then show ?thesis
    using all_of_map [of rs replay_entry_of "\<lambda>r. GMap (member_values (entry_members r))" sane_row] body_decoded(3)
    by (simp add: unmarshal_into_def del: replay_entry_of.simps)
qed

section \<open>Exchanges\<close>

text \<open>The state after one exchange.\<close>

definition after :: "tsdb_link \<Rightarrow> disk \<Rightarrow> tsdb_link" where
  "after s d = s\<lparr>ln_disk := d, ln_tick := Suc (ln_tick s)\<rparr>"

definition line_up :: "tsdb_link \<Rightarrow> bool" where
  "line_up s \<longleftrightarrow> ln_fault s (ln_tick s) = None"

lemma send_answer:
  "line_up s \<Longrightarrow> serve dir rq (ln_disk s) = (Answer a, d1) \<Longrightarrow> send n dir rq s = (Inr a, after s d1)"
  by (simp add: send.simps exchange_def line_up_def after_def)

lemma send_aborted:
  "line_up s \<Longrightarrow> serve dir rq (ln_disk s) = (Aborted, d1) \<Longrightarrow> send n dir rq s = (Inl (io_err ''EOF''), after s d1)"
  by (simp add: send.simps exchange_def line_up_def after_def)

lemmas send_one = send_answer send_aborted

lemma serve_fixed:
  "hq_path rq = ''/v1/snapshots'' \<Longrightarrow> serve dir rq d = handle_save_snapshot dir rq d"
  "hq_path rq = ''/v1/memo'' \<Longrightarrow> serve dir rq d = handle_memo dir rq d"
  "hq_path rq = ''/v1/results'' \<Longrightarrow> serve dir rq d = handle_results dir rq d"
  "hq_path rq = ''/v1/replay'' \<Longrightarrow> serve dir rq d = handle_replay dir rq d"
  "hq_path rq = ''/healthz'' \<Longrightarrow> serve dir rq d = (http_ok ''ok'', d)"
proof -
  have "clean_url_path ''/v1/snapshots'' = ''/v1/snapshots''" "clean_url_path ''/v1/memo'' = ''/v1/memo''"
    "clean_url_path ''/v1/results'' = ''/v1/results''" "clean_url_path ''/v1/replay'' = ''/v1/replay''"
    "clean_url_path ''/healthz'' = ''/healthz''"
    using clean_url_plain [of "[''v1'', ''snapshots'']"] clean_url_plain [of "[''v1'', ''memo'']"]
      clean_url_plain [of "[''v1'', ''results'']"] clean_url_plain [of "[''v1'', ''replay'']"] clean_url_plain [of "[''healthz'']"]
    by (simp_all add: plain_comp_def)
  then show "hq_path rq = ''/v1/snapshots'' \<Longrightarrow> serve dir rq d = handle_save_snapshot dir rq d"
    "hq_path rq = ''/v1/memo'' \<Longrightarrow> serve dir rq d = handle_memo dir rq d"
    "hq_path rq = ''/v1/results'' \<Longrightarrow> serve dir rq d = handle_results dir rq d"
    "hq_path rq = ''/v1/replay'' \<Longrightarrow> serve dir rq d = handle_replay dir rq d"
    "hq_path rq = ''/healthz'' \<Longrightarrow> serve dir rq d = (http_ok ''ok'', d)"
    by (simp_all add: serve_def Let_def has_prefix_def)
qed

lemma serve_snapshot:
  assumes "plain_comp i" "hq_method rq = ''GET''"
  shows "hq_path rq = ''/v1/snapshots/'' @ path_escape i \<Longrightarrow> serve dir rq d =
      (case ts_get_snapshot dir i d of
          (Inl e, d1) \<Rightarrow> (http_not_found, d1)
        | (Inr (ts, data, sealed), d1) \<Rightarrow>
            (write_json (snapshot_record_json \<lparr>srec_snapshot_id = i, srec_time_slice = ts, srec_data = data,
               srec_sealed = sealed, srec_created_at = zero_time\<rparr>), d1))"
    and "hq_path rq = ''/v1/snapshots/'' @ path_escape i @ ''/data'' \<Longrightarrow> serve dir rq d =
      (case ts_open_data dir i d of
            (Inl e, d1) \<Rightarrow> (http_not_found, d1)
          | (Inr (data, sealed), d1) \<Rightarrow>
              if \<not> sealed then (http_error ''snapshot not sealed'' 409, d1) else (http_ok data, d1))"
proof -
  have i: "i \<noteq> ''''" "CHR ''/'' \<notin> set i" "\<not> has_suffix i ''/data''" using assms(1) by (auto simp: plain_comp_def has_suffix_iff)
  have c: "clean_url_path (''/v1/snapshots/'' @ path_escape i) = ''/v1/snapshots/'' @ path_escape i"
    "clean_url_path (''/v1/snapshots/'' @ path_escape i @ ''/data'') = ''/v1/snapshots/'' @ path_escape i @ ''/data''"
    using clean_url_plain [of "[''v1'', ''snapshots'', path_escape i]"]
      clean_url_plain [of "[''v1'', ''snapshots'', path_escape i, ''data'']"] path_escape_plain [OF assms(1)]
    by (simp_all add: plain_comp_def)
  have u: "path_unescape (''/v1/snapshots/'' @ path_escape i) = ''/v1/snapshots/'' @ i"
    "path_unescape (''/v1/snapshots/'' @ path_escape i @ ''/data'') = ''/v1/snapshots/'' @ i @ ''/data''"
    using path_unescape_fixed [of "''/v1/snapshots/''"] path_unescape_escape [of i] path_unescape_escape [of i "[]"]
    by (simp_all add: path_unescape_plain)
  have t: "trim_suffix (trim_suffix (i @ ''/data'') ''/data'') ''/'' = i"
    using i(2) by (auto simp: trim_suffix_def has_suffix_iff)
  show "hq_path rq = ''/v1/snapshots/'' @ path_escape i \<Longrightarrow> serve dir rq d =
      (case ts_get_snapshot dir i d of
          (Inl e, d1) \<Rightarrow> (http_not_found, d1)
        | (Inr (ts, data, sealed), d1) \<Rightarrow>
            (write_json (snapshot_record_json \<lparr>srec_snapshot_id = i, srec_time_slice = ts, srec_data = data,
               srec_sealed = sealed, srec_created_at = zero_time\<rparr>), d1))"
    using c(1) u(1) i assms(2) by (simp add: serve_def Let_def has_prefix_def handle_get_snapshot_def trim_prefix_def)
  show "hq_path rq = ''/v1/snapshots/'' @ path_escape i @ ''/data'' \<Longrightarrow> serve dir rq d =
      (case ts_open_data dir i d of
            (Inl e, d1) \<Rightarrow> (http_not_found, d1)
          | (Inr (data, sealed), d1) \<Rightarrow>
              if \<not> sealed then (http_error ''snapshot not sealed'' 409, d1) else (http_ok data, d1))"
    using c(2) u(2) i t assms(2) by (simp add: serve_def Let_def has_prefix_def handle_get_snapshot_def trim_prefix_def)
qed



lemma serve_latest:
  assumes "plain_comp i" "plain_comp x" "hq_method rq = ''GET''"
    and "hq_path rq = ''/v1/latest-results/'' @ path_escape i @ ''/'' @ path_escape x"
  shows "serve dir rq d = (case ts_get_latest dir i x d of
      (Inl e, d1) \<Rightarrow> (http_not_found, d1)
    | (Inr (ih, oh, out), d1) \<Rightarrow> (http_ok (json_obj (member_texts (latest_members ih oh out)) @ [CHR 0x0A]), d1))"
proof -
  have f: "CHR ''/'' \<notin> set i" "CHR ''/'' \<notin> set x" using assms(1,2) by (auto simp: plain_comp_def)
  have c: "clean_url_path (hq_path rq) = hq_path rq"
    using clean_url_plain [of "[''v1'', ''latest-results'', path_escape i, path_escape x]"] path_escape_plain assms(1,2,4)
    by (simp add: plain_comp_def)
  have u: "path_unescape (hq_path rq) = ''/v1/latest-results/'' @ i @ ''/'' @ x"
    using path_unescape_fixed [of "''/v1/latest-results/''"] path_unescape_escape [of i] path_unescape_escape [of x "[]"] assms(4)
    by (simp add: path_unescape_plain)
  have s: "split_on (CHR ''/'') (i @ CHR ''/'' # x) = [i, x]" using f by (simp add: split_on_append split_on_free)
  show ?thesis
    unfolding serve_def Let_def c u using assms(3,4) s
    by (simp add: has_prefix_def handle_latest_def trim_prefix_def write_json_def latest_members_def member_texts_def
        member_defs split: sum.splits prod.splits)
qed

section \<open>Calls through the client\<close>

text \<open>The error the client reports for an error of the engine.\<close>

definition api_error :: "nat \<Rightarrow> err \<Rightarrow> err" where
  "api_error code e = (if err_kind e = KPanic then io_err ''EOF''
     else read_error \<lparr>ha_status = code, ha_body = err_msg e @ [CHR 0x0A]\<rparr>)"

definition relay :: "(err \<Rightarrow> err) \<Rightarrow> ('a \<Rightarrow> 'b) \<Rightarrow> tsdb_link \<Rightarrow> 'a res \<times> disk \<Rightarrow> 'b res \<times> tsdb_link" where
  "relay f g s = (\<lambda>(u, d1). (case u of Inl e \<Rightarrow> Inl (f e) | Inr x \<Rightarrow> Inr (g x), after s d1))"

lemma year_one: "four_digit_year zero_time"
  by code_simp

lemmas answer_defs = http_fail_def http_error_def http_created_def http_ok_def http_not_found_def write_json_def

lemma post_relayed:
  assumes "line_up s"
    and "\<And>rq. hq_method rq = ''POST'' \<Longrightarrow> hq_path rq = p \<Longrightarrow> hq_body rq = b \<Longrightarrow> serve dir rq (ln_disk s) =
      (case q of (Inl e, d1) \<Rightarrow> (http_fail e 500, d1) | (Inr _, d1) \<Rightarrow> (http_created, d1))"
  shows "client_post dir p b s = relay (api_error 500) (\<lambda>_. ()) s q"
proof -
  define rq where "rq = \<lparr>hq_method = ''POST'', hq_path = p, hq_query = [], hq_body = b\<rparr>"
  obtain u d1 where q: "q = (u, d1)" by fastforce
  have sv: "serve dir rq (ln_disk s) = (case u of Inl e \<Rightarrow> http_fail e 500 | Inr _ \<Rightarrow> http_created, d1)"
    using assms(2) [of rq] by (cases u) (simp_all add: rq_def q)
  show ?thesis
  proof (cases u)
    case (Inl e)
    then show ?thesis using sv send_answer [OF assms(1), of dir rq _ d1 10] send_aborted [OF assms(1), of dir rq d1 10]
      by (cases "err_kind e = KPanic") (auto simp: client_post_def rq_def [symmetric] relay_def q answer_defs api_error_def)
  next
    case (Inr x)
    then show ?thesis using sv send_answer [OF assms(1), of dir rq _ d1 10]
      by (simp add: client_post_def rq_def [symmetric] relay_def q answer_defs)
  qed
qed

lemma client_save_snapshot_relayed:
  assumes "line_up s"
  shows "client_save_snapshot dir i ts data sealed s
    = relay (api_error 500) (\<lambda>u. u) s (ts_save_snapshot dir (sanitize i) (sanitize ts) (sanitize data) sealed (ln_disk s))"
proof -
  let ?b = "json_obj (member_texts (save_members i ts data sealed))"
  have "client_save_snapshot dir i ts data sealed s = client_post dir ''/v1/snapshots'' ?b s"
    by (simp add: client_save_snapshot_def save_members_def member_texts_def member_defs)
  also have "\<dots> = relay (api_error 500) (\<lambda>_. ()) s (ts_save_snapshot dir (sanitize i) (sanitize ts) (sanitize data) sealed (ln_disk s))"
    by (rule post_relayed [OF assms])
      (simp add: serve_fixed handle_save_snapshot_def unmarshal_members(1) [OF body_members_ok(1)] body_decoded del: save_request_of.simps)
  finally show ?thesis by simp
qed

lemma client_save_result_relayed:
  assumes "line_up s"
  shows "client_save_result dir r s = relay (api_error 500) (\<lambda>u. u) s (ts_save_result dir (sane_row r) (ln_disk s))"
proof -
  let ?b = "json_obj (member_texts (row_members r))"
  have "client_save_result dir r s = client_post dir ''/v1/results'' ?b s"
    by (simp add: client_save_result_def row_members_def member_texts_def member_defs)
  also have "\<dots> = relay (api_error 500) (\<lambda>_. ()) s (ts_save_result dir (sane_row r) (ln_disk s))"
    by (rule post_relayed [OF assms])
      (simp add: serve_fixed handle_results_def unmarshal_members(1) [OF body_members_ok(2)] body_decoded del: replay_entry_of.simps)
  finally show ?thesis by simp
qed

lemma client_get_snapshot_relayed:
  assumes "line_up s" "plain_comp i"
  shows "client_get_snapshot dir i s
    = relay (\<lambda>_. errorf ''snapshot not found'') (\<lambda>(t, b, z). (sanitize t, sanitize b, z)) s (ts_get_snapshot dir i (ln_disk s))"
proof -
  define rq where "rq = \<lparr>hq_method = ''GET'', hq_path = ''/v1/snapshots/'' @ path_escape i, hq_query = [], hq_body = ''''\<rparr>"
  obtain u d1 where q: "ts_get_snapshot dir i (ln_disk s) = (u, d1)" by fastforce
  note sv = serve_snapshot(1) [OF assms(2), of rq dir "ln_disk s"] and sn = send_answer [OF assms(1), of dir rq _ d1 10]
  show ?thesis
  proof (cases u)
    case (Inl e)
    then show ?thesis using sv sn q by (simp add: client_get_snapshot_def http_get_at_def rq_def relay_def answer_defs)
  next
    case (Inr x)
    obtain t b z where x: "x = (t, b, z)" by (cases x)
    define rec where "rec = \<lparr>srec_snapshot_id = i, srec_time_slice = t, srec_data = b, srec_sealed = z, srec_created_at = zero_time\<rparr>"
    have j: "snapshot_record_json rec = Inr (json_obj (member_texts (snapshot_members rec)))"
      using year_one by (simp add: record_json rec_def)
    have "serve dir rq (ln_disk s) = (http_ok (json_obj (member_texts (snapshot_members rec)) @ [CHR 0x0A]), d1)"
      using sv j Inr x q by (simp add: rq_def rec_def [symmetric] write_json_def)
    then have "send 10 dir rq s = (Inr \<lparr>ha_status = 200, ha_body = json_obj (member_texts (snapshot_members rec)) @ [CHR 0x0A]\<rparr>, after s d1)"
      by (intro send_answer [OF assms(1)]) (simp add: http_ok_def)
    moreover have "unmarshal_into snapshot_record_of (json_obj (member_texts (snapshot_members rec)) @ [CHR 0x0A]) = Inr (sane_snapshot rec)"
      using unmarshal_members_line [OF record_members_all(1), of snapshot_record_of rec] record_decoded(1) [of rec] year_one
      by (simp add: rec_def del: snapshot_record_of.simps)
    ultimately show ?thesis using q Inr x
      by (simp add: client_get_snapshot_def http_get_at_def rq_def relay_def) (simp add: sane_snapshot_def rec_def)
  qed
qed

lemma client_get_data_relayed:
  assumes "line_up s" "plain_comp i"
  shows "client_get_data dir i s = (case ts_open_data dir i (ln_disk s) of
      (Inl e, d1) \<Rightarrow> (Inl (errorf ''snapshot not found''), after s d1)
    | (Inr (b, z), d1) \<Rightarrow> (if z then Inr (b, True) else Inl (api_error 409 (errorf ''snapshot not sealed'')), after s d1))"
proof -
  define rq where "rq = \<lparr>hq_method = ''GET'', hq_path = ''/v1/snapshots/'' @ path_escape i @ ''/data'', hq_query = [], hq_body = ''''\<rparr>"
  obtain u d1 where q: "ts_open_data dir i (ln_disk s) = (u, d1)" by fastforce
  note sv = serve_snapshot(2) [OF assms(2), of rq dir "ln_disk s"] and sn = send_answer [OF assms(1), of dir rq _ d1 10]
  show ?thesis
    using sv sn q by (cases u)
      (auto simp: client_get_data_def http_get_at_def rq_def answer_defs api_error_def errorf_def split: if_splits)
qed



lemma client_lookup_memo_relayed:
  assumes "line_up s"
  shows "client_lookup_memo dir i x h s
    = relay (api_error 500) (map_option (\<lambda>(oh, out). (sanitize oh, sanitize out))) s (ts_lookup_memo dir i x h (ln_disk s))"
proof -
  define rq where "rq = \<lparr>hq_method = ''GET'', hq_path = ''/v1/memo'', hq_query = [(''domino_id'', x), (''input_hash'', h), (''snapshot_id'', i)],
    hq_body = ''''\<rparr>"
  obtain u d1 where q: "ts_lookup_memo dir i x h (ln_disk s) = (u, d1)" by fastforce
  have g: "query_get ''snapshot_id'' rq = i" "query_get ''domino_id'' rq = x" "query_get ''input_hash'' rq = h"
    by (simp_all add: rq_def query_get_def)
  have sv: "serve dir rq (ln_disk s) = handle_memo dir rq (ln_disk s)" by (rule serve_fixed) (simp add: rq_def)
  have m: "hq_method rq = ''GET''" by (simp add: rq_def)
  note sn = send_answer [OF assms, of dir rq _ d1 10] send_aborted [OF assms, of dir rq d1 10]
  show ?thesis
  proof (cases u)
    case (Inl e)
    then show ?thesis using sv m g q sn
      by (cases "err_kind e = KPanic")
        (auto simp: client_lookup_memo_def http_get_at_def rq_def [symmetric] relay_def handle_memo_def answer_defs api_error_def)
  next
    case (Inr v)
    show ?thesis
    proof (cases v)
      case None
      then show ?thesis using sv m g q sn(1) Inr
        by (auto simp: client_lookup_memo_def http_get_at_def rq_def [symmetric] relay_def handle_memo_def answer_defs)
    next
      case (Some p)
      obtain oh out where p: "p = (oh, out)" by (cases p)
      define rec where "rec = \<lparr>mrec_snapshot_id = i, mrec_domino_id = x, mrec_input_hash = h, mrec_output_hash = oh,
        mrec_output = out, mrec_created_at = zero_time\<rparr>"
      have j: "memo_record_json rec = Inr (json_obj (member_texts (memo_members rec)))"
        using year_one by (simp add: record_json rec_def)
      have "serve dir rq (ln_disk s) = (http_ok (json_obj (member_texts (memo_members rec)) @ [CHR 0x0A]), d1)"
        using sv m g q Inr Some p j by (simp add: handle_memo_def write_json_def rec_def [symmetric])
      then have "send 10 dir rq s = (Inr \<lparr>ha_status = 200, ha_body = json_obj (member_texts (memo_members rec)) @ [CHR 0x0A]\<rparr>, after s d1)"
        by (intro send_answer [OF assms]) (simp add: http_ok_def)
      moreover have "unmarshal_into memo_record_of (json_obj (member_texts (memo_members rec)) @ [CHR 0x0A]) = Inr (sane_memo rec)"
        using unmarshal_members_line [OF record_members_all(2), of memo_record_of rec] record_decoded(2) [of rec] year_one
        by (simp add: rec_def del: memo_record_of.simps)
      ultimately show ?thesis using q Inr Some p
        by (simp add: client_lookup_memo_def http_get_at_def rq_def [symmetric] relay_def) (simp add: sane_memo_def rec_def)
    qed
  qed
qed

lemma client_list_replay_relayed:
  assumes "line_up s" "i \<noteq> ''''"
  shows "client_list_replay dir i s = relay (api_error 500) (map sane_row) s (ts_list_replay dir i (ln_disk s))"
proof -
  define rq where "rq = \<lparr>hq_method = ''GET'', hq_path = ''/v1/replay'', hq_query = [(''snapshot_id'', i)], hq_body = ''''\<rparr>"
  obtain u d1 where q: "ts_list_replay dir i (ln_disk s) = (u, d1)" by fastforce
  have g: "query_get ''snapshot_id'' rq = i" "hq_method rq = ''GET''" by (simp_all add: rq_def query_get_def)
  have sv: "serve dir rq (ln_disk s) = handle_replay dir rq (ln_disk s)" by (rule serve_fixed) (simp add: rq_def)
  note sn = send_answer [OF assms(1), of dir rq _ d1 10] send_aborted [OF assms(1), of dir rq d1 10]
  show ?thesis
  proof (cases u)
    case (Inl e)
    then show ?thesis using sv g q sn assms(2)
      by (cases "err_kind e = KPanic")
        (auto simp: client_list_replay_def http_get_at_def rq_def [symmetric] relay_def handle_replay_def answer_defs api_error_def)
  next
    case (Inr rs)
    then show ?thesis using sv g q sn(1) assms(2) entries_decoded
      by (simp add: client_list_replay_def http_get_at_def rq_def [symmetric] relay_def handle_replay_def write_json_def http_ok_def
          del: replay_list_of.simps)
  qed
qed

lemma client_get_latest_relayed:
  assumes "line_up s" "plain_comp i" "plain_comp x"
  shows "client_get_latest dir i x s = relay (\<lambda>_. api_error 404 (errorf ''404 page not found''))
      (\<lambda>(ih, oh, out). (sanitize ih, sanitize oh, sanitize out)) s (ts_get_latest dir i x (ln_disk s))"
proof -
  define rq where "rq = \<lparr>hq_method = ''GET'', hq_path = ''/v1/latest-results/'' @ path_escape i @ ''/'' @ path_escape x, hq_query = [],
    hq_body = ''''\<rparr>"
  obtain u d1 where q: "ts_get_latest dir i x (ln_disk s) = (u, d1)" by fastforce
  note sn = send_answer [OF assms(1), of dir rq _ d1 10]
  have sv: "serve dir rq (ln_disk s) = (case u of Inl e \<Rightarrow> (http_not_found, d1)
      | Inr (ih, oh, out) \<Rightarrow> (http_ok (json_obj (member_texts (latest_members ih oh out)) @ [CHR 0x0A]), d1))"
    using serve_latest [OF assms(2,3), of rq dir "ln_disk s"] q by (simp add: rq_def split: sum.splits)
  have c: "client_get_latest dir i x s = (case send 10 dir rq s of
        (Inl e, s1) \<Rightarrow> (Inl e, s1)
      | (Inr a, s1) \<Rightarrow> (if ha_status a \<noteq> 200 then Inl (read_error a) else unmarshal_into latest_of (ha_body a), s1))"
    by (simp add: client_get_latest_def http_get_at_def rq_def)
  show ?thesis
  proof (cases u)
    case (Inl e)
    then show ?thesis using sv sn q by (simp add: c relay_def answer_defs api_error_def errorf_def)
  next
    case (Inr v)
    obtain ih oh out where v: "v = (ih, oh, out)" by (cases v)
    have "unmarshal_into latest_of (json_obj (member_texts (latest_members ih oh out)) @ [CHR 0x0A]) = Inr (sanitize ih, sanitize oh, sanitize out)"
      using unmarshal_members_line [OF body_members_ok(4), of latest_of ih oh out] body_decoded(4) by simp
    then show ?thesis using sv sn q Inr v by (simp add: c relay_def http_ok_def del: latest_of.simps)
  qed
qed



section \<open>Reads through the client\<close>

lemma ts_open_data_eq: "ts_open_data = ts_get_data"
  by (simp add: fun_eq_iff ts_open_data_def ts_get_data_def)

lemma http_fail_cases: "http_fail e c = Aborted \<or> (\<exists>a. http_fail e c = Answer a)"
  by (simp add: http_fail_def http_error_def)

lemma disk_count_idle: "disk_count p d = (n, d') \<Longrightarrow> idle d d'"
  by (auto simp: disk_count_def Let_def)

lemma disk_list_idle: "disk_list p d = (r, d') \<Longrightarrow> idle d d'"
  by (auto simp: disk_list_def)

lemma ts_stats_idle: "ts_stats dir d = (r, d') \<Longrightarrow> idle d d'"
proof -
  assume r: "ts_stats dir d = (r, d')"
  obtain l d1 where l: "disk_list (path_join [dir, ''snapshots'']) d = (l, d1)" by fastforce
  obtain n d2 where n: "disk_count (path_join [dir, ''memo'']) d1 = (n, d2)" by fastforce
  have "d' = d1 \<or> d' = d2" using r l n by (auto simp: ts_stats_def split: sum.splits)
  then show ?thesis using disk_list_idle [OF l] disk_count_idle [OF n] idle_trans by blast
qed

text \<open>A GET request writes nothing, wherever it is redirected.\<close>

lemma serve_get_idle:
  assumes "serve dir rq d = (rp, d')" "hq_method rq = ''GET''"
  shows "idle d d'"
proof -
  have g: "idle d d1" if "ts_get_snapshot dir i d = (r, d1)" for i r d1 using ts_get_snapshot_laws(1) [OF that] .
  have o: "idle d d1" if "ts_open_data dir i d = (r, d1)" for i r d1
    using ts_get_data_laws(1) that unfolding ts_open_data_eq by blast
  have m: "idle d d1" if "ts_lookup_memo dir i x h d = (r, d1)" for i x h r d1 using ts_lookup_memo_laws(1) [OF that] .
  have l: "idle d d1" if "ts_list_replay dir i d = (r, d1)" for i r d1 using ts_list_replay_laws(1) [OF that] .
  have t: "idle d d1" if "ts_get_latest dir i x d = (r, d1)" for i x r d1 using ts_get_latest_laws(1) [OF that] .
  have u: "idle d d1" if "ts_get_domino_output dir i x d = (r, d1)" for i x r d1
    using that t by (auto simp: ts_get_domino_output_def split: prod.splits)
  have st: "idle d d1" if "ts_stats dir d = (r, d1)" for r d1 using ts_stats_idle [OF that] .
  have "idle d (snd (handle_stats dir d))" using st by (auto simp: handle_stats_def split: prod.splits sum.splits)
  moreover have "snd (handle_save_snapshot dir rq d) = d" "snd (handle_results dir rq d) = d"
    using assms(2) by (simp_all add: handle_save_snapshot_def handle_results_def)
  moreover have "idle d (snd (handle_get_snapshot dir p rq d))" for p
    using g o by (auto simp: handle_get_snapshot_def Let_def split: prod.splits sum.splits)
  moreover have "idle d (snd (handle_memo dir rq d))"
    using m by (auto simp: handle_memo_def Let_def split: prod.splits sum.splits option.splits)
  moreover have "idle d (snd (handle_outputs dir p rq d))" for p
    using u by (auto simp: handle_outputs_def split: prod.splits sum.splits list.splits)
  moreover have "idle d (snd (handle_latest dir p rq d))" for p
    using t by (auto simp: handle_latest_def split: prod.splits sum.splits list.splits)
  moreover have "idle d (snd (handle_replay dir rq d))"
    using l by (auto simp: handle_replay_def Let_def split: prod.splits sum.splits)
  ultimately have "idle d (snd (serve dir rq d))" by (simp add: serve_def Let_def)
  then show ?thesis using assms(1) by simp
qed

lemma exchange_get_idle:
  assumes "exchange dir rq s = (r, s')" "hq_method rq = ''GET''"
  shows "idle (ln_disk s) (ln_disk s') \<and> ln_fault s' = ln_fault s"
proof -
  obtain rp d1 where v: "serve dir rq (ln_disk s) = (rp, d1)" by fastforce
  have "ln_fault s' = ln_fault s \<and> (ln_disk s' = ln_disk s \<or> ln_disk s' = d1)"
    using assms(1) v by (auto simp: exchange_def Let_def split: option.splits bool.splits prod.splits)
  then show ?thesis using serve_get_idle [OF v assms(2)] by auto
qed

lemma send_get_idle:
  assumes "send n dir rq s = (r, s')" "hq_method rq = ''GET''"
  shows "idle (ln_disk s) (ln_disk s') \<and> ln_fault s' = ln_fault s"
  using assms
proof (induction n arbitrary: rq s r s')
  case 0
  obtain x s1 where x: "exchange dir rq s = (x, s1)" by fastforce
  have "s' = s1" using 0(1) x by (simp add: send.simps split: sum.splits reply.splits)
  then show ?case using exchange_get_idle [OF x 0(2)] by simp
next
  case (Suc n)
  obtain x s1 where x: "exchange dir rq s = (x, s1)" by fastforce
  note i1 = exchange_get_idle [OF x Suc.prems(2)]
  show ?case
  proof (cases "\<exists>p. x = Inr (Redirect p)")
    case False
    then have "s' = s1" using Suc.prems(1) x by (subst (asm) send.simps) (simp split: sum.splits reply.splits)
    then show ?thesis using i1 by simp
  next
    case True
    then obtain p where "x = Inr (Redirect p)" by blast
    with Suc.prems(1) x have "send n dir (rq\<lparr>hq_method := ''GET'', hq_path := p, hq_body := ''''\<rparr>) s1 = (r, s')"
      by (subst (asm) send.simps) simp
    from Suc.IH [OF this] i1 idle_trans show ?thesis by auto
  qed
qed

text \<open>An answer means that the line was up.\<close>

lemma send_Inr_up: "send n dir rq s = (Inr a, s') \<Longrightarrow> line_up s"
proof (rule ccontr)
  assume a: "send n dir rq s = (Inr a, s')" "\<not> line_up s"
  then obtain b m where "ln_fault s (ln_tick s) = Some (b, m)" by (auto simp: line_up_def)
  then have "\<exists>e. fst (exchange dir rq s) = Inl e" by (cases b) (simp_all add: exchange_def Let_def split: prod.splits)
  with a(1) show False by (subst (asm) send.simps) (auto split: prod.splits)
qed

lemma send_down:
  assumes "\<not> line_up s" "\<forall>n m. ln_fault s n \<noteq> Some (True, m)"
  shows "\<exists>e. send n dir rq s = (Inl e, s\<lparr>ln_tick := Suc (ln_tick s)\<rparr>)"
proof -
  obtain m where "ln_fault s (ln_tick s) = Some (False, m)"
    using assms unfolding line_up_def by (metis (full_types) not_None_eq prod.exhaust)
  then show ?thesis by (subst send.simps) (simp add: exchange_def Let_def)
qed



section \<open>The client as a store\<close>

text \<open>
  No write is cut short, no answer is lost once the server has acted, and what is stored is
  valid UTF-8: JSON changes other texts on the way.
\<close>

definition whole_writes :: "disk \<Rightarrow> bool" where
  "whole_writes d \<longleftrightarrow> (\<forall>n m k. dk_fault d n \<noteq> Some (m, Some k))"

definition texts_valid :: "string \<Rightarrow> disk \<Rightarrow> bool" where
  "texts_valid dir d \<longleftrightarrow> (\<forall>i. tsdb_id i \<longrightarrow> valid_utf8 (sidecar dir d i))
     \<and> (\<forall>i rec. tsdb_id i \<longrightarrow> snapshot_at dir d i = Some rec \<longrightarrow> valid_utf8 (srec_time_slice rec))
     \<and> (\<forall>i. \<forall>r\<in>set (ts_rows dir d i). sane_row r = r)"

definition link_inv :: "string \<Rightarrow> tsdb_link \<Rightarrow> bool" where
  "link_inv dir s \<longleftrightarrow> tsdb_inv dir (ln_disk s) \<and> texts_valid dir (ln_disk s) \<and> whole_writes (ln_disk s)
     \<and> (\<forall>n m. ln_fault s n \<noteq> Some (True, m))"

definition link_ok :: "tsdb_link \<Rightarrow> bool" where
  "link_ok s \<longleftrightarrow> tsdb_ok (ln_disk s) \<and> (\<forall>n. ln_fault s n = None)"

definition link_snap :: "string \<Rightarrow> tsdb_link \<Rightarrow> string \<Rightarrow> (string \<times> string \<times> bool) option" where
  "link_snap dir s = ts_snap dir (ln_disk s)"

definition link_memo :: "string \<Rightarrow> tsdb_link \<Rightarrow> string \<Rightarrow> string \<Rightarrow> string \<Rightarrow> (string \<times> string) option" where
  "link_memo dir s = ts_memo dir (ln_disk s)"

definition link_rows :: "string \<Rightarrow> tsdb_link \<Rightarrow> string \<Rightarrow> replay_row list" where
  "link_rows dir s = ts_rows dir (ln_disk s)"

lemmas link_defs = link_snap_def link_memo_def link_rows_def

definition link_same :: "string \<Rightarrow> tsdb_link \<Rightarrow> tsdb_link \<Rightarrow> bool" where
  "link_same dir s s' \<longleftrightarrow> link_inv dir s' \<and> (link_ok s \<longrightarrow> link_ok s') \<and> link_snap dir s' = link_snap dir s
     \<and> link_memo dir s' = link_memo dir s \<and> link_rows dir s' = link_rows dir s"

lemma texts_valid_cong:
  assumes "file_at d' = file_at d" shows "texts_valid dir d' = texts_valid dir d"
  using views_cong(1,6) [OF assms] by (simp add: texts_valid_def sidecar_def assms)

lemma link_idle:
  assumes "link_inv dir s" "idle (ln_disk s) (ln_disk s')" "ln_fault s' = ln_fault s"
  shows "link_same dir s s'"
proof -
  have d: "tsdb_inv dir (ln_disk s)" using assms(1) by (simp add: link_inv_def)
  have f: "file_at (ln_disk s') = file_at (ln_disk s)" "dk_fault (ln_disk s') = dk_fault (ln_disk s)"
    using assms(2) by (simp_all add: idle_def)
  show ?thesis using idle_frame [OF d assms(2)] assms(1,3) f texts_valid_cong [OF f(1)]
    by (simp add: link_same_def link_inv_def link_ok_def link_defs whole_writes_def)
qed

lemma read_frames:
  assumes "link_inv dir s"
  shows "client_get_snapshot dir i s = (g, s') \<Longrightarrow> link_same dir s s'"
    and "client_get_data dir i s = (p, s') \<Longrightarrow> link_same dir s s'"
    and "client_lookup_memo dir i x h s = (m, s') \<Longrightarrow> link_same dir s s'"
    and "client_list_replay dir i s = (l, s') \<Longrightarrow> link_same dir s s'"
    and "client_get_latest dir i x s = (t, s') \<Longrightarrow> link_same dir s s'"
proof -
  have f: "link_same dir s s'"
    if "\<exists>r. http_get_at dir p q s = (r, s')" for p q
  proof -
    from that obtain r where r: "send 10 dir \<lparr>hq_method = ''GET'', hq_path = p, hq_query = q, hq_body = ''''\<rparr> s = (r, s')"
      by (auto simp: http_get_at_def)
    show ?thesis using link_idle [OF assms, of s'] send_get_idle [OF r] by simp
  qed
  show "client_get_snapshot dir i s = (g, s') \<Longrightarrow> link_same dir s s'"
    by (rule f [of "''/v1/snapshots/'' @ path_escape i" "[]"]) (auto simp: client_get_snapshot_def split: prod.splits sum.splits)
  show "client_get_data dir i s = (p, s') \<Longrightarrow> link_same dir s s'"
    by (rule f [of "''/v1/snapshots/'' @ path_escape i @ ''/data''" "[]"]) (auto simp: client_get_data_def split: prod.splits sum.splits)
  show "client_lookup_memo dir i x h s = (m, s') \<Longrightarrow> link_same dir s s'"
    by (rule f [of "''/v1/memo''" "[(''domino_id'', x), (''input_hash'', h), (''snapshot_id'', i)]"])
      (auto simp: client_lookup_memo_def split: prod.splits sum.splits)
  show "client_list_replay dir i s = (l, s') \<Longrightarrow> link_same dir s s'"
    by (rule f [of "''/v1/replay''" "[(''snapshot_id'', i)]"]) (auto simp: client_list_replay_def split: prod.splits sum.splits)
  show "client_get_latest dir i x s = (t, s') \<Longrightarrow> link_same dir s s'"
    by (rule f [of "''/v1/latest-results/'' @ path_escape i @ ''/'' @ path_escape x" "[]"])
      (auto simp: client_get_latest_def split: prod.splits sum.splits)
qed

text \<open>A call that gave a result had the line.\<close>

lemma read_up:
  "client_get_snapshot dir i s = (Inr g, s') \<Longrightarrow> line_up s" "client_get_data dir i s = (Inr p, s') \<Longrightarrow> line_up s"
  "client_lookup_memo dir i x h s = (Inr m, s') \<Longrightarrow> line_up s" "client_list_replay dir i s = (Inr l, s') \<Longrightarrow> line_up s"
  "client_get_latest dir i x s = (Inr t, s') \<Longrightarrow> line_up s" "client_post dir q b s = (Inr (), s') \<Longrightarrow> line_up s"
  by (auto simp: client_get_snapshot_def client_get_data_def client_lookup_memo_def client_list_replay_def client_get_latest_def
      client_post_def http_get_at_def dest: send_Inr_up split: prod.splits sum.splits)

lemma relay_Inr: "relay f g s q = (Inr y, s') \<longleftrightarrow> (\<exists>x d1. q = (Inr x, d1) \<and> y = g x \<and> s' = after s d1)"
  by (cases q) (auto simp: relay_def split: sum.splits)

lemma link_memo_valid: "link_inv dir s \<Longrightarrow> link_memo dir s i x h = Some (oh, out) \<Longrightarrow> valid_utf8 oh \<and> valid_utf8 out"
  unfolding link_inv_def link_memo_def using tsdb.memo_text by blast

lemma link_snap_valid: "link_inv dir s \<Longrightarrow> link_snap dir s i = Some (t, b, z) \<Longrightarrow> valid_utf8 t \<and> valid_utf8 b"
  by (auto simp: link_inv_def link_snap_def texts_valid_def ts_snap_def split: if_splits)

lemma link_rows_sane: "link_inv dir s \<Longrightarrow> map sane_row (link_rows dir s i) = link_rows dir s i"
  by (simp add: link_inv_def link_rows_def texts_valid_def map_idI)

lemma link_reads:
  assumes "link_inv dir s" "tsdb_id i"
  shows "client_get_snapshot dir i s = (Inr v, s') \<Longrightarrow> link_snap dir s i = Some v"
    and "client_get_data dir i s = (Inr (b, z), s') \<Longrightarrow> \<exists>t. link_snap dir s i = Some (t, b, z)"
    and "tsdb_id x \<Longrightarrow> tsdb_hash h \<Longrightarrow> client_lookup_memo dir i x h s = (Inr m, s') \<Longrightarrow> m = None \<or> m = link_memo dir s i x h"
    and "client_list_replay dir i s = (Inr l, s') \<Longrightarrow> l = link_rows dir s i"
    and "tsdb_id x \<Longrightarrow> client_get_latest dir i x s = (Inr (ih, oh, out), s') \<Longrightarrow> \<exists>r. last_spine_result (link_rows dir s i) x = (r, True)
      \<and> ih = re_input_hash r \<and> oh = re_output_hash r \<and> out = re_output r"
proof -
  have inv: "tsdb_inv dir (ln_disk s)" using assms(1) by (simp add: link_inv_def)
  have i: "plain_comp i" "i \<noteq> ''''" using tsdb_id_plain(1) [OF assms(2)] by (auto simp: plain_comp_def)
  show "client_get_snapshot dir i s = (Inr v, s') \<Longrightarrow> link_snap dir s i = Some v"
  proof -
    assume c: "client_get_snapshot dir i s = (Inr v, s')"
    obtain t b z d1 where g: "ts_get_snapshot dir i (ln_disk s) = (Inr (t, b, z), d1)" "v = (sanitize t, sanitize b, z)"
      using c unfolding client_get_snapshot_relayed [OF read_up(1) [OF c] i(1)] relay_Inr by auto
    then have "link_snap dir s i = Some (t, b, z)" using ts_get_snapshot_laws(2) [OF g(1) inv assms(2) refl] by (simp add: link_snap_def)
    then show ?thesis using g(2) link_snap_valid [OF assms(1)] by (simp add: sanitize_valid)
  qed
  show "client_get_data dir i s = (Inr (b, z), s') \<Longrightarrow> \<exists>t. link_snap dir s i = Some (t, b, z)"
  proof -
    assume c: "client_get_data dir i s = (Inr (b, z), s')"
    obtain d1 where g: "ts_get_data dir i (ln_disk s) = (Inr (b, z), d1)"
      using c unfolding client_get_data_relayed [OF read_up(2) [OF c] i(1)] ts_open_data_eq
      by (auto split: prod.splits sum.splits if_splits)
    then show ?thesis using ts_get_data_laws(2) [OF g inv assms(2) refl] by (simp add: link_snap_def)
  qed
  show "m = None \<or> m = link_memo dir s i x h" if "tsdb_id x" "tsdb_hash h" and c: "client_lookup_memo dir i x h s = (Inr m, s')"
  proof -
    obtain m0 d1 where g: "ts_lookup_memo dir i x h (ln_disk s) = (Inr m0, d1)" "m = map_option (\<lambda>(oh, out). (sanitize oh, sanitize out)) m0"
      using c unfolding client_lookup_memo_relayed [OF read_up(3) [OF c]] relay_Inr by auto
    have "m0 = None \<or> m0 = link_memo dir s i x h"
      using ts_lookup_memo_laws(2) [OF g(1) inv assms(2) that(1,2) refl] by (simp add: link_memo_def)
    then show ?thesis using g(2) link_memo_valid [OF assms(1), of i x h] by (cases "link_memo dir s i x h") (auto simp: sanitize_valid)
  qed
  show "client_list_replay dir i s = (Inr l, s') \<Longrightarrow> l = link_rows dir s i"
  proof -
    assume c: "client_list_replay dir i s = (Inr l, s')"
    obtain l0 d1 where g: "ts_list_replay dir i (ln_disk s) = (Inr l0, d1)" "l = map sane_row l0"
      using c unfolding client_list_replay_relayed [OF read_up(4) [OF c] i(2)] relay_Inr by auto
    have "l0 = link_rows dir s i" using ts_list_replay_laws(2) [OF g(1) inv refl] by (simp add: link_rows_def)
    then show ?thesis using g(2) link_rows_sane [OF assms(1)] by simp
  qed
  show "\<exists>r. last_spine_result (link_rows dir s i) x = (r, True)
      \<and> ih = re_input_hash r \<and> oh = re_output_hash r \<and> out = re_output r"
    if x: "tsdb_id x" and c: "client_get_latest dir i x s = (Inr (ih, oh, out), s')"
  proof -
    obtain ih0 oh0 out0 d1 where g: "ts_get_latest dir i x (ln_disk s) = (Inr (ih0, oh0, out0), d1)"
      "ih = sanitize ih0" "oh = sanitize oh0" "out = sanitize out0"
      using c unfolding client_get_latest_relayed [OF read_up(5) [OF c] i(1) tsdb_id_plain(1) [OF x]] relay_Inr by auto
    obtain r where r: "last_spine_result (link_rows dir s i) x = (r, True)" "ih0 = re_input_hash r" "oh0 = re_output_hash r" "out0 = re_output r"
      using ts_get_latest_laws(2) [OF g(1) inv refl] by (auto simp: link_rows_def)
    have "r \<in> set (link_rows dir s i)" using r(1) by (auto simp: last_spine_result_find dest: find_rev_SomeD split: option.splits)
    then have "sane_row r = r" using assms(1) by (auto simp: link_inv_def texts_valid_def link_rows_def)
    then have "sanitize (re_input_hash r) = re_input_hash r" "sanitize (re_output_hash r) = re_output_hash r" "sanitize (re_output r) = re_output r"
      by (metis replay_row.ext_inject replay_row.surjective sane_row_def)+
    then show ?thesis using r g by simp
  qed
qed



lemma disk_write_whole:
  assumes "disk_write p b d = (r, d')" "whole_writes d"
  shows "file_at d' = (if r = Inr () then (file_at d)(path_comps p \<mapsto> b) else file_at d)" "whole_writes d'"
proof -
  show "file_at d' = (if r = Inr () then (file_at d)(path_comps p \<mapsto> b) else file_at d)"
    using assms by (auto simp: disk_write_def Let_def whole_writes_def split: if_splits option.splits)
  show "whole_writes d'" using assms(2) disk_fault_kept(1) [OF assms(1)] by (simp add: whole_writes_def)
qed

lemma texts_valid_save_snapshot:
  assumes "tsdb_inv dir d" "texts_valid dir d" "whole_writes d" "tsdb_id i" "valid_utf8 ts" "valid_utf8 data"
    and "ts_save_snapshot dir i ts data sealed d = (u, d')"
  shows "texts_valid dir d'"
proof -
  let ?A = "place dir [''snapshots'', i @ ''.json'']" and ?B = "place dir [''snapshots'', i @ ''.data.json'']"
  note pc = comps_paths(1,2) [OF tsdb_inv_dir [OF assms(1)] tsdb_id_plain(2) [OF assms(4)]]
  have rows: "ts_rows dir d' = ts_rows dir d" using ts_save_snapshot_laws(1) [OF assms(1,4,7)] by (simp add: touches_snap_def)
  have at: "stored snapshot_record_of e k = (case file_at e k of None \<Rightarrow> None
      | Some b \<Rightarrow> (case unmarshal_into snapshot_record_of b of Inl _ \<Rightarrow> None | Inr r \<Rightarrow> Some r))" for e k
    by (simp add: stored_def)
  have "file_at d' = file_at d \<or> (\<exists>body rec. unmarshal_into snapshot_record_of body = Inr rec \<and> srec_time_slice rec = ts
      \<and> (file_at d' = (file_at d)(?A \<mapsto> body) \<or> file_at d' = (file_at d)(?A \<mapsto> body, ?B \<mapsto> data)))"
    using ts_save_snapshot_files(2) [OF assms(7)]
  proof
    assume "\<exists>body now q d2 d3. snapshot_record_json \<lparr>srec_snapshot_id = i, srec_time_slice = ts, srec_data = '''',
          srec_sealed = sealed, srec_created_at = now\<rparr> = Inr body
        \<and> file_at d2 = file_at d \<and> dk_fault d2 = dk_fault d \<and> disk_write (snapshot_path dir i) body d2 = (q, d3)
        \<and> (if q = Inr () then disk_write (snapshot_data_path dir i) data d3 = (u, d') else d' = d3)"
    then obtain body now q d2 d3 where body: "snapshot_record_json \<lparr>srec_snapshot_id = i, srec_time_slice = ts, srec_data = '''',
          srec_sealed = sealed, srec_created_at = now\<rparr> = Inr body"
      and f: "file_at d2 = file_at d" "whole_writes d2" and q: "disk_write (snapshot_path dir i) body d2 = (q, d3)"
      and w: "if q = Inr () then disk_write (snapshot_data_path dir i) data d3 = (u, d') else d' = d3"
      using assms(3) unfolding whole_writes_def by (metis (full_types))
    have dec: "\<exists>rec. unmarshal_into snapshot_record_of body = Inr rec \<and> srec_time_slice rec = ts"
      using record_stored(1) [OF body] assms(5) by (simp add: sane_snapshot_def sanitize_valid)
    show ?thesis
    proof (cases "q = Inr ()")
      case True
      then have "disk_write (snapshot_data_path dir i) data d3 = (u, d')" using w by simp
      from disk_write_whole(1) [OF this disk_write_whole(2) [OF q f(2)]] disk_write_whole(1) [OF q f(2)] True f(1) dec pc
      show ?thesis by auto
    next
      case False
      then show ?thesis using disk_write_whole(1) [OF q f(2)] w f(1) by simp
    qed
  qed blast
  then show ?thesis
  proof
    assume "file_at d' = file_at d"
    then show ?thesis using texts_valid_cong [of d' d dir] assms(2) by simp
  next
    assume "\<exists>body rec. unmarshal_into snapshot_record_of body = Inr rec \<and> srec_time_slice rec = ts
      \<and> (file_at d' = (file_at d)(?A \<mapsto> body) \<or> file_at d' = (file_at d)(?A \<mapsto> body, ?B \<mapsto> data))"
    then obtain body rec where b: "unmarshal_into snapshot_record_of body = Inr rec" "srec_time_slice rec = ts"
      "file_at d' = (file_at d)(?A \<mapsto> body) \<or> file_at d' = (file_at d)(?A \<mapsto> body, ?B \<mapsto> data)" by blast
    have s: "sidecar dir d' j = sidecar dir d j \<or> sidecar dir d' j = data" for j
      using b(3) id_not_data [OF assms(4), of j] by (auto simp: sidecar_def)
    have m: "snapshot_at dir d' j = (if j = i then Some rec else snapshot_at dir d j)" if "tsdb_id j" for j
      using b id_not_data [OF that, of i] by (auto simp: snapshot_at_def at)
    have "valid_utf8 (sidecar dir d' j)" if "tsdb_id j" for j
      using s [of j] assms(2,6) that by (auto simp: texts_valid_def)
    moreover have "valid_utf8 (srec_time_slice r)" if "tsdb_id j" "snapshot_at dir d' j = Some r" for j r
      using m [OF that(1)] that assms(2,5) b(2) by (auto simp: texts_valid_def split: if_splits)
    ultimately show ?thesis using assms(2) rows by (simp add: texts_valid_def)
  qed
qed

lemma texts_valid_save_result:
  assumes "tsdb_inv dir d" "texts_valid dir d" "tsdb_id (re_snapshot_id r)" "tsdb_id (re_domino_id r)"
    "tsdb_hash (re_input_hash r)" "sane_row r = r" "ts_save_result dir r d = (u, d')"
  shows "texts_valid dir d'"
proof -
  let ?i = "re_snapshot_id r" and ?x = "re_domino_id r" and ?h = "re_input_hash r"
  note dir = tsdb_inv_dir [OF assms(1)]
  have keep: "file_at d' (place dir [''snapshots'', n]) = file_at d (place dir [''snapshots'', n])" for n
  proof -
    have m: "file_at d1 (place dir [''snapshots'', n]) = file_at d (place dir [''snapshots'', n])"
      if "ts_save_memo dir r d = (v, d1)" for v d1
      using ts_save_memo_files [OF that] comps_paths(3) [OF dir assms(3-5)] by auto
    have "CHR ''/'' \<notin> set (int_str t @ ''-'' @ ?x @ ''-'' @ take 8 ?h)" for t
      using nat_str_no_slash assms(4,5) by (auto simp: int_str_def tsdb_id_def plain_comp_def tsdb_hash_def dest: in_set_takeD)
    from plain_comp_json [OF this] have p: "plain_comp (replay_name t ?x ?h)" for t by (simp add: replay_name_def)
    have rp: "file_at d2 (place dir [''snapshots'', n]) = file_at d1 (place dir [''snapshots'', n])"
      if "ts_save_replay dir r d1 = (v, d2)" for v d1 d2
      using ts_save_replay_files [OF that] comps_paths(5) [OF dir p] by (auto simp: Let_def)
    show ?thesis using assms(7) m rp
      by (auto simp: ts_save_result_def split: if_splits prod.splits sum.splits)
  qed
  have v: "list_all valid_utf8 [re_output_hash r, re_output r, re_prev_link r, re_link r]"
    using arg_cong [OF assms(6), of re_output_hash] arg_cong [OF assms(6), of re_output] arg_cong [OF assms(6), of re_prev_link]
      arg_cong [OF assms(6), of re_link] valid_sanitize by (simp add: sane_row_def) metis
  have rows: "q \<in> set (ts_rows dir d' j) \<Longrightarrow> q = r \<or> q \<in> set (ts_rows dir d j)" for q j
    using ts_save_result_laws [OF assms(1,3-5,7)] v by (cases "u = Inr ()"; cases "j = ?i") auto
  have "sidecar dir d' = sidecar dir d" "snapshot_at dir d' = snapshot_at dir d"
    using keep by (simp_all add: sidecar_def snapshot_at_def stored_def fun_eq_iff)
  then show ?thesis using assms(2,6) rows by (fastforce simp: texts_valid_def)
qed

lemma client_post_down:
  assumes "\<not> line_up s" "\<forall>n m. ln_fault s n \<noteq> Some (True, m)" "client_post dir p b s = (u, s')"
  shows "(\<exists>e. u = Inl e) \<and> s' = s\<lparr>ln_tick := Suc (ln_tick s)\<rparr>"
proof -
  obtain e where "send 10 dir \<lparr>hq_method = ''POST'', hq_path = p, hq_query = [], hq_body = b\<rparr> s = (Inl e, s\<lparr>ln_tick := Suc (ln_tick s)\<rparr>)"
    using send_down [OF assms(1,2)] by blast
  then show ?thesis using assms(3) by (auto simp: client_post_def)
qed

lemma link_tick:
  "link_inv dir (s\<lparr>ln_tick := n\<rparr>) = link_inv dir s" "link_snap dir (s\<lparr>ln_tick := n\<rparr>) = link_snap dir s"
  "link_memo dir (s\<lparr>ln_tick := n\<rparr>) = link_memo dir s" "link_rows dir (s\<lparr>ln_tick := n\<rparr>) = link_rows dir s"
  by (simp_all add: link_inv_def link_defs)

lemma link_after:
  "link_inv dir s \<Longrightarrow> tsdb_inv dir d1 \<Longrightarrow> texts_valid dir d1 \<Longrightarrow> dk_fault d1 = dk_fault (ln_disk s) \<Longrightarrow> link_inv dir (after s d1)"
  "link_snap dir (after s d1) = ts_snap dir d1" "link_memo dir (after s d1) = ts_memo dir d1" "link_rows dir (after s d1) = ts_rows dir d1"
  by (simp_all add: link_inv_def after_def link_defs whole_writes_def)

lemma relay_unit: "relay f (\<lambda>u. u) s q = (u, s') \<Longrightarrow> \<exists>v d1. q = (v, d1) \<and> s' = after s d1 \<and> (u = Inr () \<longleftrightarrow> v = Inr ())"
  by (cases q) (auto simp: relay_def split: sum.splits)

lemma link_save_snapshot:
  assumes "link_inv dir s" "tsdb_id i" "client_save_snapshot dir i ts data sealed s = (u, s')"
  shows "link_inv dir s' \<and> link_memo dir s' = link_memo dir s \<and> link_rows dir s' = link_rows dir s
      \<and> (\<forall>j. tsdb_id j \<longrightarrow> j \<noteq> i \<longrightarrow> link_snap dir s' j = link_snap dir s j)
      \<and> (\<forall>t d. link_snap dir s i = Some (t, d, True) \<longrightarrow> link_snap dir s' i = link_snap dir s i)
      \<and> (u = Inr () \<longrightarrow> valid_utf8 ts \<longrightarrow> valid_utf8 data \<longrightarrow> link_snap dir s' i = Some (ts, data, sealed))"
proof (cases "line_up s")
  case False
  have "\<forall>n m. ln_fault s n \<noteq> Some (True, m)" using assms(1) by (simp add: link_inv_def)
  from client_post_down [OF False this assms(3) [unfolded client_save_snapshot_def]]
  obtain e where "u = Inl e" "s' = s\<lparr>ln_tick := Suc (ln_tick s)\<rparr>" by blast
  then show ?thesis using assms(1) by (simp add: link_tick)
next
  case True
  have inv: "tsdb_inv dir (ln_disk s)" "texts_valid dir (ln_disk s)" "whole_writes (ln_disk s)" using assms(1) by (simp_all add: link_inv_def)
  have si: "sanitize i = i" using assms(2) by (simp add: tsdb_id_def sanitize_valid)
  obtain v d1 where q: "ts_save_snapshot dir i (sanitize ts) (sanitize data) sealed (ln_disk s) = (v, d1)"
    and s': "s' = after s d1" "u = Inr () \<longleftrightarrow> v = Inr ()"
    using relay_unit [OF assms(3) [unfolded client_save_snapshot_relayed [OF True] si]] by blast
  note L = ts_save_snapshot_laws [OF inv(1) assms(2) q]
  have t: "texts_valid dir d1" by (rule texts_valid_save_snapshot [OF inv assms(2) valid_sanitize valid_sanitize q])
  have "link_inv dir s'" unfolding s'(1)
    by (rule link_after(1) [OF assms(1) _ t ts_save_snapshot_files(1) [OF q]]) (use L(1) in \<open>simp add: touches_snap_def\<close>)
  then show ?thesis using L s'(2) valid_sanitize unfolding s'(1) link_after(2-4)
    by (simp add: link_defs touches_snap_def sanitize_valid)
qed

lemma sane_rowI:
  assumes "tsdb_id (re_snapshot_id r)" "tsdb_id (re_domino_id r)" "tsdb_hash (re_input_hash r)"
    and "valid_utf8 (re_output_hash r)" "valid_utf8 (re_output r)" "valid_utf8 (re_prev_link r)" "valid_utf8 (re_link r)"
  shows "sane_row r = r"
  using assms by (simp add: sane_row_def tsdb_id_def tsdb_hash_def sanitize_valid)

lemma sane_row_sane: "sane_row (sane_row r) = sane_row r"
  by (simp add: sane_row_def sanitize_valid valid_sanitize)

lemma link_save_result:
  assumes "link_inv dir s" "tsdb_id (re_snapshot_id r)" "tsdb_id (re_domino_id r)" "tsdb_hash (re_input_hash r)"
    and "client_save_result dir r s = (u, s')"
  shows "link_inv dir s' \<and> link_snap dir s' = link_snap dir s
      \<and> (\<forall>i d h v. link_memo dir s i d h = Some v \<longrightarrow> link_memo dir s' i d h = Some v)
      \<and> (\<forall>i. i \<noteq> re_snapshot_id r \<longrightarrow> link_rows dir s' i = link_rows dir s i)
      \<and> (u \<noteq> Inr () \<longrightarrow> link_rows dir s' = link_rows dir s)"
    and "u = Inr () \<Longrightarrow> list_all valid_utf8 [re_output_hash r, re_output r, re_prev_link r, re_link r] \<Longrightarrow>
      link_rows dir s' (re_snapshot_id r) = link_rows dir s (re_snapshot_id r) @ [r]
      \<and> (\<not> re_reused r \<longrightarrow> link_memo dir s' (re_snapshot_id r) (re_domino_id r) (re_input_hash r)
            = Some (re_output_hash r, re_output r))"
proof -
  have f: "\<forall>n m. ln_fault s n \<noteq> Some (True, m)" using assms(1) by (simp add: link_inv_def)
  have "(\<exists>e. u = Inl e) \<and> s' = s\<lparr>ln_tick := Suc (ln_tick s)\<rparr> \<or> line_up s"
    using client_post_down [OF _ f assms(5) [unfolded client_save_result_def]] by blast
  then consider e where "u = Inl e" "s' = s\<lparr>ln_tick := Suc (ln_tick s)\<rparr>" | "line_up s" by blast
  then have "link_inv dir s' \<and> link_snap dir s' = link_snap dir s
      \<and> (\<forall>i d h v. link_memo dir s i d h = Some v \<longrightarrow> link_memo dir s' i d h = Some v)
      \<and> (\<forall>i. i \<noteq> re_snapshot_id r \<longrightarrow> link_rows dir s' i = link_rows dir s i)
      \<and> (u \<noteq> Inr () \<longrightarrow> link_rows dir s' = link_rows dir s)
      \<and> (u = Inr () \<longrightarrow> list_all valid_utf8 [re_output_hash r, re_output r, re_prev_link r, re_link r] \<longrightarrow>
      link_rows dir s' (re_snapshot_id r) = link_rows dir s (re_snapshot_id r) @ [r]
      \<and> (\<not> re_reused r \<longrightarrow> link_memo dir s' (re_snapshot_id r) (re_domino_id r) (re_input_hash r)
            = Some (re_output_hash r, re_output r)))"
  proof cases
    case 1
    then show ?thesis using assms(1) by (simp add: link_tick)
  next
    case 2
    have inv: "tsdb_inv dir (ln_disk s)" "texts_valid dir (ln_disk s)" "whole_writes (ln_disk s)" using assms(1) by (simp_all add: link_inv_def)
    obtain v d1 where q: "ts_save_result dir (sane_row r) (ln_disk s) = (v, d1)" and s': "s' = after s d1" "u = Inr () \<longleftrightarrow> v = Inr ()"
      using relay_unit [OF assms(5) [unfolded client_save_result_relayed [OF 2]]] by blast
    have ids: "re_snapshot_id (sane_row r) = re_snapshot_id r" "re_domino_id (sane_row r) = re_domino_id r"
      "re_input_hash (sane_row r) = re_input_hash r"
      using assms(2-4) by (simp_all add: sane_row_def tsdb_id_def tsdb_hash_def sanitize_valid)
    note L = ts_save_result_laws [of dir "ln_disk s" "sane_row r" v d1, unfolded ids, OF inv(1) assms(2-4) q]
    have t: "texts_valid dir d1"
      by (rule texts_valid_save_result [OF inv(1,2) _ _ _ sane_row_sane q]) (simp_all add: ids assms)
    have fk: "dk_fault d1 = dk_fault (ln_disk s)"
      using q ts_save_memo_files ts_save_replay_files by (auto simp: ts_save_result_def split: if_splits prod.splits sum.splits)
    have li: "link_inv dir s'" unfolding s'(1) by (rule link_after(1) [OF assms(1) _ t fk]) (use L(1) in simp)
    have sr: "list_all valid_utf8 [re_output_hash r, re_output r, re_prev_link r, re_link r] \<Longrightarrow> sane_row r = r"
      using sane_rowI [OF assms(2-4)] by simp
    show ?thesis using li L s'(2) sr unfolding s'(1) link_after(2-4) by (auto simp: link_defs)
  qed
  then show "link_inv dir s' \<and> link_snap dir s' = link_snap dir s
      \<and> (\<forall>i d h v. link_memo dir s i d h = Some v \<longrightarrow> link_memo dir s' i d h = Some v)
      \<and> (\<forall>i. i \<noteq> re_snapshot_id r \<longrightarrow> link_rows dir s' i = link_rows dir s i)
      \<and> (u \<noteq> Inr () \<longrightarrow> link_rows dir s' = link_rows dir s)"
    "u = Inr () \<Longrightarrow> list_all valid_utf8 [re_output_hash r, re_output r, re_prev_link r, re_link r] \<Longrightarrow>
      link_rows dir s' (re_snapshot_id r) = link_rows dir s (re_snapshot_id r) @ [r]
      \<and> (\<not> re_reused r \<longrightarrow> link_memo dir s' (re_snapshot_id r) (re_domino_id r) (re_input_hash r)
            = Some (re_output_hash r, re_output r))" by blast+
qed

lemmas client_sel = tsdb_client_def backend.select_convs option.inject

interpretation tsdb_link: store_laws "tsdb_client dir" "link_inv dir" link_ok tsdb_id valid_utf8 tsdb_hash
  "link_snap dir" "link_memo dir" "link_rows dir" for dir
proof (unfold_locales, goal_cases)
  case 1 show ?case by (rule tsdb_id_hash)
next
  case 2 show ?case by (rule compute_str_valid)
next
  case 3 then show ?case by (simp add: tsdb_id_def)
next
  case 4 then show ?case by (rule link_memo_valid)
next
  case 5 then show ?case using read_frames(1) unfolding client_sel link_same_def by blast
next
  case 6 then show ?case using read_frames(3) unfolding client_sel link_same_def by blast
next
  case 7 then show ?case using read_frames(4) unfolding client_sel link_same_def by blast
next
  case 8 then show ?case using read_frames(5) unfolding client_sel link_same_def by blast
next
  case 9 then show ?case using read_frames(2) unfolding client_sel link_same_def by blast
next
  case 10 then show ?case using link_reads(1) unfolding client_sel by blast
next
  case 11 then show ?case using link_reads(3) unfolding client_sel by blast
next
  case 12 then show ?case using link_reads(4) unfolding client_sel by blast
next
  case (13 s i d ih oh out s')
  then have c: "client_get_latest dir i d s = (Inr (ih, oh, out), s')" by (simp add: client_sel)
  from link_reads(5) [OF 13(1-3) c] show ?case by fastforce
next
  case 14 then show ?case using link_reads(2) unfolding client_sel by blast
next
  case (15 s i ts data sealed u s')
  then have c: "client_save_snapshot dir i ts data sealed s = (u, s')" by (simp add: client_sel)
  show ?case using link_save_snapshot [OF 15(1,2) c] by blast
next
  case (16 s i ts data sealed s')
  then have c: "client_save_snapshot dir i ts data sealed s = (Inr (), s')" by (simp add: client_sel)
  show ?case using link_save_snapshot [OF 16(1,2) c] 16(3,4) by blast
next
  case (17 s r u s')
  then have c: "client_save_result dir r s = (u, s')" by (simp add: client_sel)
  show ?case using link_save_result(1) [OF 17(1-4) c] .
next
  case (18 s r s')
  then have c: "client_save_result dir r s = (Inr (), s')" by (simp add: client_sel)
  show ?case using link_save_result(2) [OF 18(1-4) c] 18(5-8) by simp
next
  case 19 then show ?case by (simp add: tsdb_client_def)
next
  case 20 show ?case by (rule tsdb_hash_compute)
qed



section \<open>The engine behind the service\<close>

definition demo_link :: "(nat \<Rightarrow> (bool \<times> string) option) \<Rightarrow> tsdb_link" where
  "demo_link f = \<lparr>ln_disk = demo_disk, ln_fault = f, ln_tick = 0\<rparr>"

lemma demo_disk_views: "ts_snap ''/t'' demo_disk i = None" "ts_memo ''/t'' demo_disk i x h = None" "ts_rows ''/t'' demo_disk i = []"
proof -
  have c: "clock_runs demo_disk" "\<forall>n. place ''/t'' [''replay'', n] \<notin> set (dk_dirs demo_disk)" "dk_files demo_disk = []"
    by (auto simp: demo_disk_def clock_runs_def)
  show "ts_snap ''/t'' demo_disk i = None" "ts_memo ''/t'' demo_disk i x h = None" "ts_rows ''/t'' demo_disk i = []"
    using empty_disk_inv(2-4) [OF demo_dir c(3,1,2)] by simp_all
qed

lemma demo_link_inv: "\<forall>n m. f n \<noteq> Some (True, m) \<Longrightarrow> link_inv ''/t'' (demo_link f)"
proof -
  have "file_at demo_disk k = None" for k by (simp add: file_at_def demo_disk_def)
  then have "texts_valid ''/t'' demo_disk"
    by (simp add: texts_valid_def sidecar_def snapshot_at_def stored_def demo_disk_views valid_utf8_ascii)
  then show "\<forall>n m. f n \<noteq> Some (True, m) \<Longrightarrow> link_inv ''/t'' (demo_link f)"
    using demo_disk_inv(1) by (simp add: link_inv_def demo_link_def whole_writes_def) (simp add: demo_disk_def)
qed





text \<open>
  C25 A lost answer hides a recorded result.  When the answer to \<open>SaveResult\<close> is lost after the
  server has recorded the row, the client reports an error although the row and its memo are
  stored; if the caller tries again and succeeds, the row is in the replay log twice.
\<close>

theorem lost_answer_hides_row:
  assumes "tsdb_inv dir (ln_disk s)" "tsdb_id (re_snapshot_id r)" "tsdb_id (re_domino_id r)" "tsdb_hash (re_input_hash r)"
    and "sane_row r = r" "ln_fault s (ln_tick s) = Some (True, m)" "ts_save_result dir r (ln_disk s) = (Inr (), d1)"
  shows "\<exists>s'. client_save_result dir r s = (Inl (io_err m), s') \<and> link_rows dir s' (re_snapshot_id r) = link_rows dir s (re_snapshot_id r) @ [r]
    \<and> (\<forall>s''. client_save_result dir r s' = (Inr (), s'') \<longrightarrow>
          link_rows dir s'' (re_snapshot_id r) = link_rows dir s (re_snapshot_id r) @ [r, r])"
proof -
  have v: "list_all valid_utf8 [re_output_hash r, re_output r, re_prev_link r, re_link r]"
    using arg_cong [OF assms(5), of re_output_hash] arg_cong [OF assms(5), of re_output] arg_cong [OF assms(5), of re_prev_link]
      arg_cong [OF assms(5), of re_link] valid_sanitize by (simp add: sane_row_def) metis
  let ?b = "json_obj (member_texts (row_members r))"
  let ?rq = "\<lparr>hq_method = ''POST'', hq_path = ''/v1/results'', hq_query = [], hq_body = ?b\<rparr>"
  have "serve dir ?rq (ln_disk s) = (http_created, d1)"
    using assms(5,7) by (simp add: serve_fixed handle_results_def unmarshal_members(1) [OF body_members_ok(2)] body_decoded
        del: replay_entry_of.simps)
  then have "send 10 dir ?rq s = (Inl (io_err m), after s d1)"
    using assms(6) by (simp add: send.simps exchange_def after_def Let_def)
  then have "client_post dir ''/v1/results'' ?b s = (Inl (io_err m), after s d1)" by (simp add: client_post_def)
  then have c: "client_save_result dir r s = (Inl (io_err m), after s d1)"
    by (simp add: client_save_result_def row_members_def member_texts_def member_defs)
  note L = ts_save_result_laws [OF assms(1-4,7)]
  have one: "ts_rows dir d1 (re_snapshot_id r) = ts_rows dir (ln_disk s) (re_snapshot_id r) @ [r]" using L(2) v by simp
  have two: "link_rows dir s'' (re_snapshot_id r) = link_rows dir s (re_snapshot_id r) @ [r, r]"
    if c2: "client_save_result dir r (after s d1) = (Inr (), s'')" for s''
  proof -
    have up: "line_up (after s d1)" using read_up(6) c2 unfolding client_save_result_def by blast
    have "ln_disk (after s d1) = d1" by (simp add: after_def)
    then obtain d2 where q: "ts_save_result dir r d1 = (Inr (), d2)" "s'' = after (after s d1) d2"
      using c2 unfolding client_save_result_relayed [OF up] relay_Inr assms(5) by auto
    have "ts_rows dir d2 (re_snapshot_id r) = ts_rows dir d1 (re_snapshot_id r) @ [r]"
      using ts_save_result_laws(2) [OF _ assms(2-4) q(1)] L(1) v by simp
    then show ?thesis using one q(2) by (simp add: after_def link_rows_def)
  qed
  show ?thesis using c one two by (auto simp: after_def link_rows_def)
qed

lemma lost_answer_hides_row_witness:
  "case client_save_result ''/t'' (demo_row True) (demo_link (\<lambda>_. Some (True, ''timeout''))) of (u, s') \<Rightarrow>
     u = Inl (io_err ''timeout'') \<and> link_rows ''/t'' s' ''i'' = [demo_row True]"
proof -
  let ?s = "demo_link (\<lambda>_. Some (True, ''timeout''))"
  obtain u d1 where q: "ts_save_result ''/t'' (demo_row True) demo_disk = (u, d1)" by fastforce
  obtain body where body: "replay_record_json \<lparr>rrec_snapshot_id = ''i'', rrec_domino_id = ''a'', rrec_input_hash = ''00000000'',
      rrec_output_hash = ''h'', rrec_reused = True, rrec_output = ''{}'', rrec_prev_link = '''', rrec_link = '''',
      rrec_created_at = 0\<rparr> = Inr body"
    using early_times by (simp add: record_json)
  have "plain_comp (replay_name 1 ''a'' ''00000000'')" by (rule replay_name_plain) (simp_all add: demo_id demo_hash)
  note pc = comps_paths(5) [OF demo_dir this]
  have dd: "dk_tick demo_disk = 0" "dk_clock demo_disk = int" "dk_fault demo_disk n = None"
    "set (dk_dirs demo_disk) = {place ''/t'' [''snapshots''], place ''/t'' [''memo''], place ''/t'' [''replay'']}" for n
    by (simp_all add: demo_disk_def)
  have u: "u = Inr ()"
    using q body by (auto simp: ts_save_result_def ts_save_replay_def demo_row_def disk_now_def dd disk_write_def pc Let_def)
  have r: "tsdb_id (re_snapshot_id (demo_row True))" "tsdb_id (re_domino_id (demo_row True))" "tsdb_hash (re_input_hash (demo_row True))"
    "sane_row (demo_row True) = demo_row True"
    using demo_id demo_hash sane_rowI [of "demo_row True"] by (auto simp: demo_row_def valid_utf8_ascii byte_in_def)
  have s: "tsdb_inv ''/t'' (ln_disk ?s)" "ln_fault ?s (ln_tick ?s) = Some (True, ''timeout'')" "ts_save_result ''/t'' (demo_row True) (ln_disk ?s) = (Inr (), d1)"
    using demo_disk_inv(1) q u by (simp_all add: demo_link_def)
  from lost_answer_hides_row [OF s(1) r s(2,3)] show ?thesis
    by (auto simp: link_rows_def demo_link_def demo_disk_views demo_row_def)
qed






end
