(* ===== verification/Spec2Isabelle.thy ===== *)
theory Spec2Isabelle
  imports Runs Replica Postgres System TsdbClient
begin

text \<open>
  Verification of the KBL compute engine, the Go module \<open>src/controller\<close>.

  \<^bold>\<open>The program.\<close>  A workflow is a chain of deterministic steps (dominos) over one sealed snapshot of
  data.  The engine (\<open>pkg/engine\<close>) computes the identity of the snapshot as a hash of its
  content, seals it in a store, and runs the steps in the order of the chain: the hash of a
  step's input is looked up in the memo table of the store, a miss is executed
  (\<open>pkg/executor\<close>, \<open>pkg/builtin\<close>), and each step appends one row to the snapshot's replay log,
  linked to the row before it by a hash.  Stores (\<open>pkg/store\<close>) are SQLite files, PostgreSQL
  databases or a TSDB service.  Gates (\<open>pkg/theory\<close>) refuse chains that are not
  deterministic or that read outside their causal past.  Around the engine is a Kubernetes
  operator (\<open>internal/controller\<close>): it runs workflows, chains of containers, single dominos and
  snapshots, turns a compute wheel from time slice to time slice, announces completed runs as
  events (\<open>pkg/events\<close>), routes the events to other universes (\<open>pkg/routing\<close>), and creates read
  replicas there, filled by a direct copy (\<open>pkg/replica\<close>) or by change data capture
  (\<open>pkg/cdc\<close>).

  \<^bold>\<open>Theories and the code they model.\<close>  Definitions bear the names of the Go functions in snake
  case; a record field is the Go field with a short prefix of its struct.

  \<^item> Foundations.  Prelude: errors, results, fault schedules, maps as association lists.  GoLib:
    the packages strings, strconv, fmt and path/filepath as far as they are used.  Float64: a
    double as an exact dyadic number, parsed and printed as Go does.  GoTime: calendar, RFC3339,
    durations.  Json and JsonTrip: \<open>encoding/json\<close> with UTF-8 repair, and what decoding an encoded
    value gives.  JsonTorn: no proper prefix of an encoded object decodes.  Sha256: the digest,
    executable.  World: clock, files, HTTP and the Julia interpreter as oracles.  Disk: a tree of
    files whose calls may fail and leave a file cut short.
  \<^item> The data of \<open>pkg/types\<close> and \<open>api/v1alpha1\<close>: Types, Api.
  \<^item> Identity and gates: Hash (\<open>pkg/hash\<close>); Purity, Spine, Aggregation (\<open>pkg/theory\<close>).
  \<^item> Stores: Backend (\<open>backend.go\<close>, \<open>once.go\<close>, \<open>errors.go\<close>), Contract (the locale
    \<open>store_laws\<close>: what every store owes its clients whatever fails; \<open>store_backend\<close>: besides, that it
    answers when nothing fails), Sqlite, Postgres (the two SQL stores, each interpreted as a
    \<open>store_backend\<close>), Tsdb (\<open>tsdb_engine.go\<close>: snapshots, memos and replay rows as JSON files),
    TsdbHttp (\<open>tsdb_handler.go\<close>, \<open>tsdb_client.go\<close>: the service and its client over a network that
    loses requests and answers), TsdbClient (the client taken together with the service),
    Resolve (\<open>resolve.go\<close>).  Engine and client of the TSDB are each interpreted as \<open>store_laws\<close>.
  \<^item> Running: Snapshot (\<open>pkg/snapshot\<close>), Builtin, Executor, Engine, Runs (the engine on its
    default store), TsdbRuns (the engine on the file store, and what interrupted calls leave).
    Engine's lemmas are proved once inside \<open>store_laws\<close> and \<open>store_backend\<close>.
  \<^item> Between universes: Events, Routing, Replica (the locale \<open>store_pair\<close>: two stores of the
    contract), Cdc.
  \<^item> The operator: Kube (what the API server answers and what is written to it), Universe,
    ChainBuild (\<open>pkg/dominochain\<close>), Convert (\<open>pkg/convert\<close>), Wheel (\<open>pkg/wheel\<close>), WheelCtl,
    Cluster and Operator (state and lemmas shared by the controllers that run stores),
    WorkflowCtl, ChainCtl, SnapshotCtl (snapshots and compute contexts), DominoCtl, ReplicaCtl,
    MultiverseCtl, and System, where every reconciler is a step of one relation.

  \<^bold>\<open>State.\<close>  A store is a value that operations return updated; a method that may fail returns
  \<open>'a res\<close>, that is \<open>Inl err\<close> or \<open>Inr\<close> of the value, and a Go panic is an error of kind
  \<open>KPanic\<close>.  I/O that may fail takes its outcome from a fault schedule, a function of the number
  of the call, so that a statement for all states is a statement for all failures.  The API
  server is the record \<open>kube\<close>: reads and the errors of writes are functions of the number of
  the call, and the attempted writes are logged.  A controller's state is a \<open>cluster\<close>: the
  server, the world, the bus, and for each database (\<open>opener\<close>: a SQLite path, a DSN, an
  endpoint) the state of its store.

  \<^bold>\<open>What the groups of lemmas show.\<close>
  \<^item> History: no outcome of a run, a copy, an application of change data or any sequence of
    reconciles rewrites a sealed snapshot or a memoized output (Runs, TsdbRuns, TsdbClient, Replica,
    Cdc, System).
  \<^item> The log: rows appended by a run form a verified spine over a prefix of the chain; one head
    link determines the log unless SHA-256 collides; a second run evaluates nothing (Spine, Engine,
    Runs, DominoCtl).
  \<^item> Status: what a controller reports is justified by what the stores hold (WorkflowCtl,
    ChainCtl, SnapshotCtl, DominoCtl, ReplicaCtl, MultiverseCtl, System).
  \<^item> The wheel: its position after n completions, its stop, its course under arbitrary answers of
    the server, and its progress (Wheel, WheelCtl).
  \<^item> Interchangeability: PostgreSQL agrees with SQLite call by call; the controller's copy is
    \<open>Materialize\<close>; \<open>RunSingleFrom\<close> is a step of \<open>Run\<close>; a call of the TSDB client is the call of
    the engine behind the service.
  \<^item> Encodings: events, wheel status and change data come back from their JSON.
  \<^item> Errors the code has: a Kafka retry that loses the event, a multiverse that stays degraded, a
    chain over a path that cannot complete, a panic without a sync block, an identity that differs,
    a seal interrupted half way that is final, files cut short that block a step or every replay, a
    lost answer that hides a recorded row.

  \<^bold>\<open>Bounds and fuel.\<close>  Go's \<open>int\<close> and \<open>time.Duration\<close> are 64-bit words where arithmetic could
  wrap (wheel counters, LeafCount, intervals), instants are integers of nanoseconds.  Recursion is
  structural or has a proved measure; the JSON parser and the polling loops take as fuel the
  length of their input or their deadline, which each step consumes.

  \<^bold>\<open>What is relied on.\<close>  Text case mapping is ASCII's; zones are UTC or a fixed offset.  Kafka and
  Debezium are a log of messages with a fault schedule and a list of reads.  The interpreter, file
  sources and HTTP sources answer as the record \<open>world\<close> says, arbitrarily.  A file is written in place: a
  write that fails leaves the file alone or holds a proper prefix of the text; the clock of the TSDB
  node moves on between two calls and runs from 1970 on.  \<open>http.ServeMux\<close> and \<open>http.Client\<close> redirect as documented,
  and a query arrives as it was encoded.  The reconciles of
  different objects interleave as whole steps, as each works on the answers it was given.  The
  hash statements say: equal, or here are two texts with the same digest.

  \<^bold>\<open>Not modelled.\<close>  Generated deep copies and scheme registration (values in HOL are copies); the
  registration of watches in \<open>SetupWithManager\<close>; flag parsing, printing and process start-up of
  the commands, and the review walkthrough, which only print; YAML reading; the environment
  defaults of the Julia interpreter's configuration; \<open>EnsembleEntropyBits\<close>, which sums floats in the random order of
  a Go map; logging, and the closing of files and connections beyond its error.
\<close>

end
